(* ===== verification/Prelude.thy ===== *)
theory Prelude
  imports Main "HOL-Library.Word" "HOL-Library.Monad_Syntax"
begin

unbundle bit_operations_syntax

text \<open>
  Shared vocabulary of the development: the machine-integer type synonyms, the status codes of
  \<^verbatim>\<open>lk/common/include/err.h\<close>, the encoding of a kernel panic, and the generic lemmas on lists,
  options and words that the component theories use.

  A kernel operation that can panic (a failed \<^verbatim>\<open>ASSERT\<close>/\<^verbatim>\<open>DEBUG_ASSERT\<close>, an explicit
  \<^verbatim>\<open>panic\<close>, a NULL or dangling pointer dereference, an out-of-bounds array access) has a result of
  type \<^typ>\<open>'a option\<close>; \<^term>\<open>None\<close> is the panic.  C return codes are integers, negative on error.
\<close>

named_theorems err_simps \<open>the status codes as integers\<close>
named_theorems frame_simps \<open>fields an operation does not write\<close>
named_theorems inv_intros \<open>operations that keep the component invariant\<close>

type_synonym byte = "8 word"
type_synonym u16 = "16 word"
type_synonym u32 = "32 word"
type_synonym u64 = "64 word"

section \<open>Status codes\<close>

definition NO_ERROR :: int where [err_simps]: "NO_ERROR = 0"
definition ERR_NOT_FOUND :: int where [err_simps]: "ERR_NOT_FOUND = -2"
definition ERR_NOT_READY :: int where [err_simps]: "ERR_NOT_READY = -3"
definition ERR_NO_MSG :: int where [err_simps]: "ERR_NO_MSG = -4"
definition ERR_NO_MEMORY :: int where [err_simps]: "ERR_NO_MEMORY = -5"
definition ERR_ALREADY_STARTED :: int where [err_simps]: "ERR_ALREADY_STARTED = -6"
definition ERR_NOT_VALID :: int where [err_simps]: "ERR_NOT_VALID = -7"
definition ERR_INVALID_ARGS :: int where [err_simps]: "ERR_INVALID_ARGS = -8"
definition ERR_NOT_ENOUGH_BUFFER :: int where [err_simps]: "ERR_NOT_ENOUGH_BUFFER = -9"
definition ERR_TIMED_OUT :: int where [err_simps]: "ERR_TIMED_OUT = -13"
definition ERR_ALREADY_EXISTS :: int where [err_simps]: "ERR_ALREADY_EXISTS = -14"
definition ERR_CHANNEL_CLOSED :: int where [err_simps]: "ERR_CHANNEL_CLOSED = -15"
definition ERR_NOT_ALLOWED :: int where [err_simps]: "ERR_NOT_ALLOWED = -17"
definition ERR_NOT_SUPPORTED :: int where [err_simps]: "ERR_NOT_SUPPORTED = -24"
definition ERR_TOO_BIG :: int where [err_simps]: "ERR_TOO_BIG = -25"
definition ERR_BAD_STATE :: int where [err_simps]: "ERR_BAD_STATE = -31"
definition ERR_BAD_LEN :: int where [err_simps]: "ERR_BAD_LEN = -32"
definition ERR_NOT_CONFIGURED :: int where [err_simps]: "ERR_NOT_CONFIGURED = -38"
definition ERR_FAULT :: int where [err_simps]: "ERR_FAULT = -40"
definition ERR_NO_RESOURCES :: int where [err_simps]: "ERR_NO_RESOURCES = -41"
definition ERR_BAD_HANDLE :: int where [err_simps]: "ERR_BAD_HANDLE = -42"
definition ERR_ACCESS_DENIED :: int where [err_simps]: "ERR_ACCESS_DENIED = -43"

section \<open>Panics\<close>

text \<open>\<^verbatim>\<open>lk/common/include/assert.h\<close>: a failed assertion panics.\<close>

definition ASSERT :: "bool \<Rightarrow> unit option" where
  "ASSERT b = (if b then Some () else None)"

lemma ASSERT_True [simp]: "ASSERT True = Some ()"
  by (simp add: ASSERT_def)

lemma ASSERT_False [simp]: "ASSERT False = None"
  by (simp add: ASSERT_def)

lemma ASSERT_eq_Some [simp]: "ASSERT b = Some u \<longleftrightarrow> b"
  by (simp add: ASSERT_def)

lemma bind_Some_iff: "(m \<bind> f) = Some y \<longleftrightarrow> (\<exists>x. m = Some x \<and> f x = Some y)"
  by (cases m) auto

text \<open>Rules for what holds of the result, if there is one.\<close>

lemma pred_bind: "pred_option Q m \<Longrightarrow> (\<And>x. Q x \<Longrightarrow> pred_option P (f x)) \<Longrightarrow> pred_option P (m \<bind> f)"
  by (cases m) auto

lemma pred_bind_any: "(\<And>x. m = Some x \<Longrightarrow> pred_option P (f x)) \<Longrightarrow> pred_option P (m \<bind> f)"
  by (cases m) auto

lemma pred_Some: "P x \<Longrightarrow> pred_option P (Some x)"
  by simp

lemma pred_if: "(b \<Longrightarrow> pred_option P x) \<Longrightarrow> (\<not> b \<Longrightarrow> pred_option P y) \<Longrightarrow> pred_option P (if b then x else y)"
  by simp

lemmas pred_rules = pred_bind_any pred_Some pred_if

lemma pred_optionD: "pred_option P m \<Longrightarrow> m = Some x \<Longrightarrow> P x"
  by simp

section \<open>Lists\<close>

lemma nth_update_if:
  "i < length xs \<Longrightarrow> xs[i := v] ! j = (if j = i then v else xs ! j)"
  by (cases "j = i") simp_all

lemma find_upt_Some:
  "find P [0..<n] = Some i \<longleftrightarrow> i < n \<and> P i \<and> (\<forall>j<i. \<not> P j)"
  by (auto simp: find_Some_iff dest: less_trans intro!: exI [of _ i])

lemma find_upt_None: "find P [0..<n] = None \<longleftrightarrow> (\<forall>j<n. \<not> P j)"
  by (auto simp: find_None_iff)

lemma remove1_append_notin: "x \<notin> set xs \<Longrightarrow> remove1 x (xs @ ys) = xs @ remove1 x ys"
  by (simp add: remove1_append)

lemma distinct_remove1_iff:
  "distinct xs \<Longrightarrow> y \<in> set (remove1 x xs) \<longleftrightarrow> y \<in> set xs \<and> y \<noteq> x"
  by (simp add: set_remove1_eq)

section \<open>Words\<close>

lemma unat_of_nat_less: "n < 2 ^ LENGTH('a::len) \<Longrightarrow> unat (of_nat n :: 'a word) = n"
  by (simp add: unat_of_nat)

lemma unat_ucast_u32: "unat (ucast (w :: u32) :: u64) = unat w"
proof -
  have "unat w < 2 ^ 32" using unsigned_less [of w] by simp
  then show ?thesis by (simp add: unsigned_ucast_eq take_bit_nat_eq_self)
qed

lemma unat_ucast_u64: "unat (ucast (w :: u64) :: u32) = unat w mod 2 ^ 32"
  by (simp add: unsigned_ucast_eq take_bit_eq_mod)

lemma bit_one_push: "bit (push_bit k (1 :: 'a::len word)) j \<longleftrightarrow> j = k \<and> k < LENGTH('a)"
  by (auto simp: bit_simps)

end
