(* ===== verification/Bitmap.thy ===== *)
theory Bitmap
  imports Prelude
begin

text \<open>
  The slot bitmaps of \<^verbatim>\<open>lk/common/include/bits.h\<close>, on the 64-bit target: an array of
  \<^verbatim>\<open>unsigned long\<close>.  \<^verbatim>\<open>bitmap_set\<close> and \<^verbatim>\<open>bitmap_clear\<close> go through a 32-bit \<^verbatim>\<open>int\<close> view
  of the array (little endian), \<^verbatim>\<open>bitmap_test\<close> and \<^verbatim>\<open>bitmap_ffz\<close> through the 64-bit view;
  the lemmas show that the two views agree.  The locale \<open>slot_bitmap\<close> is the contract the
  handle table of a user context and the endpoint table of a tipc device rely on.
\<close>

type_synonym bitmap = "u64 list"

definition BITMAP_NUM_WORDS :: "nat \<Rightarrow> nat" where
  "BITMAP_NUM_WORDS x = (x + 64 - 1) div 64"

text \<open>The 32-bit mask of \<open>bitmap_set\<close>, placed where the \<^verbatim>\<open>int\<close> view puts it in the 64-bit word.\<close>

definition int_view_mask :: "nat \<Rightarrow> u64" where
  "int_view_mask n = push_bit (32 * ((n div 32) mod 2)) (push_bit (n mod 32) 1)"

definition bitmap_set :: "bitmap \<Rightarrow> nat \<Rightarrow> bitmap" where
  "bitmap_set bm n = bm[n div 64 := bm ! (n div 64) OR int_view_mask n]"

definition bitmap_clear :: "bitmap \<Rightarrow> nat \<Rightarrow> bitmap" where
  "bitmap_clear bm n = bm[n div 64 := bm ! (n div 64) AND NOT (int_view_mask n)]"

definition bitmap_test :: "bitmap \<Rightarrow> nat \<Rightarrow> bool" where
  "bitmap_test bm n \<longleftrightarrow> (bm ! (n div 64)) AND push_bit (n mod 64) 1 \<noteq> 0"

text \<open>\<^verbatim>\<open>__builtin_ffsl\<close>: one plus the index of the lowest set bit, 0 for zero.\<close>

definition ffsl :: "u64 \<Rightarrow> nat" where
  "ffsl x = (case find (bit x) [0..<64] of None \<Rightarrow> 0 | Some i \<Rightarrow> i + 1)"

definition ffz :: "u64 \<Rightarrow> nat" where
  "ffz x = ffsl (NOT x) - 1"

fun bitmap_ffz_loop :: "bitmap \<Rightarrow> nat \<Rightarrow> nat \<Rightarrow> nat \<Rightarrow> int" where
  "bitmap_ffz_loop bm numbits i 0 = -1"
| "bitmap_ffz_loop bm numbits i (Suc k) =
     (if bm ! i = NOT 0 then bitmap_ffz_loop bm numbits (Suc i) k
      else let b = i * 64 + ffz (bm ! i) in if b < numbits then int b else -1)"

definition bitmap_ffz :: "bitmap \<Rightarrow> nat \<Rightarrow> int" where
  "bitmap_ffz bm numbits = bitmap_ffz_loop bm numbits 0 (BITMAP_NUM_WORDS numbits)"

definition bitmap_empty :: "nat \<Rightarrow> bitmap" where
  "bitmap_empty numbits = replicate (BITMAP_NUM_WORDS numbits) 0"

definition bitmap_wf :: "nat \<Rightarrow> bitmap \<Rightarrow> bool" where
  "bitmap_wf numbits bm \<longleftrightarrow> length bm = BITMAP_NUM_WORDS numbits"

section \<open>The two views agree\<close>

lemma int_view_offset: "32 * ((n div 32) mod 2) + n mod 32 = (n mod 64 :: nat)"
proof -
  have "n mod (32 * 2) = 32 * (n div 32 mod 2) + n mod 32"
    by (rule mod_mult2_eq)
  then show ?thesis by simp
qed

lemma int_view_mask_eq: "int_view_mask n = push_bit (n mod 64) 1"
proof -
  have "32 * ((n div 32) mod 2) + n mod 32 = n mod 64"
    by (rule int_view_offset)
  then show ?thesis
    by (simp add: int_view_mask_def push_bit_push_bit del: push_bit_of_1)
qed

lemma bitmap_test_bit: "bitmap_test bm n \<longleftrightarrow> bit (bm ! (n div 64)) (n mod 64)"
proof -
  have "(w AND push_bit (n mod 64) 1 \<noteq> 0) \<longleftrightarrow> bit w (n mod 64)" for w :: u64
    by (simp add: bit_iff_and_push_bit_not_eq_0)
  then show ?thesis by (simp add: bitmap_test_def)
qed

lemma slot_word_less: "n < numbits \<Longrightarrow> n div 64 < BITMAP_NUM_WORDS numbits"
  unfolding BITMAP_NUM_WORDS_def by linarith

lemma slot_eq_iff: "(i div 64 = j div 64 \<and> i mod 64 = j mod 64) \<longleftrightarrow> i = (j::nat)"
  by (metis div_mult_mod_eq)

lemma bitmap_set_test:
  assumes "bitmap_wf numbits bm" "n < numbits"
  shows "bitmap_test (bitmap_set bm n) m \<longleftrightarrow> m = n \<or> bitmap_test bm m"
proof -
  have "n div 64 < length bm"
    using assms slot_word_less by (simp add: bitmap_wf_def)
  then show ?thesis
    using slot_eq_iff [of m n]
    by (auto simp: bitmap_set_def bitmap_test_bit int_view_mask_eq nth_update_if
        bit_or_iff bit_exp_iff split: if_splits)
qed

lemma bitmap_clear_test:
  assumes "bitmap_wf numbits bm" "n < numbits"
  shows "bitmap_test (bitmap_clear bm n) m \<longleftrightarrow> m \<noteq> n \<and> bitmap_test bm m"
proof -
  have "n div 64 < length bm"
    using assms slot_word_less by (simp add: bitmap_wf_def)
  moreover have "m mod 64 < 64" by simp
  ultimately show ?thesis
    using slot_eq_iff [of m n]
    by (auto simp: bitmap_clear_def bitmap_test_bit int_view_mask_eq nth_update_if
        bit_and_iff bit_not_iff bit_exp_iff split: if_splits)
qed

lemma bitmap_wf_set [inv_intros]: "bitmap_wf k bm \<Longrightarrow> bitmap_wf k (bitmap_set bm n)"
  by (simp add: bitmap_wf_def bitmap_set_def)

lemma bitmap_wf_clear [inv_intros]: "bitmap_wf k bm \<Longrightarrow> bitmap_wf k (bitmap_clear bm n)"
  by (simp add: bitmap_wf_def bitmap_clear_def)

lemma bitmap_wf_empty [inv_intros]: "bitmap_wf k (bitmap_empty k)"
  by (simp add: bitmap_wf_def bitmap_empty_def)

lemma bitmap_test_empty: "n < k \<Longrightarrow> \<not> bitmap_test (bitmap_empty k) n"
  using slot_word_less [of n k] by (simp add: bitmap_test_def bitmap_empty_def)

section \<open>Find first zero\<close>

lemma ffz_props:
  assumes "x \<noteq> NOT (0 :: u64)"
  shows "ffz x < 64 \<and> \<not> bit x (ffz x) \<and> (\<forall>j < ffz x. bit x j)"
proof -
  have "\<exists>i<64. bit (NOT x) i"
  proof (rule ccontr)
    assume "\<not> (\<exists>i<64. bit (NOT x) i)"
    then have "x = NOT 0"
      by (intro bit_word_eqI) (auto simp: bit_not_iff)
    with assms show False by simp
  qed
  then obtain i where i: "find (bit (NOT x)) [0..<64] = Some i"
    by (cases "find (bit (NOT x)) [0..<64]") (auto simp: find_upt_None simp del: upt_rec_numeral)
  then have *: "i < 64" "bit (NOT x) i" "\<forall>j<i. \<not> bit (NOT x) j"
    using i [unfolded find_upt_Some] by simp_all
  then have "\<not> bit x i" "\<forall>j<i. bit x j"
    by (auto simp: bit_not_iff)
  then show ?thesis
    using i * by (simp add: ffz_def ffsl_def)
qed

lemma all_ones_bit: "i < 64 \<Longrightarrow> bit (NOT 0 :: u64) i"
  by (simp add: bit_not_iff)

lemma bitmap_ffz_loop_least:
  assumes "bitmap_ffz_loop bm numbits i k = int b" "\<forall>j < i * 64. bitmap_test bm j"
  shows "b < numbits \<and> \<not> bitmap_test bm b \<and> (\<forall>j<b. bitmap_test bm j)"
  using assms
proof (induction k arbitrary: i)
  case 0
  then show ?case by simp
next
  case (Suc k)
  show ?case
  proof (cases "bm ! i = NOT 0")
    case True
    have "\<forall>j < Suc i * 64. bitmap_test bm j"
    proof (intro allI impI)
      fix j assume "j < Suc i * 64"
      then have "j < i * 64 \<or> j div 64 = i"
        by (simp add: mult_Suc) linarith
      then show "bitmap_test bm j"
        using Suc.prems(2) all_ones_bit [of "j mod 64"] True by (auto simp: bitmap_test_bit)
    qed
    moreover have "bitmap_ffz_loop bm numbits (Suc i) k = int b"
      using True Suc.prems(1) by simp
    ultimately show ?thesis by (intro Suc.IH) 
  next
    case False
    note p = ffz_props [OF False]
    with False Suc.prems(1) have b: "b = i * 64 + ffz (bm ! i)" "b < numbits"
      by (simp_all add: Let_def split: if_splits)
    have "bitmap_test bm j" if "j < b" for j
    proof (cases "j < i * 64")
      case True
      with Suc.prems(2) show ?thesis by simp
    next
      case False
      with that b p have div: "j div 64 = i" by linarith
      then have "j = i * 64 + j mod 64" using div_mult_mod_eq [of j 64] by simp
      with that b have "j mod 64 < ffz (bm ! i)" by linarith
      with p div show ?thesis by (simp add: bitmap_test_bit)
    qed
    with b p show ?thesis by (simp add: bitmap_test_bit)
  qed
qed

lemma bitmap_ffz_loop_none:
  assumes "bitmap_ffz_loop bm numbits i k < 0" "\<forall>j < i * 64. bitmap_test bm j"
    "numbits \<le> (i + k) * 64" "n < numbits"
  shows "bitmap_test bm n"
  using assms
proof (induction k arbitrary: i)
  case 0
  then show ?case by simp
next
  case (Suc k)
  show ?case
  proof (cases "bm ! i = NOT 0")
    case True
    have "bitmap_test bm j" if "j < Suc i * 64" for j
    proof -
      from that have "j < i * 64 \<or> j div 64 = i"
        by (simp add: mult_Suc) linarith
      then show ?thesis
        using Suc.prems(2) all_ones_bit [of "j mod 64"] True by (auto simp: bitmap_test_bit)
    qed
    moreover have "bitmap_ffz_loop bm numbits (Suc i) k < 0"
      using True Suc.prems(1) by simp
    moreover have "numbits \<le> (Suc i + k) * 64"
      using Suc.prems(3) by (simp add: algebra_simps)
    ultimately show ?thesis using Suc.prems(4) by (intro Suc.IH) auto
  next
    case False
    note p = ffz_props [OF False]
    with False Suc.prems have le: "n < i * 64 + ffz (bm ! i)"
      by (simp add: Let_def split: if_splits)
    show ?thesis
    proof (cases "n < i * 64")
      case True
      with Suc.prems(2) show ?thesis by simp
    next
      case False
      with le p have div: "n div 64 = i" by linarith
      then have "n = i * 64 + n mod 64" using div_mult_mod_eq [of n 64] by simp
      with le have "n mod 64 < ffz (bm ! i)" by linarith
      with p div show ?thesis by (simp add: bitmap_test_bit)
    qed
  qed
qed

lemma bitmap_ffz_lower: "-1 \<le> bitmap_ffz bm numbits"
proof -
  have "-1 \<le> bitmap_ffz_loop bm numbits i k" for i k
    by (induction k arbitrary: i) (simp_all add: Let_def)
  then show ?thesis by (simp add: bitmap_ffz_def)
qed

lemma bitmap_ffz_some:
  assumes "0 \<le> bitmap_ffz bm numbits"
  shows "nat (bitmap_ffz bm numbits) < numbits"
    and "\<not> bitmap_test bm (nat (bitmap_ffz bm numbits))"
    and "j < nat (bitmap_ffz bm numbits) \<Longrightarrow> bitmap_test bm j"
proof -
  have eq: "bitmap_ffz_loop bm numbits 0 (BITMAP_NUM_WORDS numbits) =
      int (nat (bitmap_ffz bm numbits))"
    using assms by (simp add: bitmap_ffz_def)
  from bitmap_ffz_loop_least [OF eq]
  show "nat (bitmap_ffz bm numbits) < numbits"
    and "\<not> bitmap_test bm (nat (bitmap_ffz bm numbits))"
    and "j < nat (bitmap_ffz bm numbits) \<Longrightarrow> bitmap_test bm j"
    by simp_all
qed

lemma bitmap_ffz_none:
  assumes "bitmap_ffz bm numbits < 0" "n < numbits"
  shows "bitmap_test bm n"
proof -
  have "numbits \<le> (0 + BITMAP_NUM_WORDS numbits) * 64"
    unfolding BITMAP_NUM_WORDS_def by (simp add: mult.commute)
  with assms show ?thesis
    by (intro bitmap_ffz_loop_none [of bm numbits 0 "BITMAP_NUM_WORDS numbits"])
       (simp_all add: bitmap_ffz_def)
qed

section \<open>The slot allocator contract\<close>

text \<open>
  What a table keyed by small integers needs of its bitmap: \<open>find\<close> answers with the lowest
  free slot or, negative, with "full"; \<open>mark\<close> and \<open>unmark\<close> change exactly one slot.
\<close>

locale slot_bitmap =
  fixes wf :: "'b \<Rightarrow> bool"
    and used :: "'b \<Rightarrow> nat \<Rightarrow> bool"
    and mark :: "'b \<Rightarrow> nat \<Rightarrow> 'b"
    and unmark :: "'b \<Rightarrow> nat \<Rightarrow> 'b"
    and find :: "'b \<Rightarrow> int"
    and cap :: nat
  assumes find_free: "wf b \<Longrightarrow> 0 \<le> find b \<Longrightarrow> nat (find b) < cap \<and> \<not> used b (nat (find b))"
    and find_lowest: "wf b \<Longrightarrow> 0 \<le> find b \<Longrightarrow> j < nat (find b) \<Longrightarrow> used b j"
    and find_full: "wf b \<Longrightarrow> find b < 0 \<Longrightarrow> n < cap \<Longrightarrow> used b n"
    and mark_used: "wf b \<Longrightarrow> n < cap \<Longrightarrow> used (mark b n) m \<longleftrightarrow> m = n \<or> used b m"
    and unmark_used: "wf b \<Longrightarrow> n < cap \<Longrightarrow> used (unmark b n) m \<longleftrightarrow> m \<noteq> n \<and> used b m"
    and wf_mark: "wf b \<Longrightarrow> wf (mark b n)"
    and wf_unmark: "wf b \<Longrightarrow> wf (unmark b n)"
begin

definition slots :: "'b \<Rightarrow> nat set" where
  "slots b = {n. n < cap \<and> used b n}"

lemma finite_slots [simp]: "finite (slots b)"
  by (simp add: slots_def)

lemma find_slot_new: "wf b \<Longrightarrow> 0 \<le> find b \<Longrightarrow> nat (find b) \<in> {..<cap} - slots b"
  using find_free by (auto simp: slots_def)

lemma slots_mark: "wf b \<Longrightarrow> n < cap \<Longrightarrow> slots (mark b n) = insert n (slots b)"
  by (auto simp: slots_def mark_used)

lemma slots_unmark: "wf b \<Longrightarrow> n < cap \<Longrightarrow> slots (unmark b n) = slots b - {n}"
  by (auto simp: slots_def unmark_used)

lemma find_full_iff: "wf b \<Longrightarrow> find b < 0 \<longleftrightarrow> slots b = {..<cap}"
  using find_full find_free by (fastforce simp: slots_def not_less)

lemma card_alloc:
  assumes "wf b" "0 \<le> find b"
  shows "card (slots (mark b (nat (find b)))) = Suc (card (slots b))"
  using find_slot_new [OF assms] assms find_free by (simp add: slots_mark)

lemma free_makes_room: "wf b \<Longrightarrow> n < cap \<Longrightarrow> 0 \<le> find (unmark b n)"
  using find_full_iff [OF wf_unmark] slots_unmark by (metis Diff_iff lessThan_iff not_less singletonI)

lemma alloc_free_slots:
  "wf b \<Longrightarrow> 0 \<le> find b \<Longrightarrow> slots (unmark (mark b (nat (find b))) (nat (find b))) = slots b"
  using find_slot_new find_free by (simp add: slots_mark slots_unmark wf_mark)

end

lemma bitmap_slot_bitmap:
  "slot_bitmap (bitmap_wf k) bitmap_test bitmap_set bitmap_clear (\<lambda>b. bitmap_ffz b k) k"
  by unfold_locales
     (auto simp: bitmap_set_test bitmap_clear_test bitmap_ffz_some bitmap_ffz_none inv_intros)

end
