(* ===== verification/SecureUart.thy ===== *)
theory SecureUart
  imports Prelude "HOL-Library.Sublist"
begin

text \<open>
  The secure serial port: \<^verbatim>\<open>tegra_common/secure_port.c\<close>, the combined UART of
  \<^verbatim>\<open>t18x/combined_uart.c\<close> it can be routed to, and the two system calls of
  \<^verbatim>\<open>lib/trusty/secure_uart.c\<close> that expose it to trusted applications.

  The hardware is a list of observations: the values the line-status register (or the mailbox
  register) will show, read by read, the readings of the microsecond clock, and the bytes the
  receive register will hold.  A polling loop consumes observations; when they run out the loop
  is still polling and the model's result is \<^term>\<open>None\<close>, as it also is for an access outside
  \<^verbatim>\<open>uart_base\<close> or a faulting pointer.
\<close>

definition TEGRA_UART_NONE :: u32 where "TEGRA_UART_NONE = 0"
definition TEGRA_COMBUART_ID :: u32 where "TEGRA_COMBUART_ID = 0xfe"
definition UART_TIMEOUT_US :: u64 where "UART_TIMEOUT_US = 500 * 1000"
definition TX_TIMEOUT_US :: u64 where "TX_TIMEOUT_US = 500 * 1000"

definition LF :: byte where "LF = 10"
definition CR :: byte where "CR = 13"

text \<open>The six entries of \<^verbatim>\<open>uart_base\<close>; an index outside is out of bounds.\<close>

datatype uart_id = UartNone | UartA | UartB | UartC | UartD | UartE

definition uart_base :: "uart_id list" where
  "uart_base = [UartNone, UartA, UartB, UartC, UartD, UartE]"

definition uart_at :: "u32 \<Rightarrow> uart_id option" where
  "uart_at port = (if unat port < length uart_base then Some (uart_base ! unat port) else None)"

record uart =
  disable_secure_port :: bool
  secure_port :: u32
  putc_timed_out :: bool
  getc_timed_out :: bool
  comb_timed_out :: bool
  lsr_reads :: "byte list"
  rhr_reads :: "byte list"
  mbox_reads :: "u32 list"
  clock_reads :: "u64 list"
  thr_writes :: "(uart_id \<times> byte) list"
  mbox_writes :: "u32 list"

definition current_time_hires :: "uart \<Rightarrow> (u64 \<times> uart) option" where
  "current_time_hires s = (case clock_reads s of [] \<Rightarrow> None
     | c # cs \<Rightarrow> Some (c, s\<lparr>clock_reads := cs\<rparr>))"

definition secure_write_uart_reg :: "u32 \<Rightarrow> byte \<Rightarrow> uart \<Rightarrow> uart option" where
  "secure_write_uart_reg port data s = do {
     b \<leftarrow> uart_at port;
     Some (s\<lparr>thr_writes := thr_writes s @ [(b, data)]\<rparr>) }"

text \<open>Reads of \<^verbatim>\<open>UART_LSR\<close> and of \<^verbatim>\<open>UART_RHR\<close> through \<^verbatim>\<open>secure_read_uart_reg\<close>.\<close>

definition secure_read_uart_lsr :: "u32 \<Rightarrow> uart \<Rightarrow> (byte \<times> uart) option" where
  "secure_read_uart_lsr port s = do {
     _ \<leftarrow> uart_at port;
     case lsr_reads s of [] \<Rightarrow> None | l # ls \<Rightarrow> Some (l, s\<lparr>lsr_reads := ls\<rparr>) }"

definition secure_read_uart_rhr :: "u32 \<Rightarrow> uart \<Rightarrow> (byte \<times> uart) option" where
  "secure_read_uart_rhr port s = do {
     _ \<leftarrow> uart_at port;
     case rhr_reads s of [] \<Rightarrow> None | r # rs \<Rightarrow> Some (r, s\<lparr>rhr_reads := rs\<rparr>) }"

text \<open>
  The \<^verbatim>\<open>while\<close> loop that both \<^verbatim>\<open>secure_uart_putc\<close> and \<^verbatim>\<open>secure_uart_getc\<close> open with:
  poll until one of the bits of \<open>rdy\<close> is set, give up at once when the previous call timed out,
  give up after 500 ms otherwise.  The result says whether the line became ready and the new
  value of the static \<^verbatim>\<open>timed_out\<close> flag, with the observations left.
\<close>

fun poll_lsr :: "byte \<Rightarrow> bool \<Rightarrow> u64 \<Rightarrow> byte list \<Rightarrow> u64 list
    \<Rightarrow> (bool \<times> bool \<times> byte list \<times> u64 list) option" where
  "poll_lsr rdy timed_out start [] cs = None"
| "poll_lsr rdy timed_out start (l # ls) cs =
     (if l AND rdy \<noteq> 0 then Some (True, timed_out, ls, cs)
      else if timed_out then Some (False, True, ls, cs)
      else (case cs of [] \<Rightarrow> None
            | c # cs' \<Rightarrow> if UART_TIMEOUT_US \<le> c - start then Some (False, True, ls, cs')
                        else poll_lsr rdy timed_out start ls cs'))"

definition secure_uart_putc :: "u32 \<Rightarrow> byte \<Rightarrow> uart \<Rightarrow> (int \<times> uart) option" where
  "secure_uart_putc port c s = do {
     (start, s1) \<leftarrow> current_time_hires s;
     _ \<leftarrow> uart_at port;
     (ready, timed_out, ls, cs) \<leftarrow>
       poll_lsr (push_bit 5 1) (putc_timed_out s1) start (lsr_reads s1) (clock_reads s1);
     let s2 = s1\<lparr>lsr_reads := ls, clock_reads := cs, putc_timed_out := timed_out\<rparr>;
     if ready then do {
       s3 \<leftarrow> secure_write_uart_reg port c (s2\<lparr>putc_timed_out := False\<rparr>);
       Some (0, s3) }
     else Some (-1, s2) }"

definition secure_uart_getc :: "u32 \<Rightarrow> bool \<Rightarrow> uart \<Rightarrow> (int \<times> uart) option" where
  "secure_uart_getc port wait s = do {
     (start, s1) \<leftarrow> current_time_hires s;
     _ \<leftarrow> uart_at port;
     if wait then do {
       (ready, timed_out, ls, cs) \<leftarrow>
         poll_lsr 1 (getc_timed_out s1) start (lsr_reads s1) (clock_reads s1);
       let s2 = s1\<lparr>lsr_reads := ls, clock_reads := cs, getc_timed_out := timed_out\<rparr>;
       if ready then do {
         (r, s3) \<leftarrow> secure_read_uart_rhr port (s2\<lparr>getc_timed_out := False\<rparr>);
         Some (uint r, s3) }
       else Some (-1, s2) }
     else do {
       (l, s2) \<leftarrow> secure_read_uart_lsr port s1;
       if l AND 1 = 0 then Some (-1, s2)
       else do {
         (r, s3) \<leftarrow> secure_read_uart_rhr port (s2\<lparr>getc_timed_out := False\<rparr>);
         Some (uint r, s3) } } }"

section \<open>The combined UART\<close>

definition MBOX_INTR_TRIGGER :: u32 where "MBOX_INTR_TRIGGER = push_bit 31 1"
definition MBOX_FLUSH :: u32 where "MBOX_FLUSH = push_bit 26 1"
definition MBOX_BYTE_COUNT :: u32 where "MBOX_BYTE_COUNT = push_bit 24 1"

fun poll_mbox :: "bool \<Rightarrow> u64 \<Rightarrow> u32 list \<Rightarrow> u64 list
    \<Rightarrow> (bool \<times> bool \<times> u32 list \<times> u64 list) option" where
  "poll_mbox timed_out start [] cs = None"
| "poll_mbox timed_out start (m # ms) cs =
     (if m AND MBOX_INTR_TRIGGER = 0 then Some (True, timed_out, ms, cs)
      else if timed_out then Some (False, True, ms, cs)
      else (case cs of [] \<Rightarrow> None
            | c # cs' \<Rightarrow> if TX_TIMEOUT_US \<le> c - start then Some (False, True, ms, cs')
                        else poll_mbox timed_out start ms cs'))"

definition comb_msg :: "byte \<Rightarrow> u32" where
  "comb_msg c = (let msg = MBOX_INTR_TRIGGER OR MBOX_BYTE_COUNT OR ucast c
                 in if c = LF then msg OR MBOX_FLUSH else msg)"

definition comb_uart_putc :: "byte \<Rightarrow> uart \<Rightarrow> uart option" where
  "comb_uart_putc c s = do {
     (start, s1) \<leftarrow> current_time_hires s;
     (ready, timed_out, ms, cs) \<leftarrow>
       poll_mbox (comb_timed_out s1) start (mbox_reads s1) (clock_reads s1);
     let s2 = s1\<lparr>mbox_reads := ms, clock_reads := cs, comb_timed_out := timed_out\<rparr>;
     Some (if ready
           then s2\<lparr>comb_timed_out := False, mbox_writes := mbox_writes s2 @ [comb_msg c]\<rparr>
           else s2) }"

definition platform_tegra_comb_uart_putc :: "byte \<Rightarrow> uart \<Rightarrow> uart option" where
  "platform_tegra_comb_uart_putc c s =
     (if c = 0 then Some s
      else do {
        s1 \<leftarrow> (if c = LF then comb_uart_putc CR s else Some s);
        comb_uart_putc c s1 })"

definition platform_tegra_comb_uart_getc :: "bool \<Rightarrow> int" where
  "platform_tegra_comb_uart_getc wait = -1"

section \<open>The platform interface\<close>

definition platform_disable_secure_intf :: "uart \<Rightarrow> uart" where
  "platform_disable_secure_intf s = s\<lparr>disable_secure_port := True\<rparr>"

definition platform_enable_secure_intf :: "uart \<Rightarrow> uart" where
  "platform_enable_secure_intf s = s\<lparr>disable_secure_port := False\<rparr>"

definition secure_platform_dputc :: "byte \<Rightarrow> uart \<Rightarrow> uart option" where
  "secure_platform_dputc c s =
     (if disable_secure_port s \<or> secure_port s = TEGRA_UART_NONE then Some s
      else if secure_port s = TEGRA_COMBUART_ID then platform_tegra_comb_uart_putc c s
      else if c = LF then do {
        (_, s1) \<leftarrow> secure_uart_putc (secure_port s) CR s;
        (_, s2) \<leftarrow> secure_uart_putc (secure_port s) c s1;
        Some s2 }
      else if c = 0 then Some s
      else do {
        (_, s1) \<leftarrow> secure_uart_putc (secure_port s) c s;
        Some s1 })"

text \<open>The byte read is the second component, \<^term>\<open>None\<close> where \<^verbatim>\<open>*c\<close> is not written.\<close>

definition secure_platform_dgetc :: "bool \<Rightarrow> uart \<Rightarrow> (int \<times> byte option \<times> uart) option" where
  "secure_platform_dgetc wait s =
     (if disable_secure_port s \<or> secure_port s = TEGRA_UART_NONE then Some (-1, None, s)
      else do {
        (c, s1) \<leftarrow> (if secure_port s = TEGRA_COMBUART_ID
                   then Some (platform_tegra_comb_uart_getc wait, s)
                   else secure_uart_getc (secure_port s) wait s);
        Some (if c < 0 then (-1, None, s1) else (0, Some (word_of_int c), s1)) })"

definition platform_init_secure_port :: "u32 \<Rightarrow> uart \<Rightarrow> uart option" where
  "platform_init_secure_port dbg_port s =
     secure_platform_dputc 102
       (platform_enable_secure_intf (s\<lparr>secure_port := dbg_port\<rparr>))"

section \<open>The system calls\<close>

text \<open>
  \<open>mem\<close> is the memory as the kernel sees it, user pages and kernel pages alike; a read at an
  unmapped address faults.  Neither call looks at \<open>uart_port\<close>.
\<close>

type_synonym memory = "u64 \<Rightarrow> byte option"

fun send_loop :: "memory \<Rightarrow> u64 \<Rightarrow> nat \<Rightarrow> uart \<Rightarrow> uart option" where
  "send_loop mem addr 0 s = Some s"
| "send_loop mem addr (Suc n) s = do {
     b \<leftarrow> mem addr;
     s1 \<leftarrow> secure_platform_dputc b s;
     send_loop mem (addr + 1) n s1 }"

definition sys_send_to_uart :: "memory \<Rightarrow> u32 \<Rightarrow> u64 \<Rightarrow> u32 \<Rightarrow> uart \<Rightarrow> (int \<times> uart) option" where
  "sys_send_to_uart mem uart_port message msg_size s = do {
     s1 \<leftarrow> send_loop mem message (unat msg_size) s;
     Some (0, s1) }"

definition sys_receive_from_uart ::
    "memory \<Rightarrow> u32 \<Rightarrow> u64 \<Rightarrow> u32 \<Rightarrow> uart \<Rightarrow> (int \<times> memory \<times> uart) option" where
  "sys_receive_from_uart mem uart_port message wait s = do {
     (status, c, s1) \<leftarrow> secure_platform_dgetc (wait \<noteq> 0) s;
     case c of None \<Rightarrow> Some (status, mem, s1)
     | Some b \<Rightarrow> do {
         _ \<leftarrow> mem message;
         Some (status, mem(message \<mapsto> b), s1) } }"


section \<open>Polling returns\<close>

lemma poll_lsr_returns:
  assumes "i < length ls" "i < length cs"
    and "ls ! i AND rdy \<noteq> 0 \<or> UART_TIMEOUT_US \<le> cs ! i - start"
  shows "\<exists>r. poll_lsr rdy t start ls cs = Some r"
  using assms
proof (induction rdy t start ls cs arbitrary: i rule: poll_lsr.induct)
  case (1 rdy t start cs)
  then show ?case by simp
next
  case (2 rdy t start l ls cs)
  show ?case
  proof (cases i)
    case 0
    with "2.prems" show ?thesis by (cases cs) auto
  next
    case (Suc k)
    with "2.prems" obtain c cs' where cs: "cs = c # cs'" by (cases cs) auto
    show ?thesis
      using "2.IH" [OF _ _ cs, of k] "2.prems" Suc cs by auto
  qed
qed

lemma poll_lsr_ready_first:
  "l AND rdy \<noteq> 0 \<Longrightarrow> poll_lsr rdy t start (l # ls) cs = Some (True, t, ls, cs)"
  by simp

lemma poll_lsr_not_ready:
  "poll_lsr rdy t start ls cs = Some (False, t', ls', cs') \<Longrightarrow> t'"
  by (induction rdy t start ls cs rule: poll_lsr.induct) (auto split: if_splits list.splits)

section \<open>What is written to the line\<close>

text \<open>The transmitted form of a byte: newline is preceded by a carriage return, NUL is dropped.\<close>

definition uart_encode :: "byte \<Rightarrow> byte list" where
  "uart_encode c = (if c = LF then [CR, LF] else if c = 0 then [] else [c])"

definition serial_on :: "uart \<Rightarrow> uart_id \<Rightarrow> bool" where
  "serial_on s b \<longleftrightarrow> \<not> disable_secure_port s \<and> secure_port s \<noteq> TEGRA_UART_NONE \<and>
     secure_port s \<noteq> TEGRA_COMBUART_ID \<and> uart_at (secure_port s) = Some b"

definition tx_ready :: "nat \<Rightarrow> uart \<Rightarrow> bool" where
  "tx_ready n s \<longleftrightarrow> n \<le> length (clock_reads s) \<and> n \<le> length (lsr_reads s) \<and>
     list_all (\<lambda>l. l AND push_bit 5 1 \<noteq> 0) (take n (lsr_reads s))"

definition tx_next :: "uart_id \<Rightarrow> byte list \<Rightarrow> uart \<Rightarrow> uart" where
  "tx_next b bs s = (if bs = [] then s else s\<lparr>
     thr_writes := thr_writes s @ map (Pair b) bs,
     lsr_reads := drop (length bs) (lsr_reads s),
     clock_reads := drop (length bs) (clock_reads s),
     putc_timed_out := False\<rparr>)"

lemma tx_next_frame [frame_simps]:
  "disable_secure_port (tx_next b bs s) = disable_secure_port s"
  "secure_port (tx_next b bs s) = secure_port s"
  "serial_on (tx_next b bs s) d = serial_on s d"
  by (simp_all add: tx_next_def serial_on_def)

lemma tx_next_thr: "thr_writes (tx_next b bs s) = thr_writes s @ map (Pair b) bs"
  by (simp add: tx_next_def)

lemma tx_next_append: "tx_next b ys (tx_next b xs s) = tx_next b (xs @ ys) s"
  by (cases s) (auto simp: tx_next_def add.commute)

lemma tx_ready_next:
  assumes "tx_ready (length xs + n) s"
  shows "tx_ready n (tx_next b xs s)"
proof -
  have "set (take n (drop (length xs) (lsr_reads s))) \<subseteq> set (take (length xs + n) (lsr_reads s))"
    by (simp add: take_drop set_drop_subset add.commute)
  with assms show ?thesis
    by (auto simp: tx_ready_def tx_next_def list_all_iff)
qed

lemma tx_ready_mono: "tx_ready (m + n) s \<Longrightarrow> tx_ready m s"
  using set_take_subset_set_take [of m "m + n" "lsr_reads s"]
  by (auto simp: tx_ready_def list_all_iff)

lemma secure_uart_putc_ready:
  assumes "uart_at port = Some b" "tx_ready 1 s"
  shows "secure_uart_putc port c s = Some (0, tx_next b [c] s)"
proof -
  from assms(2) obtain k ks l ls where "clock_reads s = k # ks" "lsr_reads s = l # ls"
    "l AND push_bit 5 1 \<noteq> 0"
    by (cases "clock_reads s"; cases "lsr_reads s") (auto simp: tx_ready_def)
  with assms(1) show ?thesis
    by (simp add: secure_uart_putc_def current_time_hires_def secure_write_uart_reg_def
        tx_next_def Let_def)
qed

lemma secure_platform_dputc_ready:
  assumes on: "serial_on s b" and rdy: "tx_ready (length (uart_encode c)) s"
  shows "secure_platform_dputc c s = Some (tx_next b (uart_encode c) s)"
proof -
  note on' = on [unfolded serial_on_def]
  consider "c = LF" | "c \<noteq> LF" "c = 0" | "c \<noteq> LF" "c \<noteq> 0" by blast
  then show ?thesis
  proof cases
    case 1
    with rdy have "tx_ready 1 s" "tx_ready 1 (tx_next b [CR] s)"
      using tx_ready_mono [of 1 1 s] tx_ready_next [of "[CR]" 1 s b]
      by (simp_all add: uart_encode_def numeral_2_eq_2)
    with 1 on' show ?thesis
      by (simp add: secure_platform_dputc_def uart_encode_def secure_uart_putc_ready
          tx_next_append frame_simps)
  next
    case 2
    with on' show ?thesis
      by (simp add: secure_platform_dputc_def uart_encode_def tx_next_def)
  next
    case 3
    with on' rdy show ?thesis
      by (simp add: secure_platform_dputc_def uart_encode_def secure_uart_putc_ready)
  qed
qed

fun mem_bytes :: "memory \<Rightarrow> u64 \<Rightarrow> nat \<Rightarrow> byte list option" where
  "mem_bytes mem a 0 = Some []"
| "mem_bytes mem a (Suc n) = do { b \<leftarrow> mem a; bs \<leftarrow> mem_bytes mem (a + 1) n; Some (b # bs) }"

lemma send_loop_ready:
  assumes "serial_on s b" "mem_bytes mem a n = Some bs"
    "tx_ready (length (concat (map uart_encode bs))) s"
  shows "send_loop mem a n s = Some (tx_next b (concat (map uart_encode bs)) s)"
  using assms
proof (induction mem a n s arbitrary: bs rule: send_loop.induct)
  case (1 mem a s)
  then show ?case by (simp add: tx_next_def)
next
  case (2 mem a n s)
  from "2.prems"(2) obtain x xs where x: "mem a = Some x" "mem_bytes mem (a + 1) n = Some xs"
    "bs = x # xs"
    by (auto simp: bind_Some_iff)
  let ?t = "tx_next b (uart_encode x) s"
  have rdy: "tx_ready (length (uart_encode x)) s"
    using "2.prems"(3) x by (auto intro: tx_ready_mono)
  have put: "secure_platform_dputc x s = Some ?t"
    by (rule secure_platform_dputc_ready [OF "2.prems"(1) rdy])
  have "send_loop mem (a + 1) n ?t = Some (tx_next b (concat (map uart_encode xs)) ?t)"
    using "2.prems" x by (intro "2.IH" [OF x(1) put]) (auto simp: frame_simps intro: tx_ready_next)
  with x put show ?case by (simp add: tx_next_append)
qed

text \<open>Whatever the line does, nothing is written that was not asked for, and in order.\<close>

lemma secure_uart_putc_writes:
  assumes "secure_uart_putc port c s = Some (r, s')" "uart_at port = Some b"
  shows "\<exists>ys. subseq ys [c] \<and> thr_writes s' = thr_writes s @ map (Pair b) ys \<and>
     disable_secure_port s' = disable_secure_port s \<and> secure_port s' = secure_port s"
proof (cases "r = 0")
  case True
  with assms show ?thesis
    by (intro exI [of _ "[c]"])
       (auto simp: secure_uart_putc_def current_time_hires_def secure_write_uart_reg_def
         bind_Some_iff Let_def split: list.splits if_splits)
next
  case False
  with assms show ?thesis
    by (intro exI [of _ "[]"])
       (auto simp: secure_uart_putc_def current_time_hires_def secure_write_uart_reg_def
         bind_Some_iff Let_def split: list.splits if_splits)
qed

lemma subseq_pair: "subseq xs [a] \<Longrightarrow> subseq ys [b] \<Longrightarrow> subseq (xs @ ys) [a, b]"
  using list_emb_append_mono [of "(=)" xs "[a]" ys "[b]"] by simp

lemma secure_platform_dputc_writes:
  assumes "secure_platform_dputc c s = Some s'" "serial_on s b"
  shows "\<exists>ys. subseq ys (uart_encode c) \<and> thr_writes s' = thr_writes s @ map (Pair b) ys \<and>
     serial_on s' b"
proof -
  note on = assms(2) [unfolded serial_on_def]
  consider "c = LF" | "c \<noteq> LF" "c = 0" | "c \<noteq> LF" "c \<noteq> 0" by blast
  then show ?thesis
  proof cases
    case 1
    with assms on obtain r1 s1 r2 where
      p: "secure_uart_putc (secure_port s) CR s = Some (r1, s1)"
         "secure_uart_putc (secure_port s) LF s1 = Some (r2, s')"
      by (auto simp: secure_platform_dputc_def bind_Some_iff)
    from secure_uart_putc_writes [OF p(1)] on obtain xs where xs: "subseq xs [CR]"
      "thr_writes s1 = thr_writes s @ map (Pair b) xs"
      "disable_secure_port s1 = disable_secure_port s" "secure_port s1 = secure_port s"
      by blast
    from secure_uart_putc_writes [OF p(2)] on obtain ys where ys: "subseq ys [LF]"
      "thr_writes s' = thr_writes s1 @ map (Pair b) ys"
      "disable_secure_port s' = disable_secure_port s1" "secure_port s' = secure_port s1"
      by blast
    show ?thesis
      using 1 xs ys on subseq_pair [OF xs(1) ys(1)]
      by (intro exI [of _ "xs @ ys"]) (simp add: uart_encode_def serial_on_def)
  next
    case 2
    with assms on show ?thesis
      by (intro exI [of _ "[]"]) (simp add: secure_platform_dputc_def)
  next
    case 3
    with assms on obtain r where p: "secure_uart_putc (secure_port s) c s = Some (r, s')"
      by (auto simp: secure_platform_dputc_def bind_Some_iff)
    from secure_uart_putc_writes [OF p] on 3 show ?thesis
      by (auto simp: uart_encode_def serial_on_def)
  qed
qed

lemma send_loop_writes:
  assumes "send_loop mem a n s = Some s'" "serial_on s b"
  shows "\<exists>bs ys. mem_bytes mem a n = Some bs \<and> subseq ys (concat (map uart_encode bs)) \<and>
     thr_writes s' = thr_writes s @ map (Pair b) ys"
  using assms
proof (induction mem a n s rule: send_loop.induct)
  case (1 mem a s)
  then show ?case by simp
next
  case (2 mem a n s)
  then obtain x s1 where x: "mem a = Some x" "secure_platform_dputc x s = Some s1"
    "send_loop mem (a + 1) n s1 = Some s'"
    by (auto simp: bind_Some_iff)
  from secure_platform_dputc_writes [OF x(2) "2.prems"(2)] obtain xs where xs:
    "subseq xs (uart_encode x)" "thr_writes s1 = thr_writes s @ map (Pair b) xs" "serial_on s1 b"
    by blast
  from "2.IH" [OF x(1,2,3) xs(3)] obtain bs ys where ys: "mem_bytes mem (a + 1) n = Some bs"
    "subseq ys (concat (map uart_encode bs))" "thr_writes s' = thr_writes s1 @ map (Pair b) ys"
    by blast
  show ?case
    using x xs ys list_emb_append_mono [OF xs(1) ys(2)]
    by (intro exI [of _ "x # bs"] exI [of _ "xs @ ys"]) simp
qed


section \<open>Properties\<close>

text \<open>A line with an empty history: UART C, transmitter always ready, two bytes to receive.\<close>

definition uart_demo :: uart where
  "uart_demo = \<lparr>disable_secure_port = False, secure_port = 3, putc_timed_out = False,
     getc_timed_out = False, comb_timed_out = False, lsr_reads = [97, 97, 97, 97, 97],
     rhr_reads = [0x76, 0], mbox_reads = [], clock_reads = [1, 2, 3, 4, 5],
     thr_writes = [], mbox_writes = []\<rparr>"

text \<open>Property C9.  Transmission is complete and in order: on an enabled port whose transmitter
  is ready, \<^verbatim>\<open>sys_send_to_uart\<close> returns 0 and the transmit register has received exactly the
  \<open>msg_size\<close> bytes at \<open>message\<close>, each newline as CR LF and every NUL skipped.\<close>

theorem sys_send_to_uart_transmits:
  assumes "serial_on s b" and "mem_bytes mem message (unat msg_size) = Some bs"
    and "tx_ready (length (concat (map uart_encode bs))) s"
  shows "\<exists>s'. sys_send_to_uart mem uart_port message msg_size s = Some (0, s') \<and>
     thr_writes s' = thr_writes s @ map (Pair b) (concat (map uart_encode bs))"
  using send_loop_ready [OF assms] by (simp add: sys_send_to_uart_def tx_next_thr)

definition demo_mem :: memory where
  "demo_mem = (\<lambda>a. if a = 0x1000 then Some 0x56 else if a = 0x1001 then Some LF
     else if a = 0x1002 then Some 0 else None)"

theorem sys_send_to_uart_transmits_witness:
  "\<exists>s'. sys_send_to_uart demo_mem 7 0x1000 3 uart_demo = Some (0, s') \<and>
     thr_writes s' = [(UartC, 0x56), (UartC, CR), (UartC, LF)]"
proof -
  have on: "serial_on uart_demo UartC"
    by (simp add: serial_on_def uart_demo_def uart_at_def uart_base_def TEGRA_UART_NONE_def
        TEGRA_COMBUART_ID_def)
  have bytes: "mem_bytes demo_mem 0x1000 (unat (3 :: u32)) = Some [0x56, LF, 0]"
  proof -
    have "unat (3 :: u32) = Suc (Suc (Suc 0))" by simp
    then show ?thesis by (simp only: mem_bytes.simps) (simp add: demo_mem_def)
  qed
  have rdy: "tx_ready (length (concat (map uart_encode [0x56, LF, 0]))) uart_demo"
    by (simp add: tx_ready_def uart_encode_def uart_demo_def LF_def)
  show ?thesis
    using sys_send_to_uart_transmits [OF on bytes rdy, of 7]
    by (simp add: uart_encode_def uart_demo_def LF_def)
qed

text \<open>Whatever the line status and the clock do, a call that returns has written a
  subsequence of the encoded message to the port's transmit register: a timeout can lose bytes
  but nothing is invented, duplicated or reordered, and nothing goes to another UART.\<close>

theorem sys_send_to_uart_no_invention:
  assumes "sys_send_to_uart mem uart_port message msg_size s = Some (r, s')" and "serial_on s b"
  shows "\<exists>bs ys. mem_bytes mem message (unat msg_size) = Some bs \<and>
     subseq ys (concat (map uart_encode bs)) \<and> thr_writes s' = thr_writes s @ map (Pair b) ys"
  using assms send_loop_writes by (auto simp: sys_send_to_uart_def bind_Some_iff)

text \<open>The witness: the first byte times out after 500 ms, the second finds the line ready.\<close>

theorem sys_send_to_uart_no_invention_witness:
  "\<exists>s'. sys_send_to_uart demo_mem 1 0x1000 1
       (uart_demo\<lparr>lsr_reads := [0, 0], clock_reads := [10, 20, 500010]\<rparr>) = Some (0, s') \<and>
     (\<exists>bs ys. mem_bytes demo_mem 0x1000 (unat (1 :: u32)) = Some bs \<and>
        subseq ys (concat (map uart_encode bs)) \<and> thr_writes s' = [] @ map (Pair UartC) ys)"
proof -
  let ?s = "uart_demo\<lparr>lsr_reads := [0, 0], clock_reads := [10, 20, 500010]\<rparr>"
  let ?t = "?s\<lparr>lsr_reads := [], clock_reads := [], putc_timed_out := True\<rparr>"
  have on: "serial_on ?s UartC"
    by (simp add: serial_on_def uart_demo_def uart_at_def uart_base_def TEGRA_UART_NONE_def
        TEGRA_COMBUART_ID_def)
  have run: "sys_send_to_uart demo_mem 1 0x1000 1 ?s = Some (0, ?t)"
    by (simp add: sys_send_to_uart_def demo_mem_def uart_demo_def secure_platform_dputc_def
        secure_uart_putc_def current_time_hires_def uart_at_def uart_base_def Let_def
        TEGRA_UART_NONE_def TEGRA_COMBUART_ID_def UART_TIMEOUT_US_def LF_def)
  show ?thesis
    using sys_send_to_uart_no_invention [OF run on] run by (simp add: uart_demo_def)
qed

text \<open>Property C10.  \<^verbatim>\<open>secure_uart_putc\<close> always returns: if among the line-status reads there
  is one that shows the transmitter ready, or the clock read after it is 500 ms past the start,
  the call is over, with 0 or -1.\<close>

theorem secure_uart_putc_returns:
  assumes "uart_at port = Some b" and "clock_reads s = start # cs"
    and "i < length (lsr_reads s)" and "i < length cs"
    and "lsr_reads s ! i AND push_bit 5 1 \<noteq> 0 \<or> UART_TIMEOUT_US \<le> cs ! i - start"
  shows "\<exists>r s'. secure_uart_putc port c s = Some (r, s') \<and> (r = 0 \<or> r = -1)"
proof -
  obtain ready t ls' cs' where
    "poll_lsr (push_bit 5 1) (putc_timed_out s) start (lsr_reads s) cs = Some (ready, t, ls', cs')"
    using poll_lsr_returns [OF assms(3-5)] by (metis prod_cases4)
  with assms(1,2) show ?thesis
    by (cases ready)
       (simp_all add: secure_uart_putc_def current_time_hires_def secure_write_uart_reg_def Let_def)
qed

theorem secure_uart_putc_returns_witness:
  "\<exists>r s'. secure_uart_putc 3 65 (uart_demo\<lparr>lsr_reads := [0, 0, 0],
      clock_reads := [100, 200, 300, 500100]\<rparr>) = Some (r, s') \<and> (r = 0 \<or> r = -1)"
  by (rule secure_uart_putc_returns [where i = 2 and b = UartC and start = 100
        and cs = "[200, 300, 500100]"])
     (simp_all add: uart_at_def uart_base_def UART_TIMEOUT_US_def)

text \<open>The time-out is sticky: after a call that timed out, a call that finds the
  line still busy gives up after a single line-status read, writes nothing and leaves the flag
  set, so a dead line costs 500 ms once and not once per byte.\<close>

theorem secure_uart_putc_sticky_timeout:
  assumes "uart_at port = Some b" and "secure_uart_putc port c s = Some (-1, s1)"
    and "lsr_reads s1 = l # ls" and "l AND push_bit 5 1 = 0" and "clock_reads s1 = k # ks"
  shows "secure_uart_putc port c' s1 = Some (-1, s1\<lparr>lsr_reads := ls, clock_reads := ks\<rparr>)"
proof -
  have "putc_timed_out s1"
    using assms(1,2) by (auto simp: secure_uart_putc_def current_time_hires_def bind_Some_iff
        secure_write_uart_reg_def Let_def split: if_splits list.splits dest: poll_lsr_not_ready)
  with assms show ?thesis
    by (cases s1) (simp add: secure_uart_putc_def current_time_hires_def Let_def)
qed

theorem secure_uart_putc_sticky_timeout_witness:
  "\<exists>s1. secure_uart_putc 3 65 (uart_demo\<lparr>lsr_reads := [0, 0, 0],
      clock_reads := [0, 10, 500000, 500001]\<rparr>) = Some (-1, s1) \<and>
    secure_uart_putc 3 66 s1 = Some (-1, s1\<lparr>lsr_reads := [], clock_reads := []\<rparr>)"
proof -
  let ?s = "uart_demo\<lparr>lsr_reads := [0, 0, 0], clock_reads := [0, 10, 500000, 500001]\<rparr>"
  let ?s1 = "?s\<lparr>lsr_reads := [0], clock_reads := [500001], putc_timed_out := True\<rparr>"
  have at: "uart_at 3 = Some UartC" by (simp add: uart_at_def uart_base_def)
  have run: "secure_uart_putc 3 65 ?s = Some (-1, ?s1)"
    by (simp add: at secure_uart_putc_def current_time_hires_def Let_def UART_TIMEOUT_US_def
        uart_demo_def)
  show ?thesis
    using secure_uart_putc_sticky_timeout [OF at run, of 0 "[]" 500001 "[]" 66] run by simp
qed

text \<open>Reception: with a byte pending, \<^verbatim>\<open>sys_receive_from_uart\<close> returns 0, stores
  exactly that byte at \<open>message\<close> and takes it off the receive register; in the non-waiting mode
  with nothing pending it returns -1 and the memory is unchanged.\<close>

theorem sys_receive_from_uart_spec:
  assumes "serial_on s b" and "clock_reads s = k # ks" and "lsr_reads s = l # ls"
    and "rhr_reads s = r # rs" and "mem message = Some old" and "l AND 1 \<noteq> 0 \<or> wait = 0"
  shows "sys_receive_from_uart mem uart_port message wait s =
    (if l AND 1 \<noteq> 0 then
       Some (0, mem(message \<mapsto> r), s\<lparr>clock_reads := ks, lsr_reads := ls, rhr_reads := rs,
                 getc_timed_out := False\<rparr>)
     else Some (-1, mem, s\<lparr>clock_reads := ks, lsr_reads := ls\<rparr>))"
proof -
  have c: "(word_of_int (uint r) :: byte) = r" "\<not> uint r < 0" by simp_all
  show ?thesis
    using assms c
    by (cases s) (auto simp: sys_receive_from_uart_def secure_platform_dgetc_def serial_on_def
        secure_uart_getc_def current_time_hires_def secure_read_uart_rhr_def
        secure_read_uart_lsr_def Let_def)
qed

theorem sys_receive_from_uart_spec_witness:
  "sys_receive_from_uart demo_mem 3 0x1000 1 uart_demo =
     Some (0, demo_mem(0x1000 \<mapsto> 0x76), uart_demo\<lparr>clock_reads := [2, 3, 4, 5],
       lsr_reads := [97, 97, 97, 97], rhr_reads := [0], getc_timed_out := False\<rparr>)"
proof -
  have on: "serial_on uart_demo UartC"
    by (simp add: serial_on_def uart_demo_def uart_at_def uart_base_def TEGRA_UART_NONE_def
        TEGRA_COMBUART_ID_def)
  show ?thesis
    using sys_receive_from_uart_spec [OF on, where mem = demo_mem and message = "0x1000"
        and wait = 1 and uart_port = 3]
    by (simp add: uart_demo_def demo_mem_def)
qed

end
