(* ===== verification/UserMem.thy ===== *)
theory UserMem
  imports Prelude
begin

text \<open>
  The memory of a trusted application as the kernel reaches it: the byte loops of
  \<^verbatim>\<open>lib/uthread/arch/arm64/usercopy.S\<close> behind \<^verbatim>\<open>copy_to_user\<close>, \<^verbatim>\<open>copy_from_user\<close> and
  \<^verbatim>\<open>strncpy_from_user\<close>, faults included, and the little-endian layout of the 32-bit structures
  shared with user space.
\<close>

type_synonym user_addr = u32

record umem =
  udata :: "u64 \<Rightarrow> byte"
  ureadable :: "u64 \<Rightarrow> bool"
  uwritable :: "u64 \<Rightarrow> bool"

text \<open>\<^verbatim>\<open>arch_copy_to_user\<close>: stores byte by byte; a fault leaves what was stored before it.\<close>

fun copy_to_user_loop :: "umem \<Rightarrow> u64 \<Rightarrow> byte list \<Rightarrow> int \<times> umem" where
  "copy_to_user_loop m a [] = (NO_ERROR, m)"
| "copy_to_user_loop m a (b # bs) =
     (if uwritable m a then copy_to_user_loop (m\<lparr>udata := (udata m)(a := b)\<rparr>) (a + 1) bs
      else (ERR_FAULT, m))"

definition copy_to_user :: "umem \<Rightarrow> user_addr \<Rightarrow> byte list \<Rightarrow> int \<times> umem" where
  "copy_to_user m udest ksrc = copy_to_user_loop m (ucast udest) ksrc"

text \<open>\<^verbatim>\<open>arch_copy_from_user\<close>: on a fault the rest of the destination is zeroed.\<close>

fun copy_from_user_loop :: "umem \<Rightarrow> u64 \<Rightarrow> nat \<Rightarrow> int \<times> byte list" where
  "copy_from_user_loop m a 0 = (NO_ERROR, [])"
| "copy_from_user_loop m a (Suc n) =
     (if ureadable m a then
        (let (r, bs) = copy_from_user_loop m (a + 1) n in (r, udata m a # bs))
      else (ERR_FAULT, replicate (Suc n) 0))"

definition copy_from_user :: "umem \<Rightarrow> user_addr \<Rightarrow> nat \<Rightarrow> int \<times> byte list" where
  "copy_from_user m usrc len = copy_from_user_loop m (ucast usrc) len"

text \<open>
  \<^verbatim>\<open>arch_strlcpy_from_user\<close> (behind \<^verbatim>\<open>strncpy_from_user\<close>): the length of the source string, with
  at most \<open>len - 1\<close> bytes and a NUL in the destination.  The scan ends at a NUL or at the first
  unreadable byte; \<open>fuel\<close> bounds it, and no readable range exceeds the \<open>2^32\<close> user addresses.
\<close>

fun ustrlen :: "umem \<Rightarrow> u64 \<Rightarrow> nat \<Rightarrow> byte list option" where
  "ustrlen m a 0 = None"
| "ustrlen m a (Suc fuel) =
     (if \<not> ureadable m a then None
      else if udata m a = 0 then Some []
      else map_option ((#) (udata m a)) (ustrlen m (a + 1) fuel))"

definition strncpy_from_user :: "nat \<Rightarrow> umem \<Rightarrow> user_addr \<Rightarrow> nat \<Rightarrow> int \<times> byte list" where
  "strncpy_from_user fuel m usrc len =
     (case ustrlen m (ucast usrc) fuel of
        None \<Rightarrow> (ERR_FAULT, [])
      | Some s \<Rightarrow> (int (length s), take (len - 1) s))"

section \<open>Little-endian words\<close>

definition le32_bytes :: "u32 \<Rightarrow> byte list" where
  "le32_bytes w = [ucast w, ucast (drop_bit 8 w), ucast (drop_bit 16 w), ucast (drop_bit 24 w)]"

fun le32_of :: "byte list \<Rightarrow> u32" where
  "le32_of [] = 0"
| "le32_of (b # bs) = ucast b OR push_bit 8 (le32_of bs)"

lemma length_le32_bytes [simp]: "length (le32_bytes w) = 4"
  by (simp add: le32_bytes_def)

lemma le32_roundtrip [simp]: "le32_of (le32_bytes w) = w"
proof (rule bit_word_eqI)
  fix n assume "n < LENGTH(32)"
  then show "bit (le32_of (le32_bytes w)) n = bit w n"
    by (cases "n < 24"; cases "n < 16")
       (auto simp: le32_bytes_def bit_or_iff bit_push_bit_iff bit_ucast_iff bit_drop_bit_eq)
qed

section \<open>Copies\<close>

definition readable_range :: "umem \<Rightarrow> user_addr \<Rightarrow> nat \<Rightarrow> bool" where
  "readable_range m a n \<longleftrightarrow> list_all (\<lambda>i. ureadable m (ucast a + of_nat i)) [0..<n]"

definition writable_range :: "umem \<Rightarrow> user_addr \<Rightarrow> nat \<Rightarrow> bool" where
  "writable_range m a n \<longleftrightarrow> list_all (\<lambda>i. uwritable m (ucast a + of_nat i)) [0..<n]"

definition user_bytes :: "umem \<Rightarrow> user_addr \<Rightarrow> nat \<Rightarrow> byte list" where
  "user_bytes m a n = map (\<lambda>i. udata m (ucast a + of_nat i)) [0..<n]"

lemma length_user_bytes [simp]: "length (user_bytes m a n) = n"
  by (simp add: user_bytes_def)

lemma copy_from_user_loop_length [simp]: "length (snd (copy_from_user_loop m a n)) = n"
  by (induction m a n rule: copy_from_user_loop.induct) (auto simp: Let_def split: prod.splits)

lemma copy_from_user_length [simp]: "length (snd (copy_from_user m a n)) = n"
  by (simp add: copy_from_user_def)

lemma copy_from_user_loop_ret: "fst (copy_from_user_loop m a n) \<in> {NO_ERROR, ERR_FAULT}"
  by (induction m a n rule: copy_from_user_loop.induct) (auto simp: Let_def split: prod.splits)

lemma copy_from_user_loop_ok:
  "(\<forall>i<n. ureadable m (a + of_nat i)) \<Longrightarrow>
   copy_from_user_loop m a n = (NO_ERROR, map (\<lambda>i. udata m (a + of_nat i)) [0..<n])"
proof (induction m a n rule: copy_from_user_loop.induct)
  case (1 m a)
  then show ?case by simp
next
  case (2 m a n)
  have "ureadable m a" using "2.prems" [rule_format, of 0] by simp
  moreover have "\<forall>i<n. ureadable m (a + 1 + of_nat i)"
  proof (intro allI impI)
    fix i assume "i < n"
    with "2.prems" [rule_format, of "Suc i"] show "ureadable m (a + 1 + of_nat i)"
      by (simp add: add.assoc)
  qed
  ultimately show ?case
    using "2.IH" by (simp add: upt_conv_Cons map_Suc_upt [symmetric] add.assoc del: upt_Suc)
qed

lemma copy_from_user_ok:
  "readable_range m a n \<Longrightarrow> copy_from_user m a n = (NO_ERROR, user_bytes m a n)"
  by (simp add: copy_from_user_def user_bytes_def readable_range_def list_all_iff
      copy_from_user_loop_ok)

lemma copy_to_user_loop_frame [frame_simps]:
  "ureadable (snd (copy_to_user_loop m a bs)) = ureadable m"
  "uwritable (snd (copy_to_user_loop m a bs)) = uwritable m"
  by (induction m a bs rule: copy_to_user_loop.induct) auto

lemma copy_to_user_frame [frame_simps]:
  "ureadable (snd (copy_to_user m a bs)) = ureadable m"
  "uwritable (snd (copy_to_user m a bs)) = uwritable m"
  by (simp_all add: copy_to_user_def frame_simps)

lemma copy_to_user_loop_ret: "fst (copy_to_user_loop m a bs) \<in> {NO_ERROR, ERR_FAULT}"
  by (induction m a bs rule: copy_to_user_loop.induct) auto

lemma copy_to_user_ret: "fst (copy_to_user m a bs) \<in> {NO_ERROR, ERR_FAULT}"
  by (simp only: copy_to_user_def copy_to_user_loop_ret)

lemma copy_to_user_loop_ok:
  "(\<forall>i<length bs. uwritable m (a + of_nat i)) \<Longrightarrow>
   \<exists>m'. copy_to_user_loop m a bs = (NO_ERROR, m')"
proof (induction m a bs rule: copy_to_user_loop.induct)
  case (1 m a)
  then show ?case by simp
next
  case (2 m a b bs)
  have w: "uwritable m a" using "2.prems" [rule_format, of 0] by simp
  have "\<forall>i<length bs. uwritable (m\<lparr>udata := (udata m)(a := b)\<rparr>) (a + 1 + of_nat i)"
  proof (intro allI impI)
    fix i assume "i < length bs"
    with "2.prems" [rule_format, of "Suc i"]
    show "uwritable (m\<lparr>udata := (udata m)(a := b)\<rparr>) (a + 1 + of_nat i)"
      by (simp add: add.assoc)
  qed
  with w "2.IH" show ?case by simp
qed

lemma copy_to_user_ok:
  "writable_range m a (length bs) \<Longrightarrow> \<exists>m'. copy_to_user m a bs = (NO_ERROR, m')"
  by (simp add: copy_to_user_def writable_range_def list_all_iff copy_to_user_loop_ok)


lemma copy_to_user_loop_data:
  assumes "copy_to_user_loop m a bs = (NO_ERROR, m')" "length bs \<le> 2 ^ 64"
  shows "udata m' x = (if unat (x - a) < length bs then bs ! unat (x - a) else udata m x)"
  using assms
proof (induction m a bs rule: copy_to_user_loop.induct)
  case (1 m a)
  then show ?case by simp
next
  case (2 m a b bs)
  from "2.prems"(1) have w: "uwritable m a"
    "copy_to_user_loop (m\<lparr>udata := (udata m)(a := b)\<rparr>) (a + 1) bs = (NO_ERROR, m')"
    by (auto simp: err_simps split: if_splits)
  note IH = "2.IH" [OF w(1) w(2)]
  show ?case
  proof (cases "x = a")
    case True
    have "unat (- 1 :: u64) = 2 ^ 64 - 1"
      by (simp add: unsigned_minus_1_eq_mask mask_eq_exp_minus_1)
    with True IH "2.prems"(2) show ?thesis by (simp add: diff_diff_eq)
  next
    case False
    then have "x - a \<noteq> 0" by simp
    then have "unat (x - a) = Suc (unat (x - a - 1))"
      using unat_minus_one [of "x - a"] unat_gt_0 [of "x - a"] by simp
    then have "unat (x - a) = Suc (unat (x - (a + 1)))"
      by (simp only: diff_diff_eq)
    then show ?thesis using IH "2.prems"(2) False by simp
  qed
qed

lemma copy_to_user_data:
  assumes "copy_to_user m a bs = (NO_ERROR, m')" "length bs \<le> 2 ^ 64"
  shows "user_bytes m' a (length bs) = bs"
proof (rule nth_equalityI)
  fix i assume "i < length (user_bytes m' a (length bs))"
  then have i: "i < length bs" by simp
  with assms(2) have "unat (of_nat i :: u64) = i" by (intro unat_of_nat_less) simp
  with i copy_to_user_loop_data [OF assms(1) [unfolded copy_to_user_def] assms(2)]
  show "user_bytes m' a (length bs) ! i = bs ! i"
    by (simp add: user_bytes_def)
qed simp

end
