(* ===== verification/Iovec.thy ===== *)
theory Iovec
  imports UserMem
begin

text \<open>
  Scatter and gather between a message buffer and an I/O vector: \<^verbatim>\<open>lib/trusty/iovec.c\<close>.
  A kernel vector entry is a base pointer (NULL or the bytes of the object it points to) and a
  length; a user vector is an array of 8-byte \<^verbatim>\<open>iovec_user_t\<close> records in user memory.
  A result \<^term>\<open>None\<close> is a \<^verbatim>\<open>memcpy\<close> that leaves the object it copies from or to.
\<close>

record iovec_kern =
  kbase :: "byte list option"
  klen :: nat

text \<open>\<open>to_copy\<close> of every loop.\<close>

definition clip :: "nat \<Rightarrow> nat \<Rightarrow> nat" where
  "clip len vlen = (if len > vlen then vlen else len)"

lemma clip_min: "clip len vlen = min len vlen"
  by (simp add: clip_def)

fun membuf_to_kern_loop :: "iovec_kern list \<Rightarrow> nat \<Rightarrow> byte list \<Rightarrow> nat \<Rightarrow> nat
    \<Rightarrow> (int \<times> iovec_kern list) option" where
  "membuf_to_kern_loop iov 0 buf len copied = Some (int copied, iov)"
| "membuf_to_kern_loop [] (Suc k) buf len copied = None"
| "membuf_to_kern_loop (v # vs) (Suc k) buf len copied =
     (let to_copy = clip len (klen v) in
      if to_copy = 0 then
        map_option (map_prod id ((#) v)) (membuf_to_kern_loop vs k buf len copied)
      else case kbase v of
        None \<Rightarrow> Some (ERR_INVALID_ARGS, v # vs)
      | Some dst \<Rightarrow>
          if to_copy \<le> length dst \<and> to_copy \<le> length buf then
            (let v' = v\<lparr>kbase := Some (take to_copy buf @ drop to_copy dst)\<rparr> in
             if len - to_copy = 0 then Some (int (copied + to_copy), v' # vs)
             else map_option (map_prod id ((#) v'))
                    (membuf_to_kern_loop vs k (drop to_copy buf) (len - to_copy)
                       (copied + to_copy)))
          else None)"

definition membuf_to_kern_iovec :: "iovec_kern list option \<Rightarrow> nat \<Rightarrow> byte list option \<Rightarrow> nat
    \<Rightarrow> (int \<times> iovec_kern list option) option" where
  "membuf_to_kern_iovec iov iov_cnt buf len =
     (if iov_cnt = 0 \<or> len = 0 then Some (0, iov)
      else case (iov, buf) of
        (Some vs, Some b) \<Rightarrow> map_option (map_prod id Some) (membuf_to_kern_loop vs iov_cnt b len 0)
      | _ \<Rightarrow> Some (ERR_INVALID_ARGS, iov))"

text \<open>The destination is the rest of the message buffer from the write position on.\<close>

fun kern_to_membuf_loop :: "byte list \<Rightarrow> nat \<Rightarrow> iovec_kern list \<Rightarrow> nat \<Rightarrow> nat
    \<Rightarrow> (int \<times> byte list) option" where
  "kern_to_membuf_loop buf len iov 0 copied = Some (int copied, buf)"
| "kern_to_membuf_loop buf len [] (Suc k) copied = None"
| "kern_to_membuf_loop buf len (v # vs) (Suc k) copied =
     (let to_copy = clip len (klen v) in
      if to_copy = 0 then kern_to_membuf_loop buf len vs k copied
      else case kbase v of
        None \<Rightarrow> Some (ERR_INVALID_ARGS, buf)
      | Some src \<Rightarrow>
          if to_copy \<le> length src \<and> to_copy \<le> length buf then
            (if len - to_copy = 0
             then Some (int (copied + to_copy), take to_copy src @ drop to_copy buf)
             else map_option (map_prod id ((@) (take to_copy src)))
                    (kern_to_membuf_loop (drop to_copy buf) (len - to_copy) vs k
                       (copied + to_copy)))
          else None)"

definition kern_iovec_to_membuf :: "byte list option \<Rightarrow> nat \<Rightarrow> iovec_kern list option \<Rightarrow> nat
    \<Rightarrow> (int \<times> byte list option) option" where
  "kern_iovec_to_membuf buf len iov iov_cnt =
     (if iov_cnt = 0 \<or> len = 0 then Some (0, buf)
      else case (buf, iov) of
        (Some b, Some vs) \<Rightarrow> map_option (map_prod id Some) (kern_to_membuf_loop b len vs iov_cnt 0)
      | _ \<Rightarrow> Some (ERR_INVALID_ARGS, buf))"

text \<open>\<^verbatim>\<open>sizeof(iovec_user_t)\<close> is 8: the base address, then the length.\<close>

definition get_uiov :: "umem \<Rightarrow> user_addr \<Rightarrow> nat \<Rightarrow> int \<times> user_addr \<times> nat" where
  "get_uiov m iov_uaddr i =
     (let (ret, raw) = copy_from_user m (iov_uaddr + of_nat (i * 8)) 8
      in (ret, le32_of (take 4 raw), unat (le32_of (drop 4 raw))))"

fun membuf_to_user_loop :: "umem \<Rightarrow> user_addr \<Rightarrow> nat \<Rightarrow> nat \<Rightarrow> byte list \<Rightarrow> nat \<Rightarrow> nat
    \<Rightarrow> (int \<times> umem) option" where
  "membuf_to_user_loop m iov i 0 buf len copied = Some (int copied, m)"
| "membuf_to_user_loop m iov i (Suc k) buf len copied =
     (let (ret, base, vlen) = get_uiov m iov i in
      if ret \<noteq> NO_ERROR then Some (ret, m)
      else let to_copy = clip len vlen in
        if to_copy \<le> length buf then
          (let (ret, m') = copy_to_user m base (take to_copy buf) in
           if ret \<noteq> NO_ERROR then Some (ret, m')
           else if len - to_copy = 0 then Some (int (copied + to_copy), m')
           else membuf_to_user_loop m' iov (Suc i) k (drop to_copy buf) (len - to_copy)
                  (copied + to_copy))
        else None)"

definition membuf_to_user_iovec :: "umem \<Rightarrow> user_addr \<Rightarrow> nat \<Rightarrow> byte list option \<Rightarrow> nat
    \<Rightarrow> (int \<times> umem) option" where
  "membuf_to_user_iovec m iov_uaddr iov_cnt buf len =
     (if iov_cnt = 0 \<or> len = 0 then Some (0, m)
      else case buf of None \<Rightarrow> Some (ERR_INVALID_ARGS, m)
      | Some b \<Rightarrow> membuf_to_user_loop m iov_uaddr 0 iov_cnt b len 0)"

fun user_to_membuf_loop :: "umem \<Rightarrow> byte list \<Rightarrow> nat \<Rightarrow> user_addr \<Rightarrow> nat \<Rightarrow> nat \<Rightarrow> nat
    \<Rightarrow> (int \<times> byte list) option" where
  "user_to_membuf_loop m buf len iov i 0 copied = Some (int copied, buf)"
| "user_to_membuf_loop m buf len iov i (Suc k) copied =
     (let (ret, base, vlen) = get_uiov m iov i in
      if ret \<noteq> NO_ERROR then Some (ret, buf)
      else let to_copy = clip len vlen in
        if to_copy \<le> length buf then
          (let (ret, src) = copy_from_user m base to_copy in
           if ret \<noteq> NO_ERROR then Some (ret, src @ drop to_copy buf)
           else if len - to_copy = 0
           then Some (int (copied + to_copy), src @ drop to_copy buf)
           else map_option (map_prod id ((@) src))
                  (user_to_membuf_loop m (drop to_copy buf) (len - to_copy) iov (Suc i) k
                     (copied + to_copy)))
        else None)"

definition user_iovec_to_membuf :: "umem \<Rightarrow> byte list option \<Rightarrow> nat \<Rightarrow> user_addr \<Rightarrow> nat
    \<Rightarrow> (int \<times> byte list option) option" where
  "user_iovec_to_membuf m buf len iov_uaddr iov_cnt =
     (if iov_cnt = 0 \<or> len = 0 then Some (0, buf)
      else case buf of None \<Rightarrow> Some (ERR_INVALID_ARGS, buf)
      | Some b \<Rightarrow> map_option (map_prod id Some)
                   (user_to_membuf_loop m b len iov_uaddr 0 iov_cnt 0))"

section \<open>Bounds of the loops\<close>

text \<open>The kernel buffer is never left: the loops return, keep its size and copy at most
  \<open>len\<close> bytes, whatever the user memory holds.\<close>

lemma user_to_membuf_loop_bounds:
  assumes "len \<le> length buf"
  shows "\<exists>r b. user_to_membuf_loop m buf len iov i k copied = Some (r, b) \<and>
    length b = length buf \<and> drop len b = drop len buf \<and>
    (r = ERR_FAULT \<or> int copied \<le> r \<and> r \<le> int (copied + len))"
  using assms
proof (induction m buf len iov i k copied rule: user_to_membuf_loop.induct)
  case (1 m buf len iov i copied)
  then show ?case by simp
next
  case (2 m buf len iov i k copied)
  obtain ret base vlen where g: "get_uiov m iov i = (ret, base, vlen)" by (metis prod_cases3)
  have ret: "ret \<in> {NO_ERROR, ERR_FAULT}"
    using g copy_from_user_loop_ret [of m "ucast (iov + of_nat (i * 8))" 8]
    by (auto simp: get_uiov_def copy_from_user_def split: prod.splits)
  let ?n = "clip len vlen"
  obtain ret2 src where c: "copy_from_user m base ?n = (ret2, src)" by (metis prod.exhaust)
  have "length src = ?n"
    using copy_from_user_length [of m base ?n] c by simp
  moreover have "ret2 \<in> {NO_ERROR, ERR_FAULT}"
    using copy_from_user_loop_ret [of m "ucast base" ?n] c by (simp add: copy_from_user_def)
  ultimately have src: "length src = ?n" "ret2 \<in> {NO_ERROR, ERR_FAULT}" .
  have n: "?n \<le> len" by (simp add: clip_def)
  show ?case
  proof (cases "ret = NO_ERROR \<and> ret2 = NO_ERROR \<and> len - ?n \<noteq> 0")
    case False
    with "2.prems" g c src ret n show ?thesis by (auto simp: Let_def)
  next
    case True
    with "2.IH" [OF g [symmetric] refl refl _ refl _ c [symmetric] refl] "2.prems" n
    obtain r b where r:
      "user_to_membuf_loop m (drop ?n buf) (len - ?n) iov (Suc i) k (copied + ?n) = Some (r, b)"
      "length b = length buf - ?n" "drop (len - ?n) b = drop (len - ?n) (drop ?n buf)"
      "r = ERR_FAULT \<or> int (copied + ?n) \<le> r \<and> r \<le> int (copied + ?n + (len - ?n))"
      by (auto simp: diff_le_mono)
    show ?thesis
      using True "2.prems" g c src n r by (auto simp: Let_def)
  qed
qed

lemma membuf_to_user_loop_bounds:
  assumes "len \<le> length buf"
  shows "\<exists>r m'. membuf_to_user_loop m iov i k buf len copied = Some (r, m') \<and>
    (r = ERR_FAULT \<or> int copied \<le> r \<and> r \<le> int (copied + len)) \<and>
    uwritable m' = uwritable m \<and> ureadable m' = ureadable m"
  using assms
proof (induction m iov i k buf len copied rule: membuf_to_user_loop.induct)
  case (1 m iov i buf len copied)
  then show ?case by simp
next
  case (2 m iov i k buf len copied)
  obtain ret base vlen where g: "get_uiov m iov i = (ret, base, vlen)" by (metis prod_cases3)
  have ret: "ret \<in> {NO_ERROR, ERR_FAULT}"
    using g copy_from_user_loop_ret [of m "ucast (iov + of_nat (i * 8))" 8]
    by (auto simp: get_uiov_def copy_from_user_def split: prod.splits)
  let ?n = "clip len vlen"
  obtain ret2 m2 where c: "copy_to_user m base (take ?n buf) = (ret2, m2)" by (metis prod.exhaust)
  have m2: "ret2 \<in> {NO_ERROR, ERR_FAULT}" "uwritable m2 = uwritable m" "ureadable m2 = ureadable m"
    using copy_to_user_ret [of m base "take ?n buf"] copy_to_user_frame [of m base "take ?n buf"] c
    by simp_all
  have n: "?n \<le> len" by (simp add: clip_def)
  show ?case
  proof (cases "ret = NO_ERROR \<and> ret2 = NO_ERROR \<and> len - ?n \<noteq> 0")
    case False
    with "2.prems" g c m2 ret n show ?thesis by (auto simp: Let_def)
  next
    case True
    with "2.IH" [OF g [symmetric] refl refl _ refl _ c [symmetric] refl] "2.prems" n
    obtain r b where r:
      "membuf_to_user_loop m2 iov (Suc i) k (drop ?n buf) (len - ?n) (copied + ?n) = Some (r, b)"
      "r = ERR_FAULT \<or> int (copied + ?n) \<le> r \<and> r \<le> int (copied + ?n + (len - ?n))"
      "uwritable b = uwritable m2 \<and> ureadable b = ureadable m2"
      by (auto simp: diff_le_mono)
    show ?thesis
      using True "2.prems" g c m2 n r by (auto simp: Let_def)
  qed
qed


section \<open>Gather and scatter on kernel vectors\<close>

text \<open>A well-formed entry is empty or points to at least \<open>klen\<close> bytes; the bytes of a vector
  are those of its entries, end to end.\<close>

definition kvec_ok :: "iovec_kern \<Rightarrow> bool" where
  "kvec_ok v \<longleftrightarrow> klen v = 0 \<or> (\<exists>b. kbase v = Some b \<and> klen v \<le> length b)"

definition kvec_part :: "iovec_kern \<Rightarrow> byte list" where
  "kvec_part v = (case kbase v of None \<Rightarrow> [] | Some b \<Rightarrow> take (klen v) b)"

definition kvec_bytes :: "iovec_kern list \<Rightarrow> byte list" where
  "kvec_bytes vs = concat (map kvec_part vs)"

lemma kvec_bytes_simps [simp]:
  "kvec_bytes [] = []" "kvec_bytes (v # vs) = kvec_part v @ kvec_bytes vs"
  by (simp_all add: kvec_bytes_def)

lemma kvec_part_length: "kvec_ok v \<Longrightarrow> length (kvec_part v) = klen v"
  by (auto simp: kvec_ok_def kvec_part_def split: option.splits)

lemma kern_to_membuf_loop_gathers:
  assumes "list_all kvec_ok vs" "k = length vs" "len \<le> length buf"
  shows "kern_to_membuf_loop buf len vs k copied =
    (let n = min len (length (kvec_bytes vs))
     in Some (int (copied + n), take n (kvec_bytes vs) @ drop n buf))"
  using assms
proof (induction buf len vs k copied rule: kern_to_membuf_loop.induct)
  case (3 buf len v vs k copied)
  from "3.prems" have ok: "kvec_ok v" "list_all kvec_ok vs" "k = length vs" by simp_all
  note plen = kvec_part_length [OF ok(1)]
  show ?case
  proof (cases "clip len (klen v) = 0")
    case True
    then consider "len = 0" | "kvec_part v = []" using plen by (cases "len = 0") (auto simp: clip_min min_def split: if_splits)
    then show ?thesis
      using "3.IH"(1) [OF refl True ok(2,3) "3.prems"(3)] True
      by cases (simp_all add: Let_def)
  next
    case False
    with ok(1) obtain src where src: "kbase v = Some src" "klen v \<le> length src"
      by (auto simp: kvec_ok_def clip_min)
    then have part: "kvec_part v = take (klen v) src" by (simp add: kvec_part_def)
    show ?thesis
    proof (cases "len \<le> klen v")
      case True
      with False src part "3.prems"(3) show ?thesis
        by (auto simp: Let_def clip_min min_def)
    next
      case len: False
      with "3.IH"(2) [OF refl False src(1) _ _ ok(2,3)] "3.prems"(3) src
      have "kern_to_membuf_loop (drop (klen v) buf) (len - klen v) vs k (copied + klen v) =
        (let n = min (len - klen v) (length (kvec_bytes vs))
         in Some (int (copied + klen v + n),
              take n (kvec_bytes vs) @ drop n (drop (klen v) buf)))"
        by (simp add: clip_min min_def)
      with len False src part "3.prems"(3) show ?thesis
        by (auto simp: Let_def clip_min min_def add.commute)
    qed
  qed
qed simp_all

lemma membuf_to_kern_loop_scatters:
  assumes "list_all kvec_ok vs" "k = length vs" "len \<le> length buf"
  shows "\<exists>vs'. membuf_to_kern_loop vs k buf len copied =
      Some (int (copied + min len (length (kvec_bytes vs))), vs') \<and>
    list_all kvec_ok vs' \<and> map klen vs' = map klen vs \<and>
    kvec_bytes vs' = take (min len (length (kvec_bytes vs))) buf
      @ drop (min len (length (kvec_bytes vs))) (kvec_bytes vs)"
  using assms
proof (induction vs k buf len copied rule: membuf_to_kern_loop.induct)
  case (3 v vs k buf len copied)
  from "3.prems" have ok: "kvec_ok v" "list_all kvec_ok vs" "k = length vs" by simp_all
  note plen = kvec_part_length [OF ok(1)]
  show ?case
  proof (cases "clip len (klen v) = 0")
    case True
    then consider "len = 0" | "kvec_part v = []" using plen by (cases "len = 0") (auto simp: clip_min min_def split: if_splits)
    then show ?thesis
      using "3.IH"(1) [OF refl True ok(2,3) "3.prems"(3)] True ok plen
      by cases (auto simp: Let_def)
  next
    case False
    with ok(1) obtain dst where dst: "kbase v = Some dst" "klen v \<le> length dst"
      by (auto simp: kvec_ok_def clip_min)
    then have part: "kvec_part v = take (klen v) dst" by (simp add: kvec_part_def)
    let ?v = "\<lambda>n. v\<lparr>kbase := Some (take n buf @ drop n dst)\<rparr>"
    show ?thesis
    proof (cases "len \<le> klen v")
      case True
      then have "kvec_ok (?v len)" "kvec_part (?v len) = take len buf @ drop len (kvec_part v)"
        using dst part "3.prems"(3)
        by (auto simp: kvec_ok_def kvec_part_def drop_take)
      with False True dst part "3.prems" ok show ?thesis
        by (auto simp: Let_def clip_min min_def)
    next
      case len: False
      then have v: "kvec_ok (?v (klen v))" "kvec_part (?v (klen v)) = take (klen v) buf"
        using dst "3.prems"(3) by (auto simp: kvec_ok_def kvec_part_def)
      from len "3.IH"(2) [OF refl False dst(1) _ refl _ ok(2,3)] "3.prems"(3) dst obtain vs' where
        vs': "membuf_to_kern_loop vs k (drop (klen v) buf) (len - klen v) (copied + klen v) =
            Some (int (copied + klen v + min (len - klen v) (length (kvec_bytes vs))), vs')"
          "list_all kvec_ok vs'" "map klen vs' = map klen vs"
          "kvec_bytes vs' = take (min (len - klen v) (length (kvec_bytes vs))) (drop (klen v) buf)
            @ drop (min (len - klen v) (length (kvec_bytes vs))) (kvec_bytes vs)"
        by (auto simp: clip_min min_def diff_le_mono)
      have sum: "min len (klen v + length (kvec_bytes vs)) =
          klen v + min (len - klen v) (length (kvec_bytes vs))"
        using len by linarith
      have "membuf_to_kern_loop (v # vs) (Suc k) buf len copied =
          Some (int (copied + min len (klen v + length (kvec_bytes vs))), ?v (klen v) # vs')"
        using len False dst "3.prems"(3) vs'(1) sum by (simp add: Let_def clip_min min_def)
      moreover have "take (klen v) buf @ kvec_bytes vs' =
          take (min len (klen v + length (kvec_bytes vs))) buf
          @ drop (min len (klen v + length (kvec_bytes vs))) (kvec_part v @ kvec_bytes vs)"
        unfolding sum vs'(4) using plen by (simp add: take_add)
      ultimately show ?thesis using v vs' plen by simp
    qed
  qed
qed simp_all


lemma kern_iovec_to_membuf_eq:
  assumes "list_all kvec_ok vs" and "len \<le> length buf"
  shows "kern_iovec_to_membuf (Some buf) len (Some vs) (length vs) =
    (let n = min len (length (kvec_bytes vs))
     in Some (int n, Some (take n (kvec_bytes vs) @ drop n buf)))"
proof (cases "length vs = 0 \<or> len = 0")
  case True
  then show ?thesis by (auto simp: kern_iovec_to_membuf_def)
next
  case False
  then show ?thesis
    using kern_to_membuf_loop_gathers [OF assms(1) refl assms(2), of 0]
    by (simp add: kern_iovec_to_membuf_def Let_def)
qed

lemma user_iovec_to_membuf_bounds:
  assumes "len \<le> length buf"
  shows "\<exists>r b. user_iovec_to_membuf m (Some buf) len iov cnt = Some (r, Some b) \<and>
    length b = length buf \<and> drop len b = drop len buf \<and>
    (r = ERR_FAULT \<or> 0 \<le> r \<and> r \<le> int len)"
  using user_to_membuf_loop_bounds [OF assms, of m iov 0 cnt 0]
  by (auto simp: user_iovec_to_membuf_def)

lemma membuf_to_user_iovec_bounds:
  assumes "len \<le> length buf"
  shows "\<exists>r m'. membuf_to_user_iovec m iov cnt (Some buf) len = Some (r, m') \<and>
    (r = ERR_FAULT \<or> 0 \<le> r \<and> r \<le> int len) \<and>
    uwritable m' = uwritable m \<and> ureadable m' = ureadable m"
  using membuf_to_user_loop_bounds [OF assms, of m iov 0 cnt 0]
  by (auto simp: membuf_to_user_iovec_def)

lemma membuf_to_kern_iovec_scatters:
  assumes "list_all kvec_ok vs" "len \<le> length buf"
  shows "\<exists>vs'. membuf_to_kern_iovec (Some vs) (length vs) (Some buf) len =
      Some (int (min len (length (kvec_bytes vs))), Some vs') \<and>
    list_all kvec_ok vs' \<and> map klen vs' = map klen vs \<and>
    kvec_bytes vs' = take (min len (length (kvec_bytes vs))) buf
      @ drop (min len (length (kvec_bytes vs))) (kvec_bytes vs)"
proof (cases "length vs = 0 \<or> len = 0")
  case True
  with assms show ?thesis by (auto simp: membuf_to_kern_iovec_def)
next
  case False
  then show ?thesis
    using membuf_to_kern_loop_scatters [OF assms(1) refl assms(2), of 0]
    by (auto simp: membuf_to_kern_iovec_def)
qed


section \<open>Properties\<close>

text \<open>\<^verbatim>\<open>kern_iovec_to_membuf\<close> gathers: for well-formed entries and a buffer of at
  least \<open>len\<close> bytes it returns the number of bytes that fit and leaves them, end to end, at the
  front of the buffer; the rest of the buffer is untouched.\<close>

theorem kern_iovec_to_membuf_gathers:
  assumes "list_all kvec_ok vs" and "len \<le> length buf"
  shows "kern_iovec_to_membuf (Some buf) len (Some vs) (length vs) =
    (let n = min len (length (kvec_bytes vs))
     in Some (int n, Some (take n (kvec_bytes vs) @ drop n buf)))"
  using assms by (rule kern_iovec_to_membuf_eq)

definition demo_iov :: "iovec_kern list" where
  "demo_iov = [\<lparr>kbase = Some [1, 2, 3], klen = 2\<rparr>, \<lparr>kbase = None, klen = 0\<rparr>,
     \<lparr>kbase = Some [4, 5], klen = 2\<rparr>]"

lemma demo_iov_ok: "list_all kvec_ok demo_iov"
  by (simp add: demo_iov_def kvec_ok_def)

lemma demo_iov_bytes: "kvec_bytes demo_iov = [1, 2, 4, 5]"
  by (simp add: demo_iov_def kvec_part_def)

theorem kern_iovec_to_membuf_gathers_witness:
  "kern_iovec_to_membuf (Some [9, 9, 9, 9]) 3 (Some demo_iov) (length demo_iov) =
     Some (3, Some [1, 2, 4, 9])"
  using kern_iovec_to_membuf_gathers [OF demo_iov_ok, of 3 "[9, 9, 9, 9]"]
  by (simp add: demo_iov_bytes Let_def)

text \<open>Scatter and gather are inverse: a message copied out of a message buffer into
  a vector with room for it is gathered back unchanged.\<close>

theorem iovec_scatter_gather:
  assumes "list_all kvec_ok vs" and "length data \<le> length (kvec_bytes vs)"
    and "length data \<le> length buf"
  shows "\<exists>vs'. membuf_to_kern_iovec (Some vs) (length vs) (Some data) (length data) =
      Some (int (length data), Some vs') \<and>
    kern_iovec_to_membuf (Some buf) (length data) (Some vs') (length vs') =
      Some (int (length data), Some (data @ drop (length data) buf))"
proof -
  have eq: "min (length data) (length (kvec_bytes vs)) = length data"
    using assms(2) by simp
  obtain vs' where vs': "membuf_to_kern_iovec (Some vs) (length vs) (Some data) (length data) =
      Some (int (length data), Some vs')" "list_all kvec_ok vs'"
    "kvec_bytes vs' = data @ drop (length data) (kvec_bytes vs)"
    using membuf_to_kern_iovec_scatters [OF assms(1) order_refl, of data] eq by auto
  then show ?thesis
    using kern_iovec_to_membuf_eq [OF vs'(2) assms(3)]
    by (intro exI [of _ vs']) (simp add: Let_def)
qed

theorem iovec_scatter_gather_witness:
  "\<exists>vs'. membuf_to_kern_iovec (Some demo_iov) (length demo_iov) (Some [7, 8, 9]) (Suc 2) =
      Some (3, Some vs') \<and>
    kern_iovec_to_membuf (Some [0, 0, 0, 0]) (Suc 2) (Some vs') (length vs') = Some (3, Some [7, 8, 9, 0])"
  using iovec_scatter_gather [OF demo_iov_ok, of "[7, 8, 9]" "[0, 0, 0, 0]"]
  by (simp add: demo_iov_bytes eval_nat_numeral)

text \<open>\<^verbatim>\<open>user_iovec_to_membuf\<close> trusts nothing it reads from user space: whatever the
  vector in user memory says (lengths, addresses, faults), the call returns, the kernel buffer
  keeps its size, no byte past \<open>len\<close> changes, and the result is \<^verbatim>\<open>ERR_FAULT\<close> or a count of at
  most \<open>len\<close>.\<close>

theorem user_iovec_to_membuf_bounded:
  assumes "len \<le> length buf"
  shows "\<exists>r b. user_iovec_to_membuf m (Some buf) len iov cnt = Some (r, Some b) \<and>
    length b = length buf \<and> drop len b = drop len buf \<and>
    (r = ERR_FAULT \<or> 0 \<le> r \<and> r \<le> int len)"
  using assms by (rule user_iovec_to_membuf_bounds)

theorem user_iovec_to_membuf_bounded_witness:
  "\<exists>r b. user_iovec_to_membuf \<lparr>udata = (\<lambda>_. 255), ureadable = (\<lambda>_. True),
      uwritable = (\<lambda>_. False)\<rparr> (Some [1, 2, 3]) 2 0x8000 4 = Some (r, Some b) \<and>
    length b = Suc 2 \<and> drop 2 b = [3] \<and> (r = ERR_FAULT \<or> 0 \<le> r \<and> r \<le> 2)"
  using user_iovec_to_membuf_bounded [of 2 "[1, 2, 3]"]
  by (simp add: eval_nat_numeral)

end
