(* ===== verification/MsgQueue.thy ===== *)
theory MsgQueue
  imports Iovec
begin

text \<open>
  The message queue of a channel end: the descriptor and buffer management of
  \<^verbatim>\<open>lib/trusty/ipc_msg.c\<close>.  A queue owns \<open>num_items\<close> slots of \<open>item_sz\<close> bytes; each slot is on
  exactly one of the free, filled and read lists.  A list is the list of the indices of the
  items linked in it, head first; \<^verbatim>\<open>list_delete\<close> unlinks an item from whichever list holds it.
  The lemmas show that every operation keeps this partition and that the queue is a bounded FIFO
  of byte strings that never mixes the contents of two messages.
\<close>

datatype msg_item_state = MSG_ITEM_STATE_FREE | MSG_ITEM_STATE_FILLED | MSG_ITEM_STATE_READ

record msg_item =
  item_id :: byte
  item_state :: msg_item_state
  item_num_handles :: nat
  item_len :: nat

record ipc_msg_queue =
  mq_free_list :: "nat list"
  mq_filled_list :: "nat list"
  mq_read_list :: "nat list"
  num_items :: nat
  item_sz :: nat
  mq_buf :: "byte list"
  mq_items :: "msg_item list"

record ipc_msg_kern =
  kmsg_num_iov :: nat
  kmsg_iov :: "iovec_kern list option"
  kmsg_num_handles :: nat

record ipc_msg_user =
  umsg_num_iov :: nat
  umsg_iov :: user_addr
  umsg_num_handles :: nat

text \<open>\<^verbatim>\<open>msg_desc_t\<close>: the \<^verbatim>\<open>type\<close> tag with its union; any other tag is \<open>MSG_BUFFER_OTHER\<close>.\<close>

datatype msg_desc =
    IPC_MSG_BUFFER_USER ipc_msg_user
  | IPC_MSG_BUFFER_KERNEL ipc_msg_kern
  | MSG_BUFFER_OTHER

record ipc_msg_info =
  info_len :: u32
  info_id :: u32

definition IPC_CHAN_MAX_BUFS :: nat where "IPC_CHAN_MAX_BUFS = 32"
definition IPC_CHAN_MAX_BUF_SIZE :: nat where "IPC_CHAN_MAX_BUF_SIZE = 4096"

section \<open>Operations\<close>

text \<open>\<open>ok1\<close> and \<open>ok2\<close> say whether the two allocations succeed; \<open>junk\<close> is what \<^verbatim>\<open>malloc\<close> left in the
  buffer.\<close>

definition ipc_msg_queue_create ::
    "bool \<Rightarrow> bool \<Rightarrow> (nat \<Rightarrow> byte) \<Rightarrow> nat \<Rightarrow> nat \<Rightarrow> int \<times> ipc_msg_queue option" where
  "ipc_msg_queue_create ok1 ok2 junk num sz =
     (if \<not> ok1 then (ERR_NO_MEMORY, None)
      else if \<not> ok2 then (ERR_NO_MEMORY, None)
      else (NO_ERROR, Some \<lparr>mq_free_list = [0..<num], mq_filled_list = [], mq_read_list = [],
              num_items = num, item_sz = sz, mq_buf = map junk [0..<num * sz],
              mq_items = map (\<lambda>i. \<lparr>item_id = of_nat i, item_state = MSG_ITEM_STATE_FREE,
                            item_num_handles = 0, item_len = 0\<rparr>) [0..<num]\<rparr>))"

definition ipc_msg_queue_is_empty :: "ipc_msg_queue \<Rightarrow> bool" where
  "ipc_msg_queue_is_empty mq \<longleftrightarrow> mq_filled_list mq = []"

definition ipc_msg_queue_is_full :: "ipc_msg_queue \<Rightarrow> bool" where
  "ipc_msg_queue_is_full mq \<longleftrightarrow> mq_free_list mq = []"

text \<open>The offset of the item's slot in \<^verbatim>\<open>mq->buf\<close>.\<close>

definition msg_queue_get_buf :: "ipc_msg_queue \<Rightarrow> msg_item \<Rightarrow> nat" where
  "msg_queue_get_buf mq item = unat (item_id item) * item_sz mq"

definition msg_queue_get_item :: "ipc_msg_queue \<Rightarrow> u32 \<Rightarrow> nat option" where
  "msg_queue_get_item mq msg_id =
     (if unat msg_id < num_items mq then Some (unat msg_id) else None)"

definition mq_list_delete :: "nat \<Rightarrow> ipc_msg_queue \<Rightarrow> ipc_msg_queue" where
  "mq_list_delete i mq = mq\<lparr>mq_free_list := remove1 i (mq_free_list mq),
     mq_filled_list := remove1 i (mq_filled_list mq),
     mq_read_list := remove1 i (mq_read_list mq)\<rparr>"

text \<open>Dereferencing an item out of range is a panic.\<close>

definition mq_item :: "ipc_msg_queue \<Rightarrow> nat \<Rightarrow> msg_item option" where
  "mq_item mq i = (if i < length (mq_items mq) then Some (mq_items mq ! i) else None)"

text \<open>The three-way branch of \<^verbatim>\<open>msg_write_locked\<close> that fills the slot at \<open>buf\<close>; the slot as it
  is afterwards comes back with the result.\<close>

definition msg_fill :: "umem \<Rightarrow> msg_desc \<Rightarrow> byte list \<Rightarrow> nat \<Rightarrow> (int \<times> byte list option) option" where
  "msg_fill m msg buf sz =
     (case msg of
        IPC_MSG_BUFFER_KERNEL k \<Rightarrow>
          if kmsg_num_handles k \<noteq> 0 then Some (ERR_NOT_SUPPORTED, Some buf)
          else kern_iovec_to_membuf (Some buf) sz (kmsg_iov k) (kmsg_num_iov k)
      | IPC_MSG_BUFFER_USER u \<Rightarrow>
          if umsg_num_handles u \<noteq> 0 then Some (ERR_NOT_SUPPORTED, Some buf)
          else user_iovec_to_membuf m (Some buf) sz (umsg_iov u) (umsg_num_iov u)
      | MSG_BUFFER_OTHER \<Rightarrow> Some (ERR_INVALID_ARGS, Some buf))"

text \<open>
  The body of \<^verbatim>\<open>msg_write_locked\<close> over the peer's queue (the blocked flag of the sending channel
  is set in the theory of channels).
\<close>

definition mq_write :: "umem \<Rightarrow> msg_desc \<Rightarrow> ipc_msg_queue \<Rightarrow> (int \<times> ipc_msg_queue) option" where
  "mq_write m msg mq =
     (case mq_free_list mq of
        [] \<Rightarrow> Some (ERR_NOT_ENOUGH_BUFFER, mq)
      | i # _ \<Rightarrow> do {
          item \<leftarrow> mq_item mq i;
          _ \<leftarrow> ASSERT (item_state item = MSG_ITEM_STATE_FREE);
          let item = item\<lparr>item_num_handles := 0, item_len := 0\<rparr>;
          let mq = mq\<lparr>mq_items := (mq_items mq)[i := item]\<rparr>;
          let off = msg_queue_get_buf mq item;
          let buf = drop off (mq_buf mq);
          (ret, buf') \<leftarrow> msg_fill m msg buf (item_sz mq);
          let mq = mq\<lparr>mq_buf := take off (mq_buf mq) @ (case buf' of None \<Rightarrow> buf | Some b \<Rightarrow> b)\<rparr>;
          if ret < 0 then Some (ret, mq)
          else do {
            let mq = mq\<lparr>mq_items := (mq_items mq)[i := item\<lparr>item_len := nat ret\<rparr>]\<rparr>;
            let mq = mq_list_delete i mq;
            let mq = mq\<lparr>mq_filled_list := mq_filled_list mq @ [i]\<rparr>;
            let mq = mq\<lparr>mq_items := (mq_items mq)
                        [i := item\<lparr>item_len := nat ret, item_state := MSG_ITEM_STATE_FILLED\<rparr>]\<rparr>;
            Some (ret, mq) } })"

text \<open>The user memory and, for a kernel message, its vector come back with what was copied.\<close>

definition msg_read_locked :: "umem \<Rightarrow> ipc_msg_queue \<Rightarrow> u32 \<Rightarrow> u32 \<Rightarrow> msg_desc
    \<Rightarrow> (int \<times> umem \<times> msg_desc) option" where
  "msg_read_locked m mq msg_id offset msg =
     (case msg_queue_get_item mq msg_id of
        None \<Rightarrow> Some (ERR_INVALID_ARGS, m, msg)
      | Some i \<Rightarrow> do {
          item \<leftarrow> mq_item mq i;
          if item_state item \<noteq> MSG_ITEM_STATE_READ then Some (ERR_INVALID_ARGS, m, msg)
          else if item_num_handles item \<noteq> 0 then Some (ERR_NOT_SUPPORTED, m, msg)
          else if unat offset > item_len item then Some (ERR_INVALID_ARGS, m, msg)
          else do {
            let buf = drop (msg_queue_get_buf mq item + unat offset) (mq_buf mq);
            let bytes_left = item_len item - unat offset;
            case msg of
              IPC_MSG_BUFFER_KERNEL k \<Rightarrow>
                if kmsg_num_handles k \<noteq> 0 then Some (ERR_NOT_SUPPORTED, m, msg)
                else do {
                  (ret, iov) \<leftarrow> membuf_to_kern_iovec (kmsg_iov k) (kmsg_num_iov k) (Some buf) bytes_left;
                  Some (ret, m, IPC_MSG_BUFFER_KERNEL (k\<lparr>kmsg_iov := iov\<rparr>)) }
            | IPC_MSG_BUFFER_USER u \<Rightarrow>
                if umsg_num_handles u \<noteq> 0 then Some (ERR_NOT_SUPPORTED, m, msg)
                else do {
                  (ret, m') \<leftarrow> membuf_to_user_iovec m (umsg_iov u) (umsg_num_iov u) (Some buf) bytes_left;
                  Some (ret, m', msg) }
            | MSG_BUFFER_OTHER \<Rightarrow> Some (ERR_INVALID_ARGS, m, msg) } })"

definition msg_peek_next_filled_locked :: "ipc_msg_queue \<Rightarrow> (int \<times> ipc_msg_info option) option" where
  "msg_peek_next_filled_locked mq =
     (case mq_filled_list mq of
        [] \<Rightarrow> Some (ERR_NO_MSG, None)
      | i # _ \<Rightarrow> do {
          item \<leftarrow> mq_item mq i;
          Some (NO_ERROR, Some \<lparr>info_len = of_nat (item_len item), info_id = ucast (item_id item)\<rparr>) })"

definition msg_get_filled_locked :: "ipc_msg_queue \<Rightarrow> ipc_msg_queue option" where
  "msg_get_filled_locked mq =
     (case mq_filled_list mq of
        [] \<Rightarrow> None
      | i # _ \<Rightarrow> do {
          item \<leftarrow> mq_item mq i;
          let mq = mq_list_delete i mq;
          let mq = mq\<lparr>mq_read_list := mq_read_list mq @ [i]\<rparr>;
          Some (mq\<lparr>mq_items := (mq_items mq)[i := item\<lparr>item_state := MSG_ITEM_STATE_READ\<rparr>]\<rparr>) })"

text \<open>The queue part of \<^verbatim>\<open>msg_put_read_locked\<close> (the peer's flags are in the theory of channels).\<close>

definition mq_put_read :: "ipc_msg_queue \<Rightarrow> u32 \<Rightarrow> (int \<times> ipc_msg_queue) option" where
  "mq_put_read mq msg_id =
     (case msg_queue_get_item mq msg_id of
        None \<Rightarrow> Some (ERR_INVALID_ARGS, mq)
      | Some i \<Rightarrow> do {
          item \<leftarrow> mq_item mq i;
          if item_state item \<noteq> MSG_ITEM_STATE_READ then Some (ERR_INVALID_ARGS, mq)
          else do {
            let mq = mq_list_delete i mq;
            let mq = mq\<lparr>mq_free_list := i # mq_free_list mq\<rparr>;
            Some (NO_ERROR, mq\<lparr>mq_items :=
              (mq_items mq)[i := item\<lparr>item_state := MSG_ITEM_STATE_FREE\<rparr>]\<rparr>) } })"

section \<open>The invariant\<close>

definition mq_item_ok :: "ipc_msg_queue \<Rightarrow> nat \<Rightarrow> bool" where
  "mq_item_ok mq i \<longleftrightarrow>
     item_id (mq_items mq ! i) = of_nat i \<and> item_num_handles (mq_items mq ! i) = 0 \<and>
     (i \<in> set (mq_free_list mq) \<longrightarrow> item_state (mq_items mq ! i) = MSG_ITEM_STATE_FREE) \<and>
     (i \<in> set (mq_filled_list mq) \<longrightarrow> item_state (mq_items mq ! i) = MSG_ITEM_STATE_FILLED) \<and>
     (i \<in> set (mq_read_list mq) \<longrightarrow> item_state (mq_items mq ! i) = MSG_ITEM_STATE_READ) \<and>
     item_len (mq_items mq ! i) \<le> item_sz mq"

definition mq_inv :: "ipc_msg_queue \<Rightarrow> bool" where
  "mq_inv mq \<longleftrightarrow>
     num_items mq \<le> IPC_CHAN_MAX_BUFS \<and> item_sz mq \<le> IPC_CHAN_MAX_BUF_SIZE \<and>
     length (mq_items mq) = num_items mq \<and>
     length (mq_buf mq) = num_items mq * item_sz mq \<and>
     distinct (mq_free_list mq @ mq_filled_list mq @ mq_read_list mq) \<and>
     set (mq_free_list mq @ mq_filled_list mq @ mq_read_list mq) = {..<num_items mq} \<and>
     (\<forall>i<num_items mq. mq_item_ok mq i)"

text \<open>The bytes of message \<open>i\<close>, the messages waiting to be received and those being read.\<close>

definition mq_content :: "ipc_msg_queue \<Rightarrow> nat \<Rightarrow> byte list" where
  "mq_content mq i = take (item_len (mq_items mq ! i)) (drop (i * item_sz mq) (mq_buf mq))"

definition mq_pending :: "ipc_msg_queue \<Rightarrow> byte list list" where
  "mq_pending mq = map (mq_content mq) (mq_filled_list mq)"

lemma mq_inv_create:
  assumes "num \<le> IPC_CHAN_MAX_BUFS" "sz \<le> IPC_CHAN_MAX_BUF_SIZE"
  shows "\<exists>mq. ipc_msg_queue_create True True junk num sz = (NO_ERROR, Some mq) \<and> mq_inv mq \<and>
     mq_pending mq = [] \<and> length (mq_free_list mq) = num"
  using assms
  by (auto simp: ipc_msg_queue_create_def mq_inv_def mq_item_ok_def mq_pending_def)

lemma mq_inv_lists:
  assumes "mq_inv mq"
  shows "i \<in> set (mq_free_list mq) \<Longrightarrow> i < num_items mq \<and> i \<notin> set (mq_filled_list mq) \<and>
      i \<notin> set (mq_read_list mq)"
    and "i \<in> set (mq_filled_list mq) \<Longrightarrow> i < num_items mq \<and> i \<notin> set (mq_free_list mq) \<and>
      i \<notin> set (mq_read_list mq)"
    and "i \<in> set (mq_read_list mq) \<Longrightarrow> i < num_items mq \<and> i \<notin> set (mq_free_list mq) \<and>
      i \<notin> set (mq_filled_list mq)"
  using assms unfolding mq_inv_def by auto

lemma mq_inv_item: "mq_inv mq \<Longrightarrow> i < num_items mq \<Longrightarrow> mq_item mq i = Some (mq_items mq ! i)"
  by (simp add: mq_inv_def mq_item_def)

lemma mq_inv_id: "mq_inv mq \<Longrightarrow> i < num_items mq \<Longrightarrow> unat (item_id (mq_items mq ! i)) = i"
  by (simp add: mq_inv_def mq_item_ok_def IPC_CHAN_MAX_BUFS_def unat_of_nat_less)

lemma mq_inv_off:
  "mq_inv mq \<Longrightarrow> i < num_items mq \<Longrightarrow> msg_queue_get_buf mq (mq_items mq ! i) = i * item_sz mq"
  by (simp add: msg_queue_get_buf_def mq_inv_id)

lemma slot_room:
  "i < n \<Longrightarrow> i * sz + sz \<le> n * (sz :: nat)"
  by (metis Suc_leI mult.commute mult_Suc_right add.commute mult_le_mono2)

lemma mq_inv_off_le:
  assumes "mq_inv mq" "i < num_items mq"
  shows "i * item_sz mq \<le> length (mq_buf mq)"
  using assms by (simp add: mq_inv_def)

lemma mq_inv_room:
  assumes "mq_inv mq" "i < num_items mq"
  shows "item_sz mq \<le> length (drop (i * item_sz mq) (mq_buf mq))"
  using assms slot_room [OF assms(2), of "item_sz mq"] by (simp add: mq_inv_def)

lemma mq_inv_state_read:
  assumes "mq_inv mq" "i < num_items mq"
  shows "item_state (mq_items mq ! i) = MSG_ITEM_STATE_READ \<longleftrightarrow> i \<in> set (mq_read_list mq)"
proof -
  from assms have "i \<in> set (mq_free_list mq) \<union> set (mq_filled_list mq) \<union> set (mq_read_list mq)"
    "mq_item_ok mq i"
    unfolding mq_inv_def by auto
  then show ?thesis by (auto simp: mq_item_ok_def)
qed


section \<open>Filling and reading a slot\<close>

text \<open>A descriptor is well formed when a kernel vector in it is: user vectors are not trusted.\<close>

definition msg_desc_ok :: "msg_desc \<Rightarrow> bool" where
  "msg_desc_ok msg \<longleftrightarrow>
     (case msg of
        IPC_MSG_BUFFER_KERNEL k \<Rightarrow>
          (case kmsg_iov k of None \<Rightarrow> True
           | Some vs \<Rightarrow> kmsg_num_iov k = length vs \<and> list_all kvec_ok vs)
      | _ \<Rightarrow> True)"

lemma kern_iovec_to_membuf_None:
  "kern_iovec_to_membuf (Some buf) sz None cnt =
     Some (if cnt = 0 \<or> sz = 0 then 0 else ERR_INVALID_ARGS, Some buf)"
  by (simp add: kern_iovec_to_membuf_def)

lemma msg_fill_bounds:
  assumes "msg_desc_ok msg" "sz \<le> length buf"
  shows "\<exists>r b. msg_fill m msg buf sz = Some (r, Some b) \<and>
    length b = length buf \<and> drop sz b = drop sz buf \<and> (0 \<le> r \<longrightarrow> r \<le> int sz)"
proof (cases msg)
  case (IPC_MSG_BUFFER_USER u)
  with user_iovec_to_membuf_bounds [OF assms(2), of m "umsg_iov u" "umsg_num_iov u"]
  show ?thesis by (auto simp: msg_fill_def err_simps)
next
  case (IPC_MSG_BUFFER_KERNEL k)
  show ?thesis
  proof (cases "kmsg_iov k")
    case None
    with IPC_MSG_BUFFER_KERNEL show ?thesis
      by (simp add: msg_fill_def kern_iovec_to_membuf_None err_simps)
  next
    case (Some vs)
    with IPC_MSG_BUFFER_KERNEL assms kern_iovec_to_membuf_eq [of vs sz buf]
    show ?thesis by (auto simp: msg_fill_def msg_desc_ok_def Let_def err_simps)
  qed
next
  case MSG_BUFFER_OTHER
  then show ?thesis by (simp add: msg_fill_def err_simps)
qed

lemma msg_fill_kernel:
  assumes "kmsg_num_handles k = 0" "kmsg_iov k = Some vs" "kmsg_num_iov k = length vs"
    "list_all kvec_ok vs" "length (kvec_bytes vs) \<le> sz" "sz \<le> length buf"
  shows "msg_fill m (IPC_MSG_BUFFER_KERNEL k) buf sz =
    Some (int (length (kvec_bytes vs)),
          Some (kvec_bytes vs @ drop (length (kvec_bytes vs)) buf))"
  using assms kern_iovec_to_membuf_eq [OF assms(4,6)]
  by (simp add: msg_fill_def Let_def)

text \<open>A fill never reports a full queue: that code is left to the test of the free list.\<close>

lemma msg_fill_not_full:
  assumes "msg_desc_ok msg" "sz \<le> length buf" "msg_fill m msg buf sz = Some (ret, b)"
  shows "ret \<noteq> ERR_NOT_ENOUGH_BUFFER"
proof (cases msg)
  case (IPC_MSG_BUFFER_USER u)
  with user_iovec_to_membuf_bounds [OF assms(2), of m "umsg_iov u" "umsg_num_iov u"] assms(3)
  show ?thesis by (auto simp: msg_fill_def err_simps split: if_splits)
next
  case (IPC_MSG_BUFFER_KERNEL k)
  with assms kern_iovec_to_membuf_eq [of _ sz buf] show ?thesis
    by (cases "kmsg_iov k") (auto simp: msg_fill_def msg_desc_ok_def kern_iovec_to_membuf_None
        err_simps Let_def split: if_splits)
next
  case MSG_BUFFER_OTHER
  with assms(3) show ?thesis by (simp add: msg_fill_def err_simps)
qed

text \<open>Writing one slot leaves every other slot as it was.\<close>

lemma slot_splice_other:
  assumes "length b = length (drop (i * sz) buf)" "drop sz b = drop sz (drop (i * sz) buf)"
    and "j \<noteq> i" "l \<le> sz" "i * sz \<le> length buf"
  shows "take l (drop (j * sz) (take (i * sz) buf @ b)) = take l (drop (j * sz) (buf :: byte list))"
proof (cases "j < i")
  case True
  then have "j * sz + sz \<le> i * sz" by (rule slot_room)
  then have "j * sz + l \<le> i * sz" using assms(4) by linarith
  then have "take l (drop (j * sz) (take (i * sz) xs)) = take l (drop (j * sz) xs)"
    for xs :: "byte list"
    by (simp add: drop_take min_def)
  from this [of "take (i * sz) buf @ b"] this [of buf] assms(5) show ?thesis by simp
next
  case False
  with assms(3) have "i < j" by simp
  then have ij: "i * sz + sz \<le> j * sz" by (rule slot_room)
  then obtain d where d: "j * sz = i * sz + sz + d" by (metis le_Suc_ex)
  have "drop (j * sz) (take (i * sz) buf @ b) = drop d (drop sz b)"
    using assms(5) d by (simp add: add.commute)
  also have "\<dots> = drop (j * sz) buf"
    unfolding assms(2) using d by (simp add: ac_simps)
  finally show ?thesis by simp
qed

lemma slot_splice_same:
  assumes "i * sz \<le> length buf"
  shows "drop (i * sz) (take (i * sz) buf @ b) = (b :: byte list)"
  using assms by simp

section \<open>What each operation does to a well-formed queue\<close>

lemma mq_write_full:
  "mq_free_list mq = [] \<Longrightarrow> mq_write m msg mq = Some (ERR_NOT_ENOUGH_BUFFER, mq)"
  by (simp add: mq_write_def)

text \<open>The queue after the slot \<open>i\<close> got the buffer contents \<open>b\<close> and, on success, joined the
  filled list.\<close>

definition mq_wrote :: "nat \<Rightarrow> int \<Rightarrow> byte list \<Rightarrow> ipc_msg_queue \<Rightarrow> ipc_msg_queue" where
  "mq_wrote i ret b mq =
     (let it = (mq_items mq ! i)\<lparr>item_num_handles := 0\<rparr>;
          mq1 = mq\<lparr>mq_buf := take (i * item_sz mq) (mq_buf mq) @ b\<rparr> in
      if ret < 0 then mq1\<lparr>mq_items := (mq_items mq)[i := it\<lparr>item_len := 0\<rparr>]\<rparr>
      else mq1\<lparr>mq_items := (mq_items mq)
             [i := it\<lparr>item_len := nat ret, item_state := MSG_ITEM_STATE_FILLED\<rparr>],
             mq_free_list := remove1 i (mq_free_list mq),
             mq_filled_list := mq_filled_list mq @ [i]\<rparr>)"

lemma mq_write_step:
  assumes inv: "mq_inv mq" and free: "mq_free_list mq = i # fs"
    and fill: "msg_fill m msg (drop (i * item_sz mq) (mq_buf mq)) (item_sz mq) = Some (ret, Some b)"
  shows "mq_write m msg mq = Some (ret, mq_wrote i ret b mq)"
proof -
  have i: "i < num_items mq" "i \<notin> set (mq_filled_list mq)" "i \<notin> set (mq_read_list mq)"
    using mq_inv_lists(1) [OF inv, of i] free by auto
  have st: "item_state (mq_items mq ! i) = MSG_ITEM_STATE_FREE"
    using inv i free unfolding mq_inv_def mq_item_ok_def by auto
  have off: "msg_queue_get_buf (mq\<lparr>mq_items := xs\<rparr>) ((mq_items mq ! i)\<lparr>item_num_handles := n, item_len := l\<rparr>)
      = i * item_sz mq" for xs n l
    using mq_inv_off [OF inv i(1)] by (simp add: msg_queue_get_buf_def)
  show ?thesis
    using free st mq_inv_item [OF inv i(1)] fill i
    by (simp add: mq_write_def off mq_wrote_def mq_list_delete_def remove1_idem Let_def)
qed

lemma mq_wrote_content_other:
  assumes inv: "mq_inv mq" and i: "i < num_items mq" and b: "length b = length (drop (i * item_sz mq) (mq_buf mq))"
    "drop (item_sz mq) b = drop (item_sz mq) (drop (i * item_sz mq) (mq_buf mq))"
    and j: "j < num_items mq" "j \<noteq> i"
  shows "mq_content (mq_wrote i ret b mq) j = mq_content mq j"
proof -
  have l: "item_len (mq_items mq ! j) \<le> item_sz mq"
    using inv j by (auto simp: mq_inv_def mq_item_ok_def)
  have "i * item_sz mq \<le> length (mq_buf mq)" by (rule mq_inv_off_le [OF inv i])
  then show ?thesis
    using slot_splice_other [OF b j(2) l] j
    by (simp add: mq_content_def mq_wrote_def Let_def)
qed

lemma mq_wrote_content_same:
  assumes inv: "mq_inv mq" and i: "i < num_items mq" and r: "0 \<le> ret"
  shows "mq_content (mq_wrote i ret b mq) i = take (nat ret) b"
proof -
  have "i * item_sz mq \<le> length (mq_buf mq)" "length (mq_items mq) = num_items mq"
    using mq_inv_off_le [OF inv i] inv by (simp_all add: mq_inv_def)
  then show ?thesis
    using i r by (simp add: mq_content_def mq_wrote_def Let_def)
qed

lemma mq_inv_wrote:
  assumes inv: "mq_inv mq" and free: "mq_free_list mq = i # fs"
    and b: "length b = length (drop (i * item_sz mq) (mq_buf mq))"
    and r: "0 \<le> ret \<longrightarrow> ret \<le> int (item_sz mq)"
  shows "mq_inv (mq_wrote i ret b mq)"
proof -
  have i: "i < num_items mq" "i \<notin> set (mq_filled_list mq)" "i \<notin> set (mq_read_list mq)" "i \<notin> set fs"
    using mq_inv_lists(1) [OF inv, of i] inv free by (auto simp: mq_inv_def)
  have "i * item_sz mq \<le> length (mq_buf mq)" by (rule mq_inv_off_le [OF inv i(1)])
  then have len: "length (mq_buf (mq_wrote i ret b mq)) = num_items mq * item_sz mq"
    using b inv by (simp add: mq_wrote_def Let_def mq_inv_def)
  have ok: "mq_item_ok (mq_wrote i ret b mq) j" if "j < num_items mq" for j
    using inv that i r free
    by (auto simp: mq_inv_def mq_item_ok_def mq_wrote_def Let_def nth_list_update)
  show ?thesis
    using inv i free len ok
    by (auto simp: mq_inv_def mq_wrote_def Let_def)
qed

lemma mq_get_empty: "mq_filled_list mq = [] \<Longrightarrow> msg_get_filled_locked mq = None"
  by (simp add: msg_get_filled_locked_def)

definition mq_got :: "nat \<Rightarrow> ipc_msg_queue \<Rightarrow> ipc_msg_queue" where
  "mq_got i mq = mq\<lparr>mq_filled_list := tl (mq_filled_list mq), mq_read_list := mq_read_list mq @ [i],
     mq_items := (mq_items mq)[i := (mq_items mq ! i)\<lparr>item_state := MSG_ITEM_STATE_READ\<rparr>]\<rparr>"

definition mq_putd :: "nat \<Rightarrow> ipc_msg_queue \<Rightarrow> ipc_msg_queue" where
  "mq_putd i mq = mq\<lparr>mq_free_list := i # mq_free_list mq, mq_read_list := remove1 i (mq_read_list mq),
     mq_items := (mq_items mq)[i := (mq_items mq ! i)\<lparr>item_state := MSG_ITEM_STATE_FREE\<rparr>]\<rparr>"

lemma mq_got_content: "mq_content (mq_got i mq) j = mq_content mq j"
  by (cases "i < length (mq_items mq)") (simp_all add: mq_content_def mq_got_def nth_list_update list_update_beyond)

lemma mq_putd_content: "mq_content (mq_putd i mq) j = mq_content mq j"
  by (cases "i < length (mq_items mq)") (simp_all add: mq_content_def mq_putd_def nth_list_update list_update_beyond)

lemma mq_frame [frame_simps]:
  "num_items (mq_wrote i ret b mq) = num_items mq" "item_sz (mq_wrote i ret b mq) = item_sz mq"
  "num_items (mq_got i mq) = num_items mq" "item_sz (mq_got i mq) = item_sz mq"
  "num_items (mq_putd i mq) = num_items mq" "item_sz (mq_putd i mq) = item_sz mq"
  by (simp_all add: mq_wrote_def mq_got_def mq_putd_def Let_def)

lemma mq_get_step:
  assumes inv: "mq_inv mq" and "mq_filled_list mq = i # fs"
  shows "msg_get_filled_locked mq = Some (mq_got i mq)"
    and "msg_peek_next_filled_locked mq =
      Some (NO_ERROR, Some \<lparr>info_len = of_nat (length (mq_content mq i)), info_id = of_nat i\<rparr>)"
proof -
  have i: "i < num_items mq" "i \<notin> set (mq_free_list mq)" "i \<notin> set (mq_read_list mq)"
    using mq_inv_lists(2) [OF inv, of i] assms by auto
  show "msg_get_filled_locked mq = Some (mq_got i mq)"
    using assms i mq_inv_item [OF inv i(1)]
    by (simp add: msg_get_filled_locked_def mq_list_delete_def mq_got_def remove1_idem)
  have l: "item_len (mq_items mq ! i) \<le> item_sz mq"
    using inv i by (auto simp: mq_inv_def mq_item_ok_def)
  then have "length (mq_content mq i) = item_len (mq_items mq ! i)"
    using mq_inv_room [OF inv i(1)] by (simp add: mq_content_def)
  moreover have "ucast (item_id (mq_items mq ! i)) = (of_nat i :: u32)"
    using arg_cong [OF mq_inv_id [OF inv i(1)], of "of_nat :: nat \<Rightarrow> u32"] by simp
  ultimately show "msg_peek_next_filled_locked mq =
      Some (NO_ERROR, Some \<lparr>info_len = of_nat (length (mq_content mq i)), info_id = of_nat i\<rparr>)"
    using assms mq_inv_item [OF inv i(1)] by (simp add: msg_peek_next_filled_locked_def)
qed

lemma mq_inv_got:
  assumes inv: "mq_inv mq" and f: "mq_filled_list mq = i # fs"
  shows "mq_inv (mq_got i mq)"
proof -
  have i: "i < num_items mq" "i \<notin> set (mq_free_list mq)" "i \<notin> set (mq_read_list mq)" "i \<notin> set fs"
    using mq_inv_lists(2) [OF inv, of i] assms by (auto simp: mq_inv_def)
  have "mq_item_ok (mq_got i mq) j" if "j < num_items mq" for j
    using inv that i f
    by (auto simp: mq_inv_def mq_item_ok_def mq_got_def nth_list_update)
  with inv f i show ?thesis
    by (auto simp: mq_inv_def mq_got_def)
qed

lemma mq_put_step:
  assumes inv: "mq_inv mq" and "unat t \<in> set (mq_read_list mq)"
  shows "mq_put_read mq t = Some (NO_ERROR, mq_putd (unat t) mq)"
proof -
  have i: "unat t < num_items mq" "unat t \<notin> set (mq_free_list mq)" "unat t \<notin> set (mq_filled_list mq)"
    using mq_inv_lists(3) [OF inv assms(2)] by auto
  then show ?thesis
    using assms mq_inv_item [OF inv i(1)] mq_inv_state_read [OF inv i(1)]
    by (simp add: mq_put_read_def msg_queue_get_item_def mq_list_delete_def mq_putd_def remove1_idem)
qed

lemma mq_put_other:
  assumes inv: "mq_inv mq" and "unat t \<notin> set (mq_read_list mq)"
  shows "mq_put_read mq t = Some (ERR_INVALID_ARGS, mq)"
proof (cases "unat t < num_items mq")
  case True
  then show ?thesis
    using assms mq_inv_item [OF inv True] mq_inv_state_read [OF inv True]
    by (simp add: mq_put_read_def msg_queue_get_item_def)
qed (simp add: mq_put_read_def msg_queue_get_item_def)

lemma mq_inv_putd:
  assumes inv: "mq_inv mq" and r: "i \<in> set (mq_read_list mq)"
  shows "mq_inv (mq_putd i mq)"
proof -
  have i: "i < num_items mq" "i \<notin> set (mq_free_list mq)" "i \<notin> set (mq_filled_list mq)"
    using mq_inv_lists(3) [OF inv r] by auto
  have "distinct (mq_read_list mq)" using inv by (simp add: mq_inv_def)
  then have rm: "set (remove1 i (mq_read_list mq)) = set (mq_read_list mq) - {i}"
    by (simp add: set_remove1_eq)
  have "mq_item_ok (mq_putd i mq) j" if "j < num_items mq" for j
    using inv that i r rm
    by (auto simp: mq_inv_def mq_item_ok_def mq_putd_def nth_list_update)
  with inv r i rm show ?thesis
    by (auto simp: mq_inv_def mq_putd_def)
qed

text \<open>Reading: only a message on the read list is delivered, from the offset on.\<close>

lemma msg_read_other:
  assumes inv: "mq_inv mq" and "unat t \<notin> set (mq_read_list mq)"
  shows "msg_read_locked m mq t offs msg = Some (ERR_INVALID_ARGS, m, msg)"
proof (cases "unat t < num_items mq")
  case True
  then show ?thesis
    using assms mq_inv_item [OF inv True] mq_inv_state_read [OF inv True]
    by (simp add: msg_read_locked_def msg_queue_get_item_def)
qed (simp add: msg_read_locked_def msg_queue_get_item_def)

lemma msg_read_step:
  assumes inv: "mq_inv mq" and r: "unat t \<in> set (mq_read_list mq)"
  obtains buf where
    "item_len (mq_items mq ! unat t) - unat offs \<le> length buf"
    "take (item_len (mq_items mq ! unat t) - unat offs) buf = drop (unat offs) (mq_content mq (unat t))"
    "msg_read_locked m mq t offs msg =
     (if unat offs > length (mq_content mq (unat t)) then Some (ERR_INVALID_ARGS, m, msg)
      else case msg of
        IPC_MSG_BUFFER_KERNEL k \<Rightarrow>
          if kmsg_num_handles k \<noteq> 0 then Some (ERR_NOT_SUPPORTED, m, msg)
          else map_option (\<lambda>(ret, iov). (ret, m, IPC_MSG_BUFFER_KERNEL (k\<lparr>kmsg_iov := iov\<rparr>)))
            (membuf_to_kern_iovec (kmsg_iov k) (kmsg_num_iov k) (Some buf)
              (item_len (mq_items mq ! unat t) - unat offs))
      | IPC_MSG_BUFFER_USER u \<Rightarrow>
          if umsg_num_handles u \<noteq> 0 then Some (ERR_NOT_SUPPORTED, m, msg)
          else map_option (\<lambda>(ret, m'). (ret, m', msg))
            (membuf_to_user_iovec m (umsg_iov u) (umsg_num_iov u) (Some buf)
              (item_len (mq_items mq ! unat t) - unat offs))
      | MSG_BUFFER_OTHER \<Rightarrow> Some (ERR_INVALID_ARGS, m, msg))"
proof
  let ?i = "unat t" let ?it = "mq_items mq ! ?i"
  let ?buf = "drop (?i * item_sz mq + unat offs) (mq_buf mq)"
  have i: "?i < num_items mq" using mq_inv_lists(3) [OF inv r] by simp
  have it: "item_len ?it \<le> item_sz mq" "item_num_handles ?it = 0"
    using inv i by (auto simp: mq_inv_def mq_item_ok_def)
  have room: "item_len ?it \<le> length (drop (?i * item_sz mq) (mq_buf mq))"
    using mq_inv_room [OF inv i] it by simp
  then have len: "length (mq_content mq ?i) = item_len ?it" by (simp add: mq_content_def)
  show "item_len ?it - unat offs \<le> length ?buf" using room by simp
  show "take (item_len ?it - unat offs) ?buf = drop (unat offs) (mq_content mq ?i)"
    by (simp add: mq_content_def drop_take add.commute)
  show "msg_read_locked m mq t offs msg =
     (if unat offs > length (mq_content mq ?i) then Some (ERR_INVALID_ARGS, m, msg)
      else case msg of
        IPC_MSG_BUFFER_KERNEL k \<Rightarrow>
          if kmsg_num_handles k \<noteq> 0 then Some (ERR_NOT_SUPPORTED, m, msg)
          else map_option (\<lambda>(ret, iov). (ret, m, IPC_MSG_BUFFER_KERNEL (k\<lparr>kmsg_iov := iov\<rparr>)))
            (membuf_to_kern_iovec (kmsg_iov k) (kmsg_num_iov k) (Some ?buf) (item_len ?it - unat offs))
      | IPC_MSG_BUFFER_USER u \<Rightarrow>
          if umsg_num_handles u \<noteq> 0 then Some (ERR_NOT_SUPPORTED, m, msg)
          else map_option (\<lambda>(ret, m'). (ret, m', msg))
            (membuf_to_user_iovec m (umsg_iov u) (umsg_num_iov u) (Some ?buf) (item_len ?it - unat offs))
      | MSG_BUFFER_OTHER \<Rightarrow> Some (ERR_INVALID_ARGS, m, msg))"
    using i it mq_inv_item [OF inv i] mq_inv_state_read [OF inv i] r len mq_inv_off [OF inv i]
    by (auto simp: msg_read_locked_def msg_queue_get_item_def Let_def
        split: msg_desc.splits option.splits Option.bind_splits)
qed

section \<open>Bounded FIFO queues\<close>

text \<open>
  What the two ends of a channel rely on.  A client sends values, receives the oldest one under a
  token, fetches the value of a token it holds as often as it likes, and retires the token; \<open>fit\<close>
  is what remains of a value that is longer than a slot.
\<close>

datatype 'a fifo_op = Send 'a | Recv | Retire u32

fun fifo_run :: "('q \<Rightarrow> 'a \<Rightarrow> 'q option) \<Rightarrow> ('q \<Rightarrow> (u32 \<times> 'q) option) \<Rightarrow> ('q \<Rightarrow> u32 \<Rightarrow> 'a)
    \<Rightarrow> ('q \<Rightarrow> u32 \<Rightarrow> 'q) \<Rightarrow> 'a fifo_op list \<Rightarrow> 'q \<Rightarrow> 'q \<times> 'a list \<times> 'a list" where
  "fifo_run send recv fetch retire [] q = (q, [], [])"
| "fifo_run send recv fetch retire (Send a # ops) q =
     (case send q a of
        None \<Rightarrow> fifo_run send recv fetch retire ops q
      | Some q' \<Rightarrow> (let (q', sent, got) = fifo_run send recv fetch retire ops q'
                   in (q', a # sent, got)))"
| "fifo_run send recv fetch retire (Recv # ops) q =
     (case recv q of
        None \<Rightarrow> fifo_run send recv fetch retire ops q
      | Some (t, q') \<Rightarrow> (let (q'', sent, got) = fifo_run send recv fetch retire ops q'
                        in (q'', sent, fetch q' t # got)))"
| "fifo_run send recv fetch retire (Retire t # ops) q =
     fifo_run send recv fetch retire ops (retire q t)"

locale bounded_fifo =
  fixes wf :: "'q \<Rightarrow> bool"
    and send :: "'q \<Rightarrow> 'a \<Rightarrow> 'q option"
    and recv :: "'q \<Rightarrow> (u32 \<times> 'q) option"
    and fetch :: "'q \<Rightarrow> u32 \<Rightarrow> 'a"
    and retire :: "'q \<Rightarrow> u32 \<Rightarrow> 'q"
    and pending :: "'q \<Rightarrow> 'a list"
    and reading :: "'q \<Rightarrow> u32 list"
    and cap :: nat
    and fit :: "'a \<Rightarrow> 'a"
  assumes bounded: "wf q \<Longrightarrow> length (pending q) + length (reading q) \<le> cap"
    and tokens_distinct: "wf q \<Longrightarrow> distinct (reading q)"
    and send_full: "\<lbrakk>wf q; length (pending q) + length (reading q) = cap\<rbrakk> \<Longrightarrow> send q a = None"
    and send_ok: "\<lbrakk>wf q; length (pending q) + length (reading q) < cap\<rbrakk> \<Longrightarrow>
      \<exists>q'. send q a = Some q' \<and> wf q' \<and> pending q' = pending q @ [fit a] \<and>
        reading q' = reading q \<and> (\<forall>t\<in>set (reading q). fetch q' t = fetch q t)"
    and recv_empty: "\<lbrakk>wf q; pending q = []\<rbrakk> \<Longrightarrow> recv q = None"
    and recv_ok: "\<lbrakk>wf q; pending q = a # as\<rbrakk> \<Longrightarrow>
      \<exists>t q'. recv q = Some (t, q') \<and> wf q' \<and> pending q' = as \<and> reading q' = reading q @ [t] \<and>
        fetch q' t = a \<and> (\<forall>t\<in>set (reading q). fetch q' t = fetch q t)"
    and retire_ok: "\<lbrakk>wf q; t \<in> set (reading q)\<rbrakk> \<Longrightarrow>
      wf (retire q t) \<and> pending (retire q t) = pending q \<and>
      reading (retire q t) = remove1 t (reading q) \<and>
      (\<forall>u\<in>set (remove1 t (reading q)). fetch (retire q t) u = fetch q u)"
    and retire_other: "\<lbrakk>wf q; t \<notin> set (reading q)\<rbrakk> \<Longrightarrow> retire q t = q"
begin

lemma send_None_iff: "wf q \<Longrightarrow> send q a = None \<longleftrightarrow> length (pending q) + length (reading q) = cap"
  using send_full send_ok [of q a] bounded [of q] by force

lemma recv_None_iff: "wf q \<Longrightarrow> recv q = None \<longleftrightarrow> pending q = []"
  using recv_empty recv_ok by (cases "pending q") force+

lemma send_Some:
  assumes "wf q" "send q a = Some q'"
  shows "wf q' \<and> pending q' = pending q @ [fit a] \<and> reading q' = reading q \<and>
    (\<forall>t\<in>set (reading q). fetch q' t = fetch q t)"
proof -
  from assms have "length (pending q) + length (reading q) < cap"
    using send_None_iff [of q a] bounded [of q] by simp
  with send_ok [of q a] assms show ?thesis by auto
qed

lemma recv_Some:
  assumes "wf q" "recv q = Some (t, q')"
  shows "wf q' \<and> pending q = fetch q' t # pending q' \<and> reading q' = reading q @ [t] \<and>
    (\<forall>u\<in>set (reading q). fetch q' u = fetch q u)"
proof -
  from assms obtain a as where "pending q = a # as"
    using recv_empty [of q] by (cases "pending q") auto
  with recv_ok [OF assms(1)] assms(2) show ?thesis by force
qed

lemma retire_wf: "wf q \<Longrightarrow> wf (retire q t) \<and> pending (retire q t) = pending q"
  using retire_ok [of q t] retire_other [of q t] by (cases "t \<in> set (reading q)") auto

text \<open>A held token keeps its value until it is retired, whatever else happens.\<close>

lemma held_value_stable:
  assumes "wf q" "t \<in> set (reading q)" "Retire t \<notin> set ops"
    and "fifo_run send recv fetch retire ops q = (q', sent, got)"
  shows "t \<in> set (reading q') \<and> fetch q' t = fetch q t"
  using assms
proof (induction ops arbitrary: q q' sent got)
  case (Cons op ops)
  show ?case
  proof (cases op)
    case (Send a)
    show ?thesis
    proof (cases "send q a")
      case None
      with Cons Send show ?thesis by simp
    next
      case (Some q1)
      with send_Some [OF Cons.prems(1) Some] Cons.IH [of q1] Cons.prems Send
      show ?thesis by (auto split: prod.splits)
    qed
  next
    case Recv
    show ?thesis
    proof (cases "recv q")
      case None
      with Cons Recv show ?thesis by simp
    next
      case (Some p)
      then obtain u q1 where p: "recv q = Some (u, q1)" by (cases p) auto
      with recv_Some [OF Cons.prems(1) p] Cons.IH [of q1] Cons.prems Recv
      show ?thesis by (auto split: prod.splits)
    qed
  next
    case (Retire u)
    with Cons.prems have "u \<noteq> t" by auto
    then have "t \<in> set (reading (retire q u)) \<and> fetch (retire q u) t = fetch q t"
      using retire_ok [OF Cons.prems(1), of u] retire_other [OF Cons.prems(1), of u] Cons.prems(2)
      by (cases "u \<in> set (reading q)") auto
    with Cons.IH [of "retire q u" q' sent got] Cons.prems Retire retire_wf [OF Cons.prems(1), of u]
    show ?thesis by simp
  qed
qed auto

text \<open>What was received is, in order, what was waiting followed by what was sent.\<close>

lemma run_fifo:
  assumes "wf q" "fifo_run send recv fetch retire ops q = (q', sent, got)"
  shows "wf q' \<and> pending q @ map fit sent = got @ pending q'"
  using assms
proof (induction ops arbitrary: q q' sent got)
  case (Cons op ops)
  show ?case
  proof (cases op)
    case (Send a)
    show ?thesis
    proof (cases "send q a")
      case None
      with Cons Send show ?thesis by simp
    next
      case (Some q1)
      obtain q2 sent2 got2 where r: "fifo_run send recv fetch retire ops q1 = (q2, sent2, got2)"
        by (metis prod_cases3)
      from send_Some [OF Cons.prems(1) Some] Cons.IH [OF _ r] Cons.prems Send Some r
      show ?thesis by auto
    qed
  next
    case Recv
    show ?thesis
    proof (cases "recv q")
      case None
      with Cons Recv show ?thesis by simp
    next
      case (Some p)
      then obtain u q1 where p: "recv q = Some (u, q1)" by (cases p) auto
      obtain q2 sent2 got2 where r: "fifo_run send recv fetch retire ops q1 = (q2, sent2, got2)"
        by (metis prod_cases3)
      from recv_Some [OF Cons.prems(1) p] Cons.IH [OF _ r] Cons.prems Recv p r
      show ?thesis by auto
    qed
  next
    case (Retire u)
    with Cons.IH [of "retire q u" q' sent got] Cons.prems retire_wf [OF Cons.prems(1), of u]
    show ?thesis by simp
  qed
qed auto

end

text \<open>The kernel-side use of the queue: one contiguous buffer per message.\<close>

definition kern_msg :: "byte list \<Rightarrow> msg_desc" where
  "kern_msg data = IPC_MSG_BUFFER_KERNEL \<lparr>kmsg_num_iov = 1,
     kmsg_iov = Some [\<lparr>kbase = Some data, klen = length data\<rparr>], kmsg_num_handles = 0\<rparr>"

definition mq_send :: "umem \<Rightarrow> ipc_msg_queue \<Rightarrow> byte list \<Rightarrow> ipc_msg_queue option" where
  "mq_send m mq data =
     (case mq_write m (kern_msg data) mq of
        Some (r, mq') \<Rightarrow> if r < 0 then None else Some mq'
      | None \<Rightarrow> None)"

definition mq_recv :: "ipc_msg_queue \<Rightarrow> (u32 \<times> ipc_msg_queue) option" where
  "mq_recv mq =
     (case msg_peek_next_filled_locked mq of
        Some (r, Some nfo) \<Rightarrow> map_option (Pair (info_id nfo)) (msg_get_filled_locked mq)
      | _ \<Rightarrow> None)"

definition mq_fetch :: "umem \<Rightarrow> ipc_msg_queue \<Rightarrow> u32 \<Rightarrow> byte list" where
  "mq_fetch m mq t =
     (case msg_read_locked m mq t 0 (kern_msg (replicate (item_sz mq) 0)) of
        Some (r, _, IPC_MSG_BUFFER_KERNEL k) \<Rightarrow>
          (case kmsg_iov k of None \<Rightarrow> [] | Some vs \<Rightarrow> take (nat r) (kvec_bytes vs))
      | _ \<Rightarrow> [])"

definition mq_retire :: "ipc_msg_queue \<Rightarrow> u32 \<Rightarrow> ipc_msg_queue" where
  "mq_retire mq t = (case mq_put_read mq t of Some (_, mq') \<Rightarrow> mq' | None \<Rightarrow> mq)"

definition mq_tokens :: "ipc_msg_queue \<Rightarrow> u32 list" where
  "mq_tokens mq = map of_nat (mq_read_list mq)"

definition mq_wf :: "nat \<Rightarrow> nat \<Rightarrow> ipc_msg_queue \<Rightarrow> bool" where
  "mq_wf n sz mq \<longleftrightarrow> mq_inv mq \<and> num_items mq = n \<and> item_sz mq = sz"

lemma unat_token: "mq_inv mq \<Longrightarrow> i < num_items mq \<Longrightarrow> unat (of_nat i :: u32) = i"
  by (simp add: mq_inv_def IPC_CHAN_MAX_BUFS_def unat_of_nat_less)

lemma mq_tokens_iff:
  assumes "mq_inv mq"
  shows "t \<in> set (mq_tokens mq) \<longleftrightarrow> unat t \<in> set (mq_read_list mq)"
proof
  assume "t \<in> set (mq_tokens mq)"
  then obtain i where i: "i \<in> set (mq_read_list mq)" "t = of_nat i" by (auto simp: mq_tokens_def)
  with unat_token [OF assms, of i] mq_inv_lists(3) [OF assms i(1)]
  show "unat t \<in> set (mq_read_list mq)" by simp
next
  assume "unat t \<in> set (mq_read_list mq)"
  then show "t \<in> set (mq_tokens mq)" unfolding mq_tokens_def
    by (auto intro!: image_eqI [of _ _ "unat t"])
qed

lemma mq_fetch_eq:
  assumes inv: "mq_inv mq" and t: "unat t \<in> set (mq_read_list mq)"
  shows "mq_fetch m mq t = mq_content mq (unat t)"
proof -
  let ?vs = "[\<lparr>kbase = Some (replicate (item_sz mq) 0), klen = item_sz mq\<rparr>]"
  let ?n = "item_len (mq_items mq ! unat t)"
  have i: "unat t < num_items mq" using mq_inv_lists(3) [OF inv t] by simp
  have n: "?n \<le> item_sz mq" using inv i by (auto simp: mq_inv_def mq_item_ok_def)
  obtain buf where buf: "?n \<le> length buf" "take ?n buf = mq_content mq (unat t)"
    "msg_read_locked m mq t 0 (kern_msg (replicate (item_sz mq) 0)) =
       map_option (\<lambda>(ret, iov). (ret, m, IPC_MSG_BUFFER_KERNEL
           \<lparr>kmsg_num_iov = 1, kmsg_iov = iov, kmsg_num_handles = 0\<rparr>))
         (membuf_to_kern_iovec (Some ?vs) (length ?vs) (Some buf) ?n)"
    by (rule msg_read_step [OF inv t, of 0 m "kern_msg (replicate (item_sz mq) 0)"])
      (auto simp: kern_msg_def)
  have "list_all kvec_ok ?vs" "min ?n (length (kvec_bytes ?vs)) = ?n"
    using n by (simp_all add: kvec_ok_def kvec_part_def)
  with membuf_to_kern_iovec_scatters [OF _ buf(1), of ?vs]
  obtain vs' where "membuf_to_kern_iovec (Some ?vs) (length ?vs) (Some buf) ?n = Some (int ?n, Some vs')"
    "kvec_bytes vs' = take ?n buf @ drop ?n (kvec_bytes ?vs)" by metis
  moreover have "length (mq_content mq (unat t)) = ?n" using buf(1,2) by (metis length_take min_absorb2)
  ultimately show ?thesis using buf by (simp add: mq_fetch_def)
qed


lemma mq_counts:
  assumes "mq_inv mq"
  shows "length (mq_free_list mq) + length (mq_pending mq) + length (mq_read_list mq) = num_items mq"
proof -
  let ?l = "mq_free_list mq @ mq_filled_list mq @ mq_read_list mq"
  have "length ?l = card (set ?l)" using assms unfolding mq_inv_def by (metis distinct_card)
  also have "\<dots> = num_items mq" using assms unfolding mq_inv_def by (metis card_lessThan)
  finally show ?thesis by (simp add: mq_pending_def)
qed

text \<open>\<^verbatim>\<open>msg_write_locked\<close> on a well-formed queue with a free slot.\<close>

lemma mq_write_ok:
  assumes inv: "mq_inv mq" and msg: "msg_desc_ok msg" and free: "mq_free_list mq = i # fs"
  obtains ret b where
    "msg_fill m msg (drop (i * item_sz mq) (mq_buf mq)) (item_sz mq) = Some (ret, Some b)"
    "mq_write m msg mq = Some (ret, mq_wrote i ret b mq)" "mq_inv (mq_wrote i ret b mq)"
    "\<forall>j<num_items mq. j \<noteq> i \<longrightarrow> mq_content (mq_wrote i ret b mq) j = mq_content mq j"
    "mq_pending (mq_wrote i ret b mq) =
       (if ret < 0 then mq_pending mq else mq_pending mq @ [take (nat ret) b])"
    "ret \<le> int (item_sz mq)" "length b = length (drop (i * item_sz mq) (mq_buf mq))"
proof -
  have i: "i < num_items mq" "i \<notin> set (mq_filled_list mq)"
    using mq_inv_lists(1) [OF inv, of i] free by auto
  from msg_fill_bounds [OF msg mq_inv_room [OF inv i(1)], of m] obtain ret b where fill:
    "msg_fill m msg (drop (i * item_sz mq) (mq_buf mq)) (item_sz mq) = Some (ret, Some b)"
    "length b = length (drop (i * item_sz mq) (mq_buf mq))"
    "drop (item_sz mq) b = drop (item_sz mq) (drop (i * item_sz mq) (mq_buf mq))"
    "0 \<le> ret \<longrightarrow> ret \<le> int (item_sz mq)" by blast
  have other: "\<forall>j<num_items mq. j \<noteq> i \<longrightarrow> mq_content (mq_wrote i ret b mq) j = mq_content mq j"
    using mq_wrote_content_other [OF inv i(1) fill(2,3)] by blast
  have "map (mq_content (mq_wrote i ret b mq)) (mq_filled_list mq) = mq_pending mq"
    unfolding mq_pending_def
    by (rule map_cong [OF refl]) (metis mq_inv_lists(2) [OF inv] i(2) other)
  moreover have "mq_filled_list (mq_wrote i ret b mq) = mq_filled_list mq @ (if ret < 0 then [] else [i])"
    by (simp add: mq_wrote_def Let_def)
  ultimately have pend: "mq_pending (mq_wrote i ret b mq) =
      (if ret < 0 then mq_pending mq else mq_pending mq @ [take (nat ret) b])"
    using mq_wrote_content_same [OF inv i(1), of ret b]
    by (simp add: mq_pending_def [of "mq_wrote i ret b mq"])
  have "ret \<le> int (item_sz mq)" using fill(4) by (cases "0 \<le> ret") auto
  then show thesis
    using that [OF fill(1) mq_write_step [OF inv free fill(1)] mq_inv_wrote [OF inv free fill(2,4)]
        other pend _ fill(2)] by blast
qed

lemma mq_reading_frame:
  "mq_read_list (mq_wrote i ret b mq) = mq_read_list mq"
  "mq_read_list (mq_got i mq) = mq_read_list mq @ [i]"
  "mq_read_list (mq_putd i mq) = remove1 i (mq_read_list mq)"
  "mq_filled_list (mq_putd i mq) = mq_filled_list mq"
  "mq_filled_list (mq_got i mq) = tl (mq_filled_list mq)"
  by (simp_all add: mq_wrote_def mq_got_def mq_putd_def Let_def)

section \<open>The message queue is a bounded FIFO\<close>

lemma mq_send_full: "mq_free_list mq = [] \<Longrightarrow> mq_send m mq data = None"
  by (simp add: mq_send_def mq_write_full err_simps)

lemma mq_send_ok:
  assumes inv: "mq_inv mq" and "mq_free_list mq \<noteq> []"
  shows "\<exists>mq'. mq_send m mq data = Some mq' \<and> mq_inv mq' \<and>
    mq_pending mq' = mq_pending mq @ [take (item_sz mq) data] \<and>
    mq_read_list mq' = mq_read_list mq \<and> num_items mq' = num_items mq \<and> item_sz mq' = item_sz mq \<and>
    (\<forall>j\<in>set (mq_read_list mq). mq_content mq' j = mq_content mq j)"
proof -
  obtain i fs where free: "mq_free_list mq = i # fs" using assms(2) by (cases "mq_free_list mq") auto
  have i: "i < num_items mq" "i \<notin> set (mq_read_list mq)" using mq_inv_lists(1) [OF inv, of i] free by auto
  have "msg_desc_ok (kern_msg data)" by (simp add: msg_desc_ok_def kern_msg_def kvec_ok_def)
  then obtain ret b where w:
    "msg_fill m (kern_msg data) (drop (i * item_sz mq) (mq_buf mq)) (item_sz mq) = Some (ret, Some b)"
    "mq_write m (kern_msg data) mq = Some (ret, mq_wrote i ret b mq)" "mq_inv (mq_wrote i ret b mq)"
    "\<forall>j<num_items mq. j \<noteq> i \<longrightarrow> mq_content (mq_wrote i ret b mq) j = mq_content mq j"
    "mq_pending (mq_wrote i ret b mq) =
       (if ret < 0 then mq_pending mq else mq_pending mq @ [take (nat ret) b])"
    using mq_write_ok [OF inv _ free, of "kern_msg data" m] by metis
  let ?vs = "[\<lparr>kbase = Some data, klen = length data\<rparr>]"
  have "kern_iovec_to_membuf (Some (drop (i * item_sz mq) (mq_buf mq))) (item_sz mq) (Some ?vs) (length ?vs) =
      Some (ret, Some b)"
    using w(1) by (simp add: msg_fill_def kern_msg_def)
  with kern_iovec_to_membuf_eq [OF _ mq_inv_room [OF inv i(1)], of ?vs]
  have "0 \<le> ret" "take (nat ret) b = take (item_sz mq) data"
    by (auto simp: kvec_ok_def kvec_part_def Let_def min_def split: if_splits)
  with w(2-) i show ?thesis
    by (auto simp: mq_send_def mq_reading_frame frame_simps dest: mq_inv_lists(3) [OF inv])
qed

lemma mq_recv_ok:
  assumes inv: "mq_inv mq" and f: "mq_filled_list mq = i # fs"
  shows "mq_recv mq = Some (of_nat i, mq_got i mq)" "mq_inv (mq_got i mq)"
    "mq_pending mq = mq_content mq i # mq_pending (mq_got i mq)"
    "mq_tokens (mq_got i mq) = mq_tokens mq @ [of_nat i]"
proof -
  show "mq_recv mq = Some (of_nat i, mq_got i mq)"
    using mq_get_step [OF inv f] by (simp add: mq_recv_def)
  show "mq_inv (mq_got i mq)" by (rule mq_inv_got [OF inv f])
  show "mq_pending mq = mq_content mq i # mq_pending (mq_got i mq)"
    using f mq_got_content [of i mq] by (simp add: mq_pending_def mq_reading_frame)
  show "mq_tokens (mq_got i mq) = mq_tokens mq @ [of_nat i]"
    by (simp add: mq_tokens_def mq_reading_frame)
qed

lemma mq_tokens_distinct:
  assumes "mq_inv mq" shows "distinct (mq_tokens mq)"
proof -
  have "map unat (mq_tokens mq) = mq_read_list mq"
    unfolding mq_tokens_def map_map
    by (rule map_idI) (simp add: unat_token [OF assms] mq_inv_lists(3) [OF assms])
  then show ?thesis using assms by (metis distinct_append distinct_map mq_inv_def)
qed

lemma mq_retire_held:
  assumes inv: "mq_inv mq" and t: "t \<in> set (mq_tokens mq)"
  shows "mq_retire mq t = mq_putd (unat t) mq" "mq_inv (mq_putd (unat t) mq)"
    "mq_pending (mq_putd (unat t) mq) = mq_pending mq"
    "mq_tokens (mq_putd (unat t) mq) = remove1 t (mq_tokens mq)"
proof -
  have r: "unat t \<in> set (mq_read_list mq)" using t mq_tokens_iff [OF inv] by simp
  show "mq_retire mq t = mq_putd (unat t) mq"
    by (simp add: mq_retire_def mq_put_step [OF inv r])
  show "mq_inv (mq_putd (unat t) mq)" by (rule mq_inv_putd [OF inv r])
  show "mq_pending (mq_putd (unat t) mq) = mq_pending mq"
    by (simp add: mq_pending_def mq_putd_content [abs_def] mq_reading_frame)
  have "inj_on (of_nat :: nat \<Rightarrow> u32) (insert (unat t) (set (mq_read_list mq)))"
    using r by (intro inj_on_inverseI [of _ unat])
      (auto simp: unat_token [OF inv] dest!: mq_inv_lists(3) [OF inv])
  from map_removeAll_inj_on [OF this]
  show "mq_tokens (mq_putd (unat t) mq) = remove1 t (mq_tokens mq)"
    using mq_tokens_distinct [OF inv] inv
    by (simp add: mq_tokens_def mq_reading_frame distinct_remove1_removeAll mq_inv_def)
qed

lemma mq_retire_not_held: "mq_inv mq \<Longrightarrow> t \<notin> set (mq_tokens mq) \<Longrightarrow> mq_retire mq t = mq"
  by (simp add: mq_retire_def mq_put_other mq_tokens_iff)

interpretation mqf: bounded_fifo "mq_wf n sz" "mq_send m" mq_recv "mq_fetch m" mq_retire
  mq_pending mq_tokens n "take sz" for n sz m
proof
  fix mq :: ipc_msg_queue assume wf: "mq_wf n sz mq"
  then have inv: "mq_inv mq" and n: "num_items mq = n" and sz: "item_sz mq = sz"
    by (simp_all add: mq_wf_def)
  have len: "length (mq_tokens mq) = length (mq_read_list mq)" by (simp add: mq_tokens_def)
  show "length (mq_pending mq) + length (mq_tokens mq) \<le> n"
    using mq_counts [OF inv] n len by simp
  show "distinct (mq_tokens mq)" by (rule mq_tokens_distinct [OF inv])
  fix t a
  show "mq_send m mq a = None" if "length (mq_pending mq) + length (mq_tokens mq) = n"
  proof -
    have "length (mq_free_list mq) = 0" using that mq_counts [OF inv] n len by linarith
    then have "mq_free_list mq = []" by simp
    then show ?thesis by (rule mq_send_full)
  qed
  show "\<exists>q'. mq_send m mq a = Some q' \<and> mq_wf n sz q' \<and> mq_pending q' = mq_pending mq @ [take sz a] \<and>
      mq_tokens q' = mq_tokens mq \<and> (\<forall>t\<in>set (mq_tokens mq). mq_fetch m q' t = mq_fetch m mq t)"
    if "length (mq_pending mq) + length (mq_tokens mq) < n"
  proof -
    have "mq_free_list mq \<noteq> []" using that mq_counts [OF inv] n len by auto
    from mq_send_ok [OF inv this, of m a] obtain q' where "mq_send m mq a = Some q'" "mq_inv q'"
      "mq_pending q' = mq_pending mq @ [take sz a]" "mq_read_list q' = mq_read_list mq"
      "num_items q' = n" "item_sz q' = sz"
      "\<forall>j\<in>set (mq_read_list mq). mq_content q' j = mq_content mq j" using n sz by auto
    then show ?thesis
      using inv n sz
      by (intro exI [of _ q'])
        (auto simp: mq_wf_def mq_tokens_def mq_fetch_eq mq_tokens_iff [unfolded mq_tokens_def] unat_token mq_inv_lists(3))
  qed
  show "mq_recv mq = None" if "mq_pending mq = []"
    using that by (simp add: mq_recv_def msg_peek_next_filled_locked_def mq_pending_def)
  show "\<exists>t q'. mq_recv mq = Some (t, q') \<and> mq_wf n sz q' \<and> mq_pending q' = as \<and>
      mq_tokens q' = mq_tokens mq @ [t] \<and> mq_fetch m q' t = a \<and>
      (\<forall>t\<in>set (mq_tokens mq). mq_fetch m q' t = mq_fetch m mq t)" if pd: "mq_pending mq = a # as" for as
  proof -
    obtain i fs where f: "mq_filled_list mq = i # fs"
      using pd by (cases "mq_filled_list mq") (auto simp: mq_pending_def)
    note r = mq_recv_ok [OF inv f]
    have u: "unat (of_nat i :: u32) = i" using unat_token [OF inv] mq_inv_lists(2) [OF inv, of i] f by simp
    show ?thesis
    proof (intro exI conjI ballI)
      show "mq_recv mq = Some (of_nat i, mq_got i mq)" by (rule r(1))
      show "mq_wf n sz (mq_got i mq)" using r(2) n sz by (simp add: mq_wf_def frame_simps)
      show "mq_pending (mq_got i mq) = as" using r(3) pd by simp
      show "mq_tokens (mq_got i mq) = mq_tokens mq @ [of_nat i]" by (rule r(4))
      show "mq_fetch m (mq_got i mq) (of_nat i) = a"
        using r(3) pd u by (simp add: mq_fetch_eq [OF r(2)] mq_reading_frame mq_got_content)
      fix t assume "t \<in> set (mq_tokens mq)"
      then show "mq_fetch m (mq_got i mq) t = mq_fetch m mq t"
        using inv by (simp add: mq_tokens_iff mq_fetch_eq r(2) mq_reading_frame mq_got_content)
    qed
  qed
  show "mq_wf n sz (mq_retire mq t) \<and> mq_pending (mq_retire mq t) = mq_pending mq \<and>
      mq_tokens (mq_retire mq t) = remove1 t (mq_tokens mq) \<and>
      (\<forall>u\<in>set (remove1 t (mq_tokens mq)). mq_fetch m (mq_retire mq t) u = mq_fetch m mq u)"
    if t: "t \<in> set (mq_tokens mq)"
  proof -
    note r = mq_retire_held [OF inv t]
    have "mq_fetch m (mq_putd (unat t) mq) u = mq_fetch m mq u" if "u \<in> set (remove1 t (mq_tokens mq))" for u
    proof -
      have "u \<in> set (mq_tokens (mq_putd (unat t) mq))" "u \<in> set (mq_tokens mq)"
        using that r(4) notin_set_remove1 by fastforce+
      then show ?thesis
        using inv r(2) by (simp add: mq_tokens_iff mq_fetch_eq mq_putd_content)
    qed
    with r n sz show ?thesis by (simp add: mq_wf_def frame_simps)
  qed
  show "mq_retire mq t = mq" if "t \<notin> set (mq_tokens mq)"
    using mq_retire_not_held [OF inv that] .
qed

section \<open>Properties\<close>

text \<open>\<^verbatim>\<open>msg_write_locked\<close> never panics on a well-formed queue, whatever the user vector
  says: it keeps the queue well formed, reports a full queue exactly when no slot is free, appends
  exactly one message of \<open>ret\<close> bytes to the pending ones on success and none on an error, and leaves
  the messages being read as they were.\<close>

theorem msg_write_appends:
  assumes "mq_inv mq" and "msg_desc_ok msg"
  shows "\<exists>ret mq'. mq_write m msg mq = Some (ret, mq') \<and> mq_inv mq' \<and>
    (mq_free_list mq = [] \<longleftrightarrow> ret = ERR_NOT_ENOUGH_BUFFER) \<and>
    (if ret < 0 then mq_pending mq' = mq_pending mq \<and> mq_free_list mq' = mq_free_list mq
     else \<exists>c. mq_pending mq' = mq_pending mq @ [c] \<and> int (length c) = ret \<and> ret \<le> int (item_sz mq)) \<and>
    mq_read_list mq' = mq_read_list mq \<and>
    (\<forall>i\<in>set (mq_read_list mq). mq_content mq' i = mq_content mq i)"
proof (cases "mq_free_list mq")
  case Nil
  with assms show ?thesis by (simp add: mq_write_full err_simps)
next
  case (Cons i fs)
  obtain ret b where w:
    "msg_fill m msg (drop (i * item_sz mq) (mq_buf mq)) (item_sz mq) = Some (ret, Some b)"
    "mq_write m msg mq = Some (ret, mq_wrote i ret b mq)" "mq_inv (mq_wrote i ret b mq)"
    "\<forall>j<num_items mq. j \<noteq> i \<longrightarrow> mq_content (mq_wrote i ret b mq) j = mq_content mq j"
    "mq_pending (mq_wrote i ret b mq) =
       (if ret < 0 then mq_pending mq else mq_pending mq @ [take (nat ret) b])"
    "ret \<le> int (item_sz mq)" "length b = length (drop (i * item_sz mq) (mq_buf mq))"
    by (rule mq_write_ok [OF assms Cons, of m])
  have i: "i < num_items mq" "i \<notin> set (mq_read_list mq)"
    using mq_inv_lists(1) [OF assms(1), of i] Cons by auto
  have "ret \<noteq> ERR_NOT_ENOUGH_BUFFER"
    by (rule msg_fill_not_full [OF assms(2) mq_inv_room [OF assms(1) i(1)] w(1)])
  moreover have "0 \<le> ret \<longrightarrow> int (length (take (nat ret) b)) = ret"
    using w(6,7) mq_inv_room [OF assms(1) i(1)] by auto
  moreover have "\<forall>j\<in>set (mq_read_list mq). mq_content (mq_wrote i ret b mq) j = mq_content mq j"
    using w(4) i(2) mq_inv_lists(3) [OF assms(1)] by metis
  moreover have "ret < 0 \<longrightarrow> mq_free_list (mq_wrote i ret b mq) = mq_free_list mq"
    by (simp add: mq_wrote_def Let_def)
  ultimately show ?thesis
    using w(2,3,5,6) Cons by (simp add: mq_reading_frame)
qed

definition demo_m :: umem where
  "demo_m = \<lparr>udata = (\<lambda>_. 0), ureadable = (\<lambda>_. True), uwritable = (\<lambda>_. True)\<rparr>"

definition demo_mq :: ipc_msg_queue where
  "demo_mq = \<lparr>mq_free_list = [0, 1], mq_filled_list = [], mq_read_list = [], num_items = 2,
     item_sz = 4, mq_buf = replicate 8 0,
     mq_items = map (\<lambda>i. \<lparr>item_id = of_nat i, item_state = MSG_ITEM_STATE_FREE,
       item_num_handles = 0, item_len = 0\<rparr>) [0, 1]\<rparr>"

lemma demo_mq_inv: "mq_inv demo_mq"
  by (auto simp: mq_inv_def demo_mq_def mq_item_ok_def IPC_CHAN_MAX_BUFS_def
      IPC_CHAN_MAX_BUF_SIZE_def less_2_cases_iff)

theorem msg_write_appends_witness:
  "\<exists>mq' c. mq_write demo_m (kern_msg [5, 6, 7]) demo_mq = Some (3, mq') \<and> mq_inv mq' \<and>
     mq_pending mq' = [c] \<and> length c = Suc 2"
proof -
  have "msg_desc_ok (kern_msg [5, 6, 7])" by (simp add: msg_desc_ok_def kern_msg_def kvec_ok_def)
  moreover have "\<exists>mq'. mq_write demo_m (kern_msg [5, 6, 7]) demo_mq = Some (3, mq')"
    by (simp add: mq_write_def demo_mq_def mq_item_def msg_fill_def kern_msg_def
        msg_queue_get_buf_def kern_iovec_to_membuf_def clip_def Let_def eval_nat_numeral)
  moreover have "mq_pending demo_mq = []" by (simp add: mq_pending_def demo_mq_def)
  ultimately show ?thesis
    using msg_write_appends [OF demo_mq_inv, of "kern_msg [5, 6, 7]" demo_m] by auto
qed

text \<open>Property C11.  The queue is a FIFO without loss, duplication or mixing: over any sequence of
  kernel writes, receives and releases, the received contents followed by the pending ones are
  what was pending at first followed by what was sent (each clipped to a slot), in order, and the
  queue stays well formed.\<close>

theorem msg_queue_fifo:
  assumes "mq_inv mq"
    and "fifo_run (mq_send m) mq_recv (mq_fetch m) mq_retire ops mq = (mq', sent, got)"
  shows "mq_inv mq' \<and> mq_pending mq @ map (take (item_sz mq)) sent = got @ mq_pending mq' \<and>
    length (mq_pending mq') + length (mq_read_list mq') \<le> num_items mq"
proof -
  have wf: "mq_wf (num_items mq) (item_sz mq) mq" using assms(1) by (simp add: mq_wf_def)
  from mqf.run_fifo [OF wf assms(2)] mqf.bounded [of "num_items mq" "item_sz mq" mq'] show ?thesis
    by (auto simp: mq_wf_def mq_tokens_def)
qed

theorem msg_queue_fifo_witness:
  "case fifo_run (mq_send demo_m) mq_recv (mq_fetch demo_m) mq_retire
      [Send [1, 2], Send [3], Recv, Retire 0, Send [4, 5, 6, 7, 8], Recv] demo_mq of
    (mq', sent, got) \<Rightarrow> mq_inv mq' \<and> map (take (Suc 3)) sent = got @ mq_pending mq'"
proof -
  obtain mq' sent got where r: "fifo_run (mq_send demo_m) mq_recv (mq_fetch demo_m) mq_retire
      [Send [1, 2], Send [3], Recv, Retire 0, Send [4, 5, 6, 7, 8], Recv] demo_mq = (mq', sent, got)"
    by (metis prod_cases3)
  from msg_queue_fifo [OF demo_mq_inv r] r show ?thesis
    by (simp add: demo_mq_def mq_pending_def eval_nat_numeral)
qed

text \<open>A message taken off the queue keeps its bytes until it is put back, whatever
  else is written, received or released in between.\<close>

theorem msg_held_stable:
  assumes "mq_inv mq" and "unat t \<in> set (mq_read_list mq)" and "Retire t \<notin> set ops"
    and "fifo_run (mq_send m) mq_recv (mq_fetch m) mq_retire ops mq = (mq', sent, got)"
  shows "unat t \<in> set (mq_read_list mq') \<and> mq_content mq' (unat t) = mq_content mq (unat t)"
proof -
  have wf: "mq_wf (num_items mq) (item_sz mq) mq" using assms(1) by (simp add: mq_wf_def)
  have t: "t \<in> set (mq_tokens mq)" using assms(1,2) by (simp add: mq_tokens_iff)
  have inv: "mq_inv mq'" using mqf.run_fifo [OF wf assms(4)] by (simp add: mq_wf_def)
  with mqf.held_value_stable [OF wf t assms(3,4)] have "unat t \<in> set (mq_read_list mq')"
    "mq_fetch m mq' t = mq_fetch m mq t" by (simp_all add: mq_tokens_iff)
  with mq_fetch_eq [OF inv, of t m] mq_fetch_eq [OF assms(1,2), of m] show ?thesis by simp
qed

theorem msg_held_stable_witness:
  "\<exists>mq1 mq' sent got. mq_send demo_m demo_mq [1, 2] = Some mq1 \<and>
     fifo_run (mq_send demo_m) mq_recv (mq_fetch demo_m) mq_retire [Send [9], Recv] (mq_got 0 mq1) =
       (mq', sent, got) \<and> mq_content mq' 0 = mq_content (mq_got 0 mq1) 0"
proof -
  have "mq_free_list demo_mq \<noteq> []" by (simp add: demo_mq_def)
  have "\<exists>mq1. mq_send demo_m demo_mq [1, 2] = Some mq1 \<and> mq_filled_list mq1 = [0]"
    by (simp add: mq_send_def mq_write_def demo_mq_def mq_item_def msg_fill_def kern_msg_def
        msg_queue_get_buf_def kern_iovec_to_membuf_def clip_def mq_list_delete_def Let_def eval_nat_numeral)
  then obtain mq1 where q1: "mq_send demo_m demo_mq [1, 2] = Some mq1" "mq_filled_list mq1 = [0]"
    by blast
  have "mq_inv mq1"
    using mq_send_ok [OF demo_mq_inv, of demo_m "[1, 2]"] q1 by (simp add: demo_mq_def)
  then have inv: "mq_inv (mq_got 0 mq1)" by (rule mq_inv_got [OF _ q1(2)])
  have r: "unat (0 :: u32) \<in> set (mq_read_list (mq_got 0 mq1))" by (simp add: mq_got_def)
  obtain mq' sent got where "fifo_run (mq_send demo_m) mq_recv (mq_fetch demo_m) mq_retire
      [Send [9], Recv] (mq_got 0 mq1) = (mq', sent, got)" by (metis prod_cases3)
  with msg_held_stable [OF inv r _ this] q1 show ?thesis by auto
qed

text \<open>\<^verbatim>\<open>msg_read_locked\<close> on a well-formed queue delivers only messages that were
  received and not put back: any other identifier is an error without effect, and for a message
  being read it never runs past the message, whatever user vector it is given.\<close>

theorem msg_read_bounded:
  assumes "mq_inv mq"
  shows "\<exists>ret m'. msg_read_locked m mq t offs (IPC_MSG_BUFFER_USER u) =
      Some (ret, m', IPC_MSG_BUFFER_USER u) \<and>
    (unat t \<notin> set (mq_read_list mq) \<longrightarrow> ret = ERR_INVALID_ARGS \<and> m' = m) \<and>
    (ret < 0 \<or> unat offs + nat ret \<le> length (mq_content mq (unat t)))"
proof (cases "unat t \<in> set (mq_read_list mq)")
  case False
  with assms show ?thesis by (simp add: msg_read_other err_simps)
next
  case True
  let ?n = "item_len (mq_items mq ! unat t) - unat offs"
  obtain buf where buf: "?n \<le> length buf" "take ?n buf = drop (unat offs) (mq_content mq (unat t))"
    "msg_read_locked m mq t offs (IPC_MSG_BUFFER_USER u) =
      (if unat offs > length (mq_content mq (unat t))
       then Some (ERR_INVALID_ARGS, m, IPC_MSG_BUFFER_USER u)
       else if umsg_num_handles u \<noteq> 0 then Some (ERR_NOT_SUPPORTED, m, IPC_MSG_BUFFER_USER u)
       else map_option (\<lambda>(ret, m'). (ret, m', IPC_MSG_BUFFER_USER u))
         (membuf_to_user_iovec m (umsg_iov u) (umsg_num_iov u) (Some buf) ?n))"
    by (rule msg_read_step [OF assms True, where offs = offs and m = m and
          msg = "IPC_MSG_BUFFER_USER u", unfolded msg_desc.case])
  have n: "?n = length (mq_content mq (unat t)) - unat offs"
    using arg_cong [OF buf(2), of length] buf(1) by simp
  obtain r m' where "membuf_to_user_iovec m (umsg_iov u) (umsg_num_iov u) (Some buf) ?n = Some (r, m')"
    "r = ERR_FAULT \<or> 0 \<le> r \<and> r \<le> int ?n"
    using membuf_to_user_iovec_bounds [OF buf(1), of m "umsg_iov u" "umsg_num_iov u"] by blast
  moreover from this have "r < 0 \<or> unat offs + nat r \<le> length (mq_content mq (unat t))"
    if "\<not> length (mq_content mq (unat t)) < unat offs"
    using that n by (auto simp: err_simps simp del: of_nat_diff)
  ultimately show ?thesis using True buf(3) by (auto simp: err_simps)
qed

theorem msg_read_bounded_witness:
  "\<exists>ret m'. msg_read_locked \<lparr>udata = (\<lambda>_. 0), ureadable = (\<lambda>_. True), uwritable = (\<lambda>_. True)\<rparr>
      demo_mq 1 0 (IPC_MSG_BUFFER_USER \<lparr>umsg_num_iov = 1, umsg_iov = 0x8000, umsg_num_handles = 0\<rparr>) =
      Some (ret, m', IPC_MSG_BUFFER_USER \<lparr>umsg_num_iov = 1, umsg_iov = 0x8000, umsg_num_handles = 0\<rparr>) \<and>
    ret = ERR_INVALID_ARGS"
  using msg_read_bounded [OF demo_mq_inv, of
      "\<lparr>udata = (\<lambda>_. 0), ureadable = (\<lambda>_. True), uwritable = (\<lambda>_. True)\<rparr>" 1 0
      "\<lparr>umsg_num_iov = 1, umsg_iov = 0x8000, umsg_num_handles = 0\<rparr>"]
  by (auto simp: demo_mq_def)

end
