(* ===== verification/Kernel.thy ===== *)
theory Kernel
  imports MsgQueue Bitmap
begin

text \<open>
  The objects of the Trusty kernel IPC and their lifetime: ports, channel ends and handle lists
  (\<^verbatim>\<open>lib/trusty/include/lib/trusty/ipc.h\<close>, \<^verbatim>\<open>handle.h\<close>, \<^verbatim>\<open>uctx.c\<close>), reference lists
  (\<^verbatim>\<open>include/reflist.h\<close>), reference counts (\<^verbatim>\<open>include/refcount.h\<close>) and the destructors that run
  when the last reference goes.  Objects live in the heap of the record \<open>kern\<close>, addressed by
  numbers; a freed object is absent, and reaching through a pointer to it is a panic.  Every
  operation runs with \<^verbatim>\<open>ipc_lock\<close> held, so it is one atomic step on \<open>kern\<close>.
\<close>

section \<open>Objects\<close>

text \<open>A \<^verbatim>\<open>handle_t\<close> is embedded in a port or in a channel: the pointer names the object, and with it
  the operations table.\<close>

datatype hptr = HPort nat | HChan nat

type_synonym uuid = "byte list"

text \<open>\<^verbatim>\<open>is_ns_client\<close> compares pointers: only the object \<^verbatim>\<open>zero_uuid\<close> is the normal world.\<close>

datatype uuid_ref = ZERO_UUID | APP_UUID uuid

datatype ipc_port_state = IPC_PORT_STATE_INVALID | IPC_PORT_STATE_LISTENING | IPC_PORT_STATE_CLOSING

datatype ipc_chan_state = IPC_CHAN_STATE_INVALID | IPC_CHAN_STATE_ACCEPTING
  | IPC_CHAN_STATE_CONNECTING | IPC_CHAN_STATE_CONNECTED | IPC_CHAN_STATE_DISCONNECTING
  | IPC_CHAN_STATE_WAITING_FOR_PORT

text \<open>The reference nodes that can be linked in a channel's reference list: its own \<^verbatim>\<open>handle_ref\<close> and
  \<^verbatim>\<open>node_ref\<close>, the \<^verbatim>\<open>peer_ref\<close> of the channel named, and a reference on the stack.\<close>

datatype ref_node = REF_HANDLE | REF_NODE | REF_PEER nat | REF_TMP

text \<open>Which list a channel's \<^verbatim>\<open>node\<close> is linked in.\<close>

datatype chan_list = WAITING_LIST | PENDING_LIST nat

record handle =
  h_refcnt :: int
  h_wait_event :: "nat option"
  h_in_hlist :: bool
  h_cookie :: u32
  h_guest_id :: u32

record ipc_port =
  p_path :: "byte list"
  p_uuid :: uuid_ref
  p_state :: ipc_port_state
  p_flags :: u32
  p_num_recv_bufs :: nat
  p_recv_buf_size :: nat
  p_handle :: handle
  p_pending_list :: "nat list"
  p_in_list :: bool

record ipc_chan =
  c_refs :: "ref_node list"
  c_peer :: "nat option"
  c_uuid :: "uuid_ref option"
  c_state :: ipc_chan_state
  c_flags :: u32
  c_aux_state :: u32
  c_handle :: handle
  c_node :: "chan_list option"
  c_msg_queue :: "ipc_msg_queue option"
  c_path :: "byte list option"

record handle_list =
  hl_handles :: "hptr list"
  hl_wait_event :: "nat option"

record uctx =
  uc_inuse :: bitmap
  uc_handles :: "hptr option list"
  uc_cur_guest :: u32

text \<open>
  \<open>k_port_list\<close> and \<open>k_waiting\<close> are \<^verbatim>\<open>ipc_port_list\<close> and \<^verbatim>\<open>waiting_for_port_chan_list\<close>.
  \<open>k_hlists\<close> holds the handle lists, that of a user context under the context's number.
  \<open>k_alloc\<close> answers the coming allocations (they succeed when it is used up), \<open>k_next\<close> is the next
  unused address, \<open>k_signals\<close> the events signalled so far, and \<open>k_hyp\<close> the hypervisor check
  \<^verbatim>\<open>trusty_hyp_check_guest_access\<close>, a weak symbol that platforms replace.
\<close>

record kern =
  k_ports :: "nat \<Rightarrow> ipc_port option"
  k_chans :: "nat \<Rightarrow> ipc_chan option"
  k_port_list :: "nat list"
  k_waiting :: "nat list"
  k_hlists :: "nat \<Rightarrow> handle_list option"
  k_uctx :: "nat \<Rightarrow> uctx option"
  k_next :: nat
  k_alloc :: "bool list"
  k_junk :: "nat \<Rightarrow> byte"
  k_signals :: "nat list"
  k_hyp :: "u32 \<Rightarrow> uuid_ref \<Rightarrow> int"

definition DEFAULT_GUEST_ID :: u32 where "DEFAULT_GUEST_ID = 0xDEADFEED"

definition IPC_HANDLE_POLL_READY :: u32 where "IPC_HANDLE_POLL_READY = 1"
definition IPC_HANDLE_POLL_ERROR :: u32 where "IPC_HANDLE_POLL_ERROR = 2"
definition IPC_HANDLE_POLL_HUP :: u32 where "IPC_HANDLE_POLL_HUP = 4"
definition IPC_HANDLE_POLL_MSG :: u32 where "IPC_HANDLE_POLL_MSG = 8"
definition IPC_HANDLE_POLL_SEND_UNBLOCKED :: u32 where "IPC_HANDLE_POLL_SEND_UNBLOCKED = 16"

definition IPC_CHAN_AUX_STATE_SEND_BLOCKED :: u32 where "IPC_CHAN_AUX_STATE_SEND_BLOCKED = 1"
definition IPC_CHAN_AUX_STATE_SEND_UNBLOCKED :: u32 where "IPC_CHAN_AUX_STATE_SEND_UNBLOCKED = 2"
definition IPC_CHAN_AUX_STATE_CONNECTED :: u32 where "IPC_CHAN_AUX_STATE_CONNECTED = 4"

definition IPC_CHAN_FLAG_SERVER :: u32 where "IPC_CHAN_FLAG_SERVER = 1"
definition IPC_PORT_ALLOW_TA_CONNECT :: u32 where "IPC_PORT_ALLOW_TA_CONNECT = 1"
definition IPC_PORT_ALLOW_NS_CONNECT :: u32 where "IPC_PORT_ALLOW_NS_CONNECT = 2"

text \<open>The default of the weak symbols in \<^verbatim>\<open>hyp_stubs.c\<close>.\<close>

definition trusty_hyp_check_guest_access :: "u32 \<Rightarrow> uuid_ref \<Rightarrow> int" where
  "trusty_hyp_check_guest_access guest peer = NO_ERROR"

definition is_ns_client :: "uuid_ref \<Rightarrow> bool" where
  "is_ns_client uuid = (if uuid = ZERO_UUID then True else False)"

fun ipc_is_channel :: "hptr \<Rightarrow> bool" where
  "ipc_is_channel (HChan c) = True"
| "ipc_is_channel (HPort p) = False"

fun ipc_is_port :: "hptr \<Rightarrow> bool" where
  "ipc_is_port (HPort p) = True"
| "ipc_is_port (HChan c) = False"

section \<open>Heap access\<close>

definition alloc_ok :: "kern \<Rightarrow> bool \<times> kern" where
  "alloc_ok k = (case k_alloc k of [] \<Rightarrow> (True, k) | b # bs \<Rightarrow> (b, k\<lparr>k_alloc := bs\<rparr>))"

definition set_chan :: "nat \<Rightarrow> ipc_chan \<Rightarrow> kern \<Rightarrow> kern" where
  "set_chan c ch k = k\<lparr>k_chans := (k_chans k)(c := Some ch)\<rparr>"

definition set_port :: "nat \<Rightarrow> ipc_port \<Rightarrow> kern \<Rightarrow> kern" where
  "set_port p po k = k\<lparr>k_ports := (k_ports k)(p := Some po)\<rparr>"

definition upd_chan :: "nat \<Rightarrow> (ipc_chan \<Rightarrow> ipc_chan) \<Rightarrow> kern \<Rightarrow> kern option" where
  "upd_chan c f k = do { ch \<leftarrow> k_chans k c; Some (set_chan c (f ch) k) }"

definition upd_port :: "nat \<Rightarrow> (ipc_port \<Rightarrow> ipc_port) \<Rightarrow> kern \<Rightarrow> kern option" where
  "upd_port p f k = do { po \<leftarrow> k_ports k p; Some (set_port p (f po) k) }"

fun get_handle :: "kern \<Rightarrow> hptr \<Rightarrow> handle option" where
  "get_handle k (HPort p) = map_option p_handle (k_ports k p)"
| "get_handle k (HChan c) = map_option c_handle (k_chans k c)"

fun upd_handle :: "hptr \<Rightarrow> (handle \<Rightarrow> handle) \<Rightarrow> kern \<Rightarrow> kern option" where
  "upd_handle (HPort p) f k = upd_port p (\<lambda>po. po\<lparr>p_handle := f (p_handle po)\<rparr>) k"
| "upd_handle (HChan c) f k = upd_chan c (\<lambda>ch. ch\<lparr>c_handle := f (c_handle ch)\<rparr>) k"

section \<open>Handles and references\<close>

definition handle_zero :: handle where
  "handle_zero = \<lparr>h_refcnt = 0, h_wait_event = None, h_in_hlist = False, h_cookie = 0, h_guest_id = 0\<rparr>"

definition handle_init :: "handle \<Rightarrow> handle" where
  "handle_init h = h\<lparr>h_refcnt := 1, h_wait_event := None, h_cookie := 0,
     h_guest_id := DEFAULT_GUEST_ID, h_in_hlist := False\<rparr>"

definition handle_incref :: "hptr \<Rightarrow> kern \<Rightarrow> kern option" where
  "handle_incref h k = upd_handle h (\<lambda>x. x\<lparr>h_refcnt := h_refcnt x + 1\<rparr>) k"

definition event_signal :: "nat \<Rightarrow> kern \<Rightarrow> kern" where
  "event_signal ev k = k\<lparr>k_signals := ev # k_signals k\<rparr>"

definition handle_notify_waiters_locked :: "handle \<Rightarrow> kern \<Rightarrow> kern" where
  "handle_notify_waiters_locked h k =
     (case h_wait_event h of None \<Rightarrow> k | Some ev \<Rightarrow> event_signal ev k)"

definition handle_notify :: "hptr \<Rightarrow> kern \<Rightarrow> kern option" where
  "handle_notify hp k = do { h \<leftarrow> get_handle k hp; Some (handle_notify_waiters_locked h k) }"

text \<open>\<^verbatim>\<open>obj_add_ref\<close> and \<^verbatim>\<open>obj_del_ref\<close> of \<^verbatim>\<open>reflist.h\<close> on the list of a channel.\<close>

definition obj_add_ref :: "ref_node \<Rightarrow> ref_node list \<Rightarrow> ref_node list option" where
  "obj_add_ref ref refs = do { _ \<leftarrow> ASSERT (ref \<notin> set refs); Some (refs @ [ref]) }"

definition obj_del_ref :: "ref_node \<Rightarrow> ref_node list \<Rightarrow> ref_node list option" where
  "obj_del_ref ref refs = do { _ \<leftarrow> ASSERT (ref \<in> set refs); Some (remove1 ref refs) }"

definition chan_add_ref :: "nat \<Rightarrow> ref_node \<Rightarrow> kern \<Rightarrow> kern option" where
  "chan_add_ref c ref k = do {
     ch \<leftarrow> k_chans k c;
     refs \<leftarrow> obj_add_ref ref (c_refs ch);
     Some (set_chan c (ch\<lparr>c_refs := refs\<rparr>) k) }"

text \<open>\<^verbatim>\<open>__chan_destroy_refobj\<close>: the channel and its queue are freed.\<close>

definition chan_destroy_refobj :: "nat \<Rightarrow> kern \<Rightarrow> kern option" where
  "chan_destroy_refobj c k = do {
     ch \<leftarrow> k_chans k c;
     _ \<leftarrow> ASSERT (c_peer ch = None);
     _ \<leftarrow> ASSERT (c_node ch = None);
     Some (k\<lparr>k_chans := (k_chans k)(c := None)\<rparr>) }"

definition chan_del_ref :: "nat \<Rightarrow> ref_node \<Rightarrow> kern \<Rightarrow> kern option" where
  "chan_del_ref c ref k = do {
     ch \<leftarrow> k_chans k c;
     refs \<leftarrow> obj_del_ref ref (c_refs ch);
     let k = set_chan c (ch\<lparr>c_refs := refs\<rparr>) k;
     if refs = [] then chan_destroy_refobj c k else Some k }"

definition port_handle_destroy :: "nat \<Rightarrow> kern \<Rightarrow> kern option" where
  "port_handle_destroy p k = do {
     po \<leftarrow> k_ports k p;
     _ \<leftarrow> ASSERT (p_pending_list po = []);
     _ \<leftarrow> ASSERT (\<not> p_in_list po);
     Some (k\<lparr>k_ports := (k_ports k)(p := None)\<rparr>) }"

definition chan_handle_destroy :: "nat \<Rightarrow> kern \<Rightarrow> kern option" where
  "chan_handle_destroy c k = chan_del_ref c REF_HANDLE k"

text \<open>\<^verbatim>\<open>handle_decref\<close>: \<^verbatim>\<open>refcount_dec\<close> calls the destructor when it takes the count from 1.\<close>

definition handle_decref :: "hptr \<Rightarrow> kern \<Rightarrow> kern option" where
  "handle_decref hp k = do {
     h \<leftarrow> get_handle k hp;
     k \<leftarrow> upd_handle hp (\<lambda>x. x\<lparr>h_refcnt := h_refcnt x - 1\<rparr>) k;
     if h_refcnt h = 1
     then (case hp of HPort p \<Rightarrow> port_handle_destroy p k | HChan c \<Rightarrow> chan_handle_destroy c k)
     else Some k }"

text \<open>\<^verbatim>\<open>list_delete(&chan->node)\<close>: unlinking a node that is in no list dereferences NULL.\<close>

definition chan_list_delete :: "nat \<Rightarrow> kern \<Rightarrow> kern option" where
  "chan_list_delete c k = do {
     ch \<leftarrow> k_chans k c;
     let k1 = set_chan c (ch\<lparr>c_node := None\<rparr>) k;
     (case c_node ch of
        None \<Rightarrow> None
      | Some WAITING_LIST \<Rightarrow> Some (k1\<lparr>k_waiting := remove1 c (k_waiting k1)\<rparr>)
      | Some (PENDING_LIST p) \<Rightarrow>
          upd_port p (\<lambda>po. po\<lparr>p_pending_list := remove1 c (p_pending_list po)\<rparr>) k1) }"

section \<open>Shutting down\<close>

definition chan_shutdown_one :: "nat \<Rightarrow> kern \<Rightarrow> kern option" where
  "chan_shutdown_one c k = do {
     ch \<leftarrow> k_chans k c;
     (case c_state ch of
        IPC_CHAN_STATE_CONNECTED \<Rightarrow>
          handle_notify (HChan c) (set_chan c (ch\<lparr>c_state := IPC_CHAN_STATE_DISCONNECTING\<rparr>) k)
      | IPC_CHAN_STATE_CONNECTING \<Rightarrow>
          handle_notify (HChan c) (set_chan c (ch\<lparr>c_state := IPC_CHAN_STATE_DISCONNECTING\<rparr>) k)
      | IPC_CHAN_STATE_WAITING_FOR_PORT \<Rightarrow> do {
          _ \<leftarrow> ASSERT (c_node ch \<noteq> None);
          k \<leftarrow> chan_list_delete c k;
          k \<leftarrow> chan_del_ref c REF_NODE k;
          upd_chan c (\<lambda>ch. ch\<lparr>c_state := IPC_CHAN_STATE_DISCONNECTING\<rparr>) k }
      | IPC_CHAN_STATE_ACCEPTING \<Rightarrow>
          Some (set_chan c (ch\<lparr>c_state := IPC_CHAN_STATE_DISCONNECTING\<rparr>) k)
      | _ \<Rightarrow> Some k) }"

definition chan_shutdown_locked :: "nat \<Rightarrow> kern \<Rightarrow> kern option" where
  "chan_shutdown_locked c k = do {
     k \<leftarrow> chan_shutdown_one c k;
     ch \<leftarrow> k_chans k c;
     (case c_peer ch of
        None \<Rightarrow> Some k
      | Some d \<Rightarrow> do {
          k \<leftarrow> chan_shutdown_one d k;
          k \<leftarrow> chan_del_ref d (REF_PEER c) k;
          upd_chan c (\<lambda>ch. ch\<lparr>c_peer := None\<rparr>) k }) }"

text \<open>The loop of \<^verbatim>\<open>port_shutdown\<close> over the pending connections, safe against removal.\<close>

fun port_shutdown_loop :: "nat \<Rightarrow> nat list \<Rightarrow> kern \<Rightarrow> kern option" where
  "port_shutdown_loop p [] k = Some k"
| "port_shutdown_loop p (s # ss) k = do {
     k \<leftarrow> chan_shutdown_locked s k;
     k \<leftarrow> chan_list_delete s k;
     k \<leftarrow> chan_del_ref s REF_NODE k;
     k \<leftarrow> handle_decref (HPort p) k;
     port_shutdown_loop p ss k }"

definition port_shutdown :: "nat \<Rightarrow> kern \<Rightarrow> kern option" where
  "port_shutdown p k = do {
     po \<leftarrow> k_ports k p;
     let k = set_port p (po\<lparr>p_state := IPC_PORT_STATE_CLOSING\<rparr>) k;
     k \<leftarrow> (if p_in_list po then do {
             k \<leftarrow> upd_port p (\<lambda>po. po\<lparr>p_in_list := False\<rparr>)
                   (k\<lparr>k_port_list := remove1 p (k_port_list k)\<rparr>);
             handle_decref (HPort p) k }
           else Some k);
     po \<leftarrow> k_ports k p;
     port_shutdown_loop p (p_pending_list po) k }"

definition handle_close :: "hptr \<Rightarrow> kern \<Rightarrow> kern option" where
  "handle_close hp k = do {
     k \<leftarrow> (case hp of HPort p \<Rightarrow> port_shutdown p k | HChan c \<Rightarrow> chan_shutdown_locked c k);
     handle_decref hp k }"

section \<open>Polling\<close>

definition port_poll :: "nat \<Rightarrow> kern \<Rightarrow> u32 option" where
  "port_poll p k = do {
     po \<leftarrow> k_ports k p;
     Some (if p_state po \<noteq> IPC_PORT_STATE_LISTENING then IPC_HANDLE_POLL_ERROR
           else if p_pending_list po \<noteq> [] then IPC_HANDLE_POLL_READY
           else 0) }"

definition chan_poll :: "nat \<Rightarrow> kern \<Rightarrow> u32 option" where
  "chan_poll c k = do {
     ch \<leftarrow> k_chans k c;
     Some (if c_state ch = IPC_CHAN_STATE_INVALID then IPC_HANDLE_POLL_ERROR
       else (if c_state ch = IPC_CHAN_STATE_DISCONNECTING then IPC_HANDLE_POLL_HUP else 0)
         OR (if c_aux_state ch AND IPC_CHAN_AUX_STATE_CONNECTED \<noteq> 0 then IPC_HANDLE_POLL_READY else 0)
         OR (case c_msg_queue ch of None \<Rightarrow> 0
             | Some mq \<Rightarrow> if \<not> ipc_msg_queue_is_empty mq then IPC_HANDLE_POLL_MSG else 0)
         OR (if c_aux_state ch AND IPC_CHAN_AUX_STATE_SEND_UNBLOCKED \<noteq> 0
             then IPC_HANDLE_POLL_SEND_UNBLOCKED else 0)) }"

definition chan_finalize_event :: "nat \<Rightarrow> u32 \<Rightarrow> kern \<Rightarrow> kern option" where
  "chan_finalize_event c event k =
     (if event AND (IPC_HANDLE_POLL_SEND_UNBLOCKED OR IPC_HANDLE_POLL_READY) \<noteq> 0 then do {
        k \<leftarrow> (if event AND IPC_HANDLE_POLL_SEND_UNBLOCKED \<noteq> 0
              then upd_chan c (\<lambda>ch. ch\<lparr>c_aux_state := c_aux_state ch AND NOT IPC_CHAN_AUX_STATE_SEND_UNBLOCKED\<rparr>) k
              else Some k);
        (if event AND IPC_HANDLE_POLL_READY \<noteq> 0
         then upd_chan c (\<lambda>ch. ch\<lparr>c_aux_state := c_aux_state ch AND NOT IPC_CHAN_AUX_STATE_CONNECTED\<rparr>) k
         else Some k) }
      else Some k)"

text \<open>\<^verbatim>\<open>handle->ops->poll\<close> and \<^verbatim>\<open>handle->ops->finalize_event\<close>; ports have no \<^verbatim>\<open>finalize_event\<close>.\<close>

fun handle_poll :: "hptr \<Rightarrow> kern \<Rightarrow> u32 option" where
  "handle_poll (HPort p) k = port_poll p k"
| "handle_poll (HChan c) k = chan_poll c k"

fun handle_finalize_event :: "hptr \<Rightarrow> u32 \<Rightarrow> kern \<Rightarrow> kern option" where
  "handle_finalize_event (HPort p) event k = Some k"
| "handle_finalize_event (HChan c) event k = chan_finalize_event c event k"

end
