(* ===== verification/Ipc.thy ===== *)
theory Ipc
  imports Kernel
begin

text \<open>
  Ports and connections: \<^verbatim>\<open>lib/trusty/ipc.c\<close>, and the channel level of \<^verbatim>\<open>lib/trusty/ipc_msg.c\<close> as
  kernel clients use it.  Results pair the C return value with the state; \<^term>\<open>None\<close> is a panic.
\<close>

definition IPC_PORT_PATH_MAX :: nat where "IPC_PORT_PATH_MAX = 64"
definition IPC_CONNECT_WAIT_FOR_PORT :: u32 where "IPC_CONNECT_WAIT_FOR_PORT = 1"
definition IPC_CONNECT_ASYNC :: u32 where "IPC_CONNECT_ASYNC = 2"
definition IPC_CONNECT_MASK :: u32 where
  "IPC_CONNECT_MASK = IPC_CONNECT_WAIT_FOR_PORT OR IPC_CONNECT_ASYNC"

definition strnlen :: "byte list \<Rightarrow> nat \<Rightarrow> nat" where
  "strnlen s n = length (takeWhile (\<lambda>b. b \<noteq> 0) (take n s))"

definition c_string :: "byte list \<Rightarrow> byte list" where
  "c_string s = takeWhile (\<lambda>b. b \<noteq> 0) s"

section \<open>Ports\<close>

text \<open>\<open>sid = None\<close> is a NULL uuid; \<open>path\<close> is the string without its NUL.\<close>

definition ipc_port_create ::
    "uuid_ref option \<Rightarrow> byte list \<Rightarrow> nat \<Rightarrow> nat \<Rightarrow> u32 \<Rightarrow> kern \<Rightarrow> int \<times> nat option \<times> kern" where
  "ipc_port_create sid path num_recv_bufs recv_buf_size flags k =
     (case sid of None \<Rightarrow> (ERR_INVALID_ARGS, None, k)
      | Some uuid \<Rightarrow>
        if num_recv_bufs = 0 \<or> num_recv_bufs > IPC_CHAN_MAX_BUFS
           \<or> recv_buf_size = 0 \<or> recv_buf_size > IPC_CHAN_MAX_BUF_SIZE
        then (ERR_INVALID_ARGS, None, k)
        else (let (ok, k) = alloc_ok k in
          if \<not> ok then (ERR_NO_MEMORY, None, k)
          else if length path = 0 then (ERR_INVALID_ARGS, None, k)
          else if length path \<ge> IPC_PORT_PATH_MAX then (ERR_TOO_BIG, None, k)
          else (let p = k_next k in
            (NO_ERROR, Some p,
             set_port p \<lparr>p_path = path, p_uuid = uuid, p_state = IPC_PORT_STATE_INVALID,
               p_flags = flags, p_num_recv_bufs = num_recv_bufs, p_recv_buf_size = recv_buf_size,
               p_handle = handle_init handle_zero, p_pending_list = [], p_in_list = False\<rparr>
               (k\<lparr>k_next := Suc p\<rparr>)))))"

fun port_find_loop :: "byte list \<Rightarrow> nat list \<Rightarrow> kern \<Rightarrow> nat option option" where
  "port_find_loop path [] k = Some None"
| "port_find_loop path (p # ps) k = do {
     po \<leftarrow> k_ports k p;
     if path = p_path po then Some (Some p) else port_find_loop path ps k }"

definition port_find_locked :: "byte list \<Rightarrow> kern \<Rightarrow> nat option option" where
  "port_find_locked path k = port_find_loop path (k_port_list k) k"

definition chan_alloc :: "u32 \<Rightarrow> uuid_ref option \<Rightarrow> ref_node \<Rightarrow> kern \<Rightarrow> nat option \<times> kern" where
  "chan_alloc flags uuid ref k =
     (let (ok, k) = alloc_ok k in
      if \<not> ok then (None, k)
      else (let c = k_next k in
        (Some c, set_chan c \<lparr>c_refs = [ref], c_peer = None, c_uuid = uuid,
           c_state = IPC_CHAN_STATE_INVALID, c_flags = flags, c_aux_state = 0,
           c_handle = handle_zero, c_node = None, c_msg_queue = None, c_path = None\<rparr>
           (k\<lparr>k_next := Suc c\<rparr>))))"

definition chan_handle_init :: "nat \<Rightarrow> kern \<Rightarrow> kern option" where
  "chan_handle_init c k = do {
     k \<leftarrow> upd_chan c (\<lambda>ch. ch\<lparr>c_handle := handle_init (c_handle ch)\<rparr>) k;
     chan_add_ref c REF_HANDLE k }"

definition check_access :: "ipc_port \<Rightarrow> uuid_ref option \<Rightarrow> int" where
  "check_access po uuid =
     (case uuid of None \<Rightarrow> ERR_ACCESS_DENIED
      | Some u \<Rightarrow>
        if is_ns_client u then
          (if p_flags po AND IPC_PORT_ALLOW_NS_CONNECT \<noteq> 0 then NO_ERROR else ERR_ACCESS_DENIED)
        else
          (if p_flags po AND IPC_PORT_ALLOW_TA_CONNECT \<noteq> 0 then NO_ERROR else ERR_ACCESS_DENIED))"

text \<open>The two allocations of \<^verbatim>\<open>ipc_msg_queue_create\<close>, from the state.\<close>

definition msg_queue_alloc :: "nat \<Rightarrow> nat \<Rightarrow> kern \<Rightarrow> int \<times> ipc_msg_queue option \<times> kern" where
  "msg_queue_alloc num sz k =
     (let (ok1, k1) = alloc_ok k; (ok2, k2) = (if ok1 then alloc_ok k1 else (False, k1));
          (ret, mq) = ipc_msg_queue_create ok1 ok2 (k_junk k2) num sz
      in (ret, mq, k2))"

definition port_attach_client :: "nat \<Rightarrow> nat \<Rightarrow> kern \<Rightarrow> (int \<times> kern) option" where
  "port_attach_client p client k = do {
     po \<leftarrow> k_ports k p;
     if p_state po \<noteq> IPC_PORT_STATE_LISTENING then Some (ERR_NOT_READY, k)
     else do {
       cl \<leftarrow> k_chans k client;
       let ret = check_access po (c_uuid cl);
       if ret \<noteq> NO_ERROR then Some (ret, k)
       else (case chan_alloc IPC_CHAN_FLAG_SERVER (Some (p_uuid po)) REF_TMP k of
         (None, k) \<Rightarrow> Some (ERR_NO_MEMORY, k)
       | (Some server, k) \<Rightarrow>
         (case msg_queue_alloc (p_num_recv_bufs po) (p_recv_buf_size po) k of
            (ret, cmq, k) \<Rightarrow>
          if ret \<noteq> NO_ERROR then do {
            k \<leftarrow> chan_del_ref server REF_TMP k; Some (ERR_NO_MEMORY, k) }
          else do {
            k \<leftarrow> upd_chan client (\<lambda>ch. ch\<lparr>c_msg_queue := cmq\<rparr>) k;
            (case msg_queue_alloc (p_num_recv_bufs po) (p_recv_buf_size po) k of
               (ret, smq, k) \<Rightarrow>
             if ret \<noteq> NO_ERROR then do {
               k \<leftarrow> upd_chan client (\<lambda>ch. ch\<lparr>c_msg_queue := None\<rparr>) k;
               k \<leftarrow> chan_del_ref server REF_TMP k;
               Some (ERR_NO_MEMORY, k) }
             else do {
               k \<leftarrow> upd_chan server (\<lambda>ch. ch\<lparr>c_msg_queue := smq, c_state := IPC_CHAN_STATE_ACCEPTING\<rparr>) k;
               k \<leftarrow> upd_chan client (\<lambda>ch. ch\<lparr>c_state := IPC_CHAN_STATE_CONNECTING\<rparr>) k;
               k \<leftarrow> chan_add_ref server (REF_PEER client) k;
               k \<leftarrow> upd_chan client (\<lambda>ch. ch\<lparr>c_peer := Some server\<rparr>) k;
               k \<leftarrow> chan_add_ref client (REF_PEER server) k;
               k \<leftarrow> upd_chan server (\<lambda>ch. ch\<lparr>c_peer := Some client\<rparr>) k;
               k \<leftarrow> chan_add_ref server REF_NODE k;
               k \<leftarrow> upd_chan server (\<lambda>ch. ch\<lparr>c_node := Some (PENDING_LIST p)\<rparr>) k;
               k \<leftarrow> upd_port p (\<lambda>po. po\<lparr>p_pending_list := p_pending_list po @ [server]\<rparr>) k;
               k \<leftarrow> handle_incref (HPort p) k;
               k \<leftarrow> handle_notify (HPort p) k;
               k \<leftarrow> chan_del_ref server REF_TMP k;
               Some (NO_ERROR, k) }) })) } }"

text \<open>
  The loop of \<^verbatim>\<open>ipc_port_publish\<close> over the channels that wait for a port, in the order of the list;
  \<open>ret\<close> is overwritten by the check of each client with this path.
\<close>

fun publish_loop :: "nat \<Rightarrow> nat list \<Rightarrow> int \<Rightarrow> kern \<Rightarrow> (int \<times> kern) option" where
  "publish_loop p [] ret k = Some (ret, k)"
| "publish_loop p (client # cs) ret k = do {
     cl \<leftarrow> k_chans k client;
     po \<leftarrow> k_ports k p;
     path \<leftarrow> c_path cl;
     if path \<noteq> p_path po then publish_loop p cs ret k
     else do {
       k \<leftarrow> upd_chan client (\<lambda>ch. ch\<lparr>c_path := None\<rparr>) k;
       k \<leftarrow> chan_add_ref client REF_TMP k;
       k \<leftarrow> chan_list_delete client k;
       k \<leftarrow> chan_del_ref client REF_NODE k;
       cl \<leftarrow> k_chans k client;
       let ret = k_hyp k (h_guest_id (c_handle cl)) (p_uuid po);
       k \<leftarrow> (if ret \<noteq> 0 then Some k
             else do {
               (err, k) \<leftarrow> port_attach_client p client k;
               if err \<noteq> 0 then chan_shutdown_locked client k else Some k });
       k \<leftarrow> chan_del_ref client REF_TMP k;
       publish_loop p cs ret k } }"

definition ipc_port_publish :: "nat \<Rightarrow> kern \<Rightarrow> (int \<times> kern) option" where
  "ipc_port_publish p k = do {
     po \<leftarrow> k_ports k p;
     _ \<leftarrow> ASSERT (\<not> p_in_list po);
     dup \<leftarrow> port_find_locked (p_path po) k;
     if dup \<noteq> None then Some (ERR_ALREADY_EXISTS, k)
     else do {
       let k = set_port p (po\<lparr>p_state := IPC_PORT_STATE_LISTENING, p_in_list := True\<rparr>)
                 (k\<lparr>k_port_list := k_port_list k @ [p]\<rparr>);
       k \<leftarrow> handle_incref (HPort p) k;
       publish_loop p (k_waiting k) NO_ERROR k } }"

section \<open>Connecting\<close>

definition ipc_port_connect_async ::
    "u32 \<Rightarrow> uuid_ref option \<Rightarrow> byte list \<Rightarrow> nat \<Rightarrow> u32 \<Rightarrow> kern \<Rightarrow> (int \<times> hptr option \<times> kern) option" where
  "ipc_port_connect_async guest cid path max_path flags k =
     (if cid = None then Some (ERR_INVALID_ARGS, None, k)
      else let len = strnlen path max_path in
      if len = 0 \<or> len \<ge> max_path then Some (ERR_INVALID_ARGS, None, k)
      else case chan_alloc 0 cid REF_TMP k of
        (None, k) \<Rightarrow> Some (ERR_NO_MEMORY, None, k)
      | (Some client, k) \<Rightarrow> do {
          port \<leftarrow> port_find_locked (c_string path) k;
          (ret, k) \<leftarrow> (case port of
             Some p \<Rightarrow> do {
               po \<leftarrow> k_ports k p;
               let ret = k_hyp k guest (p_uuid po);
               if ret \<noteq> 0 then Some (ret, k)
               else do {
                 k \<leftarrow> upd_handle (HPort p) (\<lambda>h. h\<lparr>h_guest_id := guest\<rparr>) k;
                 port_attach_client p client k } }
           | None \<Rightarrow>
               if flags AND IPC_CONNECT_WAIT_FOR_PORT = 0 then Some (ERR_NOT_FOUND, k)
               else (case alloc_ok k of (ok, k) \<Rightarrow>
                 if \<not> ok then Some (ERR_NO_MEMORY, k)
                 else do {
                   k \<leftarrow> upd_chan client (\<lambda>ch. ch\<lparr>c_path := Some (c_string path),
                          c_state := IPC_CHAN_STATE_WAITING_FOR_PORT, c_node := Some WAITING_LIST\<rparr>) k;
                   let k = k\<lparr>k_waiting := k_waiting k @ [client]\<rparr>;
                   k \<leftarrow> chan_add_ref client REF_NODE k;
                   Some (NO_ERROR, k) }));
          if ret \<noteq> 0 then do {
            k \<leftarrow> chan_del_ref client REF_TMP k;
            Some (ret, None, k) }
          else do {
            k \<leftarrow> chan_handle_init client k;
            k \<leftarrow> upd_handle (HChan client) (\<lambda>h. h\<lparr>h_guest_id := guest\<rparr>) k;
            k \<leftarrow> chan_del_ref client REF_TMP k;
            Some (NO_ERROR, Some (HChan client), k) } })"

definition ipc_port_accept :: "hptr option \<Rightarrow> kern
    \<Rightarrow> (int \<times> hptr option \<times> uuid_ref option \<times> kern) option" where
  "ipc_port_accept phandle k =
     (case phandle of
        Some (HPort p) \<Rightarrow> do {
          po \<leftarrow> k_ports k p;
          if p_state po \<noteq> IPC_PORT_STATE_LISTENING then Some (ERR_CHANNEL_CLOSED, None, None, k)
          else (case p_pending_list po of
            [] \<Rightarrow> Some (ERR_NO_MSG, None, None, k)
          | server # _ \<Rightarrow> do {
              k \<leftarrow> chan_list_delete server k;
              sv \<leftarrow> k_chans k server;
              _ \<leftarrow> ASSERT (c_flags sv AND IPC_CHAN_FLAG_SERVER \<noteq> 0);
              k \<leftarrow> chan_add_ref server REF_TMP k;
              k \<leftarrow> chan_del_ref server REF_NODE k;
              k \<leftarrow> handle_decref (HPort p) k;
              (ret, h, u, k) \<leftarrow> (case c_peer sv of
                None \<Rightarrow> do {
                  k \<leftarrow> chan_shutdown_locked server k;
                  Some (ERR_CHANNEL_CLOSED, None, None, k) }
              | Some client \<Rightarrow> do {
                  cl \<leftarrow> k_chans k client;
                  if c_state sv \<noteq> IPC_CHAN_STATE_ACCEPTING \<or> c_state cl \<noteq> IPC_CHAN_STATE_CONNECTING
                  then do {
                    k \<leftarrow> chan_shutdown_locked server k;
                    Some (ERR_CHANNEL_CLOSED, None, None, k) }
                  else do {
                    k \<leftarrow> upd_chan server (\<lambda>ch. ch\<lparr>c_state := IPC_CHAN_STATE_CONNECTED\<rparr>) k;
                    k \<leftarrow> upd_chan client (\<lambda>ch. ch\<lparr>c_state := IPC_CHAN_STATE_CONNECTED,
                           c_aux_state := c_aux_state ch OR IPC_CHAN_AUX_STATE_CONNECTED\<rparr>) k;
                    k \<leftarrow> chan_handle_init server k;
                    k \<leftarrow> upd_handle (HChan server) (\<lambda>h. h\<lparr>h_guest_id := h_guest_id (c_handle cl)\<rparr>) k;
                    k \<leftarrow> handle_notify (HChan client) k;
                    Some (NO_ERROR, Some (HChan server), c_uuid cl, k) } });
              k \<leftarrow> chan_del_ref server REF_TMP k;
              Some (ret, h, u, k) }) }
      | _ \<Rightarrow> Some (ERR_INVALID_ARGS, None, None, k))"

section \<open>Messages on a channel\<close>

text \<open>The handle may be NULL.\<close>

definition check_channel_locked :: "hptr option \<Rightarrow> int" where
  "check_channel_locked chandle =
     (case chandle of None \<Rightarrow> ERR_INVALID_ARGS
      | Some h \<Rightarrow> if \<not> ipc_is_channel h then ERR_INVALID_ARGS else NO_ERROR)"

definition check_channel_connected_locked :: "hptr option \<Rightarrow> kern \<Rightarrow> int option" where
  "check_channel_connected_locked chandle k =
     (case chandle of
        Some (HChan c) \<Rightarrow> do {
          ch \<leftarrow> k_chans k c;
          if c_state ch = IPC_CHAN_STATE_CONNECTED then do {
            _ \<leftarrow> ASSERT (c_peer ch \<noteq> None);
            Some NO_ERROR }
          else if c_state ch = IPC_CHAN_STATE_DISCONNECTING then Some ERR_CHANNEL_CLOSED
          else Some ERR_NOT_READY }
      | _ \<Rightarrow> Some (check_channel_locked chandle))"

text \<open>\<^verbatim>\<open>chan->peer->msg_queue\<close> and \<^verbatim>\<open>chan->msg_queue\<close> are dereferenced unchecked.\<close>

definition msg_write_locked :: "umem \<Rightarrow> nat \<Rightarrow> msg_desc \<Rightarrow> kern \<Rightarrow> (int \<times> kern) option" where
  "msg_write_locked m c msg k = do {
     ch \<leftarrow> k_chans k c;
     d \<leftarrow> c_peer ch;
     pe \<leftarrow> k_chans k d;
     mq \<leftarrow> c_msg_queue pe;
     if mq_free_list mq = [] then do {
       k \<leftarrow> upd_chan c (\<lambda>ch. ch\<lparr>c_aux_state := c_aux_state ch OR IPC_CHAN_AUX_STATE_SEND_BLOCKED\<rparr>) k;
       Some (ERR_NOT_ENOUGH_BUFFER, k) }
     else do {
       (ret, mq) \<leftarrow> mq_write m msg mq;
       Some (ret, set_chan d (pe\<lparr>c_msg_queue := Some mq\<rparr>) k) } }"

definition msg_put_read_locked :: "nat \<Rightarrow> u32 \<Rightarrow> kern \<Rightarrow> (int \<times> kern) option" where
  "msg_put_read_locked c msg_id k = do {
     ch \<leftarrow> k_chans k c;
     mq \<leftarrow> c_msg_queue ch;
     (ret, mq) \<leftarrow> mq_put_read mq msg_id;
     if ret \<noteq> NO_ERROR then Some (ret, k)
     else do {
       let k = set_chan c (ch\<lparr>c_msg_queue := Some mq\<rparr>) k;
       (case c_peer ch of
          None \<Rightarrow> Some (NO_ERROR, k)
        | Some d \<Rightarrow> do {
            pe \<leftarrow> k_chans k d;
            if c_aux_state pe AND IPC_CHAN_AUX_STATE_SEND_BLOCKED \<noteq> 0 then do {
              k \<leftarrow> upd_chan d (\<lambda>pe. pe\<lparr>c_aux_state :=
                     (c_aux_state pe AND NOT IPC_CHAN_AUX_STATE_SEND_BLOCKED)
                     OR IPC_CHAN_AUX_STATE_SEND_UNBLOCKED\<rparr>) k;
              k \<leftarrow> handle_notify (HChan d) k;
              Some (NO_ERROR, k) }
            else Some (NO_ERROR, k) }) } }"

text \<open>What \<^verbatim>\<open>sys_send_msg\<close> and \<^verbatim>\<open>ipc_send_msg\<close> do under the lock.\<close>

definition chan_send_locked :: "umem \<Rightarrow> hptr option \<Rightarrow> msg_desc \<Rightarrow> kern \<Rightarrow> (int \<times> kern) option" where
  "chan_send_locked m chandle msg k = do {
     ret \<leftarrow> check_channel_connected_locked chandle k;
     if ret = NO_ERROR then
       (case chandle of
          Some (HChan c) \<Rightarrow> do {
            (ret, k) \<leftarrow> msg_write_locked m c msg k;
            if ret \<ge> 0 then do {
              ch \<leftarrow> k_chans k c;
              d \<leftarrow> c_peer ch;
              k \<leftarrow> handle_notify (HChan d) k;
              Some (ret, k) }
            else Some (ret, k) }
        | _ \<Rightarrow> None)
     else Some (ret, k) }"

definition ipc_send_msg :: "umem \<Rightarrow> hptr option \<Rightarrow> ipc_msg_kern option \<Rightarrow> kern \<Rightarrow> (int \<times> kern) option" where
  "ipc_send_msg m chandle msg k =
     (case msg of None \<Rightarrow> Some (ERR_INVALID_ARGS, k)
      | Some km \<Rightarrow> chan_send_locked m chandle (IPC_MSG_BUFFER_KERNEL km) k)"

definition ipc_get_msg :: "hptr option \<Rightarrow> kern \<Rightarrow> (int \<times> ipc_msg_info option \<times> kern) option" where
  "ipc_get_msg chandle k =
     (let ret = check_channel_locked chandle in
      if ret \<noteq> NO_ERROR then Some (ret, None, k)
      else case chandle of
        Some (HChan c) \<Rightarrow> do {
          ch \<leftarrow> k_chans k c;
          mq \<leftarrow> c_msg_queue ch;
          (ret, nfo) \<leftarrow> msg_peek_next_filled_locked mq;
          if ret = NO_ERROR then do {
            mq \<leftarrow> msg_get_filled_locked mq;
            Some (ret, nfo, set_chan c (ch\<lparr>c_msg_queue := Some mq\<rparr>) k) }
          else Some (ret, nfo, k) }
      | _ \<Rightarrow> None)"

definition ipc_put_msg :: "hptr option \<Rightarrow> u32 \<Rightarrow> kern \<Rightarrow> (int \<times> kern) option" where
  "ipc_put_msg chandle msg_id k =
     (let ret = check_channel_locked chandle in
      if ret \<noteq> NO_ERROR then Some (ret, k)
      else case chandle of
        Some (HChan c) \<Rightarrow> msg_put_read_locked c msg_id k
      | _ \<Rightarrow> None)"

text \<open>What \<^verbatim>\<open>sys_read_msg\<close> and \<^verbatim>\<open>ipc_read_msg\<close> do under the lock.\<close>

definition chan_read_locked :: "umem \<Rightarrow> hptr option \<Rightarrow> u32 \<Rightarrow> u32 \<Rightarrow> msg_desc \<Rightarrow> kern
    \<Rightarrow> (int \<times> umem \<times> msg_desc) option" where
  "chan_read_locked m chandle msg_id offset msg k =
     (let ret = check_channel_locked chandle in
      if ret \<noteq> NO_ERROR then Some (ret, m, msg)
      else case chandle of
        Some (HChan c) \<Rightarrow> do {
          ch \<leftarrow> k_chans k c;
          mq \<leftarrow> c_msg_queue ch;
          msg_read_locked m mq msg_id offset msg }
      | _ \<Rightarrow> None)"

definition ipc_read_msg :: "umem \<Rightarrow> hptr option \<Rightarrow> u32 \<Rightarrow> u32 \<Rightarrow> ipc_msg_kern option \<Rightarrow> kern
    \<Rightarrow> (int \<times> msg_desc) option" where
  "ipc_read_msg m chandle msg_id offset msg k =
     (case msg of None \<Rightarrow> Some (ERR_INVALID_ARGS, MSG_BUFFER_OTHER)
      | Some km \<Rightarrow> do {
          (ret, m, d) \<leftarrow> chan_read_locked m chandle msg_id offset (IPC_MSG_BUFFER_KERNEL km) k;
          Some (ret, d) })"

end
