(* ===== verification/Handle.thy ===== *)
theory Handle
  imports Kernel
begin

text \<open>
  Waiting on one handle and on a list of handles: \<^verbatim>\<open>lib/trusty/handle.c\<close>.  A thread that blocks in
  \<^verbatim>\<open>event_wait_timeout\<close> lets other threads run: the environment \<open>env\<close> gives, for each wait in turn,
  the value the wait returns (0, or negative on a timeout) and what the others did to the state.
  A return value \<^term>\<open>None\<close> is a thread that is still blocked when the environment ends.
\<close>

type_synonym wait_env = "(int \<times> (kern \<Rightarrow> kern)) list"

definition prepare_wait_handle :: "nat \<Rightarrow> hptr \<Rightarrow> kern \<Rightarrow> (int \<times> kern) option" where
  "prepare_wait_handle ev hp k = do {
     h \<leftarrow> get_handle k hp;
     if h_wait_event h \<noteq> None then Some (ERR_ALREADY_STARTED, k)
     else do {
       k \<leftarrow> upd_handle hp (\<lambda>h. h\<lparr>h_wait_event := Some ev\<rparr>) k;
       Some (0, k) } }"

definition finish_wait_handle :: "hptr \<Rightarrow> kern \<Rightarrow> kern option" where
  "finish_wait_handle hp k = upd_handle hp (\<lambda>h. h\<lparr>h_wait_event := None\<rparr>) k"

fun handle_wait_loop :: "wait_env \<Rightarrow> hptr \<Rightarrow> kern \<Rightarrow> (int option \<times> u32 \<times> wait_env \<times> kern) option" where
  "handle_wait_loop [] hp k = do {
     event \<leftarrow> handle_poll hp k;
     if event \<noteq> 0 then do {
       k \<leftarrow> handle_finalize_event hp event k;
       Some (Some NO_ERROR, event, [], k) }
     else Some (None, 0, [], k) }"
| "handle_wait_loop ((ret, others) # env) hp k = do {
     event \<leftarrow> handle_poll hp k;
     if event \<noteq> 0 then do {
       k \<leftarrow> handle_finalize_event hp event k;
       Some (Some NO_ERROR, event, (ret, others) # env, k) }
     else if ret < 0 then Some (Some ret, 0, env, others k)
     else handle_wait_loop env hp (others k) }"

definition handle_wait :: "wait_env \<Rightarrow> nat \<Rightarrow> hptr option \<Rightarrow> kern
    \<Rightarrow> (int option \<times> u32 \<times> wait_env \<times> kern) option" where
  "handle_wait env ev handle k =
     (case handle of None \<Rightarrow> Some (Some ERR_INVALID_ARGS, 0, env, k)
      | Some hp \<Rightarrow> do {
          (ret, k) \<leftarrow> prepare_wait_handle ev hp k;
          if ret \<noteq> 0 then Some (Some ret, 0, env, k)
          else do {
            (ret, event, env, k) \<leftarrow> handle_wait_loop env hp k;
            (case ret of
               None \<Rightarrow> Some (None, event, env, k)
             | Some r \<Rightarrow> do {
                 k \<leftarrow> finish_wait_handle hp k;
                 Some (Some r, event, env, k) }) } })"

section \<open>Handle lists\<close>

definition upd_hlist :: "nat \<Rightarrow> (handle_list \<Rightarrow> handle_list) \<Rightarrow> kern \<Rightarrow> kern option" where
  "upd_hlist l f k = do {
     hl \<leftarrow> k_hlists k l;
     Some (k\<lparr>k_hlists := (k_hlists k)(l := Some (f hl))\<rparr>) }"

definition handle_list_init :: "nat \<Rightarrow> kern \<Rightarrow> kern" where
  "handle_list_init l k =
     k\<lparr>k_hlists := (k_hlists k)(l := Some \<lparr>hl_handles = [], hl_wait_event = None\<rparr>)\<rparr>"

definition handle_list_add :: "nat \<Rightarrow> hptr \<Rightarrow> kern \<Rightarrow> kern option" where
  "handle_list_add l hp k = do {
     h \<leftarrow> get_handle k hp;
     _ \<leftarrow> ASSERT (\<not> h_in_hlist h);
     k \<leftarrow> handle_incref hp k;
     k \<leftarrow> upd_handle hp (\<lambda>h. h\<lparr>h_in_hlist := True\<rparr>) k;
     k \<leftarrow> upd_hlist l (\<lambda>hl. hl\<lparr>hl_handles := hl_handles hl @ [hp]\<rparr>) k;
     hl \<leftarrow> k_hlists k l;
     (case hl_wait_event hl of
        None \<Rightarrow> Some k
      | Some ev \<Rightarrow> do {
          (_, k) \<leftarrow> prepare_wait_handle ev hp k;
          event \<leftarrow> handle_poll hp k;
          if event \<noteq> 0 then handle_notify hp k else Some k }) }"

definition handle_list_del_locked :: "nat \<Rightarrow> hptr \<Rightarrow> kern \<Rightarrow> kern option" where
  "handle_list_del_locked l hp k = do {
     h \<leftarrow> get_handle k hp;
     _ \<leftarrow> ASSERT (h_in_hlist h);
     k \<leftarrow> upd_handle hp (\<lambda>h. h\<lparr>h_in_hlist := False\<rparr>) k;
     k \<leftarrow> upd_hlist l (\<lambda>hl. hl\<lparr>hl_handles := remove1 hp (hl_handles hl)\<rparr>) k;
     hl \<leftarrow> k_hlists k l;
     k \<leftarrow> (case hl_wait_event hl of
             None \<Rightarrow> Some k
           | Some ev \<Rightarrow> do {
               k \<leftarrow> finish_wait_handle hp k;
               Some (if hl_handles hl = [] then event_signal ev k else k) });
     handle_decref hp k }"

definition handle_list_del :: "nat \<Rightarrow> hptr \<Rightarrow> kern \<Rightarrow> kern option" where
  "handle_list_del l hp k = handle_list_del_locked l hp k"

text \<open>Each turn unlinks the head, so the length of the list bounds the turns.\<close>

fun handle_list_delete_all_loop :: "nat \<Rightarrow> nat \<Rightarrow> kern \<Rightarrow> kern option" where
  "handle_list_delete_all_loop 0 l k = Some k"
| "handle_list_delete_all_loop (Suc n) l k = do {
     hl \<leftarrow> k_hlists k l;
     (case hl_handles hl of
        [] \<Rightarrow> Some k
      | hp # _ \<Rightarrow> do {
          k \<leftarrow> handle_list_del_locked l hp k;
          handle_list_delete_all_loop n l k }) }"

definition handle_list_delete_all :: "nat \<Rightarrow> kern \<Rightarrow> kern option" where
  "handle_list_delete_all l k = do {
     hl \<leftarrow> k_hlists k l;
     handle_list_delete_all_loop (length (hl_handles hl)) l k }"

text \<open>\<open>lst = None\<close> is the NULL that never equals an entry.\<close>

fun hlist_finish_wait_loop :: "hptr list \<Rightarrow> hptr option \<Rightarrow> kern \<Rightarrow> kern option" where
  "hlist_finish_wait_loop [] lst k = Some k"
| "hlist_finish_wait_loop (hp # hs) lst k = do {
     k \<leftarrow> finish_wait_handle hp k;
     if lst = Some hp then Some k else hlist_finish_wait_loop hs lst k }"

definition hlist_finish_wait_locked :: "nat \<Rightarrow> hptr option \<Rightarrow> kern \<Rightarrow> kern option" where
  "hlist_finish_wait_locked l lst k = do {
     hl \<leftarrow> k_hlists k l;
     hlist_finish_wait_loop (hl_handles hl) lst k }"

text \<open>The result is the return value, the ready handle with its event, and \<open>last_prep\<close>.\<close>

fun hlist_poll_loop :: "nat \<Rightarrow> hptr list \<Rightarrow> bool \<Rightarrow> hptr option \<Rightarrow> kern
    \<Rightarrow> (int \<times> (hptr \<times> u32) option \<times> hptr option \<times> kern) option" where
  "hlist_poll_loop ev [] prepare last_prep k = Some (0, None, last_prep, k)"
| "hlist_poll_loop ev (hp # hs) prepare last_prep k = do {
     (ret, k) \<leftarrow> (if prepare then prepare_wait_handle ev hp k else Some (0, k));
     if ret \<noteq> 0 then Some (ret, None, last_prep, k)
     else do {
       let last_prep = (if prepare then Some hp else last_prep);
       event \<leftarrow> handle_poll hp k;
       if event \<noteq> 0 then Some (1, Some (hp, event), last_prep, k)
       else hlist_poll_loop ev hs prepare last_prep k } }"

definition hlist_do_poll_locked :: "nat \<Rightarrow> bool \<Rightarrow> kern
    \<Rightarrow> (int \<times> (hptr \<times> u32) option \<times> kern) option" where
  "hlist_do_poll_locked l prepare k = do {
     hl \<leftarrow> k_hlists k l;
     ev \<leftarrow> hl_wait_event hl;
     if hl_handles hl = [] then Some (ERR_NOT_FOUND, None, k)
     else do {
       (ret, found, last_prep, k) \<leftarrow> hlist_poll_loop ev (hl_handles hl) prepare None k;
       k \<leftarrow> (if ret \<noteq> 0 \<and> prepare \<and> last_prep \<noteq> None
             then hlist_finish_wait_locked l last_prep k else Some k);
       Some (ret, found, k) } }"

fun handle_list_wait_loop :: "wait_env \<Rightarrow> nat \<Rightarrow> kern
    \<Rightarrow> (int option \<times> (hptr \<times> u32) option \<times> wait_env \<times> kern) option" where
  "handle_list_wait_loop [] l k = Some (None, None, [], k)"
| "handle_list_wait_loop ((ret, others) # env) l k =
     (let k = others k in
      if ret < 0 then Some (Some ret, None, env, k)
      else do {
        (ret, found, k) \<leftarrow> hlist_do_poll_locked l False k;
        if ret = 0 then handle_list_wait_loop env l k
        else Some (Some ret, found, env, k) })"

text \<open>Moving the list head behind \<open>hp\<close>: the list now starts after \<open>hp\<close> and ends with it.\<close>

definition rotate_after :: "hptr \<Rightarrow> hptr list \<Rightarrow> hptr list" where
  "rotate_after hp hs = tl (dropWhile (\<lambda>x. x \<noteq> hp) hs) @ takeWhile (\<lambda>x. x \<noteq> hp) hs @ [hp]"

definition handle_list_wait :: "wait_env \<Rightarrow> nat \<Rightarrow> nat \<Rightarrow> kern
    \<Rightarrow> (int option \<times> (hptr \<times> u32) option \<times> wait_env \<times> kern) option" where
  "handle_list_wait env ev l k = do {
     hl \<leftarrow> k_hlists k l;
     _ \<leftarrow> ASSERT (hl_wait_event hl = None);
     k \<leftarrow> upd_hlist l (\<lambda>hl. hl\<lparr>hl_wait_event := Some ev\<rparr>) k;
     (ret, found, k) \<leftarrow> hlist_do_poll_locked l True k;
     (ret, found, env, k) \<leftarrow>
       (if ret \<noteq> 0 then Some (Some ret, found, env, k)
        else do {
          (ret, found, env, k) \<leftarrow> handle_list_wait_loop env l k;
          (case ret of
             None \<Rightarrow> Some (None, found, env, k)
           | Some r \<Rightarrow> do {
               k \<leftarrow> hlist_finish_wait_locked l None k;
               Some (Some r, found, env, k) }) });
     (case ret of
        None \<Rightarrow> Some (None, None, env, k)
      | Some r \<Rightarrow>
          if r = 1 then
            (case found of
               None \<Rightarrow> None
             | Some (hp, event) \<Rightarrow> do {
                 k \<leftarrow> handle_finalize_event hp event k;
                 k \<leftarrow> handle_incref hp k;
                 k \<leftarrow> upd_hlist l (\<lambda>hl. hl\<lparr>hl_handles := rotate_after hp (hl_handles hl),
                        hl_wait_event := None\<rparr>) k;
                 Some (Some NO_ERROR, found, env, k) })
          else do {
            k \<leftarrow> upd_hlist l (\<lambda>hl. hl\<lparr>hl_wait_event := None\<rparr>) k;
            Some (Some r, found, env, k) }) }"

end
