(* ===== verification/Uctx.thy ===== *)
theory Uctx
  imports Handle Ipc
begin

text \<open>
  The handle table of a trusted application and the system calls over it:
  \<^verbatim>\<open>lib/trusty/uctx.c\<close> and the system calls of \<^verbatim>\<open>ipc.c\<close> and \<^verbatim>\<open>ipc_msg.c\<close>.  A user context is named by
  its number \<open>u\<close>, which is also the number of its handle list.  A system call takes the memory of
  the calling application and returns it with the C return value.
\<close>

type_synonym handle_id = u32

definition IPC_MAX_HANDLES :: nat where "IPC_MAX_HANDLES = 128"
definition INVALID_HANDLE_ID :: handle_id where "INVALID_HANDLE_ID = 0xFFFFFFFF"

interpretation uslots: slot_bitmap "bitmap_wf IPC_MAX_HANDLES" bitmap_test bitmap_set bitmap_clear
  "\<lambda>b. bitmap_ffz b IPC_MAX_HANDLES" IPC_MAX_HANDLES
  by (rule bitmap_slot_bitmap)

definition set_uctx :: "nat \<Rightarrow> uctx \<Rightarrow> kern \<Rightarrow> kern" where
  "set_uctx u ctx k = k\<lparr>k_uctx := (k_uctx k)(u := Some ctx)\<rparr>"

definition uctx_get_current_guest :: "nat \<Rightarrow> kern \<Rightarrow> u32 option" where
  "uctx_get_current_guest u k = map_option uc_cur_guest (k_uctx k u)"

definition check_handle_id :: "uctx \<Rightarrow> handle_id \<Rightarrow> int option" where
  "check_handle_id ctx handle_id =
     (if unat handle_id \<ge> IPC_MAX_HANDLES then Some ERR_BAD_HANDLE
      else if \<not> bitmap_test (uc_inuse ctx) (unat handle_id) then Some ERR_NOT_FOUND
      else do {
        _ \<leftarrow> ASSERT (uc_handles ctx ! unat handle_id \<noteq> None);
        Some NO_ERROR })"

definition handle_to_id_locked :: "uctx \<Rightarrow> hptr \<Rightarrow> handle_id" where
  "handle_to_id_locked ctx handle =
     (case find (\<lambda>i. uc_handles ctx ! i = Some handle) [0..<IPC_MAX_HANDLES] of
        None \<Rightarrow> INVALID_HANDLE_ID
      | Some i \<Rightarrow> of_nat i)"

definition uctx_create :: "nat \<Rightarrow> kern \<Rightarrow> int \<times> kern" where
  "uctx_create u k =
     (let (ok, k) = alloc_ok k in
      if \<not> ok then (ERR_NO_MEMORY, k)
      else (NO_ERROR, handle_list_init u (set_uctx u
              \<lparr>uc_inuse = bitmap_empty IPC_MAX_HANDLES, uc_handles = replicate IPC_MAX_HANDLES None,
               uc_cur_guest = DEFAULT_GUEST_ID\<rparr> k)))"

fun uctx_destroy_loop :: "nat \<Rightarrow> nat list \<Rightarrow> kern \<Rightarrow> kern option" where
  "uctx_destroy_loop u [] k = Some k"
| "uctx_destroy_loop u (i # is) k = do {
     ctx \<leftarrow> k_uctx k u;
     (case uc_handles ctx ! i of
        None \<Rightarrow> uctx_destroy_loop u is k
      | Some hp \<Rightarrow> do {
          k \<leftarrow> handle_list_del u hp k;
          k \<leftarrow> handle_close hp k;
          let k = set_uctx u (ctx\<lparr>uc_handles := (uc_handles ctx)[i := None]\<rparr>) k;
          uctx_destroy_loop u is k }) }"

definition uctx_destroy :: "nat \<Rightarrow> kern \<Rightarrow> kern option" where
  "uctx_destroy u k = do {
     k \<leftarrow> uctx_destroy_loop u [0..<IPC_MAX_HANDLES] k;
     Some (k\<lparr>k_uctx := (k_uctx k)(u := None), k_hlists := (k_hlists k)(u := None)\<rparr>) }"

definition uctx_handle_install :: "nat \<Rightarrow> hptr \<Rightarrow> kern \<Rightarrow> (int \<times> handle_id option \<times> kern) option" where
  "uctx_handle_install u hp k = do {
     ctx \<leftarrow> k_uctx k u;
     let new_id = bitmap_ffz (uc_inuse ctx) IPC_MAX_HANDLES;
     if new_id < 0 then Some (ERR_NO_RESOURCES, None, k)
     else do {
       _ \<leftarrow> ASSERT (uc_handles ctx ! nat new_id = None);
       let k = set_uctx u (ctx\<lparr>uc_inuse := bitmap_set (uc_inuse ctx) (nat new_id),
                  uc_handles := (uc_handles ctx)[nat new_id := Some hp]\<rparr>) k;
       k \<leftarrow> handle_list_add u hp k;
       Some (NO_ERROR, Some (of_int new_id), k) } }"

definition uctx_handle_get :: "nat \<Rightarrow> handle_id \<Rightarrow> kern \<Rightarrow> (int \<times> hptr option \<times> kern) option" where
  "uctx_handle_get u handle_id k = do {
     ctx \<leftarrow> k_uctx k u;
     ret \<leftarrow> check_handle_id ctx handle_id;
     if ret = NO_ERROR then do {
       hp \<leftarrow> uc_handles ctx ! unat handle_id;
       k \<leftarrow> handle_incref hp k;
       Some (ret, Some hp, k) }
     else Some (ret, None, k) }"

definition uctx_handle_remove :: "nat \<Rightarrow> handle_id \<Rightarrow> kern \<Rightarrow> (int \<times> hptr option \<times> kern) option" where
  "uctx_handle_remove u handle_id k = do {
     ctx \<leftarrow> k_uctx k u;
     ret \<leftarrow> check_handle_id ctx handle_id;
     if ret = NO_ERROR then do {
       hp \<leftarrow> uc_handles ctx ! unat handle_id;
       let k = set_uctx u (ctx\<lparr>uc_inuse := bitmap_clear (uc_inuse ctx) (unat handle_id),
                  uc_handles := (uc_handles ctx)[unat handle_id := None]\<rparr>) k;
       k \<leftarrow> handle_list_del u hp k;
       Some (ret, Some hp, k) }
     else Some (ret, None, k) }"

section \<open>Waiting and closing\<close>

text \<open>\<^verbatim>\<open>uevent_t\<close>: three 32-bit words.\<close>

definition uevent_bytes :: "handle_id \<Rightarrow> u32 \<Rightarrow> u32 \<Rightarrow> byte list" where
  "uevent_bytes h ev ck = le32_bytes h @ le32_bytes ev @ le32_bytes ck"

definition set_current_guest :: "nat \<Rightarrow> hptr option \<Rightarrow> kern \<Rightarrow> kern option" where
  "set_current_guest u handle k = do {
     ctx \<leftarrow> k_uctx k u;
     (case handle of
        None \<Rightarrow> Some k
      | Some hp \<Rightarrow> do {
          h \<leftarrow> get_handle k hp;
          Some (set_uctx u (ctx\<lparr>uc_cur_guest := h_guest_id h\<rparr>) k) }) }"

text \<open>\<open>valid\<close> is \<^verbatim>\<open>uthread_is_valid_range\<close> on the destination.\<close>

definition sys_get_guest_id :: "nat \<Rightarrow> bool \<Rightarrow> umem \<Rightarrow> user_addr \<Rightarrow> kern \<Rightarrow> (int \<times> umem) option" where
  "sys_get_guest_id u valid m user_addr k = do {
     ctx \<leftarrow> k_uctx k u;
     if valid then
       (let (status, m) = copy_to_user m user_addr (le32_bytes (uc_cur_guest ctx)) in
        if status \<noteq> 0 then Some (status, m) else Some (NO_ERROR, m))
     else Some (ERR_INVALID_ARGS, m) }"

definition sys_wait :: "wait_env \<Rightarrow> nat \<Rightarrow> nat \<Rightarrow> umem \<Rightarrow> handle_id \<Rightarrow> user_addr \<Rightarrow> kern
    \<Rightarrow> (int option \<times> umem \<times> wait_env \<times> kern) option" where
  "sys_wait env ev u m handle_id user_event k = do {
     (ret, handle, k) \<leftarrow> uctx_handle_get u handle_id k;
     if ret \<noteq> NO_ERROR then Some (Some ret, m, env, k)
     else do {
       hp \<leftarrow> handle;
       (ret, event, env, k) \<leftarrow> handle_wait env ev (Some hp) k;
       (case ret of
          None \<Rightarrow> Some (None, m, env, k)
        | Some r \<Rightarrow> do {
            (ret, m, k) \<leftarrow>
              (if r < 0 then Some (r, m, k)
               else do {
                 h \<leftarrow> get_handle k hp;
                 let (status, m) = copy_to_user m user_event (uevent_bytes handle_id event (h_cookie h));
                 if status \<noteq> 0 then Some (status, m, k)
                 else do {
                   k \<leftarrow> set_current_guest u (Some hp) k;
                   Some (r, m, k) } });
            k \<leftarrow> handle_decref hp k;
            Some (Some ret, m, env, k) }) } }"

definition sys_wait_any :: "wait_env \<Rightarrow> nat \<Rightarrow> nat \<Rightarrow> umem \<Rightarrow> user_addr \<Rightarrow> kern
    \<Rightarrow> (int option \<times> umem \<times> wait_env \<times> kern) option" where
  "sys_wait_any env ev u m user_event k = do {
     (ret, found, env, k) \<leftarrow> handle_list_wait env ev u k;
     (case ret of
        None \<Rightarrow> Some (None, m, env, k)
      | Some r \<Rightarrow>
          if r < 0 then Some (Some r, m, env, k)
          else do {
            (hp, event) \<leftarrow> found;
            ctx \<leftarrow> k_uctx k u;
            let handle_id = handle_to_id_locked ctx hp;
            h \<leftarrow> get_handle k hp;
            k \<leftarrow> handle_decref hp k;
            _ \<leftarrow> ASSERT (unat handle_id < IPC_MAX_HANDLES);
            let (status, m) = copy_to_user m user_event (uevent_bytes handle_id event (h_cookie h));
            if status \<noteq> 0 then Some (Some status, m, env, k)
            else do {
              k \<leftarrow> set_current_guest u (Some hp) k;
              Some (Some r, m, env, k) } }) }"

definition sys_close :: "nat \<Rightarrow> handle_id \<Rightarrow> kern \<Rightarrow> (int \<times> kern) option" where
  "sys_close u handle_id k = do {
     (ret, handle, k) \<leftarrow> uctx_handle_remove u handle_id k;
     if ret \<noteq> NO_ERROR then Some (ret, k)
     else do {
       hp \<leftarrow> handle;
       k \<leftarrow> handle_close hp k;
       Some (NO_ERROR, k) } }"

definition sys_set_cookie :: "nat \<Rightarrow> handle_id \<Rightarrow> u32 \<Rightarrow> kern \<Rightarrow> (int \<times> kern) option" where
  "sys_set_cookie u handle_id ck k = do {
     (ret, handle, k) \<leftarrow> uctx_handle_get u handle_id k;
     if ret \<noteq> NO_ERROR then Some (ret, k)
     else do {
       hp \<leftarrow> handle;
       k \<leftarrow> upd_handle hp (\<lambda>h. h\<lparr>h_cookie := ck\<rparr>) k;
       k \<leftarrow> handle_decref hp k;
       Some (NO_ERROR, k) } }"

section \<open>Ports and connections\<close>

text \<open>\<open>app\<close> is the uuid of the calling application; \<open>fuel\<close> bounds the scan of the user string.\<close>

definition sys_port_create :: "nat \<Rightarrow> nat \<Rightarrow> uuid_ref \<Rightarrow> umem \<Rightarrow> user_addr \<Rightarrow> nat \<Rightarrow> nat \<Rightarrow> u32 \<Rightarrow> kern
    \<Rightarrow> (int \<times> kern) option" where
  "sys_port_create fuel u app m path num_recv_bufs recv_buf_size flags k =
     (let (ret, tmp_path) = strncpy_from_user fuel m path IPC_PORT_PATH_MAX in
      if ret < 0 then Some (ret, k)
      else if nat ret \<ge> IPC_PORT_PATH_MAX then Some (ERR_INVALID_ARGS, k)
      else case ipc_port_create (Some app) tmp_path num_recv_bufs recv_buf_size flags k of
        (ret, port, k) \<Rightarrow>
        if ret \<noteq> NO_ERROR then Some (ret, k)
        else do {
          p \<leftarrow> port;
          (ret, handle_id, k) \<leftarrow> uctx_handle_install u (HPort p) k;
          if ret \<noteq> NO_ERROR then do {
            k \<leftarrow> handle_decref (HPort p) k;
            Some (ret, k) }
          else do {
            hid \<leftarrow> handle_id;
            (ret, k) \<leftarrow> ipc_port_publish p k;
            if ret \<noteq> NO_ERROR then do {
              (_, _, k) \<leftarrow> uctx_handle_remove u hid k;
              k \<leftarrow> handle_decref (HPort p) k;
              Some (ret, k) }
            else Some (int (unat hid), k) } })"

text \<open>\<open>ev1\<close> and \<open>ev2\<close> are the events of the two waits.\<close>

definition sys_connect :: "wait_env \<Rightarrow> nat \<Rightarrow> nat \<Rightarrow> nat \<Rightarrow> nat \<Rightarrow> uuid_ref \<Rightarrow> umem \<Rightarrow> user_addr \<Rightarrow> u32 \<Rightarrow> kern
    \<Rightarrow> (int option \<times> wait_env \<times> kern) option" where
  "sys_connect env ev1 ev2 fuel u app m path flags k =
     (if flags AND NOT IPC_CONNECT_MASK \<noteq> 0 then Some (Some ERR_INVALID_ARGS, env, k)
      else let (ret, tmp_path) = strncpy_from_user fuel m path IPC_PORT_PATH_MAX in
      if ret < 0 then Some (Some ret, env, k)
      else if nat ret \<ge> IPC_PORT_PATH_MAX then Some (Some ERR_INVALID_ARGS, env, k)
      else do {
        cur_guest \<leftarrow> uctx_get_current_guest u k;
        (ret, chandle, k) \<leftarrow> ipc_port_connect_async cur_guest (Some app) (tmp_path @ [0])
                               IPC_PORT_PATH_MAX flags k;
        if ret \<noteq> NO_ERROR then Some (Some ret, env, k)
        else do {
          hp \<leftarrow> chandle;
          (ret, env, k) \<leftarrow>
            (if flags AND IPC_CONNECT_ASYNC = 0 then do {
               (ret, event, env, k) \<leftarrow> handle_wait env ev1 (Some hp) k;
               (ret, event, env, k) \<leftarrow>
                 (if ret = Some ERR_TIMED_OUT then handle_wait env ev2 (Some hp) k
                  else Some (ret, event, env, k));
               (case ret of
                  None \<Rightarrow> Some (None, env, k)
                | Some r \<Rightarrow>
                    if r < 0 then do { k \<leftarrow> handle_close hp k; Some (Some r, env, k) }
                    else if event AND IPC_HANDLE_POLL_HUP \<noteq> 0 \<and> event AND IPC_HANDLE_POLL_MSG = 0
                    then do { k \<leftarrow> handle_close hp k; Some (Some ERR_CHANNEL_CLOSED, env, k) }
                    else if event AND IPC_HANDLE_POLL_READY = 0
                    then do { k \<leftarrow> handle_close hp k; Some (Some ERR_NOT_READY, env, k) }
                    else Some (Some NO_ERROR, env, k)) }
             else Some (Some NO_ERROR, env, k));
          if ret \<noteq> Some NO_ERROR then Some (ret, env, k)
          else do {
            (ret, handle_id, k) \<leftarrow> uctx_handle_install u hp k;
            if ret \<noteq> NO_ERROR then do {
              k \<leftarrow> handle_close hp k;
              Some (Some ret, env, k) }
            else do {
              hid \<leftarrow> handle_id;
              Some (Some (int (unat hid)), env, k) } } } })"

text \<open>\<open>uuid_bytes\<close> gives the sixteen bytes behind a uuid pointer.\<close>

definition uuid_bytes :: "uuid_ref \<Rightarrow> byte list" where
  "uuid_bytes r = (case r of ZERO_UUID \<Rightarrow> replicate 16 0 | APP_UUID b \<Rightarrow> b)"

definition sys_accept :: "nat \<Rightarrow> umem \<Rightarrow> handle_id \<Rightarrow> user_addr \<Rightarrow> kern \<Rightarrow> (int \<times> umem \<times> kern) option" where
  "sys_accept u m handle_id user_uuid k = do {
     (ret, phandle, k) \<leftarrow> uctx_handle_get u handle_id k;
     if ret \<noteq> NO_ERROR then Some (ret, m, k)
     else do {
       ph \<leftarrow> phandle;
       (ret, chandle, peer, k) \<leftarrow> ipc_port_accept (Some ph) k;
       if ret \<noteq> NO_ERROR then do {
         k \<leftarrow> handle_decref ph k;
         Some (ret, m, k) }
       else do {
         hp \<leftarrow> chandle;
         uuid \<leftarrow> peer;
         (ret, new_id, k) \<leftarrow> uctx_handle_install u hp k;
         if ret \<noteq> NO_ERROR then do {
           k \<leftarrow> handle_close hp k;
           k \<leftarrow> handle_decref ph k;
           Some (ret, m, k) }
         else do {
           nid \<leftarrow> new_id;
           let (ret, m) = copy_to_user m user_uuid (uuid_bytes uuid);
           if ret \<noteq> NO_ERROR then do {
             (_, _, k) \<leftarrow> uctx_handle_remove u nid k;
             k \<leftarrow> handle_close hp k;
             k \<leftarrow> handle_decref ph k;
             Some (ret, m, k) }
           else do {
             k \<leftarrow> handle_decref ph k;
             Some (int (unat nid), m, k) } } } } }"

section \<open>Messages\<close>

text \<open>\<^verbatim>\<open>ipc_msg_user_t\<close>: the vector's length and address, the handles' number and address.\<close>

definition ipc_msg_user_of :: "byte list \<Rightarrow> ipc_msg_user" where
  "ipc_msg_user_of raw = \<lparr>umsg_num_iov = unat (le32_of (take 4 raw)),
     umsg_iov = le32_of (take 4 (drop 4 raw)), umsg_num_handles = unat (le32_of (take 4 (drop 8 raw)))\<rparr>"

definition sys_send_msg :: "nat \<Rightarrow> umem \<Rightarrow> handle_id \<Rightarrow> user_addr \<Rightarrow> kern \<Rightarrow> (int \<times> kern) option" where
  "sys_send_msg u m handle_id user_msg k =
     (let (ret, raw) = copy_from_user m user_msg 16 in
      if ret \<noteq> NO_ERROR then Some (ret, k)
      else do {
        (ret, chandle, k) \<leftarrow> uctx_handle_get u handle_id k;
        if ret \<noteq> NO_ERROR then Some (ret, k)
        else do {
          hp \<leftarrow> chandle;
          (ret, k) \<leftarrow> chan_send_locked m chandle (IPC_MSG_BUFFER_USER (ipc_msg_user_of raw)) k;
          k \<leftarrow> handle_decref hp k;
          Some (ret, k) } })"

definition sys_get_msg :: "nat \<Rightarrow> umem \<Rightarrow> handle_id \<Rightarrow> user_addr \<Rightarrow> kern \<Rightarrow> (int \<times> umem \<times> kern) option" where
  "sys_get_msg u m handle_id user_msg_info k = do {
     (ret, chandle, k) \<leftarrow> uctx_handle_get u handle_id k;
     if ret \<noteq> NO_ERROR then Some (ret, m, k)
     else do {
       hp \<leftarrow> chandle;
       (ret, m, k) \<leftarrow>
         (if check_channel_locked chandle \<noteq> NO_ERROR then Some (check_channel_locked chandle, m, k)
          else case hp of
            HPort p \<Rightarrow> None
          | HChan c \<Rightarrow> do {
              ch \<leftarrow> k_chans k c;
              mq \<leftarrow> c_msg_queue ch;
              (ret, nfo) \<leftarrow> msg_peek_next_filled_locked mq;
              if ret \<noteq> NO_ERROR then Some (ret, m, k)
              else do {
                i \<leftarrow> nfo;
                let (ret, m) = copy_to_user m user_msg_info (le32_bytes (info_len i) @ le32_bytes (info_id i));
                if ret \<noteq> NO_ERROR then Some (ret, m, k)
                else do {
                  mq \<leftarrow> msg_get_filled_locked mq;
                  Some (ret, m, set_chan c (ch\<lparr>c_msg_queue := Some mq\<rparr>) k) } } });
       k \<leftarrow> handle_decref hp k;
       Some (ret, m, k) } }"

definition sys_put_msg :: "nat \<Rightarrow> handle_id \<Rightarrow> u32 \<Rightarrow> kern \<Rightarrow> (int \<times> kern) option" where
  "sys_put_msg u handle_id msg_id k = do {
     (ret, chandle, k) \<leftarrow> uctx_handle_get u handle_id k;
     if ret \<noteq> NO_ERROR then Some (ret, k)
     else do {
       hp \<leftarrow> chandle;
       (ret, k) \<leftarrow> ipc_put_msg chandle msg_id k;
       k \<leftarrow> handle_decref hp k;
       Some (ret, k) } }"

definition sys_read_msg :: "nat \<Rightarrow> umem \<Rightarrow> handle_id \<Rightarrow> u32 \<Rightarrow> u32 \<Rightarrow> user_addr \<Rightarrow> kern
    \<Rightarrow> (int \<times> umem \<times> kern) option" where
  "sys_read_msg u m handle_id msg_id offset user_msg k =
     (let (ret, raw) = copy_from_user m user_msg 16 in
      if ret \<noteq> NO_ERROR then Some (ret, m, k)
      else do {
        (ret, chandle, k) \<leftarrow> uctx_handle_get u handle_id k;
        if ret \<noteq> NO_ERROR then Some (ret, m, k)
        else do {
          hp \<leftarrow> chandle;
          (ret, m, _) \<leftarrow> chan_read_locked m chandle msg_id offset
                          (IPC_MSG_BUFFER_USER (ipc_msg_user_of raw)) k;
          k \<leftarrow> handle_decref hp k;
          Some (ret, m, k) } })"

end
