(* ===== verification/Vqueue.thy ===== *)
theory Vqueue
  imports Iovec
begin

text \<open>
  The split virtqueue shared with the normal world: \<^verbatim>\<open>lib/trusty/vqueue.c\<close> over the ring layout of
  \<^verbatim>\<open>virtio_ring.h\<close>.  The other side may write the available ring and the descriptors at any time, so
  the shared part is a sequence of snapshots: each read of it sees the snapshot at the queue's read
  counter and advances the counter.  What is proved for every such sequence holds against a
  malicious normal world; a constant sequence is a cooperating one.
\<close>

section \<open>Layout\<close>

definition VRING_DESC_F_NEXT :: u16 where "VRING_DESC_F_NEXT = 1"
definition VRING_DESC_F_WRITE :: u16 where "VRING_DESC_F_WRITE = 2"
definition VRING_USED_F_NO_NOTIFY :: u16 where "VRING_USED_F_NO_NOTIFY = 1"
definition PAGE_SIZE :: nat where "PAGE_SIZE = 4096"

definition ROUNDUP :: "nat \<Rightarrow> nat \<Rightarrow> nat" where
  "ROUNDUP x n = (x + n - 1) div n * n"

text \<open>The sum is computed on \<^verbatim>\<open>size_t\<close> and returned as \<^verbatim>\<open>unsigned\<close>.\<close>

definition vring_size :: "u32 \<Rightarrow> u64 \<Rightarrow> u32" where
  "vring_size num align =
     ucast (((16 * ucast num + 2 * ucast (3 + num) + align - 1) AND NOT (align - 1))
            + 2 * 3 + 8 * ucast num :: u64)"

text \<open>\<^verbatim>\<open>vring_init\<close>: where the available and the used ring start in the mapping at \<open>p\<close>.\<close>

definition vring_avail_at :: "u32 \<Rightarrow> u64 \<Rightarrow> u64" where
  "vring_avail_at num p = p + 16 * ucast num"

definition vring_used_at :: "u32 \<Rightarrow> u64 \<Rightarrow> u64 \<Rightarrow> u64" where
  "vring_used_at num p align =
     (vring_avail_at num p + 4 + 2 * ucast num + 2 + align - 1) AND NOT (align - 1)"

record vring_desc =
  d_addr :: u64
  d_len :: u32
  d_flags :: u16
  d_next :: u16

record vring_mem =
  av_idx :: u16
  av_ring :: "nat \<Rightarrow> u16"
  vr_desc :: "nat \<Rightarrow> vring_desc"

text \<open>\<open>vq_region\<close> is \<^verbatim>\<open>vring_addr\<close>: the mapped region, or none.\<close>

record vqueue =
  vq_id :: u32
  vq_num :: nat
  vq_region :: "nat option"
  vq_vring_sz :: nat
  vq_last_avail_idx :: u16
  vq_avail_event :: bool
  vq_used_flags :: u16
  vq_used_idx :: u16
  vq_used_ring :: "(u32 \<times> u32) list"
  vq_mem :: "nat \<Rightarrow> vring_mem"
  vq_clock :: nat

record vq_iov =
  vi_base :: "nat option"
  vi_sz :: nat

record vqueue_iovs =
  vi_cnt :: nat
  vi_used :: nat
  vi_len :: nat
  vi_phys :: "u64 list"
  vi_iovs :: "vq_iov list"

record vqueue_buf =
  vb_head :: u16
  vb_in :: vqueue_iovs
  vb_out :: vqueue_iovs

text \<open>
  The kernel address space as the queue uses it: the live mappings, the next region, and the results
  of the coming \<^verbatim>\<open>vmm_alloc_physical\<close> calls (success when used up).  \<open>vm_pa_valid\<close> is the hypervisor's
  \<^verbatim>\<open>trusty_hyp_check_guest_pa_valid\<close>, a weak symbol.
\<close>

record vmspace =
  vm_live :: "nat list"
  vm_next :: nat
  vm_ret :: "int list"
  vm_pa_valid :: "u64 \<Rightarrow> nat \<Rightarrow> u32 \<Rightarrow> int"

definition vmm_alloc_physical :: "vmspace \<Rightarrow> int \<times> nat \<times> vmspace" where
  "vmm_alloc_physical v =
     (let (r, v) = (case vm_ret v of [] \<Rightarrow> (NO_ERROR, v) | r # rs \<Rightarrow> (r, v\<lparr>vm_ret := rs\<rparr>)) in
      if r \<noteq> NO_ERROR then (r, 0, v)
      else (NO_ERROR, vm_next v, v\<lparr>vm_live := vm_next v # vm_live v, vm_next := Suc (vm_next v)\<rparr>))"

definition vmm_free_region :: "nat \<Rightarrow> vmspace \<Rightarrow> vmspace" where
  "vmm_free_region r v = v\<lparr>vm_live := remove1 r (vm_live v)\<rparr>"

section \<open>Setting up and tearing down\<close>

definition trusty_hyp_check_guest_pa_valid :: "u64 \<Rightarrow> nat \<Rightarrow> u32 \<Rightarrow> int" where
  "trusty_hyp_check_guest_pa_valid buf_pa_start buf_size guest = NO_ERROR"

definition vqueue_init :: "vqueue \<Rightarrow> u32 \<Rightarrow> u64 \<Rightarrow> u32 \<Rightarrow> u64 \<Rightarrow> u32 \<Rightarrow> vmspace
    \<Rightarrow> int \<times> vqueue \<times> vmspace" where
  "vqueue_init vq qid paddr num align guest v =
     (let vq = vq\<lparr>vq_vring_sz := unat (vring_size num align)\<rparr>;
          roundedup = ROUNDUP (vq_vring_sz vq) PAGE_SIZE;
          ret = vm_pa_valid v paddr roundedup guest in
      if ret \<noteq> NO_ERROR then (ret, vq, v)
      else (let (ret, region, v) = vmm_alloc_physical v in
        if ret \<noteq> NO_ERROR then (ret, vq, v)
        else (NO_ERROR, vq\<lparr>vq_num := unat num, vq_id := qid, vq_region := Some region,
                vq_avail_event := False\<rparr>, v)))"

definition vqueue_destroy :: "vqueue \<Rightarrow> vmspace \<Rightarrow> vqueue \<times> vmspace" where
  "vqueue_destroy vq v =
     (vq\<lparr>vq_region := None, vq_vring_sz := 0, vq_last_avail_idx := 0\<rparr>,
      (case vq_region vq of None \<Rightarrow> v | Some r \<Rightarrow> vmm_free_region r v))"

definition vqueue_signal_avail :: "vqueue \<Rightarrow> vqueue" where
  "vqueue_signal_avail vq =
     (let vq = (if vq_region vq \<noteq> None
                then vq\<lparr>vq_used_flags := vq_used_flags vq OR VRING_USED_F_NO_NOTIFY\<rparr> else vq)
      in vq\<lparr>vq_avail_event := True\<rparr>)"

section \<open>Taking a buffer off the available ring\<close>

definition vq_peek :: "vqueue \<Rightarrow> vring_mem" where
  "vq_peek vq = vq_mem vq (vq_clock vq)"

definition vq_tick :: "vqueue \<Rightarrow> vqueue" where
  "vq_tick vq = vq\<lparr>vq_clock := Suc (vq_clock vq)\<rparr>"

definition iovs_push :: "u32 \<Rightarrow> u64 \<Rightarrow> u32 \<Rightarrow> vqueue_iovs \<Rightarrow> vqueue_iovs" where
  "iovs_push len addr len2 l =
     l\<lparr>vi_iovs := (vi_iovs l)[vi_used l := (vi_iovs l ! vi_used l)\<lparr>vi_sz := unat len\<rparr>],
       vi_phys := (vi_phys l)[vi_used l := addr],
       vi_used := Suc (vi_used l),
       vi_len := vi_len l + unat len2\<rparr>"

text \<open>
  One turn of the descriptor walk with its reads in order: the flags, the length, the address (twice:
  \<^verbatim>\<open>assert\<close> reads it again), the length again for the total, the next index, the flags again.
  The result is \<open>Inl\<close> with the final code, or \<open>Inr\<close> with the next descriptor.
\<close>

definition vq_chain_step :: "vqueue \<Rightarrow> u16 \<Rightarrow> vqueue_buf
    \<Rightarrow> ((int + u16) \<times> vqueue_buf \<times> vqueue) option" where
  "vq_chain_step vq next_idx buf =
     (if unat next_idx \<ge> vq_num vq then Some (Inl ERR_NOT_VALID, buf, vq)
      else
        let i = unat next_idx;
            w = d_flags (vr_desc (vq_peek vq) i) AND VRING_DESC_F_WRITE \<noteq> 0; vq = vq_tick vq;
            l = (if w then vb_out buf else vb_in buf) in
        if vi_used l < vi_cnt l then
          let len = d_len (vr_desc (vq_peek vq) i); vq = vq_tick vq;
              addr = d_addr (vr_desc (vq_peek vq) i); vq = vq_tick vq;
              addr2 = d_addr (vr_desc (vq_peek vq) i); vq = vq_tick vq in
          if addr2 \<noteq> addr then None
          else
            let len2 = d_len (vr_desc (vq_peek vq) i); vq = vq_tick vq;
                l = iovs_push len addr len2 l;
                buf = (if w then buf\<lparr>vb_out := l\<rparr> else buf\<lparr>vb_in := l\<rparr>);
                nxt = d_next (vr_desc (vq_peek vq) i); vq = vq_tick vq;
                more = d_flags (vr_desc (vq_peek vq) i) AND VRING_DESC_F_NEXT \<noteq> 0; vq = vq_tick vq
            in Some (if more then Inr nxt else Inl NO_ERROR, buf, vq)
        else Some (Inl ERR_TOO_BIG, buf, vq))"

definition iovs_room :: "vqueue_iovs \<Rightarrow> nat" where
  "iovs_room l = vi_cnt l - vi_used l"

definition buf_room :: "vqueue_buf \<Rightarrow> nat" where
  "buf_room buf = iovs_room (vb_in buf) + iovs_room (vb_out buf)"

lemma vq_chain_step_room:
  "vq_chain_step vq next_idx buf = Some (Inr nxt, buf', vq') \<Longrightarrow> Suc (buf_room buf') = buf_room buf"
  by (auto simp: vq_chain_step_def Let_def buf_room_def iovs_room_def iovs_push_def split: if_splits)

text \<open>The walk: every turn that goes on uses up one of the entries of \<open>buf\<close>.\<close>

function vq_chain :: "vqueue \<Rightarrow> u16 \<Rightarrow> vqueue_buf \<Rightarrow> (int \<times> vqueue_buf \<times> vqueue) option" where
  "vq_chain vq next_idx buf =
     (case vq_chain_step vq next_idx buf of
        None \<Rightarrow> None
      | Some (Inl ret, buf', vq') \<Rightarrow> Some (ret, buf', vq')
      | Some (Inr nxt, buf', vq') \<Rightarrow> vq_chain vq' nxt buf')"
  by pat_completeness auto
termination
  by (relation "measure (\<lambda>(_, _, buf). buf_room buf)") (auto dest!: vq_chain_step_room)

declare vq_chain.simps [simp del]

definition iovs_reset :: "vqueue_iovs \<Rightarrow> vqueue_iovs" where
  "iovs_reset l = l\<lparr>vi_used := 0, vi_len := 0\<rparr>"

text \<open>
  The part of \<^verbatim>\<open>vqueue_get_avail_buf\<close> before the walk: how many entries are available, switching
  notifications back on when there are none and looking once more, and the head of the next buffer.
\<close>

definition vq_rearm :: "vqueue \<Rightarrow> bool \<times> vqueue" where
  "vq_rearm vq =
     (let vq = vq\<lparr>vq_avail_event := False,
              vq_used_flags := vq_used_flags vq AND NOT VRING_USED_F_NO_NOTIFY\<rparr>;
          none = (vq_last_avail_idx vq = av_idx (vq_peek vq)); vq = vq_tick vq
      in if none then (True, vq)
         else (False, vq\<lparr>vq_used_flags := vq_used_flags vq OR VRING_USED_F_NO_NOTIFY,
                         vq_avail_event := True\<rparr>))"

definition vq_next_head :: "vqueue \<Rightarrow> ((int + u16) \<times> vqueue) option" where
  "vq_next_head vq =
     (let avail_cnt = av_idx (vq_peek vq) - vq_last_avail_idx vq; vq = vq_tick vq in
      if unat avail_cnt > unat (of_nat (vq_num vq) :: u16) then None
      else
        let same = (vq_last_avail_idx vq = av_idx (vq_peek vq)); vq = vq_tick vq;
            (none, vq) = (if same then vq_rearm vq else (False, vq)) in
        if none then Some (Inl ERR_NOT_ENOUGH_BUFFER, vq)
        else if vq_num vq = 0 then None
        else
          let next_idx = av_ring (vq_peek vq) (unat (vq_last_avail_idx vq) mod vq_num vq);
              vq = vq_tick vq in
          Some (Inr next_idx, vq\<lparr>vq_last_avail_idx := vq_last_avail_idx vq + 1\<rparr>))"

definition vqueue_get_avail_buf :: "vqueue \<Rightarrow> vqueue_buf \<Rightarrow> (int \<times> vqueue_buf \<times> vqueue) option" where
  "vqueue_get_avail_buf vq buf =
     (if vq_region vq = None then Some (ERR_CHANNEL_CLOSED, buf, vq)
      else (case vq_next_head vq of
          None \<Rightarrow> None
        | Some (Inl err, vq) \<Rightarrow> Some (err, buf, vq)
        | Some (Inr next_idx, vq) \<Rightarrow>
            if unat next_idx \<ge> vq_num vq then None
            else vq_chain vq next_idx
                   (buf\<lparr>vb_head := next_idx, vb_in := iovs_reset (vb_in buf),
                        vb_out := iovs_reset (vb_out buf)\<rparr>)))"

section \<open>Mapping and returning a buffer\<close>

text \<open>\<^verbatim>\<open>while (i--)\<close>: the entries below \<open>i\<close>, the last one first.\<close>

fun vq_unmap_below :: "nat \<Rightarrow> vqueue_iovs \<Rightarrow> vmspace \<Rightarrow> vqueue_iovs \<times> vmspace" where
  "vq_unmap_below 0 l v = (l, v)"
| "vq_unmap_below (Suc i) l v =
     vq_unmap_below i (l\<lparr>vi_iovs := (vi_iovs l)[i := (vi_iovs l ! i)\<lparr>vi_base := None\<rparr>]\<rparr>)
       (case vi_base (vi_iovs l ! i) of None \<Rightarrow> v | Some r \<Rightarrow> vmm_free_region r v)"

fun vqueue_map_loop :: "nat \<Rightarrow> nat \<Rightarrow> vqueue_iovs \<Rightarrow> u32 \<Rightarrow> vmspace \<Rightarrow> int \<times> vqueue_iovs \<times> vmspace" where
  "vqueue_map_loop i 0 l guest v = (NO_ERROR, l, v)"
| "vqueue_map_loop i (Suc n) l guest v =
     (let ret = vm_pa_valid v (vi_phys l ! i) (ROUNDUP (vi_sz (vi_iovs l ! i)) PAGE_SIZE) guest in
      if ret \<noteq> NO_ERROR then (ret, l, v)
      else
        let l = l\<lparr>vi_iovs := (vi_iovs l)[i := (vi_iovs l ! i)\<lparr>vi_base := None\<rparr>]\<rparr>;
            (ret, region, v) = vmm_alloc_physical v in
        if ret \<noteq> 0 then (let (l, v) = vq_unmap_below i l v in (ret, l, v))
        else vqueue_map_loop (Suc i) n
               (l\<lparr>vi_iovs := (vi_iovs l)[i := (vi_iovs l ! i)\<lparr>vi_base := Some region\<rparr>]\<rparr>) guest v)"

definition vqueue_map_iovs :: "vqueue_iovs \<Rightarrow> u32 \<Rightarrow> vmspace \<Rightarrow> (int \<times> vqueue_iovs \<times> vmspace) option" where
  "vqueue_map_iovs l guest v = do {
     _ \<leftarrow> ASSERT (vi_used l \<le> vi_cnt l);
     Some (vqueue_map_loop 0 (vi_used l) l guest v) }"

fun vqueue_unmap_loop :: "nat \<Rightarrow> nat \<Rightarrow> vqueue_iovs \<Rightarrow> vmspace \<Rightarrow> (vqueue_iovs \<times> vmspace) option" where
  "vqueue_unmap_loop i 0 l v = Some (l, v)"
| "vqueue_unmap_loop i (Suc n) l v = do {
     r \<leftarrow> vi_base (vi_iovs l ! i);
     vqueue_unmap_loop (Suc i) n
       (l\<lparr>vi_iovs := (vi_iovs l)[i := (vi_iovs l ! i)\<lparr>vi_base := None\<rparr>]\<rparr>) (vmm_free_region r v) }"

definition vqueue_unmap_iovs :: "vqueue_iovs \<Rightarrow> vmspace \<Rightarrow> (vqueue_iovs \<times> vmspace) option" where
  "vqueue_unmap_iovs l v = do {
     _ \<leftarrow> ASSERT (vi_used l \<le> vi_cnt l);
     vqueue_unmap_loop 0 (vi_used l) l v }"

definition vqueue_add_buf :: "vqueue \<Rightarrow> vqueue_buf \<Rightarrow> u32 \<Rightarrow> int \<times> vqueue" where
  "vqueue_add_buf vq buf len =
     (if vq_region vq = None then (ERR_CHANNEL_CLOSED, vq)
      else if unat (vb_head buf) \<ge> vq_num vq then (ERR_NOT_VALID, vq)
      else (NO_ERROR, vq\<lparr>vq_used_ring := (vq_used_ring vq)
                           [unat (vq_used_idx vq) mod vq_num vq := (ucast (vb_head buf), len)],
                         vq_used_idx := vq_used_idx vq + 1\<rparr>))"


section \<open>The walk stays inside the buffer\<close>

definition iovs_wf :: "nat \<Rightarrow> vqueue_iovs \<Rightarrow> bool" where
  "iovs_wf n l \<longleftrightarrow> vi_cnt l = n \<and> vi_used l \<le> n \<and> length (vi_phys l) = n \<and> length (vi_iovs l) = n"

definition buf_wf :: "nat \<Rightarrow> nat \<Rightarrow> vqueue_buf \<Rightarrow> bool" where
  "buf_wf i o' buf \<longleftrightarrow> iovs_wf i (vb_in buf) \<and> iovs_wf o' (vb_out buf)"

text \<open>The bytes described by the used entries.\<close>

definition iovs_bytes :: "vqueue_iovs \<Rightarrow> nat" where
  "iovs_bytes l = sum_list (map vi_sz (take (vi_used l) (vi_iovs l)))"

definition buf_sums :: "vqueue_buf \<Rightarrow> bool" where
  "buf_sums buf \<longleftrightarrow> vi_len (vb_in buf) = iovs_bytes (vb_in buf) \<and> vi_len (vb_out buf) = iovs_bytes (vb_out buf)"

lemma iovs_wf_reset: "iovs_wf n l \<Longrightarrow> iovs_wf n (iovs_reset l)"
  by (simp add: iovs_wf_def iovs_reset_def)

lemma iovs_wf_push: "iovs_wf n l \<Longrightarrow> vi_used l < n \<Longrightarrow> iovs_wf n (iovs_push len addr len2 l)"
  by (simp add: iovs_wf_def iovs_push_def)

lemma iovs_bytes_push:
  assumes "iovs_wf n l" "vi_used l < n"
  shows "iovs_bytes (iovs_push len addr len2 l) = iovs_bytes l + unat len"
  using assms
  by (simp add: iovs_wf_def iovs_push_def iovs_bytes_def take_Suc_conv_app_nth nth_list_update)

lemma vq_tick_frame [frame_simps]:
  "vq_num (vq_tick vq) = vq_num vq" "vq_region (vq_tick vq) = vq_region vq"
  "vq_mem (vq_tick vq) = vq_mem vq" "vq_last_avail_idx (vq_tick vq) = vq_last_avail_idx vq"
  "vq_used_ring (vq_tick vq) = vq_used_ring vq" "vq_used_idx (vq_tick vq) = vq_used_idx vq"
  by (simp_all add: vq_tick_def)

lemma vq_chain_step_frame:
  assumes "vq_chain_step vq next_idx buf = Some (r, buf', vq')"
  shows "vq_num vq' = vq_num vq \<and> vq_region vq' = vq_region vq \<and> vq_mem vq' = vq_mem vq \<and>
    vq_used_ring vq' = vq_used_ring vq \<and> vq_used_idx vq' = vq_used_idx vq \<and>
    vq_last_avail_idx vq' = vq_last_avail_idx vq \<and> vb_head buf' = vb_head buf"
  using assms by (auto simp: vq_chain_step_def Let_def frame_simps split: if_splits)

lemma vq_chain_step_wf:
  assumes "vq_chain_step vq next_idx buf = Some (r, buf', vq')" "buf_wf i out buf"
  shows "buf_wf i out buf' \<and> (\<forall>e. r = Inl e \<longrightarrow> e \<in> {NO_ERROR, ERR_NOT_VALID, ERR_TOO_BIG})"
  using assms
  by (auto simp: vq_chain_step_def Let_def buf_wf_def iovs_wf_push split: if_splits)
    (auto simp: iovs_wf_def iovs_push_def)

lemma vq_chain_wf:
  assumes "vq_chain vq next_idx buf = Some (ret, buf', vq')" "buf_wf i out buf"
  shows "buf_wf i out buf' \<and> ret \<in> {NO_ERROR, ERR_NOT_VALID, ERR_TOO_BIG} \<and>
    vb_head buf' = vb_head buf \<and> vq_num vq' = vq_num vq \<and> vq_region vq' = vq_region vq \<and>
    vq_used_ring vq' = vq_used_ring vq \<and> vq_used_idx vq' = vq_used_idx vq"
  using assms
proof (induction vq next_idx buf rule: vq_chain.induct)
  case (1 vq next_idx buf)
  from "1.prems"(1) obtain r b q where step: "vq_chain_step vq next_idx buf = Some (r, b, q)"
    by (subst (asm) vq_chain.simps) (auto split: option.splits)
  note fr = vq_chain_step_frame [OF step] and w = vq_chain_step_wf [OF step "1.prems"(2)]
  show ?case
  proof (cases r)
    case (Inl e)
    with "1.prems"(1) step fr w show ?thesis by (subst (asm) vq_chain.simps) auto
  next
    case (Inr nxt)
    with "1.prems"(1) step have "vq_chain q nxt b = Some (ret, buf', vq')"
      by (subst (asm) vq_chain.simps) simp
    from "1.IH" [OF step [unfolded Inr] refl refl refl this] fr w Inr show ?thesis
      by (metis sum.disc(2) sum.distinct(1))
  qed
qed

text \<open>With a ring that does not change under the walk, nothing stops it and the totals are the sums.\<close>

definition vq_stable :: "vring_mem \<Rightarrow> vqueue \<Rightarrow> bool" where
  "vq_stable M vq \<longleftrightarrow> vq_mem vq = (\<lambda>_. M)"

lemma vq_peek_stable: "vq_stable M vq \<Longrightarrow> vq_peek vq = M"
  by (simp add: vq_stable_def vq_peek_def)

lemma vq_stable_tick: "vq_stable M vq \<Longrightarrow> vq_stable M (vq_tick vq)"
  by (simp add: vq_stable_def vq_tick_def)

lemma iovs_sum_push:
  "iovs_wf n l \<Longrightarrow> vi_used l < n \<Longrightarrow> vi_len l = iovs_bytes l \<Longrightarrow>
   vi_len (iovs_push len addr len l) = iovs_bytes (iovs_push len addr len l)"
  by (simp add: iovs_bytes_push) (simp add: iovs_push_def)

lemma vq_chain_step_stable:
  assumes "vq_stable M vq" "buf_wf i out buf" "buf_sums buf"
  shows "\<exists>r buf' vq'. vq_chain_step vq next_idx buf = Some (r, buf', vq') \<and> vq_stable M vq' \<and> buf_sums buf'"
proof -
  note t1 = vq_stable_tick [OF assms(1)]
  note t2 = vq_stable_tick [OF t1]
  note t3 = vq_stable_tick [OF t2]
  note t4 = vq_stable_tick [OF t3]
  note t5 = vq_stable_tick [OF t4]
  note t6 = vq_stable_tick [OF t5]
  note t7 = vq_stable_tick [OF t6]
  note peek = t1 [THEN vq_peek_stable] t2 [THEN vq_peek_stable] t3 [THEN vq_peek_stable]
    t4 [THEN vq_peek_stable] t5 [THEN vq_peek_stable] t6 [THEN vq_peek_stable]
    assms(1) [THEN vq_peek_stable]
  have wf: "iovs_wf i (vb_in buf)" "iovs_wf out (vb_out buf)"
    "vi_cnt (vb_in buf) = i" "vi_cnt (vb_out buf) = out"
    using assms(2) by (simp_all add: buf_wf_def iovs_wf_def)
  show ?thesis
    using assms(1,3) t1 t7 iovs_sum_push [OF wf(1)] iovs_sum_push [OF wf(2)] wf(3,4)
    by (simp add: vq_chain_step_def Let_def peek buf_sums_def)
qed

lemma vq_chain_stable:
  assumes "vq_stable M vq" "buf_wf i out buf" "buf_sums buf"
  shows "\<exists>ret buf' vq'. vq_chain vq next_idx buf = Some (ret, buf', vq') \<and> buf_sums buf'"
  using assms
proof (induction vq next_idx buf rule: vq_chain.induct)
  case (1 vq next_idx buf)
  obtain r b q where step: "vq_chain_step vq next_idx buf = Some (r, b, q)" "vq_stable M q" "buf_sums b"
    using vq_chain_step_stable [OF "1.prems"] by blast
  note w = vq_chain_step_wf [OF step(1) "1.prems"(2)]
  show ?case
  proof (cases r)
    case (Inl e)
    with step show ?thesis by (subst vq_chain.simps) simp
  next
    case (Inr nxt)
    from "1.IH" [OF step(1) [unfolded Inr] refl refl refl step(2) _ step(3)] w
    show ?thesis using step Inr by (subst vq_chain.simps) simp
  qed
qed

section \<open>Mapping is undone\<close>

text \<open>A list of entries whose first \<open>i\<close> bases are the regions \<open>rs\<close>, mapped last to first.\<close>

definition bases :: "nat \<Rightarrow> vqueue_iovs \<Rightarrow> nat option list" where
  "bases i l = map vi_base (take i (vi_iovs l))"

lemma vq_unmap_below_live:
  assumes "i \<le> length (vi_iovs l)" "bases i l = map Some rs" "vm_live v = rev rs @ live"
  shows "vm_live (snd (vq_unmap_below i l v)) = live"
  using assms
proof (induction i l v arbitrary: rs rule: vq_unmap_below.induct)
  case (1 l v)
  then show ?case by (simp add: bases_def)
next
  case (2 i l v)
  then obtain rs' r where rs: "rs = rs' @ [r]" "bases i l = map Some rs'" "vi_base (vi_iovs l ! i) = Some r"
    by (cases rs rule: rev_cases) (auto simp: bases_def take_Suc_conv_app_nth)
  let ?l = "l\<lparr>vi_iovs := (vi_iovs l)[i := (vi_iovs l ! i)\<lparr>vi_base := None\<rparr>]\<rparr>"
  have "bases i ?l = map Some rs'" using rs(2) by (simp add: bases_def)
  with "2.IH" [of rs'] "2.prems" rs show ?case by (simp add: vmm_free_region_def)
qed

text \<open>The regions handed out are fresh.\<close>

definition vm_ok :: "vmspace \<Rightarrow> bool" where
  "vm_ok v \<longleftrightarrow> distinct (vm_live v) \<and> (\<forall>r\<in>set (vm_live v). r < vm_next v)"

lemma vmm_alloc_physical_result:
  assumes "vmm_alloc_physical v = (r, region, w)"
  shows "vm_pa_valid w = vm_pa_valid v \<and> (r = NO_ERROR \<longrightarrow> vm_live w = region # vm_live v) \<and>
    (r \<noteq> NO_ERROR \<longrightarrow> vm_live w = vm_live v) \<and> (vm_ok v \<longrightarrow> vm_ok w)"
  using assms
  by (auto simp: vmm_alloc_physical_def Let_def vm_ok_def less_Suc_eq split: list.splits if_splits)

lemma vmm_free_region_ok: "vm_ok v \<Longrightarrow> vm_ok (vmm_free_region r v)"
  by (auto simp: vm_ok_def vmm_free_region_def dest: notin_set_remove1)

lemma vq_unmap_below_ok: "vm_ok v \<Longrightarrow> vm_ok (snd (vq_unmap_below i l v))"
  by (induction i l v rule: vq_unmap_below.induct) (simp_all add: vmm_free_region_ok split: option.split)

lemma vqueue_map_loop_result:
  assumes "vqueue_map_loop i n l guest v = (ret, l', v')" "i + n \<le> length (vi_iovs l)"
    "bases i l = map Some rs" "vm_live v = rev rs @ live"
  shows "if ret = NO_ERROR then (\<exists>rs'. bases (i + n) l' = map Some rs' \<and> vm_live v' = rev rs' @ live) \<and>
      length (vi_iovs l') = length (vi_iovs l) \<and> vi_used l' = vi_used l \<and> vi_cnt l' = vi_cnt l
    else (\<forall>pa sz. vm_pa_valid v pa sz guest = NO_ERROR) \<longrightarrow> vm_live v' = live"
  using assms
proof (induction i n l guest v arbitrary: rs rule: vqueue_map_loop.induct)
  case (1 i l guest v)
  then show ?case by auto
next
  case (2 i n l guest v)
  let ?check = "vm_pa_valid v (vi_phys l ! i) (ROUNDUP (vi_sz (vi_iovs l ! i)) PAGE_SIZE) guest"
  let ?l = "l\<lparr>vi_iovs := (vi_iovs l)[i := (vi_iovs l ! i)\<lparr>vi_base := None\<rparr>]\<rparr>"
  obtain r region w where al: "vmm_alloc_physical v = (r, region, w)" by (metis prod_cases3)
  note w = vmm_alloc_physical_result [OF al]
  have b: "bases i ?l = map Some rs" "i \<le> length (vi_iovs ?l)"
    using "2.prems"(2,3) by (simp_all add: bases_def)
  show ?case
  proof (cases "?check = NO_ERROR \<and> r = NO_ERROR")
    case False
    obtain l2 v2 where un: "vq_unmap_below i ?l w = (l2, v2)" by (metis prod.exhaust)
    with vq_unmap_below_live [OF b(2,1), of w live] w "2.prems"(4)
    have "r \<noteq> NO_ERROR \<Longrightarrow> vm_live v2 = live" by simp
    with "2.prems"(1) al un False show ?thesis by (auto simp: Let_def err_simps split: if_splits)
  next
    case True
    let ?l2 = "?l\<lparr>vi_iovs := (vi_iovs ?l)[i := (vi_iovs ?l ! i)\<lparr>vi_base := Some region\<rparr>]\<rparr>"
    have "bases (Suc i) ?l2 = map Some (rs @ [region])"
      using "2.prems"(2,3) by (simp add: bases_def take_Suc_conv_app_nth)
    moreover have "vqueue_map_loop (Suc i) n ?l2 guest w = (ret, l', v')"
      using "2.prems"(1) al True by (simp add: Let_def err_simps)
    moreover have "Suc i + n \<le> length (vi_iovs ?l2)" "vm_live w = rev (rs @ [region]) @ live"
      using "2.prems"(2,4) w True by simp_all
    ultimately have "if ret = NO_ERROR
      then (\<exists>rs'. bases (Suc i + n) l' = map Some rs' \<and> vm_live v' = rev rs' @ live) \<and>
        length (vi_iovs l') = length (vi_iovs ?l2) \<and> vi_used l' = vi_used ?l2 \<and> vi_cnt l' = vi_cnt ?l2
      else (\<forall>pa sz. vm_pa_valid w pa sz guest = NO_ERROR) \<longrightarrow> vm_live v' = live"
      using "2.IH" [OF refl _ refl al [symmetric] refl _, where rs = "rs @ [region]"] True
      by (simp add: err_simps)
    then show ?thesis using w by (simp split: if_splits)
  qed
qed

lemma vqueue_map_loop_ok:
  "vm_ok v \<Longrightarrow> vm_ok (snd (snd (vqueue_map_loop i n l guest v)))"
proof (induction i n l guest v rule: vqueue_map_loop.induct)
  case (2 i n l guest v)
  obtain r region w where al: "vmm_alloc_physical v = (r, region, w)" by (metis prod_cases3)
  with vmm_alloc_physical_result [OF al] "2.prems" have w: "vm_ok w" by simp
  let ?l = "l\<lparr>vi_iovs := (vi_iovs l)[i := (vi_iovs l ! i)\<lparr>vi_base := None\<rparr>]\<rparr>"
  have "vm_ok (snd (vq_unmap_below i ?l w))" using w by (rule vq_unmap_below_ok)
  with "2.IH" [OF refl _ refl al [symmetric] refl refl _ w] "2.prems" al show ?case
    by (auto simp: Let_def err_simps split: prod.splits)
qed simp

lemma vqueue_unmap_loop_live:
  assumes "i + n \<le> length (vi_iovs l)" "map vi_base (take n (drop i (vi_iovs l))) = map Some rs"
  shows "\<exists>l' v'. vqueue_unmap_loop i n l v = Some (l', v') \<and> vm_live v' = foldl (\<lambda>xs r. remove1 r xs) (vm_live v) rs"
  using assms
proof (induction i n l v arbitrary: rs rule: vqueue_unmap_loop.induct)
  case (1 i l v)
  then show ?case by simp
next
  case (2 i n l v)
  then have i: "i < length (vi_iovs l)" by simp
  then have d: "drop i (vi_iovs l) = vi_iovs l ! i # drop (Suc i) (vi_iovs l)" by (rule Cons_nth_drop_Suc [symmetric])
  with "2.prems"(2) obtain r rs' where rs: "rs = r # rs'" "vi_base (vi_iovs l ! i) = Some r"
    "map vi_base (take n (drop (Suc i) (vi_iovs l))) = map Some rs'" by (cases rs) auto
  with "2.IH" [OF rs(2), of rs'] "2.prems"(1) show ?case by (simp add: vmm_free_region_def)
qed

lemma foldl_remove1_rev:
  "foldl (\<lambda>xs r. remove1 r xs) (rev rs @ live) rs = live" if "distinct (rev rs @ live)" for rs live :: "nat list"
  using that
proof (induction rs arbitrary: live)
  case (Cons r rs)
  then have "remove1 r (rev rs @ [r] @ live) = rev rs @ live"
    by (simp add: remove1_append_notin)
  with Cons show ?case by simp
qed simp

section \<open>Sizes\<close>

lemma and_not_mask: "unat (x AND NOT (mask 12) :: u64) = unat x div 4096 * 4096"
proof -
  have "x AND NOT (mask 12) = push_bit 12 (drop_bit 12 x)"
    by (rule bit_word_eqI) (auto simp: bit_simps)
  then have "unat (x AND NOT (mask 12)) = unat (push_bit 12 (drop_bit 12 x))" by simp
  also have "\<dots> = unat x div 4096 * 4096"
  proof -
    have "unat x < 2 ^ 64" using unsigned_less [of x] by simp
    then have t: "take_bit 64 (unat x) = unat x" by (simp add: take_bit_nat_eq_self)
    have "unat x div 4096 * 4096 < 2 ^ 64" using \<open>unat x < 2 ^ 64\<close> by (meson div_times_less_eq_dividend le_less_trans)
    moreover have "unat (push_bit 12 (drop_bit 12 x)) = take_bit 64 (push_bit 12 (drop_bit 12 (unat x)))"
      by (simp only: unsigned_push_bit_eq unsigned_drop_bit_eq len_of_numeral_defs) (simp add: t)
    ultimately show ?thesis
      by (simp add: drop_bit_eq_div push_bit_eq_mult take_bit_eq_mod)
  qed
  finally show ?thesis .
qed

section \<open>Properties\<close>

lemma vq_rearm_frame:
  assumes "vq_rearm vq = (none, vq')"
  shows "vq_num vq' = vq_num vq \<and> vq_region vq' = vq_region vq \<and> vq_mem vq' = vq_mem vq \<and>
    vq_used_ring vq' = vq_used_ring vq \<and> vq_used_idx vq' = vq_used_idx vq \<and>
    vq_last_avail_idx vq' = vq_last_avail_idx vq"
  using assms by (auto simp: vq_rearm_def Let_def frame_simps split: if_splits)

lemma vq_next_head_frame:
  assumes "vq_next_head vq = Some (r, vq')"
  shows "vq_num vq' = vq_num vq \<and> vq_region vq' = vq_region vq \<and> vq_mem vq' = vq_mem vq \<and>
    vq_used_ring vq' = vq_used_ring vq \<and> vq_used_idx vq' = vq_used_idx vq \<and>
    (\<forall>e. r = Inl e \<longrightarrow> e = ERR_NOT_ENOUGH_BUFFER \<and> vq_last_avail_idx vq' = vq_last_avail_idx vq) \<and>
    (\<forall>h. r = Inr h \<longrightarrow> vq_last_avail_idx vq' = vq_last_avail_idx vq + 1)"
  using assms vq_rearm_frame [of "vq_tick (vq_tick vq)"]
  by (cases "vq_rearm (vq_tick (vq_tick vq))")
    (auto simp: vq_next_head_def Let_def frame_simps split: if_splits)

lemma vqueue_get_avail_cases:
  assumes "vqueue_get_avail_buf vq buf = Some (ret, buf', vq')"
  shows "(ret = ERR_CHANNEL_CLOSED \<and> buf' = buf \<and> vq' = vq) \<or>
    (vq_next_head vq = Some (Inl ret, vq') \<and> buf' = buf) \<or>
    (\<exists>q b. vq_next_head vq = Some (Inr (vb_head b), q) \<and> vq_chain q (vb_head b) b = Some (ret, buf', vq') \<and>
       unat (vb_head b) < vq_num vq \<and> vq_region vq \<noteq> None \<and>
       vb_in b = iovs_reset (vb_in buf) \<and> vb_out b = iovs_reset (vb_out buf))"
proof (cases "vq_region vq = None")
  case True
  with assms show ?thesis by (simp add: vqueue_get_avail_buf_def)
next
  case False
  with assms obtain r q where h: "vq_next_head vq = Some (r, q)"
    by (auto simp: vqueue_get_avail_buf_def split: option.splits)
  show ?thesis
  proof (cases r)
    case (Inl e)
    with h assms False show ?thesis by (simp add: vqueue_get_avail_buf_def)
  next
    case (Inr nxt)
    let ?b = "buf\<lparr>vb_head := nxt, vb_in := iovs_reset (vb_in buf), vb_out := iovs_reset (vb_out buf)\<rparr>"
    from h Inr assms False vq_next_head_frame [OF h]
    have "vq_chain q (vb_head ?b) ?b = Some (ret, buf', vq') \<and> unat (vb_head ?b) < vq_num vq"
      by (simp add: vqueue_get_avail_buf_def split: if_splits)
    with h Inr False show ?thesis by (intro disjI2 exI [of _ q] exI [of _ ?b]) simp
  qed
qed

text \<open>
  Property C12.  Whatever the normal world writes into the available ring and the descriptors, before or during
  the walk, \<^verbatim>\<open>vqueue_get_avail_buf\<close> keeps the caller's descriptor arrays within their bounds, returns
  one of five codes, leaves the used ring alone, and on success hands out a head index inside the ring.
\<close>

theorem vqueue_get_avail_buf_bounded:
  assumes "vqueue_get_avail_buf vq buf = Some (ret, buf', vq')" "buf_wf i out buf"
  shows "buf_wf i out buf' \<and>
    ret \<in> {NO_ERROR, ERR_NOT_VALID, ERR_TOO_BIG, ERR_NOT_ENOUGH_BUFFER, ERR_CHANNEL_CLOSED} \<and>
    (ret = NO_ERROR \<longrightarrow> unat (vb_head buf') < vq_num vq \<and> vq_region vq' \<noteq> None) \<and>
    vq_num vq' = vq_num vq \<and> vq_used_ring vq' = vq_used_ring vq \<and> vq_used_idx vq' = vq_used_idx vq"
  using vqueue_get_avail_cases [OF assms(1)]
proof (elim disjE exE conjE)
  assume "vq_next_head vq = Some (Inl ret, vq')" "buf' = buf"
  with vq_next_head_frame [OF this(1)] assms(2) show ?thesis by (simp add: err_simps)
next
  fix q b
  assume a: "vq_next_head vq = Some (Inr (vb_head b), q)" "vq_chain q (vb_head b) b = Some (ret, buf', vq')"
    "unat (vb_head b) < vq_num vq" "vq_region vq \<noteq> None"
    "vb_in b = iovs_reset (vb_in buf)" "vb_out b = iovs_reset (vb_out buf)"
  have "buf_wf i out b" using assms(2) a(5,6) by (simp add: buf_wf_def iovs_wf_reset)
  from vq_chain_wf [OF a(2) this] vq_next_head_frame [OF a(1)] a show ?thesis by auto
qed (use assms(2) in \<open>auto simp: err_simps\<close>)

definition demo_iovs :: vqueue_iovs where
  "demo_iovs = \<lparr>vi_cnt = 1, vi_used = 0, vi_len = 0, vi_phys = [0], vi_iovs = [\<lparr>vi_base = None, vi_sz = 0\<rparr>]\<rparr>"

definition demo_vbuf :: vqueue_buf where
  "demo_vbuf = \<lparr>vb_head = 0, vb_in = demo_iovs, vb_out = demo_iovs\<rparr>"

definition demo_desc :: "u32 \<Rightarrow> vring_desc" where
  "demo_desc len = \<lparr>d_addr = 4096, d_len = len, d_flags = 0, d_next = 0\<rparr>"

definition demo_vring :: "u32 \<Rightarrow> vring_mem" where
  "demo_vring len = \<lparr>av_idx = 1, av_ring = (\<lambda>_. 0), vr_desc = (\<lambda>_. demo_desc len)\<rparr>"

definition demo_vq :: "(nat \<Rightarrow> vring_mem) \<Rightarrow> vqueue" where
  "demo_vq mem = \<lparr>vq_id = 0, vq_num = 2, vq_region = Some 0, vq_vring_sz = 4096, vq_last_avail_idx = 0,
     vq_avail_event = True, vq_used_flags = 0, vq_used_idx = 0, vq_used_ring = [(0, 0), (0, 0)],
     vq_mem = mem, vq_clock = 0\<rparr>"

lemmas demo_vq_defs = demo_vq_def demo_vring_def demo_desc_def demo_vbuf_def demo_iovs_def

lemmas get_avail_defs = vqueue_get_avail_buf_def vq_next_head_def vq_rearm_def vq_chain.simps vq_chain_step_def Let_def vq_peek_def vq_tick_def
  iovs_push_def iovs_reset_def VRING_DESC_F_NEXT_def VRING_DESC_F_WRITE_def VRING_USED_F_NO_NOTIFY_def

lemma demo_get_avail:
  "vqueue_get_avail_buf (demo_vq (\<lambda>_. demo_vring 8)) demo_vbuf \<noteq> None"
  by (simp add: get_avail_defs demo_vq_defs)

lemma demo_vbuf_wf: "buf_wf 1 1 demo_vbuf"
  by (simp add: demo_vq_defs buf_wf_def iovs_wf_def)

theorem vqueue_get_avail_buf_bounded_witness:
  "\<exists>ret buf' vq'. vqueue_get_avail_buf (demo_vq (\<lambda>_. demo_vring 8)) demo_vbuf = Some (ret, buf', vq') \<and>
     buf_wf 1 1 buf'"
proof -
  obtain ret buf' vq' where
    "vqueue_get_avail_buf (demo_vq (\<lambda>_. demo_vring 8)) demo_vbuf = Some (ret, buf', vq')"
    using demo_get_avail by (metis not_None_eq prod_cases3)
  with vqueue_get_avail_buf_bounded [OF this demo_vbuf_wf] show ?thesis by blast
qed

lemma vq_chain_keeps:
  "vq_chain vq next_idx buf = Some (ret, buf', vq') \<Longrightarrow> vq_last_avail_idx vq' = vq_last_avail_idx vq \<and>
    vb_head buf' = vb_head buf \<and> vq_num vq' = vq_num vq \<and> vq_region vq' = vq_region vq \<and>
    vq_used_ring vq' = vq_used_ring vq \<and> vq_used_idx vq' = vq_used_idx vq"
proof (induction vq next_idx buf rule: vq_chain.induct)
  case (1 vq next_idx buf)
  from "1.prems" obtain r b q where step: "vq_chain_step vq next_idx buf = Some (r, b, q)"
    by (subst (asm) vq_chain.simps) (auto split: option.splits)
  show ?case
  proof (cases r)
    case (Inl e)
    with "1.prems" step vq_chain_step_frame [OF step] show ?thesis by (subst (asm) vq_chain.simps) auto
  next
    case (Inr nxt)
    with "1.prems" step have "vq_chain q nxt b = Some (ret, buf', vq')"
      by (subst (asm) vq_chain.simps) simp
    from "1.IH" [OF step [unfolded Inr] refl refl refl this] vq_chain_step_frame [OF step]
    show ?thesis by simp
  qed
qed

lemma vq_next_head_stable:
  assumes "vq_stable M vq" "vq_num vq \<noteq> 0" "av_idx M \<noteq> vq_last_avail_idx vq"
    "unat (av_idx M - vq_last_avail_idx vq) \<le> unat (of_nat (vq_num vq) :: u16)"
  shows "\<exists>q. vq_next_head vq = Some (Inr (av_ring M (unat (vq_last_avail_idx vq) mod vq_num vq)), q) \<and>
    vq_stable M q"
  using assms by (auto simp: vq_next_head_def Let_def vq_stable_def vq_peek_def vq_tick_def)

text \<open>
  When the normal world leaves the rings alone during the call and has made a buffer available whose
  head is inside the ring, \<^verbatim>\<open>vqueue_get_avail_buf\<close> returns, consumes exactly one available entry, and the
  totals it reports are the sums of the descriptor lengths it recorded.
\<close>


theorem vqueue_get_avail_buf_stable:
  assumes "vq_stable M vq" "vq_region vq \<noteq> None" "buf_wf i out buf"
    "av_idx M \<noteq> vq_last_avail_idx vq"
    "unat (av_idx M - vq_last_avail_idx vq) \<le> unat (of_nat (vq_num vq) :: u16)"
    "head = av_ring M (unat (vq_last_avail_idx vq) mod vq_num vq)" "unat head < vq_num vq"
  shows "\<exists>ret buf' vq'. vqueue_get_avail_buf vq buf = Some (ret, buf', vq') \<and> vb_head buf' = head \<and>
    vq_last_avail_idx vq' = vq_last_avail_idx vq + 1 \<and>
    vi_len (vb_in buf') = iovs_bytes (vb_in buf') \<and> vi_len (vb_out buf') = iovs_bytes (vb_out buf')"
proof -
  let ?b = "buf\<lparr>vb_head := head, vb_in := iovs_reset (vb_in buf), vb_out := iovs_reset (vb_out buf)\<rparr>"
  have "vq_num vq \<noteq> 0" using assms(7) by simp
  from vq_next_head_stable [OF assms(1) this assms(4,5)]
  obtain q where q: "vq_next_head vq = Some (Inr head, q)" "vq_stable M q" using assms(6) by blast
  note fr = vq_next_head_frame [OF q(1)]
  have b: "buf_wf i out ?b" "buf_sums ?b"
    using assms(3)
    by (simp_all add: buf_wf_def iovs_wf_reset) (simp add: buf_sums_def iovs_reset_def iovs_bytes_def)
  from vq_chain_stable [OF q(2) b] obtain ret buf' vq' where
    ch: "vq_chain q head ?b = Some (ret, buf', vq')" "buf_sums buf'" by blast
  with vq_chain_wf [OF ch(1) b(1)] vq_chain_keeps [OF ch(1)] q(1) fr assms(2,7) show ?thesis
    by (auto simp: vqueue_get_avail_buf_def buf_sums_def)
qed

theorem vqueue_get_avail_buf_stable_witness:
  "\<exists>ret buf' vq'. vqueue_get_avail_buf (demo_vq (\<lambda>_. demo_vring 8)) demo_vbuf = Some (ret, buf', vq') \<and>
     vb_head buf' = 0 \<and> vq_last_avail_idx vq' = 1 \<and> vi_len (vb_in buf') = iovs_bytes (vb_in buf')"
proof -
  have "vq_stable (demo_vring 8) (demo_vq (\<lambda>_. demo_vring 8))" by (simp add: vq_stable_def demo_vq_def)
  from vqueue_get_avail_buf_stable [OF this _ demo_vbuf_wf, of 0]
  show ?thesis by (fastforce simp: demo_vq_defs)
qed

text \<open>
  The length of a descriptor is read twice.  A normal world that changes it in between makes
  \<^verbatim>\<open>vqueue_get_avail_buf\<close> succeed with a total that differs from the sum of the entries it recorded.
\<close>

theorem vqueue_get_avail_buf_double_fetch:
  "\<exists>mem ret buf' vq'. vqueue_get_avail_buf (demo_vq mem) demo_vbuf = Some (ret, buf', vq') \<and>
     ret = NO_ERROR \<and> vi_len (vb_in buf') = 100000 \<and> iovs_bytes (vb_in buf') = 8"
  by (rule exI [of _ "\<lambda>t. demo_vring (if t < 7 then 8 else 100000)"])
    (simp add: get_avail_defs demo_vq_defs iovs_bytes_def err_simps)

text \<open>
  Property C13.  A buffer that \<^verbatim>\<open>vqueue_get_avail_buf\<close> handed out can be given back: \<^verbatim>\<open>vqueue_add_buf\<close>
  succeeds, writes the head and the length into exactly the next slot of the used ring and advances its index by one.
\<close>

theorem vqueue_add_buf_returns_buffer:
  assumes "vqueue_get_avail_buf vq buf = Some (NO_ERROR, buf', vq')" "length (vq_used_ring vq) = vq_num vq"
  shows "\<exists>vq''. vqueue_add_buf vq' buf' len = (NO_ERROR, vq'') \<and> vq_used_idx vq'' = vq_used_idx vq + 1 \<and>
    vq_used_ring vq'' ! (unat (vq_used_idx vq) mod vq_num vq) = (ucast (vb_head buf'), len) \<and>
    (\<forall>i. i < vq_num vq \<and> i \<noteq> unat (vq_used_idx vq) mod vq_num vq \<longrightarrow> vq_used_ring vq'' ! i = vq_used_ring vq ! i)"
proof -
  have "\<exists>q b. vq_next_head vq = Some (Inr (vb_head b), q) \<and> vq_chain q (vb_head b) b = Some (NO_ERROR, buf', vq') \<and>
       unat (vb_head b) < vq_num vq \<and> vq_region vq \<noteq> None"
    using vqueue_get_avail_cases [OF assms(1)]
    by (auto simp: err_simps dest: vq_next_head_frame)
  then obtain q b where a: "vq_next_head vq = Some (Inr (vb_head b), q)"
    "vq_chain q (vb_head b) b = Some (NO_ERROR, buf', vq')" "unat (vb_head b) < vq_num vq" "vq_region vq \<noteq> None"
    by blast
  have fr: "vq_num vq' = vq_num vq" "vq_region vq' = vq_region vq" "vq_used_ring vq' = vq_used_ring vq"
    "vq_used_idx vq' = vq_used_idx vq" "vb_head buf' = vb_head b"
    using vq_chain_keeps [OF a(2)] vq_next_head_frame [OF a(1)] by simp_all
  then have "unat (vq_used_idx vq) mod vq_num vq < length (vq_used_ring vq)" using a(3) assms(2) by simp
  then show ?thesis using a(3,4) fr by (simp add: vqueue_add_buf_def)
qed

theorem vqueue_add_buf_returns_buffer_witness:
  "\<exists>buf' vq' vq''. vqueue_get_avail_buf (demo_vq (\<lambda>_. demo_vring 8)) demo_vbuf = Some (NO_ERROR, buf', vq') \<and>
     vqueue_add_buf vq' buf' 5 = (NO_ERROR, vq'') \<and> vq_used_ring vq'' ! 0 = (0, 5)"
proof -
  obtain buf' vq' where g: "vqueue_get_avail_buf (demo_vq (\<lambda>_. demo_vring 8)) demo_vbuf = Some (NO_ERROR, buf', vq')"
    "vb_head buf' = 0"
    by (simp add: get_avail_defs demo_vq_defs err_simps)
  have "length (vq_used_ring (demo_vq (\<lambda>_. demo_vring 8))) = vq_num (demo_vq (\<lambda>_. demo_vring 8))"
    by (simp add: demo_vq_def)
  from vqueue_add_buf_returns_buffer [OF g(1) this, of 5] g show ?thesis by (auto simp: demo_vq_def)
qed

definition demo_vm :: vmspace where
  "demo_vm = \<lparr>vm_live = [], vm_next = 0, vm_ret = [], vm_pa_valid = trusty_hyp_check_guest_pa_valid\<rparr>"

text \<open>
  Unmapping what \<^verbatim>\<open>vqueue_map_iovs\<close> mapped does not trip over a missing base and leaves the kernel
  address space with exactly the mappings it had before.
\<close>

theorem vqueue_map_unmap:
  assumes "vqueue_map_iovs l guest v = Some (NO_ERROR, l', v')" "iovs_wf n l" "vm_ok v"
  shows "\<exists>l'' v''. vqueue_unmap_iovs l' v' = Some (l'', v'') \<and> vm_live v'' = vm_live v"
proof -
  have len: "0 + vi_used l \<le> length (vi_iovs l)" using assms(2) by (simp add: iovs_wf_def)
  have m: "vqueue_map_loop 0 (vi_used l) l guest v = (NO_ERROR, l', v')"
    using assms(1) by (auto simp: vqueue_map_iovs_def ASSERT_def split: if_splits)
  from vqueue_map_loop_result [OF m len, of "[]" "vm_live v"]
  obtain rs where rs: "bases (vi_used l') l' = map Some rs" "vm_live v' = rev rs @ vm_live v"
    "length (vi_iovs l') = length (vi_iovs l)" "vi_used l' = vi_used l" "vi_cnt l' = vi_cnt l"
    by (auto simp: bases_def)
  from vqueue_map_loop_ok [OF assms(3), of 0 "vi_used l" l guest] m
  have "distinct (rev rs @ vm_live v)" using rs(2) by (simp add: vm_ok_def)
  from foldl_remove1_rev [OF this] vqueue_unmap_loop_live [of 0 "vi_used l'" l' rs v'] rs assms(2)
  show ?thesis by (auto simp: vqueue_unmap_iovs_def ASSERT_def bases_def iovs_wf_def)
qed

theorem vqueue_map_unmap_witness:
  "\<exists>l v l' v'. vqueue_map_iovs (demo_iovs\<lparr>vi_used := 1\<rparr>) 0 demo_vm = Some (NO_ERROR, l, v) \<and>
     vm_live v = [0] \<and> vqueue_unmap_iovs l v = Some (l', v') \<and> vm_live v' = []"
proof -
  let ?l = "demo_iovs\<lparr>vi_used := 1\<rparr>"
  obtain l v where m: "vqueue_map_iovs ?l 0 demo_vm = Some (NO_ERROR, l, v)" "vm_live v = [0]"
    by (simp add: vqueue_map_iovs_def ASSERT_def demo_iovs_def demo_vm_def Let_def
        vmm_alloc_physical_def trusty_hyp_check_guest_pa_valid_def err_simps)
  have "iovs_wf 1 ?l" by (simp add: iovs_wf_def demo_iovs_def)
  moreover have "vm_ok demo_vm" by (simp add: vm_ok_def demo_vm_def)
  ultimately show ?thesis using vqueue_map_unmap [OF m(1)] m by (auto simp: demo_vm_def)
qed

text \<open>
  When an allocation fails, \<^verbatim>\<open>vqueue_map_iovs\<close> takes back every mapping it made before it returns
  the error, provided that the hypervisor's check accepts every address.
\<close>

theorem vqueue_map_failure_unmaps:
  assumes "vqueue_map_iovs l guest v = Some (ret, l', v')" "ret \<noteq> NO_ERROR" "iovs_wf n l"
    "\<forall>pa sz. vm_pa_valid v pa sz guest = NO_ERROR"
  shows "vm_live v' = vm_live v"
proof -
  have len: "0 + vi_used l \<le> length (vi_iovs l)" using assms(3) by (simp add: iovs_wf_def)
  have m: "vqueue_map_loop 0 (vi_used l) l guest v = (ret, l', v')"
    using assms(1) by (auto simp: vqueue_map_iovs_def ASSERT_def split: if_splits)
  from vqueue_map_loop_result [OF m len, of "[]" "vm_live v"] assms(2,4)
  show ?thesis by (simp add: bases_def)
qed

definition demo_iovs2 :: vqueue_iovs where
  "demo_iovs2 = \<lparr>vi_cnt = 2, vi_used = 2, vi_len = 16, vi_phys = [4096, 8192],
     vi_iovs = [\<lparr>vi_base = None, vi_sz = 8\<rparr>, \<lparr>vi_base = None, vi_sz = 8\<rparr>]\<rparr>"

lemma map_demo_iovs2:
  "vqueue_map_iovs demo_iovs2 guest v = Some (vqueue_map_loop 0 (Suc (Suc 0)) demo_iovs2 guest v)"
  by (simp add: vqueue_map_iovs_def ASSERT_def demo_iovs2_def numeral_2_eq_2)

lemmas map_iovs_eval = demo_iovs2_def demo_vm_def Let_def
  vmm_alloc_physical_def vmm_free_region_def trusty_hyp_check_guest_pa_valid_def err_simps

theorem vqueue_map_failure_unmaps_witness:
  "\<exists>ret l v. vqueue_map_iovs demo_iovs2 0 (demo_vm\<lparr>vm_ret := [0, ERR_NO_MEMORY]\<rparr>) = Some (ret, l, v) \<and>
     ret = ERR_NO_MEMORY \<and> vm_live v = []"
proof -
  let ?v = "demo_vm\<lparr>vm_ret := [0, ERR_NO_MEMORY]\<rparr>"
  obtain l v where m: "vqueue_map_iovs demo_iovs2 0 ?v = Some (ERR_NO_MEMORY, l, v)"
    unfolding map_demo_iovs2 by (simp add: map_iovs_eval)
  have "iovs_wf 2 demo_iovs2" by (simp add: iovs_wf_def demo_iovs2_def)
  from vqueue_map_failure_unmaps [OF m _ this] m show ?thesis
    by (simp add: err_simps demo_vm_def trusty_hyp_check_guest_pa_valid_def)
qed

text \<open>
  When instead the hypervisor's check denies a later address, the mappings of the earlier ones stay:
  the error return of that check skips the loop that unmaps them.
\<close>

theorem vqueue_map_denied_leaks:
  "\<exists>v l v'. vm_live v = [] \<and> vqueue_map_iovs demo_iovs2 0 v = Some (ERR_ACCESS_DENIED, l, v') \<and> vm_live v' = [0]"
  by (rule exI [of _ "demo_vm\<lparr>vm_pa_valid := (\<lambda>pa sz g. if pa = 8192 then ERR_ACCESS_DENIED else NO_ERROR)\<rparr>"])
    (unfold map_demo_iovs2, simp add: map_iovs_eval)

lemma page_mask: "(4096 - 1 :: u64) = mask 12"
  by (simp add: mask_eq_exp_minus_1)

lemma page_round_down:
  "(x + 4096 - 1) AND NOT (4096 - 1) = (x + 4095) AND NOT (mask 12 :: u64)"
  by (simp add: mask_eq_exp_minus_1 algebra_simps)

lemma vring_layout:
  assumes "unat num \<le> 2 ^ 15" "unat p mod 4096 = 0" "unat p + 2 ^ 20 \<le> 2 ^ 64"
  defines "n \<equiv> unat num"
  shows "unat (vring_avail_at num p) = unat p + 16 * n" (is ?avail)
    and "unat (vring_used_at num p 4096) = unat p + (18 * n + 4101) div 4096 * 4096" (is ?used)
    and "unat (vring_size num 4096) = (18 * n + 4101) div 4096 * 4096 + 6 + 8 * n" (is ?size)
proof -
  have n: "n \<le> 32768" "unat (ucast num :: u64) = n"
    using assms(1) unsigned_less [of num] by (simp_all add: n_def unsigned_ucast_eq take_bit_nat_eq_self)
  show ?avail
    using n assms(3) by (simp add: vring_avail_at_def unat_word_ariths)
  have "unat (p + 16 * ucast num + 4 + 2 * ucast num + 2 + 4095) = unat p + (18 * n + 4101)"
    using n assms(3) by (simp add: unat_word_ariths mod_simps)
  then have "unat (vring_used_at num p 4096) = (unat p + (18 * n + 4101)) div 4096 * 4096"
    by (simp only: vring_used_at_def vring_avail_at_def page_round_down and_not_mask)
  also have "\<dots> = unat p + (18 * n + 4101) div 4096 * 4096"
    using assms(2) by (auto simp: mod_eq_0_iff_dvd elim!: dvdE)
  finally show ?used .
  have "unat (3 + num) = n + 3" using n(1) by (simp add: n_def unat_word_ariths)
  then have n3: "unat (ucast (3 + num) :: u64) = n + 3" using n(1) by (simp add: unsigned_ucast_eq take_bit_nat_eq_self)
  then have "unat (16 * ucast num + 2 * ucast (3 + num) + 4095 :: u64) = 18 * n + 4101"
    using n by (simp add: unat_word_ariths mod_simps)
  then have "unat ((16 * ucast num + 2 * ucast (3 + num) + 4096 - 1) AND NOT (4096 - 1) :: u64) =
      (18 * n + 4101) div 4096 * 4096"
    by (simp only: page_round_down and_not_mask)
  moreover have "(18 * n + 4101) div 4096 * 4096 \<le> 18 * n + 4101" by (rule div_times_less_eq_dividend)
  ultimately show ?size
    using n by (simp only: vring_size_def) (simp add: unat_word_ariths unsigned_ucast_eq take_bit_nat_eq_self mod_simps)
qed

lemma le_ROUNDUP: "0 < n \<Longrightarrow> x \<le> ROUNDUP x n"
  unfolding ROUNDUP_def using div_mult_mod_eq [of "x + n - 1" n] mod_less_divisor [of n "x + n - 1"] by linarith

lemma vqueue_init_ok:
  assumes "vqueue_init vq qid paddr num align guest v = (NO_ERROR, vq', v')"
  shows "vq_num vq' = unat num \<and> vq_vring_sz vq' = unat (vring_size num align) \<and> vq_region vq' = Some (vm_next v) \<and>
    vm_pa_valid v paddr (ROUNDUP (vq_vring_sz vq') PAGE_SIZE) guest = NO_ERROR"
  using assms
  by (auto simp: vqueue_init_def Let_def vmm_alloc_physical_def split: if_splits list.splits prod.splits)

text \<open>
  For every ring of at most \<^verbatim>\<open>2^15\<close> entries (the limit of the virtio format) the mapping that
  \<^verbatim>\<open>vqueue_init\<close> makes covers the whole ring: the descriptors end where the available ring starts, that one
  ends before the used ring, and the last byte of the used ring is inside the mapped pages.
\<close>

theorem vqueue_init_covers_ring:
  assumes "vqueue_init vq qid paddr num 4096 guest v = (NO_ERROR, vq', v')"
    "unat num \<le> 2 ^ 15" "unat base mod 4096 = 0" "unat base + 2 ^ 20 \<le> 2 ^ 64"
  shows "unat (vring_avail_at num base) = unat base + 16 * vq_num vq' \<and>
    unat (vring_avail_at num base) + 2 * 3 + 2 * vq_num vq' \<le> unat (vring_used_at num base 4096) \<and>
    unat (vring_used_at num base 4096) + 2 * 3 + 8 * vq_num vq' \<le>
      unat base + ROUNDUP (vq_vring_sz vq') PAGE_SIZE"
proof -
  let ?n = "unat num"
  note lay = vring_layout [OF assms(2,3,4)]
  have "18 * ?n + 6 \<le> (18 * ?n + 4101) div 4096 * 4096" by linarith
  moreover have "vq_vring_sz vq' \<le> ROUNDUP (vq_vring_sz vq') PAGE_SIZE"
    by (rule le_ROUNDUP) (simp add: PAGE_SIZE_def)
  ultimately show ?thesis using lay vqueue_init_ok [OF assms(1)] by simp
qed

theorem vqueue_init_covers_ring_witness:
  "\<exists>vq v. vqueue_init (demo_vq (\<lambda>_. demo_vring 8)) 0 4096 32 4096 0 demo_vm = (NO_ERROR, vq, v) \<and>
     unat (vring_used_at 32 8192 4096) + 2 * 3 + 8 * vq_num vq \<le> 8192 + ROUNDUP (vq_vring_sz vq) PAGE_SIZE"
proof -
  obtain vq v where i: "vqueue_init (demo_vq (\<lambda>_. demo_vring 8)) 0 4096 32 4096 0 demo_vm = (NO_ERROR, vq, v)"
    by (simp add: vqueue_init_def Let_def demo_vm_def vmm_alloc_physical_def
        trusty_hyp_check_guest_pa_valid_def err_simps)
  from vqueue_init_covers_ring [OF i, of 8192] i show ?thesis by simp
qed

text \<open>
  The number of entries comes from the normal world and the size is computed on 64 bits but returned
  on 32: for a large ring \<^verbatim>\<open>vqueue_init\<close> succeeds with two mapped pages under a ring whose descriptor
  table alone takes more than two gigabytes.
\<close>

theorem vqueue_init_size_wraps:
  "\<exists>vq v. vqueue_init (demo_vq (\<lambda>_. demo_vring 8)) 0 4096 165191050 4096 0 demo_vm = (NO_ERROR, vq, v) \<and>
     ROUNDUP (vq_vring_sz vq) PAGE_SIZE \<le> 8192 \<and> 2 ^ 31 < 16 * vq_num vq"
  by (simp add: vqueue_init_def Let_def demo_vm_def vmm_alloc_physical_def vring_size_def ROUNDUP_def PAGE_SIZE_def
        trusty_hyp_check_guest_pa_valid_def err_simps)

end
