(* ===== verification/Lifetime.thy ===== *)
theory Lifetime
  imports Ipc
begin

text \<open>
  Object lifetime in the kernel IPC.  The invariant \<open>kinv\<close> says what every reference in the heap
  stands for: a channel's reference list holds exactly one reference for an open handle, one for a
  list node, one for each channel that names it as its peer, and the references the running operation
  holds; a port's count is the number of its open handles, of its pending connections, and of its
  place in the port list.  Every operation keeps it, and under it none of the assertions of the
  destructors, of the list primitives and of the reference lists can fail.

  \<open>ext hp\<close> counts the references to the handle \<open>hp\<close> held outside the heap (handle tables, handle
  lists, kernel clients and running operations); \<open>T\<close> are the channel references held by the running
  operation.
\<close>

section \<open>The invariant\<close>

definition pr :: "kern \<Rightarrow> nat \<Rightarrow> nat option" where
  "pr k c = (case k_chans k c of None \<Rightarrow> None | Some ch \<Rightarrow> c_peer ch)"

definition st :: "kern \<Rightarrow> nat \<Rightarrow> ipc_chan_state option" where
  "st k c = map_option c_state (k_chans k c)"

definition nd :: "kern \<Rightarrow> nat \<Rightarrow> chan_list option" where
  "nd k c = (case k_chans k c of None \<Rightarrow> None | Some ch \<Rightarrow> c_node ch)"

definition pend :: "kern \<Rightarrow> nat \<Rightarrow> nat list" where
  "pend k p = (case k_ports k p of None \<Rightarrow> [] | Some po \<Rightarrow> p_pending_list po)"

text \<open>The state of the other end while a connection stands.\<close>

fun mate :: "ipc_chan_state \<Rightarrow> ipc_chan_state option" where
  "mate IPC_CHAN_STATE_ACCEPTING = Some IPC_CHAN_STATE_CONNECTING"
| "mate IPC_CHAN_STATE_CONNECTING = Some IPC_CHAN_STATE_ACCEPTING"
| "mate IPC_CHAN_STATE_CONNECTED = Some IPC_CHAN_STATE_CONNECTED"
| "mate _ = None"

type_synonym exts = "hptr \<Rightarrow> nat"
type_synonym floats = "(nat \<times> ref_node) set"

definition held :: "floats \<Rightarrow> nat \<Rightarrow> bool" where
  "held T c \<longleftrightarrow> (\<exists>r. (c, r) \<in> T)"

definition owned :: "exts \<Rightarrow> kern \<Rightarrow> nat \<Rightarrow> ipc_chan \<Rightarrow> ref_node set" where
  "owned ext k c ch =
     (if 0 < ext (HChan c) then {REF_HANDLE} else {}) \<union> (if c_node ch \<noteq> None then {REF_NODE} else {})
     \<union> REF_PEER ` {d. pr k d = Some c}"

definition refs_ok :: "exts \<Rightarrow> floats \<Rightarrow> kern \<Rightarrow> nat \<Rightarrow> ipc_chan \<Rightarrow> bool" where
  "refs_ok ext T k c ch \<longleftrightarrow>
     distinct (c_refs ch) \<and> c_refs ch \<noteq> [] \<and>
     set (c_refs ch) = owned ext k c ch \<union> {r. (c, r) \<in> T} \<and>
     owned ext k c ch \<inter> {r. (c, r) \<in> T} = {} \<and>
     h_refcnt (c_handle ch) = int (ext (HChan c)) \<and>
     (c_peer ch \<noteq> None \<longrightarrow> 0 < ext (HChan c) \<or> c_node ch \<noteq> None \<or> held T c) \<and>
     (c_node ch = Some WAITING_LIST \<longrightarrow> 0 < ext (HChan c) \<or> held T c) \<and>
     ((\<exists>p. c_node ch = Some (PENDING_LIST p)) \<longrightarrow> ext (HChan c) = 0)"

definition link_ok :: "kern \<Rightarrow> nat \<Rightarrow> ipc_chan \<Rightarrow> bool" where
  "link_ok k c ch \<longleftrightarrow>
     (\<forall>d. c_peer ch = Some d \<longrightarrow>
        d \<noteq> c \<and> (pr k d = None \<or> pr k d = Some c) \<and>
        (\<exists>s. st k d = Some s \<and> s \<noteq> IPC_CHAN_STATE_WAITING_FOR_PORT \<and> s \<noteq> IPC_CHAN_STATE_INVALID)) \<and>
     (\<forall>s. mate (c_state ch) = Some s \<longrightarrow>
        c_msg_queue ch \<noteq> None \<and> (\<exists>d. c_peer ch = Some d \<and> pr k d = Some c \<and> st k d = Some s)) \<and>
     (c_state ch = IPC_CHAN_STATE_WAITING_FOR_PORT \<or> c_state ch = IPC_CHAN_STATE_INVALID \<longrightarrow> c_peer ch = None)"

definition unsettled :: "ipc_chan_state \<Rightarrow> bool" where
  "unsettled s \<longleftrightarrow> s = IPC_CHAN_STATE_ACCEPTING \<or> s = IPC_CHAN_STATE_WAITING_FOR_PORT \<or> s = IPC_CHAN_STATE_INVALID"

definition node_ok :: "floats \<Rightarrow> kern \<Rightarrow> nat \<Rightarrow> ipc_chan \<Rightarrow> bool" where
  "node_ok T k c ch \<longleftrightarrow>
     (c_node ch = Some WAITING_LIST \<longleftrightarrow> c \<in> set (k_waiting k)) \<and>
     (\<forall>p. c_node ch = Some (PENDING_LIST p) \<longleftrightarrow> c \<in> set (pend k p)) \<and>
     (c_node ch = Some WAITING_LIST \<longrightarrow> c_state ch = IPC_CHAN_STATE_WAITING_FOR_PORT \<and> c_path ch \<noteq> None) \<and>
     (\<forall>p. c_node ch = Some (PENDING_LIST p) \<longrightarrow> c_flags ch AND IPC_CHAN_FLAG_SERVER \<noteq> 0 \<and>
        (c_state ch = IPC_CHAN_STATE_ACCEPTING \<or> c_state ch = IPC_CHAN_STATE_DISCONNECTING)) \<and>
     (c_node ch = None \<longrightarrow> held T c \<or> \<not> unsettled (c_state ch))"

definition queue_ok :: "ipc_chan \<Rightarrow> bool" where
  "queue_ok ch \<longleftrightarrow> (\<forall>mq. c_msg_queue ch = Some mq \<longrightarrow> mq_inv mq)"

definition chan_inv :: "exts \<Rightarrow> floats \<Rightarrow> kern \<Rightarrow> nat \<Rightarrow> ipc_chan \<Rightarrow> bool" where
  "chan_inv ext T k c ch \<longleftrightarrow> refs_ok ext T k c ch \<and> link_ok k c ch \<and> node_ok T k c ch \<and> queue_ok ch"

definition port_inv :: "exts \<Rightarrow> kern \<Rightarrow> nat \<Rightarrow> ipc_port \<Rightarrow> bool" where
  "port_inv ext k p po \<longleftrightarrow>
     h_refcnt (p_handle po) =
       int (ext (HPort p)) + (if p_in_list po then 1 else 0) + int (length (p_pending_list po)) \<and>
     0 < h_refcnt (p_handle po) \<and> distinct (p_pending_list po) \<and>
     (\<forall>c\<in>set (p_pending_list po). nd k c = Some (PENDING_LIST p)) \<and>
     (p_in_list po \<longleftrightarrow> p \<in> set (k_port_list k)) \<and>
     (p_in_list po \<longleftrightarrow> p_state po = IPC_PORT_STATE_LISTENING) \<and>
     p_num_recv_bufs po \<le> IPC_CHAN_MAX_BUFS \<and> p_recv_buf_size po \<le> IPC_CHAN_MAX_BUF_SIZE"

definition port_path :: "kern \<Rightarrow> nat \<Rightarrow> byte list" where
  "port_path k p = (case k_ports k p of None \<Rightarrow> [] | Some po \<Rightarrow> p_path po)"

definition glob_inv :: "exts \<Rightarrow> floats \<Rightarrow> kern \<Rightarrow> bool" where
  "glob_inv ext T k \<longleftrightarrow>
     distinct (k_port_list k) \<and> distinct (k_waiting k) \<and>
     (\<forall>p\<in>set (k_port_list k). k_ports k p \<noteq> None) \<and> (\<forall>c\<in>set (k_waiting k). k_chans k c \<noteq> None) \<and>
     (\<forall>c. k_chans k c \<noteq> None \<longrightarrow> c < k_next k) \<and> (\<forall>p. k_ports k p \<noteq> None \<longrightarrow> p < k_next k) \<and>
     (\<forall>hp. 0 < ext hp \<longrightarrow> get_handle k hp \<noteq> None) \<and>
     (\<forall>c r. (c, r) \<in> T \<longrightarrow> k_chans k c \<noteq> None) \<and>
     distinct (map (port_path k) (k_port_list k))"

definition kinv :: "exts \<Rightarrow> floats \<Rightarrow> kern \<Rightarrow> bool" where
  "kinv ext T k \<longleftrightarrow>
     (\<forall>c ch. k_chans k c = Some ch \<longrightarrow> chan_inv ext T k c ch) \<and>
     (\<forall>p po. k_ports k p = Some po \<longrightarrow> port_inv ext k p po) \<and>
     glob_inv ext T k"

lemma kinvI:
  assumes "\<And>c ch. k_chans k c = Some ch \<Longrightarrow> refs_ok ext T k c ch"
    and "\<And>c ch. k_chans k c = Some ch \<Longrightarrow> link_ok k c ch"
    and "\<And>c ch. k_chans k c = Some ch \<Longrightarrow> node_ok T k c ch"
    and "\<And>c ch. k_chans k c = Some ch \<Longrightarrow> queue_ok ch"
    and "\<And>p po. k_ports k p = Some po \<Longrightarrow> port_inv ext k p po"
    and "glob_inv ext T k"
  shows "kinv ext T k"
  using assms by (simp add: kinv_def chan_inv_def)

lemma kinvD:
  assumes "kinv ext T k"
  shows "\<And>c ch. k_chans k c = Some ch \<Longrightarrow> refs_ok ext T k c ch"
    and "\<And>c ch. k_chans k c = Some ch \<Longrightarrow> link_ok k c ch"
    and "\<And>c ch. k_chans k c = Some ch \<Longrightarrow> node_ok T k c ch"
    and "\<And>c ch. k_chans k c = Some ch \<Longrightarrow> queue_ok ch"
    and "\<And>p po. k_ports k p = Some po \<Longrightarrow> port_inv ext k p po"
    and "glob_inv ext T k"
  using assms by (simp_all add: kinv_def chan_inv_def)

lemma kern_frame [simp]:
  "k_ports (set_chan c ch k) = k_ports k" "k_chans (set_port p po k) = k_chans k"
  "k_chans (set_chan c ch k) = (k_chans k)(c := Some ch)"
  "k_ports (set_port p po k) = (k_ports k)(p := Some po)"
  "k_port_list (set_chan c ch k) = k_port_list k" "k_waiting (set_chan c ch k) = k_waiting k"
  "k_port_list (set_port p po k) = k_port_list k" "k_waiting (set_port p po k) = k_waiting k"
  "k_next (set_chan c ch k) = k_next k" "k_next (set_port p po k) = k_next k"
  "k_hlists (set_chan c ch k) = k_hlists k" "k_hlists (set_port p po k) = k_hlists k"
  "k_uctx (set_chan c ch k) = k_uctx k" "k_uctx (set_port p po k) = k_uctx k"
  "k_alloc (set_chan c ch k) = k_alloc k" "k_alloc (set_port p po k) = k_alloc k"
  "k_hyp (set_chan c ch k) = k_hyp k" "k_hyp (set_port p po k) = k_hyp k"
  by (simp_all add: set_chan_def set_port_def)

lemma held_simps [simp]:
  "held (insert (c, r) T) c" "held {} c \<longleftrightarrow> False"
  "c \<noteq> d \<Longrightarrow> held (insert (c, r) T) d = held T d"
  "c \<noteq> d \<Longrightarrow> held (T - {(c, r)}) d = held T d"
  by (auto simp: held_def)

lemma kinv_glob:
  assumes "kinv ext T k"
  shows "p \<in> set (k_port_list k) \<Longrightarrow> k_ports k p \<noteq> None"
    and "c \<in> set (k_waiting k) \<Longrightarrow> k_chans k c \<noteq> None"
    and "k_chans k c = Some ch \<Longrightarrow> c < k_next k"
    and "k_ports k p = Some po \<Longrightarrow> p < k_next k"
    and "0 < ext (HPort p) \<Longrightarrow> k_ports k p \<noteq> None"
    and "0 < ext (HChan c) \<Longrightarrow> k_chans k c \<noteq> None"
    and "(c, r) \<in> T \<Longrightarrow> k_chans k c \<noteq> None"
    and "distinct (k_port_list k)" and "distinct (k_waiting k)"
    and "distinct (map (port_path k) (k_port_list k))"
proof -
  note g = kinvD(6) [OF assms, unfolded glob_inv_def]
  from g have ext: "\<forall>hp. 0 < ext hp \<longrightarrow> get_handle k hp \<noteq> None" by (elim conjE)
  from ext [THEN spec, of "HPort p"] show "0 < ext (HPort p) \<Longrightarrow> k_ports k p \<noteq> None" by simp
  from ext [THEN spec, of "HChan c"] show "0 < ext (HChan c) \<Longrightarrow> k_chans k c \<noteq> None" by simp
  from g have "\<forall>c. k_chans k c \<noteq> None \<longrightarrow> c < k_next k" by (elim conjE)
  then show "k_chans k c = Some ch \<Longrightarrow> c < k_next k" by simp
  from g have "\<forall>p. k_ports k p \<noteq> None \<longrightarrow> p < k_next k" by (elim conjE)
  then show "k_ports k p = Some po \<Longrightarrow> p < k_next k" by simp
  from g have "\<forall>c r. (c, r) \<in> T \<longrightarrow> k_chans k c \<noteq> None" by (elim conjE)
  then show "(c, r) \<in> T \<Longrightarrow> k_chans k c \<noteq> None" by blast
  from g have "\<forall>p\<in>set (k_port_list k). k_ports k p \<noteq> None" by (elim conjE)
  then show "p \<in> set (k_port_list k) \<Longrightarrow> k_ports k p \<noteq> None" by (rule bspec)
  from g have "\<forall>c\<in>set (k_waiting k). k_chans k c \<noteq> None" by (elim conjE)
  then show "c \<in> set (k_waiting k) \<Longrightarrow> k_chans k c \<noteq> None" by (rule bspec)
  from g show "distinct (k_port_list k)" by (elim conjE)
  from g show "distinct (k_waiting k)" by (elim conjE)
  from g show "distinct (map (port_path k) (k_port_list k))" by (elim conjE)
qed

lemma glob_invI:
  assumes "\<And>p. p \<in> set (k_port_list k) \<Longrightarrow> k_ports k p \<noteq> None"
    and "\<And>c. c \<in> set (k_waiting k) \<Longrightarrow> k_chans k c \<noteq> None"
    and "\<And>c ch. k_chans k c = Some ch \<Longrightarrow> c < k_next k"
    and "\<And>p po. k_ports k p = Some po \<Longrightarrow> p < k_next k"
    and "\<And>p. 0 < ext (HPort p) \<Longrightarrow> k_ports k p \<noteq> None"
    and "\<And>c. 0 < ext (HChan c) \<Longrightarrow> k_chans k c \<noteq> None"
    and "\<And>c r. (c, r) \<in> T \<Longrightarrow> k_chans k c \<noteq> None"
    and "distinct (k_port_list k)" and "distinct (k_waiting k)"
    and "distinct (map (port_path k) (k_port_list k))"
  shows "glob_inv ext T k"
proof -
  have "0 < ext hp \<Longrightarrow> get_handle k hp \<noteq> None" for hp
    using assms(5,6) by (cases hp) simp_all
  then show ?thesis using assms(1-4,7-10) unfolding glob_inv_def by blast
qed

lemma glob_inv_same_dom:
  assumes inv: "kinv ext T k"
    and "\<And>c. k_chans k' c = None \<longleftrightarrow> k_chans k c = None"
    and "\<And>p. k_ports k' p = None \<longleftrightarrow> k_ports k p = None"
    and "k_next k' = k_next k" and "k_port_list k' = k_port_list k" and "port_path k' = port_path k"
    and "distinct (k_waiting k')" and "set (k_waiting k') \<subseteq> set (k_waiting k)"
    and "\<And>hp. 0 < ext' hp \<Longrightarrow> 0 < ext hp \<or> get_handle k hp \<noteq> None"
    and "\<And>c r. (c, r) \<in> T' \<Longrightarrow> held T c \<or> k_chans k c \<noteq> None"
  shows "glob_inv ext' T' k'"
proof (rule glob_invI)
  fix d x assume "k_chans k' d = Some x"
  then show "d < k_next k'" using assms(2) [of d] kinv_glob(3) [OF inv, of d] assms(4) by fastforce
next
  fix p po assume "k_ports k' p = Some po"
  then show "p < k_next k'" using assms(3) [of p] kinv_glob(4) [OF inv, of p] assms(4) by fastforce
next
  fix d assume "0 < ext' (HChan d)"
  then show "k_chans k' d \<noteq> None" using assms(2) [of d] assms(9) [of "HChan d"] kinv_glob(6) [OF inv, of d] by auto
next
  fix p assume "0 < ext' (HPort p)"
  then show "k_ports k' p \<noteq> None" using assms(3) [of p] assms(9) [of "HPort p"] kinv_glob(5) [OF inv, of p] by auto
next
  fix d r assume "(d, r) \<in> T'"
  then show "k_chans k' d \<noteq> None"
    using assms(2) [of d] assms(10) [of d r] kinv_glob(7) [OF inv, of d] unfolding held_def by metis
next
  fix d assume "d \<in> set (k_waiting k')"
  then show "k_chans k' d \<noteq> None" using assms(2) [of d] assms(8) kinv_glob(2) [OF inv, of d] by auto
next
  fix p assume "p \<in> set (k_port_list k')"
  then show "k_ports k' p \<noteq> None" using assms(3) [of p] assms(5) kinv_glob(1) [OF inv, of p] by simp
qed (use kinv_glob(8,10) [OF inv] assms in simp_all)

text \<open>The invariant reads only a part of the state.\<close>

definition same_objs :: "kern \<Rightarrow> kern \<Rightarrow> bool" where
  "same_objs k k' \<longleftrightarrow> k_chans k' = k_chans k \<and> k_ports k' = k_ports k \<and> k_port_list k' = k_port_list k \<and>
     k_waiting k' = k_waiting k \<and> k_next k \<le> k_next k'"

lemma get_handle_cong: "k_chans k' = k_chans k \<Longrightarrow> k_ports k' = k_ports k \<Longrightarrow> get_handle k' hp = get_handle k hp"
  by (cases hp) simp_all

lemma kinv_same_objs:
  assumes "kinv ext T k" "same_objs k k'"
  shows "kinv ext T k'"
proof -
  have eqs: "k_chans k' = k_chans k" "k_ports k' = k_ports k" "k_port_list k' = k_port_list k"
    "k_waiting k' = k_waiting k" "k_next k \<le> k_next k'"
    using assms(2) by (simp_all add: same_objs_def)
  then have acc: "pr k' = pr k" "st k' = st k" "nd k' = nd k" "pend k' = pend k" "port_path k' = port_path k"
    by (simp_all add: fun_eq_iff pr_def st_def nd_def pend_def port_path_def)
  have "glob_inv ext T k'"
    using kinvD(6) [OF assms(1)] eqs acc get_handle_cong [OF eqs(1,2)]
    by (auto simp: glob_inv_def intro: less_le_trans)
  moreover have "refs_ok ext T k' = refs_ok ext T k" "link_ok k' = link_ok k" "node_ok T k' = node_ok T k"
    "port_inv ext k' = port_inv ext k"
    using eqs acc by (simp_all add: fun_eq_iff refs_ok_def link_ok_def node_ok_def port_inv_def owned_def)
  ultimately show ?thesis
    using kinvD [OF assms(1)] eqs(1,2) by (intro kinvI) simp_all
qed

section \<open>Local updates\<close>

lemma acc_set_chan:
  assumes "k_chans k c = Some ch"
  shows "c_peer ch' = c_peer ch \<Longrightarrow> pr (set_chan c ch' k) = pr k"
    and "c_state ch' = c_state ch \<Longrightarrow> st (set_chan c ch' k) = st k"
    and "c_node ch' = c_node ch \<Longrightarrow> nd (set_chan c ch' k) = nd k"
    and "pend (set_chan c ch' k) = pend k"
    and "port_path (set_chan c ch' k) = port_path k"
  using assms by (auto simp: fun_eq_iff pr_def st_def nd_def pend_def port_path_def)

lemma acc_set_port:
  assumes "k_ports k p = Some po"
  shows "pr (set_port p po' k) = pr k" and "st (set_port p po' k) = st k" and "nd (set_port p po' k) = nd k"
    and "p_pending_list po' = p_pending_list po \<Longrightarrow> pend (set_port p po' k) = pend k"
    and "p_path po' = p_path po \<Longrightarrow> port_path (set_port p po' k) = port_path k"
  using assms by (auto simp: fun_eq_iff pr_def st_def nd_def pend_def port_path_def)

text \<open>A channel changes in its own part only; \<open>ext\<close> and \<open>T\<close> may change for that channel.\<close>

lemma kinv_set_chan:
  assumes inv: "kinv ext T k" and ch: "k_chans k c = Some ch"
    and keep: "c_peer ch' = c_peer ch" "c_state ch' = c_state ch" "c_node ch' = c_node ch"
    and ext: "\<And>hp. hp \<noteq> HChan c \<Longrightarrow> ext' hp = ext hp"
    and T: "\<And>d r. d \<noteq> c \<Longrightarrow> (d, r) \<in> T' \<longleftrightarrow> (d, r) \<in> T"
    and own: "refs_ok ext' T' k c ch'" "link_ok k c ch'" "node_ok T' k c ch'" "queue_ok ch'"
  shows "kinv ext' T' (set_chan c ch' k)"
proof -
  note acc = acc_set_chan [OF ch] keep
  let ?k = "set_chan c ch' k"
  have "refs_ok ext' T' ?k = refs_ok ext' T' k" "link_ok ?k = link_ok k" "node_ok T' ?k = node_ok T' k"
    by (simp_all add: fun_eq_iff refs_ok_def link_ok_def node_ok_def owned_def acc)
  moreover have "d \<noteq> c \<Longrightarrow> refs_ok ext' T' k d = refs_ok ext T k d \<and> node_ok T' k d = node_ok T k d" for d
    using T [of d] ext [of "HChan d"]
    by (simp add: fun_eq_iff refs_ok_def node_ok_def owned_def held_def)
  moreover have "port_inv ext' ?k p = port_inv ext k p" for p
    using ext [of "HPort p"] by (simp add: fun_eq_iff port_inv_def acc)
  moreover have "glob_inv ext' T' ?k"
  proof -
    have g: "get_handle ?k hp = None \<longleftrightarrow> get_handle k hp = None" for hp
      using ch by (cases hp) auto
    have "0 < ext' hp \<Longrightarrow> get_handle k hp \<noteq> None" for hp
      using kinvD(6) [OF inv] ext [of hp] ch by (cases "hp = HChan c") (auto simp: glob_inv_def)
    moreover have "(d, r) \<in> T' \<Longrightarrow> k_chans k d \<noteq> None" for d r
      using kinvD(6) [OF inv] T [of d r] ch by (cases "d = c") (auto simp: glob_inv_def)
    ultimately show ?thesis using kinvD(6) [OF inv] ch by (auto simp: glob_inv_def acc g)
  qed
  ultimately show ?thesis
    using kinvD [OF inv] own by (intro kinvI) (auto split: if_splits)
qed

lemma kinv_set_port:
  assumes inv: "kinv ext T k" and po: "k_ports k p = Some po"
    and keep: "p_pending_list po' = p_pending_list po" "p_path po' = p_path po"
    and ext: "\<And>hp. hp \<noteq> HPort p \<Longrightarrow> ext' hp = ext hp"
    and own: "port_inv ext' k p po'"
  shows "kinv ext' T (set_port p po' k)"
proof -
  note acc = acc_set_port [OF po] keep
  let ?k = "set_port p po' k"
  have "refs_ok ext' T ?k c = refs_ok ext T k c" "link_ok ?k = link_ok k" "node_ok T ?k = node_ok T k" for c
    using ext [of "HChan c"]
    by (simp_all add: fun_eq_iff refs_ok_def link_ok_def node_ok_def owned_def acc)
  moreover have "port_inv ext' ?k = port_inv ext' k" by (simp add: fun_eq_iff port_inv_def acc)
  moreover have "q \<noteq> p \<Longrightarrow> port_inv ext' k q = port_inv ext k q" for q
    using ext [of "HPort q"] by (simp add: fun_eq_iff port_inv_def)
  moreover have "glob_inv ext' T ?k"
  proof -
    have g: "get_handle ?k hp = None \<longleftrightarrow> get_handle k hp = None" for hp
      using po by (cases hp) auto
    have "0 < ext' hp \<Longrightarrow> get_handle k hp \<noteq> None" for hp
      using kinvD(6) [OF inv] ext [of hp] po by (cases "hp = HPort p") (auto simp: glob_inv_def)
    then show ?thesis using kinvD(6) [OF inv] po by (auto simp: glob_inv_def acc g)
  qed
  ultimately show ?thesis
    using kinvD [OF inv] own by (intro kinvI) (auto split: if_splits)
qed

lemma kinv_chan_local:
  assumes inv: "kinv ext T k" and ch: "k_chans k c = Some ch"
    and keep: "c_refs ch' = c_refs ch" "c_peer ch' = c_peer ch" "c_state ch' = c_state ch"
      "c_node ch' = c_node ch" "c_flags ch' = c_flags ch" "c_path ch' = c_path ch"
      "h_refcnt (c_handle ch') = h_refcnt (c_handle ch)"
      "c_msg_queue ch' = None \<longleftrightarrow> c_msg_queue ch = None" "queue_ok ch'"
  shows "kinv ext T (set_chan c ch' k)"
proof (rule kinv_set_chan [OF inv ch])
  show "refs_ok ext T k c ch'" "link_ok k c ch'" "node_ok T k c ch'" "queue_ok ch'"
    using kinvD(1-3) [OF inv ch] keep by (simp_all add: refs_ok_def link_ok_def node_ok_def owned_def)
qed (use keep in auto)

lemma kinv_port_local:
  assumes inv: "kinv ext T k" and po: "k_ports k p = Some po"
    and keep: "h_refcnt (p_handle po') = h_refcnt (p_handle po)" "p_pending_list po' = p_pending_list po"
      "p_path po' = p_path po" "p_in_list po' = p_in_list po" "p_state po' = p_state po"
      "p_num_recv_bufs po' = p_num_recv_bufs po" "p_recv_buf_size po' = p_recv_buf_size po"
  shows "kinv ext T (set_port p po' k)"
proof (rule kinv_set_port [OF inv po])
  show "port_inv ext k p po'"
    using kinvD(5) [OF inv po] unfolding port_inv_def keep .
qed (use keep in auto)

lemma kinv_event_signal: "kinv ext T k \<Longrightarrow> kinv ext T (event_signal ev k)"
  by (erule kinv_same_objs) (simp add: event_signal_def same_objs_def)

lemma kinv_notify: "kinv ext T k \<Longrightarrow> kinv ext T (handle_notify_waiters_locked h k)"
  by (simp add: handle_notify_waiters_locked_def kinv_event_signal split: option.split)

lemma notify_frame [simp]:
  "k_chans (handle_notify_waiters_locked h k) = k_chans k"
  "k_ports (handle_notify_waiters_locked h k) = k_ports k"
  "k_hlists (handle_notify_waiters_locked h k) = k_hlists k"
  "k_uctx (handle_notify_waiters_locked h k) = k_uctx k"
  "k_waiting (handle_notify_waiters_locked h k) = k_waiting k"
  "k_port_list (handle_notify_waiters_locked h k) = k_port_list k"
  "k_next (handle_notify_waiters_locked h k) = k_next k"
  "k_alloc (handle_notify_waiters_locked h k) = k_alloc k"
  "k_hyp (handle_notify_waiters_locked h k) = k_hyp k"
  by (simp_all add: handle_notify_waiters_locked_def event_signal_def split: option.split)

section \<open>Taking and dropping references\<close>

lemma REF_TMP_not_owned: "REF_TMP \<notin> owned ext k c ch"
  by (auto simp: owned_def)

lemma kinv_add_tmp:
  assumes inv: "kinv ext T k" and ch: "k_chans k c = Some ch" and T: "(c, REF_TMP) \<notin> T"
  shows "chan_add_ref c REF_TMP k = Some (set_chan c (ch\<lparr>c_refs := c_refs ch @ [REF_TMP]\<rparr>) k)"
    and "kinv ext (insert (c, REF_TMP) T) (set_chan c (ch\<lparr>c_refs := c_refs ch @ [REF_TMP]\<rparr>) k)"
proof -
  note r = kinvD(1) [OF inv ch]
  have new: "REF_TMP \<notin> set (c_refs ch)"
    using r T REF_TMP_not_owned [of ext k c ch] by (simp add: refs_ok_def)
  then show "chan_add_ref c REF_TMP k = Some (set_chan c (ch\<lparr>c_refs := c_refs ch @ [REF_TMP]\<rparr>) k)"
    using ch by (simp add: chan_add_ref_def obj_add_ref_def)
  show "kinv ext (insert (c, REF_TMP) T) (set_chan c (ch\<lparr>c_refs := c_refs ch @ [REF_TMP]\<rparr>) k)"
  proof (rule kinv_set_chan [OF inv ch])
    have "owned ext k c (ch\<lparr>c_refs := c_refs ch @ [REF_TMP]\<rparr>) = owned ext k c ch" by (simp add: owned_def)
    then show "refs_ok ext (insert (c, REF_TMP) T) k c (ch\<lparr>c_refs := c_refs ch @ [REF_TMP]\<rparr>)"
      using r new REF_TMP_not_owned [of ext k c ch] by (auto simp: refs_ok_def)
  qed (use kinvD(2-4) [OF inv ch] in \<open>auto simp: link_ok_def node_ok_def queue_ok_def\<close>)
qed

lemma sole_float:
  assumes "refs_ok ext T k c ch" "set (c_refs ch) = {r}" "(c, r) \<in> T"
  shows "ext (HChan c) = 0" and "c_node ch = None" and "\<And>d. pr k d \<noteq> Some c" and "{r. (c, r) \<in> T} = {r}"
    and "\<not> held (T - {(c, r)}) c"
proof -
  let ?F = "{r. (c, r) \<in> T}"
  have u: "owned ext k c ch \<union> ?F = {r}" and dis: "owned ext k c ch \<inter> ?F = {}" and "r \<in> ?F"
    using assms unfolding refs_ok_def by simp_all
  then have "r \<notin> owned ext k c ch" by (metis IntI empty_iff)
  moreover have "owned ext k c ch \<subseteq> {r}" using u by (metis Un_upper1)
  ultimately have own: "owned ext k c ch = {}" by (metis subset_singletonD insertI1)
  then show "ext (HChan c) = 0" "c_node ch = None" "\<And>d. pr k d \<noteq> Some c"
    unfolding owned_def by (simp_all split: if_splits)
  from u own show "?F = {r}" by simp
  then show "\<not> held (T - {(c, r)}) c" unfolding held_def by blast
qed

text \<open>A channel without references, without a peer and outside the lists goes away.\<close>

lemma kinv_free_chan:
  assumes inv: "kinv ext T k" and ch: "k_chans k c = Some ch"
    and only: "set (c_refs ch) = {r}" "(c, r) \<in> T" and peer: "c_peer ch = None"
  shows "kinv ext (T - {(c, r)}) (k\<lparr>k_chans := (k_chans k)(c := None)\<rparr>)" (is "kinv ext ?T ?k")
proof -
  note sole = sole_float [OF kinvD(1) [OF inv ch] only]
  note ext0 = sole(1) and node = sole(2) and nopeer = sole(3) and T = sole(4)
  have pr: "pr ?k d = (if d = c then None else pr k d)" "st ?k d = (if d = c then None else st k d)"
    "nd ?k d = (if d = c then None else nd k d)" for d
    by (simp_all add: pr_def st_def nd_def)
  have pend: "pend ?k = pend k" "port_path ?k = port_path k" by (simp_all add: fun_eq_iff pend_def port_path_def)
  have prc: "pr k c = None" "nd k c = None" using ch peer node by (simp_all add: pr_def nd_def)
  have own_d: "owned ext ?k d x = owned ext k d x" if "d \<noteq> c" for d x
  proof -
    have "pr ?k e = Some d \<longleftrightarrow> pr k e = Some d" for e using prc pr(1) [of e] by simp
    then show ?thesis by (simp add: owned_def)
  qed
  have TT: "(d, x) \<in> ?T \<longleftrightarrow> (d, x) \<in> T" "held ?T d = held T d" if "d \<noteq> c" for d x
    using that by simp_all
  have notw: "c \<notin> set (k_waiting k)" "c \<notin> set (pend k p)" for p
    using kinvD(3) [OF inv ch] node by (auto simp: node_ok_def)
  show ?thesis
  proof (rule kinvI)
    fix d x assume "k_chans ?k d = Some x"
    then have d: "d \<noteq> c" "k_chans k d = Some x" by (auto split: if_splits)
    show "refs_ok ext ?T ?k d x"
      using kinvD(1) [OF inv d(2)] TT [OF d(1)] own_d [OF d(1)] by (simp add: refs_ok_def d(1))
    have "c_peer x \<noteq> Some c" using nopeer [of d] d(2) by (simp add: pr_def)
    with kinvD(2) [OF inv d(2)] show "link_ok ?k d x"
      by (cases "c_peer x") (simp_all add: link_ok_def pr)
    show "node_ok ?T ?k d x"
      using kinvD(3) [OF inv d(2)] TT [OF d(1)] by (simp add: node_ok_def pend)
    show "queue_ok x" by (rule kinvD(4) [OF inv d(2)])
  next
    fix p po assume "k_ports ?k p = Some po"
    then show "port_inv ext ?k p po"
      using kinvD(5) [OF inv, of p po] notw(2) [of p] by (auto simp: port_inv_def pr pend_def)
  next
    show "glob_inv ext ?T ?k"
    proof (rule glob_invI)
      fix d x assume "(d, x) \<in> ?T"
      then have "d \<noteq> c" "(d, x) \<in> T" using T by blast+
      then show "k_chans ?k d \<noteq> None" using kinv_glob(7) [OF inv, of d x] by simp
    next
      fix d assume "0 < ext (HChan d)"
      then show "k_chans ?k d \<noteq> None" using kinv_glob(6) [OF inv, of d] ext0 by auto
    next
      fix d assume "d \<in> set (k_waiting ?k)"
      then show "k_chans ?k d \<noteq> None" using kinv_glob(2) [OF inv, of d] notw(1) by auto
    next
      fix d x assume "k_chans ?k d = Some x"
      then show "d < k_next ?k" using kinv_glob(3) [OF inv, of d x] by (simp split: if_splits)
    next
      fix p assume "p \<in> set (k_port_list ?k)"
      then show "k_ports ?k p \<noteq> None" using kinv_glob(1) [OF inv, of p] by simp
    next
      fix p po assume "k_ports ?k p = Some po"
      then show "p < k_next ?k" using kinv_glob(4) [OF inv, of p po] by simp
    next
      fix p assume "0 < ext (HPort p)"
      then show "k_ports ?k p \<noteq> None" using kinv_glob(5) [OF inv, of p] by simp
    qed (use kinv_glob(8-10) [OF inv] in \<open>simp_all add: pend\<close>)
  qed
qed

definition dropped :: "nat \<Rightarrow> ref_node \<Rightarrow> ipc_chan \<Rightarrow> kern \<Rightarrow> kern" where
  "dropped c r ch k =
     (if set (c_refs ch) = {r} then k\<lparr>k_chans := (k_chans k)(c := None)\<rparr>
      else set_chan c (ch\<lparr>c_refs := remove1 r (c_refs ch)\<rparr>) k)"

lemma kinv_del_float:
  assumes inv: "kinv ext T k" and ch: "k_chans k c = Some ch" and T: "(c, r) \<in> T"
    and own: "held (T - {(c, r)}) c \<or> c_peer ch = None \<or> 0 < ext (HChan c) \<or> c_node ch \<noteq> None"
    and settled: "held (T - {(c, r)}) c \<or> set (c_refs ch) = {r} \<or> c_node ch \<noteq> None \<or> \<not> unsettled (c_state ch)"
    and wait: "c_node ch = Some WAITING_LIST \<longrightarrow> held (T - {(c, r)}) c \<or> 0 < ext (HChan c)"
  shows "chan_del_ref c r k = Some (dropped c r ch k)"
    and "kinv ext (T - {(c, r)}) (dropped c r ch k)"
proof -
  let ?k = "dropped c r ch k"
  note ro = kinvD(1) [OF inv ch]
  have dis: "distinct (c_refs ch)" and mem: "r \<in> set (c_refs ch)"
    and set: "set (c_refs ch) = owned ext k c ch \<union> {r. (c, r) \<in> T}"
    and sep: "owned ext k c ch \<inter> {r. (c, r) \<in> T} = {}"
    using ro T unfolding refs_ok_def by auto
  show "chan_del_ref c r k = Some ?k"
  proof (cases "set (c_refs ch) = {r}")
    case True
    note sole = sole_float [OF ro True T]
    have "c_peer ch = None" using own sole by simp
    moreover have "c_refs ch = [r]" using True dis
      by (metis distinct.simps(2) list.exhaust list.set_intros(1) list.simps(15) set_empty singletonD subset_singletonD set_subset_Cons)
    ultimately show ?thesis
      using ch sole True
      by (simp add: chan_del_ref_def obj_del_ref_def chan_destroy_refobj_def set_chan_def dropped_def)
  next
    case False
    then have "remove1 r (c_refs ch) \<noteq> []" using dis mem
      by (metis set_remove1_eq Diff_eq_empty_iff empty_set subset_singletonD ex_in_conv)
    with ch mem False show ?thesis by (simp add: chan_del_ref_def obj_del_ref_def dropped_def)
  qed
  show "kinv ext (T - {(c, r)}) ?k"
  proof (cases "set (c_refs ch) = {r}")
    case True
    note sole = sole_float [OF ro True T]
    then have "c_peer ch = None" using own by simp
    with kinv_free_chan [OF inv ch True T] True show ?thesis by (simp add: dropped_def)
  next
    case False
    let ?ch = "ch\<lparr>c_refs := remove1 r (c_refs ch)\<rparr>"
    have o: "owned ext k c ?ch = owned ext k c ch" by (simp add: owned_def)
    have ne: "remove1 r (c_refs ch) \<noteq> []" using dis mem False
      by (metis set_remove1_eq Diff_eq_empty_iff empty_set subset_singletonD ex_in_conv)
    have notr: "r \<notin> owned ext k c ch" using sep T by auto
    have F: "{s. (c, s) \<in> T - {(c, r)}} = {s. (c, s) \<in> T} - {r}" by auto
    have "refs_ok ext (T - {(c, r)}) k c ?ch"
      using ro own wait notr ne unfolding refs_ok_def o F
      by (simp add: set_remove1_eq) (auto simp: Un_Diff)
    moreover have "node_ok (T - {(c, r)}) k c ?ch"
      using kinvD(3) [OF inv ch] settled False by (simp add: node_ok_def) auto
    ultimately have "kinv ext (T - {(c, r)}) (set_chan c ?ch k)"
      using kinvD(2,4) [OF inv ch]
      by (intro kinv_set_chan [OF inv ch]) (auto simp: link_ok_def queue_ok_def)
    with False show ?thesis by (simp add: dropped_def)
  qed
qed

section \<open>Handle counts\<close>

lemma kinv_chan_handle_init:
  assumes inv: "kinv ext T k" and ch: "k_chans k c = Some ch" and ext: "ext (HChan c) = 0"
    and T: "(c, REF_HANDLE) \<notin> T" and node: "\<And>p. c_node ch \<noteq> Some (PENDING_LIST p)"
  defines "ch' \<equiv> ch\<lparr>c_handle := handle_init (c_handle ch), c_refs := c_refs ch @ [REF_HANDLE]\<rparr>"
  shows "chan_handle_init c k = Some (set_chan c ch' k)"
    and "kinv (ext(HChan c := 1)) T (set_chan c ch' k)"
proof -
  note r = kinvD(1) [OF inv ch]
  have "REF_HANDLE \<notin> owned ext k c ch" using ext by (auto simp: owned_def)
  then have new: "REF_HANDLE \<notin> set (c_refs ch)" using r T by (simp add: refs_ok_def)
  then show "chan_handle_init c k = Some (set_chan c ch' k)"
    using ch by (simp add: chan_handle_init_def upd_chan_def chan_add_ref_def obj_add_ref_def set_chan_def ch'_def)
  have o: "owned (ext(HChan c := 1)) k c ch' = insert REF_HANDLE (owned ext k c ch)"
    using ext by (simp add: owned_def ch'_def)
  show "kinv (ext(HChan c := 1)) T (set_chan c ch' k)"
  proof (rule kinv_set_chan [OF inv ch])
    show "refs_ok (ext(HChan c := 1)) T k c ch'"
      using r new T node unfolding refs_ok_def o by (simp add: ch'_def handle_init_def)
  qed (use kinvD(2-4) [OF inv ch] in \<open>simp_all add: link_ok_def node_ok_def queue_ok_def ch'_def\<close>)
qed

lemma kinv_chan_count:
  assumes inv: "kinv ext T k" and ch: "k_chans k c = Some ch" and pos: "0 < ext (HChan c)" "0 < n"
  defines "ch' \<equiv> ch\<lparr>c_handle := (c_handle ch)\<lparr>h_refcnt := int n\<rparr>\<rparr>"
  shows "kinv (ext(HChan c := n)) T (set_chan c ch' k)"
proof (rule kinv_set_chan [OF inv ch])
  have "owned (ext(HChan c := n)) k c ch' = owned ext k c ch" using pos by (simp add: owned_def ch'_def)
  then show "refs_ok (ext(HChan c := n)) T k c ch'"
    using kinvD(1) [OF inv ch] pos by (simp add: refs_ok_def ch'_def)
qed (use kinvD(2-4) [OF inv ch] in \<open>simp_all add: link_ok_def node_ok_def queue_ok_def ch'_def\<close>)

text \<open>The last handle of a channel turns into a reference held by the operation.\<close>

lemma kinv_chan_last:
  assumes inv: "kinv ext T k" and ch: "k_chans k c = Some ch" and one: "ext (HChan c) = 1"
  defines "ch' \<equiv> ch\<lparr>c_handle := (c_handle ch)\<lparr>h_refcnt := 0\<rparr>\<rparr>"
  shows "kinv (ext(HChan c := 0)) (insert (c, REF_HANDLE) T) (set_chan c ch' k)"
proof (rule kinv_set_chan [OF inv ch])
  let ?T = "insert (c, REF_HANDLE) T"
  have o: "owned ext k c ch = insert REF_HANDLE (owned (ext(HChan c := 0)) k c ch')"
    and n: "REF_HANDLE \<notin> owned (ext(HChan c := 0)) k c ch'"
    using one by (auto simp: owned_def ch'_def)
  have F: "{r. (c, r) \<in> ?T} = insert REF_HANDLE {r. (c, r) \<in> T}" by auto
  show "refs_ok (ext(HChan c := 0)) ?T k c ch'"
    using kinvD(1) [OF inv ch] n unfolding refs_ok_def o F by (simp add: ch'_def)
qed (use kinvD(2-4) [OF inv ch] in \<open>auto simp: link_ok_def node_ok_def queue_ok_def ch'_def\<close>)

lemma kinv_port_count:
  assumes inv: "kinv ext T k" and po: "k_ports k p = Some po" and n: "h_refcnt (p_handle po) = int (ext (HPort p)) + b"
    and pos: "0 < int n + b"
  defines "po' \<equiv> po\<lparr>p_handle := (p_handle po)\<lparr>h_refcnt := int n + b\<rparr>\<rparr>"
  shows "kinv (ext(HPort p := n)) T (set_port p po' k)"
proof (rule kinv_set_port [OF inv po])
  show "port_inv (ext(HPort p := n)) k p po'"
    using kinvD(5) [OF inv po] n pos by (auto simp: port_inv_def po'_def)
qed (simp_all add: po'_def)

lemma port_refcnt:
  assumes "kinv ext T k" "k_ports k p = Some po"
  shows "0 < h_refcnt (p_handle po)"
    and "h_refcnt (p_handle po) =
      int (ext (HPort p)) + (if p_in_list po then 1 else 0) + int (length (p_pending_list po))"
proof -
  note i = kinvD(5) [OF assms, unfolded port_inv_def]
  from i show "0 < h_refcnt (p_handle po)" by (elim conjE)
  from i show "h_refcnt (p_handle po) =
      int (ext (HPort p)) + (if p_in_list po then 1 else 0) + int (length (p_pending_list po))" by (elim conjE)
qed

lemma kinv_incref:
  assumes inv: "kinv ext T k" and alive: "0 < ext hp \<or> (\<exists>p. hp = HPort p \<and> k_ports k p \<noteq> None)"
  shows "\<exists>k'. handle_incref hp k = Some k' \<and> kinv (ext(hp := Suc (ext hp))) T k' \<and>
    upd_handle hp (\<lambda>x. x\<lparr>h_refcnt := h_refcnt x + 1\<rparr>) k = Some k'"
proof (cases hp)
  case (HPort p)
  then obtain po where po: "k_ports k p = Some po" using alive kinv_glob(5) [OF inv, of p] by auto
  let ?b = "h_refcnt (p_handle po) - int (ext (HPort p))"
  have pos: "0 < h_refcnt (p_handle po)" by (rule port_refcnt [OF inv po])
  have "kinv (ext(HPort p := Suc (ext (HPort p)))) T
      (set_port p (po\<lparr>p_handle := (p_handle po)\<lparr>h_refcnt := int (Suc (ext (HPort p))) + ?b\<rparr>\<rparr>) k)"
    by (rule kinv_port_count [OF inv po]) (use pos in auto)
  moreover have "int (Suc (ext (HPort p))) + ?b = h_refcnt (p_handle po) + 1" by simp
  ultimately show ?thesis using po HPort by (simp add: handle_incref_def upd_port_def add.commute)
next
  case (HChan c)
  then have pos: "0 < ext (HChan c)" using alive by simp
  then obtain ch where ch: "k_chans k c = Some ch" using kinv_glob(6) [OF inv, of c] by auto
  have "h_refcnt (c_handle ch) = int (ext (HChan c))" using kinvD(1) [OF inv ch] by (simp add: refs_ok_def)
  with kinv_chan_count [OF inv ch pos, of "Suc (ext hp)"] ch HChan show ?thesis
    by (simp add: handle_incref_def upd_chan_def add.commute)
qed

text \<open>A port whose last reference goes is unpublished and has no pending connections.\<close>

lemma kinv_free_port:
  assumes inv: "kinv ext T k" and po: "k_ports k p = Some po" and one: "ext (HPort p) = 1"
    and last: "h_refcnt (p_handle po) = 1"
  shows "p_pending_list po = [] \<and> \<not> p_in_list po"
    and "kinv (ext(HPort p := 0)) T (k\<lparr>k_ports := (k_ports k)(p := None)\<rparr>)" (is "kinv ?ext T ?k")
proof -
  show none: "p_pending_list po = [] \<and> \<not> p_in_list po"
    using port_refcnt(2) [OF inv po] one last by (simp split: if_splits)
  have acc: "pr ?k = pr k" "st ?k = st k" "nd ?k = nd k" "pend ?k = pend k"
    using po none by (auto simp: fun_eq_iff pr_def st_def nd_def pend_def)
  have notin: "p \<notin> set (k_port_list k)" using kinvD(5) [OF inv po] none by (simp add: port_inv_def)
  show "kinv ?ext T ?k"
  proof (rule kinvI)
    fix c ch assume "k_chans ?k c = Some ch"
    then have c: "k_chans k c = Some ch" by simp
    show "refs_ok ?ext T ?k c ch" "link_ok ?k c ch" "node_ok T ?k c ch" "queue_ok ch"
      using kinvD(1-4) [OF inv c] by (simp_all add: refs_ok_def link_ok_def node_ok_def owned_def acc)
  next
    fix q qo assume "k_ports ?k q = Some qo"
    then have "q \<noteq> p" "k_ports k q = Some qo" by (auto split: if_splits)
    moreover have "port_inv ?ext ?k q qo = port_inv ext k q qo" if "q \<noteq> p"
      using that by (simp add: port_inv_def acc)
    ultimately show "port_inv ?ext ?k q qo" using kinvD(5) [OF inv, of q qo] by simp
  next
    show "glob_inv ?ext T ?k"
    proof (rule glob_invI)
      fix q assume "q \<in> set (k_port_list ?k)"
      then show "k_ports ?k q \<noteq> None" using kinv_glob(1) [OF inv, of q] notin by auto
    next
      fix q qo assume "k_ports ?k q = Some qo"
      then show "q < k_next ?k" using kinv_glob(4) [OF inv, of q qo] by (simp split: if_splits)
    next
      fix q assume "0 < ?ext (HPort q)"
      then show "k_ports ?k q \<noteq> None" using kinv_glob(5) [OF inv, of q] by (simp split: if_splits)
    next
      have "map (port_path ?k) (k_port_list ?k) = map (port_path k) (k_port_list k)"
        using notin by (auto simp: port_path_def)
      then show "distinct (map (port_path ?k) (k_port_list ?k))" using kinv_glob(10) [OF inv] by metis
    next
      fix c ch assume "k_chans ?k c = Some ch"
      then show "c < k_next ?k" using kinv_glob(3) [OF inv, of c ch] by simp
    next
      fix c assume "0 < ?ext (HChan c)"
      then show "k_chans ?k c \<noteq> None" using kinv_glob(6) [OF inv, of c] by simp
    next
      fix c r assume "(c, r) \<in> T"
      then show "k_chans ?k c \<noteq> None" using kinv_glob(7) [OF inv, of c r] by simp
    next
      fix c assume "c \<in> set (k_waiting ?k)"
      then show "k_chans ?k c \<noteq> None" using kinv_glob(2) [OF inv, of c] by simp
    qed (use kinv_glob(8,9) [OF inv] in simp_all)
  qed
qed

lemma kinv_decref_port:
  assumes inv: "kinv ext T k" and pos: "0 < ext (HPort p)"
  shows "\<exists>k'. handle_decref (HPort p) k = Some k' \<and> kinv (ext(HPort p := ext (HPort p) - 1)) T k' \<and>
    k_chans k' = k_chans k \<and> (\<forall>q. q \<noteq> p \<longrightarrow> k_ports k' q = k_ports k q) \<and>
    (\<forall>po. k_ports k p = Some po \<longrightarrow> k_ports k' p =
       (if h_refcnt (p_handle po) = 1 then None
        else Some (po\<lparr>p_handle := (p_handle po)\<lparr>h_refcnt := h_refcnt (p_handle po) - 1\<rparr>\<rparr>)))"
proof -
  obtain po where po: "k_ports k p = Some po" using kinv_glob(5) [OF inv pos] by auto
  note rc = port_refcnt [OF inv po]
  show ?thesis
  proof (cases "h_refcnt (p_handle po) = 1")
    case True
    then have one: "ext (HPort p) = 1" using rc pos by (simp split: if_splits)
    from kinv_free_port [OF inv po one True] po True one show ?thesis
      by (simp add: handle_decref_def upd_port_def port_handle_destroy_def set_port_def)
  next
    case False
    let ?b = "h_refcnt (p_handle po) - int (ext (HPort p))"
    have n: "int (ext (HPort p) - 1) + ?b = h_refcnt (p_handle po) - 1" using pos by simp
    have "kinv (ext(HPort p := ext (HPort p) - 1)) T
        (set_port p (po\<lparr>p_handle := (p_handle po)\<lparr>h_refcnt := int (ext (HPort p) - 1) + ?b\<rparr>\<rparr>) k)"
      by (rule kinv_port_count [OF inv po]) (use n rc(1) False in auto)
    then show ?thesis
      using po False unfolding n by (simp add: handle_decref_def upd_port_def)
  qed
qed

lemma kinv_decref_chan:
  assumes inv: "kinv ext T k" and pos: "0 < ext (HChan c)" and ch: "k_chans k c = Some ch"
    and ok: "1 < ext (HChan c) \<or> held T c \<or> c_peer ch = None \<or> c_node ch \<noteq> None"
    and settled: "1 < ext (HChan c) \<or> held T c \<or> c_node ch \<noteq> None \<or> \<not> unsettled (c_state ch)"
    and wait: "1 < ext (HChan c) \<or> held T c \<or> c_node ch \<noteq> Some WAITING_LIST"
    and T: "(c, REF_HANDLE) \<notin> T"
  shows "\<exists>k'. handle_decref (HChan c) k = Some k' \<and> kinv (ext(HChan c := ext (HChan c) - 1)) T k' \<and>
    k_ports k' = k_ports k \<and> (\<forall>d. d \<noteq> c \<longrightarrow> k_chans k' d = k_chans k d)"
proof -
  have cnt: "h_refcnt (c_handle ch) = int (ext (HChan c))" using kinvD(1) [OF inv ch] by (simp add: refs_ok_def)
  show ?thesis
  proof (cases "ext (HChan c) = 1")
    case False
    then have "0 < ext (HChan c) - 1" using pos by simp
    from kinv_chan_count [OF inv ch pos this] cnt ch pos False show ?thesis
      by (simp add: handle_decref_def upd_chan_def)
  next
    case True
    let ?ch = "ch\<lparr>c_handle := (c_handle ch)\<lparr>h_refcnt := 0\<rparr>\<rparr>"
    let ?T = "insert (c, REF_HANDLE) T" and ?k = "set_chan c ?ch k"
    have TT: "?T - {(c, REF_HANDLE)} = T" using T by auto
    note i = kinv_chan_last [OF inv ch True]
    have "k_chans ?k c = Some ?ch" by simp
    note d = kinv_del_float [OF i this, of REF_HANDLE, unfolded TT]
    have "handle_decref (HChan c) k = chan_del_ref c REF_HANDLE ?k"
      using ch cnt True by (simp add: handle_decref_def upd_chan_def chan_handle_destroy_def)
    moreover have "k_ports (dropped c REF_HANDLE ?ch ?k) = k_ports k"
      "\<And>d. d \<noteq> c \<Longrightarrow> k_chans (dropped c REF_HANDLE ?ch ?k) d = k_chans k d"
      by (simp_all add: dropped_def)
    ultimately show ?thesis using d ok settled wait True by auto
  qed
qed

section \<open>Leaving a list\<close>

lemma owned_node:
  assumes "c_node ch \<noteq> None"
  shows "owned ext k c ch = insert REF_NODE (owned ext k c (ch\<lparr>c_node := None\<rparr>))"
    and "REF_NODE \<notin> owned ext k c (ch\<lparr>c_node := None\<rparr>)"
  using assms by (auto simp: owned_def)

lemma refs_ok_unlinked:
  assumes "refs_ok ext T k c ch" "c_node ch \<noteq> None" "pr k' = pr k"
  shows "refs_ok ext (insert (c, REF_NODE) T) k' c (ch\<lparr>c_node := None\<rparr>)"
proof -
  have o: "owned ext k' c (ch\<lparr>c_node := None\<rparr>) = owned ext k c (ch\<lparr>c_node := None\<rparr>)"
    by (simp add: owned_def assms(3))
  have F: "{r. (c, r) \<in> insert (c, REF_NODE) T} = insert REF_NODE {r. (c, r) \<in> T}" by auto
  show ?thesis
    using assms(1) owned_node [OF assms(2), of ext k c]
    unfolding refs_ok_def o F by simp
qed

lemma link_ok_cong: "pr k' = pr k \<Longrightarrow> st k' = st k \<Longrightarrow> c_peer x' = c_peer x \<Longrightarrow> c_state x' = c_state x \<Longrightarrow>
    (c_msg_queue x' = None \<longleftrightarrow> c_msg_queue x = None) \<Longrightarrow> link_ok k' c x' = link_ok k c x"
  by (simp add: link_ok_def)

lemma port_inv_cong: "nd k' = nd k \<Longrightarrow> k_port_list k' = k_port_list k \<Longrightarrow> port_inv ext k' = port_inv ext k"
  by (simp add: fun_eq_iff port_inv_def)

lemma refs_ok_other:
  assumes "pr k' = pr k" "ext' (HChan d) = ext (HChan d)"
    and "\<And>r. (d, r) \<in> T' \<longleftrightarrow> (d, r) \<in> T"
  shows "refs_ok ext' T' k' d x = refs_ok ext T k d x"
  using assms by (simp add: refs_ok_def owned_def held_def)

definition unlinked_waiting :: "nat \<Rightarrow> ipc_chan \<Rightarrow> kern \<Rightarrow> kern" where
  "unlinked_waiting c ch k =
     (set_chan c (ch\<lparr>c_node := None\<rparr>) k)\<lparr>k_waiting := remove1 c (k_waiting k)\<rparr>"

lemma kinv_unlink_waiting:
  assumes inv: "kinv ext T k" and ch: "k_chans k c = Some ch" and node: "c_node ch = Some WAITING_LIST"
  shows "chan_list_delete c k = Some (unlinked_waiting c ch k)"
    and "kinv ext (insert (c, REF_NODE) T) (unlinked_waiting c ch k)" (is "kinv ext ?T ?k")
proof -
  show "chan_list_delete c k = Some (unlinked_waiting c ch k)"
    using ch node by (simp add: chan_list_delete_def unlinked_waiting_def)
  have chans: "k_chans ?k = (k_chans k)(c := Some (ch\<lparr>c_node := None\<rparr>))"
    and ports: "k_ports ?k = k_ports k" "k_port_list ?k = k_port_list k" "k_next ?k = k_next k"
    and wait: "k_waiting ?k = remove1 c (k_waiting k)"
    by (simp_all add: unlinked_waiting_def)
  have acc: "pr ?k = pr k" "st ?k = st k" "pend ?k = pend k" "port_path ?k = port_path k"
    "d \<noteq> c \<Longrightarrow> nd ?k d = nd k d" for d
    using ch by (auto simp: fun_eq_iff pr_def st_def nd_def pend_def port_path_def chans ports)
  have T: "(d, r) \<in> ?T \<longleftrightarrow> (d, r) \<in> T" "held ?T d = held T d" if "d \<noteq> c" for d r using that by auto
  have notpend: "c \<notin> set (pend k p)" for p using kinvD(3) [OF inv ch] node by (simp add: node_ok_def)
  have w: "d \<in> set (k_waiting ?k) \<longleftrightarrow> d \<in> set (k_waiting k) \<and> d \<noteq> c" for d
    using kinv_glob(9) [OF inv] by (simp add: wait distinct_remove1_iff)
  show "kinv ext ?T ?k"
  proof (rule kinvI)
    fix d x assume d: "k_chans ?k d = Some x"
    show "refs_ok ext ?T ?k d x" "link_ok ?k d x" "node_ok ?T ?k d x" "queue_ok x"
    proof -
      consider "d = c" "x = ch\<lparr>c_node := None\<rparr>" | "d \<noteq> c" "k_chans k d = Some x"
        using d by (auto simp: chans split: if_splits)
      then have "refs_ok ext ?T ?k d x \<and> link_ok ?k d x \<and> node_ok ?T ?k d x \<and> queue_ok x"
      proof cases
        case 1
        have "refs_ok ext ?T ?k c x"
          using refs_ok_unlinked [OF kinvD(1) [OF inv ch] _ acc(1)] node 1(2) by simp
        moreover have "link_ok ?k c x = link_ok k c ch" by (rule link_ok_cong) (simp_all add: acc 1(2))
        moreover have "node_ok ?T ?k c x" using 1(2) w notpend by (simp add: node_ok_def acc)
        ultimately show ?thesis using kinvD(2,4) [OF inv ch] 1 by (simp add: queue_ok_def)
      next
        case 2
        have "refs_ok ext ?T ?k d x = refs_ok ext T k d x"
          by (rule refs_ok_other) (use acc 2 in auto)
        moreover have "link_ok ?k d x = link_ok k d x" by (rule link_ok_cong) (simp_all add: acc)
        moreover have "node_ok ?T ?k d x = node_ok T k d x" using 2 T w by (simp add: node_ok_def acc)
        ultimately show ?thesis using kinvD(1-4) [OF inv 2(2)] by simp
      qed
      then show "refs_ok ext ?T ?k d x" "link_ok ?k d x" "node_ok ?T ?k d x" "queue_ok x" by simp_all
    qed
  next
    fix p po assume "k_ports ?k p = Some po"
    then have po: "k_ports k p = Some po" by (simp add: ports)
    have "nd ?k d = nd k d" if "d \<in> set (p_pending_list po)" for d
      using notpend [of p] acc(5) [of d] po that by (cases "d = c") (auto simp: pend_def)
    then have "port_inv ext ?k p po = port_inv ext k p po" by (simp add: port_inv_def ports)
    then show "port_inv ext ?k p po" using kinvD(5) [OF inv po] by simp
  next
    show "glob_inv ext ?T ?k"
    proof (rule glob_inv_same_dom [OF inv])
      show "distinct (k_waiting ?k)" "set (k_waiting ?k) \<subseteq> set (k_waiting k)"
        using kinv_glob(9) [OF inv] w by (auto simp: wait)
    qed (use ch T in \<open>auto simp: chans ports acc held_def split: if_splits\<close>)
  qed
qed

definition unlinked_pending :: "nat \<Rightarrow> ipc_chan \<Rightarrow> nat \<Rightarrow> ipc_port \<Rightarrow> kern \<Rightarrow> kern" where
  "unlinked_pending c ch p po k =
     set_port p (po\<lparr>p_pending_list := remove1 c (p_pending_list po)\<rparr>) (set_chan c (ch\<lparr>c_node := None\<rparr>) k)"

lemma kinv_unlink_pending:
  assumes inv: "kinv ext T k" and ch: "k_chans k c = Some ch" and node: "c_node ch = Some (PENDING_LIST p)"
  obtains po where "k_ports k p = Some po" "c \<in> set (p_pending_list po)"
    "chan_list_delete c k = Some (unlinked_pending c ch p po k)"
    "kinv (ext(HPort p := Suc (ext (HPort p)))) (insert (c, REF_NODE) T) (unlinked_pending c ch p po k)"
proof -
  have cin: "c \<in> set (pend k p)" using kinvD(3) [OF inv ch] node by (auto simp: node_ok_def)
  then obtain po where po: "k_ports k p = Some po" "c \<in> set (p_pending_list po)"
    by (cases "k_ports k p") (auto simp: pend_def)
  let ?k = "unlinked_pending c ch p po k" and ?T = "insert (c, REF_NODE) T"
  let ?ext = "ext(HPort p := Suc (ext (HPort p)))"
  have del: "chan_list_delete c k = Some ?k"
    using ch node po by (simp add: chan_list_delete_def unlinked_pending_def upd_port_def)
  have pi: "distinct (p_pending_list po)" using kinvD(5) [OF inv po(1)] unfolding port_inv_def by (elim conjE)
  have chans: "k_chans ?k = (k_chans k)(c := Some (ch\<lparr>c_node := None\<rparr>))"
    and ports: "k_ports ?k = (k_ports k)(p := Some (po\<lparr>p_pending_list := remove1 c (p_pending_list po)\<rparr>))"
    and rest: "k_port_list ?k = k_port_list k" "k_next ?k = k_next k" "k_waiting ?k = k_waiting k"
    by (simp_all add: unlinked_pending_def)
  have acc: "pr ?k = pr k" "st ?k = st k" "port_path ?k = port_path k"
    "d \<noteq> c \<Longrightarrow> nd ?k d = nd k d" "q \<noteq> p \<Longrightarrow> pend ?k q = pend k q"
    "d \<in> set (pend ?k p) \<longleftrightarrow> d \<in> set (pend k p) \<and> d \<noteq> c" for d q
    using ch po pi by (auto simp: fun_eq_iff pr_def st_def nd_def pend_def port_path_def chans ports distinct_remove1_iff)
  have T: "(d, r) \<in> ?T \<longleftrightarrow> (d, r) \<in> T" "held ?T d = held T d" if "d \<noteq> c" for d r using that by auto
  have other: "c \<notin> set (pend k q)" if "q \<noteq> p" for q
    using kinvD(3) [OF inv ch] node that by (auto simp: node_ok_def)
  have pendk: "d \<in> set (pend ?k q) \<longleftrightarrow> d \<in> set (pend k q) \<and> d \<noteq> c" for d q
    using acc(5) [of q] acc(6) [of d] other [of q] by (cases "q = p") auto
  have "kinv ?ext ?T ?k"
  proof (rule kinvI)
    fix d x assume d: "k_chans ?k d = Some x"
    consider "d = c" "x = ch\<lparr>c_node := None\<rparr>" | "d \<noteq> c" "k_chans k d = Some x"
      using d by (auto simp: chans split: if_splits)
    then have "refs_ok ?ext ?T ?k d x \<and> link_ok ?k d x \<and> node_ok ?T ?k d x \<and> queue_ok x"
    proof cases
      case 1
      have "refs_ok ?ext ?T ?k c x = refs_ok ext ?T ?k c x" by (rule refs_ok_other) simp_all
      moreover have "refs_ok ext ?T ?k c x"
        using refs_ok_unlinked [OF kinvD(1) [OF inv ch] _ acc(1)] node 1(2) by simp
      moreover have "link_ok ?k c x = link_ok k c ch" by (rule link_ok_cong) (simp_all add: acc 1(2))
      moreover have "node_ok ?T ?k c x"
        using 1(2) pendk kinvD(3) [OF inv ch] node by (simp add: node_ok_def rest)
      ultimately show ?thesis using kinvD(2,4) [OF inv ch] 1 by (simp add: queue_ok_def)
    next
      case 2
      have "refs_ok ?ext ?T ?k d x = refs_ok ext T k d x"
        by (rule refs_ok_other) (use acc 2 in auto)
      moreover have "link_ok ?k d x = link_ok k d x" by (rule link_ok_cong) (simp_all add: acc)
      moreover have "node_ok ?T ?k d x = node_ok T k d x" using 2 T pendk by (simp add: node_ok_def rest)
      ultimately show ?thesis using kinvD(1-4) [OF inv 2(2)] by simp
    qed
    then show "refs_ok ?ext ?T ?k d x" "link_ok ?k d x" "node_ok ?T ?k d x" "queue_ok x" by simp_all
  next
    fix q qo assume q: "k_ports ?k q = Some qo"
    show "port_inv ?ext ?k q qo"
    proof (cases "q = p")
      case True
      then have qo: "qo = po\<lparr>p_pending_list := remove1 c (p_pending_list po)\<rparr>" using q by (simp add: ports)
      have "\<forall>d\<in>set (p_pending_list qo). nd ?k d = nd k d" using qo acc(4) pi by simp
      moreover have "0 < length (p_pending_list po)" "length (p_pending_list qo) = length (p_pending_list po) - 1"
        using po(2) qo by (auto simp: length_remove1)
      then have len: "int (length (p_pending_list qo)) = int (length (p_pending_list po)) - 1" by arith
      moreover note i = kinvD(5) [OF inv po(1), unfolded port_inv_def]
      ultimately show ?thesis
        unfolding port_inv_def rest True using qo pi by (auto simp: len)
    next
      case False
      then have qk: "k_ports k q = Some qo" using q by (simp add: ports)
      have "nd ?k d = nd k d" if "d \<in> set (p_pending_list qo)" for d
        using other [OF False] acc(4) [of d] qk that by (cases "d = c") (auto simp: pend_def)
      then have "port_inv ?ext ?k q qo = port_inv ext k q qo" using False by (simp add: port_inv_def rest)
      then show ?thesis using kinvD(5) [OF inv qk] by simp
    qed
  next
    show "glob_inv ?ext ?T ?k"
    proof (rule glob_inv_same_dom [OF inv])
      show "distinct (k_waiting ?k)" "set (k_waiting ?k) \<subseteq> set (k_waiting k)"
        using kinv_glob(9) [OF inv] by (auto simp: rest)
    qed (use ch T po in \<open>auto simp: chans ports acc rest held_def split: if_splits\<close>)
  qed
  with that [OF po del] show thesis .
qed

section \<open>Shutting down a channel\<close>

lemma node_ok_state:
  assumes "node_ok T k c ch" "pend k' = pend k" "k_waiting k' = k_waiting k" "c_node ch \<noteq> Some WAITING_LIST"
  shows "node_ok T k' c (ch\<lparr>c_state := IPC_CHAN_STATE_DISCONNECTING\<rparr>)"
  using assms by (auto simp: node_ok_def unsettled_def)

text \<open>The states of some channels without the role of a mate go to \<open>DISCONNECTING\<close>.\<close>

lemma kinv_disconnect:
  assumes inv: "kinv ext T k"
    and k': "k_chans k' = (\<lambda>c. map_option (\<lambda>ch. if c \<in> D then ch\<lparr>c_state := IPC_CHAN_STATE_DISCONNECTING\<rparr> else ch) (k_chans k c))"
    and frame: "k_ports k' = k_ports k" "k_port_list k' = k_port_list k" "k_waiting k' = k_waiting k"
      "k_next k' = k_next k"
    and node: "\<And>c ch. c \<in> D \<Longrightarrow> k_chans k c = Some ch \<Longrightarrow> c_node ch \<noteq> Some WAITING_LIST"
    and mates: "\<And>c ch s d. k_chans k c = Some ch \<Longrightarrow> mate (c_state ch) = Some s \<Longrightarrow> c_peer ch = Some d \<Longrightarrow>
      pr k d = Some c \<Longrightarrow> d \<in> D \<Longrightarrow> c \<in> D"
  shows "kinv ext T k'"
proof -
  have acc: "pr k' = pr k" "nd k' = nd k" "pend k' = pend k" "port_path k' = port_path k"
    by (auto simp: fun_eq_iff pr_def nd_def pend_def port_path_def k' frame split: option.splits)
  have st: "st k' c = (if c \<in> D then map_option (\<lambda>_. IPC_CHAN_STATE_DISCONNECTING) (st k c) else st k c)" for c
    by (cases "k_chans k c") (auto simp: st_def k')
  show ?thesis
  proof (rule kinvI)
    fix c x assume "k_chans k' c = Some x"
    then obtain ch where ch: "k_chans k c = Some ch"
      and x: "x = (if c \<in> D then ch\<lparr>c_state := IPC_CHAN_STATE_DISCONNECTING\<rparr> else ch)" by (auto simp: k')
    show "refs_ok ext T k' c x"
      using kinvD(1) [OF inv ch] by (simp add: x refs_ok_def owned_def acc)
    show "node_ok T k' c x"
    proof (cases "c \<in> D")
      case True
      with node_ok_state [OF kinvD(3) [OF inv ch] acc(3) frame(3) node [OF True ch]] show ?thesis by (simp add: x)
    next
      case False
      with kinvD(3) [OF inv ch] show ?thesis by (simp add: x node_ok_def acc frame)
    qed
    show "queue_ok x" using kinvD(4) [OF inv ch] by (simp add: x queue_ok_def)
    note l = kinvD(2) [OF inv ch, unfolded link_ok_def]
    show "link_ok k' c x"
    proof (cases "c_peer ch")
      case None
      then show ?thesis using l by (auto simp: link_ok_def x)
    next
      case (Some d)
      then have d: "d \<noteq> c" "pr k d = None \<or> pr k d = Some c" "\<exists>s. st k d = Some s \<and>
          s \<noteq> IPC_CHAN_STATE_WAITING_FOR_PORT \<and> s \<noteq> IPC_CHAN_STATE_INVALID"
        "c_state ch \<noteq> IPC_CHAN_STATE_WAITING_FOR_PORT" "c_state ch \<noteq> IPC_CHAN_STATE_INVALID"
        using l by auto
      have m: "c_msg_queue ch \<noteq> None \<and> pr k d = Some c \<and> st k d = Some s" if "mate (c_state ch) = Some s" for s
        using l that Some by auto
      have "d \<notin> D" if "mate (c_state ch) = Some s" "c \<notin> D" for s
        using mates [OF ch that(1) Some] m [OF that(1)] that(2) by blast
      then show ?thesis using d m Some by (auto simp: link_ok_def x acc st)
    qed
  next
    fix p po assume "k_ports k' p = Some po"
    then show "port_inv ext k' p po"
      using kinvD(5) [OF inv, of p po] by (simp add: frame port_inv_cong [OF acc(2) frame(2)])
  next
    show "glob_inv ext T k'"
      by (rule glob_inv_same_dom [OF inv])
        (use kinv_glob(9) [OF inv] in \<open>auto simp: k' frame acc held_def\<close>)
  qed
qed

text \<open>A shut down channel forgets its peer; the reference it had there is left to the operation.\<close>

lemma kinv_drop_peer:
  assumes inv: "kinv ext T k" and ch: "k_chans k c = Some ch" and peer: "c_peer ch = Some d"
    and state: "mate (c_state ch) = None" and peer_state: "\<And>s. st k d = Some s \<Longrightarrow> mate s = None"
  shows "kinv ext (insert (d, REF_PEER c) T) (set_chan c (ch\<lparr>c_peer := None\<rparr>) k)" (is "kinv ext ?T ?k")
proof -
  have d: "d \<noteq> c" "\<exists>pe. k_chans k d = Some pe"
    using kinvD(2) [OF inv ch] peer by (auto simp: link_ok_def st_def)
  then obtain pe where pe: "k_chans k d = Some pe" by blast
  have chans: "k_chans ?k = (k_chans k)(c := Some (ch\<lparr>c_peer := None\<rparr>))" by simp
  have prc: "pr k c = Some d" using ch peer by (simp add: pr_def)
  have acc: "st ?k = st k" "nd ?k = nd k" "pend ?k = pend k" "port_path ?k = port_path k"
    "pr ?k e = (if e = c then None else pr k e)" for e
    using ch by (auto simp: fun_eq_iff pr_def st_def nd_def pend_def port_path_def)
  have peers: "{f. pr k f = Some e} = (if e = d then insert c {f. pr ?k f = Some e} else {f. pr ?k f = Some e})" for e
    using prc by (auto simp: acc)
  have own: "owned ext k e x' = (if e = d then insert (REF_PEER c) (owned ext ?k e x) else owned ext ?k e x)"
    and new: "REF_PEER c \<notin> owned ext ?k e x"
    if "c_node x = c_node x'" for e x x'
    unfolding owned_def peers that by (simp, auto simp: acc)
  have T: "(e, r) \<in> ?T \<longleftrightarrow> (e, r) \<in> T" "held ?T e = held T e" if "e \<noteq> d" for e r using that by auto
  show ?thesis
  proof (rule kinvI)
    fix e x assume e: "k_chans ?k e = Some x"
    obtain x0 where x0: "k_chans k e = Some x0" and x: "x = (if e = c then x0\<lparr>c_peer := None\<rparr> else x0)"
      using e ch by (auto split: if_splits)
    have node: "c_node x = c_node x0" by (simp add: x)
    note r = kinvD(1) [OF inv x0]
    show "refs_ok ext ?T ?k e x"
    proof (cases "e = d")
      case True
      have F: "{r. (d, r) \<in> ?T} = insert (REF_PEER c) {r. (d, r) \<in> T}" by auto
      have xd: "x = x0" using True d by (simp add: x)
      have o: "owned ext k d x = insert (REF_PEER c) (owned ext ?k d x)" "REF_PEER c \<notin> owned ext ?k d x"
        using own [of x x d] new [of x x d] by simp_all
      have xd': "x0 = x" using xd by simp
      show ?thesis using r o(2) unfolding refs_ok_def True xd' o(1) F by simp
    next
      case False
      have "owned ext k e x0 = owned ext ?k e x" using own [OF node, of e] False by simp
      then show ?thesis using r T [OF False] by (cases "e = c") (simp_all add: refs_ok_def x)
    qed
    show "node_ok ?T ?k e x"
      using kinvD(3) [OF inv x0] T [of e] by (cases "e = d") (auto simp: node_ok_def acc x)
    show "queue_ok x" using kinvD(4) [OF inv x0] by (simp add: queue_ok_def x)
    note l = kinvD(2) [OF inv x0, unfolded link_ok_def]
    show "link_ok ?k e x"
    proof (cases "e = c")
      case True
      then show ?thesis using state x0 ch by (simp add: link_ok_def x)
    next
      case False
      have "pr k f = Some e \<Longrightarrow> mate (c_state x0) = Some s \<Longrightarrow> c_peer x0 = Some f \<Longrightarrow> st k f = Some s \<Longrightarrow> f \<noteq> c" for f s
      proof
        assume a: "pr k f = Some e" "mate (c_state x0) = Some s" "f = c"
        then have "e = d" using prc by simp
        then have "st k d = Some (c_state x0)" using x0 by (simp add: st_def)
        then show False using peer_state a(2) by simp
      qed
      with l False show ?thesis
        by (cases "c_peer x0") (auto simp: link_ok_def x acc)
    qed
  next
    fix p po assume "k_ports ?k p = Some po"
    then show "port_inv ext ?k p po"
      using kinvD(5) [OF inv, of p po] port_inv_cong [OF acc(2)] by simp
  next
    show "glob_inv ext ?T ?k"
      by (rule glob_inv_same_dom [OF inv])
        (use kinv_glob(9) [OF inv] ch pe in \<open>auto simp: acc held_def\<close>)
  qed
qed

text \<open>Everything but the channels and the waiting list is kept (apart from the signalled events).\<close>

definition only_chans :: "kern \<Rightarrow> kern \<Rightarrow> bool" where
  "only_chans k k' \<longleftrightarrow> k_ports k' = k_ports k \<and> k_port_list k' = k_port_list k \<and> k_waiting k' = k_waiting k \<and>
     k_next k' = k_next k \<and> k_hlists k' = k_hlists k \<and> k_uctx k' = k_uctx k \<and> k_alloc k' = k_alloc k \<and>
     k_hyp k' = k_hyp k"

lemma only_chans_trans: "only_chans k k' \<Longrightarrow> only_chans k' k'' \<Longrightarrow> only_chans k k''"
  by (simp add: only_chans_def)

lemma only_chans_steps [simp]:
  "only_chans k k" "only_chans k (set_chan c ch k)" "only_chans k (handle_notify_waiters_locked h k)"
  "only_chans k (dropped c r ch k)"
  by (simp_all add: only_chans_def dropped_def)

text \<open>\<open>chan_shutdown_one\<close> outside the wait for a port.\<close>

definition disconnected :: "ipc_chan_state \<Rightarrow> ipc_chan_state" where
  "disconnected s = (if s = IPC_CHAN_STATE_INVALID then s else IPC_CHAN_STATE_DISCONNECTING)"

lemma chan_shutdown_one_eq:
  assumes "k_chans k c = Some ch" "c_state ch \<noteq> IPC_CHAN_STATE_WAITING_FOR_PORT"
  shows "\<exists>k'. chan_shutdown_one c k = Some k' \<and>
    k_chans k' = (k_chans k)(c := Some (ch\<lparr>c_state := disconnected (c_state ch)\<rparr>)) \<and>
    only_chans k k'"
  using assms
  by (cases "c_state ch")
    (auto simp: chan_shutdown_one_def disconnected_def handle_notify_def only_chans_def fun_upd_idem)

lemma chan_del_ref_dropped:
  assumes "k_chans k d = Some pe" "r \<in> set (c_refs pe)" "distinct (c_refs pe)"
    "set (c_refs pe) = {r} \<Longrightarrow> c_peer pe = None \<and> c_node pe = None"
  shows "chan_del_ref d r k = Some (dropped d r pe k)"
proof (cases "set (c_refs pe) = {r}")
  case True
  then have "c_refs pe = [r]" using assms(2,3)
    by (metis distinct.simps(2) list.exhaust list.set_intros(1) list.simps(15) set_empty singletonD subset_singletonD set_subset_Cons)
  then show ?thesis using assms True
    by (simp add: chan_del_ref_def obj_del_ref_def chan_destroy_refobj_def set_chan_def dropped_def)
next
  case False
  then have "remove1 r (c_refs pe) \<noteq> []" using assms(2,3)
    by (metis set_remove1_eq Diff_eq_empty_iff empty_set subset_singletonD ex_in_conv)
  then show ?thesis using assms False by (simp add: chan_del_ref_def obj_del_ref_def dropped_def)
qed

lemma dropped_frame [simp]:
  "k_ports (dropped c r ch k) = k_ports k" "k_port_list (dropped c r ch k) = k_port_list k"
  "k_waiting (dropped c r ch k) = k_waiting k" "k_next (dropped c r ch k) = k_next k"
  "k_hlists (dropped c r ch k) = k_hlists k" "k_uctx (dropped c r ch k) = k_uctx k"
  "k_alloc (dropped c r ch k) = k_alloc k" "k_hyp (dropped c r ch k) = k_hyp k"
  "d \<noteq> c \<Longrightarrow> k_chans (dropped c r ch k) d = k_chans k d"
  by (simp_all add: dropped_def)

lemma set_chan_dropped:
  "c \<noteq> d \<Longrightarrow> set_chan c x (dropped d r pe k) = dropped d r pe (set_chan c x k)"
  by (simp add: dropped_def set_chan_def fun_upd_twist)

text \<open>
  \<^verbatim>\<open>chan_shutdown_locked\<close> cannot fail on a channel that somebody holds, unless the channel waits for a
  port but is in no list.
\<close>

lemma kinv_shutdown_peer:
  assumes inv: "kinv ext T k" and ch: "k_chans k c = Some ch" and peer: "c_peer ch = Some d"
  shows "\<exists>k'. chan_shutdown_locked c k = Some k' \<and> kinv ext T k' \<and> only_chans k k' \<and>
    k_chans k' c = Some (ch\<lparr>c_state := IPC_CHAN_STATE_DISCONNECTING, c_peer := None\<rparr>)"
proof -
  let ?D = IPC_CHAN_STATE_DISCONNECTING
  have l: "d \<noteq> c" "pr k d = None \<or> pr k d = Some c" "c_state ch \<noteq> IPC_CHAN_STATE_WAITING_FOR_PORT"
    "c_state ch \<noteq> IPC_CHAN_STATE_INVALID" "\<exists>pe. k_chans k d = Some pe \<and>
      c_state pe \<noteq> IPC_CHAN_STATE_WAITING_FOR_PORT \<and> c_state pe \<noteq> IPC_CHAN_STATE_INVALID"
    using kinvD(2) [OF inv ch] peer by (auto simp: link_ok_def st_def)
  then obtain pe where pe: "k_chans k d = Some pe" "c_state pe \<noteq> IPC_CHAN_STATE_WAITING_FOR_PORT"
    "c_state pe \<noteq> IPC_CHAN_STATE_INVALID" by blast
  let ?ch = "ch\<lparr>c_state := ?D\<rparr>" and ?pe = "pe\<lparr>c_state := ?D\<rparr>"
  have dis: "disconnected (c_state ch) = ?D" "disconnected (c_state pe) = ?D"
    using l pe by (simp_all add: disconnected_def)
  obtain k1 where k1: "chan_shutdown_one c k = Some k1" "k_chans k1 = (k_chans k)(c := Some ?ch)" "only_chans k k1"
    using chan_shutdown_one_eq [OF ch l(3)] dis by auto
  have "k_chans k1 d = Some pe" using k1(2) pe(1) l(1) by simp
  then obtain k2 where k2: "chan_shutdown_one d k1 = Some k2" "k_chans k2 = (k_chans k1)(d := Some ?pe)"
    "only_chans k1 k2"
    using chan_shutdown_one_eq [OF _ pe(2)] dis by metis
  have oc: "only_chans k k2" by (rule only_chans_trans [OF k1(3) k2(3)])
  have inv2: "kinv ext T k2"
  proof (rule kinv_disconnect [OF inv, of _ "{c, d}"])
    show "k_chans k2 = (\<lambda>e. map_option (\<lambda>x. if e \<in> {c, d} then x\<lparr>c_state := ?D\<rparr> else x) (k_chans k e))"
      using ch pe(1) l(1) by (auto simp: fun_eq_iff k2(2) k1(2) option.map_ident)
    show "k_ports k2 = k_ports k" "k_port_list k2 = k_port_list k" "k_waiting k2 = k_waiting k" "k_next k2 = k_next k"
      using oc by (simp_all add: only_chans_def)
    show "c_node x \<noteq> Some WAITING_LIST" if "e \<in> {c, d}" "k_chans k e = Some x" for e x
      using that kinvD(3) [OF inv ch] kinvD(3) [OF inv pe(1)] ch pe l(3) by (auto simp: node_ok_def)
    fix e x s f
    assume "k_chans k e = Some x" "c_peer x = Some f" "pr k f = Some e" "f \<in> {c, d}"
    then show "e \<in> {c, d}" using ch peer l(2) by (auto simp: pr_def)
  qed
  have ch2: "k_chans k2 c = Some ?ch" "k_chans k2 d = Some ?pe"
    using l(1) by (simp_all add: k2(2) k1(2))
  let ?ch' = "?ch\<lparr>c_peer := None\<rparr>" and ?T = "insert (d, REF_PEER c) T"
  let ?k3 = "set_chan c ?ch' k2"
  have inv3: "kinv ext ?T ?k3"
    by (rule kinv_drop_peer [OF inv2 ch2(1)]) (use peer ch2(2) in \<open>auto simp: st_def\<close>)
  have r2: "REF_PEER c \<in> owned ext k2 d ?pe" using ch2(1) peer by (auto simp: owned_def pr_def)
  note ro = kinvD(1) [OF inv2 ch2(2)]
  have "(d, REF_PEER c) \<notin> T" using ro r2 unfolding refs_ok_def by auto
  then have TT: "?T - {(d, REF_PEER c)} = T" by auto
  have h: "held T d \<or> c_peer pe = None \<or> 0 < ext (HChan d) \<or> c_node pe \<noteq> None"
    and hw: "c_node pe = Some WAITING_LIST \<longrightarrow> held T d \<or> 0 < ext (HChan d)"
    using ro unfolding refs_ok_def by auto
  have d3: "k_chans ?k3 d = Some ?pe" using ch2 l(1) by simp
  have fl: "chan_del_ref d (REF_PEER c) ?k3 = Some (dropped d (REF_PEER c) ?pe ?k3)"
    "kinv ext T (dropped d (REF_PEER c) ?pe ?k3)"
    using kinv_del_float [OF inv3 d3, of "REF_PEER c", unfolded TT] h hw by (simp_all add: unsettled_def)
  have ro3: "distinct (c_refs ?pe)" "REF_PEER c \<in> set (c_refs ?pe)"
    using ro r2 unfolding refs_ok_def by auto
  have del: "chan_del_ref d (REF_PEER c) k2 = Some (dropped d (REF_PEER c) ?pe k2)"
  proof (rule chan_del_ref_dropped [OF ch2(2) ro3(2,1)])
    assume s: "set (c_refs ?pe) = {REF_PEER c}"
    have "(d, REF_PEER c) \<in> ?T" by simp
    note sole = sole_float [OF kinvD(1) [OF inv3 d3] s this]
    then show "c_peer ?pe = None \<and> c_node ?pe = None" using h TT by auto
  qed
  have c4: "k_chans (dropped d (REF_PEER c) ?pe k2) c = Some ?ch" using ch2(1) l(1) by simp
  have "chan_shutdown_locked c k = Some (set_chan c ?ch' (dropped d (REF_PEER c) ?pe k2))"
    using k1 k2 del peer c4 by (simp add: chan_shutdown_locked_def upd_chan_def)
  moreover have "set_chan c ?ch' (dropped d (REF_PEER c) ?pe k2) = dropped d (REF_PEER c) ?pe ?k3"
    by (rule set_chan_dropped) (use l(1) in simp)
  moreover have "only_chans k (dropped d (REF_PEER c) ?pe ?k3)"
    using oc by (simp add: only_chans_def)
  ultimately show ?thesis using fl(2) l(1) by auto
qed

lemma upd_refs_state: "x\<lparr>c_refs := r, c_state := s\<rparr> = x\<lparr>c_state := s, c_refs := r\<rparr>" for x :: ipc_chan
  by (cases x) simp

lemma kinv_shutdown_waiting:
  assumes inv: "kinv ext T k" and ch: "k_chans k c = Some ch"
    and state: "c_state ch = IPC_CHAN_STATE_WAITING_FOR_PORT" and node: "c_node ch \<noteq> None"
    and alive: "0 < ext (HChan c) \<or> held T c"
  shows "\<exists>k'. chan_shutdown_locked c k = Some k' \<and> kinv ext T k' \<and> k_ports k' = k_ports k \<and>
    k_chans k' c = Some (ch\<lparr>c_node := None, c_refs := remove1 REF_NODE (c_refs ch),
      c_state := IPC_CHAN_STATE_DISCONNECTING\<rparr>)"
proof -
  let ?D = IPC_CHAN_STATE_DISCONNECTING and ?T = "insert (c, REF_NODE) T"
  have peer: "c_peer ch = None" using kinvD(2) [OF inv ch] state by (simp add: link_ok_def)
  have wl: "c_node ch = Some WAITING_LIST"
    using node kinvD(3) [OF inv ch] state
    by (cases "c_node ch"; cases "the (c_node ch)") (auto simp: node_ok_def)
  note u = kinv_unlink_waiting [OF inv ch wl]
  let ?k1 = "unlinked_waiting c ch k" and ?ch1 = "ch\<lparr>c_node := None\<rparr>"
  have ch1: "k_chans ?k1 c = Some ?ch1" by (simp add: unlinked_waiting_def)
  have nopeer: "pr k e \<noteq> Some c" for e
  proof
    assume "pr k e = Some c"
    then obtain x where "k_chans k e = Some x" "c_peer x = Some c" by (auto simp: pr_def split: option.splits)
    with kinvD(2) [OF inv this(1)] ch state show False by (auto simp: link_ok_def st_def)
  qed
  let ?k2 = "set_chan c (?ch1\<lparr>c_state := ?D\<rparr>) ?k1"
  have acc: "pr ?k1 = pr k" using ch by (auto simp: fun_eq_iff pr_def unlinked_waiting_def)
  have inv2: "kinv ext ?T ?k2"
  proof (rule kinv_disconnect [OF u(2), of _ "{c}"])
    show "k_chans ?k2 = (\<lambda>e. map_option (\<lambda>x. if e \<in> {c} then x\<lparr>c_state := ?D\<rparr> else x) (k_chans ?k1 e))"
      using ch1 by (auto simp: fun_eq_iff option.map_ident)
    show "c_node x \<noteq> Some WAITING_LIST" if "e \<in> {c}" "k_chans ?k1 e = Some x" for e x
      using that ch1 by auto
    show "e \<in> {c}" if "k_chans ?k1 e = Some x" "c_peer x = Some d" "d \<in> {c}" for e x d
    proof -
      have "pr ?k1 e = Some c" using that by (simp add: pr_def)
      then show ?thesis using nopeer [of e] acc by simp
    qed
  qed simp_all
  have ch2: "k_chans ?k2 c = Some (?ch1\<lparr>c_state := ?D\<rparr>)" by simp
  note ro = kinvD(1) [OF inv ch]
  have nn: "(c, REF_NODE) \<notin> T" using ro node by (auto simp: refs_ok_def owned_def)
  then have TT: "?T - {(c, REF_NODE)} = T" by auto
  have mem: "REF_NODE \<in> set (c_refs ch)" using ro node by (auto simp: refs_ok_def owned_def)
  have more: "set (c_refs ch) \<noteq> {REF_NODE}"
    using ro alive nn by (auto simp: refs_ok_def owned_def held_def)
  have "c_peer (?ch1\<lparr>c_state := ?D\<rparr>) = None" using peer by simp
  note fl = kinv_del_float [OF inv2 ch2, of REF_NODE, unfolded TT]
  let ?k3 = "dropped c REF_NODE (?ch1\<lparr>c_state := ?D\<rparr>) ?k2"
  have inv3: "kinv ext T ?k3" using fl(2) peer by (simp add: unsettled_def)
  have del: "chan_del_ref c REF_NODE ?k1 = Some (dropped c REF_NODE ?ch1 ?k1)"
    using ch1 mem more ro by (intro chan_del_ref_dropped) (auto simp: refs_ok_def)
  have "chan_shutdown_locked c k = Some ?k3"
    using ch state node u(1) del more peer
    by (simp add: chan_shutdown_locked_def chan_shutdown_one_def upd_chan_def dropped_def set_chan_def
        upd_refs_state)
  moreover have "k_chans ?k3 c = Some (ch\<lparr>c_node := None, c_refs := remove1 REF_NODE (c_refs ch), c_state := ?D\<rparr>)"
    using more by (simp add: dropped_def upd_refs_state)
  ultimately show ?thesis using inv3 by (simp add: unlinked_waiting_def)
qed

lemma chan_shutdown_idle:
  assumes "k_chans k c = Some ch" "c_state ch = IPC_CHAN_STATE_DISCONNECTING \<or> c_state ch = IPC_CHAN_STATE_INVALID"
    "c_peer ch = None"
  shows "chan_shutdown_locked c k = Some k"
  using assms by (auto simp: chan_shutdown_locked_def chan_shutdown_one_def)

lemma kinv_shutdown:
  assumes inv: "kinv ext T k" and ch: "k_chans k c = Some ch"
    and alive: "0 < ext (HChan c) \<or> held T c \<or> c_state ch \<noteq> IPC_CHAN_STATE_WAITING_FOR_PORT"
    and waiting: "c_state ch = IPC_CHAN_STATE_WAITING_FOR_PORT \<Longrightarrow> c_node ch \<noteq> None"
  shows "\<exists>k' ch'. chan_shutdown_locked c k = Some k' \<and> kinv ext T k' \<and> k_ports k' = k_ports k \<and>
    k_chans k' c = Some ch' \<and> c_peer ch' = None \<and> c_state ch' = disconnected (c_state ch) \<and>
    c_node ch' = (if c_state ch = IPC_CHAN_STATE_WAITING_FOR_PORT then None else c_node ch) \<and>
    c_flags ch' = c_flags ch \<and> c_uuid ch' = c_uuid ch"
proof (cases "c_peer ch")
  case (Some d)
  moreover have "c_state ch \<noteq> IPC_CHAN_STATE_WAITING_FOR_PORT" "c_state ch \<noteq> IPC_CHAN_STATE_INVALID"
    using kinvD(2) [OF inv ch] Some by (auto simp: link_ok_def)
  ultimately show ?thesis
    using kinv_shutdown_peer [OF inv ch Some] by (auto simp: disconnected_def only_chans_def)
next
  case None
  have "mate (c_state ch) = None" using kinvD(2) [OF inv ch] None by (auto simp: link_ok_def)
  then consider "c_state ch = IPC_CHAN_STATE_WAITING_FOR_PORT"
    | "c_state ch = IPC_CHAN_STATE_DISCONNECTING \<or> c_state ch = IPC_CHAN_STATE_INVALID"
    by (cases "c_state ch") auto
  then show ?thesis
  proof cases
    case 1
    with kinv_shutdown_waiting [OF inv ch 1 waiting [OF 1]] alive None show ?thesis
      by (auto simp: disconnected_def)
  next
    case 2
    with chan_shutdown_idle [OF ch 2 None] inv ch None show ?thesis by (auto simp: disconnected_def)
  qed
qed

text \<open>Closing a channel handle.\<close>

lemma kinv_close_chan:
  assumes inv: "kinv ext {} k" and pos: "0 < ext (HChan c)"
  shows "\<exists>k'. handle_close (HChan c) k = Some k' \<and> kinv (ext(HChan c := ext (HChan c) - 1)) {} k' \<and>
    k_ports k' = k_ports k"
proof -
  obtain ch where ch: "k_chans k c = Some ch" using kinv_glob(6) [OF inv pos] by auto
  have w: "c_state ch = IPC_CHAN_STATE_WAITING_FOR_PORT \<Longrightarrow> c_node ch \<noteq> None"
    using kinvD(3) [OF inv ch] by (auto simp: node_ok_def unsettled_def)
  obtain k1 ch1 where k1: "chan_shutdown_locked c k = Some k1" "kinv ext {} k1" "k_ports k1 = k_ports k"
    "k_chans k1 c = Some ch1" "c_peer ch1 = None" "c_state ch1 = disconnected (c_state ch)"
    "c_node ch1 = (if c_state ch = IPC_CHAN_STATE_WAITING_FOR_PORT then None else c_node ch)"
    using kinv_shutdown [OF inv ch _ w] pos by blast
  have "c_node ch1 \<noteq> None \<or> \<not> unsettled (c_state ch1)"
    using kinvD(3) [OF inv ch] k1(6,7)
    by (auto simp: node_ok_def unsettled_def disconnected_def split: if_splits)
  moreover have "c_node ch1 \<noteq> Some WAITING_LIST"
    using kinvD(3) [OF inv ch] k1(7) by (auto simp: node_ok_def)
  ultimately obtain k2 where "handle_decref (HChan c) k1 = Some k2"
    "kinv (ext(HChan c := ext (HChan c) - 1)) {} k2" "k_ports k2 = k_ports k1"
    using kinv_decref_chan [OF k1(2) pos k1(4)] k1(5) by auto
  then show ?thesis using k1 by (simp add: handle_close_def)
qed

section \<open>Shutting down a port\<close>

lemma kinv_port_closing:
  assumes inv: "kinv ext T k" and po: "k_ports k p = Some po" and "\<not> p_in_list po"
  shows "kinv ext T (set_port p (po\<lparr>p_state := IPC_PORT_STATE_CLOSING\<rparr>) k)"
proof (rule kinv_set_port [OF inv po])
  show "port_inv ext k p (po\<lparr>p_state := IPC_PORT_STATE_CLOSING\<rparr>)"
    using kinvD(5) [OF inv po] assms(3) by (simp add: port_inv_def)
qed simp_all

definition unpublished :: "nat \<Rightarrow> ipc_port \<Rightarrow> kern \<Rightarrow> kern" where
  "unpublished p po k = set_port p (po\<lparr>p_state := IPC_PORT_STATE_CLOSING, p_in_list := False\<rparr>)
     (k\<lparr>k_port_list := remove1 p (k_port_list k)\<rparr>)"

lemma kinv_unpublish:
  assumes inv: "kinv ext T k" and po: "k_ports k p = Some po" and pub: "p_in_list po"
  shows "kinv (ext(HPort p := Suc (ext (HPort p)))) T (unpublished p po k)" (is "kinv ?ext T ?k")
proof -
  have acc: "pr ?k = pr k" "st ?k = st k" "nd ?k = nd k" "pend ?k = pend k" "port_path ?k = port_path k"
    "k_chans ?k = k_chans k" "k_waiting ?k = k_waiting k" "k_next ?k = k_next k"
    "k_port_list ?k = remove1 p (k_port_list k)"
    using po by (auto simp: fun_eq_iff pr_def st_def nd_def pend_def port_path_def unpublished_def)
  have ports: "k_ports ?k = (k_ports k)(p := Some (po\<lparr>p_state := IPC_PORT_STATE_CLOSING, p_in_list := False\<rparr>))"
    by (simp add: unpublished_def)
  have inl: "q \<in> set (k_port_list ?k) \<longleftrightarrow> q \<in> set (k_port_list k) \<and> q \<noteq> p" for q
    using kinv_glob(8) [OF inv] by (simp add: acc distinct_remove1_iff)
  show ?thesis
  proof (rule kinvI)
    fix c ch assume "k_chans ?k c = Some ch"
    then have c: "k_chans k c = Some ch" by (simp add: acc)
    show "refs_ok ?ext T ?k c ch" "link_ok ?k c ch" "node_ok T ?k c ch" "queue_ok ch"
      using kinvD(1-4) [OF inv c] by (simp_all add: refs_ok_def link_ok_def node_ok_def owned_def acc)
  next
    fix q qo assume q: "k_ports ?k q = Some qo"
    show "port_inv ?ext ?k q qo"
    proof (cases "q = p")
      case True
      then have qo: "qo = po\<lparr>p_state := IPC_PORT_STATE_CLOSING, p_in_list := False\<rparr>" using q by (simp add: ports)
      note i = kinvD(5) [OF inv po, unfolded port_inv_def]
      show ?thesis unfolding port_inv_def acc(3) inl True qo using i pub by auto
    next
      case False
      then have qk: "k_ports k q = Some qo" using q by (simp add: ports)
      have "port_inv ?ext ?k q qo = port_inv ext k q qo" using False inl [of q] by (simp add: port_inv_def acc)
      then show ?thesis using kinvD(5) [OF inv qk] by simp
    qed
  next
    show "glob_inv ?ext T ?k"
    proof (rule glob_invI)
      fix q assume "q \<in> set (k_port_list ?k)"
      then show "k_ports ?k q \<noteq> None" using kinv_glob(1) [OF inv, of q] inl by (auto simp: ports)
    next
      fix q qo assume "k_ports ?k q = Some qo"
      then show "q < k_next ?k" using kinv_glob(4) [OF inv, of q] po by (auto simp: ports acc split: if_splits)
    next
      fix q assume "0 < ?ext (HPort q)"
      then show "k_ports ?k q \<noteq> None" using kinv_glob(5) [OF inv, of q] by (auto simp: ports split: if_splits)
    next
      fix c ch assume "k_chans ?k c = Some ch"
      then show "c < k_next ?k" using kinv_glob(3) [OF inv, of c ch] by (simp add: acc)
    next
      fix c assume "0 < ?ext (HChan c)"
      then show "k_chans ?k c \<noteq> None" using kinv_glob(6) [OF inv, of c] by (simp add: acc)
    next
      fix c r assume "(c, r) \<in> T"
      then show "k_chans ?k c \<noteq> None" using kinv_glob(7) [OF inv, of c r] by (simp add: acc)
    next
      fix c assume "c \<in> set (k_waiting ?k)"
      then show "k_chans ?k c \<noteq> None" using kinv_glob(2) [OF inv, of c] by (simp add: acc)
    next
      have "distinct (map (port_path k) (k_port_list k))" by (rule kinv_glob(10) [OF inv])
      then show "distinct (map (port_path ?k) (k_port_list ?k))"
        unfolding acc(5,9) by (auto simp: distinct_map inj_on_def)
    qed (use kinv_glob(8,9) [OF inv] in \<open>simp_all add: acc\<close>)
  qed
qed

lemma pend_node:
  assumes "kinv ext T k" "c \<in> set (pend k p)"
  shows "\<exists>ch. k_chans k c = Some ch \<and> c_node ch = Some (PENDING_LIST p)"
proof -
  from assms(2) obtain po where po: "k_ports k p = Some po" "c \<in> set (p_pending_list po)"
    by (cases "k_ports k p") (auto simp: pend_def)
  then have "nd k c = Some (PENDING_LIST p)" using kinvD(5) [OF assms(1) po(1)] by (auto simp: port_inv_def)
  then show ?thesis by (cases "k_chans k c") (auto simp: nd_def)
qed

definition closing :: "kern \<Rightarrow> nat \<Rightarrow> bool" where
  "closing k p \<longleftrightarrow> (\<forall>po. k_ports k p = Some po \<longrightarrow> p_state po = IPC_PORT_STATE_CLOSING)"

lemma port_shutdown_loop_ok:
  assumes "kinv ext {} k" "pend k p = ss" "0 < ext (HPort p)"
  shows "\<exists>k'. port_shutdown_loop p ss k = Some k' \<and> kinv ext {} k' \<and> pend k' p = [] \<and>
    (closing k p \<longrightarrow> closing k' p) \<and>
    (\<forall>q. q \<noteq> p \<longrightarrow> k_ports k' q = k_ports k q)"
  using assms
proof (induction ss arbitrary: k)
  case Nil
  then show ?case by auto
next
  case (Cons c ss)
  note inv = Cons.prems(1)
  obtain ch where ch: "k_chans k c = Some ch" "c_node ch = Some (PENDING_LIST p)"
    using pend_node [OF inv, of c p] Cons.prems(2) by auto
  have s: "c_state ch \<noteq> IPC_CHAN_STATE_WAITING_FOR_PORT" "disconnected (c_state ch) = IPC_CHAN_STATE_DISCONNECTING"
    using kinvD(3) [OF inv ch(1)] ch(2) by (auto simp: node_ok_def disconnected_def)
  obtain k1 ch1 where k1: "chan_shutdown_locked c k = Some k1" "kinv ext {} k1" "k_ports k1 = k_ports k"
    "k_chans k1 c = Some ch1" "c_peer ch1 = None" "c_state ch1 = IPC_CHAN_STATE_DISCONNECTING"
    "c_node ch1 = Some (PENDING_LIST p)"
    using kinv_shutdown [OF inv ch(1)] s ch(2) by auto
  let ?ext = "ext(HPort p := Suc (ext (HPort p)))"
  obtain po where po: "k_ports k1 p = Some po"
    "chan_list_delete c k1 = Some (unlinked_pending c ch1 p po k1)"
    "kinv ?ext {(c, REF_NODE)} (unlinked_pending c ch1 p po k1)"
    using kinv_unlink_pending [OF k1(2,4,7)] by metis
  let ?k2 = "unlinked_pending c ch1 p po k1" and ?ch2 = "ch1\<lparr>c_node := None\<rparr>"
  have ch2: "k_chans ?k2 c = Some ?ch2" by (simp add: unlinked_pending_def)
  have del: "chan_del_ref c REF_NODE ?k2 = Some (dropped c REF_NODE ?ch2 ?k2)"
    and inv3: "kinv ?ext {} (dropped c REF_NODE ?ch2 ?k2)"
    using kinv_del_float [OF po(3) ch2, of REF_NODE] k1(5,6) by (simp_all add: unsettled_def)
  let ?k3 = "dropped c REF_NODE ?ch2 ?k2"
  have p3: "k_ports ?k3 p = Some (po\<lparr>p_pending_list := remove1 c (p_pending_list po)\<rparr>)"
    by (simp add: unlinked_pending_def)
  have "?ext(HPort p := ?ext (HPort p) - 1) = ext" by auto
  then obtain k4 where k4: "handle_decref (HPort p) ?k3 = Some k4" "kinv ext {} k4"
    "\<forall>q. q \<noteq> p \<longrightarrow> k_ports k4 q = k_ports ?k3 q"
    "k_ports k4 p = (if h_refcnt (p_handle po) = 1 then None
        else Some (po\<lparr>p_pending_list := remove1 c (p_pending_list po), p_handle := (p_handle po)\<lparr>h_refcnt := h_refcnt (p_handle po) - 1\<rparr>\<rparr>))"
    using kinv_decref_port [OF inv3, of p] p3 by auto
  have "k_ports k4 p \<noteq> None" using kinv_glob(5) [OF k4(2) Cons.prems(3)] .
  moreover have "p_pending_list po = c # ss" using po(1) k1(3) Cons.prems(2) by (simp add: pend_def)
  ultimately have "pend k4 p = ss" using k4(4) by (auto simp: pend_def split: if_splits)
  moreover have "closing k p \<Longrightarrow> closing k4 p" using k4(4) po(1) k1(3) by (auto simp: closing_def split: if_splits)
  ultimately show ?case using Cons.IH [OF k4(2) _ Cons.prems(3)] k1 po del k4(1,3)
    by (auto simp: unlinked_pending_def)
qed

lemma kinv_close_port:
  assumes inv: "kinv ext {} k" and pos: "0 < ext (HPort p)"
  shows "\<exists>k'. handle_close (HPort p) k = Some k' \<and> kinv (ext(HPort p := ext (HPort p) - 1)) {} k' \<and>
    (ext (HPort p) = 1 \<longrightarrow> k_ports k' p = None) \<and>
    (\<forall>q. q \<noteq> p \<longrightarrow> k_ports k' q = k_ports k q)"
proof -
  obtain po where po: "k_ports k p = Some po" using kinv_glob(5) [OF inv pos] by auto
  let ?k0 = "set_port p (po\<lparr>p_state := IPC_PORT_STATE_CLOSING\<rparr>) k"
  have "\<exists>k1. (if p_in_list po then do {
             k \<leftarrow> upd_port p (\<lambda>po. po\<lparr>p_in_list := False\<rparr>)
                   (?k0\<lparr>k_port_list := remove1 p (k_port_list ?k0)\<rparr>);
             handle_decref (HPort p) k }
           else Some ?k0) = Some k1 \<and> kinv ext {} k1 \<and> closing k1 p \<and> (\<forall>q. q \<noteq> p \<longrightarrow> k_ports k1 q = k_ports k q)"
  proof (cases "p_in_list po")
    case False
    with kinv_port_closing [OF inv po False] show ?thesis by (simp add: closing_def)
  next
    case True
    let ?ext = "ext(HPort p := Suc (ext (HPort p)))"
    have "upd_port p (\<lambda>po. po\<lparr>p_in_list := False\<rparr>) (?k0\<lparr>k_port_list := remove1 p (k_port_list ?k0)\<rparr>) =
        Some (unpublished p po k)"
      by (simp add: upd_port_def unpublished_def set_port_def)
    moreover have "?ext(HPort p := ?ext (HPort p) - 1) = ext" by auto
    moreover note kinv_decref_port [OF kinv_unpublish [OF inv po True], of p]
    ultimately show ?thesis using True by (auto simp: unpublished_def closing_def split: if_splits)
  qed
  then obtain k1 where k1: "(if p_in_list po then do {
             k \<leftarrow> upd_port p (\<lambda>po. po\<lparr>p_in_list := False\<rparr>)
                   (?k0\<lparr>k_port_list := remove1 p (k_port_list ?k0)\<rparr>);
             handle_decref (HPort p) k }
           else Some ?k0) = Some k1" "kinv ext {} k1" "closing k1 p" "\<forall>q. q \<noteq> p \<longrightarrow> k_ports k1 q = k_ports k q" by blast
  obtain po1 where po1: "k_ports k1 p = Some po1" using kinv_glob(5) [OF k1(2) pos] by auto
  then have "pend k1 p = p_pending_list po1" by (simp add: pend_def)
  from port_shutdown_loop_ok [OF k1(2) this pos] k1(3) obtain k2 where
    k2: "port_shutdown_loop p (p_pending_list po1) k1 = Some k2" "kinv ext {} k2"
    "pend k2 p = []" "closing k2 p" "\<forall>q. q \<noteq> p \<longrightarrow> k_ports k2 q = k_ports k1 q" by blast
  obtain k' where k': "handle_decref (HPort p) k2 = Some k'" "kinv (ext(HPort p := ext (HPort p) - 1)) {} k'"
    "\<forall>q. q \<noteq> p \<longrightarrow> k_ports k' q = k_ports k2 q"
    "\<forall>po. k_ports k2 p = Some po \<longrightarrow> k_ports k' p =
       (if h_refcnt (p_handle po) = 1 then None
        else Some (po\<lparr>p_handle := (p_handle po)\<lparr>h_refcnt := h_refcnt (p_handle po) - 1\<rparr>\<rparr>))"
    using kinv_decref_port [OF k2(2) pos] by blast
  obtain po2 where po2: "k_ports k2 p = Some po2" using kinv_glob(5) [OF k2(2) pos] by auto
  have "h_refcnt (p_handle po2) = int (ext (HPort p))"
    using port_refcnt(2) [OF k2(2) po2] kinvD(5) [OF k2(2) po2] k2(3,4) po2
    by (auto simp: pend_def closing_def port_inv_def)
  then have "ext (HPort p) = 1 \<longrightarrow> k_ports k' p = None" using k'(4) po2 by simp
  moreover have "port_shutdown p k = Some k2"
    using po k1(1) po1 k2(1) unfolding port_shutdown_def Let_def by simp
  ultimately show ?thesis using k' k1(4) k2(5) by (auto simp: handle_close_def)
qed

end
