(* ===== verification/Connection.thy ===== *)
theory Connection
  imports Lifetime
begin

text \<open>
  The operations of \<^verbatim>\<open>ipc.c\<close> under the lifetime invariant: making a connection to a port or waiting
  for one, publishing a port to the clients that wait for it, accepting, closing, and the message
  operations on the ends of a connection.  Each operation is shown to return (no assertion fails, no
  freed or missing object is reached) and to keep the invariant, with what it does to the references.
\<close>

section \<open>New channels\<close>

lemma alloc_ok_frame:
  assumes "alloc_ok k = (ok, k')"
  shows "same_objs k k'" "k_next k' = k_next k" "k_hlists k' = k_hlists k" "k_uctx k' = k_uctx k" "k_hyp k' = k_hyp k"
    "k_alloc k = [] \<Longrightarrow> ok \<and> k' = k"
  using assms by (auto simp: alloc_ok_def same_objs_def split: list.splits)

lemma unused_chan:
  assumes inv: "kinv ext T k" and none: "k_chans k c = None"
  shows "ext (HChan c) = 0" "(c, r) \<notin> T" "pr k d \<noteq> Some c" "c \<notin> set (k_waiting k)" "c \<notin> set (pend k p)"
proof -
  show "ext (HChan c) = 0" using kinv_glob(6) [OF inv, of c] none by auto
  show "(c, r) \<notin> T" using kinv_glob(7) [OF inv, of c r] none by auto
  show "c \<notin> set (k_waiting k)" using kinv_glob(2) [OF inv, of c] none by auto
  show "c \<notin> set (pend k p)" using pend_node [OF inv, of c p] none by auto
  show "pr k d \<noteq> Some c"
  proof
    assume "pr k d = Some c"
    then obtain x where "k_chans k d = Some x" "c_peer x = Some c" by (cases "k_chans k d") (auto simp: pr_def)
    with kinvD(2) [OF inv this(1)] none show False by (auto simp: link_ok_def st_def)
  qed
qed

definition new_chan :: "u32 \<Rightarrow> uuid_ref option \<Rightarrow> ref_node \<Rightarrow> ipc_chan" where
  "new_chan flags uuid ref = \<lparr>c_refs = [ref], c_peer = None, c_uuid = uuid,
     c_state = IPC_CHAN_STATE_INVALID, c_flags = flags, c_aux_state = 0,
     c_handle = handle_zero, c_node = None, c_msg_queue = None, c_path = None\<rparr>"

lemma new_chan_simps [simp]:
  "c_refs (new_chan flags uuid ref) = [ref]" "c_peer (new_chan flags uuid ref) = None"
  "c_state (new_chan flags uuid ref) = IPC_CHAN_STATE_INVALID" "c_node (new_chan flags uuid ref) = None"
  "c_msg_queue (new_chan flags uuid ref) = None" "c_handle (new_chan flags uuid ref) = handle_zero"
  "c_flags (new_chan flags uuid ref) = flags" "c_uuid (new_chan flags uuid ref) = uuid"
  by (simp_all add: new_chan_def)

lemma kinv_new_chan:
  assumes inv: "kinv ext T k" and c: "c = k_next k"
  shows "kinv ext (insert (c, REF_TMP) T) (set_chan c (new_chan flags uuid REF_TMP) (k\<lparr>k_next := Suc c\<rparr>))"
    (is "kinv ext ?T ?k")
proof -
  have none: "k_chans k c = None" using kinv_glob(3) [OF inv, of c] c by (cases "k_chans k c") auto
  note un = unused_chan [OF inv none]
  have chans: "k_chans ?k = (k_chans k)(c := Some (new_chan flags uuid REF_TMP))" by simp
  have acc: "pr ?k = pr k" "nd ?k = nd k" "pend ?k = pend k" "port_path ?k = port_path k"
    "d \<noteq> c \<Longrightarrow> st ?k d = st k d" for d
    using none by (auto simp: fun_eq_iff pr_def st_def nd_def pend_def port_path_def)
  show ?thesis
  proof (rule kinvI)
    fix d x assume d: "k_chans ?k d = Some x"
    consider "d = c" "x = new_chan flags uuid REF_TMP" | "d \<noteq> c" "k_chans k d = Some x"
      using d by (auto split: if_splits)
    then have "refs_ok ext ?T ?k d x \<and> link_ok ?k d x \<and> node_ok ?T ?k d x \<and> queue_ok x"
    proof cases
      case 1
      have "owned ext ?k c x = {}" using un 1 by (auto simp: owned_def acc)
      moreover have "{r. (c, r) \<in> ?T} = {REF_TMP}" using un(2) by auto
      ultimately have "refs_ok ext ?T ?k c x"
        unfolding refs_ok_def using un(1) 1 by (simp add: handle_zero_def)
      then show ?thesis using 1 un by (simp add: link_ok_def node_ok_def queue_ok_def acc)
    next
      case 2
      have "refs_ok ext ?T ?k d x = refs_ok ext T k d x"
        by (rule refs_ok_other) (use acc 2 in auto)
      moreover have "node_ok ?T ?k d x = node_ok T k d x" using 2 by (simp add: node_ok_def acc)
      moreover have "c_peer x \<noteq> Some c" using un(3) [of d] 2 by (simp add: pr_def)
      then have "link_ok ?k d x = link_ok k d x" using 2
        by (cases "c_peer x") (auto simp: link_ok_def acc)
      ultimately show ?thesis using kinvD(1-4) [OF inv 2(2)] by simp
    qed
    then show "refs_ok ext ?T ?k d x" "link_ok ?k d x" "node_ok ?T ?k d x" "queue_ok x" by simp_all
  next
    fix p po assume "k_ports ?k p = Some po"
    then show "port_inv ext ?k p po"
      using kinvD(5) [OF inv, of p po] port_inv_cong [OF acc(2)] by simp
  next
    show "glob_inv ext ?T ?k"
    proof (rule glob_invI)
      fix d x assume "k_chans ?k d = Some x"
      then show "d < k_next ?k" using kinv_glob(3) [OF inv, of d] c by (fastforce split: if_splits)
    next
      fix p po assume "k_ports ?k p = Some po"
      then show "p < k_next ?k" using kinv_glob(4) [OF inv, of p po] c by simp
    next
      fix p assume "0 < ext (HPort p)"
      then show "k_ports ?k p \<noteq> None" using kinv_glob(5) [OF inv, of p] by simp
    next
      fix d assume "0 < ext (HChan d)"
      then show "k_chans ?k d \<noteq> None" using kinv_glob(6) [OF inv, of d] by simp
    next
      fix d r assume "(d, r) \<in> ?T"
      then show "k_chans ?k d \<noteq> None" using kinv_glob(7) [OF inv, of d r] by auto
    next
      fix d assume "d \<in> set (k_waiting ?k)"
      then show "k_chans ?k d \<noteq> None" using kinv_glob(2) [OF inv, of d] by simp
    next
      fix p assume "p \<in> set (k_port_list ?k)"
      then show "k_ports ?k p \<noteq> None" using kinv_glob(1) [OF inv, of p] by simp
    qed (use kinv_glob(8-10) [OF inv] in \<open>simp_all add: acc\<close>)
  qed
qed

lemma kinv_chan_alloc:
  assumes inv: "kinv ext T k" and al: "chan_alloc flags uuid REF_TMP k = (co, k')"
  shows "(co = None \<and> kinv ext T k' \<and> same_objs k k' \<and> k_alloc k \<noteq> []) \<or>
    (co = Some (k_next k) \<and> k_chans k (k_next k) = None \<and>
      kinv ext (insert (k_next k, REF_TMP) T) k' \<and>
      k_chans k' = (k_chans k)(k_next k := Some (new_chan flags uuid REF_TMP)) \<and>
      k_ports k' = k_ports k \<and> k_port_list k' = k_port_list k \<and> k_waiting k' = k_waiting k \<and> k_hyp k' = k_hyp k \<and>
      (k_alloc k = [] \<longrightarrow> k_alloc k' = []))"
proof -
  obtain ok k1 where ok: "alloc_ok k = (ok, k1)" by (metis prod.exhaust)
  note f = alloc_ok_frame [OF ok]
  have inv1: "kinv ext T k1" by (rule kinv_same_objs [OF inv f(1)])
  have none: "k_chans k (k_next k) = None"
    using kinv_glob(3) [OF inv, of "k_next k"] by (cases "k_chans k (k_next k)") auto
  show ?thesis
  proof (cases ok)
    case False
    with al ok f inv1 show ?thesis by (auto simp: chan_alloc_def)
  next
    case True
    then have "co = Some (k_next k1)"
      "k' = set_chan (k_next k1) (new_chan flags uuid REF_TMP) (k1\<lparr>k_next := Suc (k_next k1)\<rparr>)"
      using al ok by (auto simp: chan_alloc_def new_chan_def Let_def)
    with kinv_new_chan [OF inv1 refl] f none show ?thesis by (auto simp: same_objs_def)
  qed
qed

section \<open>Attaching a client to a port\<close>

definition att_client :: "nat \<Rightarrow> ipc_msg_queue \<Rightarrow> ipc_chan \<Rightarrow> ipc_chan" where
  "att_client server mq cl = cl\<lparr>c_msg_queue := Some mq, c_state := IPC_CHAN_STATE_CONNECTING,
     c_peer := Some server, c_refs := c_refs cl @ [REF_PEER server]\<rparr>"

definition att_server :: "nat \<Rightarrow> nat \<Rightarrow> ipc_msg_queue \<Rightarrow> ipc_chan \<Rightarrow> ipc_chan" where
  "att_server p client mq sv = sv\<lparr>c_msg_queue := Some mq, c_state := IPC_CHAN_STATE_ACCEPTING,
     c_refs := c_refs sv @ [REF_PEER client, REF_NODE], c_peer := Some client, c_node := Some (PENDING_LIST p)\<rparr>"

definition att_port :: "nat \<Rightarrow> ipc_port \<Rightarrow> ipc_port" where
  "att_port server po = po\<lparr>p_pending_list := p_pending_list po @ [server],
     p_handle := (p_handle po)\<lparr>h_refcnt := h_refcnt (p_handle po) + 1\<rparr>\<rparr>"

lemma kinv_attach:
  assumes inv: "kinv ext T k" and cl: "k_chans k client = Some cl" and sv: "k_chans k server = Some sv"
    and po: "k_ports k p = Some po" and ne: "client \<noteq> server"
    and svs: "c_state sv = IPC_CHAN_STATE_INVALID" "c_node sv = None" "c_flags sv AND IPC_CHAN_FLAG_SERVER \<noteq> 0"
      "held T server" "(server, REF_PEER client) \<notin> T" "(server, REF_NODE) \<notin> T"
      "ext (HChan server) = 0"
    and cls: "c_state cl = IPC_CHAN_STATE_INVALID \<or> c_state cl = IPC_CHAN_STATE_WAITING_FOR_PORT"
      "c_node cl = None" "held T client" "(client, REF_PEER server) \<notin> T"
    and mq: "mq_inv cq" "mq_inv sq"
    and k': "k_chans k' = (k_chans k)(client := Some (att_client server cq cl), server := Some (att_server p client sq sv))"
      "k_ports k' = (k_ports k)(p := Some (att_port server po))"
      "k_port_list k' = k_port_list k" "k_waiting k' = k_waiting k" "k_next k' = k_next k"
  shows "kinv ext T k'"
proof -
  have early: "pr k e \<noteq> Some c" "c_peer ch = None"
    if "k_chans k c = Some ch" "c_state ch = IPC_CHAN_STATE_INVALID \<or> c_state ch = IPC_CHAN_STATE_WAITING_FOR_PORT"
    for e c ch
  proof -
    show "c_peer ch = None" using kinvD(2) [OF inv that(1)] that(2) by (auto simp: link_ok_def)
    show "pr k e \<noteq> Some c"
    proof
      assume "pr k e = Some c"
      then obtain x where "k_chans k e = Some x" "c_peer x = Some c" by (cases "k_chans k e") (auto simp: pr_def)
      with kinvD(2) [OF inv this(1)] that show False by (auto simp: link_ok_def st_def)
    qed
  qed
  have nop: "pr k e \<noteq> Some client" "pr k e \<noteq> Some server" for e
    using early(1) [OF cl cls(1)] early(1) [OF sv] svs(1) by blast+
  have pr': "pr k' e = (if e = client then Some server else if e = server then Some client else pr k e)" for e
    using ne by (simp add: pr_def k' att_client_def att_server_def)
  have st': "st k' e = (if e = client then Some IPC_CHAN_STATE_CONNECTING
      else if e = server then Some IPC_CHAN_STATE_ACCEPTING else st k e)" for e
    using ne by (simp add: st_def k' att_client_def att_server_def)
  have nd': "nd k' e = (if e = server then Some (PENDING_LIST p) else nd k e)" for e
    using ne cl by (simp add: nd_def k' att_client_def att_server_def)
  have pend': "pend k' q = (if q = p then pend k p @ [server] else pend k q)" for q
    using po by (simp add: pend_def k' att_port_def)
  have path': "port_path k' = port_path k" using po by (auto simp: fun_eq_iff port_path_def k' att_port_def)
  have svn: "server \<notin> set (k_waiting k)" "server \<notin> set (pend k q)" for q
    using kinvD(3) [OF inv sv] svs(2) by (auto simp: node_ok_def)
  have peers: "{f. pr k' f = Some e} = (if e = client then {server} else if e = server then {client}
      else {f. pr k f = Some e})" for e
    using nop early(2) [OF cl cls(1)] early(2) [OF sv] svs(1) cl sv ne
    by (auto simp: pr') (auto simp: pr_def)
  have nopeers: "{f. pr k f = Some client} = {}" "{f. pr k f = Some server} = {}" using nop by auto
  have rc: "refs_ok ext T k' client (att_client server cq cl)"
  proof -
    have o: "owned ext k' client (att_client server cq cl) = insert (REF_PEER server) (owned ext k client cl)"
      "REF_PEER server \<notin> owned ext k client cl"
      unfolding owned_def peers nopeers by (auto simp: att_client_def)
    then show ?thesis
      using kinvD(1) [OF inv cl] cls(3,4) unfolding refs_ok_def o by (simp add: att_client_def)
  qed
  have rs: "refs_ok ext T k' server (att_server p client sq sv)"
  proof -
    have o: "owned ext k' server (att_server p client sq sv) = {REF_PEER client, REF_NODE} \<union> owned ext k server sv"
      "REF_PEER client \<notin> owned ext k server sv" "REF_NODE \<notin> owned ext k server sv"
      unfolding owned_def peers nopeers using ne svs(2) by (auto simp: att_server_def)
    then show ?thesis
      using kinvD(1) [OF inv sv] svs(4-7) unfolding refs_ok_def o by (simp add: att_server_def)
  qed
  show ?thesis
  proof (rule kinvI)
    fix e x assume e: "k_chans k' e = Some x"
    consider "e = client" "x = att_client server cq cl" | "e = server" "x = att_server p client sq sv"
      | "e \<noteq> client" "e \<noteq> server" "k_chans k e = Some x"
      using e by (auto simp: k' split: if_splits)
    then have "refs_ok ext T k' e x \<and> link_ok k' e x \<and> node_ok T k' e x \<and> queue_ok x"
    proof cases
      case 1
      have "link_ok k' client x"
        using ne 1 by (simp add: link_ok_def pr' st') (auto simp: att_client_def)
      moreover have "node_ok T k' client x"
        using kinvD(3) [OF inv cl] cls(2,3) ne 1 by (simp add: node_ok_def k' pend') (auto simp: att_client_def)
      moreover have "queue_ok x" using mq 1 by (simp add: queue_ok_def att_client_def)
      ultimately show ?thesis using rc 1 by simp
    next
      case 2
      have "link_ok k' server x"
        using ne 2 by (simp add: link_ok_def pr' st') (auto simp: att_server_def)
      moreover have "node_ok T k' server x"
        using svn svs(3) 2 by (simp add: node_ok_def k' pend') (auto simp: att_server_def)
      moreover have "queue_ok x" using mq 2 by (simp add: queue_ok_def att_server_def)
      ultimately show ?thesis using rs 2 by simp
    next
      case 3
      have "owned ext k' e x = owned ext k e x" unfolding owned_def peers using 3 by simp
      then have "refs_ok ext T k' e x = refs_ok ext T k e x" by (simp add: refs_ok_def)
      moreover have "c_peer x \<noteq> Some client" "c_peer x \<noteq> Some server"
        using nop [of e] 3 by (simp_all add: pr_def)
      then have "link_ok k' e x = link_ok k e x" using 3
        by (cases "c_peer x") (auto simp: link_ok_def pr' st')
      moreover have "e \<in> set (pend k' q) \<longleftrightarrow> e \<in> set (pend k q)" for q using 3 by (simp add: pend')
      then have "node_ok T k' e x = node_ok T k e x" by (simp add: node_ok_def k')
      ultimately show ?thesis using kinvD(1-4) [OF inv 3(3)] by simp
    qed
    then show "refs_ok ext T k' e x" "link_ok k' e x" "node_ok T k' e x" "queue_ok x" by simp_all
  next
    fix q qo assume q: "k_ports k' q = Some qo"
    show "port_inv ext k' q qo"
    proof (cases "q = p")
      case True
      then have qo: "qo = att_port server po" using q by (simp add: k')
      have ps: "p_pending_list po = pend k p" using po by (simp add: pend_def)
      note i = kinvD(5) [OF inv po, unfolded port_inv_def]
      show ?thesis
        unfolding port_inv_def k'(3) True qo using i svn(2) [of p] ps
        by (auto simp: att_port_def nd')
    next
      case False
      then have qk: "k_ports k q = Some qo" using q by (simp add: k')
      have "nd k' d = nd k d" if "d \<in> set (p_pending_list qo)" for d
        using svn(2) [of q] qk that by (auto simp: nd' pend_def)
      then have "port_inv ext k' q qo = port_inv ext k q qo" by (simp add: port_inv_def k'(3))
      then show ?thesis using kinvD(5) [OF inv qk] by simp
    qed
  next
    show "glob_inv ext T k'"
      by (rule glob_inv_same_dom [OF inv])
        (use kinv_glob(9) [OF inv] cl sv po in \<open>auto simp: k' path' held_def\<close>)
  qed
qed

lemma msg_queue_alloc_result:
  assumes "msg_queue_alloc num sz k = (ret, mq, k')" "num \<le> IPC_CHAN_MAX_BUFS" "sz \<le> IPC_CHAN_MAX_BUF_SIZE"
  shows "same_objs k k' \<and> k_next k' = k_next k \<and> k_hyp k' = k_hyp k \<and> (ret = NO_ERROR \<longrightarrow> (\<exists>q. mq = Some q \<and> mq_inv q)) \<and>
    (k_alloc k = [] \<longrightarrow> ret = NO_ERROR \<and> k_alloc k' = [])"
proof -
  obtain ok1 k1 where a1: "alloc_ok k = (ok1, k1)" by (metis prod.exhaust)
  obtain ok2 k2 where a2: "(if ok1 then alloc_ok k1 else (False, k1)) = (ok2, k2)" by (metis prod.exhaust)
  obtain mq1 where c: "ipc_msg_queue_create True True (k_junk k2) num sz = (NO_ERROR, Some mq1)" "mq_inv mq1"
    using mq_inv_create [OF assms(2,3)] by metis
  have f2: "same_objs k1 k2" "k_next k2 = k_next k1" "k_hyp k2 = k_hyp k1" "k_alloc k1 = [] \<Longrightarrow> ok1 \<Longrightarrow> ok2 \<and> k2 = k1"
    using a2 alloc_ok_frame [of k1 ok2 k2] by (auto simp: same_objs_def split: if_splits)
  note f1 = alloc_ok_frame [OF a1]
  have "k' = k2" "ret = (if ok1 \<and> ok2 then NO_ERROR else ERR_NO_MEMORY)"
    "mq = (if ok1 \<and> ok2 then Some mq1 else None)"
    using assms(1) a1 a2 c(1) by (auto simp: msg_queue_alloc_def ipc_msg_queue_create_def split: if_splits)
  then show ?thesis using f1 f2 c(2) by (auto simp: same_objs_def err_simps)
qed

lemma msg_queue_alloc_codes:
  "msg_queue_alloc num sz k = (ret, mq, k') \<Longrightarrow> ret = NO_ERROR \<or> ret = ERR_NO_MEMORY"
  by (auto simp: msg_queue_alloc_def ipc_msg_queue_create_def Let_def split: prod.splits if_splits)

text \<open>Dropping the server channel again when a queue could not be made.\<close>

lemma kinv_drop_new:
  assumes inv: "kinv ext (insert (c, REF_TMP) T) k" and ch: "k_chans k c = Some ch"
    and new: "c_refs ch = [REF_TMP]" "c_peer ch = None" "\<not> held T c"
  shows "chan_del_ref c REF_TMP k = Some (k\<lparr>k_chans := (k_chans k)(c := None)\<rparr>)"
    and "kinv ext T (k\<lparr>k_chans := (k_chans k)(c := None)\<rparr>)"
proof -
  have TT: "insert (c, REF_TMP) T - {(c, REF_TMP)} = T" using new(3) by (auto simp: held_def)
  have nodeless: "c_node ch = None"
  proof (rule ccontr)
    assume "c_node ch \<noteq> None"
    then have "REF_NODE \<in> set (c_refs ch)" using kinvD(1) [OF inv ch] unfolding refs_ok_def owned_def by auto
    then show False using new(1) by simp
  qed
  note d = kinv_del_float [OF inv ch, of REF_TMP, unfolded TT]
  show "chan_del_ref c REF_TMP k = Some (k\<lparr>k_chans := (k_chans k)(c := None)\<rparr>)"
    "kinv ext T (k\<lparr>k_chans := (k_chans k)(c := None)\<rparr>)"
    using d new nodeless by (simp_all add: dropped_def)
qed

lemma kinv_set_queue:
  assumes inv: "kinv ext T k" and ch: "k_chans k c = Some ch" and "mate (c_state ch) = None" "\<And>q. mq = Some q \<Longrightarrow> mq_inv q"
  shows "kinv ext T (set_chan c (ch\<lparr>c_msg_queue := mq\<rparr>) k)"
proof (rule kinv_set_chan [OF inv ch])
  show "refs_ok ext T k c (ch\<lparr>c_msg_queue := mq\<rparr>)" "link_ok k c (ch\<lparr>c_msg_queue := mq\<rparr>)"
    "node_ok T k c (ch\<lparr>c_msg_queue := mq\<rparr>)" "queue_ok (ch\<lparr>c_msg_queue := mq\<rparr>)"
    using kinvD(1-3) [OF inv ch] assms(3,4) by (auto simp: refs_ok_def link_ok_def node_ok_def owned_def queue_ok_def)
qed simp_all

lemma upd_chan_eq: "k_chans k c = Some ch \<Longrightarrow> upd_chan c f k = Some (set_chan c (f ch) k)"
  by (simp add: upd_chan_def)

lemma upd_port_eq: "k_ports k p = Some po \<Longrightarrow> upd_port p f k = Some (set_port p (f po) k)"
  by (simp add: upd_port_def)

lemma chan_add_ref_eq: "k_chans k c = Some ch \<Longrightarrow> r \<notin> set (c_refs ch) \<Longrightarrow>
    chan_add_ref c r k = Some (set_chan c (ch\<lparr>c_refs := c_refs ch @ [r]\<rparr>) k)"
  by (simp add: chan_add_ref_def obj_add_ref_def)

definition attached :: "nat \<Rightarrow> nat \<Rightarrow> ipc_chan \<Rightarrow> ipc_port \<Rightarrow> kern \<Rightarrow> kern \<Rightarrow> bool" where
  "attached p client cl po k k' \<longleftrightarrow>
     (\<exists>server cl' sv. k_chans k server = None \<and>
       k_chans k' = (k_chans k)(client := Some cl', server := Some sv) \<and>
       k_ports k' = (k_ports k)(p := Some (att_port server po)) \<and>
       c_state cl' = IPC_CHAN_STATE_CONNECTING \<and> c_peer cl' = Some server \<and> c_node cl' = None \<and>
       c_uuid cl' = c_uuid cl \<and> c_handle cl' = c_handle cl \<and> c_flags cl' = c_flags cl \<and>
       c_state sv = IPC_CHAN_STATE_ACCEPTING \<and> c_peer sv = Some client \<and> c_uuid sv = Some (p_uuid po) \<and>
       c_node sv = Some (PENDING_LIST p))"

lemma port_attach_client_ok:
  assumes inv: "kinv ext T k" and po: "k_ports k p = Some po" and cl: "k_chans k client = Some cl"
    and state: "c_state cl = IPC_CHAN_STATE_INVALID \<or> c_state cl = IPC_CHAN_STATE_WAITING_FOR_PORT"
    and node: "c_node cl = None" and T: "held T client" "\<And>d. (client, REF_PEER d) \<notin> T"
  shows "\<exists>ret k'. port_attach_client p client k = Some (ret, k') \<and> kinv ext T k' \<and>
    k_port_list k' = k_port_list k \<and> k_waiting k' = k_waiting k \<and> k_hyp k' = k_hyp k \<and>
    (ret = NO_ERROR \<longrightarrow> p_state po = IPC_PORT_STATE_LISTENING \<and> check_access po (c_uuid cl) = NO_ERROR \<and>
       attached p client cl po k k') \<and>
    (ret \<noteq> NO_ERROR \<longrightarrow> k_ports k' = k_ports k \<and>
       (k_chans k' = k_chans k \<or> k_chans k' = (k_chans k)(client := Some (cl\<lparr>c_msg_queue := None\<rparr>)))) \<and>
    (k_alloc k = [] \<and> p_state po = IPC_PORT_STATE_LISTENING \<and> check_access po (c_uuid cl) = NO_ERROR \<longrightarrow>
       ret = NO_ERROR \<and> k_alloc k' = [])"
proof (cases "p_state po = IPC_PORT_STATE_LISTENING \<and> check_access po (c_uuid cl) = NO_ERROR")
  case False
  then show ?thesis
    using po cl inv by (auto simp: port_attach_client_def Let_def err_simps)
next
  case True
  have bounds: "p_num_recv_bufs po \<le> IPC_CHAN_MAX_BUFS" "p_recv_buf_size po \<le> IPC_CHAN_MAX_BUF_SIZE"
    using kinvD(5) [OF inv po] by (auto simp: port_inv_def)
  have nomate: "mate (c_state cl) = None" using state by auto
  obtain co k1 where al: "chan_alloc IPC_CHAN_FLAG_SERVER (Some (p_uuid po)) REF_TMP k = (co, k1)"
    by (metis prod.exhaust)
  note ca = kinv_chan_alloc [OF inv al]
  show ?thesis
  proof (cases co)
    case None
    with ca have "kinv ext T k1 \<and> same_objs k k1 \<and> k_alloc k \<noteq> []" by auto
    moreover have "k_hyp k1 = k_hyp k"
      using al None alloc_ok_frame(5) [of k] by (auto simp: chan_alloc_def Let_def split: prod.splits if_splits)
    ultimately show ?thesis
      using True po cl al None
      by (simp add: port_attach_client_def same_objs_def err_simps)
  next
    case (Some server)
    let ?sv = "new_chan IPC_CHAN_FLAG_SERVER (Some (p_uuid po)) REF_TMP" and ?T = "insert (server, REF_TMP) T"
    have s: "server = k_next k" "k_chans k server = None" "kinv ext ?T k1"
      "k_chans k1 = (k_chans k)(server := Some ?sv)" "k_ports k1 = k_ports k" "k_port_list k1 = k_port_list k"
      "k_waiting k1 = k_waiting k" "k_hyp k1 = k_hyp k" "k_alloc k = [] \<longrightarrow> k_alloc k1 = []"
      using ca Some by auto
    have ne: "client \<noteq> server" using cl s(2) by auto
    have fresh: "(server, r) \<notin> T" "\<not> held T server" for r
      using unused_chan(2) [OF inv s(2)] by (auto simp: held_def)
    have ext0: "ext (HChan server) = 0" by (rule unused_chan(1) [OF inv s(2)])
    obtain ret1 cq k2 where q1: "msg_queue_alloc (p_num_recv_bufs po) (p_recv_buf_size po) k1 = (ret1, cq, k2)"
      by (metis prod_cases3)
    note r1 = msg_queue_alloc_result [OF q1 bounds]
    have inv2: "kinv ext ?T k2" using kinv_same_objs [OF s(3)] r1 by blast
    have f2: "k_chans k2 = k_chans k1" "k_ports k2 = k_ports k1" "k_port_list k2 = k_port_list k1"
      "k_waiting k2 = k_waiting k1" "k_next k2 = k_next k1" "k_hyp k2 = k_hyp k1"
      using r1 by (auto simp: same_objs_def)
    have cl2: "k_chans k2 client = Some cl" using cl ne by (simp add: f2 s)
    have drop: "chan_del_ref server REF_TMP x = Some (x\<lparr>k_chans := (k_chans x)(server := None)\<rparr>)"
      "kinv ext T (x\<lparr>k_chans := (k_chans x)(server := None)\<rparr>)"
      if "kinv ext ?T x" "k_chans x server = Some ?sv" for x
      using kinv_drop_new [OF that] fresh by simp_all
    show ?thesis
    proof (cases "ret1 = NO_ERROR")
      case False
      have sv2: "k_chans k2 server = Some ?sv" by (simp add: f2 s)
      have "(k_chans k2)(server := None) = k_chans k" using s(2,4) f2(1) by auto
      then show ?thesis
        using True po cl al Some q1 False drop [OF inv2 sv2] r1 s f2
        by (simp add: port_attach_client_def err_simps)
    next
      case True1: True
      then obtain cq' where cq: "cq = Some cq'" "mq_inv cq'" using r1 by blast
      let ?k2 = "set_chan client (cl\<lparr>c_msg_queue := cq\<rparr>) k2"
      have inv2': "kinv ext ?T ?k2"
        by (rule kinv_set_queue [OF inv2 cl2 nomate]) (use cq in simp)
      obtain ret2 sq k3 where q2: "msg_queue_alloc (p_num_recv_bufs po) (p_recv_buf_size po) ?k2 = (ret2, sq, k3)"
        by (metis prod_cases3)
      note r2 = msg_queue_alloc_result [OF q2 bounds]
      have inv3: "kinv ext ?T k3" using kinv_same_objs [OF inv2'] r2 by blast
      have f3: "k_chans k3 = (k_chans k1)(client := Some (cl\<lparr>c_msg_queue := cq\<rparr>))" "k_ports k3 = k_ports k1"
        "k_port_list k3 = k_port_list k1" "k_waiting k3 = k_waiting k1" "k_next k3 = k_next k1" "k_hyp k3 = k_hyp k1"
        using r2 f2 by (auto simp: same_objs_def)
      have c3: "k_chans k3 client = Some (cl\<lparr>c_msg_queue := cq\<rparr>)" "k_chans k3 server = Some ?sv"
        using ne by (simp_all add: f3 s)
      show ?thesis
      proof (cases "ret2 = NO_ERROR")
        case False
        let ?k3 = "set_chan client (cl\<lparr>c_msg_queue := None\<rparr>) k3"
        have inv3': "kinv ext ?T ?k3"
          using kinv_set_queue [OF inv3 c3(1), of None] nomate by simp
        have sv3: "k_chans ?k3 server = Some ?sv" using c3 ne by simp
        have "(k_chans ?k3)(server := None) = (k_chans k)(client := Some (cl\<lparr>c_msg_queue := None\<rparr>))"
          using s(2) ne by (auto simp: f3 s)
        then show ?thesis
          using True po cl al Some q1 True1 q2 cl2 c3 False drop [OF inv3' sv3] r1 r2 s f2 f3
          by (simp add: port_attach_client_def upd_chan_def err_simps)
      next
        case True2: True
        then obtain sq' where sq: "sq = Some sq'" "mq_inv sq'" using r2 by blast
        let ?sv1 = "?sv\<lparr>c_msg_queue := sq, c_state := IPC_CHAN_STATE_ACCEPTING\<rparr>"
        let ?cl1 = "cl\<lparr>c_msg_queue := cq, c_state := IPC_CHAN_STATE_CONNECTING\<rparr>"
        let ?sv2 = "?sv1\<lparr>c_refs := [REF_TMP] @ [REF_PEER client]\<rparr>"
        let ?cl2 = "?cl1\<lparr>c_peer := Some server\<rparr>"
        let ?cl3 = "?cl2\<lparr>c_refs := c_refs cl @ [REF_PEER server]\<rparr>"
        let ?sv3 = "?sv2\<lparr>c_peer := Some client\<rparr>"
        let ?sv4 = "?sv3\<lparr>c_refs := ([REF_TMP] @ [REF_PEER client]) @ [REF_NODE]\<rparr>"
        let ?sv5 = "?sv4\<lparr>c_node := Some (PENDING_LIST p)\<rparr>"
        let ?k4 = "set_chan client ?cl1 (set_chan server ?sv1 k3)"
        let ?k5 = "set_chan client ?cl3 (set_chan client ?cl2 (set_chan server ?sv2 ?k4))"
        let ?k6 = "set_chan server ?sv5 (set_chan server ?sv4 (set_chan server ?sv3 ?k5))"
        let ?po1 = "po\<lparr>p_pending_list := p_pending_list po @ [server]\<rparr>"
        let ?k7 = "set_port p (att_port server po) (set_port p ?po1 ?k6)"
        let ?k8 = "handle_notify_waiters_locked (p_handle (att_port server po)) ?k7"
        have np: "REF_PEER server \<notin> set (c_refs cl)"
          using kinvD(1) [OF inv cl] T(2) [of server] s(2)
          by (auto simp: refs_ok_def owned_def pr_def)
        have cl3: "att_client server cq' cl = ?cl3" and sv5: "att_server p client sq' ?sv = ?sv5"
          using cq sq by (simp_all add: att_client_def att_server_def new_chan_def)
        have po3: "k_ports k3 p = Some po" using po by (simp add: f3 s)
        have run: "port_attach_client p client k = do { k \<leftarrow> chan_del_ref server REF_TMP ?k8; Some (NO_ERROR, k) }"
          using True po cl al Some q1 True1 q2 True2 cl2 c3 ne np po3
          by (simp add: port_attach_client_def upd_chan_eq upd_port_eq chan_add_ref_eq handle_incref_def
              handle_notify_def att_port_def new_chan_def)
        have chans8: "k_chans ?k8 = (k_chans k1)(client := Some (att_client server cq' cl), server := Some (att_server p client sq' ?sv))"
          using ne unfolding cl3 sv5 by (auto simp: fun_eq_iff f3)
        have rest8: "k_ports ?k8 = (k_ports k1)(p := Some (att_port server po))" "k_port_list ?k8 = k_port_list k1"
          "k_waiting ?k8 = k_waiting k1" "k_next ?k8 = k_next k1" "k_hyp ?k8 = k_hyp k1"
          by (simp_all add: f3 fun_eq_iff)
        have inv8: "kinv ext ?T ?k8"
        proof (rule kinv_attach [OF s(3) _ _ _ ne])
          show "k_chans k1 client = Some cl" "k_chans k1 server = Some ?sv" "k_ports k1 p = Some po"
            using cl po ne by (simp_all add: s)
        qed (use state node T fresh ext0 cq(2) sq(2) chans8 rest8 ne ne [symmetric] in \<open>auto simp: IPC_CHAN_FLAG_SERVER_def\<close>)
        have sv8: "k_chans ?k8 server = Some ?sv5" by simp
        have TT: "?T - {(server, REF_TMP)} = T" using fresh by auto
        have del: "chan_del_ref server REF_TMP ?k8 = Some (dropped server REF_TMP ?sv5 ?k8)"
          "kinv ext T (dropped server REF_TMP ?sv5 ?k8)"
          using kinv_del_float [OF inv8 sv8, of REF_TMP, unfolded TT] by simp_all
        have "dropped server REF_TMP ?sv5 ?k8 = set_chan server (?sv5\<lparr>c_refs := [REF_PEER client, REF_NODE]\<rparr>) ?k8"
          by (simp add: dropped_def)
        moreover have "attached p client cl po k (set_chan server (?sv5\<lparr>c_refs := [REF_PEER client, REF_NODE]\<rparr>) ?k8)"
          unfolding attached_def
          by (rule exI [of _ server], rule exI [of _ ?cl3], rule exI [of _ "?sv5\<lparr>c_refs := [REF_PEER client, REF_NODE]\<rparr>"])
            (use s(2,4,5) ne node rest8(1) in \<open>auto simp: fun_eq_iff f3 new_chan_def\<close>)
        moreover have "k_alloc k = [] \<longrightarrow> k_alloc ?k8 = []" using s(9) r1 r2 by simp
        ultimately show ?thesis
          using run del True rest8 s(6-8) by simp
      qed
    qed
  qed
qed

section \<open>Connecting\<close>

lemma port_find_loop_ok:
  assumes "\<forall>p\<in>set ps. k_ports k p \<noteq> None"
  shows "\<exists>r. port_find_loop path ps k = Some r \<and> (\<forall>p. r = Some p \<longrightarrow> p \<in> set ps \<and> port_path k p = path) \<and>
    (r = None \<longrightarrow> path \<notin> port_path k ` set ps)"
  using assms
proof (induction ps)
  case (Cons p ps)
  then obtain po where "k_ports k p = Some po" by auto
  with Cons show ?case by (auto simp: port_path_def)
qed simp

lemma port_find_locked_ok:
  assumes "kinv ext T k"
  shows "\<exists>r. port_find_locked path k = Some r \<and> (\<forall>p. r = Some p \<longrightarrow> p \<in> set (k_port_list k) \<and> port_path k p = path) \<and>
    (r = None \<longrightarrow> path \<notin> port_path k ` set (k_port_list k))"
  unfolding port_find_locked_def by (rule port_find_loop_ok) (use kinv_glob(1) [OF assms] in blast)

lemma early_chan:
  assumes inv: "kinv ext T k" and ch: "k_chans k c = Some ch"
    and "c_state ch = IPC_CHAN_STATE_INVALID \<or> c_state ch = IPC_CHAN_STATE_WAITING_FOR_PORT"
  shows "c_peer ch = None" and "pr k e \<noteq> Some c"
proof -
  show "c_peer ch = None" using kinvD(2) [OF inv ch] assms(3) by (auto simp: link_ok_def)
  show "pr k e \<noteq> Some c"
  proof
    assume "pr k e = Some c"
    then obtain x where "k_chans k e = Some x" "c_peer x = Some c" by (cases "k_chans k e") (auto simp: pr_def)
    with kinvD(2) [OF inv this(1)] ch assms(3) show False by (auto simp: link_ok_def st_def)
  qed
qed

definition wait_chan :: "byte list \<Rightarrow> ipc_chan \<Rightarrow> ipc_chan" where
  "wait_chan path cl = cl\<lparr>c_path := Some path, c_state := IPC_CHAN_STATE_WAITING_FOR_PORT,
     c_node := Some WAITING_LIST, c_refs := c_refs cl @ [REF_NODE]\<rparr>"

lemma kinv_wait:
  assumes inv: "kinv ext T k" and cl: "k_chans k c = Some cl" and "c_state cl = IPC_CHAN_STATE_INVALID"
    and node: "c_node cl = None" and T: "(c, REF_NODE) \<notin> T" "held T c"
  shows "kinv ext T ((set_chan c (wait_chan path cl) k)\<lparr>k_waiting := k_waiting k @ [c]\<rparr>)" (is "kinv ext T ?k")
proof -
  note early = early_chan [OF inv cl disjI1 [OF assms(3)]]
  have w: "c \<notin> set (k_waiting k)" "c \<notin> set (pend k p)" for p
    using kinvD(3) [OF inv cl] node by (auto simp: node_ok_def)
  have chans: "k_chans ?k = (k_chans k)(c := Some (wait_chan path cl))" by simp
  have acc: "pr ?k = pr k" "pend ?k = pend k" "port_path ?k = port_path k"
    "d \<noteq> c \<Longrightarrow> nd ?k d = nd k d" "d \<noteq> c \<Longrightarrow> st ?k d = st k d" for d
    using cl by (auto simp: fun_eq_iff pr_def st_def nd_def pend_def port_path_def wait_chan_def)
  show ?thesis
  proof (rule kinvI)
    fix d x assume d: "k_chans ?k d = Some x"
    consider "d = c" "x = wait_chan path cl" | "d \<noteq> c" "k_chans k d = Some x"
      using d by (auto split: if_splits)
    then have "refs_ok ext T ?k d x \<and> link_ok ?k d x \<and> node_ok T ?k d x \<and> queue_ok x"
    proof cases
      case 1
      have o: "owned ext ?k c x = insert REF_NODE (owned ext k c cl)" "REF_NODE \<notin> owned ext k c cl"
        unfolding owned_def acc using node 1(2) by (auto simp: wait_chan_def)
      then have "refs_ok ext T ?k c x"
        using kinvD(1) [OF inv cl] T 1 unfolding refs_ok_def o by (simp add: wait_chan_def)
      moreover have "link_ok ?k c x" using early(1) 1 by (simp add: link_ok_def wait_chan_def)
      moreover have "node_ok T ?k c x" unfolding node_ok_def acc using 1(2) w(2) by (simp add: wait_chan_def)
      moreover have "queue_ok x" using kinvD(4) [OF inv cl] 1 by (simp add: queue_ok_def wait_chan_def)
      ultimately show ?thesis using 1 by simp
    next
      case 2
      have "refs_ok ext T ?k d x = refs_ok ext T k d x" by (rule refs_ok_other) (use acc 2 in auto)
      moreover have "node_ok T ?k d x = node_ok T k d x" using 2 by (simp add: node_ok_def acc)
      moreover have "c_peer x \<noteq> Some c" using early(2) [of d] 2 by (simp add: pr_def)
      then have "link_ok ?k d x = link_ok k d x" using 2
        by (cases "c_peer x") (auto simp: link_ok_def acc)
      ultimately show ?thesis using kinvD(1-4) [OF inv 2(2)] by simp
    qed
    then show "refs_ok ext T ?k d x" "link_ok ?k d x" "node_ok T ?k d x" "queue_ok x" by simp_all
  next
    fix p po assume "k_ports ?k p = Some po"
    then have po: "k_ports k p = Some po" by simp
    have "nd ?k d = nd k d" if "d \<in> set (p_pending_list po)" for d
      using w(2) [of p] acc(4) [of d] po that by (cases "d = c") (auto simp: pend_def)
    then have "port_inv ext ?k p po = port_inv ext k p po" by (simp add: port_inv_def)
    then show "port_inv ext ?k p po" using kinvD(5) [OF inv po] by simp
  next
    show "glob_inv ext T ?k"
    proof (rule glob_invI)
      fix d x assume "k_chans ?k d = Some x"
      then show "d < k_next ?k" using kinv_glob(3) [OF inv, of d] cl by (auto split: if_splits)
    next
      fix p po assume "k_ports ?k p = Some po"
      then show "p < k_next ?k" using kinv_glob(4) [OF inv, of p po] by simp
    next
      fix p assume "0 < ext (HPort p)"
      then show "k_ports ?k p \<noteq> None" using kinv_glob(5) [OF inv, of p] by simp
    next
      fix d assume "0 < ext (HChan d)"
      then show "k_chans ?k d \<noteq> None" using kinv_glob(6) [OF inv, of d] by simp
    next
      fix d r assume "(d, r) \<in> T"
      then show "k_chans ?k d \<noteq> None" using kinv_glob(7) [OF inv, of d r] by simp
    next
      fix d assume "d \<in> set (k_waiting ?k)"
      then show "k_chans ?k d \<noteq> None" using kinv_glob(2) [OF inv, of d] by auto
    next
      fix p assume "p \<in> set (k_port_list ?k)"
      then show "k_ports ?k p \<noteq> None" using kinv_glob(1) [OF inv, of p] by simp
    qed (use kinv_glob(8-10) [OF inv] w(1) in \<open>simp_all add: acc\<close>)
  qed
qed

text \<open>The new client gets its handle and the operation lets go of it.\<close>

definition open_chan :: "u32 \<Rightarrow> ipc_chan \<Rightarrow> ipc_chan" where
  "open_chan guest ch = ch\<lparr>c_handle := (handle_init (c_handle ch))\<lparr>h_guest_id := guest\<rparr>,
     c_refs := remove1 REF_TMP (c_refs ch @ [REF_HANDLE])\<rparr>"

lemma kinv_open_chan:
  assumes inv: "kinv ext {(c, REF_TMP)} k" and ch: "k_chans k c = Some ch" and ext: "ext (HChan c) = 0"
    and settled: "c_node ch \<noteq> None \<or> \<not> unsettled (c_state ch)"
    and node: "\<And>p. c_node ch \<noteq> Some (PENDING_LIST p)"
  shows "(do { k \<leftarrow> chan_handle_init c k;
            k \<leftarrow> upd_handle (HChan c) (\<lambda>h. h\<lparr>h_guest_id := guest\<rparr>) k;
            chan_del_ref c REF_TMP k }) =
      Some (set_chan c (open_chan guest ch) k)"
    and "kinv (ext(HChan c := 1)) {} (set_chan c (open_chan guest ch) k)"
proof -
  let ?ext = "ext(HChan c := 1)"
  let ?ch1 = "ch\<lparr>c_handle := handle_init (c_handle ch), c_refs := c_refs ch @ [REF_HANDLE]\<rparr>"
  let ?ch2 = "?ch1\<lparr>c_handle := (c_handle ?ch1)\<lparr>h_guest_id := guest\<rparr>\<rparr>"
  have i1: "chan_handle_init c k = Some (set_chan c ?ch1 k)" "kinv ?ext {(c, REF_TMP)} (set_chan c ?ch1 k)"
    using kinv_chan_handle_init [OF inv ch ext _ node] by simp_all
  have i2: "kinv ?ext {(c, REF_TMP)} (set_chan c ?ch2 (set_chan c ?ch1 k))"
    by (rule kinv_chan_local [OF i1(2), where ch = ?ch1 and c = c]) (use kinvD(4) [OF inv ch] in \<open>simp_all add: queue_ok_def\<close>)
  have c2: "k_chans (set_chan c ?ch2 (set_chan c ?ch1 k)) c = Some ?ch2" by simp
  have more: "set (c_refs ?ch2) \<noteq> {REF_TMP}" by auto
  have d: "chan_del_ref c REF_TMP (set_chan c ?ch2 (set_chan c ?ch1 k)) =
      Some (dropped c REF_TMP ?ch2 (set_chan c ?ch2 (set_chan c ?ch1 k)))"
    "kinv ?ext {} (dropped c REF_TMP ?ch2 (set_chan c ?ch2 (set_chan c ?ch1 k)))"
    using kinv_del_float [OF i2 c2, of REF_TMP] settled by simp_all
  have e: "?ch2\<lparr>c_refs := remove1 REF_TMP (c_refs ?ch2)\<rparr> = open_chan guest ch"
    by (cases ch) (simp add: open_chan_def)
  have "dropped c REF_TMP ?ch2 (set_chan c ?ch2 (set_chan c ?ch1 k)) = set_chan c (open_chan guest ch) k"
    using more e by (simp add: dropped_def set_chan_def)
  then show "(do { k \<leftarrow> chan_handle_init c k;
            k \<leftarrow> upd_handle (HChan c) (\<lambda>h. h\<lparr>h_guest_id := guest\<rparr>) k;
            chan_del_ref c REF_TMP k }) = Some (set_chan c (open_chan guest ch) k)"
    "kinv (ext(HChan c := 1)) {} (set_chan c (open_chan guest ch) k)"
    using i1(1) d by (simp_all add: upd_chan_def)
qed

lemma c_state_of_attached:
  assumes "attached p client cl po k k'" "k_chans k client = Some cl"
  shows "\<exists>cl'. k_chans k' client = Some cl' \<and> c_state cl' = IPC_CHAN_STATE_CONNECTING \<and> c_node cl' = None \<and>
    c_uuid cl' = c_uuid cl"
  using assms by (auto simp: attached_def)

lemma check_access_handle: "check_access (po\<lparr>p_handle := h\<rparr>) u = check_access po u"
  by (auto simp: check_access_def split: option.splits)

text \<open>The result of connecting: the client channel \<open>c\<close> and its state.\<close>

lemma connect_ok:
  assumes inv: "kinv ext {} k"
  shows "\<exists>ret h k'. ipc_port_connect_async guest cid path max_path flags k = Some (ret, h, k') \<and>
    (ret \<noteq> NO_ERROR \<longrightarrow> h = None \<and> kinv ext {} k') \<and>
    (ret = NO_ERROR \<longrightarrow> (\<exists>c ch. h = Some (HChan c) \<and> k_chans k c = None \<and> ext (HChan c) = 0 \<and>
       kinv (ext(HChan c := 1)) {} k' \<and> k_chans k' c = Some ch \<and> c_uuid ch = cid \<and>
       (c_state ch = IPC_CHAN_STATE_WAITING_FOR_PORT \<and> flags AND IPC_CONNECT_WAIT_FOR_PORT \<noteq> 0 \<and>
          c_string path \<notin> port_path k ` set (k_port_list k) \<or>
        c_state ch = IPC_CHAN_STATE_CONNECTING \<and>
          (\<exists>p po. k_ports k p = Some po \<and> p_path po = c_string path \<and> p_state po = IPC_PORT_STATE_LISTENING \<and>
             k_hyp k guest (p_uuid po) = 0 \<and> check_access po cid = NO_ERROR))))"
proof (cases "cid = None \<or> strnlen path max_path = 0 \<or> max_path \<le> strnlen path max_path")
  case True
  then show ?thesis using inv by (auto simp: ipc_port_connect_async_def Let_def err_simps)
next
  case False
  obtain co k1 where al: "chan_alloc 0 cid REF_TMP k = (co, k1)" by (metis prod.exhaust)
  note ca = kinv_chan_alloc [OF inv al]
  show ?thesis
  proof (cases co)
    case None
    with ca False al inv show ?thesis by (auto simp: ipc_port_connect_async_def Let_def err_simps)
  next
    case (Some c)
    let ?cl = "new_chan 0 cid REF_TMP" and ?T = "{(c, REF_TMP)}"
    have s: "k_chans k c = None" "kinv ext ?T k1" "k_chans k1 = (k_chans k)(c := Some ?cl)"
      "k_ports k1 = k_ports k" "k_port_list k1 = k_port_list k" "k_hyp k1 = k_hyp k"
      using ca Some by auto
    have c1: "k_chans k1 c = Some ?cl" by (simp add: s)
    have ext0: "ext (HChan c) = 0" using unused_chan(1) [OF inv s(1)] .
    have path: "port_path k1 = port_path k" using s by (simp add: fun_eq_iff port_path_def)
    obtain port where port: "port_find_locked (c_string path) k1 = Some port"
      "\<And>p. port = Some p \<Longrightarrow> p \<in> set (k_port_list k1) \<and> port_path k1 p = c_string path"
      "port = None \<Longrightarrow> c_string path \<notin> port_path k1 ` set (k_port_list k1)"
      using port_find_locked_ok [OF s(2), of "c_string path"] by blast
    have fails: "\<exists>k'. chan_del_ref c REF_TMP x = Some k' \<and> kinv ext {} k'"
      if "kinv ext ?T x" "k_chans x c = Some ?cl" for x
      using kinv_drop_new [OF that] by simp
    have start: "ipc_port_connect_async guest cid path max_path flags k = do {
          (ret, k) \<leftarrow> (case port of
             Some p \<Rightarrow> do {
               po \<leftarrow> k_ports k1 p;
               let ret = k_hyp k1 guest (p_uuid po);
               if ret \<noteq> 0 then Some (ret, k1)
               else do {
                 k \<leftarrow> upd_handle (HPort p) (\<lambda>h. h\<lparr>h_guest_id := guest\<rparr>) k1;
                 port_attach_client p c k } }
           | None \<Rightarrow>
               if flags AND IPC_CONNECT_WAIT_FOR_PORT = 0 then Some (ERR_NOT_FOUND, k1)
               else (case alloc_ok k1 of (ok, k) \<Rightarrow>
                 if \<not> ok then Some (ERR_NO_MEMORY, k)
                 else do {
                   k \<leftarrow> upd_chan c (\<lambda>ch. ch\<lparr>c_path := Some (c_string path),
                          c_state := IPC_CHAN_STATE_WAITING_FOR_PORT, c_node := Some WAITING_LIST\<rparr>) k;
                   let k = k\<lparr>k_waiting := k_waiting k @ [c]\<rparr>;
                   k \<leftarrow> chan_add_ref c REF_NODE k;
                   Some (NO_ERROR, k) }));
          if ret \<noteq> 0 then do {
            k \<leftarrow> chan_del_ref c REF_TMP k;
            Some (ret, None, k) }
          else do {
            k \<leftarrow> chan_handle_init c k;
            k \<leftarrow> upd_handle (HChan c) (\<lambda>h. h\<lparr>h_guest_id := guest\<rparr>) k;
            k \<leftarrow> chan_del_ref c REF_TMP k;
            Some (NO_ERROR, Some (HChan c), k) } }" (is "_ = Option.bind ?mid ?fin")
      using False al Some port(1)
      by (cases cid) (simp_all add: ipc_port_connect_async_def Let_def del: upd_handle.simps)
    have fin: "?fin (0, x) = Some (NO_ERROR, Some (HChan c), set_chan c (open_chan guest ch) x)"
      "kinv (ext(HChan c := 1)) {} (set_chan c (open_chan guest ch) x)"
      if "kinv ext ?T x" "k_chans x c = Some ch" "c_node ch \<noteq> None \<or> \<not> unsettled (c_state ch)"
        "\<And>p. c_node ch \<noteq> Some (PENDING_LIST p)" for x ch
    proof -
      note o = kinv_open_chan [OF that(1,2) ext0 that(3,4), of guest]
      from o(2) show "kinv (ext(HChan c := 1)) {} (set_chan c (open_chan guest ch) x)" .
      from o(1) show "?fin (0, x) = Some (NO_ERROR, Some (HChan c), set_chan c (open_chan guest ch) x)"
        by (auto simp: bind_Some_iff)
    qed
    have err: ?thesis if "?mid = Some (ret, x)" "ret \<noteq> 0" "kinv ext ?T x" "k_chans x c = Some ?cl" for ret x
      using start that(1,2) fails [OF that(3,4)] by (auto simp: err_simps)
    have open_simps: "c_state (open_chan guest ch) = c_state ch" "c_uuid (open_chan guest ch) = c_uuid ch" for ch
      by (simp_all add: open_chan_def)
    show ?thesis
    proof (cases port)
      case None
      obtain ok k2 where ok: "alloc_ok k1 = (ok, k2)" by (metis prod.exhaust)
      note f = alloc_ok_frame [OF ok]
      have inv2: "kinv ext ?T k2" by (rule kinv_same_objs [OF s(2) f(1)])
      have c2: "k_chans k2 c = Some ?cl" using c1 f(1) by (simp add: same_objs_def)
      consider "flags AND IPC_CONNECT_WAIT_FOR_PORT = 0" | "flags AND IPC_CONNECT_WAIT_FOR_PORT \<noteq> 0" "\<not> ok"
        | "flags AND IPC_CONNECT_WAIT_FOR_PORT \<noteq> 0" ok by blast
      then show ?thesis
      proof cases
        case 1
        then show ?thesis by (intro err [OF _ _ s(2) c1, of ERR_NOT_FOUND]) (simp_all add: None err_simps)
      next
        case 2
        then show ?thesis by (intro err [OF _ _ inv2 c2, of ERR_NO_MEMORY]) (simp_all add: None ok err_simps)
      next
        case 3
        let ?k3 = "(set_chan c (wait_chan (c_string path) ?cl) k2)\<lparr>k_waiting := k_waiting k2 @ [c]\<rparr>"
        have inv3: "kinv ext ?T ?k3" by (rule kinv_wait [OF inv2 c2]) simp_all
        have c3: "k_chans ?k3 c = Some (wait_chan (c_string path) ?cl)" by simp
        have node: "c_node (wait_chan (c_string path) ?cl) = Some WAITING_LIST" by (simp add: wait_chan_def)
        have "?mid = Some (0, ?k3)"
          using 3 c2 by (simp add: None ok upd_chan_eq chan_add_ref_def obj_add_ref_def set_chan_def wait_chan_def err_simps)
        then have "ipc_port_connect_async guest cid path max_path flags k =
            Some (NO_ERROR, Some (HChan c), set_chan c (open_chan guest (wait_chan (c_string path) ?cl)) ?k3)"
          using start fin(1) [OF inv3 c3] node by simp
        moreover have "c_string path \<notin> port_path k ` set (k_port_list k)" using port(3) None path s(5) by simp
        ultimately show ?thesis
          using fin(2) [OF inv3 c3] node s(1) ext0 3(1)
          by (auto simp: open_simps) (simp_all add: wait_chan_def)
      qed
    next
      case (Some p)
      have pin: "p \<in> set (k_port_list k)" "port_path k p = c_string path" using port(2) [OF Some] s(5) path by simp_all
      then obtain po where po: "k_ports k p = Some po" "p_path po = c_string path"
        using kinv_glob(1) [OF inv pin(1)] by (auto simp: port_path_def)
      have po1: "k_ports k1 p = Some po" using po(1) s by simp
      show ?thesis
      proof (cases "k_hyp k guest (p_uuid po) = 0")
        case False
        then show ?thesis
          by (intro err [OF _ _ s(2) c1, of "k_hyp k guest (p_uuid po)"]) (simp_all add: Some po(1) s Let_def)
      next
        case True
        let ?po = "po\<lparr>p_handle := (p_handle po)\<lparr>h_guest_id := guest\<rparr>\<rparr>"
        let ?k2 = "set_port p ?po k1"
        have inv2: "kinv ext ?T ?k2" by (rule kinv_port_local [OF s(2) po1]) simp_all
        have po2: "k_ports ?k2 p = Some ?po" and c2: "k_chans ?k2 c = Some ?cl" using c1 by simp_all
        obtain ret k3 where a: "port_attach_client p c ?k2 = Some (ret, k3)" "kinv ext ?T k3"
          "ret = NO_ERROR \<Longrightarrow> p_state ?po = IPC_PORT_STATE_LISTENING \<and> check_access ?po (c_uuid ?cl) = NO_ERROR \<and>
             attached p c ?cl ?po ?k2 k3"
          "ret \<noteq> NO_ERROR \<Longrightarrow> k_chans k3 = k_chans ?k2 \<or> k_chans k3 = (k_chans ?k2)(c := Some (?cl\<lparr>c_msg_queue := None\<rparr>))"
          using port_attach_client_ok [OF inv2 po2 c2] by (auto simp: held_def)
        have mid: "?mid = Some (ret, k3)"
          using True a(1) by (simp add: Some po(1) s Let_def upd_port_eq)
        show ?thesis
        proof (cases "ret = NO_ERROR")
          case False
          have "?cl\<lparr>c_msg_queue := None\<rparr> = ?cl" by (simp add: new_chan_def)
          then have "k_chans k3 c = Some ?cl" using a(4) [OF False] c2 by auto
          with False show ?thesis by (intro err [OF mid _ a(2)]) (simp_all add: err_simps)
        next
          case ok: True
          obtain ch where ch: "k_chans k3 c = Some ch" "c_state ch = IPC_CHAN_STATE_CONNECTING" "c_uuid ch = cid"
            "c_node ch = None"
            using c_state_of_attached [OF conjunct2 [OF conjunct2 [OF a(3) [OF ok]]] c2] by auto
          have "\<not> unsettled (c_state ch)" using ch(2) by (simp add: unsettled_def)
          then have "ipc_port_connect_async guest cid path max_path flags k =
              Some (NO_ERROR, Some (HChan c), set_chan c (open_chan guest ch) k3)"
            "kinv (ext(HChan c := 1)) {} (set_chan c (open_chan guest ch) k3)"
            using start mid ok fin [OF a(2) ch(1)] ch(4) by (simp_all add: NO_ERROR_def)
          moreover have "p_state po = IPC_PORT_STATE_LISTENING" "check_access po cid = NO_ERROR"
            using a(3) [OF ok] by (simp_all add: check_access_handle)
          ultimately show ?thesis
            using s(1) ext0 ch po True by (auto simp: open_simps)
        qed
      qed
    qed
  qed
qed

section \<open>Accepting\<close>

lemma refs_ok_fields:
  "pr k' = pr k \<Longrightarrow> c_refs x' = c_refs x \<Longrightarrow> c_peer x' = c_peer x \<Longrightarrow> c_node x' = c_node x \<Longrightarrow>
   c_handle x' = c_handle x \<Longrightarrow> refs_ok ext T k' c x' = refs_ok ext T k c x"
  by (simp add: refs_ok_def owned_def)

text \<open>Both ends of an accepted connection become connected.\<close>

lemma kinv_connected:
  fixes a :: u32
  assumes inv: "kinv ext T k" and sv: "k_chans k s = Some sv" and cl: "k_chans k c = Some cl"
    and peer: "c_peer sv = Some c" and st: "c_state sv = IPC_CHAN_STATE_ACCEPTING" "c_state cl = IPC_CHAN_STATE_CONNECTING"
    and node: "c_node sv = None"
  defines "sv' \<equiv> sv\<lparr>c_state := IPC_CHAN_STATE_CONNECTED\<rparr>"
    and "cl' \<equiv> cl\<lparr>c_state := IPC_CHAN_STATE_CONNECTED, c_aux_state := a\<rparr>"
  shows "kinv ext T (set_chan c cl' (set_chan s sv' k))" (is "kinv ext T ?k")
    and "c \<noteq> s" and "c_peer cl = Some s" and "c_node cl = None"
proof -
  have l: "c \<noteq> s" "pr k c = Some s" "c_msg_queue sv \<noteq> None"
    using kinvD(2) [OF inv sv] peer st(1) by (auto simp: link_ok_def)
  then show ne: "c \<noteq> s" and cp: "c_peer cl = Some s" using cl by (simp_all add: pr_def)
  show cn: "c_node cl = None"
    using kinvD(3) [OF inv cl] st(2) by (cases "c_node cl"; cases "the (c_node cl)") (auto simp: node_ok_def)
  have cq: "c_msg_queue cl \<noteq> None" using kinvD(2) [OF inv cl] st(2) by (auto simp: link_ok_def)
  have prs: "pr k s = Some c" using sv peer by (simp add: pr_def)
  have acc: "pr ?k = pr k" "nd ?k = nd k" "pend ?k = pend k" "port_path ?k = port_path k"
    using sv cl ne by (auto simp: fun_eq_iff pr_def nd_def pend_def port_path_def sv'_def cl'_def)
  have st': "st ?k e = (if e = c \<or> e = s then Some IPC_CHAN_STATE_CONNECTED else st k e)" for e
    by (simp add: st_def sv'_def cl'_def)
  show "kinv ext T ?k"
  proof (rule kinvI)
    fix e x assume e: "k_chans ?k e = Some x"
    consider "e = c" "x = cl'" | "e = s" "x = sv'" "e \<noteq> c" | "e \<noteq> c" "e \<noteq> s" "k_chans k e = Some x"
      using e by (auto split: if_splits)
    then have "refs_ok ext T ?k e x \<and> link_ok ?k e x \<and> node_ok T ?k e x \<and> queue_ok x"
    proof cases
      case 1
      have "refs_ok ext T ?k c x = refs_ok ext T k c cl"
        by (rule refs_ok_fields [OF acc(1)]) (simp_all add: 1 cl'_def)
      moreover have "link_ok ?k c x"
        unfolding link_ok_def acc st' using ne cp prs cq by (simp add: 1 cl'_def)
      moreover have "node_ok T ?k c x"
        using kinvD(3) [OF inv cl] cn unfolding node_ok_def acc by (simp add: 1 cl'_def unsettled_def)
      moreover have "queue_ok x" using kinvD(4) [OF inv cl] by (simp add: 1 queue_ok_def cl'_def)
      ultimately show ?thesis using kinvD(1) [OF inv cl] by (simp add: 1)
    next
      case 2
      have "refs_ok ext T ?k s x = refs_ok ext T k s sv"
        by (rule refs_ok_fields [OF acc(1)]) (simp_all add: 2 sv'_def)
      moreover have "link_ok ?k s x"
        unfolding link_ok_def acc st' using ne peer l by (simp add: 2 sv'_def)
      moreover have "node_ok T ?k s x"
        using kinvD(3) [OF inv sv] node unfolding node_ok_def acc by (simp add: 2 sv'_def unsettled_def)
      moreover have "queue_ok x" using kinvD(4) [OF inv sv] by (simp add: 2 queue_ok_def sv'_def)
      ultimately show ?thesis using kinvD(1) [OF inv sv] by (simp add: 2)
    next
      case 3
      have "refs_ok ext T ?k e x = refs_ok ext T k e x" by (rule refs_ok_other) (use acc in auto)
      moreover have "node_ok T ?k e x = node_ok T k e x" unfolding node_ok_def acc by simp
      moreover have "link_ok ?k e x"
      proof -
        note li = kinvD(2) [OF inv 3(3), unfolded link_ok_def]
        have "f \<noteq> c \<and> f \<noteq> s" if "mate (c_state x) = Some m" "c_peer x = Some f" for f m
          using li that l(2) prs 3 by auto
        then show ?thesis using li unfolding link_ok_def acc st' by (cases "c_peer x") auto
      qed
      ultimately show ?thesis using kinvD(1-4) [OF inv 3(3)] by simp
    qed
    then show "refs_ok ext T ?k e x" "link_ok ?k e x" "node_ok T ?k e x" "queue_ok x" by simp_all
  next
    fix p po assume "k_ports ?k p = Some po"
    then show "port_inv ext ?k p po"
      using kinvD(5) [OF inv, of p po] port_inv_cong [OF acc(2)] by simp
  next
    show "glob_inv ext T ?k"
      by (rule glob_inv_same_dom [OF inv])
        (use kinv_glob(9) [OF inv] sv cl in \<open>auto simp: acc held_def\<close>)
  qed
qed

text \<open>Taking the first pending server channel off its port.\<close>

lemma take_pending:
  assumes inv: "kinv ext {} k" and ps: "pend k p = s # rest"
  obtains sv k' where "k_chans k s = Some sv" "c_node sv = Some (PENDING_LIST p)"
    "c_flags sv AND IPC_CHAN_FLAG_SERVER \<noteq> 0" "ext (HChan s) = 0"
    "do { k \<leftarrow> chan_list_delete s k;
          sv \<leftarrow> k_chans k s;
          _ \<leftarrow> ASSERT (c_flags sv AND IPC_CHAN_FLAG_SERVER \<noteq> 0);
          k \<leftarrow> chan_add_ref s REF_TMP k;
          k \<leftarrow> chan_del_ref s REF_NODE k;
          k \<leftarrow> handle_decref (HPort p) k;
          Some (sv, k) } = Some (sv\<lparr>c_node := None\<rparr>, k')"
    "kinv ext {(s, REF_TMP)} k'"
    "k_chans k' = (k_chans k)(s := Some (sv\<lparr>c_node := None, c_refs := remove1 REF_NODE (c_refs sv @ [REF_TMP])\<rparr>))"
    "k_ports k' p \<noteq> None \<longrightarrow> pend k' p = rest"
proof -
  obtain sv where sv: "k_chans k s = Some sv" "c_node sv = Some (PENDING_LIST p)"
    using pend_node [OF inv, of s p] ps by auto
  have fl: "c_flags sv AND IPC_CHAN_FLAG_SERVER \<noteq> 0"
    using kinvD(3) [OF inv sv(1)] sv(2) by (auto simp: node_ok_def)
  have ext0: "ext (HChan s) = 0"
    using kinvD(1) [OF inv sv(1)] sv(2) by (auto simp: refs_ok_def)
  let ?ext = "ext(HPort p := Suc (ext (HPort p)))"
  obtain po where po: "k_ports k p = Some po" "chan_list_delete s k = Some (unlinked_pending s sv p po k)"
    "kinv ?ext {(s, REF_NODE)} (unlinked_pending s sv p po k)"
    using kinv_unlink_pending [OF inv sv] by metis
  let ?k1 = "unlinked_pending s sv p po k" and ?sv1 = "sv\<lparr>c_node := None\<rparr>"
  have c1: "k_chans ?k1 = (k_chans k)(s := Some ?sv1)" "k_chans ?k1 s = Some ?sv1"
    by (simp_all add: unlinked_pending_def)
  let ?sv2 = "?sv1\<lparr>c_refs := c_refs ?sv1 @ [REF_TMP]\<rparr>"
  let ?k2 = "set_chan s ?sv2 ?k1"
  have i2: "chan_add_ref s REF_TMP ?k1 = Some ?k2" "kinv ?ext {(s, REF_TMP), (s, REF_NODE)} ?k2"
    using kinv_add_tmp [OF po(3) c1(2)] by simp_all
  have c2: "k_chans ?k2 s = Some ?sv2" by simp
  have more: "set (c_refs ?sv2) \<noteq> {REF_NODE}" by auto
  have TT: "{(s, REF_TMP), (s, REF_NODE)} - {(s, REF_NODE)} = {(s, REF_TMP)}" by auto
  let ?k3 = "set_chan s (?sv2\<lparr>c_refs := remove1 REF_NODE (c_refs ?sv2)\<rparr>) ?k2"
  have i3: "chan_del_ref s REF_NODE ?k2 = Some ?k3" "kinv ?ext {(s, REF_TMP)} ?k3"
    using kinv_del_float [OF i2(2) c2, of REF_NODE, unfolded TT] more by (simp_all add: dropped_def)
  have same_ext: "?ext(HPort p := ?ext (HPort p) - 1) = ext" by auto
  obtain k4 where k4: "handle_decref (HPort p) ?k3 = Some k4" "kinv ext {(s, REF_TMP)} k4"
    "k_chans k4 = k_chans ?k3"
    "\<forall>qo. k_ports ?k3 p = Some qo \<longrightarrow> k_ports k4 p =
       (if h_refcnt (p_handle qo) = 1 then None
        else Some (qo\<lparr>p_handle := (p_handle qo)\<lparr>h_refcnt := h_refcnt (p_handle qo) - 1\<rparr>\<rparr>))"
    using kinv_decref_port [OF i3(2), of p, unfolded same_ext] by auto
  have p3: "k_ports ?k3 p = Some (po\<lparr>p_pending_list := remove1 s (p_pending_list po)\<rparr>)"
    by (simp add: unlinked_pending_def)
  have "p_pending_list po = s # rest" using ps po(1) by (simp add: pend_def)
  then have pend: "pend k4 p = rest" if "k_ports k4 p \<noteq> None"
    using that k4(4) p3 by (auto simp: pend_def split: if_splits)
  have run: "do { k \<leftarrow> chan_list_delete s k;
          sv \<leftarrow> k_chans k s;
          _ \<leftarrow> ASSERT (c_flags sv AND IPC_CHAN_FLAG_SERVER \<noteq> 0);
          k \<leftarrow> chan_add_ref s REF_TMP k;
          k \<leftarrow> chan_del_ref s REF_NODE k;
          k \<leftarrow> handle_decref (HPort p) k;
          Some (sv, k) } = Some (?sv1, k4)"
    using po(2) c1(2) fl i2(1) i3(1) k4(1) by simp
  have chans4: "k_chans k4 = (k_chans k)(s := Some (sv\<lparr>c_node := None, c_refs := remove1 REF_NODE (c_refs sv @ [REF_TMP])\<rparr>))"
    unfolding k4(3) by (simp add: c1(1))
  show thesis
    by (rule that [OF sv fl ext0 run k4(2) chans4 impI [OF pend]])
qed

text \<open>The operation lets go of a server channel that it shut down.\<close>

lemma kinv_refuse:
  assumes inv: "kinv ext {(s, REF_TMP)} k" and sv: "k_chans k s = Some sv"
    and st: "c_state sv = IPC_CHAN_STATE_ACCEPTING \<or> c_state sv = IPC_CHAN_STATE_DISCONNECTING"
  shows "\<exists>k1 k'. chan_shutdown_locked s k = Some k1 \<and> chan_del_ref s REF_TMP k1 = Some k' \<and> kinv ext {} k'"
proof -
  have "held {(s, REF_TMP)} s" by (simp add: held_def)
  moreover have nw: "c_state sv \<noteq> IPC_CHAN_STATE_WAITING_FOR_PORT" using st by auto
  ultimately obtain k1 sv1 where k1: "chan_shutdown_locked s k = Some k1" "kinv ext {(s, REF_TMP)} k1"
    "k_chans k1 s = Some sv1" "c_peer sv1 = None" "c_state sv1 = disconnected (c_state sv)"
    using kinv_shutdown [OF inv sv] by blast
  have "\<not> unsettled (c_state sv1)" using st k1(5) by (auto simp: disconnected_def unsettled_def)
  moreover have "c_node sv1 \<noteq> Some WAITING_LIST"
    using kinvD(3) [OF k1(2,3)] k1(5) nw by (auto simp: node_ok_def disconnected_def split: if_splits)
  ultimately show ?thesis using kinv_del_float [OF k1(2,3), of REF_TMP] k1 by auto
qed

definition joined :: "kern \<Rightarrow> nat \<Rightarrow> nat \<Rightarrow> bool" where
  "joined k s c \<longleftrightarrow> (\<exists>sv cl. k_chans k s = Some sv \<and> k_chans k c = Some cl \<and>
     c_state sv = IPC_CHAN_STATE_CONNECTED \<and> c_state cl = IPC_CHAN_STATE_CONNECTED \<and>
     c_peer sv = Some c \<and> c_peer cl = Some s)"

lemma accept_ok:
  assumes inv: "kinv ext {} k" and po: "k_ports k p = Some po"
  shows "\<exists>ret h u k'. ipc_port_accept (Some (HPort p)) k = Some (ret, h, u, k') \<and>
    (ret \<noteq> NO_ERROR \<longrightarrow> h = None \<and> kinv ext {} k') \<and>
    (ret = NO_ERROR \<longrightarrow> (\<exists>s c rest. h = Some (HChan s) \<and> pend k p = s # rest \<and> ext (HChan s) = 0 \<and>
       kinv (ext(HChan s := 1)) {} k' \<and> joined k' s c \<and> (\<exists>cl. k_chans k' c = Some cl \<and> u = c_uuid cl)))"
proof (cases "p_state po = IPC_PORT_STATE_LISTENING \<and> p_pending_list po \<noteq> []")
  case False
  then show ?thesis
    using po inv by (cases "p_pending_list po") (simp_all add: ipc_port_accept_def err_simps)
next
  case True
  then obtain s rest where ps: "p_pending_list po = s # rest" by (cases "p_pending_list po") auto
  then have pend: "pend k p = s # rest" using po by (simp add: pend_def)
  obtain sv k1 where t: "k_chans k s = Some sv" "c_node sv = Some (PENDING_LIST p)"
    "c_flags sv AND IPC_CHAN_FLAG_SERVER \<noteq> 0" "ext (HChan s) = 0"
    "do { k \<leftarrow> chan_list_delete s k;
          sv \<leftarrow> k_chans k s;
          _ \<leftarrow> ASSERT (c_flags sv AND IPC_CHAN_FLAG_SERVER \<noteq> 0);
          k \<leftarrow> chan_add_ref s REF_TMP k;
          k \<leftarrow> chan_del_ref s REF_NODE k;
          k \<leftarrow> handle_decref (HPort p) k;
          Some (sv, k) } = Some (sv\<lparr>c_node := None\<rparr>, k1)"
    "kinv ext {(s, REF_TMP)} k1"
    "k_chans k1 = (k_chans k)(s := Some (sv\<lparr>c_node := None, c_refs := remove1 REF_NODE (c_refs sv @ [REF_TMP])\<rparr>))"
    "k_ports k1 p \<noteq> None \<longrightarrow> pend k1 p = rest"
    by (rule take_pending [OF inv pend])
  let ?sv = "sv\<lparr>c_node := None, c_refs := remove1 REF_NODE (c_refs sv @ [REF_TMP])\<rparr>"
  have sv1: "k_chans k1 s = Some ?sv" by (simp add: t(7))
  have sst: "c_state sv = IPC_CHAN_STATE_ACCEPTING \<or> c_state sv = IPC_CHAN_STATE_DISCONNECTING"
    using kinvD(3) [OF inv t(1)] t(2) by (auto simp: node_ok_def)
  let ?mid = "\<lambda>sv k. (case c_peer sv of
                None \<Rightarrow> do {
                  k \<leftarrow> chan_shutdown_locked s k;
                  Some (ERR_CHANNEL_CLOSED, None, None, k) }
              | Some client \<Rightarrow> do {
                  cl \<leftarrow> k_chans k client;
                  if c_state sv \<noteq> IPC_CHAN_STATE_ACCEPTING \<or> c_state cl \<noteq> IPC_CHAN_STATE_CONNECTING
                  then do {
                    k \<leftarrow> chan_shutdown_locked s k;
                    Some (ERR_CHANNEL_CLOSED, None, None, k) }
                  else do {
                    k \<leftarrow> upd_chan s (\<lambda>ch. ch\<lparr>c_state := IPC_CHAN_STATE_CONNECTED\<rparr>) k;
                    k \<leftarrow> upd_chan client (\<lambda>ch. ch\<lparr>c_state := IPC_CHAN_STATE_CONNECTED,
                           c_aux_state := c_aux_state ch OR IPC_CHAN_AUX_STATE_CONNECTED\<rparr>) k;
                    k \<leftarrow> chan_handle_init s k;
                    k \<leftarrow> upd_handle (HChan s) (\<lambda>h. h\<lparr>h_guest_id := h_guest_id (c_handle cl)\<rparr>) k;
                    k \<leftarrow> handle_notify (HChan client) k;
                    Some (NO_ERROR, Some (HChan s), c_uuid cl, k) } })"
  let ?fin = "\<lambda>(ret, h, u, k). do { k \<leftarrow> chan_del_ref s REF_TMP k; Some (ret, h, u, k) }"
  have run: "ipc_port_accept (Some (HPort p)) k = Option.bind (?mid ?sv k1) ?fin"
  proof -
    obtain a1 a2 a3 a4 where b: "chan_list_delete s k = Some a1" "k_chans a1 s = Some (sv\<lparr>c_node := None\<rparr>)"
      "chan_add_ref s REF_TMP a1 = Some a2" "chan_del_ref s REF_NODE a2 = Some a3"
      "handle_decref (HPort p) a3 = Some k1"
      using t(5) by (auto simp: bind_Some_iff)
    show ?thesis
      using po True ps b t(3) by (simp add: ipc_port_accept_def Let_def del: upd_handle.simps cong: option.case_cong)
  qed
  have refuse: ?thesis
    if "?mid ?sv k1 = do { k \<leftarrow> chan_shutdown_locked s k1; Some (ERR_CHANNEL_CLOSED, None, None, k) }"
  proof -
    obtain k2 k' where "chan_shutdown_locked s k1 = Some k2" "chan_del_ref s REF_TMP k2 = Some k'" "kinv ext {} k'"
      using kinv_refuse [OF t(6) sv1] sst by auto
    with run that show ?thesis by (simp add: err_simps)
  qed
  show ?thesis
  proof (cases "c_peer sv")
    case None
    then show ?thesis by (intro refuse) simp
  next
    case (Some c)
    have "st k1 c \<noteq> None" "c \<noteq> s"
      using kinvD(2) [OF t(6) sv1] Some by (auto simp: link_ok_def)
    then obtain cl where cl: "k_chans k1 c = Some cl" by (auto simp: st_def)
    show ?thesis
    proof (cases "c_state sv = IPC_CHAN_STATE_ACCEPTING \<and> c_state cl = IPC_CHAN_STATE_CONNECTING")
      case False
      with Some cl show ?thesis by (intro refuse) auto
    next
      case st: True
      let ?sv2 = "?sv\<lparr>c_state := IPC_CHAN_STATE_CONNECTED\<rparr>"
      let ?cl2 = "cl\<lparr>c_state := IPC_CHAN_STATE_CONNECTED, c_aux_state := c_aux_state cl OR IPC_CHAN_AUX_STATE_CONNECTED\<rparr>"
      let ?k2 = "set_chan c ?cl2 (set_chan s ?sv2 k1)"
      have j: "kinv ext {(s, REF_TMP)} ?k2" "c_peer cl = Some s"
        using kinv_connected [OF t(6) sv1 cl] Some st by simp_all
      have sv2: "k_chans ?k2 s = Some ?sv2" using \<open>c \<noteq> s\<close> by simp
      let ?sv3 = "?sv2\<lparr>c_handle := handle_init (c_handle ?sv2), c_refs := c_refs ?sv2 @ [REF_HANDLE]\<rparr>"
      let ?k3 = "set_chan s ?sv3 ?k2" and ?ext = "ext(HChan s := 1)"
      have i3: "chan_handle_init s ?k2 = Some ?k3" "kinv ?ext {(s, REF_TMP)} ?k3"
        using kinv_chan_handle_init [OF j(1) sv2 t(4)] by simp_all
      let ?sv4 = "?sv3\<lparr>c_handle := (c_handle ?sv3)\<lparr>h_guest_id := h_guest_id (c_handle cl)\<rparr>\<rparr>"
      let ?k4 = "set_chan s ?sv4 ?k3"
      have i4: "kinv ?ext {(s, REF_TMP)} ?k4"
        by (rule kinv_chan_local [OF i3(2), where ch = ?sv3 and c = s])
          (use kinvD(4) [OF t(6) sv1] in \<open>simp_all add: queue_ok_def\<close>)
      let ?k5 = "handle_notify_waiters_locked (c_handle ?cl2) ?k4"
      have i5: "kinv ?ext {(s, REF_TMP)} ?k5" by (rule kinv_notify [OF i4])
      have sv5: "k_chans ?k5 s = Some ?sv4" by simp
      have more: "set (c_refs ?sv4) \<noteq> {REF_TMP}" by auto
      let ?k6 = "set_chan s (?sv4\<lparr>c_refs := remove1 REF_TMP (c_refs ?sv4)\<rparr>) ?k5"
      have i6: "chan_del_ref s REF_TMP ?k5 = Some ?k6" "kinv ?ext {} ?k6"
        using kinv_del_float [OF i5 sv5, of REF_TMP] more by (simp_all add: dropped_def unsettled_def)
      have "?mid ?sv k1 = Some (NO_ERROR, Some (HChan s), c_uuid cl, ?k5)"
        using Some st cl sv1 i3(1) \<open>c \<noteq> s\<close> by (simp add: upd_chan_eq handle_notify_def)
      then have "ipc_port_accept (Some (HPort p)) k = Some (NO_ERROR, Some (HChan s), c_uuid cl, ?k6)"
        using run i6(1) by simp
      moreover have "joined ?k6 s c" "k_chans ?k6 c = Some ?cl2"
        using \<open>c \<noteq> s\<close> Some j(2) by (simp_all add: joined_def)
      ultimately obtain k6 where r: "ipc_port_accept (Some (HPort p)) k = Some (NO_ERROR, Some (HChan s), c_uuid cl, k6)"
        "joined k6 s c" "k_chans k6 c = Some ?cl2" "kinv ?ext {} k6" using i6(2) by iprover
      show ?thesis
      proof (intro exI conjI impI)
        show "ipc_port_accept (Some (HPort p)) k = Some (NO_ERROR, Some (HChan s), c_uuid cl, k6)" by (rule r(1))
        show "kinv (ext(HChan s := 1)) {} k6" by (rule r(4))
        show "joined k6 s c" by (rule r(2))
        show "k_chans k6 c = Some ?cl2" by (rule r(3))
      qed (use pend t(4) in simp_all)
    qed
  qed
qed

end
