(* ===== verification/Publish.thy ===== *)
theory Publish
  imports Connection
begin

text \<open>
  Ports under the lifetime invariant: \<^verbatim>\<open>ipc_port_create\<close> makes a port with one reference, and
  \<^verbatim>\<open>ipc_port_publish\<close> puts it in the port list and connects the clients that waited for its path.
  Publishing is the one operation that can panic: a waiting client that the port refuses is shut
  down while it is in no list.
\<close>

section \<open>New ports\<close>

lemma unused_port:
  assumes inv: "kinv ext T k" and none: "k_ports k p = None"
  shows "ext (HPort p) = 0" "p \<notin> set (k_port_list k)" "nd k c \<noteq> Some (PENDING_LIST p)"
proof -
  show "ext (HPort p) = 0" using kinv_glob(5) [OF inv, of p] none by auto
  show "p \<notin> set (k_port_list k)" using kinv_glob(1) [OF inv, of p] none by auto
  show "nd k c \<noteq> Some (PENDING_LIST p)"
  proof
    assume "nd k c = Some (PENDING_LIST p)"
    then obtain x where x: "k_chans k c = Some x" "c_node x = Some (PENDING_LIST p)"
      by (cases "k_chans k c") (auto simp: nd_def)
    then have "c \<in> set (pend k p)" using kinvD(3) [OF inv x(1)] by (auto simp: node_ok_def)
    then show False using none by (simp add: pend_def)
  qed
qed

lemma kinv_new_port:
  assumes inv: "kinv ext T k" and p: "p = k_next k"
    and po: "p_state po = IPC_PORT_STATE_INVALID" "p_pending_list po = []" "\<not> p_in_list po"
      "h_refcnt (p_handle po) = 1" "p_num_recv_bufs po \<le> IPC_CHAN_MAX_BUFS"
      "p_recv_buf_size po \<le> IPC_CHAN_MAX_BUF_SIZE"
  shows "kinv (ext(HPort p := 1)) T (set_port p po (k\<lparr>k_next := Suc p\<rparr>))" (is "kinv ?ext T ?k")
proof -
  have none: "k_ports k p = None" using kinv_glob(4) [OF inv, of p] p by (cases "k_ports k p") auto
  note un = unused_port [OF inv none]
  have acc: "pr ?k = pr k" "st ?k = st k" "nd ?k = nd k" "pend ?k = pend k"
    "k_chans ?k = k_chans k" "k_waiting ?k = k_waiting k" "k_port_list ?k = k_port_list k"
    using none po(2) by (auto simp: fun_eq_iff pr_def st_def nd_def pend_def)
  show ?thesis
  proof (rule kinvI)
    fix c ch assume "k_chans ?k c = Some ch"
    then have c: "k_chans k c = Some ch" by (simp add: acc)
    show "refs_ok ?ext T ?k c ch" "link_ok ?k c ch" "node_ok T ?k c ch" "queue_ok ch"
      using kinvD(1-4) [OF inv c] by (simp_all add: refs_ok_def link_ok_def node_ok_def owned_def acc)
  next
    fix q qo assume q: "k_ports ?k q = Some qo"
    show "port_inv ?ext ?k q qo"
    proof (cases "q = p")
      case True
      then show ?thesis using q po un(2) by (simp add: port_inv_def acc)
    next
      case False
      then have "port_inv ?ext ?k q qo = port_inv ext k q qo" by (simp add: port_inv_def acc)
      then show ?thesis using kinvD(5) [OF inv, of q qo] q False by simp
    qed
  next
    show "glob_inv ?ext T ?k"
    proof (rule glob_invI)
      fix q assume "q \<in> set (k_port_list ?k)"
      then show "k_ports ?k q \<noteq> None" using kinv_glob(1) [OF inv, of q] by (auto simp: acc)
    next
      fix q qo assume "k_ports ?k q = Some qo"
      then show "q < k_next ?k" using kinv_glob(4) [OF inv, of q qo] p by (auto split: if_splits)
    next
      fix q assume "0 < ?ext (HPort q)"
      then show "k_ports ?k q \<noteq> None" using kinv_glob(5) [OF inv, of q] by (auto split: if_splits)
    next
      fix c ch assume "k_chans ?k c = Some ch"
      then show "c < k_next ?k" using kinv_glob(3) [OF inv, of c ch] p by (simp add: acc)
    next
      fix c assume "0 < ?ext (HChan c)"
      then show "k_chans ?k c \<noteq> None" using kinv_glob(6) [OF inv, of c] by (simp add: acc)
    next
      fix c r assume "(c, r) \<in> T"
      then show "k_chans ?k c \<noteq> None" using kinv_glob(7) [OF inv, of c r] by (simp add: acc)
    next
      fix c assume "c \<in> set (k_waiting ?k)"
      then show "k_chans ?k c \<noteq> None" using kinv_glob(2) [OF inv, of c] by (simp add: acc)
    next
      have "map (port_path ?k) (k_port_list k) = map (port_path k) (k_port_list k)"
        using un(2) by (intro map_cong) (auto simp: port_path_def)
      then show "distinct (map (port_path ?k) (k_port_list ?k))" using kinv_glob(10) [OF inv] acc(7) by metis
    qed (use kinv_glob(8,9) [OF inv] acc in simp_all)
  qed
qed

lemma port_create_ok:
  assumes inv: "kinv ext {} k" and run: "ipc_port_create sid path n sz flags k = (ret, po, k')"
  shows "(ret \<noteq> NO_ERROR \<longrightarrow> po = None \<and> kinv ext {} k' \<and> same_objs k k') \<and>
    (ret = NO_ERROR \<longrightarrow> (\<exists>p. po = Some p \<and> k_ports k p = None \<and> ext (HPort p) = 0 \<and>
       kinv (ext(HPort p := 1)) {} k' \<and> k_chans k' = k_chans k \<and> port_path k' p = path \<and>
       0 < length path \<and> length path < IPC_PORT_PATH_MAX \<and> 0 < n \<and> n \<le> IPC_CHAN_MAX_BUFS \<and>
       0 < sz \<and> sz \<le> IPC_CHAN_MAX_BUF_SIZE)) \<and> k_hyp k' = k_hyp k"
proof -
  obtain ok k1 where a: "alloc_ok k = (ok, k1)" by (metis prod.exhaust)
  note f = alloc_ok_frame [OF a]
  have k1: "kinv ext {} k1" by (rule kinv_same_objs [OF inv f(1)])
  let ?p = "k_next k1"
  have none: "k_ports k1 ?p = None"
    using kinv_glob(4) [OF k1, of ?p] by (cases "k_ports k1 ?p") auto
  note un = unused_port [OF k1 none]
  have err: "ERR_INVALID_ARGS \<noteq> 0" "ERR_NO_MEMORY \<noteq> 0" "ERR_TOO_BIG \<noteq> 0" "NO_ERROR = 0"
    by (simp_all add: ERR_INVALID_ARGS_def ERR_NO_MEMORY_def ERR_TOO_BIG_def NO_ERROR_def)
  consider (bad) "sid = None \<or> n = 0 \<or> IPC_CHAN_MAX_BUFS < n \<or> sz = 0 \<or> IPC_CHAN_MAX_BUF_SIZE < sz"
    | (mem) "\<not> ok \<or> length path = 0 \<or> IPC_PORT_PATH_MAX \<le> length path"
      "sid \<noteq> None" "0 < n" "n \<le> IPC_CHAN_MAX_BUFS" "0 < sz" "sz \<le> IPC_CHAN_MAX_BUF_SIZE"
    | (new) uuid where "sid = Some uuid" "0 < n" "n \<le> IPC_CHAN_MAX_BUFS" "0 < sz" "sz \<le> IPC_CHAN_MAX_BUF_SIZE"
      ok "0 < length path" "length path < IPC_PORT_PATH_MAX"
    by (cases sid) fastforce+
  then show ?thesis
  proof cases
    case bad
    have "same_objs k k" by (simp add: same_objs_def)
    with bad run inv err show ?thesis
      by (cases sid) (auto simp: ipc_port_create_def split: if_splits)
  next
    case mem
    with run k1 f err show ?thesis
      by (auto simp: ipc_port_create_def a split: if_splits)
  next
    case new
    let ?po = "\<lparr>p_path = path, p_uuid = uuid, p_state = IPC_PORT_STATE_INVALID,
       p_flags = flags, p_num_recv_bufs = n, p_recv_buf_size = sz,
       p_handle = handle_init handle_zero, p_pending_list = [], p_in_list = False\<rparr>"
    have r: "ret = NO_ERROR" "po = Some ?p" "k' = set_port ?p ?po (k1\<lparr>k_next := Suc ?p\<rparr>)"
      using run new by (simp_all add: ipc_port_create_def a Let_def)
    have "kinv (ext(HPort ?p := 1)) {} k'"
      unfolding r(3) by (rule kinv_new_port [OF k1 refl]) (use new in \<open>simp_all add: handle_init_def\<close>)
    then show ?thesis
      using new r none un(1) f(1,5) err by (simp add: same_objs_def port_path_def)
  qed
qed

section \<open>Listing a port\<close>

definition listed :: "nat \<Rightarrow> ipc_port \<Rightarrow> kern \<Rightarrow> kern" where
  "listed p po k = set_port p (po\<lparr>p_state := IPC_PORT_STATE_LISTENING, p_in_list := True\<rparr>)
     (k\<lparr>k_port_list := k_port_list k @ [p]\<rparr>)"

text \<open>The port list takes over one of the references of its clients.\<close>

lemma kinv_list_port:
  assumes inv: "kinv ext T k" and po: "k_ports k p = Some po" and out: "\<not> p_in_list po"
    and pos: "0 < ext (HPort p)" and fresh: "p_path po \<notin> port_path k ` set (k_port_list k)"
  shows "kinv (ext(HPort p := ext (HPort p) - 1)) T (listed p po k)" (is "kinv ?ext T ?k")
proof -
  let ?po = "po\<lparr>p_state := IPC_PORT_STATE_LISTENING, p_in_list := True\<rparr>"
  have acc: "pr ?k = pr k" "st ?k = st k" "nd ?k = nd k" "pend ?k = pend k" "port_path ?k = port_path k"
    "k_chans ?k = k_chans k" "k_waiting ?k = k_waiting k" "k_next ?k = k_next k"
    "k_port_list ?k = k_port_list k @ [p]"
    using po by (auto simp: fun_eq_iff pr_def st_def nd_def pend_def port_path_def listed_def)
  have ports: "k_ports ?k = (k_ports k)(p := Some ?po)" by (simp add: listed_def)
  note i = kinvD(5) [OF inv po, unfolded port_inv_def]
  have np: "p \<notin> set (k_port_list k)" using i out by simp
  show ?thesis
  proof (rule kinvI)
    fix c ch assume "k_chans ?k c = Some ch"
    then have c: "k_chans k c = Some ch" by (simp add: acc)
    show "refs_ok ?ext T ?k c ch" "link_ok ?k c ch" "node_ok T ?k c ch" "queue_ok ch"
      using kinvD(1-4) [OF inv c] by (simp_all add: refs_ok_def link_ok_def node_ok_def owned_def acc)
  next
    fix q qo assume q: "k_ports ?k q = Some qo"
    show "port_inv ?ext ?k q qo"
    proof (cases "q = p")
      case True
      then have "qo = ?po" using q by (simp add: ports)
      with i out pos True show ?thesis unfolding port_inv_def acc by auto
    next
      case False
      then have "port_inv ?ext ?k q qo = port_inv ext k q qo" by (simp add: port_inv_def acc)
      then show ?thesis using kinvD(5) [OF inv, of q qo] q False by (simp add: ports)
    qed
  next
    show "glob_inv ?ext T ?k"
    proof (rule glob_invI)
      fix q assume "q \<in> set (k_port_list ?k)"
      then show "k_ports ?k q \<noteq> None" using kinv_glob(1) [OF inv, of q] by (auto simp: ports acc)
    next
      fix q qo assume "k_ports ?k q = Some qo"
      then show "q < k_next ?k" using kinv_glob(4) [OF inv, of q] po by (auto simp: ports acc split: if_splits)
    next
      fix q assume "0 < ?ext (HPort q)"
      then show "k_ports ?k q \<noteq> None" using kinv_glob(5) [OF inv, of q] by (auto simp: ports split: if_splits)
    next
      fix c ch assume "k_chans ?k c = Some ch"
      then show "c < k_next ?k" using kinv_glob(3) [OF inv, of c ch] by (simp add: acc)
    next
      fix c assume "0 < ?ext (HChan c)"
      then show "k_chans ?k c \<noteq> None" using kinv_glob(6) [OF inv, of c] by (simp add: acc)
    next
      fix c r assume "(c, r) \<in> T"
      then show "k_chans ?k c \<noteq> None" using kinv_glob(7) [OF inv, of c r] by (simp add: acc)
    next
      fix c assume "c \<in> set (k_waiting ?k)"
      then show "k_chans ?k c \<noteq> None" using kinv_glob(2) [OF inv, of c] by (simp add: acc)
    next
      show "distinct (map (port_path ?k) (k_port_list ?k))"
        using kinv_glob(10) [OF inv] fresh po by (simp add: acc) (simp add: port_path_def)
    qed (use kinv_glob(8,9) [OF inv] acc np in simp_all)
  qed
qed

section \<open>The clients that wait for the port\<close>

text \<open>A waiting client whose path was found: off the waiting list, held by the operation.\<close>

definition found_chan :: "ipc_chan \<Rightarrow> ipc_chan" where
  "found_chan cl = cl\<lparr>c_path := None, c_node := None, c_refs := remove1 REF_NODE (c_refs cl @ [REF_TMP])\<rparr>"

lemma found_chan_simps [simp]:
  "c_state (found_chan cl) = c_state cl" "c_node (found_chan cl) = None" "c_uuid (found_chan cl) = c_uuid cl"
  "c_handle (found_chan cl) = c_handle cl" "c_peer (found_chan cl) = c_peer cl"
  "c_flags (found_chan cl) = c_flags cl"
  by (simp_all add: found_chan_def)

definition found :: "nat \<Rightarrow> ipc_chan \<Rightarrow> kern \<Rightarrow> kern" where
  "found c cl k = (set_chan c (found_chan cl) k)\<lparr>k_waiting := remove1 c (k_waiting k)\<rparr>"

lemma found_frame [simp]:
  "k_chans (found c cl k) = (k_chans k)(c := Some (found_chan cl))"
  "k_ports (found c cl k) = k_ports k" "k_port_list (found c cl k) = k_port_list k"
  "k_waiting (found c cl k) = remove1 c (k_waiting k)" "k_hyp (found c cl k) = k_hyp k"
  "k_alloc (found c cl k) = k_alloc k"
  by (simp_all add: found_def)

lemma take_waiting:
  assumes inv: "kinv ext {} k" and ch: "k_chans k c = Some cl" and node: "c_node cl = Some WAITING_LIST"
  shows "(do { k \<leftarrow> upd_chan c (\<lambda>ch. ch\<lparr>c_path := None\<rparr>) k;
           k \<leftarrow> chan_add_ref c REF_TMP k;
           k \<leftarrow> chan_list_delete c k;
           chan_del_ref c REF_NODE k }) = Some (found c cl k)"
    and "kinv ext {(c, REF_TMP)} (found c cl k)" and "0 < ext (HChan c)"
proof -
  note ro = kinvD(1) [OF inv ch]
  show "0 < ext (HChan c)" using ro node unfolding refs_ok_def by simp
  have refs: "REF_NODE \<in> set (c_refs cl)" "REF_TMP \<notin> set (c_refs cl)"
    using ro node unfolding refs_ok_def by (auto simp: owned_def)
  then have ne: "remove1 REF_NODE (c_refs cl @ [REF_TMP]) \<noteq> []" by (simp add: remove1_append)
  show "(do { k \<leftarrow> upd_chan c (\<lambda>ch. ch\<lparr>c_path := None\<rparr>) k;
           k \<leftarrow> chan_add_ref c REF_TMP k;
           k \<leftarrow> chan_list_delete c k;
           chan_del_ref c REF_NODE k }) = Some (found c cl k)"
    using ch node refs ne
    by (simp add: upd_chan_def chan_add_ref_def obj_add_ref_def chan_list_delete_def chan_del_ref_def
        obj_del_ref_def found_def found_chan_def set_chan_def)
  let ?c1 = "cl\<lparr>c_refs := c_refs cl @ [REF_TMP]\<rparr>"
  let ?k1 = "set_chan c ?c1 k"
  have i1: "kinv ext {(c, REF_TMP)} ?k1" using kinv_add_tmp(2) [OF inv ch] by simp
  have h1: "k_chans ?k1 c = Some ?c1" "c_node ?c1 = Some WAITING_LIST" using node by simp_all
  let ?k2 = "unlinked_waiting c ?c1 ?k1" and ?T = "{(c, REF_TMP)}"
  have i2: "kinv ext (insert (c, REF_NODE) ?T) ?k2" by (rule kinv_unlink_waiting(2) [OF i1 h1])
  let ?c2 = "?c1\<lparr>c_node := None\<rparr>"
  have h2: "k_chans ?k2 c = Some ?c2" by (simp add: unlinked_waiting_def)
  have TT: "insert (c, REF_NODE) ?T - {(c, REF_NODE)} = ?T" by auto
  have "kinv ext ?T (dropped c REF_NODE ?c2 ?k2)"
    using kinv_del_float(2) [OF i2 h2, of REF_NODE, unfolded TT] by (simp add: held_def)
  moreover have "set (c_refs ?c2) \<noteq> {REF_NODE}" by auto
  ultimately have i3: "kinv ext ?T (set_chan c (?c2\<lparr>c_refs := remove1 REF_NODE (c_refs ?c2)\<rparr>) ?k2)"
    by (simp add: dropped_def)
  let ?c3 = "?c2\<lparr>c_refs := remove1 REF_NODE (c_refs ?c2)\<rparr>"
  let ?k3 = "set_chan c ?c3 ?k2"
  have h3: "k_chans ?k3 c = Some ?c3" by simp
  have "kinv ext ?T (set_chan c (?c3\<lparr>c_path := None\<rparr>) ?k3)"
    by (rule kinv_set_chan [OF i3 h3])
      (use kinvD(1-4) [OF i3 h3] in \<open>simp_all add: refs_ok_def link_ok_def node_ok_def queue_ok_def owned_def\<close>)
  moreover have "set_chan c (?c3\<lparr>c_path := None\<rparr>) ?k3 = found c cl k"
    by (cases k, cases cl) (simp add: found_def found_chan_def set_chan_def unlinked_waiting_def)
  ultimately show "kinv ext {(c, REF_TMP)} (found c cl k)" by simp
qed

text \<open>The body of the loop for a client with the port's path.\<close>

definition publish_client :: "nat \<Rightarrow> nat \<Rightarrow> kern \<Rightarrow> (int \<times> kern) option" where
  "publish_client p client k = do {
     po \<leftarrow> k_ports k p;
     k \<leftarrow> upd_chan client (\<lambda>ch. ch\<lparr>c_path := None\<rparr>) k;
     k \<leftarrow> chan_add_ref client REF_TMP k;
     k \<leftarrow> chan_list_delete client k;
     k \<leftarrow> chan_del_ref client REF_NODE k;
     cl \<leftarrow> k_chans k client;
     let ret = k_hyp k (h_guest_id (c_handle cl)) (p_uuid po);
     k \<leftarrow> (if ret \<noteq> 0 then Some k
           else do {
             (err, k) \<leftarrow> port_attach_client p client k;
             if err \<noteq> 0 then chan_shutdown_locked client k else Some k });
     k \<leftarrow> chan_del_ref client REF_TMP k;
     Some (ret, k) }"

lemma publish_loop_step:
  assumes "k_chans k c = Some cl" "k_ports k p = Some po" "c_path cl = Some path"
  shows "publish_loop p (c # cs) ret k =
    (if path \<noteq> p_path po then publish_loop p cs ret k
     else Option.bind (publish_client p c k) (\<lambda>(ret, k). publish_loop p cs ret k))"
  using assms by (auto simp: publish_client_def Let_def bind_eq_Some_conv split: Option.bind_splits)

lemma publish_client_found:
  assumes "kinv ext {} k" "k_chans k c = Some cl" "c_node cl = Some WAITING_LIST" "k_ports k p = Some po"
    and "k_hyp k (h_guest_id (c_handle cl)) (p_uuid po) = 0"
  shows "publish_client p c k = do {
     (err, k) \<leftarrow> port_attach_client p c (found c cl k);
     k \<leftarrow> (if err \<noteq> 0 then chan_shutdown_locked c k else Some k);
     k \<leftarrow> chan_del_ref c REF_TMP k;
     Some (0, k) }"
proof -
  obtain a1 a2 a3 where s: "upd_chan c (\<lambda>ch. ch\<lparr>c_path := None\<rparr>) k = Some a1"
    "chan_add_ref c REF_TMP a1 = Some a2" "chan_list_delete c a2 = Some a3"
    "chan_del_ref c REF_NODE a3 = Some (found c cl k)"
    using take_waiting(1) [OF assms(1-3)] by (auto simp: bind_eq_Some_conv)
  show ?thesis using assms(4,5)
    by (simp add: publish_client_def s Let_def split_def)
qed

text \<open>A refused client is in no list, so that its shutdown fails.\<close>

lemma shutdown_unlisted:
  assumes "k_chans k c = Some cl" "c_state cl = IPC_CHAN_STATE_WAITING_FOR_PORT" "c_node cl = None"
  shows "chan_shutdown_locked c k = None"
  using assms by (simp add: chan_shutdown_locked_def chan_shutdown_one_def ASSERT_def)

lemma publish_client_ok:
  assumes inv: "kinv ext {} k" and cl: "k_chans k c = Some cl" and node: "c_node cl = Some WAITING_LIST"
    and po: "k_ports k p = Some po" and hyp: "k_hyp k (h_guest_id (c_handle cl)) (p_uuid po) = 0"
  shows "(publish_client p c k = None \<and>
      (k_alloc k \<noteq> [] \<or> p_state po \<noteq> IPC_PORT_STATE_LISTENING \<or> check_access po (c_uuid cl) \<noteq> NO_ERROR)) \<or>
    (\<exists>k' s cl'. publish_client p c k = Some (0, k') \<and> kinv ext {} k' \<and>
      k_waiting k' = remove1 c (k_waiting k) \<and> k_hyp k' = k_hyp k \<and> (k_alloc k = [] \<longrightarrow> k_alloc k' = []) \<and>
      k_ports k' = (k_ports k)(p := Some (att_port s po)) \<and> k_chans k' c = Some cl' \<and>
      c_state cl' = IPC_CHAN_STATE_CONNECTING \<and> c_peer cl' = Some s \<and> pr k' s = Some c \<and> k_chans k s = None \<and>
      (\<forall>d x. d \<noteq> c \<longrightarrow> k_chans k d = Some x \<longrightarrow> k_chans k' d = Some x))"
proof -
  note tw = take_waiting [OF inv cl node]
  let ?k = "found c cl k"
  have st: "c_state cl = IPC_CHAN_STATE_WAITING_FOR_PORT" using kinvD(3) [OF inv cl] node by (simp add: node_ok_def)
  have c1: "k_chans ?k c = Some (found_chan cl)" and p1: "k_ports ?k p = Some po" using po by simp_all
  have h: "held {(c, REF_TMP)} c" "c_state (found_chan cl) = IPC_CHAN_STATE_WAITING_FOR_PORT"
    and nT: "\<And>d. (c, REF_PEER d) \<notin> {(c, REF_TMP)}"
    using st by (simp_all add: held_def)
  note att = port_attach_client_ok [OF tw(2) p1 c1 disjI2 [OF h(2)] found_chan_simps(2) h(1) nT]
  obtain ret k1 where a: "port_attach_client p c ?k = Some (ret, k1)" "kinv ext {(c, REF_TMP)} k1"
    "k_waiting k1 = k_waiting ?k" "k_hyp k1 = k_hyp ?k"
    "ret = NO_ERROR \<longrightarrow> p_state po = IPC_PORT_STATE_LISTENING \<and> check_access po (c_uuid (found_chan cl)) = NO_ERROR \<and>
       attached p c (found_chan cl) po ?k k1"
    "ret \<noteq> NO_ERROR \<longrightarrow> k_ports k1 = k_ports ?k \<and>
       (k_chans k1 = k_chans ?k \<or> k_chans k1 = (k_chans ?k)(c := Some (found_chan cl\<lparr>c_msg_queue := None\<rparr>)))"
    "k_alloc ?k = [] \<and> p_state po = IPC_PORT_STATE_LISTENING \<and> check_access po (c_uuid (found_chan cl)) = NO_ERROR \<longrightarrow>
       ret = NO_ERROR \<and> k_alloc k1 = []"
    using att by (elim exE conjE) (rule that; assumption)
  note eq = publish_client_found [OF inv cl node po hyp, unfolded a(1)]
  show ?thesis
  proof (cases "ret = NO_ERROR")
    case False
    have "\<exists>x. k_chans k1 c = Some x \<and> c_state x = IPC_CHAN_STATE_WAITING_FOR_PORT \<and> c_node x = None"
      using a(6) False st by auto
    then have "chan_shutdown_locked c k1 = None" using shutdown_unlisted by blast
    moreover have "ret \<noteq> 0" using False by (simp add: NO_ERROR_def)
    ultimately have "publish_client p c k = None" using eq by simp
    then show ?thesis using a(7) False by auto
  next
    case True
    obtain s cl' sv where at: "k_chans ?k s = None" "k_chans k1 = (k_chans ?k)(c := Some cl', s := Some sv)"
      "k_ports k1 = (k_ports ?k)(p := Some (att_port s po))"
      "c_state cl' = IPC_CHAN_STATE_CONNECTING" "c_peer cl' = Some s" "c_peer sv = Some c"
      using a(5) True unfolding attached_def by blast
    have ne: "s \<noteq> c" using at(1) by auto
    have c2: "k_chans k1 c = Some cl'" using at(2) ne by simp
    have "REF_HANDLE \<in> set (c_refs cl')"
      using kinvD(1) [OF a(2) c2] tw(3) unfolding refs_ok_def owned_def by auto
    then have more: "set (c_refs cl') \<noteq> {REF_TMP}" by auto
    have TT: "{(c, REF_TMP)} - {(c, REF_TMP)} = {}" by simp
    have d: "chan_del_ref c REF_TMP k1 = Some (dropped c REF_TMP cl' k1)" "kinv ext {} (dropped c REF_TMP cl' k1)"
      using kinv_del_float [OF a(2) c2, of REF_TMP, unfolded TT] tw(3) at(4) by (simp_all add: unsettled_def)
    let ?cl = "cl'\<lparr>c_refs := remove1 REF_TMP (c_refs cl')\<rparr>"
    have k': "dropped c REF_TMP cl' k1 = set_chan c ?cl k1" using more by (simp add: dropped_def)
    have "publish_client p c k = Some (0, set_chan c ?cl k1)" using eq True d(1) k' by (simp add: NO_ERROR_def)
    moreover have "\<forall>e x. e \<noteq> c \<longrightarrow> k_chans k e = Some x \<longrightarrow> k_chans (set_chan c ?cl k1) e = Some x"
      using at(1,2) by auto
    moreover have "k_alloc k = [] \<longrightarrow> k_alloc (set_chan c ?cl k1) = []" using a(5,7) True by simp
    moreover have "pr (set_chan c ?cl k1) s = Some c" "k_chans k s = None"
      using at(1,2,6) ne by (simp_all add: pr_def)
    ultimately show ?thesis using d(2) k' a(3,4) at(3-5) by auto
  qed
qed

definition wait_path :: "kern \<Rightarrow> nat \<Rightarrow> byte list option" where
  "wait_path k c = Option.bind (k_chans k c) c_path"

text \<open>What the port must allow for the loop not to fail.\<close>

definition all_allowed :: "kern \<Rightarrow> ipc_port \<Rightarrow> nat list \<Rightarrow> bool" where
  "all_allowed k po cs \<longleftrightarrow> k_alloc k = [] \<and> p_state po = IPC_PORT_STATE_LISTENING \<and>
     (\<forall>c\<in>set cs. \<forall>cl. k_chans k c = Some cl \<and> c_path cl = Some (p_path po) \<longrightarrow>
        check_access po (c_uuid cl) = NO_ERROR)"

lemma att_port_simps [simp]:
  "p_path (att_port s po) = p_path po" "p_state (att_port s po) = p_state po"
  "p_uuid (att_port s po) = p_uuid po" "p_pending_list (att_port s po) = p_pending_list po @ [s]"
  "p_in_list (att_port s po) = p_in_list po" "check_access (att_port s po) u = check_access po u"
  by (simp_all add: att_port_def check_access_def)

lemma waiting_chan:
  assumes "kinv ext T k" "c \<in> set (k_waiting k)"
  obtains cl path where "k_chans k c = Some cl" "c_node cl = Some WAITING_LIST" "c_path cl = Some path"
    "c_state cl = IPC_CHAN_STATE_WAITING_FOR_PORT"
proof -
  obtain cl where cl: "k_chans k c = Some cl" using kinv_glob(2) [OF assms] by auto
  with kinvD(3) [OF assms(1) cl] assms(2) that show thesis by (auto simp: node_ok_def)
qed

lemma publish_loop_ok:
  assumes "kinv ext {} k" "k_ports k p = Some po" "distinct cs" "set cs \<subseteq> set (k_waiting k)" "k_hyp k = (\<lambda>_ _. 0)"
  shows "publish_loop p cs ret k = None \<and> \<not> all_allowed k po cs \<or>
    (\<exists>ret' k' po' ss. publish_loop p cs ret k = Some (ret', k') \<and> kinv ext {} k' \<and> ret' \<in> {ret, 0} \<and> k_hyp k' = k_hyp k \<and>
      k_ports k' p = Some po' \<and> p_state po' = p_state po \<and> p_in_list po' = p_in_list po \<and>
      p_pending_list po' = p_pending_list po @ ss \<and>
      map (pr k') ss = map Some (filter (\<lambda>c. wait_path k c = Some (p_path po)) cs) \<and>
      (\<forall>c\<in>set cs. wait_path k c = Some (p_path po) \<longrightarrow> st k' c = Some IPC_CHAN_STATE_CONNECTING) \<and>
      (\<forall>c x. c \<notin> set cs \<longrightarrow> k_chans k c = Some x \<longrightarrow> k_chans k' c = Some x))"
  using assms
proof (induction cs arbitrary: k po ret)
  case Nil
  have "\<exists>ss. p_pending_list po = p_pending_list po @ ss \<and> map (pr k) ss = []" by simp
  with Nil.prems(1,2) show ?case by auto
next
  case (Cons c cs)
  have "c \<in> set (k_waiting k)" using Cons.prems(4) by simp
  then obtain cl path where cl: "k_chans k c = Some cl" "c_node cl = Some WAITING_LIST" "c_path cl = Some path"
    by (rule waiting_chan [OF Cons.prems(1)])
  have wp: "wait_path k c = Some path" using cl by (simp add: wait_path_def)
  note step = publish_loop_step [OF cl(1) Cons.prems(2) cl(3)]
  show ?case
  proof (cases "path = p_path po")
    case False
    have "all_allowed k po (c # cs) \<longleftrightarrow> all_allowed k po cs" using cl False by (auto simp: all_allowed_def)
    moreover have "publish_loop p (c # cs) ret k = publish_loop p cs ret k" using step False by simp
    moreover have "filter (\<lambda>c. wait_path k c = Some (p_path po)) (c # cs) = filter (\<lambda>c. wait_path k c = Some (p_path po)) cs"
      using wp False by simp
    moreover have "wait_path k c \<noteq> Some (p_path po)" using wp False by simp
    ultimately show ?thesis
      using Cons.IH [OF Cons.prems(1,2) _ _ Cons.prems(5), of ret] Cons.prems(3,4)
      by (simp only: distinct.simps list.set insert_subset conj_assoc simp_thms ball_simps) (elim disjE exE conjE; force)
  next
    case True
    have hyp: "k_hyp k (h_guest_id (c_handle cl)) (p_uuid po) = 0" using Cons.prems(5) by simp
    from publish_client_ok [OF Cons.prems(1) cl(1,2) Cons.prems(2) hyp]
    consider (no) "publish_client p c k = None"
        "k_alloc k \<noteq> [] \<or> p_state po \<noteq> IPC_PORT_STATE_LISTENING \<or> check_access po (c_uuid cl) \<noteq> NO_ERROR"
      | (yes) k1 s cl' where "publish_client p c k = Some (0, k1)" "kinv ext {} k1"
        "k_waiting k1 = remove1 c (k_waiting k)" "k_hyp k1 = k_hyp k" "k_alloc k = [] \<longrightarrow> k_alloc k1 = []"
        "k_ports k1 = (k_ports k)(p := Some (att_port s po))" "k_chans k1 c = Some cl'"
        "c_state cl' = IPC_CHAN_STATE_CONNECTING" "pr k1 s = Some c" "k_chans k s = None"
        "\<forall>d x. d \<noteq> c \<longrightarrow> k_chans k d = Some x \<longrightarrow> k_chans k1 d = Some x"
      by (elim disjE exE conjE) (rule that(2); assumption | rule that(1), assumption, simp)+
    then show ?thesis
    proof cases
      case no
      have "\<not> all_allowed k po (c # cs)" using no(2) cl(1,3) True by (auto simp: all_allowed_def)
      then show ?thesis using no(1) step True by simp
    next
      case yes
      have p1: "k_ports k1 p = Some (att_port s po)" using yes(6) by simp
      have dc: "distinct cs" "c \<notin> set cs" using Cons.prems(3) by simp_all
      have w1: "set cs \<subseteq> set (k_waiting k1)"
        using Cons.prems(4) dc(2) yes(3) kinv_glob(9) [OF Cons.prems(1)] by auto
      have h1: "k_hyp k1 = (\<lambda>_ _. 0)" using Cons.prems(5) yes(4) by simp
      have same: "k_chans k1 d = k_chans k d" if d: "d \<in> set cs" for d
      proof -
        have "d \<in> set (k_waiting k)" using Cons.prems(4) d by auto
        then obtain x where "k_chans k d = Some x" using kinv_glob(2) [OF Cons.prems(1)] by auto
        then show ?thesis using yes(11) d dc(2) by auto
      qed
      then have wps: "wait_path k1 d = wait_path k d" if "d \<in> set cs" for d using that by (simp add: wait_path_def)
      have al: "all_allowed k po (c # cs) \<Longrightarrow> all_allowed k1 (att_port s po) cs"
        using yes(5) same by (simp add: all_allowed_def)
      have flt: "filter (\<lambda>c. wait_path k1 c = Some (p_path po)) cs = filter (\<lambda>c. wait_path k c = Some (p_path po)) cs"
        by (rule filter_cong) (simp_all add: wps)
      have scs: "s \<notin> set cs" using same [of s] yes(9,10) by (auto simp: pr_def)
      obtain sv where sv: "k_chans k1 s = Some sv" "c_peer sv = Some c"
        using yes(9) by (cases "k_chans k1 s") (simp_all add: pr_def)
      from Cons.IH [OF yes(2) p1 dc(1) w1 h1, of 0]
      consider "publish_loop p cs 0 k1 = None" "\<not> all_allowed k1 (att_port s po) cs"
        | (run) ret' k' po' ss where "publish_loop p cs 0 k1 = Some (ret', k')" "kinv ext {} k'" "ret' = 0" "k_hyp k' = k_hyp k1"
          "k_ports k' p = Some po'" "p_state po' = p_state po" "p_in_list po' = p_in_list po"
          "p_pending_list po' = p_pending_list po @ s # ss"
          "map (pr k') ss = map Some (filter (\<lambda>c. wait_path k c = Some (p_path po)) cs)"
          "\<forall>c\<in>set cs. wait_path k1 c = Some (p_path po) \<longrightarrow> st k' c = Some IPC_CHAN_STATE_CONNECTING"
          "\<forall>c x. c \<notin> set cs \<longrightarrow> k_chans k1 c = Some x \<longrightarrow> k_chans k' c = Some x"
        by (auto simp: flt)
      then show ?thesis
      proof cases
        case 1
        then show ?thesis using yes(1) step True al by auto
      next
        case run
        have "pr k' s = Some c" using run(11) scs sv by (simp add: pr_def)
        then have "map (pr k') (s # ss) = map Some (filter (\<lambda>c. wait_path k c = Some (p_path po)) (c # cs))"
          using run(9) wp True by simp
        moreover have "st k' c = Some IPC_CHAN_STATE_CONNECTING"
          using run(11) dc(2) yes(7,8) by (simp add: st_def)
        then have "\<forall>d\<in>set (c # cs). wait_path k d = Some (p_path po) \<longrightarrow> st k' d = Some IPC_CHAN_STATE_CONNECTING"
          using run(10) wps by simp
        moreover have "\<forall>d x. d \<notin> set (c # cs) \<longrightarrow> k_chans k d = Some x \<longrightarrow> k_chans k' d = Some x"
          using run(11) yes(11) by simp
        moreover have "publish_loop p (c # cs) ret k = Some (0, k')" using step True yes(1) run(1,3) by simp
        ultimately show ?thesis using run(2,4-8) yes(4) by fastforce
      qed
    qed
  qed
qed

text \<open>
  With a hypervisor check that permits every access (the default stub), publishing returns whenever
  the port admits the clients that wait for it and memory lasts, and then they are all connecting,
  their servers pending at the port in the order in which they came.
\<close>

definition connected_all :: "kern \<Rightarrow> kern \<Rightarrow> nat \<Rightarrow> ipc_port \<Rightarrow> bool" where
  "connected_all k k' p po \<longleftrightarrow>
     (\<exists>ss. pend k' p = p_pending_list po @ ss \<and>
        map (pr k') ss = map Some (filter (\<lambda>c. wait_path k c = Some (p_path po)) (k_waiting k))) \<and>
     (\<forall>c\<in>set (k_waiting k). wait_path k c = Some (p_path po) \<longrightarrow> st k' c = Some IPC_CHAN_STATE_CONNECTING)"

lemma publish_ok:
  assumes inv: "kinv ext {} k" and po: "k_ports k p = Some po" and out: "\<not> p_in_list po"
    and pos: "0 < ext (HPort p)" and hyp: "k_hyp k = (\<lambda>_ _. 0)"
  shows "ipc_port_publish p k = None \<and>
      \<not> all_allowed k (po\<lparr>p_state := IPC_PORT_STATE_LISTENING\<rparr>) (k_waiting k) \<or>
    ipc_port_publish p k = Some (ERR_ALREADY_EXISTS, k) \<and> p_path po \<in> port_path k ` set (k_port_list k) \<or>
    (\<exists>k'. ipc_port_publish p k = Some (NO_ERROR, k') \<and> kinv ext {} k' \<and> k_hyp k' = k_hyp k \<and>
       p_path po \<notin> port_path k ` set (k_port_list k) \<and>
       (\<exists>po'. k_ports k' p = Some po' \<and> p_state po' = IPC_PORT_STATE_LISTENING \<and> p_in_list po') \<and>
       connected_all k k' p po)"
proof -
  obtain dup where dup: "port_find_locked (p_path po) k = Some dup"
    "\<forall>q. dup = Some q \<longrightarrow> q \<in> set (k_port_list k) \<and> port_path k q = p_path po"
    "dup = None \<longrightarrow> p_path po \<notin> port_path k ` set (k_port_list k)"
    using port_find_locked_ok [OF inv, of "p_path po"] by auto
  show ?thesis
  proof (cases dup)
    case (Some q)
    then have "ipc_port_publish p k = Some (ERR_ALREADY_EXISTS, k)"
      using po out dup(1) by (simp add: ipc_port_publish_def ASSERT_def)
    moreover have "p_path po \<in> port_path k ` set (k_port_list k)" using dup(2) Some by force
    ultimately show ?thesis by simp
  next
    case None
    let ?k1 = "listed p po k" and ?ext = "ext(HPort p := ext (HPort p) - 1)"
    have fresh: "p_path po \<notin> port_path k ` set (k_port_list k)" using dup(3) None by simp
    have i1: "kinv ?ext {} ?k1" by (rule kinv_list_port [OF inv po out pos fresh])
    let ?po1 = "po\<lparr>p_state := IPC_PORT_STATE_LISTENING, p_in_list := True\<rparr>"
    have p1: "k_ports ?k1 p = Some ?po1" by (simp add: listed_def)
    then have "\<exists>q. HPort p = HPort q \<and> k_ports ?k1 q \<noteq> None" by simp
    then obtain k2 where k2: "handle_incref (HPort p) ?k1 = Some k2" "kinv (?ext(HPort p := Suc (?ext (HPort p)))) {} k2"
      "upd_handle (HPort p) (\<lambda>x. x\<lparr>h_refcnt := h_refcnt x + 1\<rparr>) ?k1 = Some k2"
      using kinv_incref [OF i1, of "HPort p"] by blast
    have "?ext(HPort p := Suc (?ext (HPort p))) = ext" using pos by auto
    with k2(2) have i2: "kinv ext {} k2" by simp
    let ?po2 = "?po1\<lparr>p_handle := (p_handle po)\<lparr>h_refcnt := h_refcnt (p_handle po) + 1\<rparr>\<rparr>"
    have k2_eq: "k2 = set_port p ?po2 ?k1" using k2(3) p1 by (simp add: upd_port_def)
    have fr: "k_ports k2 p = Some ?po2" "k_waiting k2 = k_waiting k" "k_chans k2 = k_chans k"
      "k_hyp k2 = (\<lambda>_ _. 0)" "k_alloc k2 = k_alloc k"
      using hyp by (simp_all add: k2_eq listed_def)
    have wp: "wait_path k2 = wait_path k" by (simp add: fun_eq_iff wait_path_def fr)
    have al: "all_allowed k2 ?po2 (k_waiting k) = all_allowed k (po\<lparr>p_state := IPC_PORT_STATE_LISTENING\<rparr>) (k_waiting k)"
      by (simp add: all_allowed_def fr check_access_def)
    have run: "ipc_port_publish p k = publish_loop p (k_waiting k) NO_ERROR k2"
      using po out dup(1) None k2(1) fr(2) by (simp add: ipc_port_publish_def ASSERT_def listed_def)
    have "set (k_waiting k) \<subseteq> set (k_waiting k2)" by (simp add: fr)
    from publish_loop_ok [OF i2 fr(1) kinv_glob(9) [OF inv] this fr(4), of NO_ERROR]
    show ?thesis unfolding run connected_all_def
      using fresh hyp by (auto simp: al wp fr NO_ERROR_def pend_def)
  qed
qed

end
