(* ===== verification/Messages.thy ===== *)
theory Messages
  imports Publish
begin

text \<open>
  The message operations on the ends of a connection, under the lifetime invariant: sending puts a
  message in the peer's queue and in no other, receiving takes the oldest one off the channel's own
  queue, and neither ever fails on a channel that has a queue.
\<close>

definition inbox :: "kern \<Rightarrow> nat \<Rightarrow> byte list list" where
  "inbox k c = (case Option.bind (k_chans k c) c_msg_queue of None \<Rightarrow> [] | Some mq \<Rightarrow> mq_pending mq)"

definition has_queue :: "kern \<Rightarrow> nat \<Rightarrow> bool" where
  "has_queue k c \<longleftrightarrow> Option.bind (k_chans k c) c_msg_queue \<noteq> None"

lemma inbox_notify [simp]: "inbox (handle_notify_waiters_locked h k) = inbox k"
  by (simp add: fun_eq_iff inbox_def)

lemma has_queueE:
  assumes "has_queue k c" "kinv ext T k"
  obtains ch mq where "k_chans k c = Some ch" "c_msg_queue ch = Some mq" "mq_inv mq" "inbox k c = mq_pending mq"
  using assms kinvD(4) by (auto simp: has_queue_def queue_ok_def inbox_def split: bind_split_asm)

text \<open>A queue is replaced by another one.\<close>

lemma kinv_requeue:
  assumes inv: "kinv ext T k" and ch: "k_chans k c = Some ch" and "c_msg_queue ch = Some mq" and "mq_inv mq'"
  shows "kinv ext T (set_chan c (ch\<lparr>c_msg_queue := Some mq'\<rparr>) k)"
    and "inbox (set_chan c (ch\<lparr>c_msg_queue := Some mq'\<rparr>) k) = (inbox k)(c := mq_pending mq')"
    and "st (set_chan c (ch\<lparr>c_msg_queue := Some mq'\<rparr>) k) = st k"
    and "pr (set_chan c (ch\<lparr>c_msg_queue := Some mq'\<rparr>) k) = pr k"
  using kinv_chan_local [OF inv ch, of "ch\<lparr>c_msg_queue := Some mq'\<rparr>"] assms acc_set_chan [OF ch]
  by (simp_all add: queue_ok_def fun_eq_iff inbox_def)

lemma kinv_aux_state:
  fixes a :: u32
  assumes inv: "kinv ext T k" and ch: "k_chans k c = Some ch"
  shows "kinv ext T (set_chan c (ch\<lparr>c_aux_state := a\<rparr>) k)"
    and "inbox (set_chan c (ch\<lparr>c_aux_state := a\<rparr>) k) = inbox k"
  using kinv_chan_local [OF inv ch, of "ch\<lparr>c_aux_state := a\<rparr>"] kinvD(4) [OF inv ch] ch
  by (simp_all add: queue_ok_def fun_eq_iff inbox_def)

text \<open>The two ends of a connection.\<close>

lemma connected_ends:
  assumes inv: "kinv ext T k" and "st k c = Some IPC_CHAN_STATE_CONNECTED"
  obtains d where "pr k c = Some d" "pr k d = Some c" "d \<noteq> c" "st k d = Some IPC_CHAN_STATE_CONNECTED"
    "has_queue k c" "has_queue k d"
proof -
  obtain ch where ch: "k_chans k c = Some ch" "c_state ch = IPC_CHAN_STATE_CONNECTED"
    using assms(2) by (auto simp: st_def)
  note l = kinvD(2) [OF inv ch(1), unfolded link_ok_def]
  obtain d where d: "c_peer ch = Some d" "pr k d = Some c" "st k d = Some IPC_CHAN_STATE_CONNECTED"
    using l ch(2) by auto
  then obtain pe where pe: "k_chans k d = Some pe" "c_state pe = IPC_CHAN_STATE_CONNECTED" by (auto simp: st_def)
  note l' = kinvD(2) [OF inv pe(1), unfolded link_ok_def]
  show thesis
  proof (rule that)
    show "pr k c = Some d" using ch(1) d(1) by (simp add: pr_def)
    show "d \<noteq> c" using l d(1) by auto
    show "has_queue k c" using l ch by (auto simp: has_queue_def)
    show "has_queue k d" using l' pe by (auto simp: has_queue_def)
  qed (use d in simp_all)
qed

lemma send_ok:
  assumes inv: "kinv ext T k" and alive: "k_chans k c \<noteq> None" and msg: "msg_desc_ok msg"
  shows "\<exists>ret k'. chan_send_locked m (Some (HChan c)) msg k = Some (ret, k') \<and> kinv ext T k' \<and>
    k_hyp k' = k_hyp k \<and> k_ports k' = k_ports k \<and>
    (ret < 0 \<longrightarrow> inbox k' = inbox k) \<and>
    (0 \<le> ret \<longrightarrow> st k c = Some IPC_CHAN_STATE_CONNECTED \<and>
       (\<exists>d content. pr k c = Some d \<and> int (length content) = ret \<and> inbox k' = (inbox k)(d := inbox k d @ [content]) \<and>
          (\<forall>data. msg = kern_msg data \<longrightarrow> content = take (nat ret) data)))"
proof -
  obtain ch where ch: "k_chans k c = Some ch" using alive by auto
  have neg: "ERR_CHANNEL_CLOSED < 0" "ERR_NOT_READY < 0" "ERR_NOT_ENOUGH_BUFFER < 0"
    by (simp_all add: ERR_CHANNEL_CLOSED_def ERR_NOT_READY_def ERR_NOT_ENOUGH_BUFFER_def)
  show ?thesis
  proof (cases "c_state ch = IPC_CHAN_STATE_CONNECTED")
    case False
    then show ?thesis using ch inv neg
      by (simp add: chan_send_locked_def check_channel_connected_locked_def ERR_CHANNEL_CLOSED_def
          ERR_NOT_READY_def NO_ERROR_def)
  next
    case True
    then have "st k c = Some IPC_CHAN_STATE_CONNECTED" using ch by (simp add: st_def)
    then obtain d where d: "pr k c = Some d" "d \<noteq> c" "has_queue k d"
      using connected_ends [OF inv] by metis
    obtain pe mq where pe: "k_chans k d = Some pe" "c_msg_queue pe = Some mq" "mq_inv mq" "inbox k d = mq_pending mq"
      using has_queueE [OF d(3) inv] by metis
    have peer: "c_peer ch = Some d" using d(1) ch by (simp add: pr_def)
    have chk: "check_channel_connected_locked (Some (HChan c)) k = Some NO_ERROR"
      using ch True peer by (simp add: check_channel_connected_locked_def ASSERT_def)
    show ?thesis
    proof (cases "mq_free_list mq")
      case Nil
      have "chan_send_locked m (Some (HChan c)) msg k = Some (ERR_NOT_ENOUGH_BUFFER,
          set_chan c (ch\<lparr>c_aux_state := c_aux_state ch OR IPC_CHAN_AUX_STATE_SEND_BLOCKED\<rparr>) k)"
        using neg(3) by (simp add: chan_send_locked_def chk msg_write_locked_def ch peer pe Nil upd_chan_eq [OF ch])
      then show ?thesis using kinv_aux_state [OF inv ch] neg(3) by simp
    next
      case (Cons i fs)
      obtain ret b where w: "msg_fill m msg (drop (i * item_sz mq) (mq_buf mq)) (item_sz mq) = Some (ret, Some b)"
        "mq_write m msg mq = Some (ret, mq_wrote i ret b mq)" "mq_inv (mq_wrote i ret b mq)"
        "\<forall>j<num_items mq. j \<noteq> i \<longrightarrow> mq_content (mq_wrote i ret b mq) j = mq_content mq j"
        "mq_pending (mq_wrote i ret b mq) = (if ret < 0 then mq_pending mq else mq_pending mq @ [take (nat ret) b])"
        "ret \<le> int (item_sz mq)" "length b = length (drop (i * item_sz mq) (mq_buf mq))"
        by (rule mq_write_ok [OF pe(3) msg Cons])
      let ?mq = "mq_wrote i ret b mq"
      let ?k = "set_chan d (pe\<lparr>c_msg_queue := Some ?mq\<rparr>) k"
      note rq = kinv_requeue [OF inv pe(1,2) w(3)]
      have i: "i < num_items mq" using mq_inv_lists(1) [OF pe(3), of i] Cons by simp
      have len: "0 \<le> ret \<longrightarrow> int (length (take (nat ret) b)) = ret"
        using w(6,7) mq_inv_room [OF pe(3) i] by auto
      have wr: "msg_write_locked m c msg k = Some (ret, ?k)"
        using pe ch peer w(2) Cons by (simp add: msg_write_locked_def)
      have kc: "k_chans ?k c = Some ch" "k_chans ?k d = Some (pe\<lparr>c_msg_queue := Some ?mq\<rparr>)" using ch d(2) by simp_all
      show ?thesis
      proof (cases "ret < 0")
        case True
        then have "chan_send_locked m (Some (HChan c)) msg k = Some (ret, ?k)"
          by (simp add: chan_send_locked_def chk wr)
        then show ?thesis using rq True w(5) pe(4) by (simp add: fun_upd_idem)
      next
        case False
        then have "chan_send_locked m (Some (HChan c)) msg k = Some (ret, handle_notify_waiters_locked (c_handle pe) ?k)"
          using kc peer by (simp add: chan_send_locked_def chk wr handle_notify_def del: kern_frame)
        moreover have "k_hyp (handle_notify_waiters_locked (c_handle pe) ?k) = k_hyp k"
          by (simp add: handle_notify_waiters_locked_def event_signal_def split: option.split)
        moreover have "\<exists>content. int (length content) = ret \<and>
            inbox (handle_notify_waiters_locked (c_handle pe) ?k) = (inbox k)(d := inbox k d @ [content]) \<and>
            (\<forall>data. msg = kern_msg data \<longrightarrow> content = take (nat ret) data)"
        proof (intro exI conjI allI impI)
          show "int (length (take (nat ret) b)) = ret" using len False by simp
          show "inbox (handle_notify_waiters_locked (c_handle pe) ?k) = (inbox k)(d := inbox k d @ [take (nat ret) b])"
            using rq(2) False w(5) pe(4) by simp
          fix data assume "msg = kern_msg data"
          then have "mq_send m mq data = Some ?mq" using w(2) False by (simp add: mq_send_def)
          then have "take (nat ret) b = take (item_sz mq) data"
            using mq_send_ok [OF pe(3), of m data] Cons w(5) False by simp
          moreover have "length (take (nat ret) b) = nat ret" using len False by linarith
          ultimately show "take (nat ret) b = take (nat ret) data"
            by (metis length_take min.cobounded1 min.commute take_all take_take)
        qed
        ultimately show ?thesis
          using kinv_notify [OF rq(1)] False d(1) \<open>st k c = _\<close> by simp
      qed
    qed
  qed
qed

lemma get_ok:
  assumes inv: "kinv ext T k" and q: "has_queue k c"
  shows "\<exists>ret nfo k'. ipc_get_msg (Some (HChan c)) k = Some (ret, nfo, k') \<and> kinv ext T k' \<and>
    k_hyp k' = k_hyp k \<and> k_ports k' = k_ports k \<and>
    (inbox k c = [] \<longrightarrow> ret = ERR_NO_MSG \<and> k' = k) \<and>
    (\<forall>a as. inbox k c = a # as \<longrightarrow> ret = NO_ERROR \<and> inbox k' = (inbox k)(c := as) \<and>
       (\<exists>i ch mq. nfo = Some i \<and> unat (info_len i) = length a \<and> k_chans k' c = Some ch \<and> c_msg_queue ch = Some mq \<and>
          mq_inv mq \<and> unat (info_id i) \<in> set (mq_read_list mq) \<and> mq_content mq (unat (info_id i)) = a))"
proof -
  obtain ch mq where ch: "k_chans k c = Some ch" "c_msg_queue ch = Some mq" "mq_inv mq" "inbox k c = mq_pending mq"
    by (rule has_queueE [OF q inv])
  show ?thesis
  proof (cases "mq_filled_list mq")
    case Nil
    then have "mq_pending mq = []" by (simp add: mq_pending_def)
    with Nil show ?thesis using ch inv
      by (simp add: ipc_get_msg_def check_channel_locked_def msg_peek_next_filled_locked_def ERR_NO_MSG_def NO_ERROR_def)
  next
    case (Cons i fs)
    note g = mq_get_step [OF ch(3) Cons]
    note r = mq_recv_ok [OF ch(3) Cons]
    note rq = kinv_requeue [OF inv ch(1,2) r(2)]
    let ?k = "set_chan c (ch\<lparr>c_msg_queue := Some (mq_got i mq)\<rparr>) k"
    have run: "ipc_get_msg (Some (HChan c)) k = Some (NO_ERROR,
        Some \<lparr>info_len = of_nat (length (mq_content mq i)), info_id = of_nat i\<rparr>, ?k)"
      using ch(1,2) by (simp add: ipc_get_msg_def check_channel_locked_def g)
    have i: "i < num_items mq" using mq_inv_lists(2) [OF ch(3), of i] Cons by simp
    have id: "unat (of_nat i :: u32) = i" by (rule unat_token [OF ch(3) i])
    have "length (mq_content mq i) \<le> 4096"
      using ch(3) i by (auto simp: mq_content_def mq_inv_def mq_item_ok_def IPC_CHAN_MAX_BUF_SIZE_def)
    then have len: "unat (of_nat (length (mq_content mq i)) :: u32) = length (mq_content mq i)"
      by (simp add: unsigned_of_nat take_bit_nat_eq_self)
    have "mq_content (mq_got i mq) i = mq_content mq i"
      using mq_fetch_eq [OF r(2), of "of_nat i" undefined] mqf.recv_Some [of "num_items mq" "item_sz mq" mq "of_nat i" "mq_got i mq" undefined]
        r(1,3) ch(3) id by (auto simp: mq_wf_def mq_reading_frame)
    then show ?thesis
      using run rq r(2,3) ch(4) id len by (simp add: mq_reading_frame)
  qed
qed

lemma put_ok:
  assumes inv: "kinv ext T k" and q: "has_queue k c"
  shows "\<exists>ret k'. ipc_put_msg (Some (HChan c)) msg_id k = Some (ret, k') \<and> kinv ext T k' \<and>
    k_hyp k' = k_hyp k \<and> k_ports k' = k_ports k \<and> inbox k' = inbox k"
proof -
  obtain ch mq where ch: "k_chans k c = Some ch" "c_msg_queue ch = Some mq" "mq_inv mq" "inbox k c = mq_pending mq"
    by (rule has_queueE [OF q inv])
  show ?thesis
  proof (cases "unat msg_id \<in> set (mq_read_list mq)")
    case False
    with mq_put_other [OF ch(3)] ch inv show ?thesis
      by (simp add: ipc_put_msg_def check_channel_locked_def msg_put_read_locked_def ERR_INVALID_ARGS_def NO_ERROR_def)
  next
    case True
    let ?mq = "mq_putd (unat msg_id) mq"
    let ?ch = "ch\<lparr>c_msg_queue := Some ?mq\<rparr>"
    let ?k = "set_chan c ?ch k"
    have "mq_pending ?mq = mq_pending mq"
      using mq_retire_held(3) [OF ch(3)] True mq_tokens_iff [OF ch(3)] by simp
    note rq = kinv_requeue [OF inv ch(1,2) mq_inv_putd [OF ch(3) True]]
    have ib: "inbox ?k = inbox k" using rq(2) ch(4) \<open>mq_pending ?mq = _\<close> by (simp add: fun_upd_idem)
    have put: "mq_put_read mq msg_id = Some (NO_ERROR, ?mq)" by (rule mq_put_step [OF ch(3) True])
    show ?thesis
    proof (cases "c_peer ch")
      case None
      then show ?thesis using rq(1) ib ch(1,2) put
        by (simp add: ipc_put_msg_def check_channel_locked_def msg_put_read_locked_def)
    next
      case (Some d)
      have "st k d \<noteq> None" "d \<noteq> c" using kinvD(2) [OF inv ch(1)] Some by (auto simp: link_ok_def)
      then obtain pe where pe: "k_chans ?k d = Some pe" by (auto simp: st_def)
      let ?a = "(c_aux_state pe AND NOT IPC_CHAN_AUX_STATE_SEND_BLOCKED) OR IPC_CHAN_AUX_STATE_SEND_UNBLOCKED"
      let ?k2 = "set_chan d (pe\<lparr>c_aux_state := ?a\<rparr>) ?k"
      note ax = kinv_aux_state [OF rq(1) pe, of ?a]
      have "k_hyp (handle_notify_waiters_locked (c_handle pe) ?k2) = k_hyp k"
        by (simp add: handle_notify_waiters_locked_def event_signal_def split: option.split)
      moreover have "handle_notify (HChan d) ?k2 = Some (handle_notify_waiters_locked (c_handle pe) ?k2)"
        by (simp add: handle_notify_def)
      moreover have "upd_chan d (\<lambda>pe. pe\<lparr>c_aux_state := (c_aux_state pe AND NOT IPC_CHAN_AUX_STATE_SEND_BLOCKED)
            OR IPC_CHAN_AUX_STATE_SEND_UNBLOCKED\<rparr>) ?k = Some ?k2"
        by (rule upd_chan_eq [OF pe])
      ultimately show ?thesis
        using rq(1) ib ch(1,2) put Some pe kinv_notify [OF ax(1)] ax(2)
        by (simp add: ipc_put_msg_def check_channel_locked_def msg_put_read_locked_def Let_def del: kern_frame(3))
    qed
  qed
qed

text \<open>Reading a held message into a vector that has room for it.\<close>

lemma read_held:
  assumes ch: "k_chans k c = Some ch" "c_msg_queue ch = Some mq" "mq_inv mq"
    and held: "unat t \<in> set (mq_read_list mq)"
    and vs: "list_all kvec_ok vs" "length (mq_content mq (unat t)) \<le> length (kvec_bytes vs)"
  shows "\<exists>vs'. ipc_read_msg m (Some (HChan c)) t 0
      (Some \<lparr>kmsg_num_iov = length vs, kmsg_iov = Some vs, kmsg_num_handles = 0\<rparr>) k =
      Some (int (length (mq_content mq (unat t))), IPC_MSG_BUFFER_KERNEL
        \<lparr>kmsg_num_iov = length vs, kmsg_iov = Some vs', kmsg_num_handles = 0\<rparr>) \<and>
    kvec_bytes vs' = mq_content mq (unat t) @ drop (length (mq_content mq (unat t))) (kvec_bytes vs)"
proof -
  let ?a = "mq_content mq (unat t)" and ?n = "item_len (mq_items mq ! unat t)"
  let ?d = "IPC_MSG_BUFFER_KERNEL \<lparr>kmsg_num_iov = length vs, kmsg_iov = Some vs, kmsg_num_handles = 0\<rparr>"
  obtain buf where buf: "?n \<le> length buf" "take ?n buf = ?a"
    "msg_read_locked m mq t 0 ?d =
       map_option (\<lambda>(ret, iov). (ret, m, IPC_MSG_BUFFER_KERNEL
           \<lparr>kmsg_num_iov = length vs, kmsg_iov = iov, kmsg_num_handles = 0\<rparr>))
         (membuf_to_kern_iovec (Some vs) (length vs) (Some buf) ?n)"
    by (rule msg_read_step [OF ch(3) held, of 0 m ?d]) auto
  have n: "?n = length ?a" using buf(1,2) by (metis length_take min_absorb2)
  obtain vs' where "membuf_to_kern_iovec (Some vs) (length vs) (Some buf) ?n = Some (int ?n, Some vs')"
    "kvec_bytes vs' = ?a @ drop ?n (kvec_bytes vs)"
    using membuf_to_kern_iovec_scatters [OF vs(1) buf(1)] vs(2) n buf(2) by (auto simp: min_absorb1)
  then show ?thesis using ch buf(3) n
    by (simp add: ipc_read_msg_def chan_read_locked_def check_channel_locked_def)
qed

lemma read_ok:
  assumes inv: "kinv ext T k" and q: "has_queue k c" and "msg_desc_ok msg"
  shows "chan_read_locked m (Some (HChan c)) t offs msg k \<noteq> None"
proof -
  obtain ch mq where ch: "k_chans k c = Some ch" "c_msg_queue ch = Some mq" "mq_inv mq" "inbox k c = mq_pending mq"
    by (rule has_queueE [OF q inv])
  have "msg_read_locked m mq t offs msg \<noteq> None"
  proof (cases "unat t \<in> set (mq_read_list mq)")
    case False
    then show ?thesis using msg_read_other [OF ch(3)] by simp
  next
    case True
    let ?n = "item_len (mq_items mq ! unat t) - unat offs"
    obtain buf where buf: "?n \<le> length buf"
      "msg_read_locked m mq t offs msg =
       (if unat offs > length (mq_content mq (unat t)) then Some (ERR_INVALID_ARGS, m, msg)
        else case msg of
          IPC_MSG_BUFFER_KERNEL k \<Rightarrow>
            if kmsg_num_handles k \<noteq> 0 then Some (ERR_NOT_SUPPORTED, m, msg)
            else map_option (\<lambda>(ret, iov). (ret, m, IPC_MSG_BUFFER_KERNEL (k\<lparr>kmsg_iov := iov\<rparr>)))
              (membuf_to_kern_iovec (kmsg_iov k) (kmsg_num_iov k) (Some buf) ?n)
        | IPC_MSG_BUFFER_USER u \<Rightarrow>
            if umsg_num_handles u \<noteq> 0 then Some (ERR_NOT_SUPPORTED, m, msg)
            else map_option (\<lambda>(ret, m'). (ret, m', msg))
              (membuf_to_user_iovec m (umsg_iov u) (umsg_num_iov u) (Some buf) ?n)
        | MSG_BUFFER_OTHER \<Rightarrow> Some (ERR_INVALID_ARGS, m, msg))"
      by (rule msg_read_step [OF ch(3) True, of offs m msg])
    have "membuf_to_user_iovec m (umsg_iov u) (umsg_num_iov u) (Some buf) ?n \<noteq> None" for u
      using membuf_to_user_iovec_bounds [OF buf(1)] by (metis option.distinct(1))
    moreover have "membuf_to_kern_iovec (kmsg_iov x) (kmsg_num_iov x) (Some buf) ?n \<noteq> None"
      if "msg = IPC_MSG_BUFFER_KERNEL x" for x
    proof (cases "kmsg_iov x")
      case None
      then show ?thesis by (simp add: membuf_to_kern_iovec_def)
    next
      case (Some vs)
      with that assms(3) have "kmsg_num_iov x = length vs" "list_all kvec_ok vs" by (simp_all add: msg_desc_ok_def)
      with membuf_to_kern_iovec_scatters [OF this(2) buf(1)] Some show ?thesis by auto
    qed
    ultimately show ?thesis using buf(2) by (auto split: msg_desc.splits)
  qed
  then show ?thesis using ch by (simp add: chan_read_locked_def check_channel_locked_def)
qed

end
