(* ===== verification/Protocol.thy ===== *)
theory Protocol
  imports Messages
begin

text \<open>
  The kernel IPC as a system: the states that its operations can reach from the empty kernel, with
  any number of clients that call them in any order on the handles they hold.  The invariant holds in
  every reachable state, so that no operation on an open handle can reach a freed object or fail an
  assertion (publishing apart), and when every handle has been closed nothing is left allocated.
\<close>

section \<open>What no operation touches\<close>

text \<open>
  A condition on the state that survives every elementary update the operations make, those of a port
  being made to ports that exist.  The operations other than \<^verbatim>\<open>ipc_port_create\<close> then keep it.
\<close>

locale kern_frame =
  fixes P :: "kern \<Rightarrow> bool"
  assumes chans: "P k \<Longrightarrow> P (k\<lparr>k_chans := f\<rparr>)"
    and ports: "P k \<Longrightarrow> k_ports k p \<noteq> None \<Longrightarrow> P (k\<lparr>k_ports := (k_ports k)(p := v)\<rparr>)"
    and port_list: "P k \<Longrightarrow> P (k\<lparr>k_port_list := l\<rparr>)"
    and waiting: "P k \<Longrightarrow> P (k\<lparr>k_waiting := l\<rparr>)"
    and next_addr: "P k \<Longrightarrow> P (k\<lparr>k_next := n\<rparr>)"
    and alloc: "P k \<Longrightarrow> P (k\<lparr>k_alloc := bs\<rparr>)"
    and signals: "P k \<Longrightarrow> P (k\<lparr>k_signals := evs\<rparr>)"
begin

definition keeps :: "('a \<Rightarrow> kern) \<Rightarrow> 'a option \<Rightarrow> bool" where
  "keeps \<pi> r \<longleftrightarrow> (\<forall>x. r = Some x \<longrightarrow> P (\<pi> x))"

lemma keepsD: "keeps \<pi> r \<Longrightarrow> r = Some x \<Longrightarrow> P (\<pi> x)"
  by (simp add: keeps_def)

lemma keeps_None [intro!, simp]: "keeps \<pi> None"
  by (simp add: keeps_def)

lemma keeps_Some [simp]: "keeps \<pi> (Some x) = P (\<pi> x)"
  by (simp add: keeps_def)

lemma keeps_bind: "(\<And>x. m = Some x \<Longrightarrow> keeps \<pi> (f x)) \<Longrightarrow> keeps \<pi> (Option.bind m f)"
  by (cases m) simp_all

lemma keeps_bind_st: "keeps \<pi>' m \<Longrightarrow> (\<And>x. P (\<pi>' x) \<Longrightarrow> keeps \<pi> (f x)) \<Longrightarrow> keeps \<pi> (Option.bind m f)"
  by (cases m) simp_all

text \<open>By the type of the first step: one that returns a state, or one that only reads.\<close>

lemmas keeps_binds =
  keeps_bind_st [where \<pi>' = id and m = "m :: kern option" for m, simplified]
  keeps_bind_st [where \<pi>' = snd and m = "m :: (int \<times> kern) option" for m]
  keeps_bind_st [where \<pi>' = "\<lambda>(_, _, _, k). k" and m = "m :: (int \<times> hptr option \<times> uuid_ref option \<times> kern) option" for m]
  keeps_bind [where m = "m :: ipc_chan option" for m]
  keeps_bind [where m = "m :: ipc_port option" for m]
  keeps_bind [where m = "m :: handle option" for m]
  keeps_bind [where m = "m :: unit option" for m]
  keeps_bind [where m = "m :: ref_node list option" for m]
  keeps_bind [where m = "m :: byte list option" for m]
  keeps_bind [where m = "m :: nat option option" for m]

lemma P_set_chan [simp]: "P k \<Longrightarrow> P (set_chan c ch k)"
  by (simp add: set_chan_def chans)

lemma P_set_port: "P k \<Longrightarrow> k_ports k p \<noteq> None \<Longrightarrow> P (set_port p po k)"
  using ports [of k p "Some po"] by (simp add: set_port_def)

lemma P_notify [simp]: "P k \<Longrightarrow> P (handle_notify_waiters_locked h k)"
  by (simp add: handle_notify_waiters_locked_def event_signal_def signals split: option.split)

lemma keeps_upd_chan: "P k \<Longrightarrow> keeps id (upd_chan c f k)"
  by (auto simp: upd_chan_def intro!: keeps_binds)

lemma keeps_upd_port: "P k \<Longrightarrow> keeps id (upd_port p f k)"
  by (auto simp: upd_port_def P_set_port intro!: keeps_binds)

lemma keeps_upd_handle: "P k \<Longrightarrow> keeps id (upd_handle hp f k)"
  by (cases hp) (auto intro: keeps_upd_chan keeps_upd_port)

lemma keeps_incref: "P k \<Longrightarrow> keeps id (handle_incref hp k)"
  by (simp add: handle_incref_def keeps_upd_handle)

lemma keeps_notify: "P k \<Longrightarrow> keeps id (handle_notify hp k)"
  by (auto simp: handle_notify_def intro!: keeps_binds)

lemma keeps_add_ref: "P k \<Longrightarrow> keeps id (chan_add_ref c r k)"
  by (auto simp: chan_add_ref_def intro!: keeps_binds)

lemma keeps_del_ref: "P k \<Longrightarrow> keeps id (chan_del_ref c r k)"
  by (auto simp: chan_del_ref_def chan_destroy_refobj_def Let_def chans intro!: keeps_binds)

lemma keeps_decref: "P k \<Longrightarrow> keeps id (handle_decref hp k)"
  by (auto simp: handle_decref_def port_handle_destroy_def chan_handle_destroy_def ports
      intro!: keeps_binds keeps_upd_handle keeps_del_ref split: hptr.split)

lemma keeps_list_delete: "P k \<Longrightarrow> keeps id (chan_list_delete c k)"
  by (auto simp: chan_list_delete_def Let_def waiting intro!: keeps_binds keeps_upd_port
      split: option.split chan_list.split)

lemmas keeps_prims = keeps_upd_chan keeps_upd_port keeps_upd_handle keeps_incref keeps_notify keeps_add_ref
  keeps_del_ref keeps_decref keeps_list_delete

lemma keeps_shutdown_one: "P k \<Longrightarrow> keeps id (chan_shutdown_one c k)"
  by (auto simp: chan_shutdown_one_def intro!: keeps_binds keeps_prims split: ipc_chan_state.split)

lemma keeps_shutdown: "P k \<Longrightarrow> keeps id (chan_shutdown_locked c k)"
  by (auto simp: chan_shutdown_locked_def intro!: keeps_binds keeps_prims keeps_shutdown_one split: option.split)

lemma keeps_port_shutdown_loop: "P k \<Longrightarrow> keeps id (port_shutdown_loop p ss k)"
proof (induction ss arbitrary: k)
  case Nil
  then show ?case by simp
next
  case (Cons s ss)
  then show ?case by (auto intro!: keeps_binds keeps_prims keeps_shutdown)
qed

lemma keeps_port_shutdown: "P k \<Longrightarrow> keeps id (port_shutdown p k)"
  by (auto simp: port_shutdown_def Let_def port_list P_set_port
      intro!: keeps_binds keeps_prims keeps_port_shutdown_loop)

lemma keeps_close: "P k \<Longrightarrow> keeps id (handle_close hp k)"
  by (auto simp: handle_close_def intro!: keeps_binds keeps_prims keeps_shutdown keeps_port_shutdown split: hptr.split)

lemma P_alloc_ok: "alloc_ok k = (ok, k') \<Longrightarrow> P k \<Longrightarrow> P k'"
  by (auto simp: alloc_ok_def alloc split: list.splits)

lemma P_chan_alloc: "chan_alloc flags uuid r k = (co, k') \<Longrightarrow> P k \<Longrightarrow> P k'"
  using P_alloc_ok [of k] by (cases "alloc_ok k") (auto simp: chan_alloc_def Let_def next_addr split: if_splits)

lemma P_queue_alloc: "msg_queue_alloc n sz k = (ret, mq, k') \<Longrightarrow> P k \<Longrightarrow> P k'"
  by (cases "alloc_ok k"; cases "alloc_ok (snd (alloc_ok k))")
    (auto simp: msg_queue_alloc_def Let_def split: prod.splits if_splits dest: P_alloc_ok)

lemmas P_allocs = P_alloc_ok P_chan_alloc P_queue_alloc

lemma keeps_handle_init: "P k \<Longrightarrow> keeps id (chan_handle_init c k)"
  by (auto simp: chan_handle_init_def intro!: keeps_binds keeps_prims)

lemma keeps_attach: "P k \<Longrightarrow> keeps snd (port_attach_client p c k)"
  by (auto simp: port_attach_client_def Let_def
      intro!: keeps_binds keeps_prims split: prod.split option.split)
    (blast dest: P_allocs)+

lemma keeps_publish_loop: "P k \<Longrightarrow> keeps snd (publish_loop p cs ret k)"
proof (induction cs arbitrary: ret k)
  case Nil
  then show ?case by simp
next
  case (Cons c cs)
  then show ?case
    by (auto simp: Let_def intro!: keeps_binds keeps_prims keeps_attach keeps_shutdown)
qed

lemma keeps_publish: "P k \<Longrightarrow> keeps snd (ipc_port_publish p k)"
  by (auto simp: ipc_port_publish_def Let_def port_list P_set_port
      intro!: keeps_binds keeps_prims keeps_publish_loop)

lemma keeps_connect: "P k \<Longrightarrow> keeps (\<lambda>(_, _, k). k) (ipc_port_connect_async guest cid path mx flags k)"
  by (auto simp: ipc_port_connect_async_def Let_def waiting
      intro!: keeps_binds keeps_prims keeps_handle_init keeps_attach split: prod.split option.split)
    (blast dest: P_allocs)+

lemma keeps_accept: "P k \<Longrightarrow> keeps (\<lambda>(_, _, _, k). k) (ipc_port_accept hp k)"
  by (auto simp: ipc_port_accept_def Let_def
      intro!: keeps_binds keeps_prims keeps_handle_init keeps_shutdown split: prod.split option.split hptr.split list.split)

end

text \<open>No port appears, and the hypervisor check stays what it is.\<close>

definition ports_le :: "kern \<Rightarrow> kern \<Rightarrow> bool" where
  "ports_le k k' \<longleftrightarrow> (\<forall>p. k_ports k' p \<noteq> None \<longrightarrow> k_ports k p \<noteq> None)"

lemma ports_le_refl [simp]: "ports_le k k"
  by (simp add: ports_le_def)

interpretation port_frame: kern_frame "ports_le k0" for k0
  by unfold_locales (auto simp: ports_le_def)

interpretation hyp_frame: kern_frame "\<lambda>k. k_hyp k = h" for h
  by unfold_locales simp_all

section \<open>Reachable states\<close>

text \<open>
  A system state counts the references that clients hold to every handle, beside the kernel state.
  A step is one operation by any client on a handle it holds; operations that hand out a handle
  grant one reference.  Bookkeeping of a handle (its waiter, its place in a list, its cookie) may
  change at any time.
\<close>

type_synonym sys = "exts \<times> kern"

definition grant :: "hptr option \<Rightarrow> exts \<Rightarrow> exts" where
  "grant h ext = (case h of None \<Rightarrow> ext | Some x \<Rightarrow> ext(x := 1))"

inductive kstep :: "sys \<Rightarrow> sys \<Rightarrow> bool" where
  port_create: "ipc_port_create sid path n sz flags k = (ret, po, k') \<Longrightarrow>
    kstep (ext, k) (grant (map_option HPort po) ext, k')"
| publish: "0 < ext (HPort p) \<Longrightarrow> ipc_port_publish p k = Some (ret, k') \<Longrightarrow> kstep (ext, k) (ext, k')"
| connect: "ipc_port_connect_async guest cid path mx flags k = Some (ret, h, k') \<Longrightarrow>
    kstep (ext, k) (grant h ext, k')"
| accept: "0 < ext (HPort p) \<Longrightarrow> ipc_port_accept (Some (HPort p)) k = Some (ret, h, u, k') \<Longrightarrow>
    kstep (ext, k) (grant h ext, k')"
| send: "0 < ext (HChan c) \<Longrightarrow> msg_desc_ok msg \<Longrightarrow> chan_send_locked m (Some (HChan c)) msg k = Some (ret, k') \<Longrightarrow>
    kstep (ext, k) (ext, k')"
| get: "0 < ext (HChan c) \<Longrightarrow> ipc_get_msg (Some (HChan c)) k = Some (ret, nfo, k') \<Longrightarrow> kstep (ext, k) (ext, k')"
| put: "0 < ext (HChan c) \<Longrightarrow> ipc_put_msg (Some (HChan c)) t k = Some (ret, k') \<Longrightarrow> kstep (ext, k) (ext, k')"
| finalize: "0 < ext h \<Longrightarrow> handle_finalize_event h ev k = Some k' \<Longrightarrow> kstep (ext, k) (ext, k')"
| bookkeeping: "0 < ext h \<Longrightarrow> (\<And>x. h_refcnt (f x) = h_refcnt x) \<Longrightarrow> upd_handle h f k = Some k' \<Longrightarrow>
    kstep (ext, k) (ext, k')"
| duplicate: "0 < ext h \<Longrightarrow> handle_incref h k = Some k' \<Longrightarrow> kstep (ext, k) (ext(h := Suc (ext h)), k')"
| release: "1 < ext h \<Longrightarrow> handle_decref h k = Some k' \<Longrightarrow> kstep (ext, k) (ext(h := ext h - 1), k')"
| close: "0 < ext h \<Longrightarrow> handle_close h k = Some k' \<Longrightarrow> kstep (ext, k) (ext(h := ext h - 1), k')"

definition kern_start :: "kern \<Rightarrow> bool" where
  "kern_start k \<longleftrightarrow> k_ports k = (\<lambda>_. None) \<and> k_chans k = (\<lambda>_. None) \<and> k_port_list k = [] \<and> k_waiting k = [] \<and>
     k_hyp k = trusty_hyp_check_guest_access"

inductive reach :: "sys \<Rightarrow> bool" where
  start: "kern_start k \<Longrightarrow> reach (\<lambda>_. 0, k)"
| step: "reach s \<Longrightarrow> kstep s s' \<Longrightarrow> reach s'"

inductive_cases kstepE: "kstep (ext, k) s'"

definition sys_inv :: "sys \<Rightarrow> bool" where
  "sys_inv s \<longleftrightarrow> (case s of (ext, k) \<Rightarrow> kinv ext {} k \<and> k_hyp k = (\<lambda>_ _. 0) \<and>
     (\<forall>p. k_ports k p \<noteq> None \<longrightarrow> 0 < ext (HPort p)))"

lemma sys_invD:
  assumes "sys_inv (ext, k)"
  shows "kinv ext {} k" "k_hyp k = (\<lambda>_ _. 0)" "k_ports k p \<noteq> None \<Longrightarrow> 0 < ext (HPort p)"
  using assms by (simp_all add: sys_inv_def)

lemma sys_invI:
  assumes "kinv ext' {} k'" "k_hyp k' = k_hyp k" "sys_inv (ext, k)"
    and "ports_le k k'" "\<And>p. k_ports k' p \<noteq> None \<Longrightarrow> 0 < ext (HPort p) \<Longrightarrow> 0 < ext' (HPort p)"
  shows "sys_inv (ext', k')"
  using assms by (simp add: sys_inv_def ports_le_def)

lemma sys_inv_start: "kern_start k \<Longrightarrow> sys_inv (\<lambda>_. 0, k)"
  by (auto simp: sys_inv_def kern_start_def kinv_def glob_inv_def fun_eq_iff trusty_hyp_check_guest_access_def
      NO_ERROR_def)

lemma kinv_upd_handle:
  assumes inv: "kinv ext T k" and f: "\<And>x. h_refcnt (f x) = h_refcnt x" and run: "upd_handle h f k = Some k'"
  shows "kinv ext T k'"
proof (cases h)
  case (HPort p)
  then obtain po where "k_ports k p = Some po" "k' = set_port p (po\<lparr>p_handle := f (p_handle po)\<rparr>) k"
    using run by (auto simp: upd_port_def bind_eq_Some_conv)
  then show ?thesis using kinv_port_local [OF inv] f by simp
next
  case (HChan c)
  then obtain ch where ch: "k_chans k c = Some ch" "k' = set_chan c (ch\<lparr>c_handle := f (c_handle ch)\<rparr>) k"
    using run by (auto simp: upd_chan_def bind_eq_Some_conv)
  with kinv_chan_local [OF inv ch(1), of "ch\<lparr>c_handle := f (c_handle ch)\<rparr>"] f kinvD(4) [OF inv ch(1)]
  show ?thesis by (simp add: queue_ok_def)
qed

lemma kinv_finalize:
  assumes inv: "kinv ext T k" and run: "handle_finalize_event h ev k = Some k'"
  shows "kinv ext T k' \<and> k_hyp k' = k_hyp k \<and> k_ports k' = k_ports k"
proof (cases h)
  case (HPort p)
  then show ?thesis using assms by simp
next
  case (HChan c)
  have aux: "kinv ext T k2 \<and> k_hyp k2 = k_hyp k1 \<and> k_ports k2 = k_ports k1"
    if "kinv ext T k1" "(if b then upd_chan c (\<lambda>ch. ch\<lparr>c_aux_state := c_aux_state ch AND a\<rparr>) k1 else Some k1) = Some k2"
    for b k1 k2 and a :: u32
    using that kinv_aux_state(1) [OF that(1)] by (auto simp: upd_chan_def bind_eq_Some_conv split: if_splits)
  show ?thesis
  proof (cases "ev AND (IPC_HANDLE_POLL_SEND_UNBLOCKED OR IPC_HANDLE_POLL_READY) = 0")
    case True
    then show ?thesis using run inv HChan by (simp add: chan_finalize_event_def)
  next
    case False
    then obtain k1 where k1:
      "(if ev AND IPC_HANDLE_POLL_SEND_UNBLOCKED \<noteq> 0
        then upd_chan c (\<lambda>ch. ch\<lparr>c_aux_state := c_aux_state ch AND NOT IPC_CHAN_AUX_STATE_SEND_UNBLOCKED\<rparr>) k
        else Some k) = Some k1"
      "(if ev AND IPC_HANDLE_POLL_READY \<noteq> 0
        then upd_chan c (\<lambda>ch. ch\<lparr>c_aux_state := c_aux_state ch AND NOT IPC_CHAN_AUX_STATE_CONNECTED\<rparr>) k1
        else Some k1) = Some k'"
      using run unfolding HChan handle_finalize_event.simps chan_finalize_event_def if_P [OF False] bind_eq_Some_conv
      by (elim exE conjE)
    from aux [OF inv k1(1)] aux [OF _ k1(2)] show ?thesis by simp
  qed
qed

section \<open>The invariant of the system\<close>

lemma open_port: "sys_inv (ext, k) \<Longrightarrow> 0 < ext (HPort p) \<Longrightarrow> \<exists>po. k_ports k p = Some po"
  using kinv_glob(5) [OF sys_invD(1)] by auto

lemma open_chan_exists: "sys_inv (ext, k) \<Longrightarrow> 0 < ext (HChan c) \<Longrightarrow> \<exists>ch. k_chans k c = Some ch"
  using kinv_glob(6) [OF sys_invD(1)] by auto

lemma step_port_create:
  assumes inv: "sys_inv (ext, k)" and run: "ipc_port_create sid path n sz flags k = (ret, po, k')"
  shows "sys_inv (grant (map_option HPort po) ext, k')"
proof -
  note r = port_create_ok [OF sys_invD(1) [OF inv] run]
  show ?thesis
  proof (cases "ret = NO_ERROR")
    case False
    then show ?thesis using r inv by (simp add: sys_inv_def grant_def same_objs_def)
  next
    case True
    then obtain p where p: "po = Some p" "k_ports k p = None" "kinv (ext(HPort p := 1)) {} k'" using r by auto
    obtain ok k1 where a: "alloc_ok k = (ok, k1)" by (metis prod.exhaust)
    have "k_ports k' q \<noteq> None \<Longrightarrow> q = p \<or> k_ports k q \<noteq> None" for q
      using run p(1) alloc_ok_frame(1) [OF a]
      by (auto simp: ipc_port_create_def a Let_def same_objs_def split: option.splits if_splits)
    then have "0 < (ext(HPort p := 1)) (HPort q)" if "k_ports k' q \<noteq> None" for q
      using that sys_invD(3) [OF inv, of q] by auto
    moreover have "k_hyp k' = k_hyp k" using r by simp
    ultimately show ?thesis using p(1,3) inv by (simp add: sys_inv_def grant_def)
  qed
qed

lemma step_publish:
  assumes inv: "sys_inv (ext, k)" and pos: "0 < ext (HPort p)" and run: "ipc_port_publish p k = Some (ret, k')"
  shows "sys_inv (ext, k')"
proof -
  obtain po where po: "k_ports k p = Some po" using open_port [OF inv pos] by auto
  have out: "\<not> p_in_list po" using run po by (auto simp: ipc_port_publish_def ASSERT_def split: if_splits)
  have "kinv ext {} k'"
    using publish_ok [OF sys_invD(1) [OF inv] po out pos sys_invD(2) [OF inv]] run sys_invD(1) [OF inv] by auto
  moreover have "ports_le k k'" using port_frame.keepsD [OF port_frame.keeps_publish run] by simp
  moreover have "k_hyp k' = k_hyp k" using hyp_frame.keepsD [OF hyp_frame.keeps_publish run] by simp
  ultimately show ?thesis using sys_invI [OF _ _ inv] by blast
qed

lemma step_connect:
  assumes inv: "sys_inv (ext, k)" and run: "ipc_port_connect_async guest cid path mx flags k = Some (ret, h, k')"
  shows "sys_inv (grant h ext, k')"
proof -
  have p: "ports_le k k'" using port_frame.keepsD [OF port_frame.keeps_connect run] by simp
  have y: "k_hyp k' = k_hyp k" using hyp_frame.keepsD [OF hyp_frame.keeps_connect run] by simp
  from connect_ok [OF sys_invD(1) [OF inv], of guest cid path mx flags] run
  consider "h = None" "kinv ext {} k'" | c where "h = Some (HChan c)" "kinv (ext(HChan c := 1)) {} k'" by auto
  then show ?thesis by cases (auto intro!: sys_invI [OF _ y inv p] simp: grant_def)
qed

lemma step_accept:
  assumes inv: "sys_inv (ext, k)" and pos: "0 < ext (HPort p)"
    and run: "ipc_port_accept (Some (HPort p)) k = Some (ret, h, u, k')"
  shows "sys_inv (grant h ext, k')"
proof -
  obtain po where po: "k_ports k p = Some po" using open_port [OF inv pos] by auto
  have p: "ports_le k k'" using port_frame.keepsD [OF port_frame.keeps_accept run] by simp
  have y: "k_hyp k' = k_hyp k" using hyp_frame.keepsD [OF hyp_frame.keeps_accept run] by simp
  from accept_ok [OF sys_invD(1) [OF inv] po] run
  consider "h = None" "kinv ext {} k'" | c where "h = Some (HChan c)" "kinv (ext(HChan c := 1)) {} k'" by auto
  then show ?thesis by cases (auto intro!: sys_invI [OF _ y inv p] simp: grant_def)
qed

lemma step_close:
  assumes inv: "sys_inv (ext, k)" and pos: "0 < ext h" and run: "handle_close h k = Some k'"
  shows "sys_inv (ext(h := ext h - 1), k')"
proof -
  have p: "ports_le k k'" using port_frame.keepsD [OF port_frame.keeps_close run] by simp
  have y: "k_hyp k' = k_hyp k" using hyp_frame.keepsD [OF hyp_frame.keeps_close run] by simp
  show ?thesis
  proof (cases h)
    case (HChan c)
    then show ?thesis
      using kinv_close_chan [OF sys_invD(1) [OF inv], of c] pos run by (auto intro!: sys_invI [OF _ y inv p])
  next
    case (HPort q)
    then obtain "kinv (ext(h := ext h - 1)) {} k'" "ext (HPort q) = 1 \<longrightarrow> k_ports k' q = None"
      using kinv_close_port [OF sys_invD(1) [OF inv], of q] pos run by auto
    then show ?thesis using HPort pos by (auto intro!: sys_invI [OF _ y inv p])
  qed
qed

lemma step_release:
  assumes inv: "sys_inv (ext, k)" and more: "1 < ext h" and run: "handle_decref h k = Some k'"
  shows "sys_inv (ext(h := ext h - 1), k')"
proof -
  have p: "ports_le k k'" using port_frame.keepsD [OF port_frame.keeps_decref run] by simp
  have y: "k_hyp k' = k_hyp k" using hyp_frame.keepsD [OF hyp_frame.keeps_decref run] by simp
  have "kinv (ext(h := ext h - 1)) {} k'"
  proof (cases h)
    case (HChan c)
    then obtain ch where "k_chans k c = Some ch" using open_chan_exists [OF inv, of c] more by auto
    then show ?thesis
      using kinv_decref_chan [OF sys_invD(1) [OF inv], of c ch] more run HChan by auto
  next
    case (HPort q)
    then show ?thesis using kinv_decref_port [OF sys_invD(1) [OF inv], of q] more run by auto
  qed
  then show ?thesis using more by (auto intro!: sys_invI [OF _ y inv p])
qed

lemma has_queue_if: "ipc_get_msg (Some (HChan c)) k \<noteq> None \<Longrightarrow> has_queue k c"
  by (auto simp: ipc_get_msg_def check_channel_locked_def has_queue_def NO_ERROR_def split: bind_splits)

lemma has_queue_put: "ipc_put_msg (Some (HChan c)) t k \<noteq> None \<Longrightarrow> has_queue k c"
  by (auto simp: ipc_put_msg_def msg_put_read_locked_def check_channel_locked_def has_queue_def NO_ERROR_def
      split: bind_splits)

lemma sys_inv_same:
  "sys_inv (ext, k) \<Longrightarrow> kinv ext {} k' \<and> k_hyp k' = k_hyp k \<and> k_ports k' = k_ports k \<Longrightarrow> sys_inv (ext, k')"
  by (simp add: sys_inv_def)

lemma step_send:
  assumes inv: "sys_inv (ext, k)" and pos: "0 < ext (HChan c)" and msg: "msg_desc_ok msg"
    and run: "chan_send_locked m (Some (HChan c)) msg k = Some (ret, k')"
  shows "sys_inv (ext, k')"
proof (rule sys_inv_same [OF inv])
  have "k_chans k c \<noteq> None" using open_chan_exists [OF inv pos] by auto
  from send_ok [OF sys_invD(1) [OF inv] this msg, of m] run
  show "kinv ext {} k' \<and> k_hyp k' = k_hyp k \<and> k_ports k' = k_ports k" by (elim exE conjE) simp
qed

lemma step_get:
  assumes inv: "sys_inv (ext, k)" and run: "ipc_get_msg (Some (HChan c)) k = Some (ret, nfo, k')"
  shows "sys_inv (ext, k')"
proof (rule sys_inv_same [OF inv])
  have "has_queue k c" by (rule has_queue_if) (simp add: run)
  from get_ok [OF sys_invD(1) [OF inv] this] run
  show "kinv ext {} k' \<and> k_hyp k' = k_hyp k \<and> k_ports k' = k_ports k" by (elim exE conjE) simp
qed

lemma step_put:
  assumes inv: "sys_inv (ext, k)" and run: "ipc_put_msg (Some (HChan c)) t k = Some (ret, k')"
  shows "sys_inv (ext, k')"
proof (rule sys_inv_same [OF inv])
  have "has_queue k c" by (rule has_queue_put [of c t]) (simp add: run)
  from put_ok [OF sys_invD(1) [OF inv] this, of t] run
  show "kinv ext {} k' \<and> k_hyp k' = k_hyp k \<and> k_ports k' = k_ports k" by (elim exE conjE) simp
qed

lemma step_bookkeeping:
  assumes inv: "sys_inv (ext, k)" and f: "\<And>x. h_refcnt (f x) = h_refcnt x" and run: "upd_handle h f k = Some k'"
  shows "sys_inv (ext, k')"
proof (rule sys_invI [OF kinv_upd_handle [OF sys_invD(1) [OF inv] f run] _ inv])
  show "ports_le k k'" using port_frame.keepsD [OF port_frame.keeps_upd_handle run] by simp
  show "k_hyp k' = k_hyp k" using hyp_frame.keepsD [OF hyp_frame.keeps_upd_handle run] by simp
qed

lemma step_duplicate:
  assumes inv: "sys_inv (ext, k)" and pos: "0 < ext h" and run: "handle_incref h k = Some k'"
  shows "sys_inv (ext(h := Suc (ext h)), k')"
proof (rule sys_invI [OF _ _ inv])
  show "ports_le k k'" using port_frame.keepsD [OF port_frame.keeps_incref run] by simp
  show "k_hyp k' = k_hyp k" using hyp_frame.keepsD [OF hyp_frame.keeps_incref run] by simp
  show "kinv (ext(h := Suc (ext h))) {} k'" using kinv_incref [OF sys_invD(1) [OF inv], of h] pos run by simp
qed simp

lemma step_finalize:
  assumes inv: "sys_inv (ext, k)" and run: "handle_finalize_event h ev k = Some k'"
  shows "sys_inv (ext, k')"
  by (rule sys_inv_same [OF inv kinv_finalize [OF sys_invD(1) [OF inv] run]])

lemma sys_inv_step:
  assumes "kstep (ext, k) s'" "sys_inv (ext, k)"
  shows "sys_inv s'"
  by (rule kstepE [OF assms(1)])
    (simp_all add: step_port_create [OF assms(2)] step_publish [OF assms(2)] step_connect [OF assms(2)]
      step_accept [OF assms(2)] step_close [OF assms(2), simplified] step_release [OF assms(2), simplified] step_send [OF assms(2)]
      step_get [OF assms(2)] step_put [OF assms(2)] step_finalize [OF assms(2)]
      step_duplicate [OF assms(2)],
      blast intro: step_bookkeeping [OF assms(2)])

lemma reach_inv: "reach s \<Longrightarrow> sys_inv s"
proof (induction rule: reach.induct)
  case (start k)
  then show ?case by (rule sys_inv_start)
next
  case (step s s')
  then show ?case using sys_inv_step by (metis surj_pair)
qed

text \<open>When nobody holds a handle, nothing is left.\<close>

lemma all_freed:
  assumes inv: "sys_inv (ext, k)" and none: "\<And>h. ext h = 0"
  shows "k_ports k p = None" and "k_chans k c = None" and "k_port_list k = []" and "k_waiting k = []"
proof -
  note i = sys_invD(1) [OF inv]
  have P: "k_ports k p = None" for p using sys_invD(3) [OF inv, of p] none by (cases "k_ports k p") auto
  have N: "c_node ch = None" if ch: "k_chans k c = Some ch" for c ch
  proof (cases "c_node ch")
    case (Some l)
    show ?thesis
    proof (cases l)
      case WAITING_LIST
      then show ?thesis using kinvD(1) [OF i ch] Some none unfolding refs_ok_def by simp
    next
      case (PENDING_LIST p)
      then have "c \<in> set (pend k p)" using kinvD(3) [OF i ch] Some unfolding node_ok_def by blast
      then show ?thesis using P [of p] by (simp add: pend_def)
    qed
  qed
  have Q: "pr k d = None" for d
  proof (cases "k_chans k d")
    case (Some x)
    then have "c_peer x = None"
      using kinvD(1) [OF i Some] N [OF Some] none unfolding refs_ok_def by auto
    then show ?thesis using Some by (simp add: pr_def)
  qed (simp add: pr_def)
  have C: "k_chans k c = None" for c
  proof (cases "k_chans k c")
    case (Some ch)
    have "owned ext k c ch = {}" using N [OF Some] none Q by (simp add: owned_def)
    then show ?thesis using kinvD(1) [OF i Some] unfolding refs_ok_def by auto
  qed simp
  show "k_ports k p = None" by (rule P)
  show "k_chans k c = None" by (rule C)
  show "k_port_list k = []" using kinv_glob(1) [OF i] P by (cases "k_port_list k") auto
  show "k_waiting k = []" using kinv_glob(2) [OF i] C by (cases "k_waiting k") auto
qed

section \<open>A concrete run\<close>

text \<open>A server makes and publishes the port \<open>p\<close>, an application connects to it, the server accepts.\<close>

definition kern0 :: kern where
  "kern0 = \<lparr>k_ports = \<lambda>_. None, k_chans = \<lambda>_. None, k_port_list = [], k_waiting = [],
     k_hlists = \<lambda>_. None, k_uctx = \<lambda>_. None, k_next = 1, k_alloc = [], k_junk = \<lambda>_. 0,
     k_signals = [], k_hyp = trusty_hyp_check_guest_access\<rparr>"

definition demo_create :: "int \<times> nat option \<times> kern" where
  "demo_create = ipc_port_create (Some (APP_UUID [])) [112] 2 4 1 kern0"

definition demo_created :: kern where "demo_created = snd (snd demo_create)"

definition demo_publish :: "(int \<times> kern) option" where
  "demo_publish = ipc_port_publish 1 demo_created"

definition demo_published :: kern where "demo_published = snd (the demo_publish)"

definition demo_connect :: "uuid_ref \<Rightarrow> (int \<times> hptr option \<times> kern) option" where
  "demo_connect uuid = ipc_port_connect_async 0 (Some uuid) [112, 0] 64 0 demo_published"

definition demo_connecting :: kern where "demo_connecting = snd (snd (the (demo_connect (APP_UUID []))))"

definition demo_accept :: "(int \<times> hptr option \<times> uuid_ref option \<times> kern) option" where
  "demo_accept = ipc_port_accept (Some (HPort 1)) demo_connecting"

definition demo_connected :: kern where "demo_connected = snd (snd (snd (the demo_accept)))"

lemma demo_create_eq: "demo_create = (NO_ERROR, Some 1, demo_created)"
proof -
  have "fst demo_create = NO_ERROR" "fst (snd demo_create) = Some 1" by code_simp+
  then show ?thesis by (simp add: demo_created_def prod_eq_iff)
qed

lemma demo_publish_eq: "demo_publish = Some (NO_ERROR, demo_published)"
proof -
  have "map_option fst demo_publish = Some NO_ERROR" by code_simp
  then obtain k where "demo_publish = Some (NO_ERROR, k)" by auto
  then show ?thesis by (metis demo_published_def option.sel snd_conv)
qed

lemma demo_connect_eq: "demo_connect (APP_UUID []) = Some (NO_ERROR, Some (HChan 2), demo_connecting)"
proof -
  have "map_option (\<lambda>(r, h, k). (r, h)) (demo_connect (APP_UUID [])) = Some (NO_ERROR, Some (HChan 2))" by code_simp
  then show ?thesis by (cases "demo_connect (APP_UUID [])") (auto simp: demo_connecting_def)
qed

lemma demo_accept_eq: "demo_accept = Some (NO_ERROR, Some (HChan 3), Some (APP_UUID []), demo_connected)"
proof -
  have "map_option (\<lambda>(r, h, u, k). (r, h, u)) demo_accept = Some (NO_ERROR, Some (HChan 3), Some (APP_UUID []))" by code_simp
  then obtain k where "demo_accept = Some (NO_ERROR, Some (HChan 3), Some (APP_UUID []), k)" by auto
  then show ?thesis by (metis demo_connected_def option.sel snd_conv)
qed

definition ext1 :: exts where "ext1 = (\<lambda>_. 0)(HPort 1 := 1)"
definition ext2 :: exts where "ext2 = ext1(HChan 2 := 1)"
definition ext3 :: exts where "ext3 = ext2(HChan 3 := 1)"

lemma demo_reach:
  "reach (ext1, demo_created)" "reach (ext1, demo_published)" "reach (ext2, demo_connecting)" "reach (ext3, demo_connected)"
proof -
  have "kern_start kern0" by (simp add: kern_start_def kern0_def)
  from reach.step [OF reach.start [OF this] kstep.port_create [OF demo_create_eq [unfolded demo_create_def]]]
  show 1: "reach (ext1, demo_created)" by (simp add: grant_def ext1_def)
  have "0 < ext1 (HPort 1)" by (simp add: ext1_def)
  from reach.step [OF 1 kstep.publish [where ext = ext1, OF this demo_publish_eq [unfolded demo_publish_def]]]
  show 2: "reach (ext1, demo_published)" .
  from reach.step [OF 2 kstep.connect [OF demo_connect_eq [unfolded demo_connect_def]]]
  show 3: "reach (ext2, demo_connecting)" by (simp add: grant_def ext2_def)
  have "0 < ext2 (HPort 1)" by (simp add: ext1_def ext2_def)
  from reach.step [OF 3 kstep.accept [where ext = ext2, OF this demo_accept_eq [unfolded demo_accept_def]]]
  show "reach (ext3, demo_connected)" by (simp add: grant_def ext3_def)
qed

section \<open>Properties\<close>

text \<open>What a reachable state guarantees for the operations with a condition of their own.\<close>

lemma handle_ops_ok:
  assumes inv: "sys_inv (ext, k)" and pos: "0 < ext h"
  shows "handle_close h k \<noteq> None" and "handle_incref h k \<noteq> None" and "handle_poll h k \<noteq> None"
    and "handle_finalize_event h ev k \<noteq> None" and "1 < ext h \<Longrightarrow> handle_decref h k \<noteq> None"
proof -
  note i = sys_invD(1) [OF inv]
  show "handle_incref h k \<noteq> None" using kinv_incref [OF i, of h] pos by auto
  have port: "handle_close (HPort p) k \<noteq> None \<and> handle_poll (HPort p) k \<noteq> None \<and> handle_decref (HPort p) k \<noteq> None"
    if "0 < ext (HPort p)" for p
    using kinv_close_port [OF i that] kinv_decref_port [OF i that] open_port [OF inv that] by (auto simp: port_poll_def)
  have chan: "handle_close (HChan c) k \<noteq> None \<and> handle_poll (HChan c) k \<noteq> None \<and>
      handle_finalize_event (HChan c) ev k \<noteq> None" if c: "0 < ext (HChan c)" for c
  proof -
    obtain ch where "k_chans k c = Some ch" using open_chan_exists [OF inv c] by auto
    then show ?thesis using kinv_close_chan [OF i c]
      by (auto simp: chan_poll_def chan_finalize_event_def upd_chan_def bind_eq_None_conv)
  qed
  have more: "handle_decref (HChan c) k \<noteq> None" if "1 < ext (HChan c)" for c
  proof -
    have pos: "0 < ext (HChan c)" using that by simp
    obtain ch where "k_chans k c = Some ch" using open_chan_exists [OF inv pos] by auto
    then show ?thesis using kinv_decref_chan [OF i pos] that by auto
  qed
  show "handle_close h k \<noteq> None" "handle_poll h k \<noteq> None" "handle_finalize_event h ev k \<noteq> None"
    using port chan pos by (cases h; simp)+
  show "1 < ext h \<Longrightarrow> handle_decref h k \<noteq> None" using port more pos by (cases h) simp_all
qed

lemma queue_ops_ok:
  assumes inv: "sys_inv (ext, k)"
  shows "ipc_get_msg (Some (HChan c)) k \<noteq> None \<longleftrightarrow> has_queue k c"
    and "ipc_put_msg (Some (HChan c)) t k \<noteq> None \<longleftrightarrow> has_queue k c"
    and "msg_desc_ok msg \<Longrightarrow> chan_read_locked m (Some (HChan c)) t offs msg k \<noteq> None \<longleftrightarrow> has_queue k c"
proof -
  note i = sys_invD(1) [OF inv]
  show "ipc_get_msg (Some (HChan c)) k \<noteq> None \<longleftrightarrow> has_queue k c"
    using get_ok [OF i, of c] has_queue_if [of c k] by fastforce
  show "ipc_put_msg (Some (HChan c)) t k \<noteq> None \<longleftrightarrow> has_queue k c"
    using put_ok [OF i, of c t] has_queue_put [of c t k] by fastforce
  have "chan_read_locked m (Some (HChan c)) t offs msg k \<noteq> None \<Longrightarrow> has_queue k c"
    by (auto simp: chan_read_locked_def check_channel_locked_def has_queue_def NO_ERROR_def split: bind_splits)
  then show "msg_desc_ok msg \<Longrightarrow> chan_read_locked m (Some (HChan c)) t offs msg k \<noteq> None \<longleftrightarrow> has_queue k c"
    using read_ok [OF i] by blast
qed

lemma publish_returns:
  assumes "sys_inv (ext, k)" and "0 < ext (HPort p)" and "k_ports k p = Some po" and "\<not> p_in_list po" and "k_alloc k = []"
    and "\<forall>c\<in>set (k_waiting k). \<forall>cl. k_chans k c = Some cl \<and> c_path cl = Some (p_path po) \<longrightarrow>
      check_access po (c_uuid cl) = NO_ERROR"
  shows "ipc_port_publish p k \<noteq> None"
proof -
  have "check_access (po\<lparr>p_state := IPC_PORT_STATE_LISTENING\<rparr>) u = check_access po u" for u
    by (simp add: check_access_def)
  then have "all_allowed k (po\<lparr>p_state := IPC_PORT_STATE_LISTENING\<rparr>) (k_waiting k)"
    using assms(5,6) by (simp add: all_allowed_def)
  then show ?thesis
    using publish_ok [OF sys_invD(1) [OF assms(1)] assms(3,4,2) sys_invD(2) [OF assms(1)]] by auto
qed

text \<open>Property C1.  When the operations on held handles panic: in every state that clients can reach, in any order
  of calls, closing a held handle, duplicating, polling it and finalising an event on it return, and so do
  giving up a reference that is not the last, connecting to any path, accepting on a held port and
  sending a message with a well-formed descriptor on a held channel; no assertion of the reference
  lists, of the destructors or of the shutdown code fails there, and no freed channel or port is touched.  Getting a message, putting
  it back and reading it (with a well-formed descriptor) return exactly when the channel has its queue, which
  a client's channel lacks as long as its port is missing.  Publishing a held port that
  is not yet in the list returns when allocations succeed and the port admits every client waiting
  for its path (a client that it refuses makes it panic, see C8).\<close>

theorem reachable_never_panics:
  assumes "reach (ext, k)"
  shows "(\<forall>h. 0 < ext h \<longrightarrow> handle_close h k \<noteq> None \<and> handle_incref h k \<noteq> None \<and> handle_poll h k \<noteq> None \<and>
      (\<forall>ev. handle_finalize_event h ev k \<noteq> None)) \<and>
    (\<forall>h. 1 < ext h \<longrightarrow> handle_decref h k \<noteq> None) \<and>
    (\<forall>guest cid path mx flags. ipc_port_connect_async guest cid path mx flags k \<noteq> None) \<and>
    (\<forall>p. 0 < ext (HPort p) \<longrightarrow> ipc_port_accept (Some (HPort p)) k \<noteq> None) \<and>
    (\<forall>c m msg. 0 < ext (HChan c) \<and> msg_desc_ok msg \<longrightarrow> chan_send_locked m (Some (HChan c)) msg k \<noteq> None) \<and>
    (\<forall>c. (ipc_get_msg (Some (HChan c)) k \<noteq> None \<longleftrightarrow> has_queue k c) \<and>
      (\<forall>t. ipc_put_msg (Some (HChan c)) t k \<noteq> None \<longleftrightarrow> has_queue k c) \<and>
      (\<forall>m t offs msg. msg_desc_ok msg \<longrightarrow>
        (chan_read_locked m (Some (HChan c)) t offs msg k \<noteq> None \<longleftrightarrow> has_queue k c))) \<and>
    (\<forall>p po. 0 < ext (HPort p) \<and> k_ports k p = Some po \<and> \<not> p_in_list po \<and> k_alloc k = [] \<and>
      (\<forall>c\<in>set (k_waiting k). \<forall>cl. k_chans k c = Some cl \<and> c_path cl = Some (p_path po) \<longrightarrow>
        check_access po (c_uuid cl) = NO_ERROR) \<longrightarrow> ipc_port_publish p k \<noteq> None)"
proof -
  note inv = reach_inv [OF assms]
  note i = sys_invD(1) [OF inv]
  have con: "ipc_port_connect_async guest cid path mx flags k \<noteq> None" for guest cid path mx flags
    using connect_ok [OF i, of guest cid path mx flags] by auto
  have acc: "ipc_port_accept (Some (HPort p)) k \<noteq> None" if pos: "0 < ext (HPort p)" for p
  proof -
    obtain po where "k_ports k p = Some po" using open_port [OF inv pos] by auto
    from accept_ok [OF i this] show ?thesis by auto
  qed
  have snd: "chan_send_locked m (Some (HChan c)) msg k \<noteq> None" if "0 < ext (HChan c)" "msg_desc_ok msg" for c m msg
  proof -
    have "k_chans k c \<noteq> None" using open_chan_exists [OF inv that(1)] by auto
    from send_ok [OF i this that(2), of m] show ?thesis by auto
  qed
  show ?thesis
    by (intro conjI allI impI; (elim conjE)?;
      (rule con acc snd handle_ops_ok [OF inv] queue_ops_ok [OF inv] publish_returns [OF inv]; assumption?; simp?))
qed

theorem reachable_never_panics_witness:
  "\<exists>k1 k2. handle_close (HPort 1) demo_connected = Some k1 \<and> handle_close (HChan 2) demo_connected = Some k2"
  using reachable_never_panics [OF demo_reach(4)] by (auto simp: ext3_def ext2_def ext1_def)

text \<open>Property C2.  Connections are sound: in every reachable state a connected channel has a peer, which
  is another live channel, is connected too, has the first one as its peer, and both have a queue.\<close>

theorem reachable_connections_mutual:
  assumes "reach (ext, k)" and "k_chans k c = Some ch" and "c_state ch = IPC_CHAN_STATE_CONNECTED"
  shows "\<exists>d pe. c_peer ch = Some d \<and> d \<noteq> c \<and> k_chans k d = Some pe \<and> c_state pe = IPC_CHAN_STATE_CONNECTED \<and>
    c_peer pe = Some c \<and> c_msg_queue ch \<noteq> None \<and> c_msg_queue pe \<noteq> None"
proof -
  have "st k c = Some IPC_CHAN_STATE_CONNECTED" using assms(2,3) by (simp add: st_def)
  then obtain d where d: "pr k c = Some d" "pr k d = Some c" "d \<noteq> c" "st k d = Some IPC_CHAN_STATE_CONNECTED"
    "has_queue k c" "has_queue k d"
    by (rule connected_ends [OF sys_invD(1) [OF reach_inv [OF assms(1)]]])
  then obtain pe where "k_chans k d = Some pe" by (auto simp: st_def)
  then show ?thesis using d assms(2) by (simp add: pr_def st_def has_queue_def)
qed

theorem reachable_connections_mutual_witness:
  "\<exists>ch pe. k_chans demo_connected 2 = Some ch \<and> c_peer ch = Some 3 \<and> k_chans demo_connected 3 = Some pe \<and> c_peer pe = Some 2"
proof -
  have "map_option (\<lambda>ch. (c_state ch, c_peer ch)) (k_chans demo_connected 2) = Some (IPC_CHAN_STATE_CONNECTED, Some 3)"
    by code_simp
  then obtain ch where "k_chans demo_connected 2 = Some ch" "c_state ch = IPC_CHAN_STATE_CONNECTED" "c_peer ch = Some 3"
    by auto
  with reachable_connections_mutual [OF demo_reach(4) this(1,2)] show ?thesis by auto
qed

text \<open>Property C3.  Nothing leaks: in every reachable state in which all handles have been closed, every port
  and every channel has been freed and the lists of published ports and of waiting channels are empty.\<close>

theorem reachable_no_leak:
  assumes "reach (ext, k)" and "\<forall>h. ext h = 0"
  shows "(\<forall>p. k_ports k p = None) \<and> (\<forall>c. k_chans k c = None) \<and> k_port_list k = [] \<and> k_waiting k = []"
  using all_freed [OF reach_inv [OF assms(1)]] assms(2) by simp

text \<open>The witness: the two ends of the connection and then the port are closed.\<close>

theorem reachable_no_leak_witness:
  "\<exists>k'. Option.bind (handle_close (HChan 2) demo_connected)
      (\<lambda>k. Option.bind (handle_close (HChan 3) k) (handle_close (HPort 1))) = Some k' \<and>
    k_chans k' 2 = None \<and> k_chans k' 3 = None \<and> k_ports k' 1 = None"
proof -
  have p: "0 < ext3 (HChan 2)" by (simp add: ext3_def ext2_def)
  have "handle_close (HChan 2) demo_connected \<noteq> None"
    using kinv_close_chan [OF sys_invD(1) [OF reach_inv [OF demo_reach(4)]] p] by auto
  then obtain a where a: "handle_close (HChan 2) demo_connected = Some a" by auto
  note ra = reach.step [OF demo_reach(4) kstep.close [where ext = ext3, OF p a]]
  let ?e = "ext3(HChan 2 := ext3 (HChan 2) - 1)"
  have p: "0 < ?e (HChan 3)" by (simp add: ext3_def ext2_def)
  obtain b where b: "handle_close (HChan 3) a = Some b"
    using kinv_close_chan [OF sys_invD(1) [OF reach_inv [OF ra]] p] by auto
  note rb = reach.step [OF ra kstep.close [where ext = "ext3(HChan 2 := ext3 (HChan 2) - 1)", OF p b]]
  let ?f = "?e(HChan 3 := ?e (HChan 3) - 1)"
  have p: "0 < ?f (HPort 1)" by (simp add: ext3_def ext2_def ext1_def)
  obtain c where c: "handle_close (HPort 1) b = Some c"
    using kinv_close_port [OF sys_invD(1) [OF reach_inv [OF rb]] p] by auto
  note rc = reach.step [OF rb kstep.close [where h = "HPort 1" and ext = ?f, OF p c]]
  have "\<forall>h. (?f(HPort 1 := ?f (HPort 1) - 1)) h = 0" by (simp add: ext3_def ext2_def ext1_def)
  from reachable_no_leak [OF rc this] show ?thesis using a b c by simp
qed

end
