(* ===== verification/IpcProperties.thy ===== *)
theory IpcProperties
  imports Protocol
begin

text \<open>
  What the operations of the kernel IPC do in reachable states: connecting with access control,
  publishing, accepting, and the delivery of a message from one end of a connection to the other.
  The last section shows the states in which the code fails.
\<close>

section \<open>Connections\<close>

text \<open>Property C5.  Access control: when \<^verbatim>\<open>ipc_port_connect_async\<close> succeeds, the caller gets a fresh
  channel that nobody else holds.  Either it waits (only if asked to, and only if no port has the
  path) or it is connecting to a listening port with that very path, whose flags admit the caller: the
  normal world needs \<^verbatim>\<open>IPC_PORT_ALLOW_NS_CONNECT\<close>, an application \<^verbatim>\<open>IPC_PORT_ALLOW_TA_CONNECT\<close>.\<close>

theorem connect_access_control:
  assumes "reach (ext, k)"
    and "ipc_port_connect_async guest (Some uuid) path mx flags k = Some (NO_ERROR, h, k')"
  shows "\<exists>c ch. h = Some (HChan c) \<and> ext (HChan c) = 0 \<and> k_chans k c = None \<and> k_chans k' c = Some ch \<and>
    (c_state ch = IPC_CHAN_STATE_WAITING_FOR_PORT \<and> flags AND IPC_CONNECT_WAIT_FOR_PORT \<noteq> 0 \<and>
       (\<forall>p\<in>set (k_port_list k). port_path k p \<noteq> c_string path) \<or>
     c_state ch = IPC_CHAN_STATE_CONNECTING \<and>
       (\<exists>p po. k_ports k p = Some po \<and> p_path po = c_string path \<and> p_state po = IPC_PORT_STATE_LISTENING \<and>
          p_flags po AND (if uuid = ZERO_UUID then IPC_PORT_ALLOW_NS_CONNECT else IPC_PORT_ALLOW_TA_CONNECT) \<noteq> 0))"
proof -
  have acc: "check_access po (Some uuid) = NO_ERROR \<Longrightarrow>
      p_flags po AND (if uuid = ZERO_UUID then IPC_PORT_ALLOW_NS_CONNECT else IPC_PORT_ALLOW_TA_CONNECT) \<noteq> 0" for po
    by (auto simp: check_access_def is_ns_client_def ERR_ACCESS_DENIED_def NO_ERROR_def split: if_splits)
  from connect_ok [OF sys_invD(1) [OF reach_inv [OF assms(1)]], of guest "Some uuid" path mx flags] assms(2)
  obtain c ch where c: "h = Some (HChan c)" "k_chans k c = None" "ext (HChan c) = 0" "k_chans k' c = Some ch"
    "c_state ch = IPC_CHAN_STATE_WAITING_FOR_PORT \<and> flags AND IPC_CONNECT_WAIT_FOR_PORT \<noteq> 0 \<and>
        c_string path \<notin> port_path k ` set (k_port_list k) \<or>
      c_state ch = IPC_CHAN_STATE_CONNECTING \<and>
        (\<exists>p po. k_ports k p = Some po \<and> p_path po = c_string path \<and> p_state po = IPC_PORT_STATE_LISTENING \<and>
           k_hyp k guest (p_uuid po) = 0 \<and> check_access po (Some uuid) = NO_ERROR)"
    by auto
  have "c_string path \<notin> port_path k ` set (k_port_list k) \<Longrightarrow> \<forall>p\<in>set (k_port_list k). port_path k p \<noteq> c_string path"
    by force
  then show ?thesis using c acc by blast
qed

theorem connect_access_control_witness:
  "demo_connect (APP_UUID []) = Some (NO_ERROR, Some (HChan 2), demo_connecting) \<and>
   (\<exists>ch. k_chans demo_connecting 2 = Some ch \<and> c_state ch = IPC_CHAN_STATE_CONNECTING)"
proof -
  have e: "ipc_port_connect_async 0 (Some (APP_UUID [])) [112, 0] 64 0 demo_published =
      Some (NO_ERROR, Some (HChan 2), demo_connecting)"
    using demo_connect_eq by (simp add: demo_connect_def)
  show ?thesis using connect_access_control [OF demo_reach(2) e] demo_connect_eq by auto
qed

text \<open>Property C6.  Publishing a port whose path is free, with memory at hand and a port that admits the
  clients waiting for that path, succeeds: the port listens and is listed, exactly the clients that waited for
  its path are now connecting, and their server channels are pending at the port in the order in which the
  clients came.\<close>

theorem publish_connects_waiting:
  assumes "reach (ext, k)" and "0 < ext (HPort p)" and "k_ports k p = Some po" and "\<not> p_in_list po"
    and "\<forall>q\<in>set (k_port_list k). port_path k q \<noteq> p_path po" and "k_alloc k = []"
    and "\<forall>c\<in>set (k_waiting k). \<forall>cl. k_chans k c = Some cl \<and> c_path cl = Some (p_path po) \<longrightarrow>
      check_access po (c_uuid cl) = NO_ERROR"
  shows "\<exists>k' po' ss. ipc_port_publish p k = Some (NO_ERROR, k') \<and> k_ports k' p = Some po' \<and>
    p_state po' = IPC_PORT_STATE_LISTENING \<and> p \<in> set (k_port_list k') \<and> p_pending_list po' = p_pending_list po @ ss \<and>
    map (pr k') ss = map Some (filter (\<lambda>c. wait_path k c = Some (p_path po)) (k_waiting k)) \<and>
    (\<forall>c\<in>set (k_waiting k). wait_path k c = Some (p_path po) \<longrightarrow> st k' c = Some IPC_CHAN_STATE_CONNECTING)"
proof -
  note inv = reach_inv [OF assms(1)]
  have "check_access (po\<lparr>p_state := IPC_PORT_STATE_LISTENING\<rparr>) = check_access po"
    by (simp add: fun_eq_iff check_access_def)
  then have al: "all_allowed k (po\<lparr>p_state := IPC_PORT_STATE_LISTENING\<rparr>) (k_waiting k)"
    using assms(6,7) by (simp add: all_allowed_def)
  have "p_path po \<notin> port_path k ` set (k_port_list k)" using assms(5) by auto
  with publish_ok [OF sys_invD(1) [OF inv] assms(3,4,2) sys_invD(2) [OF inv]] al
  obtain k' po' where k': "ipc_port_publish p k = Some (NO_ERROR, k')" "kinv ext {} k'" "k_ports k' p = Some po'"
    "p_state po' = IPC_PORT_STATE_LISTENING" "p_in_list po'" "connected_all k k' p po"
    by auto
  have "p \<in> set (k_port_list k')" using kinvD(5) [OF k'(2,3)] k'(5) by (simp add: port_inv_def)
  then show ?thesis using k' by (auto simp: connected_all_def pend_def)
qed

text \<open>The witness: an application waits for the path before the port is published.\<close>

definition demo_wait :: "uuid_ref \<Rightarrow> kern \<Rightarrow> (int \<times> hptr option \<times> kern) option" where
  "demo_wait uuid k = ipc_port_connect_async 0 (Some uuid) [112, 0] 64 IPC_CONNECT_WAIT_FOR_PORT k"

definition demo_waiting :: kern where "demo_waiting = snd (snd (the (demo_wait (APP_UUID []) demo_created)))"

lemma demo_wait_eq: "demo_wait (APP_UUID []) demo_created = Some (NO_ERROR, Some (HChan 2), demo_waiting)"
proof -
  have "map_option (\<lambda>(r, h, k). (r, h)) (demo_wait (APP_UUID []) demo_created) = Some (NO_ERROR, Some (HChan 2))"
    by code_simp
  then show ?thesis by (cases "demo_wait (APP_UUID []) demo_created") (auto simp: demo_waiting_def)
qed

lemma demo_waiting_reach: "reach (ext2, demo_waiting)"
proof -
  from reach.step [OF demo_reach(1) kstep.connect [OF demo_wait_eq [unfolded demo_wait_def]]]
  show ?thesis by (simp add: grant_def ext2_def)
qed

theorem publish_connects_waiting_witness:
  "\<exists>k'. ipc_port_publish 1 demo_waiting = Some (NO_ERROR, k') \<and> st k' 2 = Some IPC_CHAN_STATE_CONNECTING"
proof -
  have facts: "map_option (\<lambda>po. (p_in_list po, p_path po, p_flags po)) (k_ports demo_waiting 1) = Some (False, [112], 1)"
    "k_port_list demo_waiting = []" "k_alloc demo_waiting = []" "k_waiting demo_waiting = [2]"
    "map_option (\<lambda>c. (c_path c, c_uuid c)) (k_chans demo_waiting 2) = Some (Some [112], Some (APP_UUID []))"
    by code_simp+
  obtain po where po: "k_ports demo_waiting 1 = Some po" "\<not> p_in_list po" "p_path po = [112]" "p_flags po = 1"
    using facts(1) by auto
  obtain cl where cl: "k_chans demo_waiting 2 = Some cl" "c_path cl = Some [112]" "c_uuid cl = Some (APP_UUID [])"
    using facts(5) by auto
  have pos: "0 < ext2 (HPort 1)" by (simp add: ext2_def ext1_def)
  have acc: "check_access po (Some (APP_UUID [])) = NO_ERROR"
    using po(4) by (simp add: check_access_def is_ns_client_def IPC_PORT_ALLOW_TA_CONNECT_def)
  have "wait_path demo_waiting 2 = Some [112]" using cl by (simp add: wait_path_def)
  then show ?thesis
    using publish_connects_waiting [OF demo_waiting_reach pos po(1,2)] facts(2-4) acc cl po(3) by auto
qed

text \<open>Property C7.  Accepting takes the oldest pending connection of the port and joins its two ends: the new
  server channel and the client are connected to each other, the server gets the one handle of its end
  and the identity of the client that connected.\<close>

theorem accept_joins_ends:
  assumes "reach (ext, k)" and "0 < ext (HPort p)"
    and "ipc_port_accept (Some (HPort p)) k = Some (NO_ERROR, h, u, k')"
  shows "\<exists>s c rest. h = Some (HChan s) \<and> ext (HChan s) = 0 \<and> pend k p = s # rest \<and> joined k' s c \<and>
    (\<exists>cl. k_chans k' c = Some cl \<and> u = c_uuid cl)"
proof -
  note inv = reach_inv [OF assms(1)]
  obtain po where "k_ports k p = Some po" using open_port [OF inv assms(2)] by auto
  from accept_ok [OF sys_invD(1) [OF inv] this] assms(3) show ?thesis by auto
qed

theorem accept_joins_ends_witness:
  "demo_accept = Some (NO_ERROR, Some (HChan 3), Some (APP_UUID []), demo_connected) \<and> (\<exists>c. joined demo_connected 3 c)"
proof -
  have "0 < ext2 (HPort 1)" by (simp add: ext2_def ext1_def)
  from accept_joins_ends [OF demo_reach(3) this demo_accept_eq [unfolded demo_accept_def]] demo_accept_eq
  show ?thesis by auto
qed

section \<open>Messages\<close>

text \<open>Property C4.  A message arrives: what is sent on one end of a connection whose other end has an empty
  queue is announced there with its length, and reading it under the announced identifier into any vector with
  room copies exactly the bytes sent; the rest of the vector is left alone.\<close>

theorem message_delivery:
  assumes "reach (ext, k)" and "joined k d c" and "inbox k d = []"
    and "chan_send_locked m (Some (HChan c)) (kern_msg data) k = Some (ret, k1)" and "0 \<le> ret"
    and "list_all kvec_ok vs" and "nat ret \<le> length (kvec_bytes vs)"
  shows "\<exists>i k2 vs'. ipc_get_msg (Some (HChan d)) k1 = Some (NO_ERROR, Some i, k2) \<and> unat (info_len i) = nat ret \<and>
    ipc_read_msg m (Some (HChan d)) (info_id i) 0
      (Some \<lparr>kmsg_num_iov = length vs, kmsg_iov = Some vs, kmsg_num_handles = 0\<rparr>) k2 =
      Some (ret, IPC_MSG_BUFFER_KERNEL \<lparr>kmsg_num_iov = length vs, kmsg_iov = Some vs', kmsg_num_handles = 0\<rparr>) \<and>
    kvec_bytes vs' = take (nat ret) data @ drop (nat ret) (kvec_bytes vs)"
proof -
  note inv = sys_invD(1) [OF reach_inv [OF assms(1)]]
  have j: "st k c = Some IPC_CHAN_STATE_CONNECTED" "pr k c = Some d" "k_chans k c \<noteq> None"
    "st k d = Some IPC_CHAN_STATE_CONNECTED"
    using assms(2) by (auto simp: joined_def st_def pr_def)
  have "msg_desc_ok (kern_msg data)" by (simp add: msg_desc_ok_def kern_msg_def kvec_ok_def)
  from send_ok [OF inv j(3) this, of m] assms(4,5) j(2)
  have "kinv ext {} k1 \<and> (\<exists>content. int (length content) = ret \<and> inbox k1 = (inbox k)(d := inbox k d @ [content]) \<and>
      (\<forall>x. kern_msg data = kern_msg x \<longrightarrow> content = take (nat ret) x))"
    by (elim exE conjE) simp
  then obtain content where s: "kinv ext {} k1" "int (length content) = ret"
    "inbox k1 = (inbox k)(d := inbox k d @ [content])" "\<forall>x. kern_msg data = kern_msg x \<longrightarrow> content = take (nat ret) x"
    by blast
  have s4: "content = take (nat ret) data" using s(4) by blast
  have in1: "inbox k1 d = [content]" using s(3) assms(3) by simp
  then have q: "has_queue k1 d" by (auto simp: inbox_def has_queue_def split: option.splits)
  obtain i k2 ch mq where g: "ipc_get_msg (Some (HChan d)) k1 = Some (NO_ERROR, Some i, k2)"
    "unat (info_len i) = length content" "k_chans k2 d = Some ch" "c_msg_queue ch = Some mq" "mq_inv mq"
    "unat (info_id i) \<in> set (mq_read_list mq)" "mq_content mq (unat (info_id i)) = content"
    using get_ok [OF s(1) q] in1 by auto
  have n: "nat ret = length content" using s(2) by simp
  have "length (mq_content mq (unat (info_id i))) \<le> length (kvec_bytes vs)" using assms(7) n g(7) by simp
  from read_held [OF g(3-6) assms(6) this, of m] obtain vs' where
    v: "ipc_read_msg m (Some (HChan d)) (info_id i) 0
        (Some \<lparr>kmsg_num_iov = length vs, kmsg_iov = Some vs, kmsg_num_handles = 0\<rparr>) k2 =
        Some (int (length content), IPC_MSG_BUFFER_KERNEL
          \<lparr>kmsg_num_iov = length vs, kmsg_iov = Some vs', kmsg_num_handles = 0\<rparr>)"
      "kvec_bytes vs' = content @ drop (length content) (kvec_bytes vs)"
    unfolding g(7) by blast
  show ?thesis
  proof (intro exI [of _ i] exI [of _ k2] exI [of _ vs'] conjI)
    show "unat (info_len i) = nat ret" using g(2) n by simp
    show "kvec_bytes vs' = take (nat ret) data @ drop (nat ret) (kvec_bytes vs)"
      unfolding v(2) n using s4 n by simp
  qed (use g(1) v(1) s(2) in simp_all)
qed

definition demo_send :: "(int \<times> kern) option" where
  "demo_send = chan_send_locked demo_m (Some (HChan 2)) (kern_msg [5, 6, 7]) demo_connected"

theorem message_delivery_witness:
  "\<exists>k1 i k2 vs'. demo_send = Some (3, k1) \<and> ipc_get_msg (Some (HChan 3)) k1 = Some (NO_ERROR, Some i, k2) \<and>
    ipc_read_msg demo_m (Some (HChan 3)) (info_id i) 0
      (Some \<lparr>kmsg_num_iov = length demo_iov, kmsg_iov = Some demo_iov, kmsg_num_handles = 0\<rparr>) k2 =
      Some (3, IPC_MSG_BUFFER_KERNEL \<lparr>kmsg_num_iov = length demo_iov, kmsg_iov = Some vs', kmsg_num_handles = 0\<rparr>) \<and>
    kvec_bytes vs' = [5, 6, 7, 5]"
proof -
  have "map_option fst demo_send = Some 3" by code_simp
  then obtain k1 where k1: "demo_send = Some (3, k1)" by auto
  have "joined demo_connected 3 2"
  proof -
    have "map_option (\<lambda>ch. (c_state ch, c_peer ch)) (k_chans demo_connected 2) = Some (IPC_CHAN_STATE_CONNECTED, Some 3)"
      "map_option (\<lambda>ch. (c_state ch, c_peer ch)) (k_chans demo_connected 3) = Some (IPC_CHAN_STATE_CONNECTED, Some 2)"
      by code_simp+
    then show ?thesis by (auto simp: joined_def)
  qed
  moreover have "inbox demo_connected 3 = []" by code_simp
  ultimately show ?thesis
    using message_delivery [OF demo_reach(4) _ _ k1 [unfolded demo_send_def], of 3 demo_iov]
      k1 demo_iov_ok demo_iov_bytes by (simp add: eval_nat_numeral) blast
qed

section \<open>Where the code fails\<close>

definition demo_ns_create :: "int \<times> nat option \<times> kern" where
  "demo_ns_create = ipc_port_create (Some (APP_UUID [])) [112] 2 4 IPC_PORT_ALLOW_NS_CONNECT
     (snd (snd (the (demo_wait (APP_UUID []) kern0))))"

text \<open>Property C8.  Publishing can panic on a state that well-behaved clients reach: an application waits for
  a path, then the port is made with flags that admit the normal world only; publishing it shuts
  the refused client down after it was unlinked, and the assertion of \<^verbatim>\<open>chan_shutdown\<close> on the list
  node fails.\<close>

theorem publish_panics_on_refused_client:
  "\<exists>k p ext. ipc_port_create (Some (APP_UUID [])) [112] 2 4 IPC_PORT_ALLOW_NS_CONNECT
      (snd (snd (the (demo_wait (APP_UUID []) kern0)))) = (NO_ERROR, Some p, k) \<and>
    reach (ext, k) \<and> 0 < ext (HPort p) \<and> ipc_port_publish p k = None"
proof -
  let ?w = "snd (snd (the (demo_wait (APP_UUID []) kern0)))" and ?k = "snd (snd demo_ns_create)"
  have "map_option (\<lambda>(r, h, k). (r, h)) (demo_wait (APP_UUID []) kern0) = Some (NO_ERROR, Some (HChan 1))"
    by code_simp
  then have w: "demo_wait (APP_UUID []) kern0 = Some (NO_ERROR, Some (HChan 1), ?w)"
    by (cases "demo_wait (APP_UUID []) kern0") auto
  have "kern_start kern0" by (simp add: kern_start_def kern0_def)
  from reach.step [OF reach.start [OF this] kstep.connect [OF w [unfolded demo_wait_def]]]
  have r: "reach ((\<lambda>_. 0)(HChan 1 := 1), ?w)" by (simp add: grant_def demo_wait_def)
  have "fst demo_ns_create = NO_ERROR" "fst (snd demo_ns_create) = Some 2" by code_simp+
  then have c: "demo_ns_create = (NO_ERROR, Some 2, ?k)" by (simp add: prod_eq_iff)
  from reach.step [OF r kstep.port_create [OF this [unfolded demo_ns_create_def]]]
  have "reach ((\<lambda>_. 0)(HChan 1 := 1, HPort 2 := 1), ?k)" by (simp add: grant_def demo_ns_create_def)
  moreover have "ipc_port_publish 2 ?k = None" by code_simp
  ultimately show ?thesis using c [unfolded demo_ns_create_def]
    by (intro exI [of _ ?k] exI [of _ 2] exI [of _ "(\<lambda>_. 0)(HChan 1 := 1, HPort 2 := 1)"])
      (simp add: demo_ns_create_def)
qed

text \<open>Receiving on a channel that still waits for its port dereferences a queue that does not
  exist: getting, reading and putting a message all panic, on a handle that the client rightfully
  holds.\<close>

theorem get_on_waiting_channel_panics:
  "reach (ext2, demo_waiting) \<and> 0 < ext2 (HChan 2) \<and> st demo_waiting 2 = Some IPC_CHAN_STATE_WAITING_FOR_PORT \<and>
   ipc_get_msg (Some (HChan 2)) demo_waiting = None \<and> ipc_put_msg (Some (HChan 2)) 0 demo_waiting = None \<and>
   chan_read_locked m (Some (HChan 2)) 0 0 msg demo_waiting = None"
proof -
  have s: "map_option (\<lambda>ch. (c_state ch, c_msg_queue ch = None)) (k_chans demo_waiting 2) =
      Some (IPC_CHAN_STATE_WAITING_FOR_PORT, True)"
    by code_simp
  have "0 < ext2 (HChan 2)" by (simp add: ext2_def)
  with s demo_waiting_reach show ?thesis
    by (auto simp: st_def ipc_get_msg_def ipc_put_msg_def chan_read_locked_def check_channel_locked_def
        msg_put_read_locked_def)
qed

definition demo_denied :: "(int \<times> kern) option" where
  "demo_denied = ipc_port_publish 1 (demo_waiting\<lparr>k_hyp := \<lambda>guest uuid. ERR_ACCESS_DENIED\<rparr>)"

text \<open>With a hypervisor check that refuses the client's guest, publishing reports an error
  although the port is listening and listed; the waiting client has left the waiting list without being
  connected or shut down, and closing its handle panics.\<close>

theorem publish_denied_client_is_lost:
  "\<exists>k'. ipc_port_publish 1 (demo_waiting\<lparr>k_hyp := \<lambda>guest uuid. ERR_ACCESS_DENIED\<rparr>) = Some (ERR_ACCESS_DENIED, k') \<and>
    k_port_list k' = [1] \<and> k_waiting k' = [] \<and> st k' 2 = Some IPC_CHAN_STATE_WAITING_FOR_PORT \<and>
    handle_close (HChan 2) k' = None"
proof -
  have r: "map_option fst demo_denied = Some ERR_ACCESS_DENIED"
    "map_option (\<lambda>(r, k). (k_port_list k, k_waiting k, st k 2)) demo_denied =
      Some ([1], [], Some IPC_CHAN_STATE_WAITING_FOR_PORT)"
    "handle_close (HChan 2) (snd (the demo_denied)) = None"
    by code_simp+
  then obtain k' where "demo_denied = Some (ERR_ACCESS_DENIED, k')" by auto
  with r show ?thesis by (auto simp: demo_denied_def)
qed

end
