(* ===== verification/Fairness.thy ===== *)
theory Fairness
  imports Handle
begin

text \<open>
  Waiting on a handle list is fair.  The first part computes one call of \<^verbatim>\<open>handle_list_wait\<close> that
  finds a ready handle: it arms and disarms the handles it polls, serves the first ready one, and
  moves the head of the list behind it.  The second part follows a handle through a run of such
  calls: at each turn it is served or moves towards the head.
\<close>

section \<open>Arming handles\<close>

text \<open>\<open>armed S v k\<close> is the state in which the handles of \<open>S\<close> have the wait event \<open>v\<close>.\<close>

definition armed :: "hptr set \<Rightarrow> nat option \<Rightarrow> kern \<Rightarrow> kern" where
  "armed S v k = k\<lparr>
     k_ports := (\<lambda>p. map_option (\<lambda>po. if HPort p \<in> S
       then po\<lparr>p_handle := (p_handle po)\<lparr>h_wait_event := v\<rparr>\<rparr> else po) (k_ports k p)),
     k_chans := (\<lambda>c. map_option (\<lambda>ch. if HChan c \<in> S
       then ch\<lparr>c_handle := (c_handle ch)\<lparr>h_wait_event := v\<rparr>\<rparr> else ch) (k_chans k c))\<rparr>"

definition idle_handle :: "kern \<Rightarrow> hptr \<Rightarrow> bool" where
  "idle_handle k hp = (case get_handle k hp of None \<Rightarrow> False | Some h \<Rightarrow> h_wait_event h = None)"

lemma armed_empty [simp]: "armed {} v k = k"
  by (simp add: armed_def option.map_ident)

lemma armed_hlists [simp]: "k_hlists (armed S v k) = k_hlists k"
  by (simp add: armed_def)

lemma get_handle_armed:
  "get_handle (armed S v k) hp = map_option (\<lambda>h. if hp \<in> S then h\<lparr>h_wait_event := v\<rparr> else h) (get_handle k hp)"
  by (cases hp) (auto simp: armed_def option.map_comp comp_def intro!: map_option_cong)

lemma ball_empty: "\<forall>x\<in>set []. P x"
  by simp

lemma idle_armed: "hp \<notin> S \<Longrightarrow> idle_handle (armed S v k) hp = idle_handle k hp"
  by (simp add: idle_handle_def get_handle_armed split: option.split)

lemma handle_poll_armed [simp]: "handle_poll hp (armed S v k) = handle_poll hp k"
  by (cases hp)
     (auto simp: armed_def port_poll_def chan_poll_def map_option_case split: option.split)

lemma handle_poll_exists: "idle_handle k hp \<Longrightarrow> \<exists>e. handle_poll hp k = Some e"
  by (cases hp) (auto simp: idle_handle_def port_poll_def chan_poll_def split: option.splits)

lemma get_handle_cases:
  "get_handle k hp = (case hp of HPort p \<Rightarrow> map_option p_handle (k_ports k p)
     | HChan c \<Rightarrow> map_option c_handle (k_chans k c))"
  by (cases hp) simp_all

lemma upd_event_armed:
  assumes "idle_handle k hp"
  shows "upd_handle hp (\<lambda>h. h\<lparr>h_wait_event := v\<rparr>) (armed S v k) = Some (armed (insert hp S) v k)"
  using assms
  by (cases hp) (auto simp: idle_handle_def armed_def upd_port_def upd_chan_def set_port_def
      set_chan_def fun_eq_iff split: option.splits)

lemma prepare_armed:
  assumes "idle_handle k hp" "hp \<notin> S"
  shows "prepare_wait_handle ev hp (armed S (Some ev) k) = Some (0, armed (insert hp S) (Some ev) k)"
proof -
  obtain h where "get_handle (armed S (Some ev) k) hp = Some h" "h_wait_event h = None"
    using idle_armed [OF assms(2), of "Some ev" k] assms(1) by (auto simp: idle_handle_def split: option.splits)
  then show ?thesis
    using upd_event_armed [OF assms(1)] by (simp add: prepare_wait_handle_def)
qed

lemma finish_armed:
  assumes "idle_handle k hp"
  shows "finish_wait_handle hp (armed S v k) = Some (armed (S - {hp}) v k)"
  using assms
  by (cases hp) (auto simp: finish_wait_handle_def idle_handle_def armed_def upd_port_def upd_chan_def
      set_port_def set_chan_def fun_eq_iff split: option.splits)

section \<open>One call\<close>

lemma hlist_poll_loop_ready:
  assumes "\<forall>x\<in>set (pre @ [h]). idle_handle k x" "distinct (pre @ [h])" "set (pre @ [h]) \<inter> S = {}"
    and "\<forall>x\<in>set pre. handle_poll x k = Some 0" "handle_poll h k = Some e" "e \<noteq> 0"
  shows "hlist_poll_loop ev (pre @ h # post) True lp (armed S (Some ev) k) =
    Some (1, Some (h, e), Some h, armed (S \<union> set (pre @ [h])) (Some ev) k)"
  using assms
proof (induction pre arbitrary: S lp)
  case Nil
  then show ?case by (simp add: prepare_armed)
next
  case (Cons x pre)
  have "insert x S \<union> set (pre @ [h]) = S \<union> set ((x # pre) @ [h])" by auto
  with Cons.IH [of "insert x S" "Some x"] Cons.prems show ?case by (auto simp: prepare_armed)
qed

lemma hlist_finish_loop_armed:
  assumes "\<forall>x\<in>set (pre @ [h]). idle_handle k x" "h \<notin> set pre" "S \<subseteq> set (pre @ [h])"
  shows "hlist_finish_wait_loop (pre @ h # post) (Some h) (armed S v k) = Some k"
  using assms
proof (induction pre arbitrary: S)
  case Nil
  then have "armed (S - {h}) v k = k" using subset_singletonD by fastforce
  then show ?case using Nil by (simp add: finish_armed)
next
  case (Cons x pre)
  then have "S - {x} \<subseteq> set (pre @ [h])" by auto
  with Cons show ?case by (simp add: finish_armed)
qed

text \<open>A list no thread waits on, of distinct handles no thread waits on.\<close>

definition members :: "nat \<Rightarrow> kern \<Rightarrow> hptr list" where
  "members l k = (case k_hlists k l of None \<Rightarrow> [] | Some hl \<Rightarrow> hl_handles hl)"

definition waitable :: "nat \<Rightarrow> kern \<Rightarrow> bool" where
  "waitable l k \<longleftrightarrow> (case k_hlists k l of None \<Rightarrow> False | Some hl \<Rightarrow> hl_wait_event hl = None) \<and>
     distinct (members l k) \<and> (\<forall>hp\<in>set (members l k). idle_handle k hp)"

definition ready :: "hptr \<Rightarrow> kern \<Rightarrow> bool" where
  "ready hp k \<longleftrightarrow> (case handle_poll hp k of None \<Rightarrow> False | Some e \<Rightarrow> e \<noteq> 0)"

lemma finalize_event_ok:
  assumes "idle_handle k hp"
  obtains k' where "handle_finalize_event hp e k = Some k'" "k_hlists k' = k_hlists k"
    "\<And>x. get_handle k' x = get_handle k x"
proof (cases hp)
  case (HPort p)
  with that show ?thesis by simp
next
  case (HChan c)
  then obtain ch where "k_chans k c = Some ch" using assms by (auto simp: idle_handle_def split: option.splits)
  then show ?thesis
    using HChan by (intro that [of "the (handle_finalize_event hp e k)"])
      (auto simp: chan_finalize_event_def upd_chan_def set_chan_def get_handle_cases split: hptr.split)
qed

lemma incref_ok:
  assumes "get_handle k hp = Some h"
  obtains k' where "handle_incref hp k = Some k'" "k_hlists k' = k_hlists k"
    "\<And>x. get_handle k' x = (if x = hp then Some (h\<lparr>h_refcnt := h_refcnt h + 1\<rparr>) else get_handle k x)"
proof (rule that [of "the (handle_incref hp k)"])
qed (use assms in \<open>auto simp: handle_incref_def upd_port_def upd_chan_def set_port_def set_chan_def
       get_handle_cases split: hptr.splits\<close>)

lemma before_first: "h \<notin> set pre \<Longrightarrow> takeWhile (\<lambda>x. x \<noteq> h) (pre @ h # post) = pre"
  by (induction pre) auto

lemma from_first: "h \<notin> set pre \<Longrightarrow> dropWhile (\<lambda>x. x \<noteq> h) (pre @ h # post) = h # post"
  by (induction pre) auto

lemma rotate_after_eq: "h \<notin> set pre \<Longrightarrow> rotate_after h (pre @ h # post) = post @ pre @ [h]"
  by (simp add: rotate_after_def before_first from_first)

lemma waitable_hlist:
  "waitable l k \<Longrightarrow> k_hlists k l = Some \<lparr>hl_handles = members l k, hl_wait_event = None\<rparr>"
  by (auto simp: waitable_def members_def split: option.splits)

lemma hlist_do_poll_ready:
  assumes "k_hlists k l = Some \<lparr>hl_handles = pre @ h # post, hl_wait_event = Some ev\<rparr>"
    and "distinct (pre @ h # post)" "\<forall>x\<in>set (pre @ h # post). idle_handle k x"
    and "\<forall>x\<in>set pre. handle_poll x k = Some 0" "handle_poll h k = Some e" "e \<noteq> 0"
  shows "hlist_do_poll_locked l True k = Some (1, Some (h, e), k)"
proof -
  have "hlist_poll_loop ev (pre @ h # post) True None k =
      Some (1, Some (h, e), Some h, armed (set (pre @ [h])) (Some ev) k)"
    using hlist_poll_loop_ready [of pre h k "{}" e ev post None] assms by auto
  moreover have "hlist_finish_wait_loop (pre @ h # post) (Some h) (armed (set (pre @ [h])) (Some ev) k) = Some k"
    using assms by (intro hlist_finish_loop_armed) auto
  ultimately show ?thesis
    using assms(1) by (simp add: hlist_do_poll_locked_def hlist_finish_wait_locked_def)
qed

lemma handle_poll_hlists [simp]: "handle_poll hp (k\<lparr>k_hlists := f\<rparr>) = handle_poll hp k"
  by (cases hp) (simp_all add: port_poll_def chan_poll_def)

lemma get_handle_hlists [simp]: "get_handle (k\<lparr>k_hlists := f\<rparr>) hp = get_handle k hp"
  by (cases hp) simp_all

lemma idle_handle_hlists [simp]: "idle_handle (k\<lparr>k_hlists := f\<rparr>) hp = idle_handle k hp"
  by (simp add: idle_handle_def)

lemma handle_list_wait_ready:
  assumes "waitable l k" "members l k = pre @ h # post"
    and "\<forall>x\<in>set pre. handle_poll x k = Some 0" "handle_poll h k = Some e" "e \<noteq> 0"
    and "get_handle k h = Some hn"
  obtains k' where "handle_list_wait env ev l k = Some (Some NO_ERROR, Some (h, e), env, k')"
    "k_hlists k' = (k_hlists k)(l \<mapsto> \<lparr>hl_handles = post @ pre @ [h], hl_wait_event = None\<rparr>)"
    "\<And>x. get_handle k' x = (if x = h then Some (hn\<lparr>h_refcnt := h_refcnt hn + 1\<rparr>) else get_handle k x)"
proof -
  define k1 where "k1 = k\<lparr>k_hlists := (k_hlists k)(l \<mapsto> \<lparr>hl_handles = pre @ h # post, hl_wait_event = Some ev\<rparr>)\<rparr>"
  note hl = waitable_hlist [OF assms(1), unfolded assms(2)]
  have dist: "distinct (pre @ h # post)" and idle: "\<forall>x\<in>set (pre @ h # post). idle_handle k x"
    using assms(1,2) by (simp_all add: waitable_def)
  have poll: "hlist_do_poll_locked l True k1 = Some (1, Some (h, e), k1)"
    using assms(3-5) dist idle unfolding k1_def by (intro hlist_do_poll_ready) auto
  have "idle_handle k1 h" "get_handle k1 h = Some hn" using idle assms(6) by (simp_all add: k1_def)
  then obtain k2 where k2: "handle_finalize_event h e k1 = Some k2" "k_hlists k2 = k_hlists k1"
      "\<And>x. get_handle k2 x = get_handle k1 x"
    using finalize_event_ok [of k1 h e] by metis
  obtain k3 where k3: "handle_incref h k2 = Some k3" "k_hlists k3 = k_hlists k2"
      "\<And>x. get_handle k3 x = (if x = h then Some (hn\<lparr>h_refcnt := h_refcnt hn + 1\<rparr>) else get_handle k2 x)"
    using incref_ok [of k2 h hn] k2(3) \<open>get_handle k1 h = Some hn\<close> by metis
  have rot: "rotate_after h (pre @ h # post) = post @ pre @ [h]"
    using dist by (intro rotate_after_eq) simp
  show thesis
  proof (rule that)
    show "handle_list_wait env ev l k = Some (Some NO_ERROR, Some (h, e), env,
        k3\<lparr>k_hlists := (k_hlists k)(l \<mapsto> \<lparr>hl_handles = post @ pre @ [h], hl_wait_event = None\<rparr>)\<rparr>)"
      using hl poll k2 k3 rot
      by (simp add: handle_list_wait_def upd_hlist_def k1_def [symmetric]) (simp add: k1_def)
  qed (use k2 k3 in \<open>simp_all add: k1_def\<close>)
qed

text \<open>A wait on a list without a ready handle that times out leaves everything as it was.\<close>

lemma hlist_poll_loop_idle:
  assumes "\<forall>x\<in>set hs. idle_handle k x" "distinct hs" "set hs \<inter> S = {}" "\<forall>x\<in>set hs. handle_poll x k = Some 0"
  shows "\<exists>lp'. hlist_poll_loop ev hs True lp (armed S (Some ev) k) = Some (0, None, lp', armed (S \<union> set hs) (Some ev) k)"
  using assms
proof (induction hs arbitrary: S lp)
  case Nil
  then show ?case by simp
next
  case (Cons x hs)
  have "insert x S \<union> set hs = S \<union> set (x # hs)" by auto
  with Cons.IH [of "insert x S" "Some x"] Cons.prems show ?case by (auto simp: prepare_armed)
qed

lemma hlist_finish_loop_all:
  assumes "\<forall>x\<in>set hs. idle_handle k x" "S \<subseteq> set hs"
  shows "hlist_finish_wait_loop hs None (armed S v k) = Some k"
  using assms
proof (induction hs arbitrary: S)
  case Nil
  then show ?case by simp
next
  case (Cons x hs)
  then have "S - {x} \<subseteq> set hs" by auto
  with Cons show ?case by (simp add: finish_armed)
qed

lemma handle_list_wait_idle:
  assumes "waitable l k" "members l k \<noteq> []" "\<forall>x\<in>set (members l k). handle_poll x k = Some 0" "t < 0"
  shows "handle_list_wait ((t, id) # env) ev l k = Some (Some t, None, env, k)"
proof -
  let ?hs = "members l k"
  define k1 where "k1 = k\<lparr>k_hlists := (k_hlists k)(l \<mapsto> \<lparr>hl_handles = ?hs, hl_wait_event = Some ev\<rparr>)\<rparr>"
  note hl = waitable_hlist [OF assms(1)]
  have dist: "distinct ?hs" and idle: "\<forall>x\<in>set ?hs. idle_handle k1 x"
    using assms(1) by (simp_all add: waitable_def k1_def)
  have hl1: "k_hlists k1 l = Some \<lparr>hl_handles = ?hs, hl_wait_event = Some ev\<rparr>" by (simp add: k1_def)
  obtain lp where "hlist_poll_loop ev ?hs True None k1 = Some (0, None, lp, armed (set ?hs) (Some ev) k1)"
    using hlist_poll_loop_idle [OF idle dist, of "{}" ev None] assms(3) by (auto simp: k1_def)
  then have poll: "hlist_do_poll_locked l True k1 = Some (0, None, armed (set ?hs) (Some ev) k1)"
    using assms(2) hl1 by (simp add: hlist_do_poll_locked_def)
  have fin: "hlist_finish_wait_locked l None (armed (set ?hs) (Some ev) k1) = Some k1"
    using hlist_finish_loop_all [OF idle] hl1 by (simp add: hlist_finish_wait_locked_def)
  have restore: "k1\<lparr>k_hlists := (k_hlists k1)(l \<mapsto> \<lparr>hl_handles = ?hs, hl_wait_event = None\<rparr>)\<rparr> = k"
    using hl by (simp add: k1_def fun_upd_idem)
  show ?thesis
    using hl poll fin restore hl1 assms(4) by (simp add: handle_list_wait_def upd_hlist_def k1_def [symmetric])
qed

text \<open>Two listening ports, each with a connection to accept, in one handle list.\<close>

definition fair_port :: ipc_port where
  "fair_port = \<lparr>p_path = [112], p_uuid = ZERO_UUID, p_state = IPC_PORT_STATE_LISTENING, p_flags = 0,
     p_num_recv_bufs = 1, p_recv_buf_size = 1,
     p_handle = \<lparr>h_refcnt = 2, h_wait_event = None, h_in_hlist = True, h_cookie = 0, h_guest_id = 0\<rparr>,
     p_pending_list = [7], p_in_list = True\<rparr>"

definition fair_demo :: kern where
  "fair_demo = \<lparr>k_ports = (\<lambda>p. if p < 2 then Some fair_port else None), k_chans = (\<lambda>_. None),
     k_port_list = [0, 1], k_waiting = [],
     k_hlists = (\<lambda>l. if l = 0 then Some \<lparr>hl_handles = [HPort 0, HPort 1], hl_wait_event = None\<rparr> else None),
     k_uctx = (\<lambda>_. None), k_next = 2, k_alloc = [], k_junk = (\<lambda>_. 0), k_signals = [], k_hyp = (\<lambda>_ _. 0)\<rparr>"

definition fair_next :: "kern \<Rightarrow> kern" where
  "fair_next k = snd (snd (snd (the (handle_list_wait [] 9 0 k))))"

section \<open>Properties\<close>

text \<open>
  Waiting on a handle list that has a ready handle returns at once, with the first
  ready handle in list order and its pending events; it takes a reference on that handle, leaves
  the other handles and the wait events as they were, and moves the served handle and all handles
  before it behind the rest of the list.
\<close>

theorem list_wait_serves_first_ready:
  assumes "waitable l k" "members l k = pre @ h # post"
    and "\<forall>x\<in>set pre. \<not> ready x k" "handle_poll h k = Some e" "e \<noteq> 0"
  shows "\<exists>k'. handle_list_wait env ev l k = Some (Some NO_ERROR, Some (h, e), env, k') \<and>
    members l k' = post @ pre @ [h] \<and> waitable l k' \<and>
    map_option h_refcnt (get_handle k' h) = map_option (\<lambda>n. h_refcnt n + 1) (get_handle k h) \<and>
    (\<forall>x. x \<noteq> h \<longrightarrow> get_handle k' x = get_handle k x)"
proof -
  have idle: "\<forall>x\<in>set (members l k). idle_handle k x" using assms(1) by (simp add: waitable_def)
  then obtain hn where hn: "get_handle k h = Some hn"
    using assms(2) by (auto simp: idle_handle_def split: option.splits)
  have "\<forall>x\<in>set pre. handle_poll x k = Some 0"
    using assms(2,3) idle handle_poll_exists [of k] by (fastforce simp: ready_def split: option.splits)
  from handle_list_wait_ready [OF assms(1,2) this assms(4,5) hn, of env ev] obtain k' where
    r: "handle_list_wait env ev l k = Some (Some NO_ERROR, Some (h, e), env, k')"
    and hl: "k_hlists k' = (k_hlists k)(l \<mapsto> \<lparr>hl_handles = post @ pre @ [h], hl_wait_event = None\<rparr>)"
    and gh: "\<And>x. get_handle k' x = (if x = h then Some (hn\<lparr>h_refcnt := h_refcnt hn + 1\<rparr>) else get_handle k x)"
    by blast
  have mem: "members l k' = post @ pre @ [h]" by (simp add: members_def hl)
  have "waitable l k'"
    using assms(1,2) idle hn unfolding waitable_def mem hl
    by (auto simp: idle_handle_def gh)
  with r mem gh hn show ?thesis by auto
qed

theorem list_wait_serves_first_ready_witness:
  "\<exists>k'. handle_list_wait [] 9 0 fair_demo = Some (Some NO_ERROR, Some (HPort 0, 1), [], k') \<and>
     members 0 k' = [HPort 1, HPort 0]"
proof -
  have "waitable 0 fair_demo" "members 0 fair_demo = [] @ HPort 0 # [HPort 1]"
    "handle_poll (HPort 0) fair_demo = Some 1" by code_simp+
  note this(1,2) ball_empty this(3) one_neq_zero
  from list_wait_serves_first_ready [OF this, of "[]" 9]
  obtain k' where "handle_list_wait [] 9 0 fair_demo = Some (Some NO_ERROR, Some (HPort 0, 1), [], k')"
      "members 0 k' = [HPort 1] @ [] @ [HPort 0]"
    by (elim exE conjE)
  then show ?thesis by (intro exI [of _ k'] conjI) simp_all
qed

text \<open>
  A run of waits on list \<open>l\<close> seen by the handle \<open>h\<close>: between two waits anything may happen to the
  kernel that leaves the list waitable, \<open>h\<close> ready and no handle moved before it (additions go to the
  end of the list, deletions take handles out).  The list of the run holds the handles served.
\<close>

inductive wait_run :: "nat \<Rightarrow> hptr \<Rightarrow> kern \<Rightarrow> hptr list \<Rightarrow> kern \<Rightarrow> bool" for l h k where
  start: "wait_run l h k [] k"
| turn: "wait_run l h k hs k1 \<Longrightarrow> waitable l k2 \<Longrightarrow> h \<in> set (members l k2) \<Longrightarrow> ready h k2 \<Longrightarrow>
    length (takeWhile (\<lambda>x. x \<noteq> h) (members l k2)) \<le> length (takeWhile (\<lambda>x. x \<noteq> h) (members l k1)) \<Longrightarrow>
    handle_list_wait env ev l k2 = Some (Some r, Some (x, e), env', k3) \<Longrightarrow>
    wait_run l h k (hs @ [x]) k3"
lemma first_ready:
  assumes "ready h k" "h \<in> set hs"
  obtains pre x post where "hs = pre @ x # post" "ready x k" "\<forall>y\<in>set pre. \<not> ready y k"
  using assms split_list_first_prop [of hs "\<lambda>x. ready x k"] by blast

text \<open>A turn that does not serve \<open>h\<close> brings it nearer to the head.\<close>

lemma turn_advances:
  assumes "waitable l k" "h \<in> set (members l k)" "ready h k" "x \<noteq> h"
    and "handle_list_wait env ev l k = Some (Some r, Some (x, e), env', k')"
  shows "length (takeWhile (\<lambda>x. x \<noteq> h) (members l k')) < length (takeWhile (\<lambda>x. x \<noteq> h) (members l k))"
proof -
  obtain pre y post where mem: "members l k = pre @ y # post" and y: "ready y k"
    and pre: "\<forall>z\<in>set pre. \<not> ready z k"
    using first_ready [OF assms(3,2)] .
  have idle: "\<forall>z\<in>set (members l k). idle_handle k z" and dist: "distinct (pre @ y # post)"
    using assms(1) mem by (simp_all add: waitable_def)
  obtain e' hn where e': "handle_poll y k = Some e'" "e' \<noteq> 0" and hn: "get_handle k y = Some hn"
    using y idle mem by (auto simp: ready_def idle_handle_def split: option.splits)
  have "\<forall>z\<in>set pre. handle_poll z k = Some 0"
    using mem pre idle handle_poll_exists [of k] by (fastforce simp: ready_def split: option.splits)
  from handle_list_wait_ready [OF assms(1) mem this e' hn, of env ev] obtain k'' where
    r: "handle_list_wait env ev l k = Some (Some NO_ERROR, Some (y, e'), env, k'')"
    and hl: "k_hlists k'' = (k_hlists k)(l \<mapsto> \<lparr>hl_handles = post @ pre @ [y], hl_wait_event = None\<rparr>)" .
  have "k'' = k'" and y: "x = y" using r assms(5) by simp_all
  then have mem': "members l k' = post @ pre @ [y]" using hl by (simp add: members_def)
  have "h \<notin> set pre" using pre assms(3) by blast
  then have h: "h \<in> set post" using assms(2,4) mem y by auto
  then obtain p q where pq: "post = p @ h # q" "h \<notin> set p" using split_list_first [of h post] by blast
  then have "takeWhile (\<lambda>x. x \<noteq> h) (members l k') = p"
    using before_first [of h p "q @ pre @ [y]"] by (simp add: mem')
  moreover have "takeWhile (\<lambda>x. x \<noteq> h) (members l k) = pre @ y # p"
    using before_first [of h "pre @ y # p" q] pq \<open>h \<notin> set pre\<close> assms(4) y by (simp add: mem)
  ultimately show ?thesis by simp
qed

lemma wait_run_rank:
  assumes "wait_run l h k hs k'" "h \<notin> set hs"
  shows "length (takeWhile (\<lambda>x. x \<noteq> h) (members l k')) + length hs
    \<le> length (takeWhile (\<lambda>x. x \<noteq> h) (members l k))"
  using assms
proof (induction rule: wait_run.induct)
  case start
  then show ?case by simp
next
  case (turn hs k1 k2 env ev r x e env' k3)
  then have "x \<noteq> h" by auto
  from turn_advances [OF turn(2-4) this turn(6)] turn show ?case by simp
qed

text \<open>
  Property C14. Waiting on a handle list starves no handle: if a handle stays in the list and stays
  ready from one wait to the next, it is served at the latest by the wait that follows as many
  waits as there were handles before it in the list.
\<close>

theorem list_wait_starvation_free:
  assumes "wait_run l h k hs k'"
    and "length (takeWhile (\<lambda>x. x \<noteq> h) (members l k)) < length hs"
  shows "h \<in> set hs"
  using wait_run_rank [OF assms(1)] assms(2) by fastforce

theorem list_wait_starvation_free_witness:
  "wait_run 0 (HPort 1) fair_demo [HPort 0, HPort 1] (fair_next (fair_next fair_demo)) \<and>
   HPort 1 \<in> set [HPort 0, HPort 1]"
proof -
  have w: "waitable 0 fair_demo" "HPort 1 \<in> set (members 0 fair_demo)" "ready (HPort 1) fair_demo"
    "waitable 0 (fair_next fair_demo)" "HPort 1 \<in> set (members 0 (fair_next fair_demo))"
    "ready (HPort 1) (fair_next fair_demo)" by code_simp+
  have served: "map_option (\<lambda>(r, f, env, _). (r, f, env = [])) (handle_list_wait [] 9 0 fair_demo) =
      Some (Some 0, Some (HPort 0, 1), True)"
    "map_option (\<lambda>(r, f, env, _). (r, f, env = [])) (handle_list_wait [] 9 0 (fair_next fair_demo)) =
      Some (Some 0, Some (HPort 1, 1), True)" by code_simp+
  then have t: "handle_list_wait [] 9 0 fair_demo = Some (Some 0, Some (HPort 0, 1), [], fair_next fair_demo)"
    "handle_list_wait [] 9 0 (fair_next fair_demo) =
      Some (Some 0, Some (HPort 1, 1), [], fair_next (fair_next fair_demo))"
    by (auto simp: fair_next_def)
  have run: "wait_run 0 (HPort 1) fair_demo [HPort 0, HPort 1] (fair_next (fair_next fair_demo))"
    using wait_run.turn [OF wait_run.turn [OF wait_run.start w(1-3) le_refl t(1)] w(4-6) le_refl t(2)]
    by simp
  have "length (takeWhile (\<lambda>x. x \<noteq> HPort 1) (members 0 fair_demo)) < 2" by code_simp
  then show ?thesis using run list_wait_starvation_free [OF run] by simp
qed

end
