(* ===== verification/SlotTable.thy ===== *)
theory SlotTable
  imports Bitmap
begin

text \<open>
  A table of entries addressed by 32-bit numbers from a base on, whose slots a bitmap allocates: what
  the endpoint tables of the two IPC bridges share.  The locale extends \<^const>\<open>slot_bitmap\<close>; inside it the
  bitmap with the list of entries is shown to behave as a partial map from addresses to entries.
\<close>

locale slot_table = slot_bitmap wf used mark unmark find cap
  for wf :: "'b \<Rightarrow> bool" and used mark unmark find cap +
  fixes base :: u32
  assumes base_pos: "base \<noteq> 0" and addr_range: "unat base + cap < 2 ^ 32"
begin

definition addr :: "nat \<Rightarrow> u32" where
  "addr i = of_nat i + base"

definition slot :: "u32 \<Rightarrow> nat" where
  "slot a = unat (a - base)"

definition tlookup :: "'b \<Rightarrow> u32 \<Rightarrow> nat option" where
  "tlookup b a = (if slot a < cap \<and> used b (slot a) then Some (slot a) else None)"

definition table :: "'b \<Rightarrow> 'e list \<Rightarrow> u32 \<Rightarrow> 'e option" where
  "table b es a = map_option ((!) es) (tlookup b a)"

lemma slot_addr [simp]: "i < cap \<Longrightarrow> slot (addr i) = i"
  using addr_range by (simp add: addr_def slot_def unat_of_nat_less)

lemma addr_slot [simp]: "addr (slot a) = a"
  by (simp add: addr_def slot_def of_nat_unat)

lemma unat_addr: "i < cap \<Longrightarrow> unat (addr i) = i + unat base"
  using addr_range by (simp add: addr_def unat_word_ariths unat_of_nat_less)

lemma addr_nonzero: "i < cap \<Longrightarrow> addr i \<noteq> 0"
  using unat_addr [of i] base_pos by (auto simp: unat_eq_0)

lemma slot_inject: "slot a = slot b \<longleftrightarrow> a = b"
  by (metis addr_slot)

lemma addr_inject: "i < cap \<Longrightarrow> j < cap \<Longrightarrow> addr i = addr j \<longleftrightarrow> i = j"
  by (metis slot_addr)

lemma tlookup_Some: "tlookup b a = Some i \<longleftrightarrow> i < cap \<and> used b i \<and> a = addr i"
  by (auto simp: tlookup_def)

lemma table_None: "table b es a = None \<longleftrightarrow> \<not> (slot a < cap \<and> used b (slot a))"
  by (simp add: table_def tlookup_def)

lemma table_Some: "table b es a = Some e \<longleftrightarrow> slot a < cap \<and> used b (slot a) \<and> e = es ! slot a"
  by (auto simp: table_def tlookup_def)

text \<open>The lowest free slot gives a fresh address, and entering it changes nothing else.\<close>

lemma table_alloc:
  assumes "wf b" "length es = cap" "0 \<le> find b"
  shows "table b es (addr (nat (find b))) = None"
    and "table (mark b (nat (find b))) (es[nat (find b) := e]) = (table b es)(addr (nat (find b)) \<mapsto> e)"
proof -
  have n: "nat (find b) < cap" "\<not> used b (nat (find b))" using find_free [OF assms(1,3)] by simp_all
  show "table b es (addr (nat (find b))) = None" using n by (simp add: table_None)
  show "table (mark b (nat (find b))) (es[nat (find b) := e]) = (table b es)(addr (nat (find b)) \<mapsto> e)"
  proof
    fix a
    have "a = addr (nat (find b)) \<longleftrightarrow> slot a = nat (find b)" using n(1) slot_addr addr_slot by metis
    then show "table (mark b (nat (find b))) (es[nat (find b) := e]) a =
        ((table b es)(addr (nat (find b)) \<mapsto> e)) a"
      using n assms by (auto simp: table_def tlookup_def mark_used nth_list_update)
  qed
qed

lemma table_full: "wf b \<Longrightarrow> find b < 0 \<Longrightarrow> i < cap \<Longrightarrow> table b es (addr i) = Some (es ! i)"
  using find_full by (simp add: table_Some)

lemma table_free:
  assumes "wf b" "length es = cap" "slot a < cap"
  shows "table (unmark b (slot a)) (es[slot a := e]) = (table b es)(a := None)"
proof
  fix x
  have "x = a \<longleftrightarrow> slot x = slot a" using slot_inject by simp
  then show "table (unmark b (slot a)) (es[slot a := e]) x = ((table b es)(a := None)) x"
    using assms by (auto simp: table_def tlookup_def unmark_used nth_list_update)
qed

text \<open>Closing an address that was just opened gives the table back.\<close>

lemma table_alloc_free:
  assumes "wf b" "length es = cap" "0 \<le> find b"
  shows "table (unmark (mark b (nat (find b))) (nat (find b))) (es[nat (find b) := e, nat (find b) := f]) = table b es"
proof -
  have n: "nat (find b) < cap" using find_free [OF assms(1,3)] by simp
  have "table (unmark (mark b (nat (find b))) (slot (addr (nat (find b)))))
      ((es[nat (find b) := e])[slot (addr (nat (find b))) := f]) =
      (table (mark b (nat (find b))) (es[nat (find b) := e]))(addr (nat (find b)) := None)"
    using assms n by (intro table_free) (simp_all add: wf_mark)
  then show ?thesis
    using table_alloc [OF assms] n by (auto simp: fun_upd_idem_iff)
qed

end

end
