(* ===== verification/TipcDev.thy ===== *)
theory TipcDev
  imports Vqueue Handle Ipc SlotTable
begin

text \<open>
  The virtio device that bridges the normal world to the kernel IPC: \<^verbatim>\<open>lib/trusty/tipc_dev.c\<close>.  The
  device record holds its two queues, the table of endpoints with its bitmap, and the address space
  its buffers are mapped in; the channels are in the kernel state \<open>kern\<close>.  Every byte of a received
  message is read at most once, so a message is the list of the bytes as they were read.
  A return value \<^term>\<open>None\<close> inside the result is a thread blocked on its queue event.
\<close>

definition TIPC_CTRL_ADDR :: u32 where "TIPC_CTRL_ADDR = 53"
definition TIPC_ADDR_MAX_NUM :: nat where "TIPC_ADDR_MAX_NUM = 256"
definition TIPC_ADDR_BASE :: u32 where "TIPC_ADDR_BASE = 1000"
definition TIPC_MAX_SRV_NAME_LEN :: nat where "TIPC_MAX_SRV_NAME_LEN = 256"
definition TIPC_CTRL_MSGTYPE_GO_ONLINE :: u32 where "TIPC_CTRL_MSGTYPE_GO_ONLINE = 1"
definition TIPC_CTRL_MSGTYPE_CONN_REQ :: u32 where "TIPC_CTRL_MSGTYPE_CONN_REQ = 3"
definition TIPC_CTRL_MSGTYPE_CONN_RSP :: u32 where "TIPC_CTRL_MSGTYPE_CONN_RSP = 4"
definition TIPC_CTRL_MSGTYPE_DISC_REQ :: u32 where "TIPC_CTRL_MSGTYPE_DISC_REQ = 5"
definition sizeof_tipc_hdr :: nat where "sizeof_tipc_hdr = 16"
definition sizeof_ctrl_hdr :: nat where "sizeof_ctrl_hdr = 8"

datatype vdev_state = VDEV_STATE_RESET | VDEV_STATE_ACTIVE

record tipc_ept =
  ept_remote :: u32
  ept_chan :: "hptr option"

text \<open>
  \<open>td_hlist\<close> names the device's handle list in the kernel state.  \<open>td_waits\<close> says, for each coming
  wait on the transmit queue, whether \<^verbatim>\<open>tx_stop\<close> is set when it wakes.  \<open>td_sent\<close> collects what was
  written to the normal world's buffers, with the descriptor head and the length reported.
\<close>

record tipc_dev =
  td_state :: vdev_state
  td_devid :: u32
  td_guest :: u32
  td_uuid :: "uuid_ref option"
  td_txq :: vqueue
  td_rxq :: vqueue
  td_epts :: "tipc_ept list"
  td_inuse :: bitmap
  td_have_handles :: bool
  td_hlist :: nat
  td_rx_thread :: bool
  td_tx_thread :: bool
  td_tx_stop :: bool
  td_rx_stop :: bool
  td_vm :: vmspace
  td_waits :: "bool list"
  td_sent :: "(u16 \<times> byte list) list"

interpretation eslots: slot_table "bitmap_wf TIPC_ADDR_MAX_NUM" bitmap_test bitmap_set bitmap_clear
  "\<lambda>b. bitmap_ffz b TIPC_ADDR_MAX_NUM" TIPC_ADDR_MAX_NUM TIPC_ADDR_BASE
  by (intro slot_table.intro bitmap_slot_bitmap slot_table_axioms.intro)
     (simp_all add: TIPC_ADDR_BASE_def TIPC_ADDR_MAX_NUM_def)

section \<open>Endpoints\<close>

definition addr_to_slot :: "u32 \<Rightarrow> u32" where
  "addr_to_slot addr = addr - TIPC_ADDR_BASE"

definition slot_to_addr :: "u32 \<Rightarrow> u32" where
  "slot_to_addr slot = slot + TIPC_ADDR_BASE"

definition alloc_local_addr :: "tipc_dev \<Rightarrow> u32 \<Rightarrow> hptr \<Rightarrow> u32 \<times> tipc_dev" where
  "alloc_local_addr dev remote chan =
     (let slot = bitmap_ffz (td_inuse dev) TIPC_ADDR_MAX_NUM in
      if slot \<ge> 0 then
        (slot_to_addr (of_int slot),
         dev\<lparr>td_inuse := bitmap_set (td_inuse dev) (nat slot),
             td_epts := (td_epts dev)[nat slot := \<lparr>ept_remote = remote, ept_chan = Some chan\<rparr>]\<rparr>)
      else (0, dev))"

text \<open>An endpoint pointer is the index of the endpoint.\<close>

definition lookup_ept :: "tipc_dev \<Rightarrow> u32 \<Rightarrow> nat option" where
  "lookup_ept dev local =
     (let slot = unat (addr_to_slot local) in
      if slot < TIPC_ADDR_MAX_NUM then
        (if bitmap_test (td_inuse dev) slot then Some slot else None)
      else None)"

definition ept_to_addr :: "nat \<Rightarrow> u32" where
  "ept_to_addr ept = slot_to_addr (of_nat ept)"

definition free_local_addr :: "tipc_dev \<Rightarrow> u32 \<Rightarrow> tipc_dev" where
  "free_local_addr dev local =
     (let slot = unat (addr_to_slot local) in
      if slot < TIPC_ADDR_MAX_NUM then
        dev\<lparr>td_inuse := bitmap_clear (td_inuse dev) slot,
            td_epts := (td_epts dev)[slot := \<lparr>ept_remote = 0, ept_chan = None\<rparr>]\<rparr>
      else dev)"

text \<open>The cookie of a bridged channel: 0 for NULL, one more than the index for an endpoint.\<close>

definition ept_cookie :: "nat option \<Rightarrow> u32" where
  "ept_cookie e = (case e of None \<Rightarrow> 0 | Some i \<Rightarrow> of_nat (Suc i))"

definition cookie_ept :: "u32 \<Rightarrow> nat option" where
  "cookie_ept c = (if c = 0 then None else Some (unat c - 1))"

definition handle_set_cookie :: "hptr \<Rightarrow> u32 \<Rightarrow> kern \<Rightarrow> kern option" where
  "handle_set_cookie hp c k = upd_handle hp (\<lambda>h. h\<lparr>h_cookie := c\<rparr>) k"

definition handle_get_cookie :: "hptr \<Rightarrow> kern \<Rightarrow> u32 option" where
  "handle_get_cookie hp k = map_option h_cookie (get_handle k hp)"

section \<open>Sending\<close>

definition le16_bytes :: "u16 \<Rightarrow> byte list" where
  "le16_bytes w = [ucast w, ucast (drop_bit 8 w)]"

definition le16_of :: "byte list \<Rightarrow> u16" where
  "le16_of b = (case b of x # y # _ \<Rightarrow> ucast x OR push_bit 8 (ucast y) | _ \<Rightarrow> 0)"

definition tipc_hdr_bytes :: "u32 \<Rightarrow> u32 \<Rightarrow> u16 \<Rightarrow> byte list" where
  "tipc_hdr_bytes src dst len =
     le32_bytes src @ le32_bytes dst @ le32_bytes 0 @ le16_bytes len @ le16_bytes 0"

type_synonym tipc_data_cb = "nat \<Rightarrow> kern \<Rightarrow> (int \<times> byte list \<times> kern) option"

definition empty_iovs :: "nat \<Rightarrow> vqueue_iovs" where
  "empty_iovs n = \<lparr>vi_cnt = n, vi_used = 0, vi_len = 0, vi_phys = replicate n 0,
     vi_iovs = replicate n \<lparr>vi_base = None, vi_sz = 0\<rparr>\<rparr>"

text \<open>The loop that takes a transmit buffer or waits for one; the code is \<^term>\<open>NO_ERROR\<close> when it has one.\<close>

fun tx_get_buf :: "bool list \<Rightarrow> vqueue \<Rightarrow> vqueue_buf \<Rightarrow> bool \<Rightarrow> bool
    \<Rightarrow> (int option \<times> vqueue_buf \<times> vqueue \<times> bool list \<times> bool) option" where
  "tx_get_buf [] vq buf wait stop = do {
     (ret, buf, vq) \<leftarrow> vqueue_get_avail_buf vq buf;
     if ret = NO_ERROR then Some (Some NO_ERROR, buf, vq, [], stop)
     else if ret \<noteq> ERR_NOT_ENOUGH_BUFFER \<or> \<not> wait then Some (Some ret, buf, vq, [], stop)
     else Some (None, buf, vq, [], stop) }"
| "tx_get_buf (s # ws) vq buf wait stop = do {
     (ret, buf, vq) \<leftarrow> vqueue_get_avail_buf vq buf;
     if ret = NO_ERROR then Some (Some NO_ERROR, buf, vq, s # ws, stop)
     else if ret \<noteq> ERR_NOT_ENOUGH_BUFFER \<or> \<not> wait then Some (Some ret, buf, vq, s # ws, stop)
     else if s then Some (Some ERR_CHANNEL_CLOSED, buf, vq, ws, s)
     else tx_get_buf ws vq buf wait s }"

definition tipc_send_data :: "tipc_dev \<Rightarrow> u32 \<Rightarrow> u32 \<Rightarrow> tipc_data_cb option \<Rightarrow> u16 \<Rightarrow> bool \<Rightarrow> kern
    \<Rightarrow> (int option \<times> tipc_dev \<times> kern) option" where
  "tipc_send_data dev local remote cb data_len wait k =
     (case cb of None \<Rightarrow> Some (Some ERR_INVALID_ARGS, dev, k)
      | Some f \<Rightarrow> do {
        let ttl_len = sizeof_tipc_hdr + unat data_len;
        (got, buf, vq, ws, stop) \<leftarrow> tx_get_buf (td_waits dev) (td_txq dev)
           \<lparr>vb_head = 0, vb_in = empty_iovs 0, vb_out = empty_iovs 1\<rparr> wait (td_tx_stop dev);
        let dev = dev\<lparr>td_txq := vq, td_waits := ws, td_tx_stop := stop\<rparr>;
        if got \<noteq> Some NO_ERROR then Some (got, dev, k)
        else do {
          (ret, dev, k) \<leftarrow>
            (if vi_used (vb_out buf) = 0 then Some (ERR_NOT_ENOUGH_BUFFER, dev, k)
             else if sizeof_tipc_hdr > vi_sz (vi_iovs (vb_out buf) ! 0)
             then Some (ERR_NOT_ENOUGH_BUFFER, dev, k)
             else do {
               (ret, iovs, vm) \<leftarrow> vqueue_map_iovs (vb_out buf) (td_guest dev) (td_vm dev);
               let dev = dev\<lparr>td_vm := vm\<rparr>;
               if ret \<noteq> NO_ERROR then Some (ret, dev, k)
               else do {
                 let room = vi_sz (vi_iovs iovs ! 0);
                 let len = (if ttl_len > room then unat (of_nat (room - sizeof_tipc_hdr) :: u16)
                            else unat data_len);
                 (ret, data, k) \<leftarrow> f len k;
                 let ret = (if ret \<ge> 0 then ret + int sizeof_tipc_hdr else ret);
                 (iovs, vm) \<leftarrow> vqueue_unmap_iovs iovs (td_vm dev);
                 Some (ret, dev\<lparr>td_vm := vm, td_sent := td_sent dev @
                   [(vb_head buf, tipc_hdr_bytes local remote data_len @ data)]\<rparr>, k) } });
          let (ret, vq) = vqueue_add_buf (td_txq dev) buf (of_int ret);
          Some (Some ret, dev\<lparr>td_txq := vq\<rparr>, k) } })"

definition send_buf_cb :: "byte list \<Rightarrow> tipc_data_cb" where
  "send_buf_cb data sz k = do {
     _ \<leftarrow> ASSERT (sz \<le> length data);
     Some (int sz, take sz data, k) }"

definition tipc_send_buf :: "tipc_dev \<Rightarrow> u32 \<Rightarrow> u32 \<Rightarrow> byte list \<Rightarrow> bool \<Rightarrow> kern
    \<Rightarrow> (int option \<times> tipc_dev \<times> kern) option" where
  "tipc_send_buf dev local remote data wait k =
     tipc_send_data dev local remote (Some (send_buf_cb data)) (of_nat (length data)) wait k"

definition go_online :: "tipc_dev \<Rightarrow> kern \<Rightarrow> (int option \<times> tipc_dev \<times> kern) option" where
  "go_online dev k =
     tipc_send_buf dev TIPC_CTRL_ADDR TIPC_CTRL_ADDR
       (le32_bytes TIPC_CTRL_MSGTYPE_GO_ONLINE @ le32_bytes 0) True k"

definition send_conn_rsp :: "tipc_dev \<Rightarrow> u32 \<Rightarrow> u32 \<Rightarrow> u32 \<Rightarrow> u32 \<Rightarrow> u32 \<Rightarrow> kern
    \<Rightarrow> (int option \<times> tipc_dev \<times> kern) option" where
  "send_conn_rsp dev local remote status msg_sz msg_cnt k =
     tipc_send_buf dev TIPC_CTRL_ADDR TIPC_CTRL_ADDR
       (le32_bytes TIPC_CTRL_MSGTYPE_CONN_RSP @ le32_bytes 20 @
        le32_bytes remote @ le32_bytes status @ le32_bytes local @ le32_bytes msg_sz @ le32_bytes msg_cnt)
       True k"

definition send_disc_req :: "tipc_dev \<Rightarrow> u32 \<Rightarrow> u32 \<Rightarrow> kern \<Rightarrow> (int option \<times> tipc_dev \<times> kern) option" where
  "send_disc_req dev local remote k =
     tipc_send_buf dev local TIPC_CTRL_ADDR
       (le32_bytes TIPC_CTRL_MSGTYPE_DISC_REQ @ le32_bytes 4 @ le32_bytes remote) True k"

section \<open>Requests from the normal world\<close>

text \<open>\<^verbatim>\<open>strncpy\<close> into an array of \<open>n\<close> bytes: the rest is zero.\<close>

definition strncpy :: "byte list \<Rightarrow> nat \<Rightarrow> byte list" where
  "strncpy s n = (let t = takeWhile (\<lambda>b. b \<noteq> 0) (take n s) in t @ replicate (n - length t) 0)"

definition handle_conn_req :: "tipc_dev \<Rightarrow> u32 \<Rightarrow> byte list \<Rightarrow> kern
    \<Rightarrow> (int option \<times> tipc_dev \<times> kern) option" where
  "handle_conn_req dev remote ns_req k = do {
     let req = strncpy ns_req TIPC_MAX_SRV_NAME_LEN;
     (err, chan, k) \<leftarrow> ipc_port_connect_async (td_guest dev) (td_uuid dev) req TIPC_MAX_SRV_NAME_LEN 0 k;
     (local, chan, dev, k) \<leftarrow>
       (if err = NO_ERROR then do {
          hp \<leftarrow> chan;
          let (local, dev) = alloc_local_addr dev remote hp;
          if local = 0 then do {
            k \<leftarrow> handle_close hp k;
            Some (local, None, dev, k) }
          else Some (local, Some hp, dev, k) }
        else Some (0, None, dev, k));
     (case chan of
        Some hp \<Rightarrow> do {
          k \<leftarrow> handle_set_cookie hp (ept_cookie (lookup_ept dev local)) k;
          k \<leftarrow> handle_list_add (td_hlist dev) hp k;
          Some (Some NO_ERROR, dev\<lparr>td_have_handles := True\<rparr>, k) }
      | None \<Rightarrow> send_conn_rsp dev local remote (of_int err) 0 0 k) }"

definition handle_disc_req :: "tipc_dev \<Rightarrow> u32 \<Rightarrow> byte list \<Rightarrow> kern
    \<Rightarrow> (int \<times> tipc_dev \<times> kern) option" where
  "handle_disc_req dev remote ns_req k = do {
     let target = le32_of (take 4 ns_req);
     let ept = lookup_ept dev target;
     let ept = (case ept of
         Some i \<Rightarrow> if ept_remote (td_epts dev ! i) = remote then ept
                   else find (\<lambda>s. bitmap_test (td_inuse dev) s \<and> ept_remote (td_epts dev ! s) = remote)
                          [0..<TIPC_ADDR_MAX_NUM]
       | None \<Rightarrow> find (\<lambda>s. bitmap_test (td_inuse dev) s \<and> ept_remote (td_epts dev ! s) = remote)
                          [0..<TIPC_ADDR_MAX_NUM]);
     (case ept of
        None \<Rightarrow> Some (NO_ERROR, dev, k)
      | Some i \<Rightarrow> do {
          k \<leftarrow> (case ept_chan (td_epts dev ! i) of
                  None \<Rightarrow> Some k
                | Some hp \<Rightarrow> do {
                    k \<leftarrow> handle_list_del (td_hlist dev) hp k;
                    k \<leftarrow> handle_set_cookie hp 0 k;
                    handle_close hp k });
          Some (NO_ERROR, free_local_addr dev (ept_to_addr i), k) }) }"

definition handle_ctrl_msg :: "tipc_dev \<Rightarrow> u32 \<Rightarrow> byte list \<Rightarrow> kern
    \<Rightarrow> (int option \<times> tipc_dev \<times> kern) option" where
  "handle_ctrl_msg dev remote ns_data k =
     (let msg_len = length ns_data in
      if msg_len < sizeof_ctrl_hdr then Some (Some ERR_NOT_VALID, dev, k)
      else
        let msg_type = le32_of (take 4 ns_data);
            msg_body_len = unat (le32_of (take 4 (drop 4 ns_data)));
            ns_msg_body = drop sizeof_ctrl_hdr ns_data in
        if sizeof_ctrl_hdr + msg_body_len \<noteq> msg_len then Some (Some ERR_NOT_VALID, dev, k)
        else if msg_type = TIPC_CTRL_MSGTYPE_CONN_REQ then
          (if msg_body_len \<noteq> TIPC_MAX_SRV_NAME_LEN then Some (Some ERR_NOT_VALID, dev, k)
           else handle_conn_req dev remote ns_msg_body k)
        else if msg_type = TIPC_CTRL_MSGTYPE_DISC_REQ then
          (if msg_body_len \<noteq> 4 then Some (Some ERR_NOT_VALID, dev, k)
           else do {
             (ret, dev, k) \<leftarrow> handle_disc_req dev remote ns_msg_body k;
             Some (Some ret, dev, k) })
        else Some (Some ERR_NOT_VALID, dev, k))"

text \<open>The user memory of \<^const>\<open>ipc_send_msg\<close> is not used for a kernel vector.\<close>

definition no_umem :: umem where
  "no_umem = \<lparr>udata = (\<lambda>_. 0), ureadable = (\<lambda>_. False), uwritable = (\<lambda>_. False)\<rparr>"

definition kmsg_one :: "byte list \<Rightarrow> ipc_msg_kern" where
  "kmsg_one data = \<lparr>kmsg_num_iov = 1, kmsg_iov = Some [\<lparr>kbase = Some data, klen = length data\<rparr>],
     kmsg_num_handles = 0\<rparr>"

definition handle_chan_msg :: "tipc_dev \<Rightarrow> u32 \<Rightarrow> u32 \<Rightarrow> byte list \<Rightarrow> kern
    \<Rightarrow> (int \<times> tipc_dev \<times> kern) option" where
  "handle_chan_msg dev remote local ns_data k =
     (case lookup_ept dev local of
        None \<Rightarrow> Some (ERR_NOT_FOUND, dev, k)
      | Some i \<Rightarrow>
          if ept_remote (td_epts dev ! i) \<noteq> remote then Some (ERR_NOT_FOUND, dev, k)
          else case ept_chan (td_epts dev ! i) of
            None \<Rightarrow> Some (ERR_NOT_FOUND, dev, k)
          | Some hp \<Rightarrow> do {
              (ret, k) \<leftarrow> ipc_send_msg no_umem (Some hp) (Some (kmsg_one ns_data)) k;
              Some (ret, dev, k) })"

text \<open>\<open>ns\<close> is the memory behind the first buffer of the chain, as it is read.\<close>

definition handle_rx_msg :: "tipc_dev \<Rightarrow> vqueue_buf \<Rightarrow> (nat \<Rightarrow> byte) \<Rightarrow> kern
    \<Rightarrow> (int option \<times> tipc_dev \<times> kern) option" where
  "handle_rx_msg dev buf ns k =
     (if vi_used (vb_in buf) = 0 then Some (Some ERR_INVALID_ARGS, dev, k)
      else do {
        (ret, iovs, vm) \<leftarrow> vqueue_map_iovs (vb_in buf) (td_guest dev) (td_vm dev);
        let dev = dev\<lparr>td_vm := vm\<rparr>;
        if ret \<noteq> 0 then Some (Some ret, dev, k)
        else do {
          let len = vi_sz (vi_iovs iovs ! 0);
          (ret, dev, k) \<leftarrow>
            (if len < sizeof_tipc_hdr then Some (Some ERR_INVALID_ARGS, dev, k)
             else
               let hdr = map ns [0..<sizeof_tipc_hdr];
                   ns_data_len = unat (le16_of (take 2 (drop 12 hdr)));
                   src_addr = le32_of (take 4 hdr);
                   dst_addr = le32_of (take 4 (drop 4 hdr)) in
               if ns_data_len + sizeof_tipc_hdr \<noteq> len then Some (Some ERR_INVALID_ARGS, dev, k)
               else
                 let ns_data = map ns [sizeof_tipc_hdr..<len] in
                 if dst_addr = TIPC_CTRL_ADDR then handle_ctrl_msg dev src_addr ns_data k
                 else do {
                   (ret, dev, k) \<leftarrow> handle_chan_msg dev src_addr dst_addr ns_data k;
                   Some (Some ret, dev, k) });
          (iovs, vm) \<leftarrow> vqueue_unmap_iovs iovs (td_vm dev);
          Some (ret, dev\<lparr>td_vm := vm\<rparr>, k) } })"

text \<open>
  One turn of \<^verbatim>\<open>tipc_rx_thread_func\<close> after a wake-up, with the contents of the buffer it finds.
  The result says whether the thread goes on; \<^term>\<open>None\<close> in it is a thread blocked in the send.
\<close>

definition rx_buf :: vqueue_buf where
  "rx_buf = \<lparr>vb_head = 0, vb_in = empty_iovs 1, vb_out = empty_iovs 0\<rparr>"

definition tipc_rx_turn :: "tipc_dev \<Rightarrow> vqueue_buf \<Rightarrow> (nat \<Rightarrow> byte) \<Rightarrow> kern
    \<Rightarrow> (bool option \<times> vqueue_buf \<times> tipc_dev \<times> kern) option" where
  "tipc_rx_turn dev buf ns k = do {
     (ret, buf, vq) \<leftarrow> vqueue_get_avail_buf (td_rxq dev) buf;
     let dev = dev\<lparr>td_rxq := vq\<rparr>;
     if ret = ERR_CHANNEL_CLOSED then Some (Some False, buf, dev, k)
     else if ret = ERR_NOT_ENOUGH_BUFFER then Some (Some True, buf, dev, k)
     else do {
       (ret, dev, k) \<leftarrow> (if ret = NO_ERROR then handle_rx_msg dev buf ns k else Some (Some ret, dev, k));
       (case ret of
          None \<Rightarrow> Some (None, buf, dev, k)
        | Some r \<Rightarrow>
            let (ret, vq) = vqueue_add_buf (td_rxq dev) buf (of_int r);
                dev = dev\<lparr>td_rxq := vq\<rparr> in
            if ret = ERR_CHANNEL_CLOSED then Some (Some False, buf, dev, k)
            else if ret \<noteq> NO_ERROR then None
            else Some (Some True, buf, dev, k)) } }"

fun tipc_rx_thread_func :: "(nat \<Rightarrow> byte) list \<Rightarrow> tipc_dev \<Rightarrow> vqueue_buf \<Rightarrow> kern \<Rightarrow> (tipc_dev \<times> kern) option" where
  "tipc_rx_thread_func [] dev buf k = Some (dev, k)"
| "tipc_rx_thread_func (ns # wakes) dev buf k =
     (if td_rx_stop dev then Some (dev, k)
      else do {
        (go, buf, dev, k) \<leftarrow> tipc_rx_turn dev buf ns k;
        if go = Some True then tipc_rx_thread_func wakes dev buf k else Some (dev, k) })"

section \<open>Events of the channels\<close>

text \<open>The data callback: read the message into the buffer, then retire it.\<close>

definition tx_data_cb :: "hptr \<Rightarrow> u32 \<Rightarrow> tipc_data_cb" where
  "tx_data_cb chan msg_id buf_len k = do {
     (rc, d) \<leftarrow> ipc_read_msg no_umem (Some chan) msg_id 0 (Some (kmsg_one (replicate buf_len 0))) k;
     (_, k) \<leftarrow> ipc_put_msg (Some chan) msg_id k;
     Some (rc, (case d of
                  IPC_MSG_BUFFER_KERNEL km \<Rightarrow>
                    (case kmsg_iov km of None \<Rightarrow> [] | Some vs \<Rightarrow> take (nat rc) (kvec_bytes vs))
                | _ \<Rightarrow> []), k) }"

text \<open>\<open>fuel\<close> bounds the messages forwarded in one go.\<close>

fun handle_tx_msg_loop :: "nat \<Rightarrow> tipc_dev \<Rightarrow> hptr \<Rightarrow> u32 \<Rightarrow> kern
    \<Rightarrow> (int option \<times> tipc_dev \<times> kern) option" where
  "handle_tx_msg_loop 0 dev chan remote k = Some (None, dev, k)"
| "handle_tx_msg_loop (Suc fuel) dev chan remote k = do {
     (ret, nfo, k) \<leftarrow> ipc_get_msg (Some chan) k;
     if ret = ERR_NO_MSG then Some (Some 0, dev, k)
     else if ret \<noteq> NO_ERROR then None
     else do {
       i \<leftarrow> nfo;
       (ret, dev, k) \<leftarrow> tipc_send_data dev 0 remote (Some (tx_data_cb chan (info_id i)))
                          (ucast (info_len i)) True k;
       if ret = None then Some (None, dev, k)
       else handle_tx_msg_loop fuel dev chan remote k } }"

definition handle_tx_msg :: "nat \<Rightarrow> tipc_dev \<Rightarrow> hptr \<Rightarrow> kern \<Rightarrow> (int option \<times> tipc_dev \<times> kern) option" where
  "handle_tx_msg fuel dev chan k = do {
     c \<leftarrow> handle_get_cookie chan k;
     (case cookie_ept c of
        None \<Rightarrow> Some (Some 0, dev, k)
      | Some e \<Rightarrow> handle_tx_msg_loop fuel dev chan (ept_remote (td_epts dev ! e)) k) }"

definition handle_hup :: "tipc_dev \<Rightarrow> hptr \<Rightarrow> kern \<Rightarrow> (int option \<times> tipc_dev \<times> kern) option" where
  "handle_hup dev chan k = do {
     c \<leftarrow> handle_get_cookie chan k;
     (case cookie_ept c of
        None \<Rightarrow> Some (Some 0, dev, k)
      | Some e \<Rightarrow> do {
          let remote = ept_remote (td_epts dev ! e);
          let local = ept_to_addr e;
          k \<leftarrow> handle_list_del (td_hlist dev) chan k;
          k \<leftarrow> handle_set_cookie chan 0 k;
          k \<leftarrow> handle_close chan k;
          let dev = free_local_addr dev local;
          send_disc_req dev local remote k }) }"

definition handle_ready :: "tipc_dev \<Rightarrow> hptr \<Rightarrow> kern \<Rightarrow> (int option \<times> tipc_dev \<times> kern) option" where
  "handle_ready dev chan k = do {
     c \<leftarrow> handle_get_cookie chan k;
     (case cookie_ept c of
        None \<Rightarrow> Some (Some 0, dev, k)
      | Some e \<Rightarrow> send_conn_rsp dev (ept_to_addr e) (ept_remote (td_epts dev ! e)) 0
                    (of_nat IPC_CHAN_MAX_BUF_SIZE) 1 k) }"

text \<open>One event of \<^verbatim>\<open>handle_tx\<close>, and the loop; \<open>fuel\<close> bounds the events, \<open>ev\<close> is the stack event.\<close>

definition handle_tx_event :: "nat \<Rightarrow> tipc_dev \<Rightarrow> hptr \<Rightarrow> u32 \<Rightarrow> kern
    \<Rightarrow> (int option \<times> tipc_dev \<times> kern) option" where
  "handle_tx_event fuel dev chan chan_event k = do {
     (ret, dev, k) \<leftarrow>
       (if chan_event AND IPC_HANDLE_POLL_READY \<noteq> 0 then handle_ready dev chan k
        else if chan_event AND IPC_HANDLE_POLL_MSG \<noteq> 0 then handle_tx_msg fuel dev chan k
        else if chan_event AND IPC_HANDLE_POLL_HUP \<noteq> 0 then handle_hup dev chan k
        else Some (Some 0, dev, k));
     if ret = None then Some (None, dev, k)
     else do {
       k \<leftarrow> handle_decref chan k;
       Some (Some 0, dev, k) } }"

fun handle_tx :: "nat \<Rightarrow> nat \<Rightarrow> wait_env \<Rightarrow> nat \<Rightarrow> tipc_dev \<Rightarrow> kern
    \<Rightarrow> (int option \<times> tipc_dev \<times> kern) option" where
  "handle_tx 0 n env ev dev k = Some (None, dev, k)"
| "handle_tx (Suc fuel) n env ev dev k = do {
     (ret, found, env, k) \<leftarrow> handle_list_wait env ev (td_hlist dev) k;
     (case ret of
        None \<Rightarrow> Some (None, dev, k)
      | Some r \<Rightarrow>
          if r = ERR_NOT_FOUND then Some (Some 0, dev, k)
          else if r < 0 then None
          else do {
            (chan, chan_event) \<leftarrow> found;
            _ \<leftarrow> ASSERT (ipc_is_channel chan);
            (ret, dev, k) \<leftarrow> handle_tx_event n dev chan chan_event k;
            if ret = None then Some (None, dev, k)
            else handle_tx fuel n env ev dev k }) }"

text \<open>
  \<^verbatim>\<open>tipc_tx_thread_func\<close>: each element of the first argument is a wake-up by \<^verbatim>\<open>have_handles\<close>, with the
  bounds, the environment and the stack event of the \<^const>\<open>handle_tx\<close> that follows it; when they are used
  up the thread is still waiting.
\<close>

fun tipc_tx_thread_func :: "(nat \<times> nat \<times> wait_env \<times> nat) list \<Rightarrow> tipc_dev \<Rightarrow> kern
    \<Rightarrow> (int option \<times> tipc_dev \<times> kern) option" where
  "tipc_tx_thread_func [] dev k = Some (if td_tx_stop dev then Some 0 else None, dev, k)"
| "tipc_tx_thread_func ((fuel, n, env, ev) # wakes) dev k =
     (if td_tx_stop dev then Some (Some 0, dev, k)
      else do {
        (ret, dev, k) \<leftarrow> handle_tx fuel n env ev (dev\<lparr>td_have_handles := False\<rparr>) k;
        if ret = None then Some (None, dev, k) else tipc_tx_thread_func wakes dev k })"

section \<open>Device life cycle\<close>

text \<open>The loop of \<^verbatim>\<open>tipc_dev_reset\<close> that closes the channels.\<close>

fun reset_close_loop :: "nat list \<Rightarrow> tipc_dev \<Rightarrow> kern \<Rightarrow> (tipc_dev \<times> kern) option" where
  "reset_close_loop [] dev k = Some (dev, k)"
| "reset_close_loop (slot # ss) dev k =
     (if \<not> bitmap_test (td_inuse dev) slot then reset_close_loop ss dev k
      else case ept_chan (td_epts dev ! slot) of
        None \<Rightarrow> reset_close_loop ss dev k
      | Some hp \<Rightarrow> do {
          k \<leftarrow> handle_list_del (td_hlist dev) hp k;
          k \<leftarrow> handle_set_cookie hp 0 k;
          k \<leftarrow> handle_close hp k;
          reset_close_loop ss (free_local_addr dev (ept_to_addr slot)) k })"

text \<open>\<open>rx_join\<close> and \<open>tx_join\<close> are what the two \<^verbatim>\<open>thread_join\<close> calls return.\<close>

definition tipc_dev_reset :: "int \<Rightarrow> int \<Rightarrow> tipc_dev \<Rightarrow> kern \<Rightarrow> (int \<times> tipc_dev \<times> kern) option" where
  "tipc_dev_reset rx_join tx_join dev k =
     (if td_state dev = VDEV_STATE_RESET then Some (NO_ERROR, dev, k)
      else do {
        let dev = dev\<lparr>td_rx_stop := True, td_rxq := vqueue_signal_avail (td_rxq dev)\<rparr>;
        _ \<leftarrow> ASSERT (rx_join = NO_ERROR);
        let dev = dev\<lparr>td_rx_thread := False, td_rx_stop := False, td_tx_stop := True\<rparr>;
        (dev, k) \<leftarrow> reset_close_loop [0..<TIPC_ADDR_MAX_NUM] dev k;
        let dev = dev\<lparr>td_have_handles := True, td_txq := vqueue_signal_avail (td_txq dev)\<rparr>;
        _ \<leftarrow> ASSERT (tx_join = NO_ERROR);
        let dev = dev\<lparr>td_tx_thread := False, td_tx_stop := False\<rparr>;
        let (rxq, vm) = vqueue_destroy (td_rxq dev) (td_vm dev);
        let (txq, vm) = vqueue_destroy (td_txq dev) vm;
        Some (NO_ERROR, dev\<lparr>td_rxq := rxq, td_txq := txq, td_vm := vm, td_state := VDEV_STATE_RESET\<rparr>, k) })"

record fw_vring =
  fv_da :: u32
  fv_align :: u32
  fv_num :: u32
  fv_notifyid :: u32
  fv_reserved :: u32

record tipc_vdev_descr =
  ds_type :: u32
  ds_id :: u32
  ds_num_of_vrings :: byte
  ds_status :: byte
  ds_vrings :: "fw_vring list"

definition TIPC_VQ_NUM :: nat where "TIPC_VQ_NUM = 2"

definition validate_descr :: "tipc_vdev_descr \<Rightarrow> int" where
  "validate_descr d =
     (if ds_type d \<noteq> 3 then ERR_INVALID_ARGS
      else if ds_id d \<noteq> 13 then ERR_INVALID_ARGS
      else if unat (ds_num_of_vrings d) \<noteq> TIPC_VQ_NUM then ERR_INVALID_ARGS
      else if ds_status d \<noteq> 1 OR 2 OR 4 then ERR_INVALID_ARGS
      else NO_ERROR)"

text \<open>The queue of ring \<open>i\<close>: 0 transmits, 1 receives.\<close>

definition td_vq :: "tipc_dev \<Rightarrow> nat \<Rightarrow> vqueue" where
  "td_vq dev i = (if i = 0 then td_txq dev else td_rxq dev)"

definition td_set_vq :: "nat \<Rightarrow> vqueue \<Rightarrow> tipc_dev \<Rightarrow> tipc_dev" where
  "td_set_vq i vq dev = (if i = 0 then dev\<lparr>td_txq := vq\<rparr> else dev\<lparr>td_rxq := vq\<rparr>)"

fun probe_undo :: "nat \<Rightarrow> tipc_dev \<Rightarrow> tipc_dev" where
  "probe_undo 0 dev = dev"
| "probe_undo (Suc i) dev =
     (let (vq, vm) = vqueue_destroy (td_vq dev i) (td_vm dev)
      in probe_undo i ((td_set_vq i vq dev)\<lparr>td_vm := vm\<rparr>))"

fun probe_vrings :: "nat \<Rightarrow> fw_vring list \<Rightarrow> tipc_dev \<Rightarrow> int \<times> tipc_dev" where
  "probe_vrings i [] dev = (NO_ERROR, dev)"
| "probe_vrings i (r # rs) dev =
     (let pa64 = (push_bit 32 (ucast (fv_reserved r)) OR ucast (fv_da r)) :: u64;
          (ret, vq, vm) = vqueue_init (td_vq dev i) (fv_notifyid r) pa64 (fv_num r) (ucast (fv_align r))
                            (td_guest dev) (td_vm dev);
          dev = (td_set_vq i vq dev)\<lparr>td_vm := vm\<rparr> in
      if ret \<noteq> 0 then (ret, probe_undo i dev)
      else probe_vrings (Suc i) rs dev)"

text \<open>\<open>rx_ok\<close> and \<open>tx_ok\<close>: whether \<^verbatim>\<open>thread_create\<close> returns a thread.\<close>

definition tipc_dev_probe :: "bool \<Rightarrow> bool \<Rightarrow> tipc_dev \<Rightarrow> tipc_vdev_descr \<Rightarrow> kern
    \<Rightarrow> (int option \<times> tipc_dev \<times> kern) option" where
  "tipc_dev_probe rx_ok tx_ok dev d k =
     (if td_state dev \<noteq> VDEV_STATE_RESET then Some (Some ERR_BAD_STATE, dev, k)
      else if validate_descr d \<noteq> NO_ERROR then Some (Some (validate_descr d), dev, k)
      else case probe_vrings 0 (take (unat (ds_num_of_vrings d)) (ds_vrings d)) dev of
        (ret, dev) \<Rightarrow>
        if ret \<noteq> NO_ERROR then Some (Some ret, dev, k)
        else do {
          let dev = dev\<lparr>td_rx_thread := rx_ok, td_tx_thread := tx_ok\<rparr>;
          (ret, dev, k) \<leftarrow> go_online dev k;
          Some (ret, (if ret = Some NO_ERROR then dev\<lparr>td_state := VDEV_STATE_ACTIVE\<rparr> else dev), k) })"

definition tipc_vdev_kick_vq :: "tipc_dev \<Rightarrow> u32 \<Rightarrow> int \<times> tipc_dev" where
  "tipc_vdev_kick_vq dev vqid =
     (if vqid = vq_id (td_txq dev) then (0, dev\<lparr>td_txq := vqueue_signal_avail (td_txq dev)\<rparr>)
      else if vqid = vq_id (td_rxq dev) then (0, dev\<lparr>td_rxq := vqueue_signal_avail (td_rxq dev)\<rparr>)
      else (ERR_NOT_FOUND, dev))"

text \<open>
  The device \<^verbatim>\<open>create_tipc_device\<close> fills in, all other fields zero: \<open>l\<close> names its handle list, the last
  four arguments are its surroundings (the waits on the transmit queue, the address space, and the
  shared memory of the two queues).
\<close>

definition zero_vqueue :: "(nat \<Rightarrow> vring_mem) \<Rightarrow> vqueue" where
  "zero_vqueue mem = \<lparr>vq_id = 0, vq_num = 0, vq_region = None, vq_vring_sz = 0, vq_last_avail_idx = 0,
     vq_avail_event = False, vq_used_flags = 0, vq_used_idx = 0, vq_used_ring = [], vq_mem = mem, vq_clock = 0\<rparr>"

definition new_tipc_dev :: "u32 \<Rightarrow> uuid_ref option \<Rightarrow> nat \<Rightarrow> bool list \<Rightarrow> vmspace \<Rightarrow> (nat \<Rightarrow> vring_mem)
    \<Rightarrow> (nat \<Rightarrow> vring_mem) \<Rightarrow> tipc_dev" where
  "new_tipc_dev guest uuid l waits vm tx_mem rx_mem =
     \<lparr>td_state = VDEV_STATE_RESET, td_devid = 0, td_guest = guest, td_uuid = uuid,
      td_txq = zero_vqueue tx_mem, td_rxq = zero_vqueue rx_mem,
      td_epts = replicate TIPC_ADDR_MAX_NUM \<lparr>ept_remote = 0, ept_chan = None\<rparr>,
      td_inuse = bitmap_empty TIPC_ADDR_MAX_NUM, td_have_handles = False, td_hlist = l,
      td_rx_thread = False, td_tx_thread = False, td_tx_stop = False, td_rx_stop = False,
      td_vm = vm, td_waits = waits, td_sent = []\<rparr>"

text \<open>The descriptor template with the device number patched in as \<^verbatim>\<open>notifyid\<close>, at offset 8.\<close>

definition tipc_get_vdev_descr :: "byte list \<Rightarrow> u32 \<Rightarrow> byte list" where
  "tipc_get_vdev_descr descr devid = take 8 descr @ le32_bytes devid @ drop 12 descr"

end
