(* ===== verification/Endpoints.thy ===== *)
theory Endpoints
  imports TipcDev Protocol
begin

text \<open>
  The endpoint table of the bridge (\<^verbatim>\<open>tipc_dev.c\<close>) as a partial map from local addresses to a remote
  address and a channel, and what the normal world's messages can do to it and to the channels.
\<close>

section \<open>The table as a map\<close>

definition free_ept :: tipc_ept where
  "free_ept = \<lparr>ept_remote = 0, ept_chan = None\<rparr>"

definition ept_wf :: "tipc_dev \<Rightarrow> bool" where
  "ept_wf dev \<longleftrightarrow> bitmap_wf TIPC_ADDR_MAX_NUM (td_inuse dev) \<and> length (td_epts dev) = TIPC_ADDR_MAX_NUM \<and>
     (\<forall>i<TIPC_ADDR_MAX_NUM. if bitmap_test (td_inuse dev) i then ept_chan (td_epts dev ! i) \<noteq> None
        else td_epts dev ! i = free_ept)"

definition routes :: "tipc_dev \<Rightarrow> u32 \<Rightarrow> (u32 \<times> hptr) option" where
  "routes dev a = (case lookup_ept dev a of None \<Rightarrow> None
     | Some i \<Rightarrow> map_option (\<lambda>c. (ept_remote (td_epts dev ! i), c)) (ept_chan (td_epts dev ! i)))"

lemma ept_wf_new: "ept_wf (new_tipc_dev guest uuid l waits vm tx rx)"
  by (simp add: ept_wf_def new_tipc_dev_def free_ept_def bitmap_test_empty inv_intros)

lemma addr_to_slot_eq: "unat (addr_to_slot a) = eslots.slot a"
  by (simp add: addr_to_slot_def eslots.slot_def)

lemma ept_to_addr_addr: "ept_to_addr i = eslots.addr i"
  by (simp add: ept_to_addr_def slot_to_addr_def eslots.addr_def)

lemma lookup_ept_eq: "lookup_ept dev = eslots.tlookup (td_inuse dev)"
  by (rule ext) (simp add: lookup_ept_def eslots.tlookup_def addr_to_slot_eq Let_def)

lemma ept_to_addr_slot: "ept_to_addr (unat (addr_to_slot a)) = a"
  by (simp add: addr_to_slot_eq ept_to_addr_addr)

lemma ept_slot_addr: "i < TIPC_ADDR_MAX_NUM \<Longrightarrow> unat (addr_to_slot (ept_to_addr i)) = i"
  by (simp add: addr_to_slot_eq ept_to_addr_addr)

lemma lookup_ept_Some:
  "lookup_ept dev a = Some i \<longleftrightarrow> i < TIPC_ADDR_MAX_NUM \<and> bitmap_test (td_inuse dev) i \<and> a = ept_to_addr i"
  by (simp add: lookup_ept_eq eslots.tlookup_Some ept_to_addr_addr)

lemma ept_to_addr_nonzero: "i < TIPC_ADDR_MAX_NUM \<Longrightarrow> ept_to_addr i \<noteq> 0"
  by (simp add: ept_to_addr_addr eslots.addr_nonzero)

lemma ept_to_addr_eq:
  "i < TIPC_ADDR_MAX_NUM \<Longrightarrow> j < TIPC_ADDR_MAX_NUM \<Longrightarrow> ept_to_addr i = ept_to_addr j \<longleftrightarrow> i = j"
  by (simp add: ept_to_addr_addr eslots.addr_inject)

lemma routes_slot:
  assumes "i < TIPC_ADDR_MAX_NUM"
  shows "routes dev (ept_to_addr i) = (if bitmap_test (td_inuse dev) i
    then map_option (\<lambda>c. (ept_remote (td_epts dev ! i), c)) (ept_chan (td_epts dev ! i)) else None)"
  using assms by (simp add: routes_def lookup_ept_eq eslots.tlookup_def ept_to_addr_addr)

lemma routes_Some:
  "routes dev a = Some (r, c) \<longleftrightarrow> (\<exists>i. lookup_ept dev a = Some i \<and> ept_remote (td_epts dev ! i) = r \<and>
     ept_chan (td_epts dev ! i) = Some c)"
  by (auto simp: routes_def split: option.splits)

lemma routes_lookup:
  "ept_wf dev \<Longrightarrow> routes dev a = None \<longleftrightarrow> lookup_ept dev a = None"
  by (auto simp: routes_def ept_wf_def lookup_ept_Some split: option.splits)

definition route_of :: "tipc_ept \<Rightarrow> u32 \<times> hptr" where
  "route_of e = (ept_remote e, the (ept_chan e))"

lemma routes_table: "ept_wf dev \<Longrightarrow> routes dev = map_option route_of \<circ> eslots.table (td_inuse dev) (td_epts dev)"
  by (rule ext) (auto simp: routes_def lookup_ept_eq eslots.table_def eslots.tlookup_def ept_wf_def route_of_def)

lemma alloc_local_addr_ok:
  assumes "ept_wf dev" "alloc_local_addr dev remote chan = (a, dev')"
  shows "ept_wf dev'"
    and "if a = 0 then dev' = dev \<and> (\<forall>i<TIPC_ADDR_MAX_NUM. bitmap_test (td_inuse dev) i)
      else routes dev a = None \<and> routes dev' = (routes dev)(a \<mapsto> (remote, chan))"
proof -
  let ?s = "bitmap_ffz (td_inuse dev) TIPC_ADDR_MAX_NUM"
  have wf: "bitmap_wf TIPC_ADDR_MAX_NUM (td_inuse dev)" "length (td_epts dev) = TIPC_ADDR_MAX_NUM"
    using assms(1) by (simp_all add: ept_wf_def)
  have "ept_wf dev' \<and> (if a = 0 then dev' = dev \<and> (\<forall>i<TIPC_ADDR_MAX_NUM. bitmap_test (td_inuse dev) i)
      else routes dev a = None \<and> routes dev' = (routes dev)(a \<mapsto> (remote, chan)))"
  proof (cases "?s < 0")
    case True
    then show ?thesis using assms eslots.find_full [OF wf(1)] by (simp add: alloc_local_addr_def)
  next
    case False
    define n where "n = nat ?s"
    have n: "n < TIPC_ADDR_MAX_NUM" and s: "?s = int n" "0 \<le> ?s"
      using eslots.find_free [OF wf(1)] False by (simp_all add: n_def)
    have a: "a = eslots.addr n" and dev': "dev' = dev\<lparr>td_inuse := bitmap_set (td_inuse dev) n,
        td_epts := (td_epts dev)[n := \<lparr>ept_remote = remote, ept_chan = Some chan\<rparr>]\<rparr>"
      using assms(2) s by (simp_all add: alloc_local_addr_def slot_to_addr_def eslots.addr_def)
    have wf': "ept_wf dev'"
      using assms(1) n wf(2) unfolding ept_wf_def dev'
      by (auto simp: eslots.mark_used [OF wf(1)] inv_intros nth_list_update)
    have "routes dev' = (routes dev)(a \<mapsto> (remote, chan))" "routes dev a = None"
      using eslots.table_alloc [OF wf s(2)] unfolding routes_table [OF assms(1)] routes_table [OF wf']
      by (auto simp: a dev' n_def [symmetric] route_of_def fun_eq_iff)
    then show ?thesis using wf' n a by (simp add: eslots.addr_nonzero)
  qed
  then show "ept_wf dev'" and "if a = 0 then dev' = dev \<and> (\<forall>i<TIPC_ADDR_MAX_NUM. bitmap_test (td_inuse dev) i)
      else routes dev a = None \<and> routes dev' = (routes dev)(a \<mapsto> (remote, chan))"
    by blast+
qed

lemma free_local_addr_ok:
  assumes "ept_wf dev"
  shows "ept_wf (free_local_addr dev a)" and "routes (free_local_addr dev a) = (routes dev)(a := None)"
proof -
  let ?d = "free_local_addr dev a" and ?s = "eslots.slot a"
  have wf: "bitmap_wf TIPC_ADDR_MAX_NUM (td_inuse dev)" "length (td_epts dev) = TIPC_ADDR_MAX_NUM"
    using assms by (simp_all add: ept_wf_def)
  have d: "?d = (if ?s < TIPC_ADDR_MAX_NUM then dev\<lparr>td_inuse := bitmap_clear (td_inuse dev) ?s,
      td_epts := (td_epts dev)[?s := free_ept]\<rparr> else dev)"
    by (simp add: free_local_addr_def addr_to_slot_eq free_ept_def Let_def)
  show wf': "ept_wf ?d"
    using assms wf(2) unfolding d ept_wf_def
    by (auto simp: eslots.unmark_used [OF wf(1)] inv_intros nth_list_update)
  show "routes ?d = (routes dev)(a := None)"
    unfolding routes_table [OF assms] routes_table [OF wf']
    using eslots.table_free [OF wf, of a free_ept] by (auto simp: d fun_eq_iff eslots.table_None)
qed

section \<open>What messages do\<close>

lemma handle_chan_msg_routes:
  "handle_chan_msg dev remote local data k = (case routes dev local of
     Some (r, hp) \<Rightarrow> if r \<noteq> remote then Some (ERR_NOT_FOUND, dev, k)
       else map_option (\<lambda>(ret, k). (ret, dev, k)) (ipc_send_msg no_umem (Some hp) (Some (kmsg_one data)) k)
   | None \<Rightarrow> Some (ERR_NOT_FOUND, dev, k))"
proof (cases "lookup_ept dev local")
  case None
  then show ?thesis by (simp add: handle_chan_msg_def routes_def)
next
  case (Some i)
  then show ?thesis
    by (cases "ept_chan (td_epts dev ! i)";
        cases "ipc_send_msg no_umem (Some (the (ept_chan (td_epts dev ! i)))) (Some (kmsg_one data)) k")
       (auto simp: handle_chan_msg_def routes_def)
qed

text \<open>Taking a channel off the bridge: out of the handle list, without cookie, closed.\<close>

definition detach :: "nat \<Rightarrow> hptr \<Rightarrow> kern \<Rightarrow> kern option" where
  "detach l hp k = do {
     k \<leftarrow> handle_list_del l hp k;
     k \<leftarrow> handle_set_cookie hp 0 k;
     handle_close hp k }"

fun detach_all :: "nat \<Rightarrow> hptr list \<Rightarrow> kern \<Rightarrow> kern option" where
  "detach_all l [] k = Some k"
| "detach_all l (hp # hps) k = do { k \<leftarrow> detach l hp k; detach_all l hps k }"

text \<open>The endpoint that a disconnect request names: the target's if it is the sender's, else the
  sender's first.\<close>

definition disc_slot :: "tipc_dev \<Rightarrow> u32 \<Rightarrow> u32 \<Rightarrow> nat option" where
  "disc_slot dev remote target =
     (case lookup_ept dev target of
        Some i \<Rightarrow> if ept_remote (td_epts dev ! i) = remote then Some i
          else find (\<lambda>s. bitmap_test (td_inuse dev) s \<and> ept_remote (td_epts dev ! s) = remote) [0..<TIPC_ADDR_MAX_NUM]
      | None \<Rightarrow> find (\<lambda>s. bitmap_test (td_inuse dev) s \<and> ept_remote (td_epts dev ! s) = remote) [0..<TIPC_ADDR_MAX_NUM])"

lemma handle_disc_req_eq:
  "handle_disc_req dev remote ns_req k = (case disc_slot dev remote (le32_of (take 4 ns_req)) of
     None \<Rightarrow> Some (NO_ERROR, dev, k)
   | Some i \<Rightarrow> do {
       k \<leftarrow> (case ept_chan (td_epts dev ! i) of None \<Rightarrow> Some k | Some hp \<Rightarrow> detach (td_hlist dev) hp k);
       Some (NO_ERROR, free_local_addr dev (ept_to_addr i), k) })"
  by (auto simp: handle_disc_req_def disc_slot_def detach_def Let_def split: option.split cong: option.case_cong)

lemma disc_slot_Some:
  assumes "disc_slot dev remote target = Some i"
  shows "i < TIPC_ADDR_MAX_NUM" "bitmap_test (td_inuse dev) i" "ept_remote (td_epts dev ! i) = remote"
  using assms by (auto simp: disc_slot_def lookup_ept_Some find_upt_Some split: option.splits if_splits)

lemma disc_slot_target:
  "lookup_ept dev target = Some j \<Longrightarrow> ept_remote (td_epts dev ! j) = remote \<Longrightarrow>
    disc_slot dev remote target = Some j"
  by (simp add: disc_slot_def)

lemma disc_slot_None:
  assumes "disc_slot dev remote target = None" "i < TIPC_ADDR_MAX_NUM" "bitmap_test (td_inuse dev) i"
  shows "ept_remote (td_epts dev ! i) \<noteq> remote"
  using assms by (auto simp: disc_slot_def find_upt_None split: option.splits if_splits)

lemma map_keeps_sizes: "vi_sz (xs[i := (xs ! i)\<lparr>vi_base := b\<rparr>] ! j) = vi_sz (xs ! j)"
  by (cases "i < length xs") (auto simp: nth_list_update list_update_beyond)

lemma map_again_keeps_sizes:
  "vi_sz (xs[i := (xs[i := (xs ! i)\<lparr>vi_base := a\<rparr>] ! i)\<lparr>vi_base := b\<rparr>] ! j) = vi_sz (xs ! j)"
  by (cases "i < length xs") (auto simp: nth_list_update list_update_beyond)

lemma vq_unmap_below_sizes: "vi_sz (vi_iovs (fst (vq_unmap_below i l v)) ! j) = vi_sz (vi_iovs l ! j)"
  by (induction i arbitrary: l v) (simp_all add: map_keeps_sizes)

lemma vqueue_map_loop_sizes:
  "vi_sz (vi_iovs (fst (snd (vqueue_map_loop i n l guest v))) ! j) = vi_sz (vi_iovs l ! j)"
proof (induction n arbitrary: i l v)
  case 0
  then show ?case by simp
next
  case (Suc n)
  then show ?case
    by (simp add: Let_def map_keeps_sizes map_again_keeps_sizes split_beta vq_unmap_below_sizes)
qed

lemma vqueue_map_iovs_sizes:
  "vqueue_map_iovs l guest v = Some (r, l', v') \<Longrightarrow> vi_sz (vi_iovs l' ! j) = vi_sz (vi_iovs l ! j)"
  using vqueue_map_loop_sizes [of 0 "vi_used l" l guest v j] by (auto simp: vqueue_map_iovs_def bind_Some_iff)

lemma routes_vm [simp]: "routes (dev\<lparr>td_vm := v\<rparr>) = routes dev"
  by (simp add: routes_def lookup_ept_def Let_def fun_eq_iff)

lemma ept_wf_vm [simp]: "ept_wf (dev\<lparr>td_vm := v\<rparr>) = ept_wf dev"
  by (simp add: ept_wf_def)

section \<open>The table through the operations\<close>

text \<open>\<open>same_epts\<close>: the endpoint table is untouched.\<close>

definition same_epts :: "tipc_dev \<Rightarrow> tipc_dev \<Rightarrow> bool" where
  "same_epts dev dev' \<longleftrightarrow> td_epts dev' = td_epts dev \<and> td_inuse dev' = td_inuse dev"

lemma same_epts_wf: "same_epts dev dev' \<Longrightarrow> ept_wf dev' = ept_wf dev"
  by (simp add: same_epts_def ept_wf_def)

lemma same_epts_routes: "same_epts dev dev' \<Longrightarrow> routes dev' = routes dev"
  by (rule ext) (simp add: same_epts_def routes_def lookup_ept_def Let_def split: option.split)

lemma same_epts_trans: "same_epts a b \<Longrightarrow> same_epts b c \<Longrightarrow> same_epts a c"
  by (simp add: same_epts_def)

lemma same_epts_refl [simp]: "same_epts a a"
  by (simp add: same_epts_def)

lemma tipc_send_data_same: "pred_option (\<lambda>(r, dev', k'). same_epts dev dev') (tipc_send_data dev local remote cb len wait k)"
proof (cases cb)
  case None
  then show ?thesis by (simp add: tipc_send_data_def)
next
  case (Some f)
  show ?thesis
    unfolding tipc_send_data_def Some option.case Let_def split_beta
    by (intro pred_bind [where Q = "\<lambda>(r, dev', k'). same_epts dev dev'"] pred_rules)
       (auto simp: same_epts_def split_beta)
qed

lemma tipc_send_data_epts:
  "tipc_send_data dev local remote cb len wait k = Some (r, dev', k') \<Longrightarrow> same_epts dev dev'"
  using tipc_send_data_same [of dev local remote cb len wait k] by simp

lemma send_epts:
  "send_conn_rsp dev local remote status sz cnt k = Some (r, dev', k') \<Longrightarrow> same_epts dev dev'"
  "send_disc_req dev local remote k = Some (r, dev', k') \<Longrightarrow> same_epts dev dev'"
  "go_online dev k = Some (r, dev', k') \<Longrightarrow> same_epts dev dev'"
  by (simp_all add: send_conn_rsp_def send_disc_req_def go_online_def tipc_send_buf_def tipc_send_data_epts)

lemma handle_conn_req_wf:
  assumes "ept_wf dev" "handle_conn_req dev remote req k = Some (r, dev', k')"
  shows "ept_wf dev'"
proof -
  obtain err chan k1 where c: "ipc_port_connect_async (td_guest dev) (td_uuid dev)
      (strncpy req TIPC_MAX_SRV_NAME_LEN) TIPC_MAX_SRV_NAME_LEN 0 k = Some (err, chan, k1)"
    using assms(2) by (auto simp: handle_conn_req_def bind_Some_iff)
  note r = assms(2)[unfolded handle_conn_req_def Let_def c, simplified]
  show ?thesis
  proof (cases "err = NO_ERROR")
    case False
    then show ?thesis using r assms(1) by (auto dest: send_epts simp: same_epts_wf)
  next
    case True
    then obtain hp where hp: "chan = Some hp" using r by (cases chan) auto
    obtain b dev1 where al: "alloc_local_addr dev remote hp = (b, dev1)" by (cases "alloc_local_addr dev remote hp")
    have wf: "ept_wf dev1" by (rule alloc_local_addr_ok [OF assms(1) al])
    have "same_epts dev1 dev'"
      using r True hp al
      by (cases "b = 0") (auto simp: bind_Some_iff same_epts_def dest: send_epts(1))
    then show ?thesis using wf by (simp add: same_epts_wf)
  qed
qed

lemma handle_disc_req_wf:
  assumes "ept_wf dev" "handle_disc_req dev remote req k = Some (r, dev', k')"
  shows "ept_wf dev'"
  using assms free_local_addr_ok [OF assms(1)] by (auto simp: handle_disc_req_eq bind_Some_iff split: option.splits)

lemma handle_ctrl_msg_wf:
  assumes "ept_wf dev" "handle_ctrl_msg dev remote ns k = Some (r, dev', k')"
  shows "ept_wf dev'"
  using assms handle_conn_req_wf [OF assms(1)] handle_disc_req_wf [OF assms(1)]
  by (auto simp: handle_ctrl_msg_def Let_def bind_Some_iff split: if_splits)

lemma handle_hup_wf:
  assumes "ept_wf dev" "handle_hup dev chan k = Some (r, dev', k')"
  shows "ept_wf dev'"
  using assms free_local_addr_ok [OF assms(1)]
  by (auto simp: handle_hup_def Let_def bind_Some_iff same_epts_wf split: option.splits dest!: send_epts)

lemma handle_ready_epts: "handle_ready dev chan k = Some (r, dev', k') \<Longrightarrow> same_epts dev dev'"
  by (auto simp: handle_ready_def bind_Some_iff split: option.splits dest: send_epts)

lemma handle_tx_msg_loop_epts: "handle_tx_msg_loop fuel dev chan remote k = Some (r, dev', k') \<Longrightarrow> same_epts dev dev'"
proof (induction fuel arbitrary: dev k)
  case 0
  then show ?case by simp
next
  case (Suc fuel)
  then show ?case
    by (auto simp: bind_Some_iff split: if_splits dest!: tipc_send_data_epts intro: same_epts_trans)
qed

lemma handle_tx_event_wf:
  assumes "ept_wf dev" "handle_tx_event fuel dev chan ev k = Some (r, dev', k')"
  shows "ept_wf dev'"
  using assms handle_hup_wf [OF assms(1)]
  by (auto simp: handle_tx_event_def handle_tx_msg_def bind_Some_iff same_epts_wf
      split: if_splits option.splits dest!: handle_ready_epts handle_tx_msg_loop_epts)

lemma handle_tx_wf:
  "ept_wf dev \<Longrightarrow> pred_option (\<lambda>x. ept_wf (fst (snd x))) (handle_tx fuel n env ev dev k)"
proof (induction fuel arbitrary: env dev k)
  case 0
  then show ?case by simp
next
  case (Suc fuel)
  note IH = Suc.IH and tx = handle_tx_event_wf [OF Suc.prems]
  show ?case
    by (auto simp: Suc.prems intro!: pred_rules IH tx split: option.split prod.split)
qed

lemma handle_rx_msg_wf_aux:
  assumes "handle_chan_msg dev a b d k = Some (r, dev', k')"
  shows "dev' = dev"
  using assms by (auto simp: handle_chan_msg_routes split: option.splits if_splits)

text \<open>The fields of a message header, as \<^const>\<open>handle_rx_msg\<close> reads them.\<close>

definition msg_src :: "(nat \<Rightarrow> byte) \<Rightarrow> u32" where "msg_src ns = le32_of (map ns [0..<4])"
definition msg_dst :: "(nat \<Rightarrow> byte) \<Rightarrow> u32" where "msg_dst ns = le32_of (map ns [4..<8])"
definition msg_len :: "(nat \<Rightarrow> byte) \<Rightarrow> nat" where "msg_len ns = unat (le16_of (map ns [12..<14]))"

lemma handle_rx_msg_eq:
  "handle_rx_msg dev buf ns k =
     (if vi_used (vb_in buf) = 0 then Some (Some ERR_INVALID_ARGS, dev, k)
      else do {
        (ret, iovs, vm) \<leftarrow> vqueue_map_iovs (vb_in buf) (td_guest dev) (td_vm dev);
        let dev = dev\<lparr>td_vm := vm\<rparr>;
        if ret \<noteq> 0 then Some (Some ret, dev, k)
        else do {
          let len = vi_sz (vi_iovs iovs ! 0);
          (ret, dev, k) \<leftarrow>
            (if len < 16 \<or> msg_len ns + 16 \<noteq> len then Some (Some ERR_INVALID_ARGS, dev, k)
             else if msg_dst ns = TIPC_CTRL_ADDR then handle_ctrl_msg dev (msg_src ns) (map ns [16..<len]) k
             else do {
               (ret, dev, k) \<leftarrow> handle_chan_msg dev (msg_src ns) (msg_dst ns) (map ns [16..<len]) k;
               Some (Some ret, dev, k) });
          (iovs, vm) \<leftarrow> vqueue_unmap_iovs iovs (td_vm dev);
          Some (ret, dev\<lparr>td_vm := vm\<rparr>, k) } })"
proof -
  have fields: "le32_of (take 4 (map ns [0..<16])) = msg_src ns"
    "le32_of (take 4 (drop 4 (map ns [0..<16]))) = msg_dst ns"
    "unat (le16_of (take 2 (drop 12 (map ns [0..<16])))) = msg_len ns"
    by (simp_all add: msg_src_def msg_dst_def msg_len_def take_map drop_map)
  show ?thesis
    unfolding handle_rx_msg_def sizeof_tipc_hdr_def Let_def fields
    by (intro if_cong refl arg_cong2 [of _ _ _ _ Option.bind] ext)
       (auto simp: Let_def split: if_splits intro!: arg_cong2 [of _ _ _ _ Option.bind])
qed

lemma handle_rx_msg_wf:
  assumes "ept_wf dev" "handle_rx_msg dev buf ns k = Some (r, dev', k')"
  shows "ept_wf dev'"
proof -
  have wf: "ept_wf (dev\<lparr>td_vm := v\<rparr>)" for v using assms(1) by simp
  show ?thesis
    using assms handle_ctrl_msg_wf [OF wf]
    by (auto simp: handle_rx_msg_eq bind_Some_iff Let_def split: if_splits dest!: handle_rx_msg_wf_aux)
qed

lemma tipc_rx_turn_wf:
  assumes "ept_wf dev"
  shows "pred_option (\<lambda>x. ept_wf (fst (snd (snd x)))) (tipc_rx_turn dev buf ns k)"
proof -
  have wf: "ept_wf (dev\<lparr>td_rxq := q\<rparr>)" if "ept_wf dev" for q dev using that by (simp add: ept_wf_def)
  have rx: "pred_option (\<lambda>x. ept_wf (fst (snd x))) (handle_rx_msg (dev\<lparr>td_rxq := q\<rparr>) buf ns k)" for q buf k
    using handle_rx_msg_wf [OF wf [OF assms]]
    by (cases "handle_rx_msg (dev\<lparr>td_rxq := q\<rparr>) buf ns k") auto
  show ?thesis
    unfolding tipc_rx_turn_def Let_def split_beta
    by (intro pred_bind [where Q = "\<lambda>x. ept_wf (fst (snd x))"] pred_bind_any pred_if)
       (auto simp: wf assms rx split: option.split)
qed

text \<open>The reset loop detaches the channels of the table, lowest address first.\<close>

definition bound_channels :: "nat list \<Rightarrow> tipc_dev \<Rightarrow> hptr list" where
  "bound_channels slots dev = map (\<lambda>i. the (ept_chan (td_epts dev ! i))) (filter (bitmap_test (td_inuse dev)) slots)"

definition same_rest :: "tipc_dev \<Rightarrow> tipc_dev \<Rightarrow> bool" where
  "same_rest dev dev' \<longleftrightarrow> (\<exists>b e. dev' = dev\<lparr>td_inuse := b, td_epts := e\<rparr>)"

lemma free_same_rest: "same_rest dev (free_local_addr dev a)"
proof -
  have "dev = dev\<lparr>td_inuse := td_inuse dev, td_epts := td_epts dev\<rparr>" by simp
  then show ?thesis unfolding same_rest_def free_local_addr_def Let_def by (metis (full_types))
qed

lemma same_rest_trans: "same_rest a b \<Longrightarrow> same_rest b c \<Longrightarrow> same_rest a c"
  by (auto simp: same_rest_def) (metis (full_types))

lemma reset_close_loop_eq:
  assumes "ept_wf dev" "distinct slots" "set slots \<subseteq> {..<TIPC_ADDR_MAX_NUM}"
    and "reset_close_loop slots dev k = Some (dev', k')"
  shows "ept_wf dev' \<and> same_rest dev dev' \<and> detach_all (td_hlist dev) (bound_channels slots dev) k = Some k' \<and>
    routes dev' = (\<lambda>a. if a \<in> ept_to_addr ` set slots then None else routes dev a)"
  using assms
proof (induction slots arbitrary: dev k)
  case Nil
  moreover have "same_rest dev dev" unfolding same_rest_def
    by (rule exI [of _ "td_inuse dev"], rule exI [of _ "td_epts dev"]) simp
  ultimately show ?case by (simp add: bound_channels_def)
next
  case (Cons i slots)
  show ?case
  proof (cases "bitmap_test (td_inuse dev) i")
    case False
    then show ?thesis
      using Cons by (auto simp: bound_channels_def routes_slot fun_eq_iff)
  next
    case True
    let ?d = "free_local_addr dev (ept_to_addr i)"
    have i: "i < TIPC_ADDR_MAX_NUM" using Cons.prems by simp
    obtain c where c: "ept_chan (td_epts dev ! i) = Some c"
      using Cons.prems(1) i True unfolding ept_wf_def by (metis not_None_eq)
    from Cons.prems(4) True c obtain k1 where k1: "detach (td_hlist dev) c k = Some k1"
      and rest: "reset_close_loop slots ?d k1 = Some (dev', k')"
      by (auto simp: bind_Some_iff detach_def)
    have slot: "unat (addr_to_slot (ept_to_addr i)) = i" using i by (rule ept_slot_addr)
    have wf: "bitmap_wf TIPC_ADDR_MAX_NUM (td_inuse dev)" using Cons.prems(1) by (simp add: ept_wf_def)
    have "bound_channels slots ?d = bound_channels slots dev"
      using Cons.prems(2,3) i slot unfolding bound_channels_def
      by (intro map_cong filter_cong)
         (auto simp: free_local_addr_def Let_def eslots.unmark_used [OF wf] intro!: nth_list_update_neq
           arg_cong [of _ _ "\<lambda>e. the (ept_chan e)"])
    moreover have "td_hlist ?d = td_hlist dev" by (simp add: free_local_addr_def Let_def)
    ultimately show ?thesis
      using Cons.IH [OF _ _ _ rest] free_local_addr_ok [OF Cons.prems(1), of "ept_to_addr i"]
        Cons.prems(2,3) True c k1 same_rest_trans [OF free_same_rest [of dev "ept_to_addr i"], of dev']
      by (auto simp: bound_channels_def fun_eq_iff)
  qed
qed

lemma all_slots: "a \<notin> ept_to_addr ` {..<TIPC_ADDR_MAX_NUM} \<Longrightarrow> routes dev a = None"
  by (auto simp: routes_def lookup_ept_Some split: option.split)

lemma tipc_dev_reset_eq:
  assumes "ept_wf dev" "td_state dev \<noteq> VDEV_STATE_RESET" "tipc_dev_reset rj tj dev k = Some (r, dev', k')"
  shows "r = NO_ERROR \<and> td_state dev' = VDEV_STATE_RESET \<and> ept_wf dev' \<and> (\<forall>a. routes dev' a = None) \<and>
    detach_all (td_hlist dev) (bound_channels [0..<TIPC_ADDR_MAX_NUM] dev) k = Some k' \<and>
    vq_region (td_rxq dev') = None \<and> vq_region (td_txq dev') = None \<and>
    \<not> td_rx_thread dev' \<and> \<not> td_tx_thread dev' \<and> \<not> td_rx_stop dev' \<and> \<not> td_tx_stop dev'"
proof -
  define d1 where "d1 = dev\<lparr>td_rx_stop := True, td_rxq := vqueue_signal_avail (td_rxq dev),
      td_rx_thread := False, td_rx_stop := False, td_tx_stop := True\<rparr>"
  have same: "same_epts dev d1" "td_hlist d1 = td_hlist dev" by (simp_all add: same_epts_def d1_def)
  obtain d2 where loop: "reset_close_loop [0..<TIPC_ADDR_MAX_NUM] d1 k = Some (d2, k')"
    and dev': "same_epts d2 dev'" "td_state dev' = VDEV_STATE_RESET" "\<not> td_tx_thread dev'" "\<not> td_tx_stop dev'"
      "td_rx_thread dev' = td_rx_thread d2" "td_rx_stop dev' = td_rx_stop d2"
      "vq_region (td_rxq dev') = None" "vq_region (td_txq dev') = None"
    and r: "r = NO_ERROR"
    using assms(2,3)
    by (auto simp: tipc_dev_reset_def Let_def bind_Some_iff d1_def vqueue_destroy_def same_epts_def)
  have "ept_wf d1" using assms(1) same by (simp add: same_epts_wf)
  from reset_close_loop_eq [OF this _ _ loop]
  have d2: "ept_wf d2" "same_rest d1 d2" "\<forall>a. routes d2 a = None"
    "detach_all (td_hlist dev) (bound_channels [0..<TIPC_ADDR_MAX_NUM] d1) k = Some k'"
    using all_slots [of _ d1] same by (auto simp: atLeast0LessThan)
  have "bound_channels [0..<TIPC_ADDR_MAX_NUM] d1 = bound_channels [0..<TIPC_ADDR_MAX_NUM] dev"
    by (simp add: bound_channels_def d1_def)
  moreover have "\<not> td_rx_thread d2" "\<not> td_rx_stop d2" using d2(2) by (auto simp: same_rest_def d1_def)
  ultimately show ?thesis
    using d2 dev' r by (auto simp: same_epts_wf same_epts_routes)
qed

lemma bound_channels_routes:
  assumes "ept_wf dev"
  shows "bound_channels [0..<TIPC_ADDR_MAX_NUM] dev =
    List.map_filter (\<lambda>i. map_option snd (routes dev (ept_to_addr i))) [0..<TIPC_ADDR_MAX_NUM]"
proof -
  have "bound_channels slots dev = List.map_filter (\<lambda>i. map_option snd (routes dev (ept_to_addr i))) slots"
    if "set slots \<subseteq> {..<TIPC_ADDR_MAX_NUM}" for slots
    using that
  proof (induction slots)
    case (Cons i slots)
    moreover have "bitmap_test (td_inuse dev) i \<Longrightarrow> ept_chan (td_epts dev ! i) \<noteq> None"
      using assms Cons.prems by (simp add: ept_wf_def)
    ultimately show ?case
      by (auto simp: bound_channels_def routes_slot List.map_filter_simps)
  qed (simp add: bound_channels_def List.map_filter_simps)
  then show ?thesis by (simp add: atLeast0LessThan)
qed

lemma probe_undo_epts: "same_epts dev (probe_undo i dev)"
proof (induction i arbitrary: dev)
  case 0
  then show ?case by simp
next
  case (Suc i)
  show ?case
    using Suc.IH by (simp add: Let_def split_beta) (simp add: same_epts_def td_set_vq_def)
qed

lemma probe_vrings_epts: "same_epts dev (snd (probe_vrings i rs dev))"
proof (induction rs arbitrary: i dev)
  case Nil
  then show ?case by simp
next
  case (Cons r rs)
  show ?case
    using Cons.IH probe_undo_epts
    by (simp add: Let_def split_beta) (simp add: same_epts_def td_set_vq_def)
qed

lemma tipc_dev_probe_epts:
  assumes "tipc_dev_probe rx tx dev d k = Some (r, dev', k')"
  shows "same_epts dev dev'"
  using assms probe_vrings_epts [of dev 0 "take (unat (ds_num_of_vrings d)) (ds_vrings d)"]
  by (auto simp: tipc_dev_probe_def bind_Some_iff split_beta same_epts_def dest!: send_epts split: if_splits)

text \<open>
  The life of a bridge: a fresh device and any sequence of turns of its two threads, resets, probes
  and kicks, each in whatever kernel state it finds.
\<close>

inductive bridge :: "tipc_dev \<Rightarrow> bool" where
  created: "bridge (new_tipc_dev guest uuid l waits vm tx_mem rx_mem)"
| rx: "bridge dev \<Longrightarrow> tipc_rx_turn dev buf ns k = Some (go, buf', dev', k') \<Longrightarrow> bridge dev'"
| tx: "bridge dev \<Longrightarrow> handle_tx fuel n env ev dev k = Some (r, dev', k') \<Longrightarrow> bridge dev'"
| reset: "bridge dev \<Longrightarrow> tipc_dev_reset rx_join tx_join dev k = Some (r, dev', k') \<Longrightarrow> bridge dev'"
| probe: "bridge dev \<Longrightarrow> tipc_dev_probe rx_ok tx_ok dev d k = Some (r, dev', k') \<Longrightarrow> bridge dev'"
| kick: "bridge dev \<Longrightarrow> tipc_vdev_kick_vq dev vqid = (r, dev') \<Longrightarrow> bridge dev'"

lemma bridge_wf: "bridge dev \<Longrightarrow> ept_wf dev"
proof (induction rule: bridge.induct)
  case created
  show ?case by (rule ept_wf_new)
next
  case (rx dev buf ns k go buf' dev' k')
  then show ?case using tipc_rx_turn_wf [of dev buf ns k] by simp
next
  case (tx dev fuel n env ev k r dev' k')
  then show ?case using handle_tx_wf [of dev fuel n env ev k] by simp
next
  case (reset dev rx_join tx_join k r dev' k')
  show ?case
  proof (cases "td_state dev = VDEV_STATE_RESET")
    case True
    then show ?thesis using reset by (simp add: tipc_dev_reset_def)
  next
    case False
    from tipc_dev_reset_eq [OF reset.IH this reset.hyps(2)] show ?thesis by blast
  qed
next
  case (probe dev rx_ok tx_ok d k r dev' k')
  then show ?case by (metis tipc_dev_probe_epts same_epts_wf)
next
  case (kick dev vqid r dev')
  then have "same_epts dev dev'" by (auto simp: tipc_vdev_kick_vq_def same_epts_def split: if_splits)
  then show ?case using kick by (simp add: same_epts_wf)
qed

section \<open>Properties\<close>

text \<open>
  Property C16. In every state of a bridge, after any sequence of received and forwarded messages,
  resets and probes, its endpoint table is a partial map: allocation binds a free local address,
  never 0 and never one in use, to the remote address and channel it is given, and changes no other
  binding; it answers 0, and changes nothing, only when all 256 addresses are bound; freeing an
  address unbinds that address only, also when the address is not bound or outside the range.
\<close>

theorem endpoint_table_is_map:
  assumes "bridge dev"
  shows "(case alloc_local_addr dev remote chan of (b, dev') \<Rightarrow>
      (if b = 0 then dev' = dev \<and> (\<forall>i<TIPC_ADDR_MAX_NUM. routes dev (ept_to_addr i) \<noteq> None)
       else routes dev b = None \<and> routes dev' = (routes dev)(b \<mapsto> (remote, chan)))) \<and>
    routes (free_local_addr dev a) = (routes dev)(a := None)"
proof -
  note wf = bridge_wf [OF assms]
  obtain b dev' where al: "alloc_local_addr dev remote chan = (b, dev')" by (cases "alloc_local_addr dev remote chan")
  have "\<forall>i<TIPC_ADDR_MAX_NUM. bitmap_test (td_inuse dev) i \<longrightarrow> routes dev (ept_to_addr i) \<noteq> None"
    using wf by (auto simp: routes_slot ept_wf_def)
  then show ?thesis
    using alloc_local_addr_ok [OF wf al] free_local_addr_ok [OF wf, of a] al by (auto split: if_splits)
qed

text \<open>A device of the normal world, with two endpoints.\<close>

definition ep_dev :: tipc_dev where
  "ep_dev = new_tipc_dev 0 (Some ZERO_UUID) 0 [] demo_vm (\<lambda>_. demo_vring 64) (\<lambda>_. demo_vring 64)"

theorem endpoint_table_is_map_witness:
  "\<exists>a dev'. alloc_local_addr ep_dev 7 (HChan 3) = (a, dev') \<and> a = 1000 \<and>
     routes dev' = (routes ep_dev)(a \<mapsto> (7, HChan 3))"
proof -
  have "fst (alloc_local_addr ep_dev 7 (HChan 3)) = 1000" by code_simp
  moreover have "bridge ep_dev" unfolding ep_dev_def by (rule bridge.created)
  ultimately show ?thesis
    using endpoint_table_is_map [of ep_dev 7 "HChan 3" 0] by (cases "alloc_local_addr ep_dev 7 (HChan 3)") auto
qed

text \<open>
  Property C15. A data message of the normal world reaches at most one channel: the one bound to its
  destination address, and only if that binding has the message's source as its remote address.
  What is sent there is exactly the payload, all of the buffer after the header, and the header's
  length field agrees with it.  Any other data message is rejected and changes neither the endpoint
  table nor the kernel.
\<close>

theorem rx_data_message_routed:
  assumes "handle_rx_msg dev buf ns k = Some (Some ret, dev', k')" "msg_dst ns \<noteq> TIPC_CTRL_ADDR"
  shows "routes dev' = routes dev \<and> (k' = k \<and> ret \<noteq> NO_ERROR \<or>
    (\<exists>hp n. routes dev (msg_dst ns) = Some (msg_src ns, hp) \<and>
       n = vi_sz (vi_iovs (vb_in buf) ! 0) \<and> n = 16 + msg_len ns \<and>
       ipc_send_msg no_umem (Some hp) (Some (kmsg_one (map ns [16..<n]))) k = Some (ret, k')))"
proof (cases "vi_used (vb_in buf) = 0")
  case True
  then show ?thesis using assms(1) by (auto simp: handle_rx_msg_def err_simps)
next
  case False
  obtain mret iovs vm where map: "vqueue_map_iovs (vb_in buf) (td_guest dev) (td_vm dev) = Some (mret, iovs, vm)"
    using assms(1) False by (auto simp: handle_rx_msg_def bind_Some_iff)
  have n: "vi_sz (vi_iovs iovs ! 0) = vi_sz (vi_iovs (vb_in buf) ! 0)" by (rule vqueue_map_iovs_sizes [OF map])
  show ?thesis
    using assms False map unfolding handle_rx_msg_eq
    by (auto simp: bind_Some_iff handle_chan_msg_routes err_simps Let_def n
        split: if_splits option.splits)
qed

text \<open>A kernel with the port \<open>p\<close> open to the normal world, a connection to it over the bridge, its accept,
  and a four-byte message on it.\<close>

definition ep_kern :: kern where
  "ep_kern = handle_list_init 0 (snd (the (ipc_port_publish 1
     (snd (snd (ipc_port_create (Some (APP_UUID [])) [112] 2 8 IPC_PORT_ALLOW_NS_CONNECT kern0))))))"

definition ep_conn :: "(int option \<times> tipc_dev \<times> kern) option" where
  "ep_conn = handle_conn_req ep_dev 7 (112 # replicate 255 0) ep_kern"

definition ep_dev1 :: tipc_dev where "ep_dev1 = fst (snd (the ep_conn))"
definition ep_kern1 :: kern where "ep_kern1 = snd (snd (the ep_conn))"

definition ep_kern2 :: kern where
  "ep_kern2 = snd (snd (snd (the (ipc_port_accept (Some (HPort 1)) ep_kern1))))"

definition ep_msg :: "nat \<Rightarrow> byte" where
  "ep_msg = nth (tipc_hdr_bytes 7 1000 4 @ [1, 2, 3, 4])"

definition ep_buf :: vqueue_buf where
  "ep_buf = rx_buf\<lparr>vb_in := \<lparr>vi_cnt = 1, vi_used = 1, vi_len = 20, vi_phys = [4096],
     vi_iovs = [\<lparr>vi_base = None, vi_sz = 20\<rparr>]\<rparr>\<rparr>"

lemma ep_conn_ok: "map_option fst ep_conn = Some (Some NO_ERROR)"
  by code_simp

lemma ep_routes: "routes ep_dev1 1000 = Some (7, HChan 2)"
  by code_simp

lemma ep_dev1_wf: "ept_wf ep_dev1"
  using ep_conn_ok handle_conn_req_wf [of ep_dev 7 "112 # replicate 255 0" ep_kern] ept_wf_new
  by (auto simp: ep_conn_def ep_dev1_def ep_dev_def)

lemma ep_disc: "map_option fst (handle_disc_req ep_dev1 7 (le32_bytes 1000) ep_kern1) = Some NO_ERROR"
  by code_simp

theorem rx_data_message_routed_witness:
  "\<exists>dev' k' hp n. handle_rx_msg ep_dev1 ep_buf ep_msg ep_kern2 = Some (Some 4, dev', k') \<and>
     routes ep_dev1 1000 = Some (7, hp) \<and> n = 20 \<and>
     ipc_send_msg no_umem (Some hp) (Some (kmsg_one (map ep_msg [16..<n]))) ep_kern2 = Some (4, k')"
proof -
  have "map_option fst (handle_rx_msg ep_dev1 ep_buf ep_msg ep_kern2) = Some (Some 4)" by code_simp
  then obtain dev' k' where r: "handle_rx_msg ep_dev1 ep_buf ep_msg ep_kern2 = Some (Some 4, dev', k')" by auto
  have f: "msg_dst ep_msg = 1000" "msg_src ep_msg = 7" "TIPC_CTRL_ADDR \<noteq> 1000"
    "vi_sz (vi_iovs (vb_in ep_buf) ! 0) = 20" by code_simp+
  have "(case handle_rx_msg ep_dev1 ep_buf ep_msg ep_kern2 of None \<Rightarrow> True
      | Some (_, _, k') \<Rightarrow> map_option (\<lambda>c. inbox k' 3) (k_chans k' 3) = map_option (\<lambda>c. inbox ep_kern2 3) (k_chans ep_kern2 3)) = False"
    by code_simp
  then have "k' \<noteq> ep_kern2" using r by auto
  then have "\<exists>hp n. routes ep_dev1 1000 = Some (7, hp) \<and> n = 20 \<and>
      ipc_send_msg no_umem (Some hp) (Some (kmsg_one (map ep_msg [16..<n]))) ep_kern2 = Some (4, k')"
    using rx_data_message_routed [OF r] f by auto
  with r show ?thesis by blast
qed

text \<open>
  A disconnect request closes a channel of its sender only: if no endpoint has the
  sender as its remote, nothing changes; otherwise the endpoint of the target address, when it is the
  sender's, or else the sender's lowest, loses its binding, and its channel is taken out of the
  device's handle list, loses its cookie and is closed.  The request is always acknowledged with
  \<^verbatim>\<open>NO_ERROR\<close>.
\<close>

theorem disc_req_closes_senders_channel:
  assumes "ept_wf dev" "handle_disc_req dev remote req k = Some (ret, dev', k')"
  shows "ret = NO_ERROR \<and> ept_wf dev' \<and>
    (if \<forall>a c. routes dev a \<noteq> Some (remote, c) then dev' = dev \<and> k' = k
     else \<exists>a c. routes dev a = Some (remote, c) \<and> routes dev' = (routes dev)(a := None) \<and>
       detach (td_hlist dev) c k = Some k' \<and>
       (map_option fst (routes dev (le32_of (take 4 req))) = Some remote \<longrightarrow> a = le32_of (take 4 req)))"
proof (cases "disc_slot dev remote (le32_of (take 4 req))")
  case None
  then have "routes dev a \<noteq> Some (remote, c)" for a c
    by (auto simp: routes_Some lookup_ept_Some dest: disc_slot_None)
  then show ?thesis using assms None by (auto simp: handle_disc_req_eq)
next
  case (Some i)
  note i = disc_slot_Some [OF Some]
  obtain c where c: "ept_chan (td_epts dev ! i) = Some c"
    using assms(1) i(1,2) unfolding ept_wf_def by (metis not_None_eq)
  then have a: "routes dev (ept_to_addr i) = Some (remote, c)" using i by (simp add: routes_slot)
  obtain k1 where "detach (td_hlist dev) c k = Some k'" "dev' = free_local_addr dev (ept_to_addr i)" "ret = NO_ERROR"
    using assms(2) Some c by (auto simp: handle_disc_req_eq bind_Some_iff)
  moreover have "ept_to_addr i = t"
    if "map_option fst (routes dev t) = Some remote" "t = le32_of (take 4 req)" for t
    using that Some disc_slot_target [of dev t] by (auto simp: routes_Some lookup_ept_Some)
  ultimately show ?thesis using a free_local_addr_ok [OF assms(1)] by auto
qed

theorem disc_req_closes_senders_channel_witness:
  "\<exists>dev' k'. handle_disc_req ep_dev1 7 (le32_bytes 1000) ep_kern1 = Some (NO_ERROR, dev', k') \<and>
     routes dev' = (routes ep_dev1)(1000 := None) \<and> detach (td_hlist ep_dev1) (HChan 2) ep_kern1 = Some k'"
proof -
  obtain dev' k' where r: "handle_disc_req ep_dev1 7 (le32_bytes 1000) ep_kern1 = Some (NO_ERROR, dev', k')"
    using ep_disc by auto
  have t: "le32_of (take 4 (le32_bytes 1000)) = 1000" by code_simp
  from disc_req_closes_senders_channel [OF ep_dev1_wf r] r ep_routes show ?thesis
    unfolding t by (auto split: if_splits)
qed

text \<open>
  When the endpoint table is full, a connection request opens the channel, closes it
  again, and then answers with a connection response of status 0, \<^verbatim>\<open>NO_ERROR\<close>, and local
  address 0: the error of \<^verbatim>\<open>alloc_local_addr\<close> is not carried into \<^verbatim>\<open>err\<close>, so the normal world is told
  that it is connected.
\<close>

theorem conn_req_full_reports_success:
  assumes "ept_wf dev" "\<forall>i<TIPC_ADDR_MAX_NUM. routes dev (ept_to_addr i) \<noteq> None"
    and "ipc_port_connect_async (td_guest dev) (td_uuid dev) (strncpy req TIPC_MAX_SRV_NAME_LEN)
        TIPC_MAX_SRV_NAME_LEN 0 k = Some (NO_ERROR, Some hp, k1)"
    and "handle_close hp k1 = Some k2"
  shows "handle_conn_req dev remote req k = send_conn_rsp dev 0 remote 0 0 0 k2"
proof -
  obtain b dev' where al: "alloc_local_addr dev remote hp = (b, dev')" by (cases "alloc_local_addr dev remote hp")
  have "bitmap_test (td_inuse dev) i" if "i < TIPC_ADDR_MAX_NUM" for i
    using assms(2) that routes_slot [OF that, of dev] by (auto split: if_splits)
  moreover have "bitmap_wf TIPC_ADDR_MAX_NUM (td_inuse dev)" using assms(1) by (simp add: ept_wf_def)
  ultimately have "bitmap_ffz (td_inuse dev) TIPC_ADDR_MAX_NUM < 0"
    using eslots.find_free by (metis not_less)
  then have "b = 0" "dev' = dev" using al by (simp_all add: alloc_local_addr_def)
  then show ?thesis
    using assms(3,4) al by (simp add: handle_conn_req_def err_simps)
qed

text \<open>A device with all endpoints in use, and its connection request.\<close>

definition ep_full :: tipc_dev where
  "ep_full = ep_dev\<lparr>td_inuse := replicate 4 (NOT 0), td_epts := replicate 256 \<lparr>ept_remote = 9, ept_chan = Some (HChan 9)\<rparr>\<rparr>"

lemma ept_full_wf: "ept_wf ep_full" "i < TIPC_ADDR_MAX_NUM \<Longrightarrow> routes ep_full (ept_to_addr i) \<noteq> None"
proof -
  have used: "bitmap_test (td_inuse ep_full) i" if "i < TIPC_ADDR_MAX_NUM" for i
    using that by (simp add: bitmap_test_bit ep_full_def TIPC_ADDR_MAX_NUM_def nth_replicate all_ones_bit)
  show "ept_wf ep_full"
    using used by (simp add: ept_wf_def) (simp add: ep_full_def TIPC_ADDR_MAX_NUM_def bitmap_wf_def BITMAP_NUM_WORDS_def)
  show "routes ep_full (ept_to_addr i) \<noteq> None" if "i < TIPC_ADDR_MAX_NUM"
    using used [OF that] that by (simp add: routes_slot) (simp add: ep_full_def TIPC_ADDR_MAX_NUM_def)
qed

theorem conn_req_full_reports_success_witness:
  "\<exists>k2. handle_conn_req ep_full 7 (112 # replicate 255 0) ep_kern = send_conn_rsp ep_full 0 7 0 0 0 k2"
proof -
  have "map_option (\<lambda>(r, h, k1). (r, h, handle_close (HChan 2) k1 = None))
      (ipc_port_connect_async (td_guest ep_full) (td_uuid ep_full) (strncpy (112 # replicate 255 0) TIPC_MAX_SRV_NAME_LEN)
        TIPC_MAX_SRV_NAME_LEN 0 ep_kern) = Some (NO_ERROR, Some (HChan 2), False)"
    by code_simp
  then obtain k1 k2 where "ipc_port_connect_async (td_guest ep_full) (td_uuid ep_full)
      (strncpy (112 # replicate 255 0) TIPC_MAX_SRV_NAME_LEN) TIPC_MAX_SRV_NAME_LEN 0 ep_kern =
      Some (NO_ERROR, Some (HChan 2), k1)" "handle_close (HChan 2) k1 = Some k2"
    by auto
  from conn_req_full_reports_success [OF ept_full_wf(1) _ this] ept_full_wf(2) show ?thesis by blast
qed

text \<open>
  Resetting an active device whose table is well formed, as it is in every state
  of a bridge (\<open>bridge_wf\<close>), leaves no endpoint: every channel bound in the table is
  taken out of the handle list, loses its cookie and is closed, in the order of the addresses; both
  queues are unmapped, both threads are gone and may be started again, and the device is in the reset
  state.
\<close>

theorem reset_drops_all_endpoints:
  assumes "ept_wf dev" "td_state dev = VDEV_STATE_ACTIVE" "tipc_dev_reset rx_join tx_join dev k = Some (r, dev', k')"
  shows "r = NO_ERROR \<and> td_state dev' = VDEV_STATE_RESET \<and> (\<forall>a. routes dev' a = None) \<and>
    detach_all (td_hlist dev)
      (List.map_filter (\<lambda>i. map_option snd (routes dev (ept_to_addr i))) [0..<TIPC_ADDR_MAX_NUM]) k = Some k' \<and>
    vq_region (td_rxq dev') = None \<and> vq_region (td_txq dev') = None \<and>
    \<not> td_rx_thread dev' \<and> \<not> td_tx_thread dev' \<and> \<not> td_rx_stop dev' \<and> \<not> td_tx_stop dev'"
  using tipc_dev_reset_eq [OF assms(1) _ assms(3)] assms(2)
  by (simp add: bound_channels_routes [OF assms(1)])

lemma reset_close_loop_skip:
  "\<forall>i\<in>set slots. \<not> bitmap_test (td_inuse dev) i \<Longrightarrow> reset_close_loop slots dev k = Some (dev, k)"
  by (induction slots) simp_all

lemma tipc_dev_reset_runs:
  assumes "td_state dev \<noteq> VDEV_STATE_RESET" "td_inuse dev = 1 # replicate 3 0"
    and "ept_chan (td_epts dev ! 0) = Some c" "detach (td_hlist dev) c k = Some k'"
  shows "\<exists>dev'. tipc_dev_reset 0 0 dev k = Some (NO_ERROR, dev', k')"
proof -
  define d where "d = dev\<lparr>td_rx_stop := True, td_rxq := vqueue_signal_avail (td_rxq dev),
      td_rx_thread := False, td_rx_stop := False, td_tx_stop := True\<rparr>"
  have use: "td_inuse d = 1 # replicate 3 0" "td_epts d = td_epts dev" "td_hlist d = td_hlist dev"
    using assms(2) by (simp_all add: d_def)
  have wf: "bitmap_wf TIPC_ADDR_MAX_NUM (td_inuse d)"
    by (simp add: use bitmap_wf_def BITMAP_NUM_WORDS_def TIPC_ADDR_MAX_NUM_def)
  have words: "(1 # replicate 3 0) ! j = (if j = 0 then 1 else 0 :: u64)" if "j < 4" for j
    using that by (cases j) auto
  have bits: "bitmap_test (td_inuse d) i \<longleftrightarrow> i = 0" if "i < TIPC_ADDR_MAX_NUM" for i
    using that by (auto simp: use bitmap_test_bit words TIPC_ADDR_MAX_NUM_def bit_1_iff split: if_splits)
  have slot: "unat (addr_to_slot (ept_to_addr 0)) = 0" using ept_slot_addr [of 0] by (simp add: TIPC_ADDR_MAX_NUM_def)
  have "[0..<TIPC_ADDR_MAX_NUM] = 0 # [1..<TIPC_ADDR_MAX_NUM]" by (simp add: TIPC_ADDR_MAX_NUM_def upt_conv_Cons)
  moreover have "reset_close_loop [1..<TIPC_ADDR_MAX_NUM] (free_local_addr d (ept_to_addr 0)) k' =
      Some (free_local_addr d (ept_to_addr 0), k')"
    using bits by (intro reset_close_loop_skip)
      (auto simp: free_local_addr_def slot eslots.unmark_used [OF wf] TIPC_ADDR_MAX_NUM_def)
  moreover have "bitmap_test (td_inuse d) 0" using bits [of 0] by (simp add: TIPC_ADDR_MAX_NUM_def)
  ultimately have "reset_close_loop [0..<TIPC_ADDR_MAX_NUM] d k = Some (free_local_addr d (ept_to_addr 0), k')"
    using assms(3,4) use by (auto simp: detach_def bind_Some_iff)
  then show ?thesis
    using assms(1) by (simp add: tipc_dev_reset_def d_def err_simps Let_def split_beta)
qed

theorem reset_drops_all_endpoints_witness:
  "\<exists>dev' k'. routes (ep_dev1\<lparr>td_state := VDEV_STATE_ACTIVE\<rparr>) 1000 = Some (7, HChan 2) \<and>
     tipc_dev_reset 0 0 (ep_dev1\<lparr>td_state := VDEV_STATE_ACTIVE\<rparr>) ep_kern1 = Some (NO_ERROR, dev', k') \<and>
     routes dev' 1000 = None"
proof -
  let ?dev = "ep_dev1\<lparr>td_state := VDEV_STATE_ACTIVE\<rparr>"
  have same: "same_epts ep_dev1 ?dev" by (simp add: same_epts_def)
  have wf: "ept_wf ?dev" using ep_dev1_wf same by (simp add: same_epts_wf)
  have use: "td_inuse ep_dev1 = 1 # replicate 3 0" by code_simp
  have chan: "ept_chan (td_epts ep_dev1 ! 0) = Some (HChan 2)" by code_simp
  have l: "td_hlist ep_dev1 = 0" by code_simp
  have "map_option (\<lambda>_. ()) (detach 0 (HChan 2) ep_kern1) = Some ()" by code_simp
  then obtain k' where "detach (td_hlist ?dev) (HChan 2) ep_kern1 = Some k'"
    by (cases "detach 0 (HChan 2) ep_kern1") (simp_all add: l)
  with tipc_dev_reset_runs [of ?dev "HChan 2" ep_kern1 k'] use chan
  obtain dev' where r: "tipc_dev_reset 0 0 ?dev ep_kern1 = Some (NO_ERROR, dev', k')" by auto
  have "routes dev' 1000 = None" using reset_drops_all_endpoints [OF wf _ r] by simp
  moreover have "routes ?dev 1000 = Some (7, HChan 2)" using ep_routes same by (simp add: same_epts_routes)
  ultimately show ?thesis using r by blast
qed

end
