(* ===== verification/Memlog.thy ===== *)
theory Memlog
  imports Vqueue
begin

text \<open>
  The secure log shared with the normal world: \<^verbatim>\<open>lib/memlog/memlog.c\<close> over the ring buffer of
  \<^verbatim>\<open>trusty-log.h\<close>.  A log holds the bytes of its mapping after the 12-byte header; writing past the
  mapping is a panic.
\<close>

definition SM_ERR_UNDEFINED_SMC :: int where "SM_ERR_UNDEFINED_SMC = 0xFFFFFFFF"
definition SM_ERR_INVALID_PARAMETERS :: int where "SM_ERR_INVALID_PARAMETERS = -2"
definition SM_ERR_INTERRUPTED :: int where "SM_ERR_INTERRUPTED = -3"
definition SM_ERR_UNEXPECTED_RESTART :: int where "SM_ERR_UNEXPECTED_RESTART = -4"
definition SM_ERR_BUSY :: int where "SM_ERR_BUSY = -5"
definition SM_ERR_INTERLEAVED_SMC :: int where "SM_ERR_INTERLEAVED_SMC = -6"
definition SM_ERR_INTERNAL_FAILURE :: int where "SM_ERR_INTERNAL_FAILURE = -7"
definition SM_ERR_NOT_SUPPORTED :: int where "SM_ERR_NOT_SUPPORTED = -8"
definition SM_ERR_NOT_ALLOWED :: int where "SM_ERR_NOT_ALLOWED = -9"
definition SM_ERR_FIQ_INTERRUPTED :: int where "SM_ERR_FIQ_INTERRUPTED = -12"
definition SM_ERR_CPU_IDLE :: int where "SM_ERR_CPU_IDLE = -13"
definition SM_ERR_NOP_INTERRUPTED :: int where "SM_ERR_NOP_INTERRUPTED = -14"
definition SM_ERR_NOP_DONE :: int where "SM_ERR_NOP_DONE = -15"

record log_rb =
  rb_alloc :: u32
  rb_put :: u32
  rb_hdr_sz :: u32
  rb_data :: "byte list"

record memlog =
  ml_rb :: log_rb
  ml_rb_sz :: nat
  ml_region :: nat
  ml_buf_pa :: u64
  ml_buf_sz :: nat

text \<open>The list of logs, most recent first.  The registered callbacks are those of the listed logs.\<close>

record memlog_state =
  ms_logs :: "memlog list"
  ms_vm :: vmspace

definition memlog_get_by_pa :: "u64 \<Rightarrow> memlog list \<Rightarrow> memlog option" where
  "memlog_get_by_pa pa logs = find (\<lambda>l. ml_buf_pa l = pa) logs"

fun memlog_is_mem_registered :: "u64 \<Rightarrow> nat \<Rightarrow> memlog list \<Rightarrow> bool" where
  "memlog_is_mem_registered pa sz [] = False"
| "memlog_is_mem_registered pa sz (l # ls) =
     (if pa + of_nat sz \<le> ml_buf_pa l then memlog_is_mem_registered pa sz ls
      else if pa \<ge> ml_buf_pa l + of_nat (ml_buf_sz l) then memlog_is_mem_registered pa sz ls
      else True)"

text \<open>\<^verbatim>\<open>__builtin_clz\<close> counts the leading zeros; it is undefined for 0.\<close>

definition builtin_clz :: "u32 \<Rightarrow> nat" where
  "builtin_clz v = length (takeWhile (\<lambda>i. \<not> bit v (31 - i)) [0..<32])"

definition lower_pow2 :: "u32 \<Rightarrow> u32 option" where
  "lower_pow2 v = (if v = 0 then None else Some (push_bit (31 - builtin_clz v) 1))"

fun memlog_store :: "nat \<Rightarrow> u32 \<Rightarrow> byte list \<Rightarrow> byte list \<Rightarrow> byte list option" where
  "memlog_store rb_sz offset [] data = Some data"
| "memlog_store rb_sz offset (b # bs) data =
     (let i = unat (offset AND (of_nat rb_sz - 1)) in
      if i < length data then memlog_store rb_sz (offset + 1) bs (data[i := b]) else None)"

definition memlog_write_chunk :: "memlog \<Rightarrow> byte list \<Rightarrow> memlog option" where
  "memlog_write_chunk l str =
     (let rb = ml_rb l; log_offset = rb_alloc rb;
          rb = rb\<lparr>rb_alloc := rb_alloc rb + of_nat (length str)\<rparr> in
      do {
        data \<leftarrow> memlog_store (ml_rb_sz l) log_offset str (rb_data rb);
        Some (l\<lparr>ml_rb := rb\<lparr>rb_data := data, rb_put := rb_put rb + of_nat (length str)\<rparr>\<rparr>) })"

definition memlog_chunk_size :: nat where "memlog_chunk_size = 128"

fun memlog_write_loop :: "nat \<Rightarrow> byte list \<Rightarrow> memlog \<Rightarrow> memlog option" where
  "memlog_write_loop 0 str l = Some l"
| "memlog_write_loop (Suc n) str l = do {
     l \<leftarrow> memlog_write_chunk l (take memlog_chunk_size str);
     memlog_write_loop n (drop memlog_chunk_size str) l }"

definition memlog_write :: "memlog \<Rightarrow> byte list \<Rightarrow> memlog option" where
  "memlog_write l str = do {
     let n = length str div memlog_chunk_size;
     l \<leftarrow> memlog_write_loop n str l;
     let rem = drop (n * memlog_chunk_size) str;
     if length rem \<noteq> 0 then memlog_write_chunk l rem else Some l }"

text \<open>
  \<^verbatim>\<open>map_rb\<close>: whole megabytes are mapped around the buffer.  The result has the region and the number
  of mapped bytes from the buffer's address on.
\<close>

definition map_rb :: "u64 \<Rightarrow> nat \<Rightarrow> u32 \<Rightarrow> vmspace \<Rightarrow> int \<times> nat \<times> nat \<times> vmspace" where
  "map_rb pa sz guest v =
     (let mb = 2 ^ 20; offset = unat (pa AND (2 ^ 20 - 1)); pa' = pa AND NOT (2 ^ 20 - 1);
          sz' = ROUNDUP (sz + offset) mb;
          err = vm_pa_valid v pa' sz' guest in
      if err \<noteq> NO_ERROR then (err, 0, 0, v)
      else (let (err, region, v) = vmm_alloc_physical v in
        if err \<noteq> 0 then (err, 0, 0, v) else (NO_ERROR, region, sz' - offset, v)))"

text \<open>
  \<^verbatim>\<open>memlog_add\<close>: \<open>ok\<close> is the result of \<^verbatim>\<open>malloc\<close>, \<open>old\<close> the memory of the normal world behind the
  mapping.  The size of the ring is computed in 64 bits and cut to 32 by the call.
\<close>

definition memlog_add :: "bool \<Rightarrow> (nat \<Rightarrow> byte) \<Rightarrow> u64 \<Rightarrow> nat \<Rightarrow> u32 \<Rightarrow> memlog_state
    \<Rightarrow> (int \<times> memlog_state) option" where
  "memlog_add ok old pa sz guest s =
     (if memlog_is_mem_registered pa sz (ms_logs s) then Some (SM_ERR_INVALID_PARAMETERS, s)
      else if \<not> ok then Some (SM_ERR_INTERNAL_FAILURE, s)
      else case map_rb pa sz guest (ms_vm s) of (result, region, mapped, v) \<Rightarrow>
        if result \<noteq> NO_ERROR then Some (SM_ERR_INTERNAL_FAILURE, s\<lparr>ms_vm := v\<rparr>)
        else do {
          rb_sz \<leftarrow> lower_pow2 (ucast ((of_nat sz :: u64) - 12));
          let rb = \<lparr>rb_alloc = 0, rb_put = 0, rb_hdr_sz = rb_sz,
                    rb_data = map (\<lambda>i. old (i + 12)) [0..<mapped - 12]\<rparr>;
          let l = \<lparr>ml_rb = rb, ml_rb_sz = unat rb_sz, ml_region = region, ml_buf_pa = pa,
                   ml_buf_sz = sz\<rparr>;
          Some (0, s\<lparr>ms_logs := l # ms_logs s, ms_vm := v\<rparr>) })"

definition memlog_rm :: "u64 \<Rightarrow> memlog_state \<Rightarrow> int \<times> memlog_state" where
  "memlog_rm pa s =
     (case memlog_get_by_pa pa (ms_logs s) of
        None \<Rightarrow> (SM_ERR_INVALID_PARAMETERS, s)
      | Some l \<Rightarrow>
          let s' = s\<lparr>ms_logs := remove1 l (ms_logs s), ms_vm := vmm_free_region (ml_region l) (ms_vm s)\<rparr> in
          if ml_region l \<in> set (vm_live (ms_vm s)) then (0, s') else (SM_ERR_INTERNAL_FAILURE, s'))"

text \<open>\<^verbatim>\<open>memlog_rst\<close>: each turn removes the head of the list, so its length bounds the turns.\<close>

fun memlog_rst_loop :: "nat \<Rightarrow> memlog_state \<Rightarrow> int \<times> memlog_state" where
  "memlog_rst_loop 0 s = (NO_ERROR, s)"
| "memlog_rst_loop (Suc n) s =
     (case ms_logs s of
        [] \<Rightarrow> (NO_ERROR, s)
      | l # _ \<Rightarrow> (let (result, s) = memlog_rm (ml_buf_pa l) s in
                 if result = NO_ERROR then memlog_rst_loop n s else (result, s)))"

definition memlog_rst :: "memlog_state \<Rightarrow> int \<times> memlog_state" where
  "memlog_rst s = memlog_rst_loop (length (ms_logs s)) s"

fun memlog_print :: "byte list \<Rightarrow> memlog list \<Rightarrow> memlog list option" where
  "memlog_print str [] = Some []"
| "memlog_print str (l # ls) = do {
     l \<leftarrow> memlog_write l str;
     ls \<leftarrow> memlog_print str ls;
     Some (l # ls) }"

record smc32_args =
  smc_nr :: u32
  smc_params :: "u32 list"

definition smc_nr_of :: "u32 \<Rightarrow> u32 \<Rightarrow> u32 \<Rightarrow> u32 \<Rightarrow> u32" where
  "smc_nr_of entity fn fastcall smc64 =
     push_bit 31 (fastcall AND 1) OR push_bit 30 (smc64 AND 1)
     OR push_bit 24 (entity AND 0x3F) OR (fn AND 0xFFFF)"

definition SMC_STDCALL_NR :: "u32 \<Rightarrow> u32 \<Rightarrow> u32" where
  "SMC_STDCALL_NR entity fn = smc_nr_of entity fn 0 0"

definition SMC_ARGS_GUESTID :: nat where "SMC_ARGS_GUESTID = 6"
definition SMC_ENTITY_LOGGING :: u32 where "SMC_ENTITY_LOGGING = 51"

definition args_get_pa :: "smc32_args \<Rightarrow> u64" where
  "args_get_pa args = push_bit 32 (ucast (smc_params args ! 1)) OR ucast (smc_params args ! 0)"

definition args_get_sz :: "smc32_args \<Rightarrow> nat" where
  "args_get_sz args = unat (smc_params args ! 2)"

definition args_get_guest :: "smc32_args \<Rightarrow> u32" where
  "args_get_guest args = smc_params args ! SMC_ARGS_GUESTID"

definition memlog_stdcall :: "bool \<Rightarrow> (nat \<Rightarrow> byte) \<Rightarrow> smc32_args \<Rightarrow> memlog_state
    \<Rightarrow> (int \<times> memlog_state) option" where
  "memlog_stdcall ok old args s =
     (if smc_nr args = SMC_STDCALL_NR SMC_ENTITY_LOGGING 0 then Some (1, s)
      else if smc_nr args = SMC_STDCALL_NR SMC_ENTITY_LOGGING 1
      then memlog_add ok old (args_get_pa args) (args_get_sz args) (args_get_guest args) s
      else if smc_nr args = SMC_STDCALL_NR SMC_ENTITY_LOGGING 2 then Some (memlog_rm (args_get_pa args) s)
      else Some (SM_ERR_UNDEFINED_SMC, s))"

end
