(* ===== verification/Sm.thy ===== *)
theory Sm
  imports Memlog
begin

text \<open>
  The secure monitor library: the standard-call engine, API version and boot arguments of
  \<^verbatim>\<open>lib/sm/sm.c\<close> and the dispatch tables of \<^verbatim>\<open>lib/sm/smcall.c\<close>.
\<close>

definition SMC_NUM_ENTITIES :: nat where "SMC_NUM_ENTITIES = 64"
definition SMC_ENTITY_RESERVED :: nat where "SMC_ENTITY_RESERVED = 5"
definition SMC_ENTITY_TRUSTED_APP :: nat where "SMC_ENTITY_TRUSTED_APP = 48"
definition SMC_ENTITY_TRUSTED_OS :: nat where "SMC_ENTITY_TRUSTED_OS = 50"
definition SMC_ENTITY_SECURE_MONITOR :: nat where "SMC_ENTITY_SECURE_MONITOR = 60"
definition SMC_SC_RESTART_LAST :: u32 where "SMC_SC_RESTART_LAST = SMC_STDCALL_NR 60 0"
definition SMC_SC_RESTART_FIQ :: u32 where "SMC_SC_RESTART_FIQ = SMC_STDCALL_NR 60 2"
definition SMC_SC_NOP :: u32 where "SMC_SC_NOP = SMC_STDCALL_NR 60 3"

definition TRUSTY_API_VERSION_RESTART_FIQ :: u32 where "TRUSTY_API_VERSION_RESTART_FIQ = 1"
definition TRUSTY_API_VERSION_SMP :: u32 where "TRUSTY_API_VERSION_SMP = 2"
definition TRUSTY_API_VERSION_CURRENT :: u32 where "TRUSTY_API_VERSION_CURRENT = 3"

definition SMC_ENTITY :: "u32 \<Rightarrow> nat" where
  "SMC_ENTITY nr = unat (drop_bit 24 (nr AND 0x3F000000))"

definition SMC_FUNCTION :: "u32 \<Rightarrow> u32" where
  "SMC_FUNCTION nr = nr AND 0xFFFF"

section \<open>API version\<close>

record sm_version =
  sv_version :: u32
  sv_locked :: bool

definition smc_sm_api_version :: "smc32_args \<Rightarrow> sm_version \<Rightarrow> u32 \<times> sm_version" where
  "smc_sm_api_version args s =
     (let api_version = smc_params args ! 0 in
      if \<not> sv_locked s then
        (let api_version = (if api_version > TRUSTY_API_VERSION_CURRENT
                            then TRUSTY_API_VERSION_CURRENT else api_version)
         in (api_version, s\<lparr>sv_version := api_version\<rparr>))
      else (sv_version s, s))"

text \<open>\<open>embedded\<close> is the build option \<^verbatim>\<open>TRUSTY_EMBEDDED_BUILD\<close>, under which the version is not locked.\<close>

definition sm_get_api_version :: "bool \<Rightarrow> sm_version \<Rightarrow> u32 \<times> sm_version" where
  "sm_get_api_version embedded s =
     (let s = (if \<not> embedded \<and> \<not> sv_locked s then s\<lparr>sv_locked := True\<rparr> else s) in (sv_version s, s))"

section \<open>The standard call engine\<close>

record sm_std_call_state =
  sc_event :: bool
  sc_args :: smc32_args
  sc_ret :: int
  sc_done :: bool
  sc_active_cpu :: int
  sc_initial_cpu :: int
  sc_last_cpu :: int
  sc_restart_count :: nat

text \<open>The end of a turn of \<^verbatim>\<open>sm_stdcall_loop\<close>, after the handler has returned \<open>ret\<close>.\<close>

definition sm_stdcall_done :: "int \<Rightarrow> sm_std_call_state \<Rightarrow> sm_std_call_state" where
  "sm_stdcall_done ret s = s\<lparr>sc_ret := ret, sc_done := True, sc_event := False\<rparr>"

definition sm_queue_stdcall :: "nat \<Rightarrow> smc32_args \<Rightarrow> sm_std_call_state \<Rightarrow> int \<times> sm_std_call_state" where
  "sm_queue_stdcall cpu args s =
     (if sc_event s \<or> sc_done s then
        (if smc_nr args = SMC_SC_RESTART_LAST \<and> sc_active_cpu s = -1 then
           (0, s\<lparr>sc_restart_count := sc_restart_count s + 1, sc_active_cpu := int cpu\<rparr>)
         else (SM_ERR_BUSY, s))
      else if smc_nr args = SMC_SC_RESTART_LAST then (SM_ERR_UNEXPECTED_RESTART, s)
      else (0, s\<lparr>sc_initial_cpu := int cpu, sc_ret := SM_ERR_INTERNAL_FAILURE, sc_args := args,
                 sc_restart_count := 0, sc_event := True, sc_active_cpu := int cpu\<rparr>))"

text \<open>
  The loop of \<^verbatim>\<open>sm_return_and_wait_for_next_stdcall\<close> over the calls the normal world makes on this
  CPU.  \<open>nop\<close> is the no-op handler that \<^verbatim>\<open>sm_nopcall_table\<close> has for the call.  The results returned to
  the normal world are collected; when \<open>calls\<close> runs out the CPU is in the normal world.
\<close>

fun sm_return_and_wait :: "nat \<Rightarrow> (smc32_args \<Rightarrow> int) \<Rightarrow> smc32_args list \<Rightarrow> int \<Rightarrow> sm_std_call_state
    \<Rightarrow> int list \<times> smc32_args list \<times> sm_std_call_state" where
  "sm_return_and_wait cpu nop [] ret s = ([ret], [], s)"
| "sm_return_and_wait cpu nop (args # calls) ret s =
     (let (r, s) = (if smc_nr args = SMC_SC_NOP then (nop args, s) else sm_queue_stdcall cpu args s) in
      if r \<noteq> 0 then (let (rs, rest, s) = sm_return_and_wait cpu nop calls r s in (ret # rs, rest, s))
      else ([ret], calls, s))"

definition sm_irq_return_ns :: "nat \<Rightarrow> sm_std_call_state \<Rightarrow> int \<times> sm_std_call_state" where
  "sm_irq_return_ns cpu s =
     (if sc_active_cpu s = int cpu
      then (SM_ERR_INTERRUPTED, s\<lparr>sc_last_cpu := sc_active_cpu s, sc_active_cpu := -1\<rparr>)
      else (SM_ERR_NOP_INTERRUPTED, s))"

definition sm_get_stdcall_ret :: "bool \<Rightarrow> nat \<Rightarrow> sm_version \<Rightarrow> sm_std_call_state
    \<Rightarrow> int \<times> sm_version \<times> sm_std_call_state" where
  "sm_get_stdcall_ret embedded cpu v s =
     (if sc_active_cpu s \<noteq> int cpu then (SM_ERR_INTERNAL_FAILURE, v, s)
      else let s = s\<lparr>sc_last_cpu := sc_active_cpu s, sc_active_cpu := -1\<rparr> in
        if sc_done s then (sc_ret s, v, s\<lparr>sc_done := False\<rparr>)
        else let (ver, v) = sm_get_api_version embedded v in
          ((if ver \<ge> TRUSTY_API_VERSION_SMP then SM_ERR_CPU_IDLE
            else if \<not> embedded \<and> sc_restart_count s \<noteq> 0 then SM_ERR_BUSY
            else SM_ERR_INTERRUPTED), v, s))"

text \<open>The choice \<^verbatim>\<open>sm_wait_for_smcall\<close> makes before it returns to the normal world.\<close>

definition sm_wait_for_smcall :: "bool \<Rightarrow> nat \<Rightarrow> sm_version \<Rightarrow> sm_std_call_state
    \<Rightarrow> int \<times> sm_version \<times> sm_std_call_state" where
  "sm_wait_for_smcall embedded cpu v s =
     (if int cpu = sc_active_cpu s then sm_get_stdcall_ret embedded cpu v s
      else (SM_ERR_NOP_DONE, v, s))"

text \<open>\<^verbatim>\<open>sm_handle_fiq\<close> over the calls that come back; \<^term>\<open>None\<close> while the expected one has not come.\<close>

fun sm_fiq_loop :: "u32 \<Rightarrow> smc32_args list \<Rightarrow> int list \<times> smc32_args list option" where
  "sm_fiq_loop expected [] = ([], None)"
| "sm_fiq_loop expected (a # as) =
     (if smc_nr a = expected then ([], Some as)
      else (let (rs, rest) = sm_fiq_loop expected as in (SM_ERR_INTERLEAVED_SMC # rs, rest)))"

definition sm_handle_fiq :: "bool \<Rightarrow> sm_version \<Rightarrow> smc32_args list
    \<Rightarrow> int list \<times> smc32_args list option \<times> sm_version" where
  "sm_handle_fiq embedded v calls =
     (let (ver, v) = sm_get_api_version embedded v;
          (first, expected) = (if ver \<ge> TRUSTY_API_VERSION_RESTART_FIQ
                               then (SM_ERR_FIQ_INTERRUPTED, SMC_SC_RESTART_FIQ)
                               else (SM_ERR_INTERRUPTED, SMC_SC_RESTART_LAST));
          (rs, rest) = sm_fiq_loop expected calls
      in (first # rs, rest, v))"

section \<open>Boot arguments\<close>

record boot_args_state =
  ba_args :: "nat option"
  ba_refcnt :: int
  ba_size :: nat
  ba_freed :: nat
  ba_threads_resumed :: bool

definition sm_get_boot_args :: "bool \<Rightarrow> boot_args_state \<Rightarrow> int \<times> (nat \<times> nat) option \<times> boot_args_state" where
  "sm_get_boot_args ptrs_ok s =
     (if \<not> ptrs_ok then (ERR_INVALID_ARGS, None, s)
      else case ba_args s of
        None \<Rightarrow> (ERR_NOT_CONFIGURED, None, s)
      | Some p \<Rightarrow> (NO_ERROR, Some (p, ba_size s), s\<lparr>ba_refcnt := ba_refcnt s + 1\<rparr>))"

definition sm_put_boot_args :: "boot_args_state \<Rightarrow> boot_args_state" where
  "sm_put_boot_args s =
     (case ba_args s of
        None \<Rightarrow> s
      | Some p \<Rightarrow>
          let s = s\<lparr>ba_refcnt := ba_refcnt s - 1\<rparr> in
          if ba_refcnt s = 0
          then s\<lparr>ba_args := None, ba_freed := Suc (ba_freed s), ba_threads_resumed := True\<rparr>
          else s)"

definition sm_release_boot_args :: "boot_args_state \<Rightarrow> boot_args_state" where
  "sm_release_boot_args s =
     (if ba_args s \<noteq> None then sm_put_boot_args s else s\<lparr>ba_threads_resumed := True\<rparr>)"

section \<open>Dispatch\<close>

text \<open>A handler of the tables: the one of the secure monitor, or the one an entity registered.\<close>

datatype smc_handler = SMC_UNDEFINED | SMC_SECURE_MONITOR | SMC_OF_ENTITY nat

record smc_tables =
  st_fastcall :: "smc_handler list"
  st_nopcall :: "smc_handler list"
  st_stdcall :: "smc_handler list"

record smc32_entity =
  en_fastcall :: "smc_handler option"
  en_nopcall :: "smc_handler option"
  en_stdcall :: "smc_handler option"

definition smc_tables_init :: smc_tables where
  "smc_tables_init =
     \<lparr>st_fastcall = (replicate SMC_NUM_ENTITIES SMC_UNDEFINED)[SMC_ENTITY_SECURE_MONITOR := SMC_SECURE_MONITOR],
      st_nopcall = (replicate SMC_NUM_ENTITIES SMC_UNDEFINED)[0 := SMC_SECURE_MONITOR],
      st_stdcall = (replicate SMC_NUM_ENTITIES SMC_UNDEFINED)[SMC_ENTITY_SECURE_MONITOR := SMC_SECURE_MONITOR]\<rparr>"

definition sm_register_entity :: "nat \<Rightarrow> smc32_entity option \<Rightarrow> smc_tables \<Rightarrow> int \<times> smc_tables" where
  "sm_register_entity entity_nr entity t =
     (if entity_nr \<ge> SMC_NUM_ENTITIES then (ERR_INVALID_ARGS, t)
      else if entity_nr \<ge> SMC_ENTITY_RESERVED \<and> entity_nr < SMC_ENTITY_TRUSTED_APP
      then (ERR_NOT_ALLOWED, t)
      else case entity of None \<Rightarrow> (ERR_INVALID_ARGS, t)
      | Some e \<Rightarrow>
        if en_fastcall e = None \<and> en_stdcall e = None then (ERR_NOT_VALID, t)
        else if st_fastcall t ! entity_nr \<noteq> SMC_UNDEFINED \<or> st_nopcall t ! entity_nr \<noteq> SMC_UNDEFINED
                \<or> st_stdcall t ! entity_nr \<noteq> SMC_UNDEFINED
        then (ERR_ALREADY_EXISTS, t)
        else
          let t = (case en_fastcall e of None \<Rightarrow> t | Some h \<Rightarrow> t\<lparr>st_fastcall := (st_fastcall t)[entity_nr := h]\<rparr>);
              t = (case en_nopcall e of None \<Rightarrow> t | Some h \<Rightarrow> t\<lparr>st_nopcall := (st_nopcall t)[entity_nr := h]\<rparr>);
              t = (case en_stdcall e of None \<Rightarrow> t | Some h \<Rightarrow> t\<lparr>st_stdcall := (st_stdcall t)[entity_nr := h]\<rparr>)
          in (NO_ERROR, t))"

definition smc_undefined :: "smc32_args \<Rightarrow> int" where
  "smc_undefined args = SM_ERR_UNDEFINED_SMC"

definition smc_restart_stdcall :: "smc32_args \<Rightarrow> int" where
  "smc_restart_stdcall args = SM_ERR_UNEXPECTED_RESTART"

definition smc_nop_stdcall :: "smc32_args \<Rightarrow> int" where
  "smc_nop_stdcall args = 0"

definition smc_nop_secure_monitor :: "smc32_args \<Rightarrow> int" where
  "smc_nop_secure_monitor args = (if smc_params args ! 0 = 0 then 0 else SM_ERR_UNDEFINED_SMC)"

definition sm_stdcall_function_table :: "(smc32_args \<Rightarrow> int) list" where
  "sm_stdcall_function_table = [smc_restart_stdcall, smc_nop_stdcall, smc_restart_stdcall, smc_undefined]"

definition smc_stdcall_secure_monitor :: "smc32_args \<Rightarrow> int" where
  "smc_stdcall_secure_monitor args =
     (let f = unat (SMC_FUNCTION (smc_nr args)) in
      if f < length sm_stdcall_function_table then (sm_stdcall_function_table ! f) args
      else smc_undefined args)"

text \<open>\<open>version\<close> is \<^verbatim>\<open>lk_version\<close>; the index is a signed 32-bit integer widened to \<^verbatim>\<open>size_t\<close>.\<close>

definition smc_get_version_str :: "byte list \<Rightarrow> smc32_args \<Rightarrow> int" where
  "smc_get_version_str version args =
     (let index = smc_params args ! 0 in
      if index = - 1 then int (length version)
      else if unat (scast index :: u64) \<ge> length version then SM_ERR_INVALID_PARAMETERS
      else uint (version ! unat (scast index :: u64)))"

text \<open>The call that \<^verbatim>\<open>sm_stdcall_loop\<close> makes through the table; \<open>ent\<close> are the registered handlers.\<close>

definition sm_stdcall_dispatch :: "(nat \<Rightarrow> smc32_args \<Rightarrow> int) \<Rightarrow> smc_tables \<Rightarrow> smc32_args \<Rightarrow> int" where
  "sm_stdcall_dispatch ent t args =
     (case st_stdcall t ! SMC_ENTITY (smc_nr args) of
        SMC_UNDEFINED \<Rightarrow> smc_undefined args
      | SMC_SECURE_MONITOR \<Rightarrow> smc_stdcall_secure_monitor args
      | SMC_OF_ENTITY e \<Rightarrow> ent e args)"

definition sm_nopcall_dispatch :: "(nat \<Rightarrow> smc32_args \<Rightarrow> int) \<Rightarrow> smc_tables \<Rightarrow> smc32_args \<Rightarrow> int" where
  "sm_nopcall_dispatch ent t args =
     (case st_nopcall t ! SMC_ENTITY (smc_params args ! 0) of
        SMC_UNDEFINED \<Rightarrow> smc_undefined args
      | SMC_SECURE_MONITOR \<Rightarrow> smc_nop_secure_monitor args
      | SMC_OF_ENTITY e \<Rightarrow> ent e args)"

end
