(* ===== verification/SmEngine.thy ===== *)
theory SmEngine
  imports Sm
begin

text \<open>
  The standard-call engine as a state machine.  The CPUs of the normal world queue calls, restart them,
  take interrupts and collect results in any order, and the secure thread completes the queued call at any
  time.  A log records what was accepted, completed and delivered: every accepted call is
  completed once, in order, and its result is delivered once.
\<close>

record sm_log =
  lg_queued :: "smc32_args list"
  lg_completed :: "(smc32_args \<times> int) list"
  lg_delivered :: "int list"

text \<open>A call is accepted when \<^verbatim>\<open>sm_queue_stdcall\<close> returns 0 on anything but a restart.\<close>

definition log_queue :: "smc32_args \<Rightarrow> int \<Rightarrow> sm_log \<Rightarrow> sm_log" where
  "log_queue args ret l =
     (if ret = 0 \<and> smc_nr args \<noteq> SMC_SC_RESTART_LAST then l\<lparr>lg_queued := lg_queued l @ [args]\<rparr> else l)"

text \<open>A result is delivered when the CPU that the call is active on finds it done.\<close>

definition log_return :: "nat \<Rightarrow> sm_std_call_state \<Rightarrow> int \<Rightarrow> sm_log \<Rightarrow> sm_log" where
  "log_return cpu s ret l =
     (if sc_active_cpu s = int cpu \<and> sc_done s then l\<lparr>lg_delivered := lg_delivered l @ [ret]\<rparr> else l)"

type_synonym engine = "sm_std_call_state \<times> sm_version \<times> sm_log"

inductive sm_step :: "bool \<Rightarrow> engine \<Rightarrow> engine \<Rightarrow> bool" for embedded where
  queue: "sm_queue_stdcall cpu args s = (ret, s') \<Longrightarrow> sm_step embedded (s, v, l) (s', v, log_queue args ret l)"
| complete: "sc_event s \<Longrightarrow>
    sm_step embedded (s, v, l) (sm_stdcall_done ret s, v, l\<lparr>lg_completed := lg_completed l @ [(sc_args s, ret)]\<rparr>)"
| interrupt: "sm_irq_return_ns cpu s = (ret, s') \<Longrightarrow> sm_step embedded (s, v, l) (s', v, l)"
| wait_return: "sm_wait_for_smcall embedded cpu v s = (ret, v', s') \<Longrightarrow>
    sm_step embedded (s, v, l) (s', v', log_return cpu s ret l)"
| version: "smc_sm_api_version args v = (ret, v') \<Longrightarrow> sm_step embedded (s, v, l) (s, v', l)"

inductive_simps sm_step_simps: "sm_step embedded (s, v, l) e'"

definition engine_start :: "engine \<Rightarrow> bool" where
  "engine_start e \<longleftrightarrow> (case e of (s, v, l) \<Rightarrow>
     \<not> sc_event s \<and> \<not> sc_done s \<and> sc_active_cpu s = -1 \<and> sv_version v \<le> TRUSTY_API_VERSION_CURRENT \<and>
     l = \<lparr>lg_queued = [], lg_completed = [], lg_delivered = []\<rparr>)"

inductive engine_reach :: "bool \<Rightarrow> engine \<Rightarrow> bool" for embedded where
  start: "engine_start e \<Longrightarrow> engine_reach embedded e"
| step: "engine_reach embedded e \<Longrightarrow> sm_step embedded e e' \<Longrightarrow> engine_reach embedded e'"

definition engine_inv :: "engine \<Rightarrow> bool" where
  "engine_inv e \<longleftrightarrow> (case e of (s, v, l) \<Rightarrow>
     \<not> (sc_event s \<and> sc_done s) \<and> (sc_active_cpu s \<noteq> -1 \<longrightarrow> sc_event s \<or> sc_done s) \<and>
     lg_queued l = map fst (lg_completed l) @ (if sc_event s then [sc_args s] else []) \<and>
     map snd (lg_completed l) = lg_delivered l @ (if sc_done s then [sc_ret s] else []) \<and>
     sv_version v \<le> TRUSTY_API_VERSION_CURRENT)"

lemma busy_codes: "SM_ERR_BUSY \<noteq> 0" "SM_ERR_UNEXPECTED_RESTART \<noteq> 0"
  by (simp_all add: SM_ERR_BUSY_def SM_ERR_UNEXPECTED_RESTART_def)

lemma version_bounded:
  assumes "smc_sm_api_version args v = (ret, v')" "sv_version v \<le> TRUSTY_API_VERSION_CURRENT"
  shows "sv_version v' \<le> TRUSTY_API_VERSION_CURRENT \<and> ret \<le> TRUSTY_API_VERSION_CURRENT"
  using assms by (auto simp: smc_sm_api_version_def Let_def split: if_splits)

lemma get_version_same: "sm_get_api_version embedded v = (ver, v') \<Longrightarrow> sv_version v' = sv_version v \<and> ver = sv_version v"
  by (auto simp: sm_get_api_version_def Let_def split: if_splits)

lemma engine_inv_step:
  assumes "sm_step embedded e e'" "engine_inv e"
  shows "engine_inv e'"
  using assms
proof cases
  case (queue cpu args s ret s' v l)
  then show ?thesis using assms(2) busy_codes
    by (auto simp: engine_inv_def sm_queue_stdcall_def log_queue_def split: if_splits)
next
  case (complete s v l ret)
  then show ?thesis using assms(2) by (auto simp: engine_inv_def sm_stdcall_done_def)
next
  case (interrupt cpu s ret s' v l)
  then show ?thesis using assms(2) by (auto simp: engine_inv_def sm_irq_return_ns_def split: if_splits)
next
  case (wait_return cpu v s ret v' s' l)
  then show ?thesis using assms(2) get_version_same
    by (auto simp: engine_inv_def sm_wait_for_smcall_def sm_get_stdcall_ret_def log_return_def Let_def
        split: if_splits prod.splits)
next
  case (version args v ret v' s l)
  then show ?thesis using assms(2) version_bounded by (auto simp: engine_inv_def)
qed

lemma engine_reach_inv: "engine_reach embedded e \<Longrightarrow> engine_inv e"
proof (induction rule: engine_reach.induct)
  case (start e)
  then show ?case by (auto simp: engine_start_def engine_inv_def)
next
  case (step e e')
  then show ?case using engine_inv_step by blast
qed

text \<open>The version is only changed by \<^verbatim>\<open>smc_sm_api_version\<close>, and not after it has been locked.\<close>

lemma version_locked_step:
  assumes "sm_step embedded (s, v, l) (s', v', l')" "sv_locked v"
  shows "v' = v"
  using assms unfolding sm_step_simps
  by (auto simp: smc_sm_api_version_def sm_wait_for_smcall_def sm_get_stdcall_ret_def sm_get_api_version_def Let_def
      split: if_splits)

lemma version_locked_steps:
  assumes "(sm_step embedded)\<^sup>*\<^sup>* (s, v, l) e" "sv_locked v"
  shows "fst (snd e) = v"
  using assms
proof (induction rule: rtranclp_induct)
  case base
  then show ?case by simp
next
  case (step e1 e2)
  then show ?case using version_locked_step by (metis prod.collapse)
qed

lemma engine_reach_steps:
  "(sm_step embedded)\<^sup>*\<^sup>* e e' \<Longrightarrow> engine_reach embedded e \<Longrightarrow> engine_reach embedded e'"
  by (induction rule: rtranclp_induct) (auto intro: engine_reach.step)

section \<open>Properties\<close>

text \<open>Property C17.  Standard calls are executed one at a time and exactly once, whatever the CPUs do: the
  calls accepted are the calls completed, in the same order, followed by the one that is running; the
  results of the completed calls are the results delivered, in the same order, followed by the one that is
  waiting to be collected; and a call that is active on some CPU is running or waiting to be
  collected, never both.\<close>

theorem stdcall_exactly_once:
  assumes "engine_reach embedded (s, v, l)"
  shows "lg_queued l = map fst (lg_completed l) @ (if sc_event s then [sc_args s] else []) \<and>
    map snd (lg_completed l) = lg_delivered l @ (if sc_done s then [sc_ret s] else []) \<and>
    \<not> (sc_event s \<and> sc_done s) \<and> (sc_active_cpu s \<noteq> -1 \<longrightarrow> sc_event s \<or> sc_done s)"
  using engine_reach_inv [OF assms] by (simp add: engine_inv_def)

definition engine0 :: sm_std_call_state where
  "engine0 = \<lparr>sc_event = False, sc_args = \<lparr>smc_nr = 0, smc_params = []\<rparr>, sc_ret = 0, sc_done = False,
     sc_active_cpu = -1, sc_initial_cpu = -1, sc_last_cpu = -1, sc_restart_count = 0\<rparr>"

definition log0 :: sm_log where "log0 = \<lparr>lg_queued = [], lg_completed = [], lg_delivered = []\<rparr>"

definition version0 :: sm_version where "version0 = \<lparr>sv_version = 3, sv_locked = False\<rparr>"

definition demo_call :: smc32_args where "demo_call = \<lparr>smc_nr = 0x32000001, smc_params = [7]\<rparr>"

lemma engine_reach0: "engine_reach embedded (engine0, version0, log0)"
  by (rule engine_reach.start)
    (simp add: engine_start_def engine0_def version0_def log0_def TRUSTY_API_VERSION_CURRENT_def)

text \<open>The witness: CPU 0 queues a call, is interrupted, the call completes, CPU 1 restarts and collects it.\<close>

theorem stdcall_exactly_once_witness:
  "\<exists>s v l. engine_reach False (s, v, l) \<and> lg_queued l = [demo_call] \<and> lg_delivered l = [42] \<and> \<not> sc_event s"
proof -
  define s1 where "s1 = snd (sm_queue_stdcall 0 demo_call engine0)"
  define s2 where "s2 = snd (sm_irq_return_ns 0 s1)"
  define s3 where "s3 = sm_stdcall_done 42 s2"
  define s4 where "s4 = snd (sm_queue_stdcall 1 (demo_call\<lparr>smc_nr := SMC_SC_RESTART_LAST\<rparr>) s3)"
  define s5 where "s5 = snd (snd (sm_wait_for_smcall False 1 version0 s4))"
  let ?l1 = "log0\<lparr>lg_queued := [demo_call]\<rparr>"
  let ?l2 = "?l1\<lparr>lg_completed := [(demo_call, 42)]\<rparr>"
  have nr: "smc_nr demo_call \<noteq> SMC_SC_RESTART_LAST"
    by (simp add: demo_call_def SMC_SC_RESTART_LAST_def SMC_STDCALL_NR_def smc_nr_of_def)
  have q: "sm_queue_stdcall 0 demo_call engine0 = (0, s1)"
    using nr by (simp add: s1_def sm_queue_stdcall_def engine0_def)
  have i: "sm_irq_return_ns 0 s1 = (SM_ERR_INTERRUPTED, s2)" "sc_event s2" "sc_args s2 = demo_call" "\<not> sc_done s2"
    "sc_active_cpu s2 = -1"
    using nr by (simp_all add: s2_def s1_def sm_queue_stdcall_def sm_irq_return_ns_def engine0_def)
  have r: "sm_queue_stdcall 1 (demo_call\<lparr>smc_nr := SMC_SC_RESTART_LAST\<rparr>) s3 = (0, s4)" "sc_active_cpu s4 = 1"
    "sc_done s4" "sc_ret s4 = 42" "\<not> sc_event s4"
    using i by (simp_all add: s4_def s3_def sm_queue_stdcall_def sm_stdcall_done_def)
  have w: "sm_wait_for_smcall False 1 version0 s4 = (42, version0, s5)"
    using r by (simp add: s5_def sm_wait_for_smcall_def sm_get_stdcall_ret_def Let_def)
  have "engine_reach False (s1, version0, ?l1)"
    using engine_reach.step [OF engine_reach0 sm_step.queue [OF q]] nr by (simp add: log_queue_def log0_def)
  from engine_reach.step [OF this sm_step.interrupt [OF i(1)]]
  have "engine_reach False (s2, version0, ?l1)" .
  from engine_reach.step [OF this sm_step.complete [OF i(2), where ret = 42]]
  have "engine_reach False (s3, version0, ?l2)" using i(3) by (simp add: s3_def log0_def)
  from engine_reach.step [OF this sm_step.queue [OF r(1)]]
  have "engine_reach False (s4, version0, ?l2)" by (simp add: log_queue_def)
  from engine_reach.step [OF this sm_step.wait_return [OF w]]
  have e: "engine_reach False (s5, version0, ?l2\<lparr>lg_delivered := [42]\<rparr>)"
    using r by (simp add: log_return_def log0_def)
  from stdcall_exactly_once [OF this] have "\<not> sc_event s5" by (simp split: if_splits)
  then show ?thesis
    by (intro exI [of _ s5] exI [of _ version0] exI [of _ "?l2\<lparr>lg_delivered := [42]\<rparr>"]) (use e in simp)
qed

text \<open>The API version never exceeds the one this code implements, and it is negotiated only until
  the engine has first acted on it: once locked, no later request changes it, whatever calls follow.\<close>

theorem api_version_fixed_once_used:
  assumes "engine_reach embedded (s, v, l)" and "(sm_step embedded)\<^sup>*\<^sup>* (s, v, l) (s', v', l')"
  shows "sv_version v' \<le> TRUSTY_API_VERSION_CURRENT \<and> (sv_locked v \<longrightarrow> v' = v)"
  using engine_reach_inv [OF engine_reach_steps [OF assms(2,1)]] version_locked_steps [OF assms(2)]
  by (simp add: engine_inv_def)

text \<open>The witness: the version is locked when a call is found not finished; a request for version 9 then
  changes nothing.\<close>

theorem api_version_fixed_once_used_witness:
  "\<exists>s v l. engine_reach False (s, v, l) \<and> sv_locked v \<and> snd (smc_sm_api_version \<lparr>smc_nr = 0, smc_params = [9]\<rparr> v) = v \<and>
    sv_version v \<le> TRUSTY_API_VERSION_CURRENT"
proof -
  define s1 where "s1 = snd (sm_queue_stdcall 0 demo_call engine0)"
  define w where "w = sm_wait_for_smcall False 0 version0 s1"
  define l1 where "l1 = log_queue demo_call 0 log0"
  have nr: "smc_nr demo_call \<noteq> SMC_SC_RESTART_LAST"
    by (simp add: demo_call_def SMC_SC_RESTART_LAST_def SMC_STDCALL_NR_def smc_nr_of_def)
  have q: "sm_queue_stdcall 0 demo_call engine0 = (0, s1)"
    using nr by (simp add: s1_def sm_queue_stdcall_def engine0_def)
  obtain r v s2 where w': "sm_wait_for_smcall False 0 version0 s1 = (r, v, s2)" using prod_cases3 by blast
  have lock: "sv_locked v"
    using w' nr by (auto simp: s1_def sm_queue_stdcall_def engine0_def sm_wait_for_smcall_def sm_get_stdcall_ret_def
        sm_get_api_version_def version0_def Let_def split: if_splits)
  have r1: "engine_reach False (s1, version0, l1)"
    using engine_reach.step [OF engine_reach0 sm_step.queue [OF q]] by (simp add: l1_def)
  note r2 = engine_reach.step [OF r1 sm_step.wait_return [OF w']]
  let ?v2 = "snd (smc_sm_api_version \<lparr>smc_nr = 0, smc_params = [9]\<rparr> v)"
  let ?l = "log_return 0 s1 r l1"
  have "sm_step False (s2, v, ?l) (s2, ?v2, ?l)"
    by (rule sm_step.version [of "\<lparr>smc_nr = 0, smc_params = [9]\<rparr>"]) (rule prod.collapse [symmetric])
  then have "(sm_step False)\<^sup>*\<^sup>* (s2, v, ?l) (s2, ?v2, ?l)" by simp
  note a = api_version_fixed_once_used [OF r2 this]
  have e: "?v2 = v" using a lock by blast
  have "sv_version v \<le> TRUSTY_API_VERSION_CURRENT" using a unfolding e by blast
  then show ?thesis using r2 lock e by metis
qed

end
