(* ===== verification/LogRing.thy ===== *)
theory LogRing
  imports Memlog
begin

text \<open>
  The secure log: whatever the normal world does to the indices it shares, a log that was registered with
  a sane size is written inside its ring only, in chunks as in one piece, and holds the last
  bytes written; registered logs never overlap.
\<close>

section \<open>Writing\<close>

text \<open>A ring is a power of two bytes that fit in the mapping.\<close>

definition ring_ok :: "memlog \<Rightarrow> bool" where
  "ring_ok l \<longleftrightarrow> (\<exists>j\<le>31. ml_rb_sz l = 2 ^ j) \<and> ml_rb_sz l \<le> length (rb_data (ml_rb l))"

lemma ring_index:
  assumes "j \<le> 31"
  shows "unat ((off :: u32) AND (of_nat (2 ^ j) - 1)) = unat off mod 2 ^ j"
proof -
  have "off AND (of_nat (2 ^ j) - 1) = take_bit j off" by (simp add: take_bit_eq_mask mask_eq_exp_minus_1)
  then have "unat (off AND (of_nat (2 ^ j) - 1)) = take_bit j (unat off)" by (simp only: unsigned_take_bit_eq)
  then show ?thesis by (simp only: take_bit_eq_mod)
qed

lemma unat_add_mod:
  assumes "j \<le> 31"
  shows "unat ((off :: u32) + of_nat i) mod 2 ^ j = (unat off + i) mod 2 ^ j"
proof -
  have "(2 :: nat) ^ j dvd 2 ^ 32" using assms by (intro le_imp_power_dvd) simp
  then show ?thesis
    by (simp add: unat_word_ariths unat_of_nat mod_mod_cancel take_bit_eq_mod mod_add_right_eq)
qed

lemma memlog_store_ok:
  assumes "n = 2 ^ j" "j \<le> 31" "n \<le> length data"
  shows "\<exists>data'. memlog_store n off bs data = Some data' \<and> length data' = length data \<and>
    (\<forall>p. (\<forall>i<length bs. (unat off + i) mod n \<noteq> p) \<longrightarrow> data' ! p = data ! p) \<and>
    (\<forall>i<length bs. length bs - i \<le> n \<longrightarrow> data' ! ((unat off + i) mod n) = bs ! i)"
  using assms
proof (induction bs arbitrary: off data)
  case Nil
  then show ?case by simp
next
  case (Cons b bs)
  let ?i = "unat off mod n"
  have pos: "0 < n" using Cons.prems(1) by simp
  have idx: "unat (off AND (of_nat n - 1)) = ?i" using ring_index [OF Cons.prems(2)] Cons.prems(1) by simp
  have room: "?i < length data" using pos Cons.prems(3) by (meson less_le_trans mod_less_divisor)
  have nxt: "(unat (off + 1) + i) mod n = (unat off + Suc i) mod n" for i
  proof -
    have "unat (off + 1) mod n = (unat off + 1) mod n"
      using unat_add_mod [OF Cons.prems(2), of off 1] Cons.prems(1) by simp
    then have "(unat (off + 1) mod n + i) mod n = ((unat off + 1) mod n + i) mod n" by (rule arg_cong)
    then show ?thesis by (simp add: mod_add_left_eq)
  qed
  have "n \<le> length (data[?i := b])" using Cons.prems(3) by simp
  from Cons.IH [OF Cons.prems(1,2) this, of "off + 1"] obtain data' where d:
    "memlog_store n (off + 1) bs (data[?i := b]) = Some data'" "length data' = length data"
    "\<forall>p. (\<forall>i<length bs. (unat off + Suc i) mod n \<noteq> p) \<longrightarrow> data' ! p = data[?i := b] ! p"
    "\<forall>i<length bs. length bs - i \<le> n \<longrightarrow> data' ! ((unat off + Suc i) mod n) = bs ! i"
    unfolding nxt by auto
  show ?case
  proof (intro exI [of _ data'] conjI allI impI)
    show "memlog_store n off (b # bs) data = Some data'" using d(1) idx room by (simp add: Let_def)
    show "length data' = length data" by (rule d(2))
  next
    fix p assume p: "\<forall>i<length (b # bs). (unat off + i) mod n \<noteq> p"
    have "?i \<noteq> p" using p by (metis add.right_neutral length_greater_0_conv list.distinct(1))
    moreover have "\<forall>i<length bs. (unat off + Suc i) mod n \<noteq> p" using p by auto
    ultimately show "data' ! p = data ! p" using d(3) by simp
  next
    fix i assume i: "i < length (b # bs)" "length (b # bs) - i \<le> n"
    show "data' ! ((unat off + i) mod n) = (b # bs) ! i"
    proof (cases i)
      case (Suc m)
      then show ?thesis using d(4) i by auto
    next
      case 0
      have "(unat off + Suc m) mod n \<noteq> ?i" if "m < length bs" for m
      proof
        assume "(unat off + Suc m) mod n = ?i"
        then have "n dvd Suc m" using mod_eq_dvd_iff_nat [of "unat off" "unat off + Suc m" n] by simp
        moreover have "Suc m < n" using that i 0 by simp
        ultimately show False by (meson dvd_imp_le not_less zero_less_Suc)
      qed
      then show ?thesis using d(3) room 0 by auto
    qed
  qed
qed

text \<open>Writing in chunks is writing in one piece.\<close>

lemma memlog_store_append:
  "memlog_store n off (xs @ ys) data =
     Option.bind (memlog_store n off xs data) (memlog_store n (off + of_nat (length xs)) ys)"
  by (induction xs arbitrary: off data) (simp_all add: Let_def add.assoc add.commute [of 1])

lemma memlog_write_chunk_append:
  "memlog_write_chunk l (xs @ ys) = Option.bind (memlog_write_chunk l xs) (\<lambda>l. memlog_write_chunk l ys)"
  by (cases "memlog_store (ml_rb_sz l) (rb_alloc (ml_rb l)) xs (rb_data (ml_rb l))")
    (simp_all add: memlog_write_chunk_def Let_def memlog_store_append add.assoc)

lemma memlog_write_chunk_Nil: "memlog_write_chunk l [] = Some l"
  by (cases l, cases "ml_rb l") (simp add: memlog_write_chunk_def Let_def)

lemma memlog_write_loop_eq:
  "n * memlog_chunk_size \<le> length str \<Longrightarrow>
   memlog_write_loop n str l = memlog_write_chunk l (take (n * memlog_chunk_size) str)"
proof (induction n arbitrary: str l)
  case 0
  then show ?case by (simp add: memlog_write_chunk_Nil)
next
  case (Suc n)
  have "take (Suc n * memlog_chunk_size) str =
      take memlog_chunk_size str @ take (n * memlog_chunk_size) (drop memlog_chunk_size str)"
    by (simp add: take_add)
  moreover have "memlog_write_loop n (drop memlog_chunk_size str) =
      (\<lambda>l. memlog_write_chunk l (take (n * memlog_chunk_size) (drop memlog_chunk_size str)))"
    using Suc by (intro ext) simp
  ultimately show ?case by (simp add: memlog_write_chunk_append)
qed

lemma memlog_write_eq: "memlog_write l str = memlog_write_chunk l str"
proof -
  let ?n = "length str div memlog_chunk_size"
  have "?n * memlog_chunk_size \<le> length str" by (simp add: div_times_less_eq_dividend)
  note loop = memlog_write_loop_eq [OF this]
  have "memlog_write l str = Option.bind (memlog_write_chunk l (take (?n * memlog_chunk_size) str))
      (\<lambda>l. memlog_write_chunk l (drop (?n * memlog_chunk_size) str))"
    unfolding memlog_write_def Let_def loop
    by (intro Option.bind_cong refl) (simp add: memlog_write_chunk_Nil)
  then show ?thesis by (simp flip: memlog_write_chunk_append)
qed

section \<open>Registration\<close>

lemma lower_pow2_ok:
  assumes "v \<noteq> 0"
  shows "\<exists>j\<le>31. lower_pow2 v = Some (2 ^ j) \<and> unat (2 ^ j :: u32) = 2 ^ j \<and> 2 ^ j \<le> unat v"
proof -
  let ?P = "\<lambda>i. \<not> bit v (31 - i)" and ?c = "builtin_clz v"
  obtain n where n: "bit v n" using assms by (auto simp: bit_eq_iff)
  then have n31: "n \<le> 31" using bit_imp_le_length [OF n] by simp
  have clt: "?c < 32"
  proof (rule ccontr)
    assume "\<not> ?c < 32"
    then have "length (takeWhile ?P [0..<32]) = length [0..<32 :: nat]"
      using length_takeWhile_le [of ?P "[0..<32]"] by (simp add: builtin_clz_def)
    then have "\<forall>i<32. ?P i" by (metis takeWhile_eq_all_conv set_upt atLeastLessThan_iff length_takeWhile_le
          le_antisym nle_le takeWhile_eq_take take_all zero_le)
    then have "?P (31 - n)" by auto
    then show False using n n31 by simp
  qed
  then have "\<not> ?P ([0..<32] ! ?c)" using nth_length_takeWhile [of ?P "[0..<32]"] by (simp add: builtin_clz_def)
  then have b: "bit v (31 - ?c)" using clt by simp
  let ?j = "31 - ?c"
  have "bit (unat v) ?j" using b by (simp add: bit_unsigned_iff)
  then have "odd (unat v div 2 ^ ?j)" by (simp add: bit_iff_odd)
  then have "1 \<le> unat v div 2 ^ ?j" by (cases "unat v div 2 ^ ?j") auto
  then have "2 ^ ?j \<le> unat v" by (metis div_less not_less not_one_le_zero)
  moreover have "unat (2 ^ ?j :: u32) = 2 ^ ?j"
  proof -
    have "(2 :: nat) ^ ?j < 2 ^ 32" by (intro power_strict_increasing) simp_all
    then have "unat (of_nat (2 ^ ?j) :: u32) = 2 ^ ?j" by (intro unat_of_nat_less) simp
    then show ?thesis by simp
  qed
  moreover have "lower_pow2 v = Some (2 ^ ?j)" using assms by (simp add: lower_pow2_def push_bit_eq_mult)
  ultimately show ?thesis by (intro exI [of _ ?j]) simp
qed

text \<open>Two buffers in the memory of the normal world that do not overlap.\<close>

definition disjoint_bufs :: "memlog \<Rightarrow> memlog \<Rightarrow> bool" where
  "disjoint_bufs l m \<longleftrightarrow>
     unat (ml_buf_pa l) + ml_buf_sz l \<le> unat (ml_buf_pa m) \<or> unat (ml_buf_pa m) + ml_buf_sz m \<le> unat (ml_buf_pa l)"

definition log_ok :: "memlog \<Rightarrow> bool" where
  "log_ok l \<longleftrightarrow> ring_ok l \<and> ml_rb_sz l + 12 \<le> ml_buf_sz l \<and> unat (ml_buf_pa l) + ml_buf_sz l < 2 ^ 64"

definition logs_ok :: "memlog list \<Rightarrow> bool" where
  "logs_ok logs \<longleftrightarrow> (\<forall>l\<in>set logs. log_ok l) \<and> sorted_wrt disjoint_bufs logs"

lemma unat_plus_nat:
  assumes "unat (a :: u64) + n < 2 ^ 64"
  shows "unat (a + of_nat n) = unat a + n"
proof -
  have "unat (of_nat n :: u64) = n" using assms by (intro unat_of_nat_less) simp
  then show ?thesis using assms by (simp add: unat_word_ariths)
qed

text \<open>The overlap test is exact when no buffer runs past the end of memory.\<close>

lemma is_mem_registered_iff:
  assumes "\<forall>l\<in>set logs. log_ok l" and "unat pa + sz < 2 ^ 64"
  shows "memlog_is_mem_registered pa sz logs \<longleftrightarrow>
    (\<exists>l\<in>set logs. unat (ml_buf_pa l) < unat pa + sz \<and> unat pa < unat (ml_buf_pa l) + ml_buf_sz l)"
  using assms(1)
proof (induction logs)
  case Nil
  then show ?case by simp
next
  case (Cons l ls)
  have "unat (pa + of_nat sz) = unat pa + sz" by (rule unat_plus_nat [OF assms(2)])
  moreover have "unat (ml_buf_pa l + of_nat (ml_buf_sz l)) = unat (ml_buf_pa l) + ml_buf_sz l"
    using Cons.prems by (intro unat_plus_nat) (simp add: log_ok_def)
  ultimately show ?case using Cons by (auto simp: word_le_nat_alt)
qed

lemma map_rb_room:
  assumes "map_rb pa sz guest v = (NO_ERROR, region, mapped, v')"
  shows "sz \<le> mapped"
proof -
  let ?off = "unat (pa AND (2 ^ 20 - 1))"
  have "sz + ?off \<le> ROUNDUP (sz + ?off) (2 ^ 20)" by (rule le_ROUNDUP) simp
  moreover have "mapped = ROUNDUP (sz + ?off) (2 ^ 20) - ?off"
    using assms by (auto simp: map_rb_def Let_def NO_ERROR_def split: if_splits prod.splits)
  ultimately show ?thesis by simp
qed

lemma memlog_add_ok:
  assumes inv: "logs_ok (ms_logs s)" and sz: "12 < sz" "sz < 2 ^ 32" and pa: "unat pa + sz < 2 ^ 64"
  shows "\<exists>ret s'. memlog_add ok old pa sz guest s = Some (ret, s') \<and> logs_ok (ms_logs s') \<and>
    (ret \<noteq> 0 \<longrightarrow> ms_logs s' = ms_logs s) \<and>
    (ret = 0 \<longrightarrow> (\<exists>l. ms_logs s' = l # ms_logs s \<and> ml_buf_pa l = pa \<and> ml_buf_sz l = sz)) \<and>
    ((\<exists>l\<in>set (ms_logs s). unat (ml_buf_pa l) < unat pa + sz \<and> unat pa < unat (ml_buf_pa l) + ml_buf_sz l) \<longrightarrow>
       ret = SM_ERR_INVALID_PARAMETERS)"
proof -
  note reg = is_mem_registered_iff [OF _ pa, of "ms_logs s"]
  have all: "\<forall>l\<in>set (ms_logs s). log_ok l" using inv by (simp add: logs_ok_def)
  obtain result region mapped v where m: "map_rb pa sz guest (ms_vm s) = (result, region, mapped, v)"
    by (metis prod_cases4)
  have codes: "SM_ERR_INVALID_PARAMETERS \<noteq> 0" "SM_ERR_INTERNAL_FAILURE \<noteq> 0"
    by (simp_all add: SM_ERR_INVALID_PARAMETERS_def SM_ERR_INTERNAL_FAILURE_def)
  show ?thesis
  proof (cases "memlog_is_mem_registered pa sz (ms_logs s) \<or> \<not> ok \<or> result \<noteq> NO_ERROR")
    case True
    then show ?thesis using inv codes reg [OF all] by (auto simp: memlog_add_def m split: if_splits)
  next
    case False
    then have f: "\<not> memlog_is_mem_registered pa sz (ms_logs s)" ok "result = NO_ERROR" by simp_all
    let ?v = "ucast ((of_nat sz :: u64) - 12) :: u32"
    have "unat (of_nat sz :: u64) = sz" using sz(2) by (intro unat_of_nat_less) simp
    then have "unat ((of_nat sz :: u64) - 12) = sz - 12" using sz(1) by (simp add: unat_sub word_le_nat_alt)
    then have v: "unat ?v = sz - 12" using sz(2) by (simp add: unsigned_ucast_eq take_bit_nat_eq_self)
    then have "?v \<noteq> 0" using sz(1) by (metis unat_0 zero_less_diff less_irrefl)
    then obtain j where j: "j \<le> 31" "lower_pow2 ?v = Some (2 ^ j)" "unat (2 ^ j :: u32) = 2 ^ j" "2 ^ j \<le> sz - 12"
      using lower_pow2_ok v by metis
    let ?l = "\<lparr>ml_rb = \<lparr>rb_alloc = 0, rb_put = 0, rb_hdr_sz = 2 ^ j,
        rb_data = map (\<lambda>i. old (i + 12)) [0..<mapped - 12]\<rparr>, ml_rb_sz = 2 ^ j, ml_region = region,
      ml_buf_pa = pa, ml_buf_sz = sz\<rparr>"
    have run: "memlog_add ok old pa sz guest s = Some (0, s\<lparr>ms_logs := ?l # ms_logs s, ms_vm := v\<rparr>)"
      using f m j by (simp add: memlog_add_def Let_def)
    have "sz \<le> mapped" using map_rb_room m f(3) by simp
    then have "log_ok ?l" using j sz(1) pa by (auto simp: log_ok_def ring_ok_def)
    moreover have "\<forall>m\<in>set (ms_logs s). disjoint_bufs ?l m"
      using f(1) reg [OF all] by (auto simp: disjoint_bufs_def not_less)
    ultimately have "logs_ok (?l # ms_logs s)" using inv by (simp add: logs_ok_def)
    then show ?thesis using run f(1) reg [OF all] by auto
  qed
qed

section \<open>Properties\<close>

text \<open>Property C18.  Whatever value the shared \<^verbatim>\<open>alloc\<close> index has, writing a string of any length to a log with a
  sane ring returns, changes no byte outside the ring, advances \<^verbatim>\<open>alloc\<close> and \<^verbatim>\<open>put\<close> by its length
  modulo 2 to the 32, and leaves in the ring, at their positions from the old index on, the last bytes of the
  string that fit.\<close>

theorem memlog_write_in_ring:
  assumes "ring_ok l"
  shows "\<exists>l'. memlog_write l str = Some l' \<and> ring_ok l' \<and>
    rb_alloc (ml_rb l') = rb_alloc (ml_rb l) + of_nat (length str) \<and>
    rb_put (ml_rb l') = rb_put (ml_rb l) + of_nat (length str) \<and>
    length (rb_data (ml_rb l')) = length (rb_data (ml_rb l)) \<and>
    (\<forall>p\<ge>ml_rb_sz l. rb_data (ml_rb l') ! p = rb_data (ml_rb l) ! p) \<and>
    (\<forall>i<length str. length str - i \<le> ml_rb_sz l \<longrightarrow>
       rb_data (ml_rb l') ! ((unat (rb_alloc (ml_rb l)) + i) mod ml_rb_sz l) = str ! i)"
proof -
  obtain j where j: "j \<le> 31" "ml_rb_sz l = 2 ^ j" "ml_rb_sz l \<le> length (rb_data (ml_rb l))"
    using assms by (auto simp: ring_ok_def)
  from memlog_store_ok [OF j(2,1,3), of "rb_alloc (ml_rb l)" str] obtain d where d:
    "memlog_store (ml_rb_sz l) (rb_alloc (ml_rb l)) str (rb_data (ml_rb l)) = Some d"
    "length d = length (rb_data (ml_rb l))"
    "\<forall>p. (\<forall>i<length str. (unat (rb_alloc (ml_rb l)) + i) mod ml_rb_sz l \<noteq> p) \<longrightarrow> d ! p = rb_data (ml_rb l) ! p"
    "\<forall>i<length str. length str - i \<le> ml_rb_sz l \<longrightarrow> d ! ((unat (rb_alloc (ml_rb l)) + i) mod ml_rb_sz l) = str ! i"
    by blast
  have "0 < ml_rb_sz l" using j(2) by simp
  then have "x mod ml_rb_sz l \<noteq> p" if "ml_rb_sz l \<le> p" for p x
    using that mod_less_divisor [of "ml_rb_sz l" x] by linarith
  then have "\<forall>p\<ge>ml_rb_sz l. d ! p = rb_data (ml_rb l) ! p" using d(3) by simp
  then show ?thesis
    using d(1,2,4) j by (auto simp: memlog_write_eq memlog_write_chunk_def Let_def ring_ok_def)
qed

definition demo_log :: memlog where
  "demo_log = \<lparr>ml_rb = \<lparr>rb_alloc = 0xFFFFFFFF, rb_put = 0, rb_hdr_sz = 4, rb_data = [9, 9, 9, 9, 9]\<rparr>,
     ml_rb_sz = 4, ml_region = 0, ml_buf_pa = 0x1000, ml_buf_sz = 20\<rparr>"

text \<open>The witness: five bytes into a ring of four, from an index that wraps.\<close>

theorem memlog_write_in_ring_witness:
  "\<exists>l'. memlog_write demo_log [1, 2, 3, 4, 5] = Some l' \<and> rb_alloc (ml_rb l') = 4 \<and>
    rb_data (ml_rb l') ! 3 = 5 \<and> rb_data (ml_rb l') ! 4 = 9"
proof -
  have "ring_ok demo_log" unfolding ring_ok_def by (intro conjI exI [of _ 2]) (simp_all add: demo_log_def)
  note w = memlog_write_in_ring [OF this, of "[1, 2, 3, 4, 5]"]
  from w obtain l' where l': "memlog_write demo_log [1, 2, 3, 4, 5] = Some l'"
    "rb_alloc (ml_rb l') = rb_alloc (ml_rb demo_log) + of_nat (length [1, 2, 3, 4, 5 :: byte])"
    "\<forall>p\<ge>ml_rb_sz demo_log. rb_data (ml_rb l') ! p = rb_data (ml_rb demo_log) ! p"
    "\<forall>i<length [1, 2, 3, 4, 5 :: byte]. length [1, 2, 3, 4, 5 :: byte] - i \<le> ml_rb_sz demo_log \<longrightarrow>
       rb_data (ml_rb l') ! ((unat (rb_alloc (ml_rb demo_log)) + i) mod ml_rb_sz demo_log) = [1, 2, 3, 4, 5] ! i"
    by blast
  have "rb_data (ml_rb l') ! 3 = 5" using l'(4) [rule_format, of 4] by (simp add: demo_log_def)
  moreover have "rb_data (ml_rb l') ! 4 = 9" using l'(3) [rule_format, of 4] by (simp add: demo_log_def)
  moreover have "rb_alloc (ml_rb l') = 4" using l'(2) by (simp add: demo_log_def)
  ultimately show ?thesis using l'(1) by blast
qed

lemma sorted_wrt_remove1: "sorted_wrt P xs \<Longrightarrow> sorted_wrt P (remove1 x xs)"
  by (induction xs) (auto dest: notin_set_remove1)

text \<open>Distinct logs have distinct addresses, so \<^verbatim>\<open>memlog_rm\<close> unlinks exactly the log at the address.\<close>

lemma disjoint_bufs_pa: "log_ok l \<Longrightarrow> log_ok m \<Longrightarrow> disjoint_bufs l m \<Longrightarrow> ml_buf_pa l \<noteq> ml_buf_pa m"
  by (auto simp: disjoint_bufs_def log_ok_def)

lemma remove1_by_pa:
  "logs_ok ls \<Longrightarrow> find (\<lambda>l. ml_buf_pa l = pa) ls = Some l \<Longrightarrow> remove1 l ls = filter (\<lambda>l. ml_buf_pa l \<noteq> pa) ls"
proof (induction ls)
  case (Cons m ls)
  then have ls: "logs_ok ls" and m: "\<forall>n\<in>set ls. ml_buf_pa n \<noteq> ml_buf_pa m"
    using disjoint_bufs_pa by (fastforce simp: logs_ok_def)+
  show ?case
  proof (cases "ml_buf_pa m = pa")
    case True
    then show ?thesis using Cons.prems(2) m by (auto simp: filter_id_conv)
  next
    case False
    then have "find (\<lambda>l. ml_buf_pa l = pa) ls = Some l" using Cons.prems(2) by simp
    then show ?thesis using False Cons.IH [OF ls] by (auto simp: find_Some_iff)
  qed
qed simp

lemma memlog_rm_ok:
  assumes "logs_ok (ms_logs s)" and "memlog_rm pa s = (ret, s')"
  shows "logs_ok (ms_logs s') \<and> ms_logs s' = filter (\<lambda>l. ml_buf_pa l \<noteq> pa) (ms_logs s) \<and>
    ((\<forall>l\<in>set (ms_logs s). ml_buf_pa l \<noteq> pa) \<longrightarrow> ret = SM_ERR_INVALID_PARAMETERS \<and> s' = s)"
proof (cases "memlog_get_by_pa pa (ms_logs s)")
  case None
  then have "\<forall>l\<in>set (ms_logs s). ml_buf_pa l \<noteq> pa" by (auto simp: memlog_get_by_pa_def find_None_iff)
  then show ?thesis using assms None by (auto simp: memlog_rm_def filter_id_conv)
next
  case (Some l)
  then have "l \<in> set (ms_logs s)" "ml_buf_pa l = pa" by (auto simp: memlog_get_by_pa_def find_Some_iff)
  moreover have "logs_ok (remove1 l (ms_logs s))"
    using assms(1) by (auto simp: logs_ok_def sorted_wrt_remove1 dest: notin_set_remove1)
  moreover have "ms_logs s' = remove1 l (ms_logs s)"
    using assms(2) Some by (auto simp: memlog_rm_def Let_def split: if_splits)
  ultimately show ?thesis using remove1_by_pa [OF assms(1)] Some by (auto simp: memlog_get_by_pa_def)
qed

text \<open>Property C19.  Registration keeps the logs sound and apart: adding a buffer of more than 12 bytes and less
  than 4 GiB that does not wrap around memory returns, is refused when it overlaps a registered buffer, and otherwise adds at most one
  log, whose ring lies inside its buffer.  Removing the log of an address unlinks that log alone: the
  others stay, in their order; an address with no log is refused and nothing changes.\<close>

theorem memlog_registry_sound:
  assumes "logs_ok (ms_logs s)" and "12 < sz" and "sz < 2 ^ 32" and "unat pa + sz < 2 ^ 64"
  shows "(\<exists>ret s'. memlog_add ok old pa sz guest s = Some (ret, s') \<and> logs_ok (ms_logs s') \<and>
      (ret \<noteq> 0 \<longrightarrow> ms_logs s' = ms_logs s) \<and>
      (ret = 0 \<longrightarrow> (\<exists>l. ms_logs s' = l # ms_logs s \<and> ml_buf_pa l = pa \<and> ml_buf_sz l = sz)) \<and>
      ((\<exists>l\<in>set (ms_logs s). unat (ml_buf_pa l) < unat pa + sz \<and> unat pa < unat (ml_buf_pa l) + ml_buf_sz l) \<longrightarrow>
         ret = SM_ERR_INVALID_PARAMETERS)) \<and>
    (\<exists>ret s'. memlog_rm pa s = (ret, s') \<and> logs_ok (ms_logs s') \<and>
      ms_logs s' = filter (\<lambda>l. ml_buf_pa l \<noteq> pa) (ms_logs s) \<and>
      ((\<forall>l\<in>set (ms_logs s). ml_buf_pa l \<noteq> pa) \<longrightarrow> ret = SM_ERR_INVALID_PARAMETERS \<and> s' = s))"
proof -
  obtain ret s' where r: "memlog_rm pa s = (ret, s')" by fastforce
  show ?thesis
    by (rule conjI [OF memlog_add_ok [OF assms]], intro exI [of _ ret] exI [of _ s'] conjI)
      (use memlog_rm_ok [OF assms(1) r] r in blast)+
qed

definition log_vm :: vmspace where
  "log_vm = \<lparr>vm_live = [], vm_next = 0, vm_ret = [], vm_pa_valid = \<lambda>_ _ _. NO_ERROR\<rparr>"

theorem memlog_registry_sound_witness:
  "\<exists>s'. memlog_add True (\<lambda>_. 0) 0x2000 64 0 \<lparr>ms_logs = [demo_log], ms_vm = log_vm\<rparr> = Some (0, s') \<and> logs_ok (ms_logs s')"
proof -
  have "ring_ok demo_log" unfolding ring_ok_def by (intro conjI exI [of _ 2]) (simp_all add: demo_log_def)
  then have "log_ok demo_log" by (simp add: log_ok_def) (simp add: demo_log_def)
  then have ok: "logs_ok (ms_logs \<lparr>ms_logs = [demo_log], ms_vm = log_vm\<rparr>)" by (simp add: logs_ok_def)
  have "map_option fst (memlog_add True (\<lambda>_. 0) 0x2000 64 0 \<lparr>ms_logs = [demo_log], ms_vm = log_vm\<rparr>) = Some 0"
  proof -
    have c: "lower_pow2 52 = Some 32" by code_simp
    show ?thesis using c
      by (simp add: memlog_add_def demo_log_def map_rb_def log_vm_def vmm_alloc_physical_def NO_ERROR_def Let_def)
  qed
  with memlog_registry_sound [OF ok, where sz = 64 and pa = "0x2000" and ok = True and old = "\<lambda>_. 0" and guest = 0,
      THEN conjunct1] show ?thesis by auto
qed

text \<open>A buffer of fewer than 12 bytes is accepted all the same: the size of its ring underflows to 2 to
  the 31, more than is mapped, and once the normal world has moved the shared index a single byte is
  written outside the mapping.\<close>

theorem memlog_add_underflow:
  "\<exists>s' l. memlog_add True old 0 8 0 \<lparr>ms_logs = [], ms_vm = log_vm\<rparr> = Some (0, s') \<and> ms_logs s' = [l] \<and>
    ml_rb_sz l = 2 ^ 31 \<and> length (rb_data (ml_rb l)) < ml_rb_sz l \<and>
    memlog_write (l\<lparr>ml_rb := (ml_rb l)\<lparr>rb_alloc := 2 ^ 30\<rparr>\<rparr>) [b] = None"
proof -
  have c: "lower_pow2 18446744073709551612 = Some 0x80000000" by code_simp
  let ?d = "map (\<lambda>i. old (i + 12)) [0..<1048564]"
  let ?l = "\<lparr>ml_rb = \<lparr>rb_alloc = 0, rb_put = 0, rb_hdr_sz = 0x80000000, rb_data = ?d\<rparr>, ml_rb_sz = 2 ^ 31, ml_region = 0,
      ml_buf_pa = 0, ml_buf_sz = 8\<rparr>"
  have "memlog_add True old 0 8 0 \<lparr>ms_logs = [], ms_vm = log_vm\<rparr> =
      Some (0, \<lparr>ms_logs = [?l], ms_vm = log_vm\<lparr>vm_live := [0], vm_next := 1\<rparr>\<rparr>)"
    using c by (simp add: memlog_add_def map_rb_def log_vm_def vmm_alloc_physical_def NO_ERROR_def ROUNDUP_def Let_def
        del: upt_rec_numeral upt_eq_Cons_conv)
  moreover have "memlog_write (?l\<lparr>ml_rb := (ml_rb ?l)\<lparr>rb_alloc := 2 ^ 30\<rparr>\<rparr>) [b] = None"
    by (simp add: memlog_write_eq memlog_write_chunk_def Let_def del: upt_rec_numeral)
  ultimately show ?thesis
    by (intro exI [of _ "\<lparr>ms_logs = [?l], ms_vm = log_vm\<lparr>vm_live := [0], vm_next := 1\<rparr>\<rparr>"] exI [of _ ?l] conjI)
      (assumption, simp_all)
qed

end
