(* ===== verification/VirtioBus.thy ===== *)
theory VirtioBus
  imports Sm TipcDev
begin

text \<open>
  The virtio bus of each guest and the Trusted-OS calls that drive it: \<^verbatim>\<open>lib/trusty/trusty_virtio.c\<close>,
  \<^verbatim>\<open>tipc_config.c\<close> and \<^verbatim>\<open>lib/trusty/smcall.c\<close>.  A device is a value of any type \<open>'d\<close> with its
  operations in a record of functions, as \<^verbatim>\<open>struct vdev_ops\<close> has them.
\<close>

datatype bus_state = VIRTIO_BUS_STATE_UNINITIALIZED | VIRTIO_BUS_STATE_IDLE
  | VIRTIO_BUS_STATE_ACTIVATING | VIRTIO_BUS_STATE_ACTIVE | VIRTIO_BUS_STATE_DEACTIVATING

record 'd vdev_ops =
  vo_descr_sz :: "'d \<Rightarrow> nat"
  vo_get_descr :: "'d \<Rightarrow> byte list"
  vo_probe :: "'d \<Rightarrow> byte list \<Rightarrow> int \<times> 'd"
  vo_reset :: "'d \<Rightarrow> int \<times> 'd"
  vo_kick_vqueue :: "'d \<Rightarrow> u32 \<Rightarrow> int \<times> 'd"

record 'd vdev =
  vd_devid :: u32
  vd_descr_offset :: nat
  vd_dev :: 'd

record 'd virtio_bus =
  vb_vdev_cnt :: nat
  vb_next_dev_id :: u32
  vb_descr_size :: nat
  vb_state :: bus_state
  vb_vdev_list :: "'d vdev list"

record 'd vbus_ctx =
  vc_num_guests :: nat
  vc_guest0 :: "'d virtio_bus"
  vc_addl :: "'d virtio_bus list option"

definition MAX_NUM_SUPPORTED_GUESTS :: nat where "MAX_NUM_SUPPORTED_GUESTS = 16"

definition empty_bus :: "'d virtio_bus" where
  "empty_bus = \<lparr>vb_vdev_cnt = 0, vb_next_dev_id = 0, vb_descr_size = 0,
     vb_state = VIRTIO_BUS_STATE_UNINITIALIZED, vb_vdev_list = []\<rparr>"

text \<open>A bus is reached through a pointer: 0 is the bus of guest 0, \<open>Suc i\<close> the \<open>i\<close>-th additional one.\<close>

definition get_guest_virtio_bus :: "nat \<Rightarrow> 'd vbus_ctx \<Rightarrow> int \<times> nat" where
  "get_guest_virtio_bus guest_id c =
     (if guest_id > 0 then
        (if guest_id \<ge> vc_num_guests c then (ERR_INVALID_ARGS, 0)
         else if vc_addl c = None then (ERR_NOT_READY, 0)
         else (NO_ERROR, guest_id))
      else (NO_ERROR, 0))"

text \<open>Reaching a bus past the allocated array is a panic.\<close>

fun vbus :: "'d vbus_ctx \<Rightarrow> nat \<Rightarrow> 'd virtio_bus option" where
  "vbus c 0 = Some (vc_guest0 c)"
| "vbus c (Suc i) = (case vc_addl c of None \<Rightarrow> None
     | Some bs \<Rightarrow> if i < length bs then Some (bs ! i) else None)"

fun set_vbus :: "nat \<Rightarrow> 'd virtio_bus \<Rightarrow> 'd vbus_ctx \<Rightarrow> 'd vbus_ctx" where
  "set_vbus 0 b c = c\<lparr>vc_guest0 := b\<rparr>"
| "set_vbus (Suc i) b c = c\<lparr>vc_addl := map_option (\<lambda>bs. bs[i := b]) (vc_addl c)\<rparr>"

text \<open>\<open>valid\<close> is \<^verbatim>\<open>validate_vdev\<close>: the device is there and all its operations are set.\<close>

definition validate_vdev :: "bool \<Rightarrow> int" where
  "validate_vdev valid = (if valid then NO_ERROR else ERR_INVALID_ARGS)"

definition virtio_register_device :: "bool \<Rightarrow> 'd \<Rightarrow> nat \<Rightarrow> 'd vbus_ctx \<Rightarrow> (int \<times> 'd vbus_ctx) option" where
  "virtio_register_device valid d guest_id c =
     (let c = c\<lparr>vc_num_guests := vc_num_guests c + 1\<rparr>;
          (err, i) = get_guest_virtio_bus guest_id c in
      if err \<noteq> 0 then Some (ERR_INVALID_ARGS, c)
      else do {
        vb \<leftarrow> vbus c i;
        if vb_state vb = VIRTIO_BUS_STATE_UNINITIALIZED then
          (let ret = validate_vdev valid in
           Some (ret, if ret = NO_ERROR then
             set_vbus i (vb\<lparr>vb_vdev_cnt := (vb_vdev_cnt vb + 1) mod 2 ^ 32, vb_next_dev_id := vb_next_dev_id vb + 1,
               vb_vdev_list := vb_vdev_list vb @
                 [\<lparr>vd_devid = vb_next_dev_id vb, vd_descr_offset = 0, vd_dev = d\<rparr>]\<rparr>) c
             else c))
        else Some (ERR_BAD_STATE, c) })"

text \<open>\<^verbatim>\<open>sizeof(struct resource_table)\<close> is 16; the offset is a 32-bit integer and wraps.\<close>

fun assign_offsets :: "'d vdev_ops \<Rightarrow> nat \<Rightarrow> 'd vdev list \<Rightarrow> 'd vdev list \<times> nat" where
  "assign_offsets ops offset [] = ([], offset)"
| "assign_offsets ops offset (vd # vds) =
     (let (vds', total) = assign_offsets ops ((offset + vo_descr_sz ops (vd_dev vd)) mod 2 ^ 32) vds
      in (vd\<lparr>vd_descr_offset := offset\<rparr> # vds', total))"

definition finalize_vdev_registery :: "'d vdev_ops \<Rightarrow> nat \<Rightarrow> 'd vbus_ctx \<Rightarrow> (int \<times> 'd vbus_ctx) option" where
  "finalize_vdev_registery ops guest_id c =
     (let (err, i) = get_guest_virtio_bus guest_id c in
      if err \<noteq> 0 then Some (ERR_INVALID_ARGS, c)
      else do {
        vb \<leftarrow> vbus c i;
        if vb_state vb = VIRTIO_BUS_STATE_UNINITIALIZED then
          (let (vds, total) = assign_offsets ops ((16 + 4 * vb_vdev_cnt vb) mod 2 ^ 32) (vb_vdev_list vb) in
           Some (NO_ERROR, set_vbus i (vb\<lparr>vb_vdev_list := vds, vb_descr_size := total,
                   vb_state := VIRTIO_BUS_STATE_IDLE\<rparr>) c))
        else Some (NO_ERROR, c) })"

text \<open>\<^verbatim>\<open>map_descr\<close>: the checks, the hypervisor check \<open>pa_ok\<close> and the mapping \<open>map_ok\<close>.\<close>

definition map_descr :: "u64 \<Rightarrow> int \<Rightarrow> int \<Rightarrow> int" where
  "map_descr buf_pa pa_ok map_ok =
     (if buf_pa = 0 then ERR_INVALID_ARGS
      else if buf_pa AND (4096 - 1) \<noteq> 0 then ERR_INVALID_ARGS
      else if pa_ok \<noteq> NO_ERROR then pa_ok
      else map_ok)"

text \<open>Writing \<open>d\<close> into the descriptor buffer at an offset.\<close>

definition put_at :: "nat \<Rightarrow> byte list \<Rightarrow> byte list \<Rightarrow> byte list option" where
  "put_at off d buf = (if off + length d \<le> length buf
     then Some (take off buf @ d @ drop (off + length d) buf) else None)"

fun fill_descrs :: "'d vdev_ops \<Rightarrow> nat \<Rightarrow> 'd vdev list \<Rightarrow> byte list \<Rightarrow> byte list option" where
  "fill_descrs ops idx [] buf = Some buf"
| "fill_descrs ops idx (vd # vds) buf = do {
     _ \<leftarrow> ASSERT (vd_descr_offset vd + vo_descr_sz ops (vd_dev vd) \<le> length buf);
     buf \<leftarrow> put_at (16 + 4 * idx) (le32_bytes (of_nat (vd_descr_offset vd))) buf;
     buf \<leftarrow> put_at (vd_descr_offset vd) (vo_get_descr ops (vd_dev vd)) buf;
     fill_descrs ops (Suc idx) vds buf }"

text \<open>The result has the descriptor left in the normal world's buffer.\<close>

definition virtio_get_description :: "'d vdev_ops \<Rightarrow> int \<Rightarrow> int \<Rightarrow> u64 \<Rightarrow> nat \<Rightarrow> nat \<Rightarrow> 'd vbus_ctx
    \<Rightarrow> (int \<times> byte list \<times> 'd vbus_ctx) option" where
  "virtio_get_description ops pa_ok map_ok buf_pa buf_sz guest_id c =
     (let (err, i) = get_guest_virtio_bus guest_id c in
      if err \<noteq> 0 then Some (ERR_INVALID_ARGS, [], c)
      else do {
        (ret, c) \<leftarrow> finalize_vdev_registery ops guest_id c;
        if ret \<noteq> NO_ERROR then Some (ret, [], c)
        else do {
          vb \<leftarrow> vbus c i;
          if buf_sz < vb_descr_size vb then Some (ERR_NOT_ENOUGH_BUFFER, [], c)
          else let ret = map_descr buf_pa pa_ok map_ok in
            if ret \<noteq> NO_ERROR then Some (ret, [], c)
            else do {
              buf \<leftarrow> put_at 0 (le32_bytes 1 @ le32_bytes (of_nat (vb_vdev_cnt vb)))
                       (replicate (vb_descr_size vb) 0);
              buf \<leftarrow> fill_descrs ops 0 (vb_vdev_list vb) buf;
              Some (int (vb_descr_size vb), buf, c) } } })"

definition probe_all :: "'d vdev_ops \<Rightarrow> byte list \<Rightarrow> 'd vdev list \<Rightarrow> 'd vdev list" where
  "probe_all ops descr vds =
     map (\<lambda>vd. vd\<lparr>vd_dev := snd (vo_probe ops (vd_dev vd) (drop (vd_descr_offset vd) descr))\<rparr>) vds"

definition reset_all :: "'d vdev_ops \<Rightarrow> 'd vdev list \<Rightarrow> 'd vdev list" where
  "reset_all ops vds = map (\<lambda>vd. vd\<lparr>vd_dev := snd (vo_reset ops (vd_dev vd))\<rparr>) vds"

text \<open>\<open>ns\<close> is the descriptor in the normal world's memory, \<open>mem_ok\<close> the result of \<^verbatim>\<open>malloc\<close>.\<close>

definition virtio_start :: "'d vdev_ops \<Rightarrow> bool \<Rightarrow> int \<Rightarrow> int \<Rightarrow> byte list \<Rightarrow> u64 \<Rightarrow> nat \<Rightarrow> nat \<Rightarrow> 'd vbus_ctx
    \<Rightarrow> (int \<times> 'd vbus_ctx) option" where
  "virtio_start ops mem_ok pa_ok map_ok ns descr_pa descr_sz guest_id c =
     (let (err, i) = get_guest_virtio_bus guest_id c in
      if err \<noteq> 0 then Some (ERR_INVALID_ARGS, c)
      else do {
        vb \<leftarrow> vbus c i;
        if vb_state vb \<noteq> VIRTIO_BUS_STATE_IDLE then Some (ERR_BAD_STATE, c)
        else if descr_sz \<noteq> vb_descr_size vb then Some (ERR_INVALID_ARGS, c)
        else if \<not> mem_ok then Some (ERR_NO_MEMORY, c)
        else let ret = map_descr descr_pa pa_ok map_ok in
          if ret \<noteq> NO_ERROR then Some (ret, c)
          else Some (NO_ERROR, set_vbus i (vb\<lparr>vb_vdev_list :=
                 probe_all ops (take descr_sz ns) (vb_vdev_list vb),
                 vb_state := VIRTIO_BUS_STATE_ACTIVE\<rparr>) c) })"

definition virtio_stop :: "'d vdev_ops \<Rightarrow> nat \<Rightarrow> 'd vbus_ctx \<Rightarrow> (int \<times> 'd vbus_ctx) option" where
  "virtio_stop ops guest_id c =
     (let (err, i) = get_guest_virtio_bus guest_id c in
      if err \<noteq> 0 then Some (ERR_INVALID_ARGS, c)
      else do {
        vb \<leftarrow> vbus c i;
        if vb_state vb \<noteq> VIRTIO_BUS_STATE_ACTIVE then Some (ERR_BAD_STATE, c)
        else Some (NO_ERROR, set_vbus i (vb\<lparr>vb_vdev_list := reset_all ops (vb_vdev_list vb),
                     vb_state := VIRTIO_BUS_STATE_IDLE\<rparr>) c) })"

text \<open>The first device with the number, and what the operation \<open>f\<close> makes of it.\<close>

fun on_device :: "u32 \<Rightarrow> ('d \<Rightarrow> int \<times> 'd) \<Rightarrow> 'd vdev list \<Rightarrow> int \<times> 'd vdev list" where
  "on_device devid f [] = (ERR_NOT_FOUND, [])"
| "on_device devid f (vd # vds) =
     (if vd_devid vd = devid then (let (r, d) = f (vd_dev vd) in (r, vd\<lparr>vd_dev := d\<rparr> # vds))
      else (let (r, vds) = on_device devid f vds in (r, vd # vds)))"

definition virtio_device_reset :: "'d vdev_ops \<Rightarrow> u32 \<Rightarrow> nat \<Rightarrow> 'd vbus_ctx \<Rightarrow> (int \<times> 'd vbus_ctx) option" where
  "virtio_device_reset ops devid guest_id c =
     (let (err, i) = get_guest_virtio_bus guest_id c in
      if err \<noteq> 0 then Some (ERR_INVALID_ARGS, c)
      else do {
        vb \<leftarrow> vbus c i;
        if vb_state vb \<noteq> VIRTIO_BUS_STATE_ACTIVE then Some (ERR_BAD_STATE, c)
        else let (ret, vds) = on_device devid (vo_reset ops) (vb_vdev_list vb)
          in Some (ret, set_vbus i (vb\<lparr>vb_vdev_list := vds\<rparr>) c) })"

definition virtio_kick_vq :: "'d vdev_ops \<Rightarrow> u32 \<Rightarrow> u32 \<Rightarrow> nat \<Rightarrow> 'd vbus_ctx \<Rightarrow> (int \<times> 'd vbus_ctx) option" where
  "virtio_kick_vq ops devid vqid guest_id c =
     (let (err, i) = get_guest_virtio_bus guest_id c in
      if err \<noteq> 0 then Some (ERR_INVALID_ARGS, c)
      else do {
        vb \<leftarrow> vbus c i;
        if vb_state vb \<noteq> VIRTIO_BUS_STATE_ACTIVE then Some (ERR_BAD_STATE, c)
        else let (ret, vds) = on_device devid (\<lambda>d. vo_kick_vqueue ops d vqid) (vb_vdev_list vb)
          in Some (ret, set_vbus i (vb\<lparr>vb_vdev_list := vds\<rparr>) c) })"

definition alloc_guest_virtio_bus :: "bool \<Rightarrow> nat \<Rightarrow> 'd vbus_ctx \<Rightarrow> int \<times> 'd vbus_ctx" where
  "alloc_guest_virtio_bus ok num_guests c =
     (if num_guests > MAX_NUM_SUPPORTED_GUESTS then (ERR_INVALID_ARGS, c)
      else if \<not> ok then (ERR_NO_MEMORY, c\<lparr>vc_addl := None\<rparr>)
      else (NO_ERROR, c\<lparr>vc_addl := Some (replicate num_guests empty_bus)\<rparr>))"

definition free_guest_virtio_bus :: "'d vbus_ctx \<Rightarrow> 'd vbus_ctx" where
  "free_guest_virtio_bus c = c\<lparr>vc_addl := None\<rparr>"

text \<open>\<open>dev\<close> is what \<^verbatim>\<open>calloc\<close> and the initialisation of the fields give (\<^const>\<open>new_tipc_dev\<close>), \<open>ok\<close> whether
  the allocation succeeds.\<close>

definition create_tipc_device :: "bool \<Rightarrow> tipc_dev \<Rightarrow> tipc_dev vbus_ctx
    \<Rightarrow> (int \<times> tipc_dev option \<times> tipc_dev vbus_ctx) option" where
  "create_tipc_device ok dev c =
     (if \<not> ok then Some (ERR_NO_MEMORY, None, c)
      else do {
        (ret, c) \<leftarrow> virtio_register_device True dev (unat (td_guest dev)) c;
        if ret \<noteq> NO_ERROR then Some (ret, None, c) else Some (NO_ERROR, Some dev, c) })"

text \<open>The loop of \<^verbatim>\<open>tipc_hyp_init\<close> over the guests; \<open>devs\<close> gives the device created for each, or none
  when its allocation fails.\<close>

fun hyp_init_loop :: "(nat \<Rightarrow> 'd option) \<Rightarrow> nat list \<Rightarrow> 'd vbus_ctx \<Rightarrow> (int \<times> 'd vbus_ctx) option" where
  "hyp_init_loop devs [] c = Some (NO_ERROR, c)"
| "hyp_init_loop devs (g # gs) c =
     (case devs g of
        None \<Rightarrow> Some (ERR_NO_MEMORY, free_guest_virtio_bus c)
      | Some d \<Rightarrow> do {
          (ret, c) \<leftarrow> virtio_register_device True d g c;
          if ret \<noteq> NO_ERROR then Some (ret, free_guest_virtio_bus c)
          else hyp_init_loop devs gs c })"

definition tipc_hyp_init :: "bool \<Rightarrow> (nat \<Rightarrow> 'd option) \<Rightarrow> nat \<Rightarrow> 'd vbus_ctx \<Rightarrow> (int \<times> 'd vbus_ctx) option" where
  "tipc_hyp_init ok devs num_guests c =
     (if num_guests \<le> 1 then Some (NO_ERROR, c)
      else if num_guests > MAX_NUM_SUPPORTED_GUESTS then Some (ERR_INVALID_ARGS, c)
      else let (ret, c) = alloc_guest_virtio_bus ok (num_guests - 1) c in
        if ret \<noteq> NO_ERROR then Some (ret, c)
        else hyp_init_loop devs [1..<num_guests] c)"

section \<open>Trusted-OS calls\<close>

definition to_smc_error :: "int \<Rightarrow> int" where
  "to_smc_error err =
     (if err \<ge> 0 then err
      else if err = ERR_INVALID_ARGS then SM_ERR_INVALID_PARAMETERS
      else if err = ERR_NOT_SUPPORTED then SM_ERR_NOT_SUPPORTED
      else if err = ERR_NOT_ALLOWED then SM_ERR_NOT_ALLOWED
      else SM_ERR_INTERNAL_FAILURE)"

definition guest_ok :: "u32 \<Rightarrow> bool" where
  "guest_ok guest \<longleftrightarrow> \<not> (sint guest \<noteq> -1 \<and> unat guest \<ge> MAX_NUM_SUPPORTED_GUESTS)"

definition SMC_SC_VDEV_RESET :: u32 where "SMC_SC_VDEV_RESET = SMC_STDCALL_NR 50 23"
definition SMC_SC_VDEV_KICK_VQ :: u32 where "SMC_SC_VDEV_KICK_VQ = SMC_STDCALL_NR 50 24"

end
