(* ===== verification/QlTipc.thy ===== *)
theory QlTipc
  imports TipcDev Memlog SlotTable
begin

text \<open>
  The queueless bridge between the normal world and the kernel IPC: \<^verbatim>\<open>lib/trusty/tipc_dev_ql.c\<close>.  The
  normal world writes a command into a shared buffer and makes a standard call; the answer is written
  into the same buffer before the call returns.

  \<open>ns\<close> is the shared buffer, byte by byte, as the command reads it: every byte of it is read at most
  once.  \<open>qd_writes\<close> collects what the device writes into the buffer, with the offset, in order.  Reading
  past the mapped buffer is \<^term>\<open>None\<close>, like a panic.  A thread that blocks has the return value
  \<^term>\<open>None\<close> inside the result.
\<close>

definition QL_TIPC_DEV_MAX_NUM :: nat where "QL_TIPC_DEV_MAX_NUM = 2"
definition QL_TIPC_ADDR_MAX_NUM :: nat where "QL_TIPC_ADDR_MAX_NUM = 32"
definition QL_TIPC_ADDR_BASE :: u32 where "QL_TIPC_ADDR_BASE = 32"
definition QL_TIPC_DEV_RESP :: u16 where "QL_TIPC_DEV_RESP = 0x8000"
definition QL_TIPC_DEV_CONNECT :: u16 where "QL_TIPC_DEV_CONNECT = 1"
definition QL_TIPC_DEV_GET_EVENT :: u16 where "QL_TIPC_DEV_GET_EVENT = 2"
definition QL_TIPC_DEV_SEND :: u16 where "QL_TIPC_DEV_SEND = 3"
definition QL_TIPC_DEV_RECV :: u16 where "QL_TIPC_DEV_RECV = 4"
definition QL_TIPC_DEV_DISCONNECT :: u16 where "QL_TIPC_DEV_DISCONNECT = 5"

text \<open>\<^verbatim>\<open>sizeof\<close> of the command header, of the event, and of the connect request with its name buffer of
  257 bytes, padded to the alignment of its 64-bit fields.\<close>

definition sizeof_tipc_cmd_hdr :: nat where "sizeof_tipc_cmd_hdr = 16"
definition sizeof_tipc_event :: nat where "sizeof_tipc_event = 16"
definition sizeof_tipc_wait_req :: nat where "sizeof_tipc_wait_req = 8"
definition sizeof_tipc_connect_req :: nat where "sizeof_tipc_connect_req = 16"
definition sizeof_connect_buf :: nat where "sizeof_connect_buf = 280"

record ql_ept =
  qe_chan :: "hptr option"
  qe_cookie :: u64

record ql_tipc_dev =
  qd_hlist :: nat
  qd_ns_mmu_flags :: u32
  qd_ns_sz :: u32
  qd_ns_pa :: u64
  qd_guest :: u32
  qd_uuid :: "uuid_ref option"
  qd_inuse :: bitmap
  qd_epts :: "ql_ept list"
  qd_writes :: "(nat \<times> byte list) list"

record tipc_cmd_hdr =
  ch_opcode :: u16
  ch_flags :: u16
  ch_status :: u32
  ch_handle :: u32
  ch_payload_len :: u32

text \<open>
  \<open>qc_calloc\<close> answers the coming allocations of a device: its address, which names its handle list in
  the kernel state, or NULL.  \<open>qc_vmm\<close> answers the coming mappings of a shared buffer, and \<open>qc_unmapped\<close>
  collects the buffers unmapped again.
\<close>

record ql_ctx =
  qc_dev_cnt :: u32
  qc_dev_list :: "ql_tipc_dev list"
  qc_calloc :: "nat option list"
  qc_vmm :: "int list"
  qc_unmapped :: "u64 list"

interpretation qltab: slot_table "bitmap_wf QL_TIPC_ADDR_MAX_NUM" bitmap_test bitmap_set bitmap_clear
  "\<lambda>b. bitmap_ffz b QL_TIPC_ADDR_MAX_NUM" QL_TIPC_ADDR_MAX_NUM QL_TIPC_ADDR_BASE
  by (intro slot_table.intro bitmap_slot_bitmap slot_table_axioms.intro)
     (simp_all add: QL_TIPC_ADDR_BASE_def QL_TIPC_ADDR_MAX_NUM_def)

definition le64_bytes :: "u64 \<Rightarrow> byte list" where
  "le64_bytes w = le32_bytes (ucast w) @ le32_bytes (ucast (drop_bit 32 w))"

definition le64_of :: "byte list \<Rightarrow> u64" where
  "le64_of b = ucast (le32_of (take 4 b)) OR push_bit 32 (ucast (le32_of (take 4 (drop 4 b))))"

section \<open>Endpoints\<close>

definition ql_addr_to_slot :: "u32 \<Rightarrow> u32" where
  "ql_addr_to_slot addr = addr - QL_TIPC_ADDR_BASE"

definition ql_slot_to_addr :: "u32 \<Rightarrow> u32" where
  "ql_slot_to_addr slot = slot + QL_TIPC_ADDR_BASE"

definition ql_alloc_local_addr :: "ql_tipc_dev \<Rightarrow> hptr \<Rightarrow> u64 \<Rightarrow> u32 \<times> ql_tipc_dev" where
  "ql_alloc_local_addr dev chan cookie =
     (let slot = bitmap_ffz (qd_inuse dev) QL_TIPC_ADDR_MAX_NUM in
      if slot \<ge> 0 then
        (ql_slot_to_addr (of_int slot),
         dev\<lparr>qd_inuse := bitmap_set (qd_inuse dev) (nat slot),
             qd_epts := (qd_epts dev)[nat slot := \<lparr>qe_chan = Some chan, qe_cookie = cookie\<rparr>]\<rparr>)
      else (0, dev))"

text \<open>An endpoint pointer is the index of the endpoint.\<close>

definition ql_ept_lookup :: "ql_tipc_dev \<Rightarrow> u32 \<Rightarrow> nat option" where
  "ql_ept_lookup dev local =
     (let slot = unat (ql_addr_to_slot local) in
      if slot < QL_TIPC_ADDR_MAX_NUM then
        (if bitmap_test (qd_inuse dev) slot then Some slot else None)
      else None)"

definition ql_ept_to_addr :: "nat \<Rightarrow> u32" where
  "ql_ept_to_addr ept = ql_slot_to_addr (of_nat ept)"

definition ql_free_local_addr :: "ql_tipc_dev \<Rightarrow> u32 \<Rightarrow> ql_tipc_dev" where
  "ql_free_local_addr dev local =
     (let slot = unat (ql_addr_to_slot local) in
      if slot < QL_TIPC_ADDR_MAX_NUM then
        dev\<lparr>qd_inuse := bitmap_clear (qd_inuse dev) slot,
            qd_epts := (qd_epts dev)[slot := \<lparr>qe_chan = None, qe_cookie = 0\<rparr>]\<rparr>
      else dev)"

text \<open>\<open>!ept || !ept->chan\<close>: the endpoint with its channel, if it has both.\<close>

definition ql_ept_chan :: "ql_tipc_dev \<Rightarrow> u32 \<Rightarrow> (nat \<times> hptr) option" where
  "ql_ept_chan dev target =
     (case ql_ept_lookup dev target of None \<Rightarrow> None
      | Some i \<Rightarrow> map_option (\<lambda>hp. (i, hp)) (qe_chan (qd_epts dev ! i)))"

section \<open>Devices\<close>

text \<open>A device pointer is the position of the device in the list.\<close>

fun dev_find :: "u64 \<Rightarrow> ql_tipc_dev list \<Rightarrow> nat option" where
  "dev_find buf_pa [] = None"
| "dev_find buf_pa (d # ds) =
     (if qd_ns_pa d = buf_pa then Some 0 else map_option Suc (dev_find buf_pa ds))"

definition dev_lookup :: "u64 \<Rightarrow> ql_ctx \<Rightarrow> nat option" where
  "dev_lookup buf_pa c = dev_find buf_pa (qc_dev_list c)"

definition qc_next_calloc :: "ql_ctx \<Rightarrow> nat option \<times> ql_ctx" where
  "qc_next_calloc c = (case qc_calloc c of [] \<Rightarrow> (None, c) | a # as \<Rightarrow> (a, c\<lparr>qc_calloc := as\<rparr>))"

definition qc_next_vmm :: "ql_ctx \<Rightarrow> int \<times> ql_ctx" where
  "qc_next_vmm c = (case qc_vmm c of [] \<Rightarrow> (NO_ERROR, c) | r # rs \<Rightarrow> (r, c\<lparr>qc_vmm := rs\<rparr>))"

definition new_ql_dev :: "nat \<Rightarrow> u64 \<Rightarrow> u32 \<Rightarrow> u32 \<Rightarrow> ql_tipc_dev" where
  "new_ql_dev addr buf_pa buf_sz buf_mmu_flags =
     \<lparr>qd_hlist = addr, qd_ns_mmu_flags = buf_mmu_flags, qd_ns_sz = buf_sz, qd_ns_pa = buf_pa,
      qd_guest = 0, qd_uuid = Some ZERO_UUID, qd_inuse = bitmap_empty QL_TIPC_ADDR_MAX_NUM,
      qd_epts = replicate QL_TIPC_ADDR_MAX_NUM \<lparr>qe_chan = None, qe_cookie = 0\<rparr>, qd_writes = []\<rparr>"

definition dev_create :: "u64 \<Rightarrow> u32 \<Rightarrow> u32 \<Rightarrow> ql_ctx \<Rightarrow> kern \<Rightarrow> int \<times> ql_ctx \<times> kern" where
  "dev_create buf_pa buf_sz buf_mmu_flags c k =
     (if dev_lookup buf_pa c \<noteq> None then (SM_ERR_INVALID_PARAMETERS, c, k)
      else if buf_pa AND (0x1000 - 1) \<noteq> 0 then (SM_ERR_INVALID_PARAMETERS, c, k)
      else if buf_sz = 0 then (SM_ERR_INVALID_PARAMETERS, c, k)
      else if buf_sz AND (0x1000 - 1) \<noteq> 0 then (SM_ERR_INVALID_PARAMETERS, c, k)
      else if unat (qc_dev_cnt c) \<ge> QL_TIPC_DEV_MAX_NUM then (SM_ERR_NOT_ALLOWED, c, k)
      else case qc_next_calloc c of
        (None, c) \<Rightarrow> (SM_ERR_INTERNAL_FAILURE, c, k)
      | (Some addr, c) \<Rightarrow>
          let dev = new_ql_dev addr buf_pa buf_sz buf_mmu_flags;
              k = handle_list_init addr k;
              (res, c) = qc_next_vmm c in
          if res \<noteq> NO_ERROR then (SM_ERR_INTERNAL_FAILURE, c, k)
          else (0, c\<lparr>qc_dev_list := dev # qc_dev_list c, qc_dev_cnt := qc_dev_cnt c + 1\<rparr>, k))"

text \<open>The loop of \<^verbatim>\<open>dev_shutdown\<close> over the endpoints.\<close>

fun shutdown_loop :: "nat list \<Rightarrow> ql_tipc_dev \<Rightarrow> kern \<Rightarrow> kern option" where
  "shutdown_loop [] dev k = Some k"
| "shutdown_loop (slot # ss) dev k =
     (if \<not> bitmap_test (qd_inuse dev) slot then shutdown_loop ss dev k
      else case qe_chan (qd_epts dev ! slot) of
        None \<Rightarrow> shutdown_loop ss dev k
      | Some hp \<Rightarrow> do {
          k \<leftarrow> handle_list_del (qd_hlist dev) hp k;
          k \<leftarrow> handle_set_cookie hp 0 k;
          k \<leftarrow> handle_close hp k;
          shutdown_loop ss dev k })"

definition dev_shutdown :: "nat \<Rightarrow> ql_ctx \<Rightarrow> kern \<Rightarrow> (ql_ctx \<times> kern) option" where
  "dev_shutdown i c k = do {
     _ \<leftarrow> ASSERT (i < length (qc_dev_list c));
     let dev = qc_dev_list c ! i;
     let c = c\<lparr>qc_dev_list := take i (qc_dev_list c) @ drop (Suc i) (qc_dev_list c),
               qc_dev_cnt := qc_dev_cnt c - 1, qc_unmapped := qd_ns_pa dev # qc_unmapped c\<rparr>;
     k \<leftarrow> shutdown_loop [0..<QL_TIPC_ADDR_MAX_NUM] dev k;
     Some (c, k) }"

section \<open>Commands\<close>

definition ql_write :: "nat \<Rightarrow> byte list \<Rightarrow> ql_tipc_dev \<Rightarrow> ql_tipc_dev" where
  "ql_write off d dev = dev\<lparr>qd_writes := qd_writes dev @ [(off, d)]\<rparr>"

text \<open>The header fields lie at 0 (opcode), 4 (status), 8 (handle) and 12 (payload length).\<close>

definition set_status :: "ql_tipc_dev \<Rightarrow> u16 \<Rightarrow> int \<Rightarrow> u32 \<Rightarrow> int \<times> ql_tipc_dev" where
  "set_status dev cmd err len =
     (err, ql_write 0 (le16_bytes (cmd OR QL_TIPC_DEV_RESP))
             (ql_write 12 (le32_bytes len)
               (ql_write 4 (le32_bytes (if err < 0 then 1 else 0)) dev)))"

text \<open>The bytes of the payload, which follows the header; reading past the mapping fails.\<close>

definition ql_payload :: "ql_tipc_dev \<Rightarrow> (nat \<Rightarrow> byte) \<Rightarrow> byte list" where
  "ql_payload dev ns = map ns [sizeof_tipc_cmd_hdr..<unat (qd_ns_sz dev)]"

definition dev_connect :: "ql_tipc_dev \<Rightarrow> (nat \<Rightarrow> byte) \<Rightarrow> nat \<Rightarrow> kern
    \<Rightarrow> (int \<times> ql_tipc_dev \<times> kern) option" where
  "dev_connect dev ns ns_payload_len k =
     (let opcode = QL_TIPC_DEV_CONNECT in
      if ns_payload_len \<le> sizeof_tipc_connect_req
      then (let (r, dev) = set_status dev opcode ERR_INVALID_ARGS 0 in Some (r, dev, k))
      else if ns_payload_len \<ge> sizeof_connect_buf
      then (let (r, dev) = set_status dev opcode ERR_INVALID_ARGS 0 in Some (r, dev, k))
      else do {
        _ \<leftarrow> ASSERT (ns_payload_len \<le> length (ql_payload dev ns));
        let req = take ns_payload_len (ql_payload dev ns);
        let body = drop sizeof_tipc_connect_req req @ [0];
        (rc, chan, k) \<leftarrow> ipc_port_connect_async (qd_guest dev) (qd_uuid dev) body
                           (ns_payload_len - sizeof_tipc_connect_req) 0 k;
        if rc \<noteq> NO_ERROR then (let (r, dev) = set_status dev opcode rc 0 in Some (r, dev, k))
        else do {
          hp \<leftarrow> chan;
          let (local, dev) = ql_alloc_local_addr dev hp (le64_of (take 8 req));
          if local = 0 then do {
            k \<leftarrow> handle_close hp k;
            let (r, dev) = set_status dev opcode ERR_NO_RESOURCES 0;
            Some (r, dev, k) }
          else do {
            k \<leftarrow> handle_set_cookie hp (ept_cookie (ql_ept_lookup dev local)) k;
            k \<leftarrow> handle_list_add (qd_hlist dev) hp k;
            let (r, dev) = set_status (ql_write 8 (le32_bytes local) dev) opcode 0 0;
            Some (r, dev, k) } } })"

definition dev_disconnect :: "ql_tipc_dev \<Rightarrow> u32 \<Rightarrow> kern \<Rightarrow> (int \<times> ql_tipc_dev \<times> kern) option" where
  "dev_disconnect dev target k =
     (case ql_ept_chan dev target of
        None \<Rightarrow> Some (SM_ERR_INVALID_PARAMETERS, dev, k)
      | Some (i, hp) \<Rightarrow> do {
          k \<leftarrow> handle_list_del (qd_hlist dev) hp k;
          k \<leftarrow> handle_set_cookie hp 0 k;
          k \<leftarrow> handle_close hp k;
          let (r, dev) = set_status (ql_free_local_addr dev target) QL_TIPC_DEV_DISCONNECT 0 0;
          Some (r, dev, k) })"

definition dev_send :: "ql_tipc_dev \<Rightarrow> (nat \<Rightarrow> byte) \<Rightarrow> nat \<Rightarrow> u32 \<Rightarrow> kern
    \<Rightarrow> (int \<times> ql_tipc_dev \<times> kern) option" where
  "dev_send dev ns ns_sz target k =
     (case ql_ept_chan dev target of
        None \<Rightarrow> (let (r, dev) = set_status dev QL_TIPC_DEV_SEND ERR_INVALID_ARGS 0 in Some (r, dev, k))
      | Some (i, hp) \<Rightarrow> do {
          (ret, k) \<leftarrow> ipc_send_msg no_umem (Some hp)
             (Some \<lparr>kmsg_num_iov = 1, kmsg_iov = Some [\<lparr>kbase = Some (ql_payload dev ns), klen = ns_sz\<rparr>],
                    kmsg_num_handles = 0\<rparr>) k;
          let (r, dev) = set_status dev QL_TIPC_DEV_SEND ret 0;
          Some (r, dev, k) })"

text \<open>The bytes that a read of \<open>rc\<close> bytes put into the kernel vector.\<close>

definition read_bytes :: "int \<Rightarrow> msg_desc \<Rightarrow> byte list" where
  "read_bytes rc d = (case d of IPC_MSG_BUFFER_KERNEL km \<Rightarrow>
     (case kmsg_iov km of None \<Rightarrow> [] | Some vs \<Rightarrow> take (nat rc) (kvec_bytes vs)) | _ \<Rightarrow> [])"

definition dev_recv :: "ql_tipc_dev \<Rightarrow> u32 \<Rightarrow> kern \<Rightarrow> (int \<times> ql_tipc_dev \<times> kern) option" where
  "dev_recv dev target k =
     (let opcode = QL_TIPC_DEV_RECV in
      case ql_ept_chan dev target of
        None \<Rightarrow> (let (r, dev) = set_status dev opcode ERR_INVALID_ARGS 0 in Some (r, dev, k))
      | Some (i, hp) \<Rightarrow> do {
          (rc, mi, k) \<leftarrow> ipc_get_msg (Some hp) k;
          if rc < 0 then (let (r, dev) = set_status dev opcode rc 0 in Some (r, dev, k))
          else do {
            mi \<leftarrow> mi;
            let room = unat (qd_ns_sz dev) - sizeof_tipc_cmd_hdr;
            (rc, d) \<leftarrow> ipc_read_msg no_umem (Some hp) (info_id mi) 0 (Some (kmsg_one (replicate room 0))) k;
            (_, k) \<leftarrow> ipc_put_msg (Some hp) (info_id mi) k;
            let dev = ql_write sizeof_tipc_cmd_hdr (read_bytes rc d) dev;
            if rc < 0 then (let (r, dev) = set_status dev opcode rc 0 in Some (r, dev, k))
            else if rc < sint (info_len mi)
            then (let (r, dev) = set_status dev opcode ERR_BAD_LEN 0 in Some (r, dev, k))
            else (let (r, dev) = set_status dev opcode rc (info_len mi) in Some (r, dev, k)) } })"

text \<open>The event follows the header: the handle at 4, the event at 0, the cookie at 8 of it.\<close>

definition put_event :: "u32 \<Rightarrow> u32 \<Rightarrow> u64 \<Rightarrow> ql_tipc_dev \<Rightarrow> ql_tipc_dev" where
  "put_event handle event cookie dev =
     ql_write (sizeof_tipc_cmd_hdr + 8) (le64_bytes cookie)
       (ql_write sizeof_tipc_cmd_hdr (le32_bytes event)
         (ql_write (sizeof_tipc_cmd_hdr + 4) (le32_bytes handle) dev))"

text \<open>
  \<open>env\<close> and \<open>ev\<close> are the environment and the event of the wait; with the timeout 0 an environment
  without a signal answers \<^const>\<open>ERR_TIMED_OUT\<close>.
\<close>

definition dev_get_event :: "ql_tipc_dev \<Rightarrow> nat \<Rightarrow> u32 \<Rightarrow> wait_env \<Rightarrow> nat \<Rightarrow> kern
    \<Rightarrow> (int option \<times> ql_tipc_dev \<times> kern) option" where
  "dev_get_event dev ns_sz target env ev k =
     (let opcode = QL_TIPC_DEV_GET_EVENT in
      if ns_sz < sizeof_tipc_wait_req
      then (let (r, dev) = set_status dev opcode ERR_INVALID_ARGS 0 in Some (Some r, dev, k))
      else if target \<noteq> 0 then
        (case ql_ept_chan dev target of
           None \<Rightarrow> (let (r, dev) = set_status dev opcode ERR_INVALID_ARGS 0 in Some (Some r, dev, k))
         | Some (i, hp) \<Rightarrow> do {
             (rc, chan_event, env, k) \<leftarrow> handle_wait env ev (Some hp) k;
             (case rc of
                None \<Rightarrow> Some (None, dev, k)
              | Some r \<Rightarrow> do {
                  dev \<leftarrow> (if r = ERR_TIMED_OUT then Some (put_event 0 0 0 dev)
                          else if r < 0 then None
                          else Some (put_event target chan_event (qe_cookie (qd_epts dev ! i)) dev));
                  let (r, dev) = set_status dev opcode 0 (of_nat sizeof_tipc_event);
                  Some (Some r, dev, k) }) })
      else do {
        (rc, found, env, k) \<leftarrow> handle_list_wait env ev (qd_hlist dev) k;
        (case rc of
           None \<Rightarrow> Some (None, dev, k)
         | Some r \<Rightarrow>
             if r = ERR_NOT_FOUND
             then (let (r, dev) = set_status dev opcode r 0 in Some (Some r, dev, k))
             else
               let dev = (if r = ERR_TIMED_OUT then put_event 0 0 0 dev else dev) in
               if r < 0 \<and> r \<noteq> ERR_TIMED_OUT then None
               else do {
                 (chan, chan_event) \<leftarrow> found;
                 cookie \<leftarrow> handle_get_cookie chan k;
                 e \<leftarrow> cookie_ept cookie;
                 _ \<leftarrow> ASSERT (e < length (qd_epts dev));
                 let dev = put_event (ql_ept_to_addr e) chan_event (qe_cookie (qd_epts dev ! e)) dev;
                 k \<leftarrow> handle_decref chan k;
                 let (r, dev) = set_status dev opcode 0 (of_nat sizeof_tipc_event);
                 Some (Some r, dev, k) }) })"

definition dev_handle_cmd :: "ql_tipc_dev \<Rightarrow> tipc_cmd_hdr \<Rightarrow> (nat \<Rightarrow> byte) \<Rightarrow> wait_env \<Rightarrow> nat \<Rightarrow> kern
    \<Rightarrow> (int option \<times> ql_tipc_dev \<times> kern) option" where
  "dev_handle_cmd dev cmd ns env ev k =
     (let len = unat (ch_payload_len cmd); target = ch_handle cmd;
          ret = map_option (\<lambda>(r, dev, k). (Some r, dev, k)) in
      if ch_opcode cmd = QL_TIPC_DEV_SEND then ret (dev_send dev ns len target k)
      else if ch_opcode cmd = QL_TIPC_DEV_RECV then ret (dev_recv dev target k)
      else if ch_opcode cmd = QL_TIPC_DEV_GET_EVENT then dev_get_event dev len target env ev k
      else if ch_opcode cmd = QL_TIPC_DEV_CONNECT then ret (dev_connect dev ns len k)
      else if ch_opcode cmd = QL_TIPC_DEV_DISCONNECT then ret (dev_disconnect dev target k)
      else (let (r, dev) = set_status dev (ch_opcode cmd) ERR_NOT_SUPPORTED 0 in Some (Some r, dev, k)))"

definition parse_cmd_hdr :: "byte list \<Rightarrow> tipc_cmd_hdr" where
  "parse_cmd_hdr b = \<lparr>ch_opcode = le16_of (take 2 b), ch_flags = le16_of (take 2 (drop 2 b)),
     ch_status = le32_of (take 4 (drop 4 b)), ch_handle = le32_of (take 4 (drop 8 b)),
     ch_payload_len = le32_of (take 4 (drop 12 b))\<rparr>"

definition ql_tipc_create_device :: "u64 \<Rightarrow> u32 \<Rightarrow> u32 \<Rightarrow> ql_ctx \<Rightarrow> kern \<Rightarrow> int \<times> ql_ctx \<times> kern" where
  "ql_tipc_create_device buf_pa buf_sz buf_mmu_flags c k = dev_create buf_pa buf_sz buf_mmu_flags c k"

definition ql_tipc_shutdown_device :: "u64 \<Rightarrow> ql_ctx \<Rightarrow> kern \<Rightarrow> (int \<times> ql_ctx \<times> kern) option" where
  "ql_tipc_shutdown_device buf_pa c k =
     (case dev_lookup buf_pa c of
        None \<Rightarrow> Some (SM_ERR_INVALID_PARAMETERS, c, k)
      | Some i \<Rightarrow> do { (c, k) \<leftarrow> dev_shutdown i c k; Some (0, c, k) })"

definition ql_tipc_handle_cmd :: "u64 \<Rightarrow> u32 \<Rightarrow> (nat \<Rightarrow> byte) \<Rightarrow> wait_env \<Rightarrow> nat \<Rightarrow> ql_ctx \<Rightarrow> kern
    \<Rightarrow> (int option \<times> ql_ctx \<times> kern) option" where
  "ql_tipc_handle_cmd buf_pa cmd_sz ns env ev c k =
     (case dev_lookup buf_pa c of
        None \<Rightarrow> Some (Some SM_ERR_INVALID_PARAMETERS, c, k)
      | Some i \<Rightarrow>
          if unat cmd_sz < sizeof_tipc_cmd_hdr then Some (Some SM_ERR_INVALID_PARAMETERS, c, k)
          else
            let cmd_hdr = parse_cmd_hdr (map ns [0..<sizeof_tipc_cmd_hdr]) in
            if ch_payload_len cmd_hdr \<noteq> cmd_sz - of_nat sizeof_tipc_cmd_hdr
            then Some (Some SM_ERR_INVALID_PARAMETERS, c, k)
            else do {
              (r, dev, k) \<leftarrow> dev_handle_cmd (qc_dev_list c ! i) cmd_hdr ns env ev k;
              Some (r, c\<lparr>qc_dev_list := (qc_dev_list c)[i := dev]\<rparr>, k) })"

end
