(* ===== verification/QlProperties.thy ===== *)
theory QlProperties
  imports QlTipc Fairness Protocol
begin

text \<open>
  What the normal world can do through the queueless bridge (\<^verbatim>\<open>tipc_dev_ql.c\<close>): the devices and their
  buffers stay sound under any sequence of calls, the endpoint table is a map that connecting and
  disconnecting change at one address, and two commands that fail the kernel.
\<close>

section \<open>The endpoint table as a map\<close>

definition ql_wf :: "ql_tipc_dev \<Rightarrow> bool" where
  "ql_wf dev \<longleftrightarrow> bitmap_wf QL_TIPC_ADDR_MAX_NUM (qd_inuse dev) \<and> length (qd_epts dev) = QL_TIPC_ADDR_MAX_NUM \<and>
     (\<forall>i<QL_TIPC_ADDR_MAX_NUM. bitmap_test (qd_inuse dev) i \<longrightarrow> qe_chan (qd_epts dev ! i) \<noteq> None)"

definition ql_routes :: "ql_tipc_dev \<Rightarrow> u32 \<Rightarrow> (hptr \<times> u64) option" where
  "ql_routes dev a = map_option (\<lambda>(i, hp). (hp, qe_cookie (qd_epts dev ! i))) (ql_ept_chan dev a)"

definition ept_route :: "ql_ept \<Rightarrow> hptr \<times> u64" where
  "ept_route e = (the (qe_chan e), qe_cookie e)"

lemma ql_ept_lookup_eq: "ql_ept_lookup dev = qltab.tlookup (qd_inuse dev)"
  by (rule ext) (simp add: ql_ept_lookup_def qltab.tlookup_def qltab.slot_def ql_addr_to_slot_def Let_def)

lemma ql_slot_to_addr_eq: "ql_slot_to_addr (of_nat i) = qltab.addr i"
  by (simp add: ql_slot_to_addr_def qltab.addr_def)

lemma ql_ept_chan_wf:
  assumes "ql_wf dev"
  shows "ql_ept_chan dev a = (case qltab.tlookup (qd_inuse dev) a of None \<Rightarrow> None
    | Some i \<Rightarrow> Some (i, the (qe_chan (qd_epts dev ! i))))"
proof (cases "qltab.tlookup (qd_inuse dev) a")
  case None
  then show ?thesis by (simp add: ql_ept_chan_def ql_ept_lookup_eq)
next
  case (Some i)
  moreover from this assms have "qe_chan (qd_epts dev ! i) \<noteq> None" by (simp add: ql_wf_def qltab.tlookup_Some)
  ultimately show ?thesis by (auto simp: ql_ept_chan_def ql_ept_lookup_eq)
qed

lemma ql_routes_table:
  "ql_wf dev \<Longrightarrow> ql_routes dev = map_option ept_route \<circ> qltab.table (qd_inuse dev) (qd_epts dev)"
  by (rule ext) (simp add: ql_routes_def ql_ept_chan_wf qltab.table_def ept_route_def option.map_comp
      comp_def split: option.split)

lemma ql_routes_None: "ql_routes dev a = None \<longleftrightarrow> ql_ept_chan dev a = None"
  by (simp add: ql_routes_def)

definition same_dev :: "ql_tipc_dev \<Rightarrow> ql_tipc_dev \<Rightarrow> bool" where
  "same_dev d d' \<longleftrightarrow> qd_ns_pa d' = qd_ns_pa d \<and> qd_ns_sz d' = qd_ns_sz d \<and> qd_hlist d' = qd_hlist d \<and> qd_ns_mmu_flags d' = qd_ns_mmu_flags d \<and>
     qd_guest d' = qd_guest d \<and> qd_uuid d' = qd_uuid d"

lemma same_dev_refl [simp]: "same_dev d d"
  by (simp add: same_dev_def)

lemma ql_wf_writes [simp]: "ql_wf (ql_write off d dev) = ql_wf dev" "same_dev dev' (ql_write off d dev) = same_dev dev' dev"
  "ql_routes (ql_write off d dev) = ql_routes dev"
  by (auto simp: ql_wf_def ql_write_def same_dev_def ql_routes_def ql_ept_chan_def ql_ept_lookup_def fun_eq_iff
      Let_def split: option.split)

lemma set_status_dev [simp]:
  "fst (set_status dev cmd err len) = err"
  "ql_wf (snd (set_status dev cmd err len)) = ql_wf dev"
  "same_dev dev' (snd (set_status dev cmd err len)) = same_dev dev' dev"
  "ql_routes (snd (set_status dev cmd err len)) = ql_routes dev"
  by (simp_all add: set_status_def)

lemma put_event_dev [simp]:
  "ql_wf (put_event h e c dev) = ql_wf dev" "same_dev dev' (put_event h e c dev) = same_dev dev' dev"
  "ql_routes (put_event h e c dev) = ql_routes dev"
  by (simp_all add: put_event_def)

lemma ql_alloc_ok:
  assumes "ql_wf dev" "ql_alloc_local_addr dev hp cookie = (a, dev')"
  shows "ql_wf dev'" "same_dev dev dev'" "qd_writes dev' = qd_writes dev"
    and "if a = 0 then dev' = dev else ql_routes dev a = None \<and> ql_routes dev' = (ql_routes dev)(a \<mapsto> (hp, cookie))"
proof -
  let ?b = "qd_inuse dev" and ?s = "bitmap_ffz (qd_inuse dev) QL_TIPC_ADDR_MAX_NUM"
  have wf: "bitmap_wf QL_TIPC_ADDR_MAX_NUM ?b" "length (qd_epts dev) = QL_TIPC_ADDR_MAX_NUM"
    using assms(1) by (simp_all add: ql_wf_def)
  have "ql_wf dev' \<and> same_dev dev dev' \<and> qd_writes dev' = qd_writes dev \<and> (if a = 0 then dev' = dev
    else ql_routes dev a = None \<and> ql_routes dev' = (ql_routes dev)(a \<mapsto> (hp, cookie)))"
  proof (cases "?s < 0")
    case True
    then show ?thesis using assms by (simp add: ql_alloc_local_addr_def)
  next
    case False
    define n where "n = nat ?s"
    have n: "n < QL_TIPC_ADDR_MAX_NUM" and s: "?s = int n" "0 \<le> ?s"
      using qltab.find_free [OF wf(1)] False by (simp_all add: n_def)
    have a: "a = qltab.addr n" and dev': "dev' = dev\<lparr>qd_inuse := bitmap_set ?b n,
        qd_epts := (qd_epts dev)[n := \<lparr>qe_chan = Some hp, qe_cookie = cookie\<rparr>]\<rparr>"
      using assms(2) s by (simp_all add: ql_alloc_local_addr_def ql_slot_to_addr_eq)
    have wf': "ql_wf dev'"
      using assms(1) n wf unfolding ql_wf_def dev'
      by (auto simp: qltab.mark_used [OF wf(1)] inv_intros nth_list_update)
    have "ql_routes dev' = (ql_routes dev)(a \<mapsto> (hp, cookie))" "ql_routes dev a = None"
      using qltab.table_alloc [OF wf s(2)] unfolding ql_routes_table [OF assms(1)] ql_routes_table [OF wf']
      by (auto simp: a dev' n_def [symmetric] ept_route_def fun_eq_iff)
    then show ?thesis using wf' n a by (simp add: qltab.addr_nonzero dev' same_dev_def)
  qed
  then show "ql_wf dev'" "same_dev dev dev'" "qd_writes dev' = qd_writes dev"
    "if a = 0 then dev' = dev else ql_routes dev a = None \<and> ql_routes dev' = (ql_routes dev)(a \<mapsto> (hp, cookie))"
    by blast+
qed

lemma ql_free_ok:
  assumes "ql_wf dev"
  shows "ql_wf (ql_free_local_addr dev a)" "same_dev dev (ql_free_local_addr dev a)"
    "qd_writes (ql_free_local_addr dev a) = qd_writes dev"
    and "ql_routes (ql_free_local_addr dev a) = (ql_routes dev)(a := None)"
proof -
  let ?d = "ql_free_local_addr dev a" and ?s = "qltab.slot a"
  have wf: "bitmap_wf QL_TIPC_ADDR_MAX_NUM (qd_inuse dev)" "length (qd_epts dev) = QL_TIPC_ADDR_MAX_NUM"
    using assms by (simp_all add: ql_wf_def)
  have d: "?d = (if ?s < QL_TIPC_ADDR_MAX_NUM then dev\<lparr>qd_inuse := bitmap_clear (qd_inuse dev) ?s,
      qd_epts := (qd_epts dev)[?s := \<lparr>qe_chan = None, qe_cookie = 0\<rparr>]\<rparr> else dev)"
    by (simp add: ql_free_local_addr_def qltab.slot_def ql_addr_to_slot_def Let_def)
  show wf': "ql_wf ?d" and "same_dev dev ?d" "qd_writes ?d = qd_writes dev"
    using assms wf unfolding d ql_wf_def
    by (auto simp: qltab.unmark_used [OF wf(1)] inv_intros nth_list_update same_dev_def)
  show "ql_routes ?d = (ql_routes dev)(a := None)"
    unfolding ql_routes_table [OF assms] ql_routes_table [OF wf']
    using qltab.table_free [OF wf, of a "\<lparr>qe_chan = None, qe_cookie = 0\<rparr>"]
    by (auto simp: d fun_eq_iff qltab.table_None)
qed

section \<open>Writes stay in the buffer\<close>

definition in_buffer :: "ql_tipc_dev \<Rightarrow> bool" where
  "in_buffer dev \<longleftrightarrow> (\<forall>(off, d)\<in>set (qd_writes dev). off + length d \<le> unat (qd_ns_sz dev))"

definition buf_sz_ok :: "u32 \<Rightarrow> bool" where
  "buf_sz_ok n \<longleftrightarrow> n \<noteq> 0 \<and> n AND (0x1000 - 1) = 0"

lemma buf_sz_page: "buf_sz_ok n \<Longrightarrow> 0x1000 \<le> unat n"
proof -
  assume n: "buf_sz_ok n"
  have "take_bit 12 n = 0" using n by (simp add: buf_sz_ok_def take_bit_eq_mask mask_eq_exp_minus_1)
  then have "take_bit 12 (unat n) = 0" by (metis unsigned_0 unsigned_take_bit_eq)
  then have "unat n mod 2 ^ 12 = 0" by (simp add: take_bit_eq_mod)
  moreover have "unat n \<noteq> 0" using n by (simp add: buf_sz_ok_def unat_eq_0)
  ultimately show ?thesis by (simp add: mod_eq_0_iff_dvd dvd_imp_le)
qed

text \<open>A device as the calls leave it, with the static fields of \<open>d0\<close>.\<close>

definition dev_ok :: "ql_tipc_dev \<Rightarrow> bool" where
  "dev_ok dev \<longleftrightarrow> qd_ns_pa dev AND (0x1000 - 1) = 0 \<and> buf_sz_ok (qd_ns_sz dev) \<and> ql_wf dev \<and> in_buffer dev"

definition keeps :: "ql_tipc_dev \<Rightarrow> ql_tipc_dev \<Rightarrow> bool" where
  "keeps dev dev' \<longleftrightarrow> dev_ok dev' \<and> same_dev dev dev'"

lemma keeps_refl: "dev_ok dev \<Longrightarrow> keeps dev dev"
  by (simp add: keeps_def)

lemma keeps_write:
  "keeps dev d \<Longrightarrow> off + length b \<le> 0x1000 \<or> off + length b \<le> unat (qd_ns_sz dev) \<Longrightarrow> keeps dev (ql_write off b d)"
  using buf_sz_page [of "qd_ns_sz d"]
  by (auto simp: keeps_def dev_ok_def in_buffer_def ql_write_def same_dev_def ql_wf_def)

lemma keeps_status: "keeps dev d \<Longrightarrow> keeps dev (snd (set_status d cmd err len))"
  by (auto simp: set_status_def le32_bytes_def le16_bytes_def intro!: keeps_write)

lemma keeps_event: "keeps dev d \<Longrightarrow> keeps dev (put_event h e c d)"
  by (auto simp: put_event_def le32_bytes_def le64_bytes_def sizeof_tipc_cmd_hdr_def intro!: keeps_write)

lemma keeps_alloc: "keeps dev d \<Longrightarrow> keeps dev (snd (ql_alloc_local_addr d hp cookie))"
  using ql_alloc_ok [of d hp cookie "fst (ql_alloc_local_addr d hp cookie)" "snd (ql_alloc_local_addr d hp cookie)"]
  by (auto simp: keeps_def dev_ok_def in_buffer_def same_dev_def)

lemma keeps_free: "keeps dev d \<Longrightarrow> keeps dev (ql_free_local_addr d a)"
  using ql_free_ok [of d a] by (auto simp: keeps_def dev_ok_def in_buffer_def same_dev_def)

lemmas keeps_rules = keeps_status keeps_event keeps_alloc keeps_free keeps_refl

lemma kvec_bytes_le: "length (kvec_bytes vs) \<le> sum_list (map klen vs)"
  by (induction vs) (auto simp: kvec_part_def split: option.split)

lemma membuf_to_kern_loop_klen:
  "membuf_to_kern_loop vs n buf len c = Some (r, vs') \<Longrightarrow> map klen vs' = map klen vs"
proof (induction vs n buf len c arbitrary: r vs' rule: membuf_to_kern_loop.induct)
  case (3 v vs n buf len c)
  show ?case using 3(3) 3(1) [OF refl] 3(2) [OF refl]
    by (fastforce simp: Let_def split: if_splits option.splits)
qed simp_all

definition desc_room :: "msg_desc \<Rightarrow> nat" where
  "desc_room d = (case d of IPC_MSG_BUFFER_KERNEL km \<Rightarrow>
     (case kmsg_iov km of None \<Rightarrow> 0 | Some vs \<Rightarrow> sum_list (map klen vs)) | _ \<Rightarrow> 0)"

lemma msg_read_room:
  "msg_read_locked m mq i off (IPC_MSG_BUFFER_KERNEL km) = Some (r, m', d) \<Longrightarrow>
     desc_room d = desc_room (IPC_MSG_BUFFER_KERNEL km)"
  by (auto simp: msg_read_locked_def bind_Some_iff membuf_to_kern_iovec_def desc_room_def Let_def
      dest!: membuf_to_kern_loop_klen split: option.splits if_splits)

lemma ipc_read_room:
  assumes "ipc_read_msg m hp i off (Some km) k = Some (r, d)"
  shows "desc_room d = desc_room (IPC_MSG_BUFFER_KERNEL km)"
  using assms
  by (auto simp: ipc_read_msg_def chan_read_locked_def bind_Some_iff Let_def dest: msg_read_room
      split: if_splits option.splits hptr.splits)

lemma read_bytes_room: "length (read_bytes rc d) \<le> desc_room d"
  using kvec_bytes_le
  by (auto simp: read_bytes_def desc_room_def intro!: min.coboundedI1 split: msg_desc.split option.split)

section \<open>Commands keep the device sound\<close>

lemma dev_connect_keeps:
  "dev_ok dev \<Longrightarrow> pred_option (\<lambda>(r, dev', k'). keeps dev dev') (dev_connect dev ns len k)"
  unfolding dev_connect_def Let_def split_beta
  by (intro pred_rules) (auto simp: split_beta le32_bytes_def intro!: pred_rules keeps_rules keeps_write split: option.split)

lemma dev_disconnect_keeps:
  "dev_ok dev \<Longrightarrow> pred_option (\<lambda>(r, dev', k'). keeps dev dev') (dev_disconnect dev target k)"
  unfolding dev_disconnect_def Let_def split_beta
  by (auto simp: split_beta intro!: pred_rules keeps_rules split: option.split)

lemma dev_send_keeps:
  "dev_ok dev \<Longrightarrow> pred_option (\<lambda>(r, dev', k'). keeps dev dev') (dev_send dev ns len target k)"
  unfolding dev_send_def Let_def split_beta
  by (auto simp: split_beta intro!: pred_rules keeps_rules split: option.split)

lemma dev_recv_keeps:
  assumes ok: "dev_ok dev"
  shows "pred_option (\<lambda>(r, dev', k'). keeps dev dev') (dev_recv dev target k)"
proof -
  have room: "sizeof_tipc_cmd_hdr + length (read_bytes rc d) \<le> unat (qd_ns_sz dev)"
    if "ipc_read_msg no_umem h i 0 (Some (kmsg_one (replicate (unat (qd_ns_sz dev) - sizeof_tipc_cmd_hdr) 0))) k = Some (q, d)"
    for rc d h i k q
    using ipc_read_room [OF that] read_bytes_room [of rc d] buf_sz_page [of "qd_ns_sz dev"] ok
    by (simp add: desc_room_def kmsg_one_def dev_ok_def sizeof_tipc_cmd_hdr_def)
  show ?thesis
    using ok unfolding dev_recv_def Let_def split_beta
    by (auto simp: split_beta intro!: pred_rules keeps_rules keeps_write split: option.split dest: room)
qed

lemma dev_get_event_keeps:
  "dev_ok dev \<Longrightarrow> pred_option (\<lambda>(r, dev', k'). keeps dev dev') (dev_get_event dev len target env ev k)"
  unfolding dev_get_event_def Let_def split_beta
  by (auto simp: split_beta intro!: pred_rules keeps_rules split: option.split)

lemma dev_handle_cmd_keeps:
  assumes "dev_ok dev"
  shows "pred_option (\<lambda>(r, dev', k'). keeps dev dev') (dev_handle_cmd dev cmd ns env ev k)"
  using dev_connect_keeps [OF assms, unfolded split_beta] dev_disconnect_keeps [OF assms, unfolded split_beta]
    dev_send_keeps [OF assms, unfolded split_beta] dev_recv_keeps [OF assms, unfolded split_beta]
    dev_get_event_keeps [OF assms] keeps_status [OF keeps_refl [OF assms]]
  by (simp add: dev_handle_cmd_def Let_def split_beta option.pred_map comp_def)

section \<open>The devices\<close>

definition ql_ctx_ok :: "ql_ctx \<Rightarrow> bool" where
  "ql_ctx_ok c \<longleftrightarrow> unat (qc_dev_cnt c) = length (qc_dev_list c) \<and> length (qc_dev_list c) \<le> QL_TIPC_DEV_MAX_NUM \<and>
     distinct (map qd_ns_pa (qc_dev_list c)) \<and> (\<forall>d\<in>set (qc_dev_list c). dev_ok d)"

text \<open>The states that calls of the normal world reach; the kernel state is any at each call.\<close>

inductive ql_reach :: "ql_ctx \<Rightarrow> bool" where
  init: "ql_reach \<lparr>qc_dev_cnt = 0, qc_dev_list = [], qc_calloc = a, qc_vmm = v, qc_unmapped = []\<rparr>"
| create: "ql_reach c \<Longrightarrow> ql_tipc_create_device pa sz flags c k = (r, c', k') \<Longrightarrow> ql_reach c'"
| shutdown: "ql_reach c \<Longrightarrow> ql_tipc_shutdown_device pa c k = Some (r, c', k') \<Longrightarrow> ql_reach c'"
| command: "ql_reach c \<Longrightarrow> ql_tipc_handle_cmd pa sz ns env ev c k = Some (r, c', k') \<Longrightarrow> ql_reach c'"

lemma dev_find_Some: "dev_find pa ds = Some i \<Longrightarrow> i < length ds \<and> qd_ns_pa (ds ! i) = pa"
  by (induction ds arbitrary: i) (auto split: if_splits)

lemma dev_find_None: "dev_find pa ds = None \<longleftrightarrow> pa \<notin> qd_ns_pa ` set ds"
  by (induction ds) auto

lemma ql_wf_new: "ql_wf (new_ql_dev a pa sz fl)"
  by (simp add: ql_wf_def new_ql_dev_def bitmap_test_empty inv_intros)

lemma next_frame [simp]:
  "qc_next_calloc c = (x, c1) \<Longrightarrow> qc_dev_list c1 = qc_dev_list c \<and> qc_dev_cnt c1 = qc_dev_cnt c"
  "qc_next_vmm c = (y, c2) \<Longrightarrow> qc_dev_list c2 = qc_dev_list c \<and> qc_dev_cnt c2 = qc_dev_cnt c"
  by (auto simp: qc_next_calloc_def qc_next_vmm_def split: list.splits)

lemma dev_create_ok:
  assumes c: "ql_ctx_ok c" and r: "dev_create pa sz fl c k = (r, c', k')"
  shows "ql_ctx_ok c'"
proof -
  obtain x c1 where n1: "qc_next_calloc c = (x, c1)" by (cases "qc_next_calloc c")
  obtain y c2 where n2: "qc_next_vmm c1 = (y, c2)" by (cases "qc_next_vmm c1")
  have fr: "qc_dev_list c1 = qc_dev_list c" "qc_dev_cnt c1 = qc_dev_cnt c"
    "qc_dev_list c2 = qc_dev_list c" "qc_dev_cnt c2 = qc_dev_cnt c"
    using next_frame(1) [OF n1] next_frame(2) [OF n2] by simp_all
  have cnt: "unat (qc_dev_cnt c + 1) = Suc (length (qc_dev_list c))" if "unat (qc_dev_cnt c) < QL_TIPC_DEV_MAX_NUM"
    using c that by (simp add: ql_ctx_ok_def QL_TIPC_DEV_MAX_NUM_def unat_word_ariths)
  show ?thesis
    using r c cnt fr n2 unfolding dev_create_def n1
    by (auto simp: ql_ctx_ok_def dev_lookup_def dev_find_None dev_ok_def new_ql_dev_def ql_wf_new in_buffer_def
        buf_sz_ok_def Let_def ql_wf_new [unfolded new_ql_dev_def] split: if_splits option.splits)
qed

lemma dev_create_devs:
  assumes "dev_create pa sz fl c k = (r, c', k')"
  shows "qc_dev_list c' = qc_dev_list c \<or> (\<exists>a. qc_dev_list c' = new_ql_dev a pa sz fl # qc_dev_list c)"
proof -
  obtain x c1 where n1: "qc_next_calloc c = (x, c1)" by (cases "qc_next_calloc c")
  obtain y c2 where n2: "qc_next_vmm c1 = (y, c2)" by (cases "qc_next_vmm c1")
  have fr: "qc_dev_list c1 = qc_dev_list c" "qc_dev_list c2 = qc_dev_list c"
    using next_frame(1) [OF n1] next_frame(2) [OF n2] by simp_all
  show ?thesis
    using assms fr n2 unfolding dev_create_def n1 by (auto simp: Let_def split: if_splits option.splits)
qed

lemma dev_shutdown_ok:
  assumes c: "ql_ctx_ok c" and r: "dev_shutdown i c k = Some (c', k')"
  shows "ql_ctx_ok c'"
proof -
  have i: "i < length (qc_dev_list c)" using r by (auto simp: dev_shutdown_def bind_Some_iff)
  define pre post where "pre = take i (qc_dev_list c)" and "post = drop (Suc i) (qc_dev_list c)"
  have split: "qc_dev_list c = pre @ qc_dev_list c ! i # post"
    using i unfolding pre_def post_def by (rule id_take_nth_drop)
  have "qc_dev_cnt c \<noteq> 0" using c i by (auto simp: ql_ctx_ok_def)
  then have cnt: "unat (qc_dev_cnt c - 1) = unat (qc_dev_cnt c) - 1" by (rule unat_minus_one)
  have c': "qc_dev_list c' = pre @ post" "qc_dev_cnt c' = qc_dev_cnt c - 1"
    using r by (auto simp: dev_shutdown_def bind_Some_iff Let_def pre_def post_def)
  obtain d where d: "qc_dev_list c = pre @ d # post" using split by blast
  show ?thesis using c i cnt by (simp add: ql_ctx_ok_def c' d)
qed

lemma ql_command_ok:
  assumes c: "ql_ctx_ok c" and r: "ql_tipc_handle_cmd pa sz ns env ev c k = Some (r, c', k')"
  shows "ql_ctx_ok c'"
proof (cases "c' = c")
  case True
  with c show ?thesis by simp
next
  case False
  then obtain i dev h where i: "dev_lookup pa c = Some i"
      and dev: "dev_handle_cmd (qc_dev_list c ! i) h ns env ev k = Some (r, dev, k')"
      and c': "c' = c\<lparr>qc_dev_list := (qc_dev_list c)[i := dev]\<rparr>"
    using r by (auto simp: ql_tipc_handle_cmd_def bind_Some_iff Let_def split: option.splits if_splits)
  have lt: "i < length (qc_dev_list c)" using i by (auto simp: dev_lookup_def dest: dev_find_Some)
  have "dev_ok (qc_dev_list c ! i)" using c lt by (simp add: ql_ctx_ok_def)
  from dev_handle_cmd_keeps [OF this, of h ns env ev k] dev
  have k: "dev_ok dev" "qd_ns_pa dev = qd_ns_pa (qc_dev_list c ! i)" by (auto simp: keeps_def same_dev_def)
  then have "map qd_ns_pa (qc_dev_list c') = map qd_ns_pa (qc_dev_list c)"
    using lt by (auto simp: c' map_update list_update_same_conv)
  then show ?thesis using c k set_update_subset_insert [of "qc_dev_list c" i dev]
    by (auto simp: ql_ctx_ok_def c')
qed

lemma ql_reach_ok: "ql_reach c \<Longrightarrow> ql_ctx_ok c"
proof (induction rule: ql_reach.induct)
  case (shutdown c pa k r c' k')
  then show ?case
    by (auto simp: ql_tipc_shutdown_device_def bind_Some_iff dest: dev_shutdown_ok split: option.splits)
qed (auto simp: ql_ctx_ok_def[of "ql_ctx.make _ _ _ _ _"] ql_tipc_create_device_def dest: dev_create_ok ql_command_ok,
     simp add: ql_ctx_ok_def)

section \<open>Messages through the buffer\<close>

text \<open>A vector entry is read up to its length only.\<close>

lemma fill_prefix:
  assumes "n \<le> length b"
  shows "kern_iovec_to_membuf (Some buf) sz (Some [\<lparr>kbase = Some b, klen = n\<rparr>]) 1 =
    kern_iovec_to_membuf (Some buf) sz (Some [\<lparr>kbase = Some (take n b), klen = n\<rparr>]) 1"
  using assms by (simp add: kern_iovec_to_membuf_def clip_def Let_def min_def)

lemma send_fill:
  assumes "\<And>buf sz. msg_fill m d buf sz = msg_fill m d' buf sz"
  shows "chan_send_locked m h d k = chan_send_locked m h d' k"
proof -
  have "msg_fill m d = msg_fill m d'" using assms by (simp add: fun_eq_iff)
  then have "mq_write m d = mq_write m d'" unfolding mq_write_def by presburger
  then have "msg_write_locked m c d = msg_write_locked m c d'" for c unfolding msg_write_locked_def by presburger
  then show ?thesis unfolding chan_send_locked_def by presburger
qed

lemma ql_payload_length: "length (ql_payload dev ns) = unat (qd_ns_sz dev) - 16"
  by (simp add: ql_payload_def sizeof_tipc_cmd_hdr_def)

lemma ql_payload_take: "16 + n \<le> unat (qd_ns_sz dev) \<Longrightarrow> take n (ql_payload dev ns) = map ns [16..<16 + n]"
  by (simp add: ql_payload_def sizeof_tipc_cmd_hdr_def take_map)

lemma ql_send_eq:
  assumes "ql_routes dev target = Some (hp, ck)" "16 + n \<le> unat (qd_ns_sz dev)"
  shows "dev_send dev ns n target k = map_option (\<lambda>(r, k).
      (r, snd (set_status dev QL_TIPC_DEV_SEND r 0), k)) (chan_send_locked no_umem (Some hp) (kern_msg (map ns [16..<16 + n])) k)"
proof -
  have "msg_fill no_umem (IPC_MSG_BUFFER_KERNEL \<lparr>kmsg_num_iov = 1,
        kmsg_iov = Some [\<lparr>kbase = Some (ql_payload dev ns), klen = n\<rparr>], kmsg_num_handles = 0\<rparr>) buf sz =
      msg_fill no_umem (kern_msg (map ns [16..<16 + n])) buf sz" for buf sz
    using fill_prefix [of n "ql_payload dev ns" buf sz] assms(2) ql_payload_take [OF assms(2)]
    by (simp add: msg_fill_def kern_msg_def ql_payload_length)
  from send_fill [OF this]
  have "ipc_send_msg no_umem (Some hp) (Some \<lparr>kmsg_num_iov = 1,
        kmsg_iov = Some [\<lparr>kbase = Some (ql_payload dev ns), klen = n\<rparr>], kmsg_num_handles = 0\<rparr>) k =
      chan_send_locked no_umem (Some hp) (kern_msg (map ns [16..<16 + n])) k"
    by (simp add: ipc_send_msg_def)
  then show ?thesis
    using assms(1)
    by (cases "chan_send_locked no_umem (Some hp) (kern_msg (map ns [16..<16 + n])) k")
       (auto simp: dev_send_def ql_routes_def split_beta prod_eq_iff)
qed

lemma read_held_min:
  assumes ch: "k_chans k c = Some ch" "c_msg_queue ch = Some mq" "mq_inv mq"
    and held: "unat t \<in> set (mq_read_list mq)"
    and vs: "list_all kvec_ok vs"
  shows "\<exists>vs'. ipc_read_msg m (Some (HChan c)) t 0
      (Some \<lparr>kmsg_num_iov = length vs, kmsg_iov = Some vs, kmsg_num_handles = 0\<rparr>) k =
      Some (int (min (length (mq_content mq (unat t))) (length (kvec_bytes vs))), IPC_MSG_BUFFER_KERNEL
        \<lparr>kmsg_num_iov = length vs, kmsg_iov = Some vs', kmsg_num_handles = 0\<rparr>) \<and>
    take (min (length (mq_content mq (unat t))) (length (kvec_bytes vs))) (kvec_bytes vs') =
      take (length (kvec_bytes vs)) (mq_content mq (unat t))"
proof -
  let ?a = "mq_content mq (unat t)" and ?n = "item_len (mq_items mq ! unat t)"
  let ?d = "IPC_MSG_BUFFER_KERNEL \<lparr>kmsg_num_iov = length vs, kmsg_iov = Some vs, kmsg_num_handles = 0\<rparr>"
  obtain buf where buf: "?n \<le> length buf" "take ?n buf = ?a"
    "msg_read_locked m mq t 0 ?d =
       map_option (\<lambda>(ret, iov). (ret, m, IPC_MSG_BUFFER_KERNEL
           \<lparr>kmsg_num_iov = length vs, kmsg_iov = iov, kmsg_num_handles = 0\<rparr>))
         (membuf_to_kern_iovec (Some vs) (length vs) (Some buf) ?n)"
    by (rule msg_read_step [OF ch(3) held, of 0 m ?d]) auto
  have n: "?n = length ?a" using buf(1,2) by (metis length_take min_absorb2)
  obtain vs' where "membuf_to_kern_iovec (Some vs) (length vs) (Some buf) ?n =
      Some (int (min ?n (length (kvec_bytes vs))), Some vs')"
    "kvec_bytes vs' = take (min ?n (length (kvec_bytes vs))) buf @ drop (min ?n (length (kvec_bytes vs))) (kvec_bytes vs)"
    using membuf_to_kern_iovec_scatters [OF vs buf(1)] by auto
  moreover have "take (min ?n (length (kvec_bytes vs))) buf = take (length (kvec_bytes vs)) ?a"
    unfolding buf(2) [symmetric] by (simp add: min.commute)
  moreover have "take (min (length ?a) (length (kvec_bytes vs))) ?a = take (length (kvec_bytes vs)) ?a"
    by (simp add: min_def)
  ultimately show ?thesis using ch buf(1,3) n
    by (simp add: ipc_read_msg_def chan_read_locked_def check_channel_locked_def)
qed

lemma ql_recv_eq:
  assumes inv: "kinv ext T k" and ok: "buf_sz_ok (qd_ns_sz dev)" and r: "ql_routes dev target = Some (HChan c, ck)"
    and ib: "inbox k c = data # rest"
  shows "\<exists>k'. dev_recv dev target k = (let room = unat (qd_ns_sz dev) - 16; n = length data;
      dev1 = ql_write 16 (take room data) dev;
      (res, dev2) = (if n \<le> room then set_status dev1 QL_TIPC_DEV_RECV (int n) (of_nat n)
                     else set_status dev1 QL_TIPC_DEV_RECV ERR_BAD_LEN 0)
      in Some (res, dev2, k')) \<and> inbox k' = (inbox k)(c := rest) \<and> kinv ext T k'"
proof -
  have q: "has_queue k c" using ib by (auto simp: inbox_def has_queue_def split: option.splits)
  obtain i k1 ch mq where g: "ipc_get_msg (Some (HChan c)) k = Some (NO_ERROR, Some i, k1)" "kinv ext T k1"
    "inbox k1 = (inbox k)(c := rest)" "unat (info_len i) = length data" "k_chans k1 c = Some ch"
    "c_msg_queue ch = Some mq" "mq_inv mq" "unat (info_id i) \<in> set (mq_read_list mq)"
    "mq_content mq (unat (info_id i)) = data"
    using get_ok [OF inv q] ib by auto
  have q1: "has_queue k1 c" using g(5,6) by (simp add: has_queue_def)
  obtain pr k2 where p: "ipc_put_msg (Some (HChan c)) (info_id i) k1 = Some (pr, k2)" "kinv ext T k2" "inbox k2 = inbox k1"
    using put_ok [OF g(2) q1, of "info_id i"] by auto
  let ?room = "unat (qd_ns_sz dev) - 16"
  let ?vs = "[\<lparr>kbase = Some (replicate ?room 0), klen = ?room\<rparr>]"
  have vs: "list_all kvec_ok ?vs" "length (kvec_bytes ?vs) = ?room" "length ?vs = 1"
    by (simp_all add: kvec_ok_def kvec_part_def)
  obtain vs' where v: "ipc_read_msg no_umem (Some (HChan c)) (info_id i) 0 (Some (kmsg_one (replicate ?room 0))) k1 =
      Some (int (min (length data) ?room), IPC_MSG_BUFFER_KERNEL
        \<lparr>kmsg_num_iov = 1, kmsg_iov = Some vs', kmsg_num_handles = 0\<rparr>)"
    "take (min (length data) ?room) (kvec_bytes vs') = take ?room data"
    using read_held_min [OF g(5-8) vs(1), of no_umem] unfolding g(9) vs(2,3) by (auto simp: kmsg_one_def)
  have len: "sint (info_len i) = int (length data)" "info_len i = of_nat (length data)"
  proof -
    have "unat (info_id i) < num_items mq" using mq_inv_lists(3) [OF g(7)] g(8) by auto
    then have "length data \<le> item_sz mq" "item_sz mq \<le> IPC_CHAN_MAX_BUF_SIZE"
      using g(7,9) by (auto simp: mq_inv_def mq_item_ok_def mq_content_def min_def)
    then have "int (unat (info_len i)) \<le> 4096" using g(4) by (simp add: IPC_CHAN_MAX_BUF_SIZE_def)
    then have "uint (info_len i) \<le> 4096" by simp
    moreover have "- 2147483648 \<le> uint (info_len i)" by (rule order_trans [OF _ unsigned_greater_eq]) simp
    ultimately show "sint (info_len i) = int (length data)" "info_len i = of_nat (length data)"
      unfolding g(4) [symmetric] by (simp_all add: sint_uint signed_take_bit_int_eq_self_iff)
  qed
  show ?thesis
    using r g(1,3) p v len
    by (auto simp: dev_recv_def ql_routes_def sizeof_tipc_cmd_hdr_def NO_ERROR_def read_bytes_def Let_def split_beta min_def)
qed

section \<open>What commands do to the table\<close>

definition routes_like :: "ql_tipc_dev \<Rightarrow> ql_tipc_dev \<Rightarrow> bool" where
  "routes_like dev d \<longleftrightarrow> ql_wf d \<and> ql_routes d = ql_routes dev"

lemma routes_like_rules:
  "ql_wf dev \<Longrightarrow> routes_like dev dev"
  "routes_like dev d \<Longrightarrow> routes_like dev (snd (set_status d cmd err len))"
  "routes_like dev d \<Longrightarrow> routes_like dev (put_event h e ck d)"
  "routes_like dev d \<Longrightarrow> routes_like dev (ql_write off b d)"
  by (simp_all add: routes_like_def)

lemma same_routes:
  assumes "ql_wf dev"
  shows "pred_option (\<lambda>(r, d, k'). routes_like dev d) (dev_send dev ns len target k)"
    and "pred_option (\<lambda>(r, d, k'). routes_like dev d) (dev_recv dev target k)"
    and "pred_option (\<lambda>(r, d, k'). routes_like dev d) (dev_get_event dev len target env ev k)"
  using assms unfolding dev_send_def dev_recv_def dev_get_event_def Let_def split_beta
  by (auto simp: split_beta intro!: pred_rules routes_like_rules split: option.split)

lemmas same_routesD = same_routes [THEN pred_optionD, unfolded prod.case]

lemma set_status_writes: "set (qd_writes dev) \<subseteq> set (qd_writes (snd (set_status dev cmd err len)))"
  by (auto simp: set_status_def ql_write_def)

lemma ql_payload_cookie:
  assumes "16 < n" "n \<le> length (ql_payload dev ns)"
  shows "take 8 (take n (ql_payload dev ns)) = map ns [16..<24]"
proof -
  have "16 + 8 \<le> unat (qd_ns_sz dev)" using assms by (simp add: ql_payload_length)
  then have "take 8 (ql_payload dev ns) = map ns [16..<16 + 8]" by (rule ql_payload_take)
  then show ?thesis using assms(1) by (simp add: min_def)
qed

lemma dev_connect_routes:
  assumes wf: "ql_wf dev" and c: "dev_connect dev ns n k = Some (r, dev', k')"
  shows "if r = 0 then ql_wf dev' \<and> (\<exists>a hp. ql_routes dev a = None \<and> (8, le32_bytes a) \<in> set (qd_writes dev') \<and>
      ql_routes dev' = (ql_routes dev)(a \<mapsto> (hp, le64_of (map ns [16..<24])))) else routes_like dev dev'"
proof (cases "n \<le> sizeof_tipc_connect_req \<or> n \<ge> sizeof_connect_buf")
  case True
  then have "r = ERR_INVALID_ARGS" "dev' = snd (set_status dev QL_TIPC_DEV_CONNECT ERR_INVALID_ARGS 0)"
    using c by (auto simp: dev_connect_def split_beta split: if_splits)
  then show ?thesis using wf by (simp add: ERR_INVALID_ARGS_def routes_like_rules)
next
  case False
  let ?req = "take n (ql_payload dev ns)"
  from False c obtain rc chan k1 where len: "n \<le> length (ql_payload dev ns)" "16 < n" and
    conn: "ipc_port_connect_async (qd_guest dev) (qd_uuid dev) (drop sizeof_tipc_connect_req ?req @ [0])
      (n - sizeof_tipc_connect_req) 0 k = Some (rc, chan, k1)"
    by (auto simp: dev_connect_def bind_Some_iff sizeof_tipc_connect_req_def Let_def)
  have ck: "take 8 ?req = map ns [16..<24]" by (rule ql_payload_cookie [OF len(2,1)])
  note c1 = c [unfolded dev_connect_def Let_def conn ck]
  show ?thesis
  proof (cases "rc = NO_ERROR")
    case False
    then show ?thesis using c1 \<open>\<not> (n \<le> _ \<or> _)\<close> len wf
      by (auto simp: split_beta NO_ERROR_def intro!: routes_like_rules)
  next
    case True
    then obtain hp where hp: "chan = Some hp" using c1 \<open>\<not> (n \<le> _ \<or> _)\<close> len by (auto simp: bind_Some_iff)
    obtain a d where al: "ql_alloc_local_addr dev hp (le64_of (map ns [16..<24])) = (a, d)" by (metis surj_pair)
    note ok = ql_alloc_ok [OF wf al]
    show ?thesis
    proof (cases "a = 0")
      case True
      then show ?thesis using c1 \<open>\<not> (n \<le> _ \<or> _)\<close> len wf hp al ok \<open>rc = NO_ERROR\<close>
        by (auto simp: split_beta bind_Some_iff ERR_NO_RESOURCES_def intro!: routes_like_rules)
    next
      case False
      have "(8, le32_bytes a) \<in> set (qd_writes (snd (set_status (ql_write 8 (le32_bytes a) d) QL_TIPC_DEV_CONNECT 0 0)))"
        using set_status_writes [of "ql_write 8 (le32_bytes a) d"] by (auto simp: ql_write_def)
      then show ?thesis using c1 \<open>\<not> (n \<le> _ \<or> _)\<close> len hp al ok \<open>rc = NO_ERROR\<close> False
        by (auto simp: split_beta bind_Some_iff intro!: exI [of _ a] exI [of _ hp])
    qed
  qed
qed

lemma dev_disconnect_routes:
  assumes wf: "ql_wf dev" and c: "dev_disconnect dev target k = Some (r, dev', k')"
  shows "ql_wf dev' \<and> ql_routes dev' = (ql_routes dev)(target := None)"
proof (cases "ql_ept_chan dev target")
  case None
  then show ?thesis using c wf by (auto simp: dev_disconnect_def fun_eq_iff ql_routes_None)
next
  case (Some p)
  then have "dev' = snd (set_status (ql_free_local_addr dev target) QL_TIPC_DEV_DISCONNECT 0 0)"
    using c by (auto simp: dev_disconnect_def split_beta bind_Some_iff split: prod.splits)
  then show ?thesis using ql_free_ok [OF wf, of target] by simp
qed

lemmas ql_opcodes = QL_TIPC_DEV_CONNECT_def QL_TIPC_DEV_GET_EVENT_def QL_TIPC_DEV_SEND_def QL_TIPC_DEV_RECV_def
  QL_TIPC_DEV_DISCONNECT_def

section \<open>Properties\<close>

definition ql_demo0 :: ql_ctx where
  "ql_demo0 = \<lparr>qc_dev_cnt = 0, qc_dev_list = [], qc_calloc = [Some 5], qc_vmm = [], qc_unmapped = []\<rparr>"

definition ql_demo1 :: ql_ctx where
  "ql_demo1 = fst (snd (ql_tipc_create_device 0x80000000 0x1000 0 ql_demo0 kern0))"

text \<open>A command with the number 9, which does not exist.\<close>

definition ql_demo_ns :: "nat \<Rightarrow> byte" where
  "ql_demo_ns i = (if i = 0 then 9 else 0)"

definition ql_demo2 :: ql_ctx where
  "ql_demo2 = fst (snd (the (ql_tipc_handle_cmd 0x80000000 16 ql_demo_ns [] 0 ql_demo1 kern0)))"

lemma ql_demo_reach: "ql_reach ql_demo2"
proof -
  have 0: "ql_reach ql_demo0" unfolding ql_demo0_def by (rule ql_reach.init)
  have "ql_tipc_create_device 0x80000000 0x1000 0 ql_demo0 kern0 =
      (fst (ql_tipc_create_device 0x80000000 0x1000 0 ql_demo0 kern0), ql_demo1,
       snd (snd (ql_tipc_create_device 0x80000000 0x1000 0 ql_demo0 kern0)))"
    by (simp add: ql_demo1_def)
  from ql_reach.create [OF 0 this] have 1: "ql_reach ql_demo1" .
  let ?r = "ql_tipc_handle_cmd 0x80000000 16 ql_demo_ns [] 0 ql_demo1 kern0"
  have "?r \<noteq> None" by code_simp
  then have "?r = Some (fst (the ?r), ql_demo2, snd (snd (the ?r)))" by (auto simp: ql_demo2_def)
  from ql_reach.command [OF 1 this] show ?thesis .
qed

text \<open>Property C31.  Whatever calls the normal world makes, there are at most two devices, counted right, on
  different page-aligned buffers of at least a page, and no command ever wrote outside the buffer of its
  device.\<close>

theorem ql_devices_sound:
  assumes "ql_reach c"
  shows "length (qc_dev_list c) \<le> QL_TIPC_DEV_MAX_NUM \<and> unat (qc_dev_cnt c) = length (qc_dev_list c) \<and>
    distinct (map qd_ns_pa (qc_dev_list c)) \<and>
    (\<forall>d\<in>set (qc_dev_list c). qd_ns_pa d AND (0x1000 - 1) = 0 \<and> 0x1000 \<le> unat (qd_ns_sz d) \<and>
       (\<forall>(off, b)\<in>set (qd_writes d). off + length b \<le> unat (qd_ns_sz d)))"
  using ql_reach_ok [OF assms] by (auto simp: ql_ctx_ok_def dev_ok_def in_buffer_def buf_sz_page)

theorem ql_devices_sound_witness:
  "map (\<lambda>d. (qd_ns_pa d, qd_writes d)) (qc_dev_list ql_demo2) =
     [(0x80000000, [(4, [1, 0, 0, 0]), (12, [0, 0, 0, 0]), (0, [9, 0x80])])] \<and>
   distinct (map qd_ns_pa (qc_dev_list ql_demo2))"
proof -
  have "map (\<lambda>d. (qd_ns_pa d, qd_writes d)) (qc_dev_list ql_demo2) =
      [(0x80000000, [(4, [1, 0, 0, 0]), (12, [0, 0, 0, 0]), (0, [9, 0x80])])]" by code_simp
  then show ?thesis using ql_devices_sound [OF ql_demo_reach] by blast
qed

text \<open>The endpoint table is a map from addresses to channels and cookies: a successful connect
  command enters its channel, with the cookie of the request, at one fresh address, and writes that
  address into the answer; a disconnect command removes the address it names; every other command, and
  every failed one, leaves the map alone.\<close>

theorem ql_table_is_map:
  assumes "ql_wf dev" and "dev_handle_cmd dev cmd ns env ev k = Some (r, dev', k')"
  shows "ql_wf dev' \<and>
    (if ch_opcode cmd = QL_TIPC_DEV_CONNECT \<and> r = Some 0 then
       \<exists>a hp. ql_routes dev a = None \<and> (8, le32_bytes a) \<in> set (qd_writes dev') \<and>
         ql_routes dev' = (ql_routes dev)(a \<mapsto> (hp, le64_of (map ns [16..<24])))
     else if ch_opcode cmd = QL_TIPC_DEV_DISCONNECT then ql_routes dev' = (ql_routes dev)(ch_handle cmd := None)
     else ql_routes dev' = ql_routes dev)"
proof -
  let ?op = "ch_opcode cmd" and ?n = "unat (ch_payload_len cmd)" and ?h = "ch_handle cmd"
  consider (con) x where "?op = QL_TIPC_DEV_CONNECT" "r = Some x" "dev_connect dev ns ?n k = Some (x, dev', k')"
    | (dis) x where "?op = QL_TIPC_DEV_DISCONNECT" "dev_disconnect dev ?h k = Some (x, dev', k')"
    | (other) "?op \<noteq> QL_TIPC_DEV_CONNECT" "?op \<noteq> QL_TIPC_DEV_DISCONNECT" "routes_like dev dev'"
    using assms(2) same_routesD [OF assms(1)] assms(1)
    by (auto simp: dev_handle_cmd_def Let_def split_beta routes_like_rules ql_opcodes split: if_splits)
  then show ?thesis
  proof cases
    case con
    with dev_connect_routes [OF assms(1) con(3)] show ?thesis
      by (auto simp: ql_opcodes routes_like_def split: if_splits)
  next
    case dis
    with dev_disconnect_routes [OF assms(1) dis(2)] show ?thesis by (simp add: ql_opcodes)
  next
    case other
    then show ?thesis by (simp add: routes_like_def)
  qed
qed

text \<open>A device with one open channel, the server's end of a connection.\<close>

definition ql_demo_dev :: ql_tipc_dev where
  "ql_demo_dev = snd (ql_alloc_local_addr (hd (qc_dev_list ql_demo1)) (HChan 3) 42)"

definition ql_demo_k :: kern where
  "ql_demo_k = the (handle_list_add 5 (HChan 3) (handle_list_init 5 demo_connected))"

definition ql_cmd :: "u16 \<Rightarrow> u32 \<Rightarrow> u32 \<Rightarrow> tipc_cmd_hdr" where
  "ql_cmd op handle len = \<lparr>ch_opcode = op, ch_flags = 0, ch_status = 0, ch_handle = handle, ch_payload_len = len\<rparr>"

lemma ql_demo_dev_ok: "ql_wf ql_demo_dev" "buf_sz_ok (qd_ns_sz ql_demo_dev)" "unat (qd_ns_sz ql_demo_dev) = 4096"
  "ql_routes ql_demo_dev 32 = Some (HChan 3, 42)" "qd_hlist ql_demo_dev = 5"
proof -
  have d: "qc_dev_list ql_demo1 = [new_ql_dev 5 0x80000000 0x1000 0]"
    by (simp add: ql_demo1_def ql_demo0_def ql_tipc_create_device_def dev_create_def dev_lookup_def qc_next_calloc_def
        qc_next_vmm_def QL_TIPC_DEV_MAX_NUM_def NO_ERROR_def)
  obtain a where "ql_alloc_local_addr (hd (qc_dev_list ql_demo1)) (HChan 3) 42 = (a, ql_demo_dev)"
    by (metis ql_demo_dev_def prod.collapse)
  from ql_alloc_ok [OF _ this] show "ql_wf ql_demo_dev" by (simp add: d ql_wf_new)
  show "buf_sz_ok (qd_ns_sz ql_demo_dev)" "unat (qd_ns_sz ql_demo_dev) = 4096"
    "ql_routes ql_demo_dev 32 = Some (HChan 3, 42)" "qd_hlist ql_demo_dev = 5" by code_simp+
qed

theorem ql_table_is_map_witness:
  "ql_routes ql_demo_dev 32 = Some (HChan 3, 42) \<and>
   (\<exists>r dev' k'. dev_handle_cmd ql_demo_dev (ql_cmd 5 32 0) ql_demo_ns [] 0 ql_demo_k = Some (r, dev', k') \<and>
      ql_routes dev' = (ql_routes ql_demo_dev)(32 := None))"
proof -
  let ?r = "dev_handle_cmd ql_demo_dev (ql_cmd 5 32 0) ql_demo_ns [] 0 ql_demo_k"
  have "\<not> Option.is_none ?r" by code_simp
  then obtain r dev' k' where r: "?r = Some (r, dev', k')" by (auto simp: Option.is_none_def)
  from ql_table_is_map [OF ql_demo_dev_ok(1) r] have "ql_routes dev' = (ql_routes ql_demo_dev)(32 := None)"
    by (simp add: ql_cmd_def ql_opcodes)
  with r ql_demo_dev_ok(4) show ?thesis by blast
qed

text \<open>Property C32.  A send command whose payload fits behind the header in the shared buffer of the device hands
  that payload to the channel of its handle: the peer's queue gets exactly one message, the first bytes
  of the payload, as many as the command reports, or, when the command fails, nothing.  The endpoint table
  and the invariant of the kernel stay.  That the payload fits, 16 bytes of header and the length of the command
  within the size of the buffer, is a condition on the normal world: the code compares the length only
  with the size that the same call gives, and a longer one makes it send the memory behind the buffer.\<close>

theorem ql_send_delivers:
  assumes "kinv ext T k" and "ch_opcode cmd = QL_TIPC_DEV_SEND" and "ql_routes dev (ch_handle cmd) = Some (HChan c, ck)"
    and "k_chans k c \<noteq> None" and "16 + unat (ch_payload_len cmd) \<le> unat (qd_ns_sz dev)"
  shows "\<exists>r dev' k'. dev_handle_cmd dev cmd ns env ev k = Some (Some r, dev', k') \<and>
    kinv ext T k' \<and> ql_routes dev' = ql_routes dev \<and>
    (if r < 0 then inbox k' = inbox k
     else nat r \<le> unat (ch_payload_len cmd) \<and> (\<exists>d. pr k c = Some d \<and>
       inbox k' = (inbox k)(d := inbox k d @ [map ns [16..<16 + nat r]])))"
proof -
  let ?len = "unat (ch_payload_len cmd)"
  let ?data = "map ns [16..<16 + ?len]"
  have "msg_desc_ok (kern_msg ?data)" by (simp add: msg_desc_ok_def kern_msg_def kvec_ok_def)
  from send_ok [OF assms(1,4) this, of no_umem] obtain r k' where
    s: "chan_send_locked no_umem (Some (HChan c)) (kern_msg ?data) k = Some (r, k')" "kinv ext T k'"
    and neg: "r < 0 \<Longrightarrow> inbox k' = inbox k"
    and pos: "0 \<le> r \<Longrightarrow> \<exists>d content. pr k c = Some d \<and> int (length content) = r \<and>
      inbox k' = (inbox k)(d := inbox k d @ [content]) \<and> (\<forall>data. kern_msg ?data = kern_msg data \<longrightarrow> content = take (nat r) data)"
    by blast
  let ?d = "snd (set_status dev QL_TIPC_DEV_SEND r 0)"
  have "dev_handle_cmd dev cmd ns env ev k = Some (Some r, ?d, k')"
    using ql_send_eq [OF assms(3,5)] s(1) assms(2) by (simp add: dev_handle_cmd_def)
  moreover have "nat r \<le> ?len \<and> (\<exists>d. pr k c = Some d \<and>
      inbox k' = (inbox k)(d := inbox k d @ [map ns [16..<16 + nat r]]))" if r: "\<not> r < 0"
  proof -
    obtain d content where d: "pr k c = Some d" "int (length content) = r"
      "inbox k' = (inbox k)(d := inbox k d @ [content])" "content = take (nat r) ?data"
      using pos r by (metis not_le)
    then have "nat r \<le> ?len" by (metis length_map length_take length_upt min.cobounded1 nat_int add_diff_cancel_left')
    with d show ?thesis by (auto simp: take_map)
  qed
  ultimately show ?thesis using s(2) neg by (intro exI [of _ r] exI [of _ ?d] exI [of _ k']) simp
qed

lemma demo_connected_inv: "kinv ext3 {} demo_connected"
  by (rule sys_invD(1) [OF reach_inv [OF demo_reach(4)]])

definition ql_data_ns :: "nat \<Rightarrow> byte" where
  "ql_data_ns i = of_nat i"

theorem ql_send_delivers_witness:
  "\<exists>r dev' k'. dev_handle_cmd ql_demo_dev (ql_cmd 3 32 4) ql_data_ns [] 0 demo_connected = Some (Some r, dev', k') \<and>
     (if r < 0 then inbox k' = inbox demo_connected
      else nat r \<le> 4 \<and> (\<exists>d. pr demo_connected 3 = Some d \<and>
        inbox k' = (inbox demo_connected)(d := inbox demo_connected d @ [map ql_data_ns [16..<16 + nat r]])))"
proof -
  have "\<not> Option.is_none (k_chans demo_connected 3)" by code_simp
  then have alive: "k_chans demo_connected 3 \<noteq> None" by (simp add: Option.is_none_def)
  have op: "ch_opcode (ql_cmd 3 32 4) = QL_TIPC_DEV_SEND" and len: "unat (ch_payload_len (ql_cmd 3 32 4)) = 4"
    by (simp_all add: ql_cmd_def ql_opcodes)
  have rt: "ql_routes ql_demo_dev (ch_handle (ql_cmd 3 32 4)) = Some (HChan 3, 42)"
    using ql_demo_dev_ok(4) by (simp add: ql_cmd_def)
  have "16 + unat (ch_payload_len (ql_cmd 3 32 4)) \<le> unat (qd_ns_sz ql_demo_dev)"
    unfolding len ql_demo_dev_ok(3) by simp
  from ql_send_delivers [OF demo_connected_inv op rt alive this, of ql_data_ns "[]" 0]
  show ?thesis unfolding len by (elim exE conjE) (intro exI conjI; assumption)
qed

text \<open>Property C33.  A receive command takes the oldest message of the channel of its handle.  If the message fits
  behind the header it is written there, whole, with its length in the answer; a longer one is cut, reported
  as \<^verbatim>\<open>ERR_BAD_LEN\<close>, and lost: in either case it is out of the channel's queue.\<close>

theorem ql_recv_delivers:
  assumes "kinv ext T k" and "buf_sz_ok (qd_ns_sz dev)" and "ch_opcode cmd = QL_TIPC_DEV_RECV"
    and "ql_routes dev (ch_handle cmd) = Some (HChan c, ck)" and "inbox k c = data # rest"
  shows "\<exists>r dev' k'. dev_handle_cmd dev cmd ns env ev k = Some (Some r, dev', k') \<and>
    kinv ext T k' \<and> ql_routes dev' = ql_routes dev \<and> inbox k' = (inbox k)(c := rest) \<and>
    (let room = unat (qd_ns_sz dev) - 16 in
     if length data \<le> room then
       r = int (length data) \<and> qd_writes dev' = qd_writes dev @ [(16, data), (4, le32_bytes 0),
         (12, le32_bytes (of_nat (length data))), (0, le16_bytes (QL_TIPC_DEV_RECV OR QL_TIPC_DEV_RESP))]
     else
       r = ERR_BAD_LEN \<and> qd_writes dev' = qd_writes dev @ [(16, take room data), (4, le32_bytes 1),
         (12, le32_bytes 0), (0, le16_bytes (QL_TIPC_DEV_RECV OR QL_TIPC_DEV_RESP))])"
proof -
  let ?room = "unat (qd_ns_sz dev) - 16" and ?n = "length data"
  let ?dev1 = "ql_write 16 (take ?room data) dev"
  let ?s = "if ?n \<le> ?room then set_status ?dev1 QL_TIPC_DEV_RECV (int ?n) (of_nat ?n)
    else set_status ?dev1 QL_TIPC_DEV_RECV ERR_BAD_LEN 0"
  from ql_recv_eq [OF assms(1,2,4,5)] obtain k' where
    k': "dev_recv dev (ch_handle cmd) k = Some (fst ?s, snd ?s, k')" "inbox k' = (inbox k)(c := rest)" "kinv ext T k'"
    by (auto simp: Let_def split_beta)
  then have "dev_handle_cmd dev cmd ns env ev k = Some (Some (fst ?s), snd ?s, k')"
    using assms(3) by (simp add: dev_handle_cmd_def ql_opcodes)
  moreover have "ql_routes (snd ?s) = ql_routes dev" by simp
  ultimately show ?thesis using k'(2,3) unfolding Let_def
    by (intro exI [of _ "fst ?s"] exI [of _ "snd ?s"] exI [of _ k'] conjI)
       (simp_all add: set_status_def ql_write_def ERR_BAD_LEN_def)
qed

theorem ql_recv_delivers_witness:
  "\<exists>k r dev' k'. inbox k 3 = [[5, 6, 7]] \<and>
     dev_handle_cmd ql_demo_dev (ql_cmd 4 32 0) ql_data_ns [] 0 k = Some (Some r, dev', k') \<and>
     inbox k' 3 = [] \<and> r = 3 \<and>
     qd_writes dev' = [(16, [5, 6, 7]), (4, [0, 0, 0, 0]), (12, [3, 0, 0, 0]), (0, [4, 0x80])]"
proof -
  let ?send = "chan_send_locked no_umem (Some (HChan 2)) (kern_msg [5, 6, 7]) demo_connected"
  have "map_option (\<lambda>(r, k). (r, inbox k 3)) ?send = Some (3, [[5, 6, 7]])"
    "\<not> Option.is_none (k_chans demo_connected 2)" "qd_writes ql_demo_dev = []" by code_simp+
  then obtain k where k: "?send = Some (3, k)" "inbox k 3 = [[5, 6, 7]]" and alive: "k_chans demo_connected 2 \<noteq> None"
    and w: "qd_writes ql_demo_dev = []" by (auto simp: Option.is_none_def)
  have "msg_desc_ok (kern_msg [5, 6, 7])" by (simp add: msg_desc_ok_def kern_msg_def kvec_ok_def)
  from send_ok [OF demo_connected_inv alive this, of no_umem] k(1) have inv: "kinv ext3 {} k" by auto
  have "ch_opcode (ql_cmd 4 32 0) = QL_TIPC_DEV_RECV" "ch_handle (ql_cmd 4 32 0) = 32"
    by (simp_all add: ql_cmd_def ql_opcodes)
  with ql_recv_delivers [OF inv ql_demo_dev_ok(2) this(1) _ k(2), of 42 ql_data_ns "[]" 0] ql_demo_dev_ok(3,4)
  obtain r dev' k' where "dev_handle_cmd ql_demo_dev (ql_cmd 4 32 0) ql_data_ns [] 0 k = Some (Some r, dev', k')"
    "inbox k' = (inbox k)(3 := [])" "r = 3" "qd_writes dev' = qd_writes ql_demo_dev @ [(16, [5, 6, 7]), (4, le32_bytes 0),
         (12, le32_bytes 3), (0, le16_bytes (QL_TIPC_DEV_RECV OR QL_TIPC_DEV_RESP))]"
    by (auto simp: Let_def)
  with k(2) w show ?thesis
    by (intro exI [of _ k] exI [of _ r] exI [of _ dev'] exI [of _ k'])
       (simp add: le32_bytes_def le16_bytes_def ql_opcodes QL_TIPC_DEV_RESP_def)
qed

text \<open>Property C34.  Asking for the next event of any channel (handle 0) while none is pending crashes the
  kernel: the wait times out without a channel, and the code that reports an event runs all the same
  and follows the NULL pointer.  Any client of the device in the normal world can do this.\<close>

theorem ql_idle_poll_panics:
  assumes "dev_lookup pa c = Some i" and "parse_cmd_hdr (map ns [0..<16]) = cmd"
    and "ch_opcode cmd = QL_TIPC_DEV_GET_EVENT" and "ch_handle cmd = 0" and "8 \<le> unat (ch_payload_len cmd)"
    and "16 \<le> unat sz" and "ch_payload_len cmd = sz - 16"
    and "waitable (qd_hlist (qc_dev_list c ! i)) k" and "members (qd_hlist (qc_dev_list c ! i)) k \<noteq> []"
    and "\<forall>hp\<in>set (members (qd_hlist (qc_dev_list c ! i)) k). handle_poll hp k = Some 0"
  shows "handle_list_wait [(ERR_TIMED_OUT, id)] ev (qd_hlist (qc_dev_list c ! i)) k = Some (Some ERR_TIMED_OUT, None, [], k) \<and>
    ql_tipc_handle_cmd pa sz ns [(ERR_TIMED_OUT, id)] ev c k = None"
proof -
  have w: "handle_list_wait [(ERR_TIMED_OUT, id)] ev (qd_hlist (qc_dev_list c ! i)) k = Some (Some ERR_TIMED_OUT, None, [], k)"
    using handle_list_wait_idle [OF assms(8-10), of ERR_TIMED_OUT "[]" ev] by (simp add: ERR_TIMED_OUT_def)
  then have "dev_handle_cmd (qc_dev_list c ! i) cmd ns [(ERR_TIMED_OUT, id)] ev k = None"
    using assms(3-5)
    by (simp add: dev_handle_cmd_def ql_opcodes dev_get_event_def sizeof_tipc_wait_req_def ERR_TIMED_OUT_def ERR_NOT_FOUND_def)
  then show ?thesis using w assms(1,2,6,7)
    by (simp add: ql_tipc_handle_cmd_def sizeof_tipc_cmd_hdr_def Let_def)
qed

text \<open>The header of the command: opcode 2, handle 0, 8 bytes of payload.\<close>

definition ql_poll_ns :: "nat \<Rightarrow> byte" where
  "ql_poll_ns i = (if i = 0 then 2 else if i = 12 then 8 else 0)"

theorem ql_idle_poll_panics_witness:
  "ql_tipc_handle_cmd 0x80000000 24 ql_poll_ns [(ERR_TIMED_OUT, id)] 9 (ql_demo1\<lparr>qc_dev_list := [ql_demo_dev]\<rparr>) ql_demo_k = None"
proof -
  let ?c = "ql_demo1\<lparr>qc_dev_list := [ql_demo_dev]\<rparr>" and ?cmd = "ql_cmd 2 0 8"
  have l: "dev_lookup 0x80000000 ?c = Some 0" and p: "parse_cmd_hdr (map ql_poll_ns [0..<16]) = ?cmd"
    and w: "waitable 5 ql_demo_k" "members 5 ql_demo_k = [HChan 3]" "handle_poll (HChan 3) ql_demo_k = Some 0"
    by code_simp+
  have h: "qd_hlist (qc_dev_list ?c ! 0) = 5" using ql_demo_dev_ok(5) by simp
  from ql_idle_poll_panics [OF l p, of 24 ql_demo_k 9, unfolded h] w
  show ?thesis by (simp add: ql_cmd_def ql_opcodes)
qed

end
