(* ===== verification/PageTable.thy ===== *)
theory PageTable
  imports Prelude
begin

text \<open>
  The page tables of the processor: \<^verbatim>\<open>lk/common/arch/arm64/mmu.c\<close> with the entry format of \<^verbatim>\<open>mmu.h\<close>.  Tables are
  objects in memory, named by their physical address (\<^verbatim>\<open>paddr_to_kvaddr\<close> is a bijection between the
  address and the pointer); an entry is a 64-bit word.  Pages have 4 KiB for the kernel and for user
  threads, so the level \<open>l\<close> of a table, 0 for the last, stands for the \<^verbatim>\<open>index_shift\<close> \<open>12 + 9 l\<close>.  Offsets
  into the mapped range are natural numbers: the range check of \<^verbatim>\<open>arm64_mmu_map\<close>, on 64-bit words, makes
  all sums exact.  A result \<^term>\<open>None\<close> is a panic, or an access to memory that is no table.
\<close>

type_synonym pt_mem = "u64 \<Rightarrow> u64 list option"

text \<open>
  \<open>ph_alloc\<close> is the page allocator: for the number of requests so far and the memory in use, the address of
  the next table or nothing.  \<open>ph_tlbi\<close> collects the addresses whose translation is invalidated, with
  the address-space identifier.
\<close>

record pt_heap =
  ph_mem :: pt_mem
  ph_alloc :: "nat \<Rightarrow> pt_mem \<Rightarrow> u64 option"
  ph_cnt :: nat
  ph_tlbi :: "(u64 \<times> u32) list"

definition ERR_GENERIC :: int where "ERR_GENERIC = -1"

definition MMU_PTE_DESCRIPTOR_INVALID :: u64 where "MMU_PTE_DESCRIPTOR_INVALID = 0"
definition MMU_PTE_DESCRIPTOR_MASK :: u64 where "MMU_PTE_DESCRIPTOR_MASK = 3"
definition MMU_PTE_L012_DESCRIPTOR_BLOCK :: u64 where "MMU_PTE_L012_DESCRIPTOR_BLOCK = 1"
definition MMU_PTE_L012_DESCRIPTOR_TABLE :: u64 where "MMU_PTE_L012_DESCRIPTOR_TABLE = 3"
definition MMU_PTE_L3_DESCRIPTOR_PAGE :: u64 where "MMU_PTE_L3_DESCRIPTOR_PAGE = 3"
definition MMU_PTE_OUTPUT_ADDR_MASK :: u64 where "MMU_PTE_OUTPUT_ADDR_MASK = 0xFFFFFFFFF000"
definition MMU_PTE_DESCRIPTOR_BLOCK_MAX_SHIFT :: nat where "MMU_PTE_DESCRIPTOR_BLOCK_MAX_SHIFT = 30"
definition MMU_ARM64_GLOBAL_ASID :: u32 where "MMU_ARM64_GLOBAL_ASID = 0xFFFFFFFF"

definition pt_shift :: "nat \<Rightarrow> nat" where
  "pt_shift l = 12 + 9 * l"

section \<open>Reading and writing tables\<close>

definition read_pte :: "u64 \<Rightarrow> nat \<Rightarrow> pt_heap \<Rightarrow> u64 option" where
  "read_pte tbl i h = do { es \<leftarrow> ph_mem h tbl; if i < length es then Some (es ! i) else None }"

definition write_pte :: "u64 \<Rightarrow> nat \<Rightarrow> u64 \<Rightarrow> pt_heap \<Rightarrow> pt_heap option" where
  "write_pte tbl i v h = do {
     es \<leftarrow> ph_mem h tbl;
     if i < length es then Some (h\<lparr>ph_mem := (ph_mem h)(tbl \<mapsto> es[i := v])\<rparr>) else None }"

definition alloc_page_table :: "pt_heap \<Rightarrow> u64 option \<times> pt_heap" where
  "alloc_page_table h = (ph_alloc h (ph_cnt h) (ph_mem h), h\<lparr>ph_cnt := ph_cnt h + 1\<rparr>)"

definition free_page_table :: "u64 \<Rightarrow> pt_heap \<Rightarrow> pt_heap option" where
  "free_page_table paddr h = do { _ \<leftarrow> ph_mem h paddr; Some (h\<lparr>ph_mem := (ph_mem h)(paddr := None)\<rparr>) }"

text \<open>The table at an index, made when there is none; \<^term>\<open>None\<close> in the result is NULL.\<close>

definition arm64_mmu_get_page_table :: "nat \<Rightarrow> u64 \<Rightarrow> pt_heap \<Rightarrow> (u64 option \<times> pt_heap) option" where
  "arm64_mmu_get_page_table index tbl h = do {
     pte \<leftarrow> read_pte tbl index h;
     let desc = pte AND MMU_PTE_DESCRIPTOR_MASK;
     if desc = MMU_PTE_DESCRIPTOR_INVALID then
       (case alloc_page_table h of
          (None, h) \<Rightarrow> Some (None, h)
        | (Some paddr, h) \<Rightarrow> do {
            let h = h\<lparr>ph_mem := (ph_mem h)(paddr \<mapsto> replicate 512 MMU_PTE_DESCRIPTOR_INVALID)\<rparr>;
            h \<leftarrow> write_pte tbl index (paddr OR MMU_PTE_L012_DESCRIPTOR_TABLE) h;
            Some (Some paddr, h) })
     else if desc = MMU_PTE_L012_DESCRIPTOR_TABLE then Some (Some (pte AND MMU_PTE_OUTPUT_ADDR_MASK), h)
     else if desc = MMU_PTE_L012_DESCRIPTOR_BLOCK then Some (None, h)
     else None }"

definition page_table_is_clear :: "u64 \<Rightarrow> pt_heap \<Rightarrow> bool option" where
  "page_table_is_clear tbl h = do {
     es \<leftarrow> ph_mem h tbl;
     if length es < 512 then None else Some (\<forall>pte\<in>set (take 512 es). pte = MMU_PTE_DESCRIPTOR_INVALID) }"

section \<open>Unmapping\<close>

text \<open>One turn of the loop: what happens to the entry at \<open>index\<close>; \<open>rec\<close> is the call for the next level.\<close>

definition unmap_entry :: "(u64 \<Rightarrow> nat \<Rightarrow> nat \<Rightarrow> u64 \<Rightarrow> pt_heap \<Rightarrow> pt_heap option) \<Rightarrow> nat \<Rightarrow> u64 \<Rightarrow> nat \<Rightarrow> nat \<Rightarrow> nat \<Rightarrow> u64 \<Rightarrow> u32
    \<Rightarrow> pt_heap \<Rightarrow> pt_heap option" where
  "unmap_entry rec l vaddr rem chunk index tbl asid h = do {
     pte \<leftarrow> read_pte tbl index h;
     if l > 0 \<and> pte AND MMU_PTE_DESCRIPTOR_MASK = MMU_PTE_L012_DESCRIPTOR_TABLE then do {
       let next = pte AND MMU_PTE_OUTPUT_ADDR_MASK;
       h \<leftarrow> rec vaddr rem chunk next h;
       clear \<leftarrow> (if chunk = 2 ^ pt_shift l then Some True else page_table_is_clear next h);
       if clear then do {
         h \<leftarrow> write_pte tbl index MMU_PTE_DESCRIPTOR_INVALID h;
         free_page_table next h }
       else Some h }
     else if pte \<noteq> 0 then do {
       h \<leftarrow> write_pte tbl index MMU_PTE_DESCRIPTOR_INVALID h;
       Some (h\<lparr>ph_tlbi := (vaddr, asid) # ph_tlbi h\<rparr>) }
     else Some h }"

definition chunk_of :: "nat \<Rightarrow> nat \<Rightarrow> nat \<Rightarrow> nat" where
  "chunk_of l rel sz = min sz (2 ^ pt_shift l - rel mod 2 ^ pt_shift l)"

lemma chunk_pos: "sz \<noteq> 0 \<Longrightarrow> 0 < chunk_of l rel sz"
  by (simp add: chunk_of_def)

function unmap_loop :: "(u64 \<Rightarrow> nat \<Rightarrow> nat \<Rightarrow> u64 \<Rightarrow> pt_heap \<Rightarrow> pt_heap option) \<Rightarrow> nat \<Rightarrow> u64 \<Rightarrow> nat \<Rightarrow> nat \<Rightarrow> u64 \<Rightarrow> u32
    \<Rightarrow> pt_heap \<Rightarrow> pt_heap option" where
  "unmap_loop rec l vaddr vaddr_rel sz tbl asid h =
     (if sz = 0 then Some h
      else
        let chunk = chunk_of l vaddr_rel sz in do {
          h \<leftarrow> unmap_entry rec l vaddr (vaddr_rel mod 2 ^ pt_shift l) chunk (vaddr_rel div 2 ^ pt_shift l) tbl asid h;
          unmap_loop rec l (vaddr + of_nat chunk) (vaddr_rel + chunk) (sz - chunk) tbl asid h })"
  by pat_completeness auto
termination
  by (relation "measure (\<lambda>(rec, l, vaddr, vaddr_rel, sz, tbl, asid, h). sz)") (auto simp: chunk_of_def)

declare unmap_loop.simps [simp del]

fun arm64_mmu_unmap_pt :: "nat \<Rightarrow> u32 \<Rightarrow> u64 \<Rightarrow> nat \<Rightarrow> nat \<Rightarrow> u64 \<Rightarrow> pt_heap \<Rightarrow> pt_heap option" where
  "arm64_mmu_unmap_pt 0 asid vaddr vaddr_rel sz tbl h =
     unmap_loop (\<lambda>_ _ _ _ _. None) 0 vaddr vaddr_rel sz tbl asid h"
| "arm64_mmu_unmap_pt (Suc l) asid vaddr vaddr_rel sz tbl h =
     unmap_loop (arm64_mmu_unmap_pt l asid) (Suc l) vaddr vaddr_rel sz tbl asid h"

section \<open>Mapping\<close>

text \<open>One turn of the loop; the result says whether the turn succeeded.  At level 0 the aligned range never
  needs a next level, so \<open>rec\<close> is not called there.\<close>

definition map_entry :: "(u64 \<Rightarrow> nat \<Rightarrow> u64 \<Rightarrow> nat \<Rightarrow> u64 \<Rightarrow> pt_heap \<Rightarrow> (int \<times> pt_heap) option) \<Rightarrow> nat \<Rightarrow> u64 \<Rightarrow> nat \<Rightarrow> u64 \<Rightarrow> nat
    \<Rightarrow> u64 \<Rightarrow> nat \<Rightarrow> u64 \<Rightarrow> pt_heap \<Rightarrow> (bool \<times> pt_heap) option" where
  "map_entry rec l vaddr rem paddr chunk attrs index tbl h =
     (if rem \<noteq> 0 \<or> paddr AND mask (pt_shift l) \<noteq> 0 \<or> chunk \<noteq> 2 ^ pt_shift l
         \<or> pt_shift l > MMU_PTE_DESCRIPTOR_BLOCK_MAX_SHIFT then do {
        (next, h) \<leftarrow> arm64_mmu_get_page_table index tbl h;
        (case next of
           None \<Rightarrow> Some (False, h)
         | Some t \<Rightarrow> do {
             (ret, h) \<leftarrow> rec vaddr rem paddr chunk t h;
             Some (ret = 0, h) }) }
      else do {
        pte \<leftarrow> read_pte tbl index h;
        if pte \<noteq> 0 then Some (False, h)
        else do {
          let pte = paddr OR attrs OR
            (if l > 0 then MMU_PTE_L012_DESCRIPTOR_BLOCK else MMU_PTE_L3_DESCRIPTOR_PAGE);
          h \<leftarrow> write_pte tbl index pte h;
          Some (True, h) } })"

text \<open>The loop ends with the size that is left, 0 when all is mapped.\<close>

function map_loop :: "(u64 \<Rightarrow> nat \<Rightarrow> u64 \<Rightarrow> nat \<Rightarrow> u64 \<Rightarrow> pt_heap \<Rightarrow> (int \<times> pt_heap) option) \<Rightarrow> nat \<Rightarrow> u64 \<Rightarrow> nat \<Rightarrow> u64 \<Rightarrow> nat
    \<Rightarrow> u64 \<Rightarrow> u64 \<Rightarrow> pt_heap \<Rightarrow> (nat \<times> pt_heap) option" where
  "map_loop rec l vaddr vaddr_rel paddr sz attrs tbl h =
     (if sz = 0 then Some (0, h)
      else
        let chunk = chunk_of l vaddr_rel sz in do {
          (ok, h) \<leftarrow> map_entry rec l vaddr (vaddr_rel mod 2 ^ pt_shift l) paddr chunk attrs
                      (vaddr_rel div 2 ^ pt_shift l) tbl h;
          if \<not> ok then Some (sz, h)
          else map_loop rec l (vaddr + of_nat chunk) (vaddr_rel + chunk) (paddr + of_nat chunk) (sz - chunk) attrs tbl h })"
  by pat_completeness auto
termination
  by (relation "measure (\<lambda>(rec, l, vaddr, vaddr_rel, paddr, sz, attrs, tbl, h). sz)") (auto simp: chunk_of_def)

declare map_loop.simps [simp del]

definition map_pt_body :: "(u64 \<Rightarrow> nat \<Rightarrow> u64 \<Rightarrow> nat \<Rightarrow> u64 \<Rightarrow> pt_heap \<Rightarrow> (int \<times> pt_heap) option) \<Rightarrow> nat \<Rightarrow> u32 \<Rightarrow> u64 \<Rightarrow> u64 \<Rightarrow> nat
    \<Rightarrow> u64 \<Rightarrow> nat \<Rightarrow> u64 \<Rightarrow> pt_heap \<Rightarrow> (int \<times> pt_heap) option" where
  "map_pt_body rec l asid attrs vaddr vaddr_rel paddr sz tbl h =
     (if vaddr_rel mod 2 ^ 12 \<noteq> 0 \<or> paddr AND mask 12 \<noteq> 0 \<or> sz mod 2 ^ 12 \<noteq> 0 then Some (ERR_INVALID_ARGS, h)
      else do {
        (left, h) \<leftarrow> map_loop rec l vaddr vaddr_rel paddr sz attrs tbl h;
        if left = 0 then Some (0, h)
        else do {
          h \<leftarrow> arm64_mmu_unmap_pt l asid vaddr vaddr_rel (sz - left) tbl h;
          Some (ERR_GENERIC, h) } })"

fun arm64_mmu_map_pt :: "nat \<Rightarrow> u32 \<Rightarrow> u64 \<Rightarrow> u64 \<Rightarrow> nat \<Rightarrow> u64 \<Rightarrow> nat \<Rightarrow> u64 \<Rightarrow> pt_heap \<Rightarrow> (int \<times> pt_heap) option" where
  "arm64_mmu_map_pt 0 asid attrs vaddr vaddr_rel paddr sz tbl h =
     map_pt_body (\<lambda>_ _ _ _ _ _. None) 0 asid attrs vaddr vaddr_rel paddr sz tbl h"
| "arm64_mmu_map_pt (Suc l) asid attrs vaddr vaddr_rel paddr sz tbl h =
     map_pt_body (arm64_mmu_map_pt l asid attrs) (Suc l) asid attrs vaddr vaddr_rel paddr sz tbl h"

text \<open>The top table may be NULL.\<close>

definition arm64_mmu_map :: "u64 \<Rightarrow> u64 \<Rightarrow> u64 \<Rightarrow> u64 \<Rightarrow> u64 \<Rightarrow> nat \<Rightarrow> nat \<Rightarrow> u64 option \<Rightarrow> u32 \<Rightarrow> pt_heap
    \<Rightarrow> (int \<times> pt_heap) option" where
  "arm64_mmu_map vaddr paddr sz attrs vaddr_base top_size_shift top_level top_page_table asid h =
     (let vaddr_rel = vaddr - vaddr_base; vaddr_rel_max = push_bit top_size_shift 1 in
      if vaddr_rel > vaddr_rel_max - sz \<or> sz > vaddr_rel_max then Some (ERR_INVALID_ARGS, h)
      else case top_page_table of
        None \<Rightarrow> Some (ERR_INVALID_ARGS, h)
      | Some tbl \<Rightarrow> arm64_mmu_map_pt top_level asid attrs vaddr (unat vaddr_rel) paddr (unat sz) tbl h)"

definition arm64_mmu_unmap :: "u64 \<Rightarrow> u64 \<Rightarrow> u64 \<Rightarrow> nat \<Rightarrow> nat \<Rightarrow> u64 option \<Rightarrow> u32 \<Rightarrow> pt_heap \<Rightarrow> (int \<times> pt_heap) option" where
  "arm64_mmu_unmap vaddr sz vaddr_base top_size_shift top_level top_page_table asid h =
     (let vaddr_rel = vaddr - vaddr_base; vaddr_rel_max = push_bit top_size_shift 1 in
      if vaddr_rel > vaddr_rel_max - sz \<or> sz > vaddr_rel_max then Some (ERR_INVALID_ARGS, h)
      else case top_page_table of
        None \<Rightarrow> Some (ERR_INVALID_ARGS, h)
      | Some tbl \<Rightarrow> do {
          h \<leftarrow> arm64_mmu_unmap_pt top_level asid vaddr (unat vaddr_rel) (unat sz) tbl h;
          Some (0, h) })"

section \<open>Attributes\<close>

definition ARCH_MMU_FLAG_CACHED :: u32 where "ARCH_MMU_FLAG_CACHED = 0"
definition ARCH_MMU_FLAG_UNCACHED :: u32 where "ARCH_MMU_FLAG_UNCACHED = 1"
definition ARCH_MMU_FLAG_UNCACHED_DEVICE :: u32 where "ARCH_MMU_FLAG_UNCACHED_DEVICE = 2"
definition ARCH_MMU_FLAG_CACHE_MASK :: u32 where "ARCH_MMU_FLAG_CACHE_MASK = 3"
definition ARCH_MMU_FLAG_PERM_USER :: u32 where "ARCH_MMU_FLAG_PERM_USER = 4"
definition ARCH_MMU_FLAG_PERM_RO :: u32 where "ARCH_MMU_FLAG_PERM_RO = 8"
definition ARCH_MMU_FLAG_PERM_NO_EXECUTE :: u32 where "ARCH_MMU_FLAG_PERM_NO_EXECUTE = 16"
definition ARCH_MMU_FLAG_NS :: u32 where "ARCH_MMU_FLAG_NS = 32"

definition MMU_PTE_ATTR_UXN :: u64 where "MMU_PTE_ATTR_UXN = push_bit 54 1"
definition MMU_PTE_ATTR_PXN :: u64 where "MMU_PTE_ATTR_PXN = push_bit 53 1"
definition MMU_PTE_ATTR_NON_GLOBAL :: u64 where "MMU_PTE_ATTR_NON_GLOBAL = push_bit 11 1"
definition MMU_PTE_ATTR_AF :: u64 where "MMU_PTE_ATTR_AF = push_bit 10 1"
definition MMU_PTE_ATTR_SH_INNER_SHAREABLE :: u64 where "MMU_PTE_ATTR_SH_INNER_SHAREABLE = push_bit 8 3"
definition MMU_PTE_ATTR_AP_P_RW_U_NA :: u64 where "MMU_PTE_ATTR_AP_P_RW_U_NA = 0"
definition MMU_PTE_ATTR_AP_P_RW_U_RW :: u64 where "MMU_PTE_ATTR_AP_P_RW_U_RW = push_bit 6 1"
definition MMU_PTE_ATTR_AP_P_RO_U_NA :: u64 where "MMU_PTE_ATTR_AP_P_RO_U_NA = push_bit 6 2"
definition MMU_PTE_ATTR_AP_P_RO_U_RO :: u64 where "MMU_PTE_ATTR_AP_P_RO_U_RO = push_bit 6 3"
definition MMU_PTE_ATTR_AP_MASK :: u64 where "MMU_PTE_ATTR_AP_MASK = push_bit 6 3"
definition MMU_PTE_ATTR_NON_SECURE :: u64 where "MMU_PTE_ATTR_NON_SECURE = push_bit 5 1"
definition MMU_PTE_ATTR_ATTR_INDEX_MASK :: u64 where "MMU_PTE_ATTR_ATTR_INDEX_MASK = push_bit 2 7"
definition MMU_PTE_ATTR_STRONGLY_ORDERED :: u64 where "MMU_PTE_ATTR_STRONGLY_ORDERED = push_bit 2 0"
definition MMU_PTE_ATTR_DEVICE :: u64 where "MMU_PTE_ATTR_DEVICE = push_bit 2 1"
definition MMU_PTE_ATTR_NORMAL_MEMORY :: u64 where "MMU_PTE_ATTR_NORMAL_MEMORY = push_bit 2 2"

text \<open>An error code comes back as an attribute word.\<close>

definition mmu_flags_to_pte_attr :: "u32 \<Rightarrow> u64" where
  "mmu_flags_to_pte_attr flags =
     (let cache = flags AND ARCH_MMU_FLAG_CACHE_MASK;
          perm = flags AND (ARCH_MMU_FLAG_PERM_USER OR ARCH_MMU_FLAG_PERM_RO) in
      if cache \<noteq> ARCH_MMU_FLAG_CACHED \<and> cache \<noteq> ARCH_MMU_FLAG_UNCACHED \<and> cache \<noteq> ARCH_MMU_FLAG_UNCACHED_DEVICE
      then word_of_int ERR_INVALID_ARGS
      else
        let attr = MMU_PTE_ATTR_AF OR
              (if cache = ARCH_MMU_FLAG_CACHED then MMU_PTE_ATTR_NORMAL_MEMORY OR MMU_PTE_ATTR_SH_INNER_SHAREABLE
               else if cache = ARCH_MMU_FLAG_UNCACHED then MMU_PTE_ATTR_STRONGLY_ORDERED
               else MMU_PTE_ATTR_DEVICE);
            attr = attr OR
              (if perm = 0 then MMU_PTE_ATTR_AP_P_RW_U_NA
               else if perm = ARCH_MMU_FLAG_PERM_RO then MMU_PTE_ATTR_AP_P_RO_U_NA
               else if perm = ARCH_MMU_FLAG_PERM_USER then MMU_PTE_ATTR_AP_P_RW_U_RW
               else MMU_PTE_ATTR_AP_P_RO_U_RO);
            attr = (if flags AND ARCH_MMU_FLAG_PERM_NO_EXECUTE \<noteq> 0
                    then attr OR (MMU_PTE_ATTR_UXN OR MMU_PTE_ATTR_PXN) else attr) in
        if flags AND ARCH_MMU_FLAG_NS \<noteq> 0 then attr OR MMU_PTE_ATTR_NON_SECURE else attr)"

text \<open>The flags that \<^verbatim>\<open>arch_mmu_query\<close> reads off an entry.\<close>

definition pte_to_mmu_flags :: "u64 \<Rightarrow> u32 option" where
  "pte_to_mmu_flags pte =
     (let flags = (if pte AND MMU_PTE_ATTR_NON_SECURE \<noteq> 0 then ARCH_MMU_FLAG_NS else 0);
          index = pte AND MMU_PTE_ATTR_ATTR_INDEX_MASK; ap = pte AND MMU_PTE_ATTR_AP_MASK in do {
      flags \<leftarrow> (if index = MMU_PTE_ATTR_STRONGLY_ORDERED then Some (flags OR ARCH_MMU_FLAG_UNCACHED)
                else if index = MMU_PTE_ATTR_DEVICE then Some (flags OR ARCH_MMU_FLAG_UNCACHED_DEVICE)
                else if index = MMU_PTE_ATTR_NORMAL_MEMORY then Some flags
                else None);
      let flags = (if ap = MMU_PTE_ATTR_AP_P_RW_U_RW then flags OR ARCH_MMU_FLAG_PERM_USER
                   else if ap = MMU_PTE_ATTR_AP_P_RO_U_NA then flags OR ARCH_MMU_FLAG_PERM_RO
                   else if ap = MMU_PTE_ATTR_AP_P_RO_U_RO then flags OR (ARCH_MMU_FLAG_PERM_USER OR ARCH_MMU_FLAG_PERM_RO)
                   else flags);
      Some (if pte AND MMU_PTE_ATTR_UXN \<noteq> 0 \<and> pte AND MMU_PTE_ATTR_PXN \<noteq> 0
            then flags OR ARCH_MMU_FLAG_PERM_NO_EXECUTE else flags) })"

section \<open>The kernel's address space\<close>

text \<open>
  The build has \<open>KERNEL_ASPACE_BASE = 0xffffffffe0000000\<close>, so the kernel's address space has 29 bits and its top
  table, at level 1, 256 entries.  \<open>kt\<close> is the address of \<^verbatim>\<open>arm64_kernel_translation_table\<close>.
\<close>

definition MMU_KERNEL_SIZE_SHIFT :: nat where "MMU_KERNEL_SIZE_SHIFT = 29"
definition MMU_KERNEL_TOP_LEVEL :: nat where "MMU_KERNEL_TOP_LEVEL = 1"
definition MMU_KERNEL_PAGE_TABLE_ENTRIES_TOP :: nat where
  "MMU_KERNEL_PAGE_TABLE_ENTRIES_TOP = 2 ^ (MMU_KERNEL_SIZE_SHIFT - pt_shift MMU_KERNEL_TOP_LEVEL)"

definition kernel_base :: u64 where
  "kernel_base = push_bit MMU_KERNEL_SIZE_SHIFT (NOT 0)"

text \<open>The loop of \<^verbatim>\<open>arch_mmu_query\<close>: the entry found, with the rest of the address.\<close>

fun query_loop :: "nat \<Rightarrow> u64 \<Rightarrow> u64 \<Rightarrow> pt_heap \<Rightarrow> (int \<times> (u64 \<times> u64) option) option" where
  "query_loop l page_table vaddr_rem h = do {
     let index = (ucast (drop_bit (pt_shift l) vaddr_rem) :: u32);
     let vaddr_rem = vaddr_rem - push_bit (pt_shift l) (ucast index);
     pte \<leftarrow> read_pte page_table (unat index) h;
     let descriptor_type = pte AND MMU_PTE_DESCRIPTOR_MASK;
     if descriptor_type = MMU_PTE_DESCRIPTOR_INVALID then Some (ERR_NOT_FOUND, None)
     else if descriptor_type = (if l > 0 then MMU_PTE_L012_DESCRIPTOR_BLOCK else MMU_PTE_L3_DESCRIPTOR_PAGE)
     then Some (0, Some (pte, vaddr_rem))
     else (case l of
         0 \<Rightarrow> None
       | Suc k \<Rightarrow> if descriptor_type \<noteq> MMU_PTE_L012_DESCRIPTOR_TABLE then None
                  else query_loop k (pte AND MMU_PTE_OUTPUT_ADDR_MASK) vaddr_rem h) }"

declare query_loop.simps [simp del]

text \<open>Both output pointers are given; the result has the address and the flags written.\<close>

definition arch_mmu_query :: "u64 \<Rightarrow> u64 \<Rightarrow> pt_heap \<Rightarrow> (int \<times> (u64 \<times> u32) option) option" where
  "arch_mmu_query kt vaddr h =
     (if vaddr < kernel_base then Some (ERR_INVALID_ARGS, None)
      else do {
        let vaddr_rem = vaddr - kernel_base;
        _ \<leftarrow> ASSERT (unat (ucast (drop_bit (pt_shift MMU_KERNEL_TOP_LEVEL) vaddr_rem) :: u32)
               < MMU_KERNEL_PAGE_TABLE_ENTRIES_TOP);
        (ret, found) \<leftarrow> query_loop MMU_KERNEL_TOP_LEVEL kt vaddr_rem h;
        (case found of
           None \<Rightarrow> Some (ret, None)
         | Some (pte, vaddr_rem) \<Rightarrow> do {
             flags \<leftarrow> pte_to_mmu_flags pte;
             Some (ret, Some ((pte AND MMU_PTE_OUTPUT_ADDR_MASK) + vaddr_rem, flags)) }) })"

definition arch_mmu_map :: "u64 \<Rightarrow> u64 \<Rightarrow> u64 \<Rightarrow> u32 \<Rightarrow> u32 \<Rightarrow> pt_heap \<Rightarrow> (int \<times> pt_heap) option" where
  "arch_mmu_map kt vaddr paddr count flags h =
     arm64_mmu_map vaddr paddr (ucast count * 0x1000) (mmu_flags_to_pte_attr flags) kernel_base
       MMU_KERNEL_SIZE_SHIFT MMU_KERNEL_TOP_LEVEL (Some kt) MMU_ARM64_GLOBAL_ASID h"

definition arch_mmu_unmap :: "u64 \<Rightarrow> u64 \<Rightarrow> u32 \<Rightarrow> pt_heap \<Rightarrow> (int \<times> pt_heap) option" where
  "arch_mmu_unmap kt vaddr count h =
     arm64_mmu_unmap vaddr (ucast count * 0x1000) kernel_base
       MMU_KERNEL_SIZE_SHIFT MMU_KERNEL_TOP_LEVEL (Some kt) MMU_ARM64_GLOBAL_ASID h"

end
