(* ===== verification/NsPte.thy ===== *)
theory NsPte
  imports Prelude
begin

text \<open>
  The normal world describes a page by the bits of a page-table entry.  The macros that take it apart stand
  in \<^verbatim>\<open>lib/sm/ns_mem.c\<close> and once more, with the same bodies, in \<^verbatim>\<open>uthread/arch/arm64\<close>'s \<^verbatim>\<open>uthread_mmu.h\<close>.
\<close>

definition NS_PTE_PHYSADDR :: "u64 \<Rightarrow> u64" where
  "NS_PTE_PHYSADDR pte = pte AND 0xFFFFFFFFF000"

definition NS_PTE_AP :: "u64 \<Rightarrow> u64" where
  "NS_PTE_AP pte = drop_bit 6 pte AND 3"

definition NS_PTE_AP_U_RW :: "u64 \<Rightarrow> bool" where
  "NS_PTE_AP_U_RW pte \<longleftrightarrow> NS_PTE_AP pte = 1"

definition NS_PTE_AP_U :: "u64 \<Rightarrow> bool" where
  "NS_PTE_AP_U pte \<longleftrightarrow> NS_PTE_AP pte AND 1 \<noteq> 0"

definition NS_PTE_AP_RO :: "u64 \<Rightarrow> bool" where
  "NS_PTE_AP_RO pte \<longleftrightarrow> NS_PTE_AP pte AND 2 \<noteq> 0"

definition NS_PTE_ATTR_SHAREABLE :: "u64 \<Rightarrow> u32" where
  "NS_PTE_ATTR_SHAREABLE pte = ucast (drop_bit 8 pte AND 3)"

definition NS_PTE_ATTR_MAIR :: "u64 \<Rightarrow> u32" where
  "NS_PTE_ATTR_MAIR pte = ucast (drop_bit 48 pte AND 0xFF)"

definition NS_PTE_ATTR_INNER :: "u64 \<Rightarrow> u32" where
  "NS_PTE_ATTR_INNER pte = NS_PTE_ATTR_MAIR pte AND 0xF"

definition NS_PTE_ATTR_OUTER :: "u64 \<Rightarrow> u32" where
  "NS_PTE_ATTR_OUTER pte = drop_bit 4 (NS_PTE_ATTR_MAIR pte AND 0xF0)"

end
