(* ===== verification/TosCalls.thy ===== *)
theory TosCalls
  imports VirtioBus QlProperties PageTable NsPte
begin

text \<open>
  The calls of the normal world to the Trusted OS, from the registers of the call to the virtio bus and to
  the queueless bridge: \<^verbatim>\<open>lib/trusty/smcall.c\<close>, with the decoding of a shared buffer from the bits of a
  page-table entry in \<^verbatim>\<open>lib/sm/ns_mem.c\<close>.  The last part shows which mappings the normal world can
  cause.
\<close>

section \<open>Describing a buffer of the normal world\<close>

definition NS_MAIR_NORMAL_CACHED_WB_RWA :: u32 where "NS_MAIR_NORMAL_CACHED_WB_RWA = 0xFF"
definition NS_MAIR_NORMAL_UNCACHED :: u32 where "NS_MAIR_NORMAL_UNCACHED = 0x44"
definition NS_INNER_SHAREABLE :: u32 where "NS_INNER_SHAREABLE = 3"

text \<open>The result is the code with the address and the flags written; the build has \<^verbatim>\<open>WITH_SMP\<close>.\<close>

definition sm_decode_ns_memory_attr :: "u64 \<Rightarrow> int \<times> u64 \<times> u32 option" where
  "sm_decode_ns_memory_attr attr =
     (let pa = NS_PTE_PHYSADDR attr; mair = NS_PTE_ATTR_MAIR attr in
      if mair \<noteq> NS_MAIR_NORMAL_CACHED_WB_RWA \<and> mair \<noteq> NS_MAIR_NORMAL_UNCACHED then (ERR_NOT_SUPPORTED, pa, None)
      else
        let mmu_flags = (if mair = NS_MAIR_NORMAL_CACHED_WB_RWA then ARCH_MMU_FLAG_CACHED else ARCH_MMU_FLAG_UNCACHED) in
        if mmu_flags = ARCH_MMU_FLAG_CACHED \<and> NS_PTE_ATTR_SHAREABLE attr \<noteq> NS_INNER_SHAREABLE
        then (ERR_NOT_SUPPORTED, pa, None)
        else
          let mmu_flags = (if NS_PTE_AP_U attr then mmu_flags OR ARCH_MMU_FLAG_PERM_USER else mmu_flags);
              mmu_flags = (if NS_PTE_AP_RO attr then mmu_flags OR ARCH_MMU_FLAG_PERM_RO else mmu_flags) in
          (NO_ERROR, pa, Some (mmu_flags OR ARCH_MMU_FLAG_NS OR ARCH_MMU_FLAG_PERM_NO_EXECUTE)))"

text \<open>\<^term>\<open>None\<close> in the second component: the outputs are not used after an error.\<close>

definition smc32_decode_mem_buf_info :: "smc32_args \<Rightarrow> int \<times> (u64 \<times> u32 \<times> u32) option" where
  "smc32_decode_mem_buf_info args =
     (let attr = push_bit 32 (ucast (smc_params args ! 1)) OR ucast (smc_params args ! 0) in
      case sm_decode_ns_memory_attr attr of
        (res, pa, Some flags) \<Rightarrow> if res \<noteq> NO_ERROR then (res, None) else (NO_ERROR, Some (pa, smc_params args ! 2, flags))
      | (res, pa, None) \<Rightarrow> (res, None))"

definition get_ns_mem_buf :: "smc32_args \<Rightarrow> int \<times> (u64 \<times> u32 \<times> u32) option" where
  "get_ns_mem_buf args =
     (case smc32_decode_mem_buf_info args of
        (rc, None) \<Rightarrow> (rc, None)
      | (rc, Some (pa, sz, flags)) \<Rightarrow>
          if rc \<noteq> NO_ERROR then (rc, None)
          else
            let mem_type = flags AND ARCH_MMU_FLAG_CACHE_MASK in
            if mem_type \<noteq> ARCH_MMU_FLAG_CACHED \<and> mem_type \<noteq> ARCH_MMU_FLAG_UNCACHED then (ERR_INVALID_ARGS, None)
            else if flags AND ARCH_MMU_FLAG_PERM_RO \<noteq> 0 \<or> flags AND ARCH_MMU_FLAG_PERM_USER \<noteq> 0
            then (ERR_INVALID_ARGS, None)
            else (NO_ERROR, Some (pa, sz, flags)))"

section \<open>The handlers\<close>

text \<open>The weak defaults, which nothing in the repository replaces.\<close>

definition lock_bl_data_interface :: int where
  "lock_bl_data_interface = NO_ERROR"

definition handle_bl_data_interface :: "u32 \<Rightarrow> u32 \<Rightarrow> u32 \<Rightarrow> int" where
  "handle_bl_data_interface data_type addr sz = NO_ERROR"

definition set_root_of_trust_params :: "u32 \<Rightarrow> u32 \<Rightarrow> int" where
  "set_root_of_trust_params addr sz = NO_ERROR"

definition smc_hv_init :: "smc32_args \<Rightarrow> int" where
  "smc_hv_init args = to_smc_error NO_ERROR"

definition SMC_SC_VIRTIO_GET_DESCR :: u32 where "SMC_SC_VIRTIO_GET_DESCR = SMC_STDCALL_NR 50 20"
definition SMC_SC_VIRTIO_START :: u32 where "SMC_SC_VIRTIO_START = SMC_STDCALL_NR 50 21"
definition SMC_SC_VIRTIO_STOP :: u32 where "SMC_SC_VIRTIO_STOP = SMC_STDCALL_NR 50 22"
definition SMC_NC_VDEV_KICK_VQ :: u32 where "SMC_NC_VDEV_KICK_VQ = SMC_STDCALL_NR 50 25"
definition SMC_NC_SIM_HANDLE_IRQ :: u32 where "SMC_NC_SIM_HANDLE_IRQ = SMC_STDCALL_NR 50 26"
definition SMC_SC_CREATE_QL_TIPC_DEV :: u32 where "SMC_SC_CREATE_QL_TIPC_DEV = SMC_STDCALL_NR 50 30"
definition SMC_SC_SHUTDOWN_QL_TIPC_DEV :: u32 where "SMC_SC_SHUTDOWN_QL_TIPC_DEV = SMC_STDCALL_NR 50 31"
definition SMC_SC_HANDLE_QL_TIPC_DEV_CMD :: u32 where "SMC_SC_HANDLE_QL_TIPC_DEV_CMD = SMC_STDCALL_NR 50 32"
definition SMC_SC_BL_LOCK_TOS_DATA :: u32 where "SMC_SC_BL_LOCK_TOS_DATA = SMC_STDCALL_NR 50 65533"
definition SMC_SC_BL_SEND_TOS_DATA :: u32 where "SMC_SC_BL_SEND_TOS_DATA = SMC_STDCALL_NR 50 65534"
definition SMC_SC_SET_ROOT_OF_TRUST :: u32 where "SMC_SC_SET_ROOT_OF_TRUST = SMC_STDCALL_NR 50 65535"

text \<open>
  What a call finds around it: the answers of the hypervisor's address check, of the mapping and of
  \<^verbatim>\<open>malloc\<close> for the virtio descriptor, the descriptor and the shared buffer in the normal world's memory,
  the other threads during a wait with the event on the stack, and the simulated interrupt of the
  interrupt controller.
\<close>

record tos_env =
  te_pa_ok :: int
  te_map_ok :: int
  te_mem_ok :: bool
  te_descr :: "byte list"
  te_ns :: "nat \<Rightarrow> byte"
  te_wait :: wait_env
  te_ev :: nat
  te_sim_irq :: "u32 \<Rightarrow> int"

text \<open>\<open>ts_descr_out\<close> is the descriptor last written to the normal world.\<close>

record 'd tos =
  ts_bus :: "'d vbus_ctx"
  ts_ql :: ql_ctx
  ts_kern :: kern
  ts_descr_out :: "byte list"

definition with_ns_buf :: "smc32_args \<Rightarrow> (u64 \<Rightarrow> u32 \<Rightarrow> u32 \<Rightarrow> 'd tos \<Rightarrow> (int option \<times> 'd tos) option)
    \<Rightarrow> 'd tos \<Rightarrow> (int option \<times> 'd tos) option" where
  "with_ns_buf args f s =
     (case get_ns_mem_buf args of
        (res, Some (pa, sz, flags)) \<Rightarrow> f pa sz flags s
      | (res, None) \<Rightarrow> Some (Some res, s))"

definition on_bus :: "('d vbus_ctx \<Rightarrow> (int \<times> 'd vbus_ctx) option) \<Rightarrow> 'd tos \<Rightarrow> (int option \<times> 'd tos) option" where
  "on_bus f s = do { (res, c) \<leftarrow> f (ts_bus s); Some (Some res, s\<lparr>ts_bus := c\<rparr>) }"

text \<open>The switch of \<^verbatim>\<open>trusty_sm_stdcall\<close>; a result \<^term>\<open>None\<close> is a call that still waits.\<close>

definition stdcall_switch :: "'d vdev_ops \<Rightarrow> tos_env \<Rightarrow> smc32_args \<Rightarrow> 'd tos \<Rightarrow> (int option \<times> 'd tos) option" where
  "stdcall_switch ops e args s =
     (let nr = smc_nr args; prm = (\<lambda>i. smc_params args ! i); guest = unat (prm SMC_ARGS_GUESTID) in
      if nr = SMC_SC_VIRTIO_GET_DESCR then
        with_ns_buf args (\<lambda>pa sz flags s. do {
          (res, descr, c) \<leftarrow> virtio_get_description ops (te_pa_ok e) (te_map_ok e) pa (unat sz) guest (ts_bus s);
          Some (Some res, s\<lparr>ts_bus := c, ts_descr_out := descr\<rparr>) }) s
      else if nr = SMC_SC_VIRTIO_START then
        with_ns_buf args (\<lambda>pa sz flags. on_bus
          (virtio_start ops (te_mem_ok e) (te_pa_ok e) (te_map_ok e) (te_descr e) pa (unat sz) guest)) s
      else if nr = SMC_SC_VIRTIO_STOP then with_ns_buf args (\<lambda>pa sz flags. on_bus (virtio_stop ops guest)) s
      else if nr = SMC_SC_VDEV_RESET then on_bus (virtio_device_reset ops (prm 0) guest) s
      else if nr = SMC_SC_VDEV_KICK_VQ then on_bus (virtio_kick_vq ops (prm 0) (prm 1) guest) s
      else if nr = SMC_SC_BL_LOCK_TOS_DATA then Some (Some lock_bl_data_interface, s)
      else if nr = SMC_SC_BL_SEND_TOS_DATA then Some (Some (handle_bl_data_interface (prm 0) (prm 1) (prm 2)), s)
      else if nr = SMC_SC_SET_ROOT_OF_TRUST then Some (Some (set_root_of_trust_params (prm 0) (prm 1)), s)
      else if nr = SMC_SC_CREATE_QL_TIPC_DEV then
        with_ns_buf args (\<lambda>pa sz flags s.
          (case ql_tipc_create_device pa sz flags (ts_ql s) (ts_kern s) of
             (res, c, k) \<Rightarrow> Some (Some res, s\<lparr>ts_ql := c, ts_kern := k\<rparr>))) s
      else if nr = SMC_SC_SHUTDOWN_QL_TIPC_DEV then
        with_ns_buf args (\<lambda>pa sz flags s. do {
          (res, c, k) \<leftarrow> ql_tipc_shutdown_device pa (ts_ql s) (ts_kern s);
          Some (Some res, s\<lparr>ts_ql := c, ts_kern := k\<rparr>) }) s
      else if nr = SMC_SC_HANDLE_QL_TIPC_DEV_CMD then
        with_ns_buf args (\<lambda>pa sz flags s. do {
          (res, c, k) \<leftarrow> ql_tipc_handle_cmd pa sz (te_ns e) (te_wait e) (te_ev e) (ts_ql s) (ts_kern s);
          Some (res, s\<lparr>ts_ql := c, ts_kern := k\<rparr>) }) s
      else Some (Some ERR_NOT_SUPPORTED, s))"

definition trusty_sm_stdcall :: "'d vdev_ops \<Rightarrow> tos_env \<Rightarrow> smc32_args \<Rightarrow> 'd tos \<Rightarrow> (int option \<times> 'd tos) option" where
  "trusty_sm_stdcall ops e args s =
     (if \<not> guest_ok (smc_params args ! SMC_ARGS_GUESTID) then Some (Some SM_ERR_INVALID_PARAMETERS, s)
      else do {
        (res, s) \<leftarrow> stdcall_switch ops e args s;
        Some (map_option to_smc_error res, s) })"

definition trusty_sm_nopcall :: "'d vdev_ops \<Rightarrow> tos_env \<Rightarrow> smc32_args \<Rightarrow> 'd tos \<Rightarrow> (int option \<times> 'd tos) option" where
  "trusty_sm_nopcall ops e args s =
     (let prm = (\<lambda>i. smc_params args ! i); guest = prm SMC_ARGS_GUESTID in
      if \<not> guest_ok guest then Some (Some SM_ERR_INVALID_PARAMETERS, s)
      else do {
        (res, s) \<leftarrow>
          (if prm 0 = SMC_NC_VDEV_KICK_VQ then on_bus (virtio_kick_vq ops (prm 1) (prm 2) (unat guest)) s
           else if prm 0 = SMC_NC_SIM_HANDLE_IRQ then Some (Some (te_sim_irq e (prm 1)), s)
           else Some (Some ERR_NOT_SUPPORTED, s));
        Some (map_option to_smc_error res, s) })"

lemma tos_nr_distinct:
  "distinct [SMC_SC_VIRTIO_GET_DESCR, SMC_SC_VIRTIO_START, SMC_SC_VIRTIO_STOP, SMC_SC_VDEV_RESET, SMC_SC_VDEV_KICK_VQ,
     SMC_SC_BL_LOCK_TOS_DATA, SMC_SC_BL_SEND_TOS_DATA, SMC_SC_SET_ROOT_OF_TRUST, SMC_SC_CREATE_QL_TIPC_DEV,
     SMC_SC_SHUTDOWN_QL_TIPC_DEV, SMC_SC_HANDLE_QL_TIPC_DEV_CMD]"
  by code_simp

section \<open>What the normal world can map\<close>

lemma get_ns_mem_buf_ok:
  assumes "get_ns_mem_buf args = (r, Some (pa, sz, flags))"
  shows "flags \<in> {ARCH_MMU_FLAG_NS OR ARCH_MMU_FLAG_PERM_NO_EXECUTE OR ARCH_MMU_FLAG_CACHED,
      ARCH_MMU_FLAG_NS OR ARCH_MMU_FLAG_PERM_NO_EXECUTE OR ARCH_MMU_FLAG_UNCACHED}"
    and "pa AND 0xFFFFFFFFF000 = pa" "sz = smc_params args ! 2" "r = NO_ERROR"
  using assms
  by (auto simp: get_ns_mem_buf_def smc32_decode_mem_buf_info_def sm_decode_ns_memory_attr_def Let_def NS_PTE_PHYSADDR_def
      ARCH_MMU_FLAG_NS_def ARCH_MMU_FLAG_PERM_NO_EXECUTE_def ARCH_MMU_FLAG_CACHED_def ARCH_MMU_FLAG_UNCACHED_def
      ARCH_MMU_FLAG_PERM_USER_def ARCH_MMU_FLAG_PERM_RO_def ARCH_MMU_FLAG_CACHE_MASK_def and.assoc
      split: prod.splits option.splits if_splits)

text \<open>A device whose buffer is mapped for the kernel only, readable and writable, not secure and not
  executable.\<close>

definition dev_ns :: "ql_tipc_dev \<Rightarrow> bool" where
  "dev_ns d \<longleftrightarrow> qd_ns_mmu_flags d \<in> {ARCH_MMU_FLAG_NS OR ARCH_MMU_FLAG_PERM_NO_EXECUTE OR ARCH_MMU_FLAG_CACHED,
      ARCH_MMU_FLAG_NS OR ARCH_MMU_FLAG_PERM_NO_EXECUTE OR ARCH_MMU_FLAG_UNCACHED} \<and>
    qd_ns_pa d AND 0xFFFFFFFFF000 = qd_ns_pa d"

definition ql_ns :: "ql_ctx \<Rightarrow> bool" where
  "ql_ns c \<longleftrightarrow> ql_ctx_ok c \<and> (\<forall>d\<in>set (qc_dev_list c). dev_ns d)"

lemma create_ns:
  assumes c: "ql_ns c" and b: "get_ns_mem_buf args = (x, Some (pa, sz, flags))"
    and r: "ql_tipc_create_device pa sz flags c k = (r, c', k')"
  shows "ql_ns c'"
proof -
  have "dev_ns (new_ql_dev a pa sz flags)" for a
    using get_ns_mem_buf_ok [OF b] by (simp add: dev_ns_def new_ql_dev_def)
  moreover have "ql_ctx_ok c'" using dev_create_ok [of c] c r by (simp add: ql_ns_def ql_tipc_create_device_def)
  ultimately show ?thesis
    using c dev_create_devs [OF r [unfolded ql_tipc_create_device_def]] by (auto simp: ql_ns_def)
qed

lemma shutdown_ns:
  assumes c: "ql_ns c" and r: "ql_tipc_shutdown_device pa c k = Some (r, c', k')"
  shows "ql_ns c'"
proof -
  have "ql_ctx_ok c'" "set (qc_dev_list c') \<subseteq> set (qc_dev_list c)"
    using c r dev_shutdown_ok [of c] set_take_subset set_drop_subset
    by (auto simp: ql_ns_def ql_tipc_shutdown_device_def dev_shutdown_def bind_Some_iff Let_def
        split: option.splits dest: in_set_takeD in_set_dropD)
  then show ?thesis using c by (auto simp: ql_ns_def)
qed

lemma command_ns:
  assumes c: "ql_ns c" and r: "ql_tipc_handle_cmd pa sz ns env ev c k = Some (r, c', k')"
  shows "ql_ns c'"
proof (cases "c' = c")
  case True
  with c show ?thesis by simp
next
  case False
  then obtain i dev h where i: "dev_lookup pa c = Some i"
      and dev: "dev_handle_cmd (qc_dev_list c ! i) h ns env ev k = Some (r, dev, k')"
      and c': "c' = c\<lparr>qc_dev_list := (qc_dev_list c)[i := dev]\<rparr>"
    using r by (auto simp: ql_tipc_handle_cmd_def bind_Some_iff Let_def split: option.splits if_splits)
  have lt: "i < length (qc_dev_list c)" using i by (auto simp: dev_lookup_def dest: dev_find_Some)
  then have "dev_ok (qc_dev_list c ! i)" "dev_ns (qc_dev_list c ! i)"
    using c by (simp_all add: ql_ns_def ql_ctx_ok_def)
  with dev_handle_cmd_keeps [OF this(1), of h ns env ev k] dev have "dev_ns dev"
    by (auto simp: keeps_def same_dev_def dev_ns_def)
  then show ?thesis
    using c ql_command_ok [OF _ r] set_update_subset_insert [of "qc_dev_list c" i dev]
    by (auto simp: ql_ns_def c')
qed

text \<open>The states that standard calls of the normal world reach, with any device on the bus.\<close>

inductive tos_reach :: "'d vdev_ops \<Rightarrow> 'd tos \<Rightarrow> bool" for ops where
  boot: "qc_dev_list (ts_ql s) = [] \<Longrightarrow> qc_dev_cnt (ts_ql s) = 0 \<Longrightarrow> tos_reach ops s"
| stdcall: "tos_reach ops s \<Longrightarrow> trusty_sm_stdcall ops e args s = Some (r, s') \<Longrightarrow> tos_reach ops s'"
| nopcall: "tos_reach ops s \<Longrightarrow> trusty_sm_nopcall ops e args s = Some (r, s') \<Longrightarrow> tos_reach ops s'"
| others: "tos_reach ops s \<Longrightarrow> tos_reach ops (s\<lparr>ts_kern := k\<rparr>)"

lemma with_ns_buf_cases:
  assumes "with_ns_buf args f s = Some (r, s')"
  obtains "s' = s" | pa sz flags x where "get_ns_mem_buf args = (x, Some (pa, sz, flags))" "f pa sz flags s = Some (r, s')"
  using assms by (auto simp: with_ns_buf_def split: prod.splits option.splits)

lemma on_bus_ql: "on_bus f s = Some (r, s') \<Longrightarrow> ts_ql s' = ts_ql s"
  by (auto simp: on_bus_def bind_Some_iff)

lemma stdcall_switch_ns:
  assumes c: "ql_ns (ts_ql s)" and r: "stdcall_switch ops e args s = Some (r, s')"
  shows "ql_ns (ts_ql s')"
  using r c unfolding stdcall_switch_def Let_def
  by (auto split: if_splits elim!: with_ns_buf_cases simp: bind_Some_iff on_bus_ql split: prod.splits)
     (erule (2) create_ns | erule (1) shutdown_ns | erule (1) command_ns)+

lemma tos_reach_ns: "tos_reach ops s \<Longrightarrow> ql_ns (ts_ql s)"
proof (induction rule: tos_reach.induct)
  case (boot s)
  then show ?case by (simp add: ql_ns_def ql_ctx_ok_def)
next
  case (stdcall s e args r s')
  then show ?case by (auto simp: trusty_sm_stdcall_def bind_Some_iff dest: stdcall_switch_ns split: if_splits)
next
  case (nopcall s e args r s')
  then show ?case by (auto simp: trusty_sm_nopcall_def bind_Some_iff Let_def on_bus_ql split: if_splits)
qed simp

section \<open>Properties\<close>

text \<open>Property C35.  Whatever the normal world passes in its calls, the buffers that the bridge maps are mapped as
  not secure, not executable, readable and writable by the kernel only, at page-aligned addresses of 48
  bits, and there are at most two of them.\<close>

theorem normal_world_buffers_nonsecure:
  assumes "tos_reach ops s"
  shows "length (qc_dev_list (ts_ql s)) \<le> 2 \<and> (\<forall>d\<in>set (qc_dev_list (ts_ql s)).
    qd_ns_mmu_flags d AND ARCH_MMU_FLAG_NS \<noteq> 0 \<and> qd_ns_mmu_flags d AND ARCH_MMU_FLAG_PERM_NO_EXECUTE \<noteq> 0 \<and>
    qd_ns_mmu_flags d AND (ARCH_MMU_FLAG_PERM_USER OR ARCH_MMU_FLAG_PERM_RO) = 0 \<and>
    qd_ns_pa d AND 0xFFFFFFFFF000 = qd_ns_pa d)"
  using tos_reach_ns [OF assms]
  by (auto simp: ql_ns_def dev_ns_def ql_ctx_ok_def QL_TIPC_DEV_MAX_NUM_def ARCH_MMU_FLAG_NS_def
      ARCH_MMU_FLAG_PERM_NO_EXECUTE_def ARCH_MMU_FLAG_CACHED_def ARCH_MMU_FLAG_UNCACHED_def ARCH_MMU_FLAG_PERM_USER_def
      ARCH_MMU_FLAG_PERM_RO_def)

text \<open>A call that describes the page at \<open>0x80000000\<close>, cached and inner shareable, with the access bits \<open>ap\<close>.\<close>

definition tos_demo_args :: "u32 \<Rightarrow> u32 \<Rightarrow> smc32_args" where
  "tos_demo_args nr ap = \<lparr>smc_nr = nr, smc_params = [0x80000000 OR 0x300 OR push_bit 6 ap, 0xFF0000, 0x1000, 0, 0, 0, 0]\<rparr>"

definition tos_demo_ops :: "unit vdev_ops" where
  "tos_demo_ops = \<lparr>vo_descr_sz = (\<lambda>_. 0), vo_get_descr = (\<lambda>_. []), vo_probe = (\<lambda>d _. (0, d)), vo_reset = (\<lambda>d. (0, d)),
     vo_kick_vqueue = (\<lambda>d _. (0, d))\<rparr>"

definition tos_demo_env :: tos_env where
  "tos_demo_env = \<lparr>te_pa_ok = 0, te_map_ok = 0, te_mem_ok = True, te_descr = [], te_ns = (\<lambda>_. 0), te_wait = [], te_ev = 0,
     te_sim_irq = (\<lambda>_. 0)\<rparr>"

definition tos_demo0 :: "unit tos" where
  "tos_demo0 = \<lparr>ts_bus = \<lparr>vc_num_guests = 0, vc_guest0 = empty_bus, vc_addl = None\<rparr>, ts_ql = ql_demo0, ts_kern = kern0,
     ts_descr_out = []\<rparr>"

definition tos_demo1 :: "unit tos" where
  "tos_demo1 = snd (the (trusty_sm_stdcall tos_demo_ops tos_demo_env (tos_demo_args SMC_SC_CREATE_QL_TIPC_DEV 0) tos_demo0))"

lemma tos_demo_reach: "tos_reach tos_demo_ops tos_demo1"
proof -
  let ?r = "trusty_sm_stdcall tos_demo_ops tos_demo_env (tos_demo_args SMC_SC_CREATE_QL_TIPC_DEV 0) tos_demo0"
  have 0: "tos_reach tos_demo_ops tos_demo0"
    by (rule tos_reach.boot) (simp_all add: tos_demo0_def ql_demo0_def)
  have "\<not> Option.is_none ?r" by code_simp
  then have "?r = Some (fst (the ?r), tos_demo1)" by (auto simp: tos_demo1_def Option.is_none_def)
  from tos_reach.stdcall [OF 0 this] show ?thesis .
qed

theorem normal_world_buffers_nonsecure_witness:
  "map qd_ns_pa (qc_dev_list (ts_ql tos_demo1)) = [0x80000000] \<and>
   qd_ns_mmu_flags (hd (qc_dev_list (ts_ql tos_demo1))) AND ARCH_MMU_FLAG_NS \<noteq> 0"
proof -
  have pa: "map qd_ns_pa (qc_dev_list (ts_ql tos_demo1)) = [0x80000000]" by code_simp
  then have "hd (qc_dev_list (ts_ql tos_demo1)) \<in> set (qc_dev_list (ts_ql tos_demo1))" by (intro hd_in_set) auto
  with pa show ?thesis using normal_world_buffers_nonsecure [OF tos_demo_reach] by blast
qed

text \<open>Errors of the bridge are translated twice: its functions already return \<^verbatim>\<open>SM_ERR_*\<close> numbers, which
  \<^verbatim>\<open>to_smc_error\<close> reads as kernel errors, so every refusal to create a device, for bad parameters as for too
  many devices, reaches the normal world as \<^verbatim>\<open>SM_ERR_INTERNAL_FAILURE\<close>.\<close>

theorem create_errors_become_internal:
  assumes "smc_nr args = SMC_SC_CREATE_QL_TIPC_DEV" and "guest_ok (smc_params args ! SMC_ARGS_GUESTID)"
    and "get_ns_mem_buf args = (NO_ERROR, Some (pa, sz, flags))"
    and "ql_tipc_create_device pa sz flags (ts_ql s) (ts_kern s) = (res, c, k)" and "res \<noteq> 0"
  shows "res \<in> {SM_ERR_INVALID_PARAMETERS, SM_ERR_NOT_ALLOWED, SM_ERR_INTERNAL_FAILURE} \<and>
    trusty_sm_stdcall ops e args s = Some (Some SM_ERR_INTERNAL_FAILURE, s\<lparr>ts_ql := c, ts_kern := k\<rparr>)"
proof -
  have res: "res \<in> {SM_ERR_INVALID_PARAMETERS, SM_ERR_NOT_ALLOWED, SM_ERR_INTERNAL_FAILURE}"
    using assms(4,5) by (auto simp: ql_tipc_create_device_def dev_create_def Let_def split: if_splits option.splits prod.splits)
  then have "to_smc_error res = SM_ERR_INTERNAL_FAILURE"
    by (auto simp: to_smc_error_def err_simps SM_ERR_INVALID_PARAMETERS_def SM_ERR_NOT_ALLOWED_def SM_ERR_INTERNAL_FAILURE_def)
  moreover have "stdcall_switch ops e args s = Some (Some res, s\<lparr>ts_ql := c, ts_kern := k\<rparr>)"
    using assms(1,3,4) tos_nr_distinct by (auto simp: stdcall_switch_def with_ns_buf_def)
  ultimately show ?thesis using res assms(2) by (simp add: trusty_sm_stdcall_def)
qed

text \<open>Creating the same device again.\<close>

theorem create_errors_become_internal_witness:
  "fst (ql_tipc_create_device 0x80000000 0x1000 48 (ts_ql tos_demo1) (ts_kern tos_demo1)) = SM_ERR_INVALID_PARAMETERS \<and>
   map_option fst (trusty_sm_stdcall tos_demo_ops tos_demo_env (tos_demo_args SMC_SC_CREATE_QL_TIPC_DEV 0) tos_demo1) =
     Some (Some SM_ERR_INTERNAL_FAILURE)"
proof -
  let ?a = "tos_demo_args SMC_SC_CREATE_QL_TIPC_DEV 0"
    and ?c = "ql_tipc_create_device 0x80000000 0x1000 48 (ts_ql tos_demo1) (ts_kern tos_demo1)"
  have a: "smc_nr ?a = SMC_SC_CREATE_QL_TIPC_DEV" "guest_ok (smc_params ?a ! SMC_ARGS_GUESTID)"
    "get_ns_mem_buf ?a = (NO_ERROR, Some (0x80000000, 0x1000, 48))"
    "fst ?c = SM_ERR_INVALID_PARAMETERS" by code_simp+
  have "?c = (SM_ERR_INVALID_PARAMETERS, fst (snd ?c), snd (snd ?c))" using a(4) by (simp add: prod_eq_iff)
  from create_errors_become_internal [OF a(1-3) this] a(4) show ?thesis by (simp add: SM_ERR_INVALID_PARAMETERS_def)
qed

end
