(* ===== verification/Camera.thy ===== *)
theory Camera
  imports SecureUart UserMem
begin

text \<open>
  The secure-UART trusted application and its normal-world client:
  \<^verbatim>\<open>app/nvidia-sample/UART/camera_communication.c\<close>, \<^verbatim>\<open>trusty_ipc_setup.c\<close>, \<^verbatim>\<open>main.c\<close> and the argument
  check of \<^verbatim>\<open>CA/suart_app.c\<close>.  A heap buffer is the list of its bytes; a string function that leaves
  the buffer, or finds no NUL in it, is undefined behaviour, \<^term>\<open>None\<close>.
\<close>

definition CAMERA_PORT :: u32 where "CAMERA_PORT = 3"
definition DEBUG_PORT :: u32 where "DEBUG_PORT = 1"

section \<open>C strings\<close>

definition c_strlen :: "byte list \<Rightarrow> nat option" where
  "c_strlen buf = (if 0 \<in> set buf then Some (length (takeWhile (\<lambda>b. b \<noteq> 0) buf)) else None)"

text \<open>\<open>src\<close> is the string without its NUL.\<close>

definition c_strcat :: "byte list \<Rightarrow> byte list \<Rightarrow> byte list option" where
  "c_strcat buf src = do {
     n \<leftarrow> c_strlen buf;
     if n + length src < length buf
     then Some (take n buf @ src @ [0] @ drop (n + length src + 1) buf) else None }"

section \<open>Talking to the camera\<close>

text \<open>
  \<^verbatim>\<open>send_to_uart\<close> and \<^verbatim>\<open>receive_from_uart\<close> as the application calls them: \<open>str\<close> is the literal without
  its NUL, and the port argument is ignored by the kernel.
\<close>

fun send_bytes :: "byte list \<Rightarrow> uart \<Rightarrow> uart option" where
  "send_bytes [] s = Some s"
| "send_bytes (b # bs) s = do { s \<leftarrow> secure_platform_dputc b s; send_bytes bs s }"

definition send_to_uart :: "u32 \<Rightarrow> byte list \<Rightarrow> nat \<Rightarrow> uart \<Rightarrow> uart option" where
  "send_to_uart port str n s = send_bytes (take n (str @ [0])) s"

definition receive_from_uart :: "u32 \<Rightarrow> bool \<Rightarrow> uart \<Rightarrow> (int \<times> byte option \<times> uart) option" where
  "receive_from_uart port wait s = secure_platform_dgetc wait s"

text \<open>
  The receive loop.  \<open>junk\<close> are the bytes that follow the one-byte allocation up to the first NUL:
  \<^verbatim>\<open>strcat\<close> takes them for part of the string.  Each turn takes a byte off the line, so \<open>fuel\<close> above
  the number of bytes to come is enough.
\<close>

fun receive_loop :: "nat \<Rightarrow> byte list \<Rightarrow> byte list \<Rightarrow> nat \<Rightarrow> uart \<Rightarrow> (byte list \<times> nat \<times> uart) option" where
  "receive_loop 0 junk buf sz s = None"
| "receive_loop (Suc fuel) junk buf sz s = do {
     (status, c, s) \<leftarrow> receive_from_uart CAMERA_PORT True s;
     if status = 0 then do {
       b \<leftarrow> c;
       buf \<leftarrow> c_strcat buf (if b = 0 then [] else b # junk);
       receive_loop fuel junk buf (Suc sz) s }
     else Some (buf, sz, s) }"

definition receive_message_from_camera :: "nat \<Rightarrow> byte list \<Rightarrow> byte list \<Rightarrow> uart
    \<Rightarrow> (bool \<times> byte list \<times> nat \<times> uart) option" where
  "receive_message_from_camera fuel junk buf s = do {
     (buf, sz, s) \<leftarrow> receive_loop fuel junk buf 0 s;
     Some (sz \<noteq> 0, buf, sz, s) }"

definition str_sent_command :: "byte list" where
  "str_sent_command = [83, 101, 110, 116, 32, 99, 111, 109, 109, 97, 110, 100, 58, 32]"

text \<open>\<^verbatim>\<open>commands[0]\<close>, \<^verbatim>\<open>"56001100"\<close>.\<close>

definition command_0 :: "byte list" where
  "command_0 = [53, 54, 48, 48, 49, 49, 48, 48]"

definition send_command_to_camera :: "nat \<Rightarrow> byte list \<Rightarrow> byte list \<Rightarrow> int \<Rightarrow> uart
    \<Rightarrow> (bool \<times> byte list \<times> nat \<times> uart) option" where
  "send_command_to_camera fuel junk buf command s = do {
     s \<leftarrow> send_to_uart DEBUG_PORT str_sent_command 1 s;
     s \<leftarrow> send_to_uart DEBUG_PORT command_0 1 s;
     s \<leftarrow> send_to_uart DEBUG_PORT [13, 10] 1 s;
     s \<leftarrow> send_to_uart CAMERA_PORT command_0 0 s;
     receive_message_from_camera fuel junk buf s }"

section \<open>Formatting a response\<close>

text \<open>The digits of a byte, least significant first; a zero byte is written with two digits.\<close>

fun digits_rev :: "nat \<Rightarrow> byte list" where
  "digits_rev v = (if v = 0 then [] else of_nat (v mod 10 + 48) # digits_rev (v div 10))"

declare digits_rev.simps [simp del]

definition byte_digits :: "byte \<Rightarrow> byte list" where
  "byte_digits b = (if b = 0 then [48, 48] else rev (digits_rev (unat b)))"

text \<open>
  The loop of \<^verbatim>\<open>format_recieved_data\<close>, with \<open>to_print\<close> as it is before the turn.  The two scratch
  buffers are empty at the start of every turn but the first, for which \<open>rev0\<close> and \<open>val0\<close> are the
  strings that \<^verbatim>\<open>malloc\<close> left in them.
\<close>

fun format_loop :: "byte list \<Rightarrow> byte list \<Rightarrow> byte list \<Rightarrow> byte list \<Rightarrow> nat \<Rightarrow> (byte list \<times> nat) option" where
  "format_loop rev0 val0 [] to_print global_size = Some (to_print, global_size)"
| "format_loop rev0 val0 (b # bs) to_print global_size = do {
     let ds = rev (byte_digits b);
     let value_in_char_reverse = rev0 @ ds;
     let value_in_char = val0 @ rev (take (length ds) value_in_char_reverse) @ [32];
     to_print \<leftarrow> c_strcat to_print value_in_char;
     format_loop [] [] bs to_print (global_size + length ds + 1) }"

definition format_recieved_data :: "byte list \<Rightarrow> byte list \<Rightarrow> byte list \<Rightarrow> byte list
    \<Rightarrow> (byte list \<times> nat) option" where
  "format_recieved_data rev0 val0 junk msg =
     (if length junk = length msg * 3 then format_loop rev0 val0 msg junk 0 else None)"

section \<open>Serving the client\<close>

text \<open>The IPC calls the application makes, over a state of the rest of the system.\<close>

record 's ta_ipc =
  ti_get_msg :: "'s \<Rightarrow> int \<times> u32 \<times> 's"
  ti_read_msg :: "u32 \<Rightarrow> nat \<Rightarrow> 's \<Rightarrow> int \<times> byte list \<times> 's"
  ti_send_msg :: "byte list \<Rightarrow> 's \<Rightarrow> int \<times> 's"
  ti_put_msg :: "u32 \<Rightarrow> 's \<Rightarrow> int \<times> 's"
  ti_close :: "'s \<Rightarrow> int \<times> 's"

definition sizeof_camera_msg :: nat where "sizeof_camera_msg = 8 + 1018 * 4"

text \<open>What \<^verbatim>\<open>handle_msg\<close> does between reading and replying: \<open>mb\<close> is \<^verbatim>\<open>msg_buf\<close>.
  Every text for the debug port is sent with size 1, so it is given by its first byte.\<close>

definition camera_exchange :: "nat \<Rightarrow> byte list \<Rightarrow> byte list \<Rightarrow> byte list \<Rightarrow> uart
    \<Rightarrow> (byte list \<times> uart) option" where
  "camera_exchange fuel junk mbuf mb s = do {
     (found, buf, sz, s) \<leftarrow> receive_message_from_camera fuel junk mbuf s;
     s \<leftarrow> send_to_uart DEBUG_PORT (if found then [82] else [70]) 1 s;
     let buf = replicate 500 0;
     (found, buf, sz, s) \<leftarrow> send_command_to_camera fuel junk buf (sint (le32_of (take 4 mb))) s;
     if \<not> found then do {
       s \<leftarrow> send_to_uart DEBUG_PORT [70] 1 s;
       s \<leftarrow> send_to_uart DEBUG_PORT [13] 1 s;
       Some (mb, s) }
     else do {
       s \<leftarrow> send_to_uart DEBUG_PORT [82] 1 s;
       s \<leftarrow> send_to_uart DEBUG_PORT (takeWhile (\<lambda>b. b \<noteq> 0) buf) 1 s;
       n \<leftarrow> c_strlen buf;
       let mb = take 4 mb @ le32_bytes (of_nat sz) @ take n buf @ drop (8 + n) mb;
       s \<leftarrow> send_to_uart DEBUG_PORT [82] 1 s;
       s \<leftarrow> send_to_uart DEBUG_PORT (takeWhile (\<lambda>b. b \<noteq> 0) (drop 8 mb)) 1 s;
       s \<leftarrow> send_to_uart DEBUG_PORT [10] 1 s;
       s \<leftarrow> send_to_uart DEBUG_PORT [13] 1 s;
       Some (mb, s) } }"

text \<open>The message is read into \<open>mb\<close> and its first \<open>rc\<close> bytes are sent back, twice, then it is retired.\<close>

definition handle_msg :: "'s ta_ipc \<Rightarrow> nat \<Rightarrow> byte list \<Rightarrow> byte list \<Rightarrow> byte list \<Rightarrow> uart \<Rightarrow> 's
    \<Rightarrow> (int \<times> byte list \<times> uart \<times> 's) option" where
  "handle_msg ipc fuel junk mbuf mb s st =
     (let (rc, msg_id, st) = ti_get_msg ipc st in
      if rc = ERR_NO_MSG then Some (NO_ERROR, mb, s, st)
      else if rc \<noteq> NO_ERROR then Some (rc, mb, s, st)
      else let (rc, data, st) = ti_read_msg ipc msg_id sizeof_camera_msg st;
               mb = data @ drop (length data) mb in
        if rc < 0 then Some (rc, mb, s, st)
        else do {
          let len = nat rc;
          (mb, s) \<leftarrow> camera_exchange fuel junk mbuf mb s;
          let (rc, st) = ti_send_msg ipc (take len mb) st;
          if rc < 0 then Some (rc, mb, s, st)
          else
            let (rc, st) = ti_send_msg ipc (take len mb) st in
            if rc < 0 then Some (rc, mb, s, st)
            else
              let (rc, st) = ti_put_msg ipc msg_id st in
              if rc \<noteq> NO_ERROR then Some (rc, mb, s, st)
              else Some (NO_ERROR, mb, s, st) })"

definition POLL_READY :: u32 where "POLL_READY = 1"
definition POLL_ERROR :: u32 where "POLL_ERROR = 2"
definition POLL_HUP :: u32 where "POLL_HUP = 4"
definition POLL_MSG :: u32 where "POLL_MSG = 8"
definition POLL_SEND_UNBLOCKED :: u32 where "POLL_SEND_UNBLOCKED = 16"

definition handle_channel_event :: "'s ta_ipc \<Rightarrow> nat \<Rightarrow> byte list \<Rightarrow> byte list \<Rightarrow> u32 \<Rightarrow> byte list \<Rightarrow> uart \<Rightarrow> 's
    \<Rightarrow> (byte list \<times> uart \<times> 's) option" where
  "handle_channel_event ipc fuel junk mbuf event mb s st =
     (if event AND POLL_MSG \<noteq> 0 then do {
        (rc, mb, s, st) \<leftarrow> handle_msg ipc fuel junk mbuf mb s st;
        Some (mb, s, if rc \<noteq> NO_ERROR then snd (ti_close ipc st) else st) }
      else if event AND POLL_HUP \<noteq> 0 then Some (mb, s, snd (ti_close ipc st))
      else Some (mb, s, st))"

text \<open>
  The loop of \<^verbatim>\<open>handle_port_event\<close> over what \<^verbatim>\<open>wait\<close> returns; the result says whether the loop was
  left, and the waits not used.
\<close>

fun serve_channel :: "'s ta_ipc \<Rightarrow> nat \<Rightarrow> byte list \<Rightarrow> byte list \<Rightarrow> (int \<times> u32) list \<Rightarrow> byte list \<Rightarrow> uart \<Rightarrow> 's
    \<Rightarrow> (bool \<times> (int \<times> u32) list \<times> byte list \<times> uart \<times> 's) option" where
  "serve_channel ipc fuel junk mbuf [] mb s st = Some (False, [], mb, s, st)"
| "serve_channel ipc fuel junk mbuf ((rc, event) # waits) mb s st =
     (if rc < 0 then Some (True, waits, mb, s, st)
      else do {
        (mb, s, st) \<leftarrow> handle_channel_event ipc fuel junk mbuf event mb s st;
        if event AND POLL_HUP \<noteq> 0 then Some (True, waits, mb, s, st)
        else serve_channel ipc fuel junk mbuf waits mb s st })"

definition handle_port_event :: "'s ta_ipc \<Rightarrow> nat \<Rightarrow> byte list \<Rightarrow> byte list \<Rightarrow> u32 \<Rightarrow> int \<Rightarrow> (int \<times> u32) list
    \<Rightarrow> byte list \<Rightarrow> uart \<Rightarrow> 's \<Rightarrow> (bool \<times> (int \<times> u32) list \<times> byte list \<times> uart \<times> 's) option" where
  "handle_port_event ipc fuel junk mbuf event accept_rc waits mb s st =
     (if event AND POLL_ERROR \<noteq> 0 \<or> event AND POLL_HUP \<noteq> 0 \<or> event AND POLL_MSG \<noteq> 0
         \<or> event AND POLL_SEND_UNBLOCKED \<noteq> 0
      then Some (True, waits, mb, s, st)
      else if event AND POLL_READY \<noteq> 0 then
        (if accept_rc < 0 then Some (True, waits, mb, s, st)
         else serve_channel ipc fuel junk mbuf waits mb s st)
      else Some (True, waits, mb, s, st))"

section \<open>The client's argument check\<close>

text \<open>\<^verbatim>\<open>initialization\<close>: \<open>argc\<close> and the number \<^verbatim>\<open>argv[1]\<close>; the result says whether a complaint is
  printed.  It is declared \<^verbatim>\<open>void\<close>: \<^verbatim>\<open>main\<close> goes on in either case.\<close>

definition ca_initialization :: "nat \<Rightarrow> int \<Rightarrow> bool" where
  "ca_initialization argc command =
     (if argc < 2 then True
      else if (command = 4 \<or> command = 5) \<and> argc \<noteq> 2 then True
      else command > 5)"

end
