(* ===== verification/Uthread.thy ===== *)
theory Uthread
  imports Prelude
begin

text \<open>
  The address space of a user thread: \<^verbatim>\<open>lib/uthread/uthread.c\<close>.  Each thread keeps the list of its
  mappings in the order of their addresses; mappings of the normal world's memory lie above
  \<^verbatim>\<open>ns_va_bottom\<close>, the others below.  Addresses and sizes are 64-bit words, as on arm64, flags and
  alignments 32-bit words; the user address space has 32 MiB, as \<^verbatim>\<open>MMU_USER_SIZE_SHIFT\<close> of the t186
  build says.

  \<open>ut_malloc\<close> answers the coming kernel allocations and \<open>ut_arch\<close> the coming calls of the page-table
  code (\<^verbatim>\<open>arch_uthread_map\<close>, \<^verbatim>\<open>arch_uthread_unmap\<close>); when used up they succeed.  \<open>ut_is_page\<close> says which
  physical addresses belong to the page allocator and \<open>ut_freed\<close> collects the pages given back to it.
  \<^verbatim>\<open>mmap_lock\<close> makes each operation one step.
\<close>

record uthread_map =
  um_vaddr :: u64
  um_size :: u64
  um_flags :: u32
  um_align :: u32
  um_pfn_list :: "u64 list"

record uthread =
  ut_id :: u32
  ut_start_stack :: u64
  ut_entry :: u64
  ut_ns_va_bottom :: u64
  ut_maps :: "uthread_map list"
  ut_malloc :: "bool list"
  ut_arch :: "int list"
  ut_is_page :: "u64 \<Rightarrow> bool"
  ut_freed :: "u64 list"

definition UTM_R :: u32 where "UTM_R = 1"
definition UTM_W :: u32 where "UTM_W = 2"
definition UTM_X :: u32 where "UTM_X = 4"
definition UTM_NONE :: u32 where "UTM_NONE = 8"
definition UTM_STACK :: u32 where "UTM_STACK = 16"
definition UTM_PHYS_CONTIG :: u32 where "UTM_PHYS_CONTIG = 32"
definition UTM_NS_MEM :: u32 where "UTM_NS_MEM = 64"
definition UTM_IO :: u32 where "UTM_IO = 128"
definition UTM_FIXED :: u32 where "UTM_FIXED = 256"
definition UTM_DEVICE :: u32 where "UTM_DEVICE = 512"

definition MMAP_FLAG_IO_HANDLE :: u32 where "MMAP_FLAG_IO_HANDLE = 1"
definition MMAP_FLAG_DEVICE_MEM :: u32 where "MMAP_FLAG_DEVICE_MEM = 2"

definition UT_MAP_ALIGN_4KB :: u64 where "UT_MAP_ALIGN_4KB = 0x1000"
definition UT_MAP_ALIGN_1MB :: u64 where "UT_MAP_ALIGN_1MB = 0x100000"
definition MAX_USR_VA :: u64 where "MAX_USR_VA = 0x2000000"

text \<open>
  \<^verbatim>\<open>ROUNDUP\<close> and \<^verbatim>\<open>ROUNDDOWN\<close> of \<^verbatim>\<open>stdlib.h\<close>.  With a 32-bit alignment the mask is a 32-bit word that
  is then extended with zeros, so the result has no bits above the 32nd; with a 64-bit one it is exact.
\<close>

definition ROUNDUP32 :: "u64 \<Rightarrow> u32 \<Rightarrow> u64" where
  "ROUNDUP32 a b = (a + ucast (b - 1)) AND ucast (NOT (b - 1))"

definition ROUNDDOWN32 :: "u64 \<Rightarrow> u32 \<Rightarrow> u64" where
  "ROUNDDOWN32 a b = a AND ucast (NOT (b - 1))"

definition ROUNDUP64 :: "u64 \<Rightarrow> u64 \<Rightarrow> u64" where
  "ROUNDUP64 a b = (a + (b - 1)) AND NOT (b - 1)"

definition ROUNDDOWN64 :: "u64 \<Rightarrow> u64 \<Rightarrow> u64" where
  "ROUNDDOWN64 a b = a AND NOT (b - 1)"

definition malloc_ok :: "uthread \<Rightarrow> bool \<times> uthread" where
  "malloc_ok ut = (case ut_malloc ut of [] \<Rightarrow> (True, ut) | b # bs \<Rightarrow> (b, ut\<lparr>ut_malloc := bs\<rparr>))"

definition arch_result :: "uthread \<Rightarrow> int \<times> uthread" where
  "arch_result ut = (case ut_arch ut of [] \<Rightarrow> (NO_ERROR, ut) | r # rs \<Rightarrow> (r, ut\<lparr>ut_arch := rs\<rparr>))"

section \<open>Finding room\<close>

text \<open>The search runs down from the top; \<^term>\<open>None\<close> is the early return of NULL.\<close>

fun find_ns_loop :: "uthread \<Rightarrow> u64 \<Rightarrow> u32 \<Rightarrow> uthread_map list \<Rightarrow> u64 \<Rightarrow> u64 option" where
  "find_ns_loop ut sz align [] start = Some start"
| "find_ns_loop ut sz align (mp # mps) start =
     (if start \<ge> um_vaddr mp + um_size mp then
        (if start \<ge> ut_ns_va_bottom ut then Some start
         else if ROUNDDOWN64 start UT_MAP_ALIGN_1MB < um_vaddr mp + um_size mp then None
         else Some start)
      else if um_flags mp AND UTM_NS_MEM = 0 then None
      else find_ns_loop ut sz align mps (min start (ROUNDDOWN32 (um_vaddr mp - sz) align)))"

definition uthread_find_va_space_ns :: "uthread \<Rightarrow> u64 \<Rightarrow> u32 \<Rightarrow> u64" where
  "uthread_find_va_space_ns ut sz align =
     (case find_ns_loop ut sz align (rev (ut_maps ut)) (ROUNDDOWN32 (MAX_USR_VA - sz) align) of
        None \<Rightarrow> 0
      | Some start \<Rightarrow> if start < ut_start_stack ut \<or> start > start + sz then 0 else start)"

fun find_sec_loop :: "u64 \<Rightarrow> u32 \<Rightarrow> uthread_map list \<Rightarrow> u64 \<Rightarrow> u64" where
  "find_sec_loop sz align [] start = start"
| "find_sec_loop sz align (mp # mps) start =
     (if start + sz \<le> um_vaddr mp then start
      else find_sec_loop sz align mps (max start (ROUNDUP32 (um_vaddr mp + um_size mp) align)))"

definition uthread_find_va_space_sec :: "uthread \<Rightarrow> u64 \<Rightarrow> u32 \<Rightarrow> u64" where
  "uthread_find_va_space_sec ut sz align =
     (let start = find_sec_loop sz align (ut_maps ut) (ROUNDUP32 (ut_start_stack ut) align) in
      if start + sz > ut_ns_va_bottom ut \<or> start > start + sz then 0 else start)"

definition uthread_find_va_space :: "uthread \<Rightarrow> u64 \<Rightarrow> u32 \<Rightarrow> u32 \<Rightarrow> u64" where
  "uthread_find_va_space ut sz flags align =
     (if flags AND UTM_NS_MEM \<noteq> 0 then uthread_find_va_space_ns ut sz align
      else uthread_find_va_space_sec ut sz align)"

section \<open>The list of mappings\<close>

text \<open>The insertion loop; \<^term>\<open>None\<close> is an overlap.\<close>

fun map_insert :: "uthread_map \<Rightarrow> uthread_map list \<Rightarrow> uthread_map list option" where
  "map_insert mp [] = Some [mp]"
| "map_insert mp (m # ms) =
     (if um_vaddr m > um_vaddr mp then
        (if um_vaddr mp + um_size mp > um_vaddr m then None else Some (mp # m # ms))
      else if um_vaddr mp < um_vaddr m + um_size m then None
      else map_option (Cons m) (map_insert mp ms))"

definition uthread_map_alloc :: "u64 \<Rightarrow> u64 list \<Rightarrow> u64 \<Rightarrow> u32 \<Rightarrow> u32 \<Rightarrow> uthread \<Rightarrow> (int \<times> uthread) option" where
  "uthread_map_alloc vaddr pfn_list sz flags align ut = do {
     _ \<leftarrow> ASSERT (sz AND (0x1000 - 1) = 0);
     if vaddr + sz \<le> vaddr then Some (ERR_INVALID_ARGS, ut)
     else
       let npages = (if flags AND UTM_PHYS_CONTIG \<noteq> 0 then 1 else unat (ucast (sz div 0x1000) :: u32));
           (ok, ut) = malloc_ok ut in
       if \<not> ok then Some (ERR_NO_MEMORY, ut)
       else do {
         _ \<leftarrow> ASSERT (npages \<le> length pfn_list);
         let mp = \<lparr>um_vaddr = vaddr, um_size = sz, um_flags = flags, um_align = align,
                   um_pfn_list = take npages pfn_list\<rparr>;
         let new_ns = (if flags AND UTM_NS_MEM \<noteq> 0 \<and> vaddr < ut_ns_va_bottom ut
                       then ROUNDDOWN64 vaddr UT_MAP_ALIGN_1MB else ut_ns_va_bottom ut);
         (case map_insert mp (ut_maps ut) of
            None \<Rightarrow> Some (ERR_INVALID_ARGS, ut)
          | Some maps \<Rightarrow> Some (NO_ERROR, ut\<lparr>ut_ns_va_bottom := new_ns, ut_maps := maps\<rparr>)) } }"

definition map_covers :: "u64 \<Rightarrow> u64 \<Rightarrow> uthread_map \<Rightarrow> bool" where
  "map_covers vaddr sz mp \<longleftrightarrow> um_vaddr mp \<le> vaddr \<and> vaddr < um_vaddr mp + um_size mp \<and>
     um_vaddr mp + um_size mp \<ge> vaddr + sz"

definition uthread_map_find :: "uthread \<Rightarrow> u64 \<Rightarrow> u64 \<Rightarrow> uthread_map option" where
  "uthread_map_find ut vaddr sz =
     (if vaddr + sz < vaddr then None else find (map_covers vaddr sz) (ut_maps ut))"

text \<open>The mapping's neighbours are the last one before it and the first one after it.\<close>

definition uthread_map_remove :: "uthread_map \<Rightarrow> uthread \<Rightarrow> uthread" where
  "uthread_map_remove mp ut =
     (let before = takeWhile (\<lambda>m. m \<noteq> mp) (ut_maps ut);
          after = tl (dropWhile (\<lambda>m. m \<noteq> mp) (ut_maps ut));
          bottom = (if um_flags mp AND UTM_NS_MEM \<noteq> 0 \<and>
                       (before = [] \<or> um_flags (last before) AND UTM_NS_MEM = 0)
                    then (case after of [] \<Rightarrow> MAX_USR_VA
                          | item # _ \<Rightarrow> ROUNDDOWN64 (um_vaddr item) UT_MAP_ALIGN_1MB)
                    else ut_ns_va_bottom ut)
      in ut\<lparr>ut_ns_va_bottom := bottom, ut_maps := before @ after\<rparr>)"

section \<open>Mapping and unmapping\<close>

text \<open>\<open>vaddr\<close> is the value behind \<^verbatim>\<open>vaddrp\<close>; the result has the value left there.\<close>

definition uthread_map_op :: "u64 \<Rightarrow> u64 list option \<Rightarrow> u64 \<Rightarrow> u32 \<Rightarrow> u32 \<Rightarrow> uthread
    \<Rightarrow> (int \<times> u64 \<times> uthread) option" where
  "uthread_map_op vaddr pfns sz flags align ut =
     (case pfns of None \<Rightarrow> Some (ERR_INVALID_ARGS, vaddr, ut)
      | Some pfn_list \<Rightarrow>
        if sz AND (0x1000 - 1) \<noteq> 0 then Some (ERR_NOT_VALID, vaddr, ut)
        else
          let vaddr = (if flags AND UTM_FIXED = 0 then uthread_find_va_space ut sz flags align else vaddr) in
          if flags AND UTM_FIXED = 0 \<and> vaddr = 0 then Some (ERR_NO_MEMORY, vaddr, ut)
          else do {
            (err, ut) \<leftarrow> uthread_map_alloc vaddr pfn_list sz flags align ut;
            if err \<noteq> 0 then Some (err, vaddr, ut)
            else let (err, ut) = arch_result ut in Some (err, vaddr, ut) })"

definition uthread_map_contig :: "u64 \<Rightarrow> u64 \<Rightarrow> u64 \<Rightarrow> u32 \<Rightarrow> u32 \<Rightarrow> uthread
    \<Rightarrow> (int \<times> u64 \<times> uthread) option" where
  "uthread_map_contig vaddr paddr sz flags align ut =
     uthread_map_op vaddr (Some [paddr]) sz (flags OR UTM_PHYS_CONTIG) align ut"

text \<open>\<open>pages\<close> is what \<^verbatim>\<open>pmm_alloc_pages\<close> puts on the list; too few of them, or any later failure, gives them back.\<close>

definition uthread_pmm_alloc_and_map :: "u64 list \<Rightarrow> u64 \<Rightarrow> u32 \<Rightarrow> u32 \<Rightarrow> uthread
    \<Rightarrow> (int \<times> u64 \<times> uthread) option" where
  "uthread_pmm_alloc_and_map pages sz flags align ut =
     (let alloc_size = ucast (ROUNDUP64 sz 0x1000) :: u32;
          count = drop_bit 12 alloc_size;
          give_back = (\<lambda>ut. ut\<lparr>ut_freed := ut_freed ut @ pages\<rparr>) in
      if length pages \<noteq> unat count then Some (-1, 0, give_back ut)
      else
        let (ok, ut) = malloc_ok ut in
        if \<not> ok then Some (-1, 0, give_back ut)
        else
          let uflags = (UTM_W OR UTM_R) OR (if flags AND MMAP_FLAG_DEVICE_MEM \<noteq> 0 then UTM_DEVICE else 0) in do {
            (sts, vaddr, ut) \<leftarrow> uthread_map_op 0 (Some pages) (ucast alloc_size) uflags align ut;
            if sts \<noteq> 0 then Some (sts, vaddr, give_back ut) else Some (0, vaddr, ut) })"

text \<open>The loop that gives the pages of a mapping back; reading past the list of frames is a panic.\<close>

fun unmap_free_loop :: "nat \<Rightarrow> nat \<Rightarrow> uthread_map \<Rightarrow> uthread \<Rightarrow> uthread option" where
  "unmap_free_loop i 0 mp ut = Some ut"
| "unmap_free_loop i (Suc n) mp ut = do {
     _ \<leftarrow> ASSERT (i < length (um_pfn_list mp));
     let pa = um_pfn_list mp ! i;
     unmap_free_loop (Suc i) n mp (if ut_is_page ut pa then ut\<lparr>ut_freed := ut_freed ut @ [pa]\<rparr> else ut) }"

definition uthread_unmap :: "u64 \<Rightarrow> u64 \<Rightarrow> uthread \<Rightarrow> (int \<times> uthread) option" where
  "uthread_unmap vaddr sz ut =
     (if vaddr = 0 then Some (ERR_INVALID_ARGS, ut)
      else case uthread_map_find ut vaddr sz of
        None \<Rightarrow> Some (ERR_NOT_FOUND, ut)
      | Some mp \<Rightarrow>
          let (err, ut) = arch_result ut in
          if err \<noteq> 0 then Some (err, ut)
          else do {
            ut \<leftarrow> (if um_flags mp AND MMAP_FLAG_DEVICE_MEM \<noteq> 0
                   then unmap_free_loop 0 (unat (um_size mp div 0x1000)) mp ut else Some ut);
            Some (NO_ERROR, uthread_map_remove mp ut) })"

definition uthread_is_valid_range :: "uthread \<Rightarrow> u64 \<Rightarrow> u64 \<Rightarrow> bool" where
  "uthread_is_valid_range ut vaddr sz \<longleftrightarrow> uthread_map_find ut vaddr sz \<noteq> None"

definition uthread_virt_to_phys :: "uthread \<Rightarrow> u64 \<Rightarrow> (int \<times> u64) option" where
  "uthread_virt_to_phys ut vaddr =
     (case uthread_map_find ut vaddr 0 of
        None \<Rightarrow> Some (ERR_INVALID_ARGS, 0)
      | Some mp \<Rightarrow>
          if um_flags mp AND UTM_PHYS_CONTIG \<noteq> 0 then do {
            _ \<leftarrow> ASSERT (um_pfn_list mp \<noteq> []);
            Some (NO_ERROR, hd (um_pfn_list mp) + (vaddr - um_vaddr mp)) }
          else
            let pg = unat (ucast ((vaddr - um_vaddr mp) div 0x1000) :: u32) in do {
            _ \<leftarrow> ASSERT (pg < length (um_pfn_list mp));
            Some (NO_ERROR, um_pfn_list mp ! pg + (vaddr AND (0x1000 - 1))) })"

definition uthread_revoke_pages :: "u64 \<Rightarrow> u64 \<Rightarrow> uthread \<Rightarrow> (int \<times> uthread) option" where
  "uthread_revoke_pages vaddr sz ut =
     (if sz = 0 then Some (0, ut)
      else uthread_unmap (ROUNDDOWN64 vaddr 0x1000) (ROUNDUP64 (sz + (vaddr AND (0x1000 - 1))) 0x1000) ut)"

text \<open>
  \<^verbatim>\<open>uthread_grant_pages\<close>: \<open>src\<close> is the thread the pages come from, \<^term>\<open>None\<close> for the normal world, and
  \<open>page_list\<close> whether a page list is given.  \<open>tr\<close> is what \<^verbatim>\<open>arch_uthread_translate_map\<close> answers: its status
  and the frames it finds.  \<open>va0\<close> is the value behind \<^verbatim>\<open>vaddr_target\<close>.
\<close>

definition uthread_grant_pages :: "uthread option \<Rightarrow> bool \<Rightarrow> u64 \<Rightarrow> u64 \<Rightarrow> u32 \<Rightarrow> int \<times> u64 list \<Rightarrow> u64 \<Rightarrow> uthread
    \<Rightarrow> (int \<times> u64 \<times> uthread) option" where
  "uthread_grant_pages src page_list vaddr_src sz flags tr va0 ut =
     (if sz = 0 then Some (0, 0, ut)
      else
        let offset = vaddr_src AND (0x1000 - 1);
            vaddr_src = ROUNDDOWN64 vaddr_src 0x1000 in do {
        opts \<leftarrow> (case src of
            None \<Rightarrow> Some (if page_list then Some (ucast UT_MAP_ALIGN_4KB, flags OR UTM_NS_MEM) else None)
          | Some ut_src \<Rightarrow> do {
              _ \<leftarrow> ASSERT (\<not> page_list);
              Some (map_option (\<lambda>mp. (um_align mp, if um_flags mp AND UTM_NS_MEM \<noteq> 0 then flags OR UTM_NS_MEM else flags))
                (uthread_map_find ut_src vaddr_src sz)) });
        (case opts of None \<Rightarrow> Some (ERR_INVALID_ARGS, va0, ut)
         | Some (align, flags) \<Rightarrow>
             let sz = ROUNDUP64 (sz + offset) 0x1000;
                 npages = ucast (sz div 0x1000) :: u32;
                 flags = (if npages = 1 then flags OR UTM_PHYS_CONTIG else flags);
                 va = uthread_find_va_space ut sz flags align in
             if va = 0 then Some (ERR_NO_MEMORY, va, ut)
             else
               let (ok, ut) = malloc_ok ut in
               if \<not> ok then Some (ERR_NO_MEMORY, va, ut)
               else if fst tr \<noteq> NO_ERROR then Some (fst tr, va, ut)
               else do {
                 (err, ut) \<leftarrow> uthread_map_alloc va (snd tr) sz flags align ut;
                 Some (err, va + offset, ut) }) })"

text \<open>
  \<^verbatim>\<open>uthread_create\<close>: \<open>stack\<close> is the physical address of the stack, \<open>ut\<close> the zeroed thread with its
  surroundings and the number it is given.  The allocations are those of the thread, its stack, the
  mapping and the kernel thread; \<^term>\<open>None\<close> inside the result is NULL.
\<close>

definition uthread_create :: "u64 \<Rightarrow> u64 \<Rightarrow> u64 \<Rightarrow> u64 \<Rightarrow> uthread \<Rightarrow> uthread option option" where
  "uthread_create entry start_stack stack_size stack ut =
     (let (ok, ut) = malloc_ok ut in
      if \<not> ok then Some None
      else
        let ut = ut\<lparr>ut_maps := [], ut_entry := entry, ut_ns_va_bottom := MAX_USR_VA, ut_start_stack := 0\<rparr>;
            (ok, ut) = malloc_ok ut in
        if \<not> ok then Some None
        else do {
          (err, _, ut) \<leftarrow> uthread_map_contig (start_stack - stack_size) stack stack_size
             (((UTM_W OR UTM_R) OR UTM_STACK) OR UTM_FIXED) (ucast UT_MAP_ALIGN_4KB) ut;
          if err \<noteq> 0 then Some None
          else
            let ut = ut\<lparr>ut_start_stack := start_stack\<rparr>;
                (ok, ut) = malloc_ok ut in
            Some (if ok then Some ut else None) })"

end
