(* ===== verification/AddressSpace.thy ===== *)
theory AddressSpace
  imports Uthread
begin

text \<open>
  What the mapping code of \<^verbatim>\<open>uthread.c\<close> guarantees: the mappings of a thread never overlap, the search
  for room is a first fit, and addresses translate to the frames they were mapped to.
\<close>

section \<open>Ranges\<close>

definition mend :: "uthread_map \<Rightarrow> nat" where
  "mend m = unat (um_vaddr m) + unat (um_size m)"

text \<open>The number of frames a mapping keeps, and a mapping that is in order.\<close>

definition frames :: "u64 \<Rightarrow> u32 \<Rightarrow> nat" where
  "frames sz flags = (if flags AND UTM_PHYS_CONTIG \<noteq> 0 then 1 else unat (ucast (sz div 0x1000) :: u32))"

definition mp_ok :: "uthread_map \<Rightarrow> bool" where
  "mp_ok m \<longleftrightarrow> mend m < 2 ^ 64 \<and> um_size m \<noteq> 0 \<and> um_size m AND (0x1000 - 1) = 0 \<and>
     length (um_pfn_list m) = frames (um_size m) (um_flags m)"

definition apart :: "uthread_map \<Rightarrow> uthread_map \<Rightarrow> bool" where
  "apart a b \<longleftrightarrow> mend a \<le> unat (um_vaddr b)"

definition maps_ok :: "uthread_map list \<Rightarrow> bool" where
  "maps_ok ms \<longleftrightarrow> (\<forall>m\<in>set ms. mp_ok m) \<and> sorted_wrt apart ms"

definition overlap :: "uthread_map \<Rightarrow> uthread_map \<Rightarrow> bool" where
  "overlap a b \<longleftrightarrow> \<not> apart a b \<and> \<not> apart b a"

lemma unat_plus64: "unat (a + b :: u64) = (if unat a + unat b < 2 ^ 64 then unat a + unat b else unat a + unat b - 2 ^ 64)"
  by (simp add: unat_plus_if')

lemma unat_lt_u32: "unat (x :: u32) < 2 ^ 32"
  using unsigned_less [of x] by simp

lemma word_le_plus: "a + b \<le> (a :: u64) \<longleftrightarrow> \<not> (unat a + unat b < 2 ^ 64 \<and> b \<noteq> 0)"
proof -
  have "unat b < 2 ^ 64" "unat a < 2 ^ 64" using unsigned_less [of b] unsigned_less [of a] by simp_all
  moreover have "b \<noteq> 0 \<longleftrightarrow> unat b \<noteq> 0" by (simp add: unat_eq_0)
  ultimately show ?thesis unfolding word_le_nat_alt unat_plus64 by (simp split: if_splits) linarith
qed

lemma mend_word: "mp_ok m \<Longrightarrow> unat (um_vaddr m + um_size m) = mend m"
  by (simp add: mp_ok_def mend_def unat_plus64)

lemma mp_ok_pos: "mp_ok m \<Longrightarrow> unat (um_vaddr m) < mend m"
  by (simp add: mp_ok_def mend_def unat_gt_0)

lemma maps_ok_Nil [simp]: "maps_ok []"
  by (simp add: maps_ok_def)

lemma maps_ok_Cons: "maps_ok (m # ms) \<longleftrightarrow> mp_ok m \<and> (\<forall>n\<in>set ms. apart m n) \<and> maps_ok ms"
  by (auto simp: maps_ok_def)

lemma maps_ok_append: "maps_ok (ms @ ns) \<longleftrightarrow> maps_ok ms \<and> maps_ok ns \<and> (\<forall>m\<in>set ms. \<forall>n\<in>set ns. apart m n)"
  by (auto simp: maps_ok_def sorted_wrt_append)

lemma apart_trans: "mp_ok b \<Longrightarrow> apart a b \<Longrightarrow> apart b c \<Longrightarrow> apart a c"
  using mp_ok_pos [of b] by (simp add: apart_def)

section \<open>The list\<close>

lemma map_insert_ok:
  assumes "maps_ok ms" "mp_ok mp"
  shows "case map_insert mp ms of
      None \<Rightarrow> \<exists>m\<in>set ms. overlap m mp
    | Some ms' \<Rightarrow> (\<forall>m\<in>set ms. \<not> overlap m mp) \<and> maps_ok ms' \<and>
        (\<exists>pre post. ms = pre @ post \<and> ms' = pre @ mp # post)"
  using assms(1)
proof (induction ms)
  case Nil
  then show ?case using assms(2) by (simp add: maps_ok_def)
next
  case (Cons m ms)
  have m: "mp_ok m" and ap: "\<forall>n\<in>set ms. apart m n" and ms: "maps_ok ms"
    using Cons.prems by (simp_all add: maps_ok_Cons)
  note ends = mend_word [OF m] mend_word [OF assms(2)] mp_ok_pos [OF m] mp_ok_pos [OF assms(2)]
  consider (before) "um_vaddr m > um_vaddr mp" "apart mp m" | (hit) "overlap m mp"
    | (behind) "\<not> um_vaddr m > um_vaddr mp" "apart m mp"
    using ends by (fastforce simp: overlap_def apart_def word_less_nat_alt)
  then show ?case
  proof cases
    case before
    then have nxt: "\<forall>n\<in>set (m # ms). apart mp n" using ap apart_trans [OF m] by auto
    moreover have "\<not> um_vaddr mp + um_size mp > um_vaddr m"
      using before ends by (simp add: apart_def word_less_nat_alt)
    ultimately show ?thesis
      using before Cons.prems assms(2)
      by (auto simp: maps_ok_Cons overlap_def intro: exI [of _ "[]"])
  next
    case hit
    then have "map_insert mp (m # ms) = None"
      using ends by (auto simp: overlap_def apart_def word_less_nat_alt)
    then show ?thesis using hit by auto
  next
    case behind
    have step: "map_insert mp (m # ms) = map_option (Cons m) (map_insert mp ms)"
      using behind ends by (auto simp: apart_def word_less_nat_alt)
    show ?thesis
    proof (cases "map_insert mp ms")
      case None
      then show ?thesis using Cons.IH [OF ms] step by auto
    next
      case (Some ms')
      with Cons.IH [OF ms] obtain pre post where
        i: "\<forall>n\<in>set ms. \<not> overlap n mp" "maps_ok ms'" "ms = pre @ post" "ms' = pre @ mp # post" by auto
      have "maps_ok (m # ms')" using i m ap behind by (auto simp: maps_ok_Cons)
      moreover have "\<not> overlap m mp" using behind by (simp add: overlap_def)
      moreover have "\<exists>pre post. m # ms = pre @ post \<and> m # ms' = pre @ mp # post"
        using i(3,4) by (intro exI [of _ "m # pre"] exI [of _ post]) simp
      ultimately show ?thesis using step Some i(1) by simp
    qed
  qed
qed

lemma map_remove_split:
  assumes "mp \<in> set ms"
  shows "\<exists>pre post. ms = pre @ mp # post \<and> takeWhile (\<lambda>m. m \<noteq> mp) ms = pre \<and> tl (dropWhile (\<lambda>m. m \<noteq> mp) ms) = post"
proof -
  obtain pre post where ms: "ms = pre @ mp # post" "mp \<notin> set pre" using split_list_first [OF assms] by blast
  have "takeWhile (\<lambda>m. m \<noteq> mp) (pre @ mp # post) = pre" "dropWhile (\<lambda>m. m \<noteq> mp) (pre @ mp # post) = mp # post"
    using ms(2) by (induction pre) auto
  then show ?thesis unfolding ms(1) by auto
qed

text \<open>Mappings come and go one at a time, and the list stays in order.\<close>

lemma maps_ok_delete: "maps_ok (pre @ mp # post) \<Longrightarrow> maps_ok (pre @ post)"
  by (auto simp: maps_ok_append maps_ok_Cons)

lemma map_remove_ok:
  assumes "maps_ok (ut_maps ut)" "mp \<in> set (ut_maps ut)"
  shows "maps_ok (ut_maps (uthread_map_remove mp ut))" "set (ut_maps (uthread_map_remove mp ut)) = set (ut_maps ut) - {mp}"
proof -
  obtain pre post where s: "ut_maps ut = pre @ mp # post" "takeWhile (\<lambda>m. m \<noteq> mp) (ut_maps ut) = pre"
      "tl (dropWhile (\<lambda>m. m \<noteq> mp) (ut_maps ut)) = post"
    using map_remove_split [OF assms(2)] by blast
  then have r: "ut_maps (uthread_map_remove mp ut) = pre @ post" by (simp add: uthread_map_remove_def Let_def)
  show "maps_ok (ut_maps (uthread_map_remove mp ut))"
    using assms(1) s(1) by (simp add: r maps_ok_delete)
  have "\<not> apart mp mp" using assms mp_ok_pos [of mp] by (auto simp: maps_ok_def apart_def)
  then have "mp \<notin> set (pre @ post)"
    using assms(1) s(1) by (auto simp: maps_ok_append maps_ok_Cons)
  then show "set (ut_maps (uthread_map_remove mp ut)) = set (ut_maps ut) - {mp}"
    unfolding r s(1) by auto
qed

text \<open>What an allocation does to the thread.\<close>

definition new_map :: "u64 \<Rightarrow> u64 list \<Rightarrow> u64 \<Rightarrow> u32 \<Rightarrow> u32 \<Rightarrow> uthread_map" where
  "new_map vaddr pfns sz flags align = \<lparr>um_vaddr = vaddr, um_size = sz, um_flags = flags, um_align = align,
     um_pfn_list = take (frames sz flags) pfns\<rparr>"

lemma new_map_simps [simp]:
  "um_vaddr (new_map v p s f a) = v" "um_size (new_map v p s f a) = s" "um_flags (new_map v p s f a) = f"
  by (simp_all add: new_map_def)

lemma malloc_ok_frame [simp]:
  "ut_maps (snd (malloc_ok ut)) = ut_maps ut" "ut_ns_va_bottom (snd (malloc_ok ut)) = ut_ns_va_bottom ut"
  "ut_start_stack (snd (malloc_ok ut)) = ut_start_stack ut"
  by (simp_all add: malloc_ok_def split: list.split)

lemma arch_result_frame [simp]: "ut_maps (snd (arch_result ut)) = ut_maps ut"
  by (simp add: arch_result_def split: list.split)

lemma new_map_ok: "\<not> v + s \<le> v \<Longrightarrow> s AND (0x1000 - 1) = 0 \<Longrightarrow> frames s f \<le> length p \<Longrightarrow> mp_ok (new_map v p s f a)"
  unfolding mp_ok_def new_map_simps by (simp add: word_le_plus mend_def) (simp add: new_map_def)

lemma uthread_map_alloc_ok:
  assumes "maps_ok (ut_maps ut)" "uthread_map_alloc v pfns s f a ut = Some (r, ut')"
  shows "if r = NO_ERROR then maps_ok (ut_maps ut') \<and> mp_ok (new_map v pfns s f a) \<and>
      (\<forall>m\<in>set (ut_maps ut). \<not> overlap m (new_map v pfns s f a)) \<and>
      (\<exists>pre post. ut_maps ut = pre @ post \<and> ut_maps ut' = pre @ new_map v pfns s f a # post)
    else ut_maps ut' = ut_maps ut \<and> (r = ERR_INVALID_ARGS \<and> (v + s \<le> v \<or> (\<exists>m\<in>set (ut_maps ut). overlap m (new_map v pfns s f a))) \<or>
      r = ERR_NO_MEMORY)"
proof (cases "v + s \<le> v \<or> \<not> fst (malloc_ok ut)")
  case True
  then show ?thesis using assms(2)
    by (auto simp: uthread_map_alloc_def bind_Some_iff err_simps split_beta Let_def split: if_splits)
next
  case False
  let ?mp = "new_map v pfns s f a"
  have checked: "s AND (0x1000 - 1) = 0" "frames s f \<le> length pfns"
    using assms(2) False unfolding uthread_map_alloc_def Let_def frames_def
    by (auto simp: bind_Some_iff split_beta split: if_splits)
  have "case map_insert ?mp (ut_maps ut) of
      None \<Rightarrow> r = ERR_INVALID_ARGS \<and> ut_maps ut' = ut_maps ut
    | Some maps \<Rightarrow> r = NO_ERROR \<and> ut_maps ut' = maps"
    using assms(2) False unfolding uthread_map_alloc_def new_map_def Let_def frames_def
    by (auto simp: bind_Some_iff split_beta split: option.splits if_splits)
  moreover have "mp_ok ?mp" using False checked by (intro new_map_ok) auto
  ultimately show ?thesis
    using map_insert_ok [OF assms(1), of ?mp] by (auto simp: err_simps split: option.splits)
qed


section \<open>The life of an address space\<close>

lemma uthread_map_alloc_maps:
  "maps_ok (ut_maps ut) \<Longrightarrow> uthread_map_alloc v pfns s f a ut = Some (r, ut') \<Longrightarrow> maps_ok (ut_maps ut')"
  by (frule (1) uthread_map_alloc_ok) (simp split: if_splits)

lemma uthread_map_alloc_maps_of:
  "uthread_map_alloc v pfns s f a u = Some (r, ut') \<Longrightarrow> ut_maps u = ut_maps ut \<Longrightarrow> maps_ok (ut_maps ut) \<Longrightarrow>
    maps_ok (ut_maps ut')"
  using uthread_map_alloc_maps [of u] by simp

lemma arch_result_Pair: "arch_result ut = (e, u) \<Longrightarrow> ut_maps u = ut_maps ut"
  using arch_result_frame [of ut] by simp

lemma malloc_ok_Pair: "malloc_ok ut = (ok, u) \<Longrightarrow> ut_maps u = ut_maps ut"
  using malloc_ok_frame(1) [of ut] by simp

lemma uthread_map_op_ok:
  assumes "maps_ok (ut_maps ut)" "uthread_map_op v pfns s f a ut = Some (r, v', ut')"
  shows "maps_ok (ut_maps ut')"
  using assms
  by (auto simp: uthread_map_op_def bind_Some_iff Let_def dest: uthread_map_alloc_maps
      dest!: arch_result_Pair split: option.splits if_splits prod.splits)

lemma unmap_free_loop_maps: "unmap_free_loop i n mp ut = Some ut' \<Longrightarrow> ut_maps ut' = ut_maps ut"
  by (induction n arbitrary: i ut) (auto simp: bind_Some_iff Let_def split: if_splits)

lemma uthread_map_find_Some:
  "uthread_map_find ut v s = Some mp \<Longrightarrow> mp \<in> set (ut_maps ut) \<and> map_covers v s mp \<and> v \<le> v + s"
  by (auto simp: uthread_map_find_def find_Some_iff not_less split: if_splits)

lemma uthread_unmap_cases:
  assumes "uthread_unmap v s ut = Some (r, ut')"
  shows "ut_maps ut' = ut_maps ut \<or>
    (\<exists>mp u. uthread_map_find ut v s = Some mp \<and> ut_maps u = ut_maps ut \<and> ut' = uthread_map_remove mp u)"
proof (cases "v = 0 \<or> uthread_map_find ut v s = None")
  case True
  then show ?thesis using assms by (cases "v = 0") (simp_all add: uthread_unmap_def)
next
  case False
  then obtain mp where mp: "v \<noteq> 0" "uthread_map_find ut v s = Some mp" by auto
  obtain e u where u: "arch_result ut = (e, u)" by fastforce
  note frame = arch_result_Pair [OF u]
  show ?thesis
  proof (cases "e = 0")
    case True
    then obtain w where "ut_maps w = ut_maps u" "ut' = uthread_map_remove mp w"
      using assms mp u by (auto simp: uthread_unmap_def bind_Some_iff dest!: unmap_free_loop_maps split: if_splits)
    then show ?thesis using mp frame by auto
  next
    case False
    then show ?thesis using assms mp u frame by (simp add: uthread_unmap_def)
  qed
qed

lemma uthread_unmap_success:
  assumes "uthread_unmap v s ut = Some (NO_ERROR, ut')"
  shows "\<exists>mp u. uthread_map_find ut v s = Some mp \<and> ut_maps u = ut_maps ut \<and> ut' = uthread_map_remove mp u"
proof -
  obtain mp where mp: "v \<noteq> 0" "uthread_map_find ut v s = Some mp"
    using assms by (auto simp: uthread_unmap_def err_simps split: if_splits option.splits)
  obtain e u where u: "arch_result ut = (e, u)" by fastforce
  obtain w where "ut_maps w = ut_maps u" "ut' = uthread_map_remove mp w"
    using assms mp u by (auto simp: uthread_unmap_def bind_Some_iff err_simps dest!: unmap_free_loop_maps split: if_splits)
  then show ?thesis using mp arch_result_Pair [OF u] by auto
qed

lemma uthread_unmap_ok:
  assumes "maps_ok (ut_maps ut)" "uthread_unmap v s ut = Some (r, ut')"
  shows "maps_ok (ut_maps ut')"
  using uthread_unmap_cases [OF assms(2)] assms(1) map_remove_ok(1) uthread_map_find_Some by metis

lemma uthread_pmm_ok:
  assumes "maps_ok (ut_maps ut)" "uthread_pmm_alloc_and_map pages s f a ut = Some (r, v, ut')"
  shows "maps_ok (ut_maps ut')"
proof -
  have "maps_ok (ut_maps (snd (malloc_ok ut)))" using assms(1) by simp
  note step = uthread_map_op_ok [OF this]
  show ?thesis
    using assms step
    by (auto simp: uthread_pmm_alloc_and_map_def Let_def split_beta bind_Some_iff split: if_splits)
qed

text \<open>
  The life of a thread's address space: it is created with its stack, and any mappings are made and
  taken away, whatever the allocator and the page-table code answer.
\<close>

inductive uspace :: "uthread \<Rightarrow> bool" where
  create: "uthread_create entry hi sz stack ut0 = Some (Some ut) \<Longrightarrow> uspace ut"
| env: "uspace ut \<Longrightarrow> uspace (ut\<lparr>ut_malloc := ms, ut_arch := rs\<rparr>)"
| map_op: "uspace ut \<Longrightarrow> uthread_map_op v pfns sz f a ut = Some (r, v', ut') \<Longrightarrow> uspace ut'"
| alloc: "uspace ut \<Longrightarrow> uthread_pmm_alloc_and_map pages sz f a ut = Some (r, v', ut') \<Longrightarrow>
    uspace ut'"
| unmap: "uspace ut \<Longrightarrow> uthread_unmap v sz ut = Some (r, ut') \<Longrightarrow> uspace ut'"
| revoke: "uspace ut \<Longrightarrow> uthread_revoke_pages v sz ut = Some (r, ut') \<Longrightarrow> uspace ut'"
| grant: "uspace ut \<Longrightarrow> uthread_grant_pages src page_list vs sz f tr v0 ut = Some (r, v', ut') \<Longrightarrow> uspace ut'"

lemma uthread_grant_ok:
  assumes "maps_ok (ut_maps ut)" "uthread_grant_pages src page_list vs sz f tr v0 ut = Some (r, v', ut')"
  shows "maps_ok (ut_maps ut')"
  using assms
  by (auto simp: uthread_grant_pages_def bind_Some_iff Let_def dest: uthread_map_alloc_maps_of
      dest!: malloc_ok_Pair split: option.splits if_splits prod.splits)

lemma uthread_create_ok:
  assumes "uthread_create entry hi sz stack ut0 = Some (Some ut)"
  shows "maps_ok (ut_maps ut)"
proof -
  define u where "u = snd (malloc_ok ((snd (malloc_ok ut0))\<lparr>ut_maps := [], ut_entry := entry,
      ut_ns_va_bottom := MAX_USR_VA, ut_start_stack := 0\<rparr>))"
  have "maps_ok (ut_maps u)" by (simp add: u_def)
  from uthread_map_op_ok [OF this] assms show ?thesis
    by (auto simp: uthread_create_def uthread_map_contig_def Let_def split_beta bind_Some_iff u_def split: if_splits)
qed

lemma uspace_maps_ok: "uspace ut \<Longrightarrow> maps_ok (ut_maps ut)"
proof (induction rule: uspace.induct)
  case (create entry hi sz stack ut0 ut)
  then show ?case by (rule uthread_create_ok)
next
  case (env ut rs ms)
  then show ?case by simp
next
  case (map_op ut v pfns sz f a r v' ut')
  then show ?case using uthread_map_op_ok by blast
next
  case (alloc ut pages sz f a r v' ut')
  then show ?case using uthread_pmm_ok by blast
next
  case (unmap ut v sz r ut')
  then show ?case using uthread_unmap_ok by blast
next
  case (revoke ut v sz r ut')
  then show ?case
    using uthread_unmap_ok by (auto simp: uthread_revoke_pages_def split: if_splits)
next
  case (grant ut src page_list vs sz f tr v0 r v' ut')
  then show ?case using uthread_grant_ok by blast
qed

section \<open>Translation\<close>

lemma covers_nat: "mp_ok m \<Longrightarrow> map_covers a 0 m \<longleftrightarrow> unat (um_vaddr m) \<le> unat a \<and> unat a < mend m"
  using mend_word [of m] by (auto simp: map_covers_def word_le_nat_alt word_less_nat_alt)

lemma covers_unique:
  assumes "maps_ok ms" "m \<in> set ms" "n \<in> set ms" "map_covers a 0 m" "map_covers a 0 n"
  shows "m = n"
  using assms
proof (induction ms)
  case (Cons x ms)
  have ok: "mp_ok m" "mp_ok n" using Cons.prems by (auto simp: maps_ok_def)
  show ?case
  proof (cases "m = x \<or> n = x")
    case True
    then have "m = n \<or> apart m n \<or> apart n m" using Cons.prems by (auto simp: maps_ok_Cons)
    then show ?thesis using Cons.prems ok by (auto simp: covers_nat apart_def)
  next
    case False
    then show ?thesis using Cons by (auto simp: maps_ok_Cons)
  qed
qed simp

lemma find_covers:
  assumes "maps_ok ms" "m \<in> set ms" "map_covers a 0 m"
  shows "find (map_covers a 0) ms = Some m"
proof (cases "find (map_covers a 0) ms")
  case None
  then show ?thesis using assms by (auto simp: find_None_iff)
next
  case (Some n)
  then have "n \<in> set ms" "map_covers a 0 n" by (auto simp: find_Some_iff)
  then show ?thesis using covers_unique [OF assms(1,2) _ assms(3)] Some by simp
qed

lemma find_skip: "\<not> P x \<Longrightarrow> find P (xs @ x # ys) = find P (xs @ ys)"
  by (induction xs) auto

text \<open>Where an address of a mapping leads.\<close>

definition translate :: "uthread_map \<Rightarrow> u64 \<Rightarrow> u64" where
  "translate m off = (if um_flags m AND UTM_PHYS_CONTIG \<noteq> 0 then hd (um_pfn_list m) + off
     else um_pfn_list m ! unat (off div 0x1000) + ((um_vaddr m + off) AND (0x1000 - 1)))"

lemma page_in_frames:
  fixes off :: u64
  assumes "mp_ok m" "unat (um_size m) < 2 ^ 44" "unat off < unat (um_size m)" "um_flags m AND UTM_PHYS_CONTIG = 0"
  shows "unat (ucast (off div 0x1000) :: u32) = unat (off div 0x1000)"
    "unat (off div 0x1000) < length (um_pfn_list m)"
proof -
  have u: "unat (ucast (x div 0x1000 :: u64) :: u32) = unat x div 0x1000" if "unat x < 2 ^ 44" for x :: u64
  proof -
    have "unat x div 0x1000 < 2 ^ 32" using that by simp
    then show ?thesis by (simp add: unsigned_ucast_eq take_bit_eq_mod unat_div)
  qed
  have "um_size m AND mask 12 = 0" using assms(1) by (simp add: mp_ok_def mask_eq_exp_minus_1)
  then have "2 ^ 12 dvd unat (um_size m)" using and_mask_dvd_nat [of 12 "um_size m"] by simp
  then have "unat off div 0x1000 < unat (um_size m) div 0x1000"
    using assms(3) by (auto elim!: dvdE simp: less_mult_imp_div_less mult.commute)
  moreover have "length (um_pfn_list m) = unat (um_size m) div 0x1000"
    using assms(1,2,4) by (simp add: mp_ok_def frames_def u)
  ultimately show "unat (ucast (off div 0x1000) :: u32) = unat (off div 0x1000)"
      "unat (off div 0x1000) < length (um_pfn_list m)"
    using assms(2,3) by (simp_all add: u unat_div)
qed

lemma virt_to_phys_in:
  assumes "maps_ok (ut_maps ut)" "m \<in> set (ut_maps ut)" "unat (um_size m) < 2 ^ 44" "unat off < unat (um_size m)"
  shows "uthread_virt_to_phys ut (um_vaddr m + off) = Some (NO_ERROR, translate m off)"
proof -
  have m: "mp_ok m" using assms(1,2) by (auto simp: maps_ok_def)
  have "unat (um_vaddr m + off) = unat (um_vaddr m) + unat off"
    using m assms(4) by (simp add: unat_plus64 mp_ok_def mend_def)
  then have "map_covers (um_vaddr m + off) 0 m" using m assms(4) by (simp add: covers_nat mend_def)
  then have f: "uthread_map_find ut (um_vaddr m + off) 0 = Some m"
    using find_covers [OF assms(1,2)] by (simp add: uthread_map_find_def)
  have "um_pfn_list m \<noteq> []" if "um_flags m AND UTM_PHYS_CONTIG \<noteq> 0"
    using m that by (auto simp: mp_ok_def frames_def)
  then show ?thesis
    using f page_in_frames [OF m assms(3,4)]
    by (simp add: uthread_virt_to_phys_def translate_def Let_def)
qed

lemma virt_to_phys_out:
  "(\<And>m. m \<in> set (ut_maps ut) \<Longrightarrow> \<not> map_covers a 0 m) \<Longrightarrow> uthread_virt_to_phys ut a = Some (ERR_INVALID_ARGS, 0)"
proof -
  assume "\<And>m. m \<in> set (ut_maps ut) \<Longrightarrow> \<not> map_covers a 0 m"
  then have "uthread_map_find ut a 0 = None" by (simp add: uthread_map_find_def find_None_iff)
  then show ?thesis by (simp add: uthread_virt_to_phys_def)
qed

lemma virt_to_phys_find:
  "find (map_covers a 0) (ut_maps ut) = find (map_covers a 0) (ut_maps ut') \<Longrightarrow>
    uthread_virt_to_phys ut a = uthread_virt_to_phys ut' a"
  by (simp add: uthread_virt_to_phys_def uthread_map_find_def)

lemma uthread_map_op_inserts:
  assumes "maps_ok (ut_maps ut)" "uthread_map_op v (Some pfns) s f a ut = Some (NO_ERROR, va, ut')"
  shows "\<exists>pre post. ut_maps ut = pre @ post \<and> ut_maps ut' = pre @ new_map va pfns s f a # post \<and>
    mp_ok (new_map va pfns s f a) \<and> frames s f \<le> length pfns \<and> maps_ok (ut_maps ut')"
proof -
  define w where "w = (if f AND UTM_FIXED = 0 then uthread_find_va_space ut s f a else v)"
  obtain e u where al: "uthread_map_alloc w pfns s f a ut = Some (e, u)" "e = NO_ERROR" "va = w" "ut_maps ut' = ut_maps u"
    using assms(2) unfolding w_def
    by (auto simp: uthread_map_op_def bind_Some_iff err_simps Let_def dest!: arch_result_Pair
        split: if_splits prod.splits)
  moreover have "frames s f \<le> length pfns"
    using al(1,2) unfolding uthread_map_alloc_def Let_def frames_def
    by (auto simp: bind_Some_iff split_beta err_simps split: if_splits)
  ultimately show ?thesis using uthread_map_alloc_ok [OF assms(1) al(1)] by auto
qed

lemma take_bit_of_take_bit_64: "take_bit 64 (take_bit 12 (x :: int)) = take_bit 12 x" "take_bit 12 (take_bit 64 (x :: int)) = take_bit 12 x"
  by simp_all

text \<open>A failure that is the page-table code's: the entry was made, and stays.\<close>

lemma uthread_map_op_fails:
  assumes "maps_ok (ut_maps ut)" "uthread_map_op v (Some pfns) s f a ut = Some (r, va, ut')"
    "r \<notin> {NO_ERROR, ERR_INVALID_ARGS, ERR_NOT_VALID, ERR_NO_MEMORY}"
  shows "new_map va pfns s f a \<in> set (ut_maps ut') \<and> maps_ok (ut_maps ut') \<and> frames s f \<le> length pfns"
proof -
  define w where "w = (if f AND UTM_FIXED = 0 then uthread_find_va_space ut s f a else v)"
  obtain u where al: "uthread_map_alloc w pfns s f a ut = Some (NO_ERROR, u)" "va = w" "ut_maps ut' = ut_maps u"
    using assms(2,3) uthread_map_alloc_ok [OF assms(1)] unfolding w_def
    by (fastforce simp: uthread_map_op_def bind_Some_iff err_simps Let_def dest!: arch_result_Pair
        split: if_splits prod.splits)
  moreover have "frames s f \<le> length pfns"
    using al(1) unfolding uthread_map_alloc_def Let_def frames_def
    by (auto simp: bind_Some_iff split_beta err_simps split: if_splits)
  ultimately show ?thesis using uthread_map_alloc_ok [OF assms(1) al(1)] by auto
qed

lemma new_map_translate:
  assumes "mp_ok (new_map v pfns s f a)" "unat s < 2 ^ 44" "off < s" "f AND UTM_PHYS_CONTIG = 0 \<Longrightarrow> v AND (0x1000 - 1) = 0"
    "frames s f \<le> length pfns"
  shows "translate (new_map v pfns s f a) off = (if f AND UTM_PHYS_CONTIG \<noteq> 0 then hd pfns + off
     else pfns ! unat (off div 0x1000) + (off AND (0x1000 - 1)))"
proof (cases "f AND UTM_PHYS_CONTIG = 0")
  case True
  have "(v + off) AND mask 12 = ((v AND mask 12) + (off AND mask 12)) AND mask 12"
    unfolding take_bit_eq_mask [symmetric]
    by transfer (metis take_bit_add take_bit_of_take_bit_64)
  also have "\<dots> = off AND mask 12" using assms(4) [OF True] by (simp add: mask_eq_exp_minus_1)
  finally have o: "(v + off) AND 0xFFF = off AND 0xFFF" by (simp add: mask_eq_exp_minus_1)
  have "unat (off div 0x1000) < length (um_pfn_list (new_map v pfns s f a))"
    using page_in_frames(2) [OF assms(1)] assms(2,3) True by (simp add: word_less_nat_alt)
  then have "unat (off div 0x1000) < frames s f" by (simp add: new_map_def)
  then show ?thesis using True o by (simp add: translate_def) (simp add: new_map_def)
next
  case False
  then have "um_pfn_list (new_map v pfns s f a) = [hd pfns]"
    using assms(5) by (cases pfns) (simp_all add: new_map_def frames_def)
  then show ?thesis using False by (simp add: translate_def)
qed

section \<open>First fit\<close>

text \<open>\<open>fits\<close>: the range from \<open>a\<close> is free of all mappings of a list.\<close>

definition fits :: "nat \<Rightarrow> nat \<Rightarrow> uthread_map list \<Rightarrow> bool" where
  "fits a n ms \<longleftrightarrow> (\<forall>m\<in>set ms. a + n \<le> unat (um_vaddr m) \<or> mend m \<le> a)"

text \<open>Rounding up to a power of two, below 4 GiB.\<close>

definition aligned :: "nat \<Rightarrow> nat \<Rightarrow> bool" where
  "aligned k a \<longleftrightarrow> a mod 2 ^ k = 0"

lemma and_mask_div: "unat (x AND ucast (NOT (mask k :: u32)) :: u64) = (unat x mod 2 ^ 32) div 2 ^ k * 2 ^ k" if "k \<le> 32"
proof -
  have "(x AND ucast (NOT (mask k :: u32)) :: u64) = push_bit k (drop_bit k (take_bit 32 x))"
    by (rule bit_word_eqI) (auto simp: bit_simps that)
  moreover have "(unat x mod 2 ^ 32) div 2 ^ k * 2 ^ k < 2 ^ 64"
    by (rule le_less_trans [OF div_times_less_eq_dividend], rule less_trans [of _ "2 ^ 32"]) simp_all
  then have "take_bit 64 ((unat x mod 2 ^ 32) div 2 ^ k * 2 ^ k) = (unat x mod 2 ^ 32) div 2 ^ k * 2 ^ k"
    by (simp add: take_bit_eq_mod)
  then have "unat (push_bit k (drop_bit k (take_bit 32 x)) :: u64) = (unat x mod 2 ^ 32) div 2 ^ k * 2 ^ k"
    unfolding unsigned_push_bit_eq unsigned_drop_bit_eq unsigned_take_bit_eq
    by (simp add: take_bit_eq_mod push_bit_eq_mult drop_bit_eq_div)
  ultimately show ?thesis by simp
qed

lemma ROUNDUP32_nat:
  assumes "k < 32" "unat a + 2 ^ k - 1 < 2 ^ 32"
  shows "unat (ROUNDUP32 a (2 ^ k)) = (unat a + 2 ^ k - 1) div 2 ^ k * 2 ^ k"
proof -
  have m: "(2 ^ k - 1 :: u32) = mask k" by (simp add: mask_eq_exp_minus_1)
  have "ucast (mask k :: u32) = (mask k :: u64)"
    by (rule bit_word_eqI) (use assms(1) in \<open>auto simp: bit_simps\<close>)
  moreover have "unat (mask k :: u64) = mask k"
    unfolding take_bit_minus_one_eq_mask [symmetric] unsigned_take_bit_eq unsigned_minus_1_eq_mask
    using assms(1) by (simp add: take_bit_of_mask min_def take_bit_minus_one_eq_mask)
  ultimately have "unat (ucast (mask k :: u32) :: u64) = 2 ^ k - 1"
    by (simp add: mask_eq_exp_minus_1)
  then have "unat (a + ucast (mask k :: u32)) = unat a + 2 ^ k - 1"
    using assms(2) by (simp add: unat_plus64)
  then show ?thesis
    unfolding ROUNDUP32_def m using assms by (subst and_mask_div) simp_all
qed

text \<open>
  The secure search.  \<open>free_at\<close>: an aligned range above the stack, below \<^verbatim>\<open>ns_va_bottom\<close> and clear of all
  mappings.
\<close>

definition free_at :: "uthread \<Rightarrow> nat \<Rightarrow> nat \<Rightarrow> nat \<Rightarrow> bool" where
  "free_at ut n k a \<longleftrightarrow> unat (ut_start_stack ut) \<le> a \<and> a mod 2 ^ k = 0 \<and> a + n \<le> unat (ut_ns_va_bottom ut) \<and>
     (\<forall>m\<in>set (ut_maps ut). a + n \<le> unat (um_vaddr m) \<or> unat (um_vaddr m) + unat (um_size m) \<le> a)"

definition roundup :: "nat \<Rightarrow> nat \<Rightarrow> nat" where
  "roundup k n = (n + 2 ^ k - 1) div 2 ^ k * 2 ^ k"

lemma roundup_aligned: "roundup k n mod 2 ^ k = 0"
  by (simp add: roundup_def)

lemma roundup_ge: "n \<le> roundup k n"
proof -
  have "n + 2 ^ k - 1 < ((n + 2 ^ k - 1) div 2 ^ k + 1) * 2 ^ k"
    by (metis Suc_eq_plus1 add.commute dividend_less_times_div mult.commute mult_Suc_right zero_less_numeral zero_less_power)
  then show ?thesis by (simp add: roundup_def)
qed

lemma roundup_least: "a mod 2 ^ k = 0 \<Longrightarrow> n \<le> a \<Longrightarrow> roundup k n \<le> a"
proof -
  assume "a mod 2 ^ k = 0" "n \<le> a"
  then obtain q where a: "a = q * 2 ^ k" by (auto simp: mod_eq_0_iff_dvd elim!: dvdE simp: mult.commute)
  have "n + 2 ^ k - 1 < (q + 1) * 2 ^ k" using \<open>n \<le> a\<close> a zero_less_power [of "2 :: nat" k]
    by (simp only: add_mult_distrib mult_1) linarith
  then have "(n + 2 ^ k - 1) div 2 ^ k < q + 1" by (rule less_mult_imp_div_less)
  then show ?thesis unfolding roundup_def a by simp
qed

lemma roundup_le: "n \<le> 2 ^ 32 \<Longrightarrow> k \<le> 32 \<Longrightarrow> roundup k n \<le> 2 ^ 32"
proof (rule roundup_least)
  assume "k \<le> 32"
  then have "(2 :: nat) ^ k dvd 2 ^ 32" by (rule le_imp_power_dvd)
  then show "(2 :: nat) ^ 32 mod 2 ^ k = 0" by (rule dvd_imp_mod_0)
qed

lemma find_sec_loop_first:
  assumes "maps_ok ms" "\<forall>m\<in>set ms. mend m + 2 ^ k \<le> 2 ^ 32" "k < 32" "unat start \<le> 2 ^ 32"
    "unat sz < 2 ^ 63" "unat start mod 2 ^ k = 0"
  shows "unat start \<le> unat (find_sec_loop sz (2 ^ k) ms start) \<and>
    unat (find_sec_loop sz (2 ^ k) ms start) \<le> 2 ^ 32 \<and>
    unat (find_sec_loop sz (2 ^ k) ms start) mod 2 ^ k = 0 \<and>
    fits (unat (find_sec_loop sz (2 ^ k) ms start)) (unat sz) ms \<and>
    (\<forall>a. unat start \<le> a \<longrightarrow> a mod 2 ^ k = 0 \<longrightarrow> fits a (unat sz) ms \<longrightarrow> unat (find_sec_loop sz (2 ^ k) ms start) \<le> a)"
  using assms
proof (induction ms arbitrary: start)
  case Nil
  then show ?case by (simp add: fits_def)
next
  case (Cons m ms)
  have m: "mp_ok m" and ap: "\<forall>n\<in>set ms. apart m n" and ms: "maps_ok ms" "\<forall>n\<in>set ms. mend n + 2 ^ k \<le> 2 ^ 32"
    and lim: "mend m + 2 ^ k \<le> 2 ^ 32"
    using Cons.prems by (simp_all add: maps_ok_Cons)
  have "unat start + unat sz < 2 ^ 64" using Cons.prems(4,5) by simp
  then have sum: "start + sz \<le> um_vaddr m \<longleftrightarrow> unat start + unat sz \<le> unat (um_vaddr m)"
    by (simp add: word_le_nat_alt unat_plus64)
  show ?case
  proof (cases "start + sz \<le> um_vaddr m")
    case True
    then have "fits (unat start) (unat sz) (m # ms)"
      using ap sum mp_ok_pos [OF m] by (fastforce simp: fits_def apart_def)
    then show ?thesis using True Cons.prems(4,6) by simp
  next
    case False
    define s' where "s' = max start (ROUNDUP32 (um_vaddr m + um_size m) (2 ^ k))"
    have "unat (ROUNDUP32 (um_vaddr m + um_size m) (2 ^ k)) = roundup k (mend m)"
      using lim Cons.prems(3) mend_word [OF m] by (simp add: ROUNDUP32_nat roundup_def)
    then have s': "unat s' = max (unat start) (roundup k (mend m))"
      unfolding s'_def by (auto simp: max_def word_le_nat_alt)
    have "unat s' \<le> 2 ^ 32" "unat s' mod 2 ^ k = 0"
      using Cons.prems(3,4,6) lim roundup_le [of "mend m" k] roundup_aligned [of k "mend m"] by (auto simp: s' max_def)
    note IH = Cons.IH [OF ms Cons.prems(3) this(1) Cons.prems(5) this(2)]
    have step: "find_sec_loop sz (2 ^ k) (m # ms) start = find_sec_loop sz (2 ^ k) ms s'"
      using False by (simp add: s'_def)
    have low: "unat start \<le> unat s'" "mend m \<le> unat s'" using roundup_ge [of "mend m" k] by (auto simp: s')
    have least: "unat s' \<le> a" if "unat start \<le> a" "a mod 2 ^ k = 0" "fits a (unat sz) (m # ms)" for a
      using that False sum roundup_least [OF that(2)] by (auto simp: fits_def s')
    show ?thesis unfolding step using IH low least by (auto simp: fits_def)
  qed
qed

section \<open>Properties of the address space\<close>

text \<open>A thread with its stack and one page of its own.\<close>

definition as_env :: uthread where
  "as_env = \<lparr>ut_id = 1, ut_start_stack = 0, ut_entry = 0, ut_ns_va_bottom = 0, ut_maps = [], ut_malloc = [],
     ut_arch = [], ut_is_page = (\<lambda>a. True), ut_freed = []\<rparr>"

definition as_ut :: uthread where
  "as_ut = (case uthread_create 0x8000 0x1000000 0x1000 0x80000000 as_env of
     Some (Some ut) \<Rightarrow> ut | _ \<Rightarrow> as_env)"

definition as_ut2 :: uthread where
  "as_ut2 = (case uthread_map_op 0 (Some [0x90000000, 0xA0000000]) 0x2000 (UTM_R OR UTM_W) 0x1000 as_ut of
     Some (_, _, ut) \<Rightarrow> ut | None \<Rightarrow> as_env)"

lemma as_ut_created: "uthread_create 0x8000 0x1000000 0x1000 0x80000000 as_env = Some (Some as_ut)"
  unfolding as_ut_def by code_simp

lemma as_ut_reached: "uspace as_ut"
  using as_ut_created by (rule uspace.create)

lemma as_ut2_step: "uthread_map_op 0 (Some [0x90000000, 0xA0000000]) 0x2000 (UTM_R OR UTM_W) 0x1000 as_ut = Some (0, 0x1000000, as_ut2)"
  unfolding as_ut2_def as_ut_def by code_simp

lemma as_ut2_reached: "uspace as_ut2"
  by (rule uspace.map_op [OF as_ut_reached as_ut2_step])

text \<open>
  Property C20. In every address space a thread can reach, from its creation through any mappings,
  allocations, grants, unmappings and revocations and whatever the allocators and the page-table code answer,
  each mapping is a non-empty range that does not wrap, has the size of a whole number of pages and keeps
  exactly the frames of its size (one when it is contiguous); and it lies entirely below every later
  mapping of the list, so no two mappings overlap.  The start of a mapping at a fixed address need not be the start of a
  page: the code does not check it.
\<close>

theorem uspace_maps_disjoint:
  assumes "uspace ut"
  shows "(\<forall>m\<in>set (ut_maps ut). um_vaddr m < um_vaddr m + um_size m \<and> um_size m AND 0xFFF = 0 \<and>
      length (um_pfn_list m) = (if um_flags m AND UTM_PHYS_CONTIG \<noteq> 0 then 1
        else unat (ucast (um_size m div 0x1000) :: u32))) \<and>
    (\<forall>i j. i < j \<and> j < length (ut_maps ut) \<longrightarrow>
      unat (um_vaddr (ut_maps ut ! i)) + unat (um_size (ut_maps ut ! i)) \<le> unat (um_vaddr (ut_maps ut ! j)))"
proof -
  have ok: "maps_ok (ut_maps ut)" by (rule uspace_maps_ok [OF assms])
  have "apart (ut_maps ut ! i) (ut_maps ut ! j)" if "i < j" "j < length (ut_maps ut)" for i j
    using ok that by (auto simp: maps_ok_def intro: sorted_wrt_nth_less)
  moreover have "mp_ok m" if "m \<in> set (ut_maps ut)" for m using ok that by (auto simp: maps_ok_def)
  ultimately show ?thesis
    using mend_word mp_ok_pos by (fastforce simp: apart_def mend_def mp_ok_def frames_def word_less_nat_alt)
qed

theorem uspace_maps_disjoint_witness:
  "length (ut_maps as_ut2) = 2 \<and> um_vaddr (ut_maps as_ut2 ! 1) = 0x1000000 \<and>
    unat (um_vaddr (ut_maps as_ut2 ! 0)) + unat (um_size (ut_maps as_ut2 ! 0)) \<le> unat (um_vaddr (ut_maps as_ut2 ! 1))"
proof -
  have a: "length (ut_maps as_ut2) = 2" unfolding as_ut2_def as_ut_def by code_simp
  have b: "um_vaddr (ut_maps as_ut2 ! 1) = 0x1000000" unfolding as_ut2_def as_ut_def by code_simp
  show ?thesis using a b uspace_maps_disjoint [OF as_ut2_reached, THEN conjunct2, rule_format, of 0 1] by simp
qed

text \<open>
  Property C21. Mapping and translating are inverse: when \<^verbatim>\<open>uthread_map\<close> succeeds in a reachable address
  space, every address of the new range translates to the frame given for it plus its offset (the
  one frame for a contiguous mapping), and every address outside the range translates as before.  The
  size is below 16 TiB, since the page number is kept in 32 bits, and the address chosen is the start
  of a page unless the mapping is contiguous.
\<close>

theorem map_then_translate:
  assumes "uspace ut" "uthread_map_op v (Some pfns) sz flags align ut = Some (NO_ERROR, va, ut')"
    "sz < 2 ^ 44" "flags AND UTM_PHYS_CONTIG = 0 \<Longrightarrow> va AND 0xFFF = 0"
  shows "(\<forall>off < sz. uthread_virt_to_phys ut' (va + off) = Some (NO_ERROR,
        if flags AND UTM_PHYS_CONTIG \<noteq> 0 then hd pfns + off
        else pfns ! unat (off div 0x1000) + (off AND 0xFFF))) \<and>
    (\<forall>a. \<not> (va \<le> a \<and> a < va + sz) \<longrightarrow> uthread_virt_to_phys ut' a = uthread_virt_to_phys ut a)"
proof -
  let ?m = "new_map va pfns sz flags align"
  obtain pre post where m: "ut_maps ut = pre @ post" "ut_maps ut' = pre @ ?m # post" "mp_ok ?m"
      "frames sz flags \<le> length pfns" "maps_ok (ut_maps ut')"
    using uthread_map_op_inserts [OF uspace_maps_ok [OF assms(1)] assms(2)] by blast
  have sz: "unat sz < 2 ^ 44" using assms(3) by (simp add: word_less_nat_alt)
  have "uthread_virt_to_phys ut' (va + off) = Some (NO_ERROR, translate ?m off)" if "off < sz" for off
    using virt_to_phys_in [OF m(5), of ?m off] sz that m(2) by (simp add: word_less_nat_alt)
  moreover have "translate ?m off = (if flags AND UTM_PHYS_CONTIG \<noteq> 0 then hd pfns + off
      else pfns ! unat (off div 0x1000) + (off AND (0x1000 - 1)))" if "off < sz" for off
    using new_map_translate [OF m(3) sz that _ m(4)] assms(4) by simp
  moreover have "uthread_virt_to_phys ut' a = uthread_virt_to_phys ut a" if "\<not> (va \<le> a \<and> a < va + sz)" for a
    using that by (intro virt_to_phys_find) (auto simp: m(1,2) map_covers_def intro: find_skip)
  ultimately show ?thesis by simp
qed

theorem map_then_translate_witness:
  "uthread_virt_to_phys as_ut2 0x1001234 = Some (NO_ERROR, 0xA0000234)"
proof -
  have "\<forall>off < 0x2000. uthread_virt_to_phys as_ut2 (0x1000000 + off) =
      Some (NO_ERROR, [0x90000000, 0xA0000000] ! unat (off div 0x1000) + (off AND 0xFFF))"
    using map_then_translate [OF as_ut_reached as_ut2_step [folded NO_ERROR_def]]
    by (simp add: UTM_R_def UTM_W_def UTM_PHYS_CONTIG_def)
  from this [rule_format, of "0x1234"] show ?thesis by simp
qed

text \<open>
  Unmapping takes away exactly one mapping: when \<^verbatim>\<open>uthread_unmap\<close> succeeds in a reachable
  address space, the range it was given lay inside one mapping, afterwards no address of that mapping
  translates, and every other address translates as before.
\<close>

theorem unmap_removes_mapping:
  assumes "uspace ut" "uthread_unmap v sz ut = Some (NO_ERROR, ut')"
  shows "\<exists>mp\<in>set (ut_maps ut). um_vaddr mp \<le> v \<and> v + sz \<le> um_vaddr mp + um_size mp \<and>
    (\<forall>a. uthread_virt_to_phys ut' a = (if um_vaddr mp \<le> a \<and> a < um_vaddr mp + um_size mp
       then Some (ERR_INVALID_ARGS, 0) else uthread_virt_to_phys ut a))"
proof -
  have ok: "maps_ok (ut_maps ut)" by (rule uspace_maps_ok [OF assms(1)])
  obtain mp u where mp: "uthread_map_find ut v sz = Some mp" "ut_maps u = ut_maps ut" "ut' = uthread_map_remove mp u"
    using uthread_unmap_success [OF assms(2)] by blast
  then have in_maps: "mp \<in> set (ut_maps ut)" "map_covers v sz mp" using uthread_map_find_Some by blast+
  obtain pre post where s: "ut_maps ut = pre @ mp # post" "ut_maps ut' = pre @ post"
    using map_remove_split [OF in_maps(1)] mp(2,3) by (auto simp: uthread_map_remove_def Let_def)
  have set': "set (ut_maps ut') = set (ut_maps ut) - {mp}"
    using map_remove_ok(2) [of u mp] ok in_maps(1) mp(2,3) by simp
  have gone: "uthread_virt_to_phys ut' a = Some (ERR_INVALID_ARGS, 0)" if "map_covers a 0 mp" for a
    using covers_unique [OF ok in_maps(1)] that by (intro virt_to_phys_out) (auto simp: set')
  have kept: "uthread_virt_to_phys ut' a = uthread_virt_to_phys ut a" if "\<not> map_covers a 0 mp" for a
    using that by (intro virt_to_phys_find) (simp add: s find_skip)
  have "map_covers a 0 mp \<longleftrightarrow> um_vaddr mp \<le> a \<and> a < um_vaddr mp + um_size mp" for a
    by (auto simp: map_covers_def)
  then show ?thesis using gone kept in_maps by (intro bexI [of _ mp]) (auto simp: map_covers_def)
qed

theorem unmap_removes_mapping_witness:
  "\<exists>mp\<in>set (ut_maps as_ut2). um_vaddr mp \<le> 0x1000000 \<and> 0x1000000 + 0x2000 \<le> um_vaddr mp + um_size mp"
proof -
  obtain ut' where "uthread_unmap 0x1000000 0x2000 as_ut2 = Some (NO_ERROR, ut')"
  proof -
    have "map_option fst (uthread_unmap 0x1000000 0x2000 as_ut2) = Some NO_ERROR"
      unfolding as_ut2_def as_ut_def by code_simp
    then show ?thesis using that by (cases "uthread_unmap 0x1000000 0x2000 as_ut2") auto
  qed
  from unmap_removes_mapping [OF as_ut2_reached this] show ?thesis by blast
qed

text \<open>
  First fit: in a reachable address space whose mappings end below 4 GiB, the search for
  room for memory of the secure world returns the lowest aligned address above the stack whose range
  is clear of all mappings and ends below \<^verbatim>\<open>ns_va_bottom\<close>, and 0 exactly when there is none.
  (\<^verbatim>\<open>ROUNDUP\<close> with a 32-bit alignment cuts addresses to 32 bits, hence the bound.)
\<close>

theorem find_va_space_first_fit:
  assumes "uspace ut" "k < 32" "unat (ut_start_stack ut) + 2 ^ k \<le> 2 ^ 32" "ut_start_stack ut \<noteq> 0" "sz < 2 ^ 63"
    "\<forall>m\<in>set (ut_maps ut). unat (um_vaddr m) + unat (um_size m) + 2 ^ k \<le> 2 ^ 32" "flags AND UTM_NS_MEM = 0"
  shows "if \<exists>a. free_at ut (unat sz) k a
    then unat (uthread_find_va_space ut sz flags (2 ^ k)) = (LEAST a. free_at ut (unat sz) k a)
    else uthread_find_va_space ut sz flags (2 ^ k) = 0"
proof -
  let ?start = "ROUNDUP32 (ut_start_stack ut) (2 ^ k)"
  define r where "r = find_sec_loop sz (2 ^ k) (ut_maps ut) ?start"
  have start: "unat ?start = roundup k (unat (ut_start_stack ut))"
    using assms(2,3) by (simp add: ROUNDUP32_nat roundup_def)
  have sz: "unat sz < 2 ^ 63" using assms(5) by (simp add: word_less_nat_alt)
  have "unat ?start \<le> 2 ^ 32" "unat ?start mod 2 ^ k = 0"
    using roundup_le [of "unat (ut_start_stack ut)" k] assms(2,3) roundup_aligned by (simp_all add: start)
  from find_sec_loop_first [OF uspace_maps_ok [OF assms(1)] _ assms(2) this(1) sz this(2)] assms(6)
  have r: "unat ?start \<le> unat r" "unat r \<le> 2 ^ 32" "unat r mod 2 ^ k = 0" "fits (unat r) (unat sz) (ut_maps ut)"
    and least: "\<And>a. unat ?start \<le> a \<Longrightarrow> a mod 2 ^ k = 0 \<Longrightarrow> fits a (unat sz) (ut_maps ut) \<Longrightarrow> unat r \<le> a"
    by (simp_all add: r_def mend_def)
  have sum: "unat (r + sz) = unat r + unat sz" using r(2) sz by (simp add: unat_plus64)
  have res: "uthread_find_va_space ut sz flags (2 ^ k) = (if unat r + unat sz > unat (ut_ns_va_bottom ut) then 0 else r)"
    using assms(7) sum
    by (simp add: uthread_find_va_space_def uthread_find_va_space_sec_def Let_def r_def word_less_nat_alt not_le)
  have low: "unat r \<le> a" if "free_at ut (unat sz) k a" for a
    using that least [of a] roundup_least [of a k] by (auto simp: free_at_def fits_def mend_def start)
  have free: "free_at ut (unat sz) k (unat r)" if "unat r + unat sz \<le> unat (ut_ns_va_bottom ut)"
    using that r roundup_ge [of "unat (ut_start_stack ut)" k] by (simp add: free_at_def fits_def mend_def start)
  show ?thesis
  proof (cases "unat r + unat sz \<le> unat (ut_ns_va_bottom ut)")
    case True
    have "(LEAST a. free_at ut (unat sz) k a) = unat r"
      by (rule Least_equality) (use free [OF True] low in auto)
    then show ?thesis using free [OF True] res True by auto
  next
    case False
    then have "\<not> free_at ut (unat sz) k a" for a using low [of a] unfolding free_at_def by linarith
    then show ?thesis using res False by simp
  qed
qed

theorem find_va_space_first_fit_witness:
  "(LEAST a. free_at as_ut2 0x1000 12 a) = 0x1002000"
proof -
  have a: "ut_start_stack as_ut2 = 0x1000000" unfolding as_ut2_def as_ut_def by code_simp
  have b: "map (\<lambda>m. (um_vaddr m, um_size m)) (ut_maps as_ut2) = [(0xFFF000, 0x1000), (0x1000000, 0x2000)]"
    unfolding as_ut2_def as_ut_def by code_simp
  have "\<forall>p\<in>set (map (\<lambda>m. (um_vaddr m, um_size m)) (ut_maps as_ut2)).
      unat (fst p) + unat (snd p) + 2 ^ 12 \<le> 2 ^ 32" unfolding b by simp
  then have c: "\<forall>m\<in>set (ut_maps as_ut2). unat (um_vaddr m) + unat (um_size m) + 2 ^ 12 \<le> 2 ^ 32" by simp
  have d: "uthread_find_va_space as_ut2 0x1000 1 (2 ^ 12) = 0x1002000"
    unfolding as_ut2_def as_ut_def by code_simp
  have "if \<exists>a. free_at as_ut2 (unat (0x1000 :: u64)) 12 a
    then unat (uthread_find_va_space as_ut2 0x1000 1 (2 ^ 12)) = (LEAST a. free_at as_ut2 (unat (0x1000 :: u64)) 12 a)
    else uthread_find_va_space as_ut2 0x1000 1 (2 ^ 12) = 0"
    by (rule find_va_space_first_fit [OF as_ut2_reached]) (use a c in \<open>simp_all add: UTM_NS_MEM_def\<close>)
  then show ?thesis unfolding d by (simp split: if_splits)
qed

text \<open>
  \<^verbatim>\<open>uthread_unmap\<close> tests the flags of the mapping for \<^verbatim>\<open>MMAP_FLAG_DEVICE_MEM\<close>, which is the
  value of \<^verbatim>\<open>UTM_W\<close>: unmapping a writable contiguous mapping of two pages or more, such as the
  registers \<^verbatim>\<open>sys_mmap\<close> maps for an application, takes it for allocated pages and reads past its one
  frame.
\<close>

theorem unmap_contiguous_reads_past_frames:
  assumes "uspace ut" "uthread_map_find ut v sz = Some mp" "v \<noteq> 0" "fst (arch_result ut) = 0"
    "um_flags mp AND UTM_W \<noteq> 0" "um_flags mp AND UTM_PHYS_CONTIG \<noteq> 0" "0x2000 \<le> um_size mp"
  shows "uthread_unmap v sz ut = None"
proof -
  have "mp_ok mp"
    using uspace_maps_ok [OF assms(1)] uthread_map_find_Some [OF assms(2)] by (auto simp: maps_ok_def)
  then have one: "length (um_pfn_list mp) = 1" using assms(6) by (simp add: mp_ok_def frames_def)
  have "2 \<le> unat (um_size mp div 0x1000)" using assms(7) by (simp add: unat_div word_le_nat_alt)
  then obtain n where "unat (um_size mp div 0x1000) = Suc (Suc n)" by (metis add_2_eq_Suc le_Suc_ex)
  then have "unmap_free_loop 0 (unat (um_size mp div 0x1000)) mp u = None" for u
    using one by (simp add: Let_def)
  moreover obtain e u where "arch_result ut = (e, u)" by fastforce
  ultimately show ?thesis
    using assms(2-5) by (simp add: uthread_unmap_def UTM_W_def MMAP_FLAG_DEVICE_MEM_def)
qed

theorem unmap_contiguous_reads_past_frames_witness:
  "case uthread_map_contig 0 0xC000000 0x2000 (UTM_R OR UTM_W OR UTM_IO) 0x1000 as_ut of
    Some (r, va, ut) \<Rightarrow> r = NO_ERROR \<and> uthread_unmap va 0x2000 ut = None | None \<Rightarrow> False"
proof -
  let ?m = "uthread_map_op 0 (Some [0xC000000]) 0x2000 ((UTM_R OR UTM_W OR UTM_IO) OR UTM_PHYS_CONTIG) 0x1000 as_ut"
  have "map_option (\<lambda>(r, va, ut). (r, va, map_option (\<lambda>mp. (um_flags mp, um_size mp)) (uthread_map_find ut va 0x2000),
      fst (arch_result ut))) ?m = Some (0, 0x1000000, Some (0xA3, 0x2000), 0)"
    unfolding as_ut_def by code_simp
  then obtain ut mp where r: "?m = Some (0, 0x1000000, ut)" "uthread_map_find ut 0x1000000 0x2000 = Some mp"
      "fst (arch_result ut) = 0" "um_flags mp = 0xA3" "um_size mp = 0x2000"
    by (auto simp: map_option_eq_Some)
  have "uthread_unmap 0x1000000 0x2000 ut = None"
    using r unmap_contiguous_reads_past_frames [OF uspace.map_op [OF as_ut_reached r(1)] r(2)]
    by (simp add: UTM_W_def UTM_PHYS_CONTIG_def)
  then show ?thesis using r(1) by (simp add: uthread_map_contig_def err_simps)
qed

text \<open>
  A failed allocation is not undone: when the page-table code refuses the mapping that
  \<^verbatim>\<open>uthread_pmm_alloc_and_map\<close> asks for, the pages go back to the page allocator but the mapping stays in
  the list, so its first address still counts as valid and translates to the freed page.
\<close>

theorem failed_allocation_stays_mapped:
  assumes "uspace ut" "uthread_pmm_alloc_and_map pages sz flags align ut = Some (r, va, ut')"
    "r \<notin> {0, -1, ERR_INVALID_ARGS, ERR_NOT_VALID, ERR_NO_MEMORY}" "pages \<noteq> []" "va AND 0xFFF = 0"
  shows "set pages \<subseteq> set (ut_freed ut') \<and> uthread_virt_to_phys ut' va = Some (NO_ERROR, hd pages)"
proof -
  let ?n = "ucast (ROUNDUP64 sz 0x1000) :: u32"
  let ?f = "(UTM_W OR UTM_R) OR (if flags AND MMAP_FLAG_DEVICE_MEM \<noteq> 0 then UTM_DEVICE else 0)"
  define u where "u = snd (malloc_ok ut)"
  have u: "maps_ok (ut_maps u)" using uspace_maps_ok [OF assms(1)] by (simp add: u_def)
  obtain w where m: "uthread_map_op 0 (Some pages) (ucast ?n) ?f align u = Some (r, va, w)"
      "ut' = w\<lparr>ut_freed := ut_freed w @ pages\<rparr>"
    using assms(2,3) unfolding uthread_pmm_alloc_and_map_def
    by (auto simp: Let_def split_beta bind_Some_iff u_def split: if_splits)
  have noncontig: "?f AND UTM_PHYS_CONTIG = 0"
    by (simp add: UTM_W_def UTM_R_def UTM_DEVICE_def UTM_PHYS_CONTIG_def)
  have in_maps: "new_map va pages (ucast ?n) ?f align \<in> set (ut_maps w)" and w: "maps_ok (ut_maps w)"
      and fr: "frames (ucast ?n) ?f \<le> length pages"
    using uthread_map_op_fails [OF u m(1)] assms(3) by (auto simp: err_simps)
  then have ok: "mp_ok (new_map va pages (ucast ?n) ?f align)" by (auto simp: maps_ok_def)
  have "unat (ucast ?n :: u64) < 2 ^ 32"
    unfolding unat_ucast_u32 by (rule unat_lt_u32)
  then have sz: "unat (ucast ?n :: u64) < 2 ^ 44" by simp
  have pos: "0 < (ucast ?n :: u64)" using ok by (simp add: mp_ok_def word_neq_0_conv)
  have "uthread_virt_to_phys w (va + 0) = Some (NO_ERROR, translate (new_map va pages (ucast ?n) ?f align) 0)"
    using virt_to_phys_in [OF w in_maps, of 0] sz pos by (simp add: word_less_nat_alt)
  moreover have "translate (new_map va pages (ucast ?n) ?f align) 0 = pages ! 0"
    using new_map_translate [OF ok sz pos _ fr] assms(5) noncontig by simp
  ultimately have "uthread_virt_to_phys w va = Some (NO_ERROR, hd pages)" using assms(4) by (simp add: hd_conv_nth)
  then show ?thesis unfolding m(2) by (simp add: uthread_virt_to_phys_def uthread_map_find_def)
qed

theorem failed_allocation_stays_mapped_witness:
  "\<exists>ut'. uthread_pmm_alloc_and_map [0x90000000] 0x1000 MMAP_FLAG_DEVICE_MEM 1
      (as_ut\<lparr>ut_malloc := [], ut_arch := [ERR_NO_RESOURCES]\<rparr>) = Some (ERR_NO_RESOURCES, 0x1000000, ut') \<and>
    uthread_virt_to_phys ut' 0x1000000 = Some (NO_ERROR, 0x90000000)"
proof -
  let ?ut = "as_ut\<lparr>ut_malloc := [], ut_arch := [ERR_NO_RESOURCES]\<rparr>"
  have "map_option (\<lambda>(r, va, _). (r, va)) (uthread_pmm_alloc_and_map [0x90000000] 0x1000 MMAP_FLAG_DEVICE_MEM 1 ?ut) =
      Some (ERR_NO_RESOURCES, 0x1000000)" unfolding as_ut_def by code_simp
  then obtain ut' where r: "uthread_pmm_alloc_and_map [0x90000000] 0x1000 MMAP_FLAG_DEVICE_MEM 1 ?ut =
      Some (ERR_NO_RESOURCES, 0x1000000, ut')" by auto
  from failed_allocation_stays_mapped [OF uspace.env [OF as_ut_reached] r]
  show ?thesis using r by (simp add: err_simps)
qed

end
