(* ===== verification/PageTree.thy ===== *)
theory PageTree
  imports PageTable
begin

text \<open>
  What page tables stand for.  An entry in memory represents a tree of the type \<open>pt\<close>: nothing, a leaf that
  maps a block, or a further table at its address.  \<open>rep\<close> is that relation; it also says that no table is
  used twice.  \<open>look\<close> is the walk of the hardware, on the tree, and \<open>cut\<close> removes a range from a tree.
\<close>

abbreviation "OUT \<equiv> MMU_PTE_OUTPUT_ADDR_MASK"

datatype pt = Empty | Leaf u64 | Table u64 "pt list"

text \<open>The tables below and including an entry.\<close>

primrec tabs :: "pt \<Rightarrow> u64 set" where
  "tabs Empty = {}"
| "tabs (Leaf w) = {}"
| "tabs (Table p ts) = insert p (\<Union>(set (map tabs ts)))"

definition utabs :: "pt list \<Rightarrow> u64 set" where
  "utabs ts = \<Union>(set (map tabs ts))"

definition unshared :: "pt list \<Rightarrow> bool" where
  "unshared ts \<longleftrightarrow> (\<forall>i<length ts. \<forall>j<length ts. i \<noteq> j \<longrightarrow> tabs (ts ! i) \<inter> tabs (ts ! j) = {})"

text \<open>\<open>rep l m e t\<close>: the entry \<open>e\<close> of a table at level \<open>l\<close>.\<close>

fun rep :: "nat \<Rightarrow> pt_mem \<Rightarrow> u64 \<Rightarrow> pt \<Rightarrow> bool" where
  "rep l m e Empty \<longleftrightarrow> e = 0"
| "rep l m e (Leaf w) \<longleftrightarrow> e = w \<and> w AND 3 = (if l = 0 then 3 else 1)"
| "rep 0 m e (Table p ts) \<longleftrightarrow> False"
| "rep (Suc l) m e (Table p ts) \<longleftrightarrow> e AND 3 = 3 \<and> e AND OUT = p \<and> length ts = 512 \<and>
     (\<exists>es. m p = Some es \<and> list_all2 (\<lambda>e t. rep l m e t) es ts) \<and> unshared ts \<and> p \<notin> utabs ts"

definition reptab :: "nat \<Rightarrow> pt_mem \<Rightarrow> u64 \<Rightarrow> pt list \<Rightarrow> bool" where
  "reptab l m p ts \<longleftrightarrow> (\<exists>es. m p = Some es \<and> list_all2 (\<lambda>e t. rep l m e t) es ts) \<and> unshared ts \<and> p \<notin> utabs ts"

lemma rep_Table: "rep (Suc l) m e (Table p ts) \<longleftrightarrow>
    e AND 3 = 3 \<and> e AND OUT = p \<and> length ts = 512 \<and> reptab l m p ts"
  by (simp add: reptab_def)

lemma tabs_Table [simp]: "tabs (Table p ts) = insert p (utabs ts)"
  by (simp add: utabs_def)

declare tabs.simps(3) [simp del] rep.simps(4) [simp del]

lemma in_utabs: "q \<in> utabs ts \<longleftrightarrow> (\<exists>i<length ts. q \<in> tabs (ts ! i))"
  by (auto simp: utabs_def set_conv_nth)

lemma in_utabs_update:
  "i < length ts \<Longrightarrow> q \<in> utabs (ts[i := t]) \<longleftrightarrow> q \<in> tabs t \<or> (\<exists>j<length ts. j \<noteq> i \<and> q \<in> tabs (ts ! j))"
  by (auto simp: in_utabs nth_list_update split: if_splits)

lemma reptab_entries:
  assumes "reptab l m p ts"
  obtains es where "m p = Some es" "length es = length ts" "\<And>i. i < length ts \<Longrightarrow> rep l m (es ! i) (ts ! i)"
  using assms by (auto simp: reptab_def list_all2_conv_all_nth)

lemma reptabI:
  "m p = Some es \<Longrightarrow> length es = length ts \<Longrightarrow> (\<And>i. i < length ts \<Longrightarrow> rep l m (es ! i) (ts ! i)) \<Longrightarrow>
    unshared ts \<Longrightarrow> p \<notin> utabs ts \<Longrightarrow> reptab l m p ts"
  by (simp add: reptab_def list_all2_conv_all_nth)

lemma rep_cases_entry:
  assumes "rep l m e t"
  obtains "t = Empty" "e = 0" | "t = Leaf e" "e AND 3 = (if l = 0 then 3 else 1)"
    | k p ts where "l = Suc k" "t = Table p ts" "e AND 3 = 3" "e AND OUT = p" "length ts = 512" "reptab k m p ts"
proof (cases t)
  case (Table p ts)
  with assms that(3) show ?thesis by (cases l) (auto simp: rep_Table)
qed (use assms that in auto)

lemma rep_zero: "rep l m 0 t \<longleftrightarrow> t = Empty"
  by (cases t; cases l) (auto simp: rep_Table)

lemma rep_tabs_dom: "rep l m e t \<Longrightarrow> q \<in> tabs t \<Longrightarrow> m q \<noteq> None"
proof (induction l arbitrary: e t)
  case 0
  then show ?case by (cases t) auto
next
  case (Suc l)
  from Suc.prems(1) show ?case
  proof (cases rule: rep_cases_entry)
    case (3 k p ts)
    then obtain es where "m p = Some es" "\<And>i. i < length ts \<Longrightarrow> rep l m (es ! i) (ts ! i)"
      by (auto elim: reptab_entries)
    then show ?thesis using Suc.IH Suc.prems(2) 3(2) by (auto simp: in_utabs)
  qed (use Suc.prems in auto)
qed

lemma rep_frame: "rep l m e t \<Longrightarrow> (\<And>q. q \<in> tabs t \<Longrightarrow> m' q = m q) \<Longrightarrow> rep l m' e t"
proof (induction l arbitrary: e t)
  case 0
  then show ?case by (cases t) auto
next
  case (Suc l)
  from Suc.prems(1) show ?case
  proof (cases rule: rep_cases_entry)
    case (3 k p ts)
    then obtain es where es: "m p = Some es" "length es = length ts" "\<And>i. i < length ts \<Longrightarrow> rep l m (es ! i) (ts ! i)"
      by (auto elim: reptab_entries)
    have "reptab l m' p ts"
    proof (rule reptabI)
      show "m' p = Some es" using es(1) Suc.prems(2) 3(2) by simp
      show "rep l m' (es ! i) (ts ! i)" if "i < length ts" for i
        using es(3) [OF that] by (rule Suc.IH) (use Suc.prems(2) that 3(2) in \<open>auto simp: in_utabs\<close>)
    qed (use 3 es(2) in \<open>auto simp: reptab_def\<close>)
    then show ?thesis using 3 by (simp add: rep_Table)
  qed (use Suc.prems in auto)
qed

lemma reptab_frame:
  assumes "reptab l m p ts" "\<And>q. q \<in> insert p (utabs ts) \<Longrightarrow> m' q = m q"
  shows "reptab l m' p ts"
proof -
  obtain es where es: "m p = Some es" "length es = length ts" "\<And>i. i < length ts \<Longrightarrow> rep l m (es ! i) (ts ! i)"
    using assms(1) by (auto elim!: reptab_entries)
  show ?thesis
  proof (rule reptabI)
    show "m' p = Some es" using assms(2) es(1) by simp
    show "rep l m' (es ! i) (ts ! i)" if "i < length ts" for i
      using es(3) [OF that] by (rule rep_frame) (use assms(2) that in \<open>auto simp: in_utabs\<close>)
  qed (use es(2) assms(1) in \<open>auto simp: reptab_def\<close>)
qed

lemma reptab_dom: "reptab l m p ts \<Longrightarrow> q \<in> insert p (utabs ts) \<Longrightarrow> m q \<noteq> None"
  by (auto elim!: reptab_entries simp: in_utabs dest: rep_tabs_dom)

section \<open>Changes of the memory\<close>

text \<open>
  \<open>chg m m' A A'\<close>: the memory changes from \<open>m\<close> to \<open>m'\<close>, and a tree whose tables were \<open>A\<close> now has the tables \<open>A'\<close>;
  new tables were free before, dropped tables are free now, and nothing else is touched.
\<close>

definition chg :: "pt_mem \<Rightarrow> pt_mem \<Rightarrow> u64 set \<Rightarrow> u64 set \<Rightarrow> bool" where
  "chg m m' A A' \<longleftrightarrow> (\<forall>q. q \<notin> A \<and> q \<notin> A' \<longrightarrow> m' q = m q) \<and> (\<forall>q\<in>A' - A. m q = None) \<and> (\<forall>q\<in>A - A'. m' q = None)"

lemma chg_refl [simp]: "chg m m A A"
  by (simp add: chg_def)

lemma chg_trans: "chg m m1 A B \<Longrightarrow> chg m1 m2 B C \<Longrightarrow> chg m m2 A C"
  unfolding chg_def by (intro conjI allI ballI impI) (metis DiffI DiffD1 DiffD2)+

lemma chg_upd: "p \<in> A \<Longrightarrow> p \<in> A' \<Longrightarrow> chg m m' A A' \<Longrightarrow> chg m (m'(p \<mapsto> es)) A A'"
  by (auto simp: chg_def)

lemma chg_frame: "chg m m' A A' \<Longrightarrow> chg m (m'(p \<mapsto> es)) (insert p (A \<union> B)) (insert p (A' \<union> B))"
  unfolding chg_def by (intro conjI allI ballI impI) (auto dest: bspec)

text \<open>One entry is replaced.\<close>

definition others :: "nat \<Rightarrow> pt list \<Rightarrow> u64 set" where
  "others i ts = (\<Union>j\<in>{j. j < length ts \<and> j \<noteq> i}. tabs (ts ! j))"

lemma utabs_others: "i < length ts \<Longrightarrow> utabs ts = tabs (ts ! i) \<union> others i ts"
  by (auto simp: in_utabs others_def)

lemma utabs_update: "i < length ts \<Longrightarrow> utabs (ts[i := t]) = tabs t \<union> others i ts"
  by (auto simp: in_utabs_update others_def)

lemma reptab_update:
  assumes r: "reptab l m p ts" and es: "m p = Some es" and i: "i < length ts"
    and c: "chg m m' (tabs (ts ! i)) (tabs t)" and e: "rep l m' e t" and m'': "m'' = m'(p \<mapsto> es[i := e])"
  shows "reptab l m'' p (ts[i := t]) \<and> chg m m'' (insert p (utabs ts)) (insert p (utabs (ts[i := t])))"
proof -
  have len: "length es = length ts" and en: "\<And>j. j < length ts \<Longrightarrow> rep l m (es ! j) (ts ! j)"
    using r es by (auto elim: reptab_entries)
  have ap: "unshared ts" and p: "p \<notin> utabs ts" using r by (auto simp: reptab_def)
  have new: "q \<notin> tabs t" if "q = p \<or> (\<exists>j<length ts. j \<noteq> i \<and> q \<in> tabs (ts ! j))" for q
  proof
    assume t: "q \<in> tabs t"
    have "q \<notin> tabs (ts ! i)" using that p i ap by (auto simp: in_utabs unshared_def)
    then have "m q = None" using c t by (auto simp: chg_def)
    moreover have "q \<in> insert p (utabs ts)" using that by (auto simp: in_utabs)
    ultimately show False using reptab_dom [OF r] by blast
  qed
  have old: "m'' q = m q" if "j < length ts" "j \<noteq> i" "q \<in> tabs (ts ! j)" for j q
  proof -
    have "q \<noteq> p" using p that by (auto simp: in_utabs)
    moreover have "q \<notin> tabs (ts ! i)" using that ap i by (auto simp: unshared_def)
    moreover have "q \<notin> tabs t" using new that by blast
    ultimately show ?thesis using c by (simp add: m'' chg_def)
  qed
  have "reptab l m'' p (ts[i := t])"
  proof (rule reptabI)
    show "m'' p = Some (es[i := e])" by (simp add: m'')
    show "length (es[i := e]) = length (ts[i := t])" using len by simp
    show "rep l m'' ((es[i := e]) ! j) ((ts[i := t]) ! j)" if "j < length (ts[i := t])" for j
    proof (cases "j = i")
      case True
      have "rep l m'' e t" using e by (rule rep_frame) (use new in \<open>auto simp: m''\<close>)
      then show ?thesis using True i len by simp
    next
      case False
      then have "rep l m'' (es ! j) (ts ! j)" using that by (intro rep_frame [OF en]) (auto intro: old)
      then show ?thesis using False by simp
    qed
    have "tabs t \<inter> tabs (ts ! j) = {}" if "j < length ts" "j \<noteq> i" for j using new that by blast
    then show "unshared (ts[i := t])" using ap i by (auto simp: unshared_def nth_list_update Int_commute)
    show "p \<notin> utabs (ts[i := t])" using p new [of p] by (auto simp: utabs_update [OF i] utabs_others [OF i])
  qed
  moreover have "chg m m'' (insert p (utabs ts)) (insert p (utabs (ts[i := t])))"
    unfolding m'' utabs_others [OF i] utabs_update [OF i] by (rule chg_frame [OF c])
  ultimately show ?thesis by blast
qed

lemma reptab_sub:
  assumes "reptab l m p ts" "m p = Some es" "i < length ts" "chg m m' (tabs (ts ! i)) (tabs t)" "rep l m' (es ! i) t"
  shows "reptab l m' p (ts[i := t]) \<and> chg m m' (insert p (utabs ts)) (insert p (utabs (ts[i := t])))"
proof -
  have "p \<notin> tabs (ts ! i)" using assms(1,3) by (auto simp: reptab_def in_utabs)
  moreover have "p \<notin> tabs t" using assms(2,4) calculation by (auto simp: chg_def)
  ultimately have "m' p = Some es" using assms(2,4) by (auto simp: chg_def)
  then have "m' = m'(p \<mapsto> es[i := es ! i])" by auto
  from reptab_update [OF assms(1-5) this] show ?thesis .
qed

section \<open>The walk\<close>

definition blk :: "nat \<Rightarrow> nat" where
  "blk l = 2 ^ pt_shift l"

lemma blk_pos [simp]: "0 < blk l" "blk l \<noteq> 0"
  by (simp_all add: blk_def)

text \<open>The leaf for the offset \<open>x\<close> into the block of an entry, with its level.\<close>

fun look :: "nat \<Rightarrow> pt \<Rightarrow> nat \<Rightarrow> (u64 \<times> nat) option" where
  "look l Empty x = None"
| "look l (Leaf w) x = Some (w, l)"
| "look 0 (Table p ts) x = None"
| "look (Suc l) (Table p ts) x =
     (if x div blk l < length ts then look l (ts ! (x div blk l)) (x mod blk l) else None)"

definition tlook :: "nat \<Rightarrow> pt list \<Rightarrow> nat \<Rightarrow> (u64 \<times> nat) option" where
  "tlook l ts x = (if x div blk l < length ts then look l (ts ! (x div blk l)) (x mod blk l) else None)"

lemma look_Table [simp]: "look (Suc l) (Table p ts) x = tlook l ts x"
  by (simp add: tlook_def)

declare look.simps(4) [simp del]

lemma blk_Suc: "blk (Suc l) = 512 * blk l"
  by (simp add: blk_def pt_shift_def power_add)

lemma blk_le: "k \<le> l \<Longrightarrow> \<exists>c>0. blk l = blk k * c"
  by (intro exI [of _ "2 ^ (9 * (l - k))"]) (simp add: blk_def pt_shift_def power_add [symmetric] diff_mult_distrib2)

lemma blk_split:
  assumes "k \<le> l"
  obtains c where "0 < c" "blk l = blk k * c" "\<And>x. x div blk l = x div blk k div c"
    "\<And>x. (x mod blk l) div blk k = x div blk k mod c"
proof -
  obtain c where c: "0 < c" "blk l = blk k * c" using blk_le [OF assms] by blast
  show ?thesis
  proof (rule that [OF c])
    show "x div blk l = x div blk k div c" for x unfolding c(2) by (rule div_mult2_eq)
    have "x mod (blk k * c) = blk k * (x div blk k mod c) + x mod blk k" for x by (rule mod_mult2_eq)
    then show "(x mod blk l) div blk k = x div blk k mod c" for x unfolding c(2) by simp
  qed
qed

lemma blk_same:
  assumes "k \<le> l" "y div blk k = x div blk k"
  shows "y div blk l = x div blk l" and "(y mod blk l) div blk k = (x mod blk l) div blk k"
  using assms by (auto elim!: blk_split [of k l])

text \<open>The walk is the same for all offsets of a block.\<close>

lemma look_block: "look l t x = Some (w, k) \<Longrightarrow> k \<le> l \<and> (\<forall>y. y div blk k = x div blk k \<longrightarrow> look l t y = Some (w, k))"
proof (induction l arbitrary: t x)
  case 0
  then show ?case by (cases t) auto
next
  case (Suc l)
  show ?case
  proof (cases t)
    case (Table p ts)
    with Suc.prems have i: "x div blk l < length ts" and lk: "look l (ts ! (x div blk l)) (x mod blk l) = Some (w, k)"
      by (auto simp: tlook_def split: if_splits)
    from Suc.IH [OF lk] have k: "k \<le> l" "\<And>y. y div blk k = (x mod blk l) div blk k \<Longrightarrow>
      look l (ts ! (x div blk l)) y = Some (w, k)" by auto
    have "look (Suc l) t y = Some (w, k)" if "y div blk k = x div blk k" for y
      using k(2) [OF blk_same(2) [OF k(1) that]] i by (simp add: Table tlook_def blk_same(1) [OF k(1) that])
    then show ?thesis using k(1) by simp
  qed (use Suc.prems in auto)
qed

lemma tlook_block:
  assumes "tlook l ts x = Some (w, k)" "y div blk k = x div blk k"
  shows "tlook l ts y = Some (w, k)"
  using look_block [of "Suc l" "Table 0 ts" x w k] assms by simp

lemma tlook_level: "tlook l ts x = Some (w, k) \<Longrightarrow> k \<le> l"
  using look_block [of l "ts ! (x div blk l)" "x mod blk l" w k] by (simp add: tlook_def split: if_splits)

lemma tlook_update:
  "i < length ts \<Longrightarrow> tlook l (ts[i := t]) x = (if x div blk l = i then look l t (x mod blk l) else tlook l ts x)"
  by (simp add: tlook_def)

lemma tlook_empty: "(\<And>t. t \<in> set ts \<Longrightarrow> t = Empty) \<Longrightarrow> tlook l ts x = None"
  by (metis look.simps(1) nth_mem tlook_def)

section \<open>Removing a range\<close>

text \<open>\<open>cut l a b t\<close> removes the offsets \<open>a\<close> to \<open>b\<close> from an entry at level \<open>l\<close>: a leaf that the range meets goes
  whole, a table goes when nothing is left in it.\<close>

fun cut :: "nat \<Rightarrow> nat \<Rightarrow> nat \<Rightarrow> pt \<Rightarrow> pt" where
  "cut 0 a b t = (if a < b then Empty else t)"
| "cut (Suc l) a b t =
     (if a < b then
        (case t of Table p ts \<Rightarrow>
           (let us = map (\<lambda>i. cut l (a - i * blk l) (min (b - i * blk l) (blk l)) (ts ! i)) [0..<length ts] in
            if \<forall>u\<in>set us. u = Empty then Empty else Table p us)
         | _ \<Rightarrow> Empty)
      else t)"

definition cuts :: "nat \<Rightarrow> nat \<Rightarrow> nat \<Rightarrow> pt list \<Rightarrow> pt list" where
  "cuts l a b ts = map (\<lambda>i. cut l (a - i * blk l) (min (b - i * blk l) (blk l)) (ts ! i)) [0..<length ts]"

lemma cut_none [simp]: "\<not> a < b \<Longrightarrow> cut l a b t = t"
  by (cases l) simp_all

lemma cut_entry [simp]: "a < b \<Longrightarrow> cut l a b Empty = Empty" "a < b \<Longrightarrow> cut l a b (Leaf w) = Empty"
  by (cases l; simp)+

lemma cut_Table: "a < b \<Longrightarrow> cut (Suc l) a b (Table p ts) =
    (if \<forall>u\<in>set (cuts l a b ts). u = Empty then Empty else Table p (cuts l a b ts))"
  by (simp add: cuts_def Let_def)

declare cut.simps(2) [simp del]

lemma length_cuts [simp]: "length (cuts l a b ts) = length ts"
  by (simp add: cuts_def)

lemma nth_cuts: "i < length ts \<Longrightarrow>
    cuts l a b ts ! i = cut l (a - i * blk l) (min (b - i * blk l) (blk l)) (ts ! i)"
  by (simp add: cuts_def)

lemma tabs_cut: "tabs (cut l a b t) \<subseteq> tabs t"
proof (induction l arbitrary: a b t)
  case (Suc l)
  show ?case
  proof (cases "a < b")
    case True
    have "utabs (cuts l a b ts) \<subseteq> utabs ts" for ts
      using Suc.IH by (fastforce simp: in_utabs nth_cuts)
    then show ?thesis using True by (cases t) (auto simp: cut_Table)
  qed simp
qed simp

lemma utabs_cuts: "utabs (cuts l a b ts) \<subseteq> utabs ts"
  using tabs_cut by (fastforce simp: in_utabs nth_cuts)

text \<open>Whether the block of level \<open>k\<close> around \<open>x\<close> meets the range.\<close>

definition hit :: "nat \<Rightarrow> nat \<Rightarrow> nat \<Rightarrow> nat \<Rightarrow> bool" where
  "hit a b k x \<longleftrightarrow> a < b \<and> a < x div blk k * blk k + blk k \<and> x div blk k * blk k < b"

lemma hit_in: "a \<le> x \<Longrightarrow> x < b \<Longrightarrow> hit a b k x"
proof -
  have "x = x div blk k * blk k + x mod blk k" "x mod blk k < blk k" by simp_all
  then show "a \<le> x \<Longrightarrow> x < b \<Longrightarrow> hit a b k x" unfolding hit_def by linarith
qed

definition miss :: "nat \<Rightarrow> nat \<Rightarrow> nat \<Rightarrow> (u64 \<times> nat) option \<Rightarrow> (u64 \<times> nat) option" where
  "miss a b x r = (case r of None \<Rightarrow> None | Some (w, k) \<Rightarrow> if hit a b k x then None else Some (w, k))"

lemma range_shift:
  "0 < B \<Longrightarrow> s + B \<le> L \<Longrightarrow> (a - d < min (b - d) L \<and> a - d < s + B \<and> s < min (b - d) L) \<longleftrightarrow>
    (a < b \<and> a < d + s + B \<and> d + s < b)" for s :: nat
  by auto

lemma hit_shift:
  assumes "k \<le> l"
  shows "hit (a - x div blk l * blk l) (min (b - x div blk l * blk l) (blk l)) k (x mod blk l) \<longleftrightarrow> hit a b k x"
proof -
  obtain c where c: "0 < c" "blk l = blk k * c" "x div blk l = x div blk k div c"
    "(x mod blk l) div blk k = x div blk k mod c" using blk_split [OF assms] by metis
  define s and d where "s = (x mod blk l) div blk k * blk k" and "d = x div blk l * blk l"
  have "x div blk k * blk k = (x div blk k div c * c + x div blk k mod c) * blk k" by simp
  also have "\<dots> = d + s" unfolding d_def s_def unfolding c(3,4) unfolding c(2) by (simp only: distrib_left distrib_right ac_simps)
  finally have x: "x div blk k * blk k = d + s" .
  have "x div blk k mod c + 1 \<le> c" using c(1) by (simp add: Suc_leI)
  then have "(x div blk k mod c + 1) * blk k \<le> c * blk k" by (rule mult_le_mono1)
  then have "s + blk k \<le> blk l" unfolding s_def unfolding c(4) unfolding c(2) by (simp add: algebra_simps)
  then show ?thesis
    unfolding hit_def s_def [symmetric] d_def [symmetric] x by (rule range_shift [OF blk_pos(1)])
qed

lemma miss_shift:
  assumes "\<And>w k. r = Some (w, k) \<Longrightarrow> k \<le> l"
  shows "miss (a - x div blk l * blk l) (min (b - x div blk l * blk l) (blk l)) (x mod blk l) r = miss a b x r"
  using assms by (cases r) (auto simp: miss_def hit_shift)

lemma miss_empty [simp]: "miss a b x None = None" "\<not> a < b \<Longrightarrow> miss a b x r = r"
  by (auto simp: miss_def hit_def split: option.split)

lemma tlook_cuts_step:
  assumes "\<And>a b t x. x < blk l \<Longrightarrow> b \<le> blk l \<Longrightarrow> look l (cut l a b t) x = miss a b x (look l t x)"
  shows "tlook l (cuts l a b ts) x = miss a b x (tlook l ts x)"
proof (cases "x div blk l < length ts")
  case True
  let ?i = "x div blk l" and ?y = "x mod blk l"
  have "look l (cuts l a b ts ! ?i) ?y = miss (a - ?i * blk l) (min (b - ?i * blk l) (blk l)) ?y (look l (ts ! ?i) ?y)"
    using True by (simp add: nth_cuts assms)
  also have "\<dots> = miss a b x (look l (ts ! ?i) ?y)"
    by (rule miss_shift) (use look_block [of l "ts ! ?i" ?y] in blast)
  finally show ?thesis using True by (simp add: tlook_def)
qed (simp add: tlook_def)

lemma look_cut: "x < blk l \<Longrightarrow> b \<le> blk l \<Longrightarrow> look l (cut l a b t) x = miss a b x (look l t x)"
proof (induction l arbitrary: a b t x)
  case 0
  then have "hit a b 0 x \<longleftrightarrow> a < b" by (auto simp: hit_def)
  then show ?case by (cases t) (auto simp: miss_def)
next
  case (Suc l)
  show ?case
  proof (cases "a < b")
    case ab: True
    show ?thesis
    proof (cases t)
      case (Leaf w)
      have "hit a b (Suc l) x" using ab Suc.prems by (simp add: hit_def)
      then show ?thesis using Leaf ab by (simp add: miss_def)
    next
      case (Table p ts)
      have "look (Suc l) (cut (Suc l) a b t) x = tlook l (cuts l a b ts) x"
        using tlook_empty [of "cuts l a b ts" l x] by (auto simp: Table cut_Table [OF ab])
      then show ?thesis by (simp add: Table tlook_cuts_step Suc.IH)
    qed (use ab in simp)
  qed simp
qed

lemmas tlook_cuts = tlook_cuts_step [OF look_cut]

end
