(* ===== verification/PageUnmap.thy ===== *)
theory PageUnmap
  imports PageTree
begin

text \<open>
  Unmapping in memory does to the tree what \<open>cuts\<close> says, frees exactly the tables that become empty, and
  touches nothing else.
\<close>

text \<open>The table \<open>p\<close> stood for \<open>ts\<close> and now stands for \<open>ts'\<close>.\<close>

definition upd :: "nat \<Rightarrow> u64 \<Rightarrow> pt list \<Rightarrow> pt list \<Rightarrow> pt_heap \<Rightarrow> pt_heap \<Rightarrow> bool" where
  "upd l p ts ts' h h' \<longleftrightarrow> reptab l (ph_mem h') p ts' \<and> length ts' = length ts \<and> ph_alloc h' = ph_alloc h \<and>
     chg (ph_mem h) (ph_mem h') (insert p (utabs ts)) (insert p (utabs ts'))"

lemma upd_refl: "reptab l (ph_mem h) p ts \<Longrightarrow> upd l p ts ts h h"
  by (simp add: upd_def)

lemma upd_trans: "upd l p ts us h h1 \<Longrightarrow> upd l p us vs h1 h2 \<Longrightarrow> upd l p ts vs h h2"
  by (auto simp: upd_def intro: chg_trans)

lemma read_pte_ok: "ph_mem h p = Some es \<Longrightarrow> i < length es \<Longrightarrow> read_pte p i h = Some (es ! i)"
  by (simp add: read_pte_def)

lemma write_pte_ok: "ph_mem h p = Some es \<Longrightarrow> i < length es \<Longrightarrow>
    write_pte p i v h = Some (h\<lparr>ph_mem := (ph_mem h)(p \<mapsto> es[i := v])\<rparr>)"
  by (simp add: write_pte_def)

lemmas pte_desc_defs = MMU_PTE_DESCRIPTOR_MASK_def MMU_PTE_DESCRIPTOR_INVALID_def MMU_PTE_L012_DESCRIPTOR_TABLE_def
  MMU_PTE_L012_DESCRIPTOR_BLOCK_def MMU_PTE_L3_DESCRIPTOR_PAGE_def

section \<open>A whole block\<close>

lemma cuts_whole:
  assumes "\<And>i. i < length ts \<Longrightarrow> cut l 0 (blk l) (ts ! i) = Empty"
  shows "\<forall>u\<in>set (cuts l 0 (length ts * blk l) ts). u = Empty"
  unfolding all_set_conv_all_nth
proof (intro allI impI)
  fix i assume "i < length (cuts l 0 (length ts * blk l) ts)"
  then have i: "i < length ts" by simp
  then have "i * blk l + blk l \<le> length ts * blk l"
    using mult_le_mono1 [of "i + 1" "length ts" "blk l"] by (simp add: algebra_simps)
  then have "min (length ts * blk l - i * blk l) (blk l) = blk l" by simp
  then show "cuts l 0 (length ts * blk l) ts ! i = Empty" using i assms by (simp add: nth_cuts)
qed

lemma cut_full: "rep l m e t \<Longrightarrow> cut l 0 (blk l) t = Empty"
proof (induction l arbitrary: e t)
  case (Suc l)
  from Suc.prems show ?case
  proof (cases rule: rep_cases_entry)
    case (3 k p ts)
    then have "\<And>i. i < length ts \<Longrightarrow> cut l 0 (blk l) (ts ! i) = Empty" using Suc.IH by (auto elim!: reptab_entries)
    from cuts_whole [OF this] show ?thesis by (simp add: 3(2,5) cut_Table blk_Suc)
  qed simp_all
qed simp

lemma cuts_full: "reptab l m p ts \<Longrightarrow> \<forall>u\<in>set (cuts l 0 (length ts * blk l) ts). u = Empty"
  by (rule cuts_whole) (auto elim!: reptab_entries intro: cut_full)

lemma entries_clear:
  assumes "m p = Some es" "length es = length ts" "\<And>i. i < length ts \<Longrightarrow> rep l m (es ! i) (ts ! i)"
  shows "(\<forall>e\<in>set es. e = 0) \<longleftrightarrow> (\<forall>t\<in>set ts. t = Empty)"
proof -
  have "es ! i = 0 \<longleftrightarrow> ts ! i = Empty" if "i < length ts" for i
    using assms(3) [OF that] by (cases rule: rep_cases_entry) (auto split: if_splits)
  then show ?thesis using assms(2) by (auto simp: all_set_conv_all_nth)
qed

lemma page_table_is_clear_ok:
  assumes "reptab l (ph_mem h) p ts" "length ts = 512"
  shows "page_table_is_clear p h = Some (\<forall>t\<in>set ts. t = Empty)"
proof -
  obtain es where es: "ph_mem h p = Some es" "length es = length ts"
      "\<And>i. i < length ts \<Longrightarrow> rep l (ph_mem h) (es ! i) (ts ! i)"
    using assms(1) by (auto elim!: reptab_entries)
  then show ?thesis
    using entries_clear [OF es] assms(2) by (simp add: page_table_is_clear_def MMU_PTE_DESCRIPTOR_INVALID_def)
qed

lemma utabs_clear: "\<forall>t\<in>set ts. t = Empty \<Longrightarrow> utabs ts = {}"
  by (auto simp: utabs_def)

section \<open>One entry\<close>

lemma unmap_entry_ok:
  assumes r: "reptab l (ph_mem h) tbl ts" and i: "i < length ts" and c: "0 < c" "rem + c \<le> blk l"
    and rec: "\<And>k p us. l = Suc k \<Longrightarrow> reptab k (ph_mem h) p us \<Longrightarrow> length us = 512 \<Longrightarrow>
      \<exists>h'. rec va rem c p h = Some h' \<and> upd k p us (cuts k rem (rem + c) us) h h'"
  shows "\<exists>h'. unmap_entry rec l va rem c i tbl asid h = Some h' \<and>
    upd l tbl ts (ts[i := cut l rem (rem + c) (ts ! i)]) h h'"
proof -
  obtain es where es: "ph_mem h tbl = Some es" "length es = length ts" and e: "rep l (ph_mem h) (es ! i) (ts ! i)"
    using r i by (auto elim: reptab_entries)
  have rd: "read_pte tbl i h = Some (es ! i)" using read_pte_ok [OF es(1)] i es(2) by simp
  from e show ?thesis
  proof (cases rule: rep_cases_entry)
    case 1
    then have "unmap_entry rec l va rem c i tbl asid h = Some h" by (simp add: unmap_entry_def rd pte_desc_defs)
    moreover have "ts[i := cut l rem (rem + c) (ts ! i)] = ts" using 1 c by (metis cut_entry(1) less_add_same_cancel1 list_update_id)
    ultimately show ?thesis using upd_refl [OF r] by simp
  next
    case 2
    let ?h = "h\<lparr>ph_mem := (ph_mem h)(tbl \<mapsto> es[i := 0]), ph_tlbi := (va, asid) # ph_tlbi h\<rparr>"
    have "es ! i \<noteq> 0" "l > 0 \<longrightarrow> es ! i AND 3 \<noteq> 3" using 2(2) by (auto split: if_splits)
    then have "unmap_entry rec l va rem c i tbl asid h = Some ?h"
      using es i by (auto simp: unmap_entry_def rd pte_desc_defs write_pte_ok)
    moreover have "upd l tbl ts (ts[i := Empty]) h ?h"
      using reptab_update [OF r es(1) i, of "ph_mem h" Empty 0] 2 by (simp add: upd_def)
    ultimately show ?thesis using 2(1) c by simp
  next
    case (3 k q us)
    obtain h1 where h1: "rec va rem c q h = Some h1" and u: "upd k q us (cuts k rem (rem + c) us) h h1"
      using rec [OF 3(1) 3(6,5)] by blast
    define vs where "vs = cuts k rem (rem + c) us"
    have q: "q \<noteq> tbl" "tbl \<notin> utabs us" using r i 3(2) by (auto simp: reptab_def in_utabs)
    have vs: "reptab k (ph_mem h1) q vs" "length vs = 512" "ph_alloc h1 = ph_alloc h"
      and ch: "chg (ph_mem h) (ph_mem h1) (insert q (utabs us)) (insert q (utabs vs))"
      using u 3(5) by (simp_all add: upd_def vs_def)
    have es1: "ph_mem h1 tbl = Some es" using ch q es(1) by (auto simp: chg_def)
    have cl: "(if c = 2 ^ pt_shift l then Some True else page_table_is_clear q h1) = Some (\<forall>t\<in>set vs. t = Empty)"
    proof (cases "c = blk l")
      case True
      with c(2) have "rem = 0" by simp
      then have "cut l rem (rem + c) (ts ! i) = Empty" using cut_full [OF e] True by simp
      then have "\<forall>t\<in>set vs. t = Empty" using c(1) by (simp add: 3(1,2) cut_Table vs_def split: if_splits)
      then show ?thesis using True by (simp add: blk_def)
    qed (simp add: blk_def page_table_is_clear_ok [OF vs(1,2)])
    have run: "unmap_entry rec l va rem c i tbl asid h =
        (if \<forall>t\<in>set vs. t = Empty then do { h \<leftarrow> write_pte tbl i 0 h1; free_page_table q h } else Some h1)"
      using 3(1,3,4) cl by (simp add: unmap_entry_def rd pte_desc_defs h1)
    show ?thesis
    proof (cases "\<forall>t\<in>set vs. t = Empty")
      case True
      let ?m = "(ph_mem h1)(q := None)"
      let ?h = "h1\<lparr>ph_mem := ((ph_mem h1)(tbl \<mapsto> es[i := 0]))(q := None)\<rparr>"
      have "unmap_entry rec l va rem c i tbl asid h = Some ?h"
        using True run write_pte_ok [OF es1, of i 0] i es(2) reptab_dom [OF vs(1), of q] q(1)
        by (auto simp: free_page_table_def)
      moreover have "chg (ph_mem h) ?m (tabs (ts ! i)) (tabs Empty)"
        using ch utabs_clear [OF True] by (auto simp: 3(2) chg_def)
      then have "upd l tbl ts (ts[i := Empty]) h ?h"
        using reptab_update [OF r es(1) i, of ?m Empty 0] q(1) vs(3) by (simp add: upd_def fun_upd_twist)
      ultimately show ?thesis using c(1) True by (simp add: 3(1,2) cut_Table vs_def)
    next
      case False
      have "rep l (ph_mem h1) (es ! i) (Table q vs)" using 3 vs by (simp add: rep_Table)
      then have "upd l tbl ts (ts[i := Table q vs]) h h1"
        using reptab_sub [OF r es(1) i, of "ph_mem h1" "Table q vs"] ch vs(3) by (simp add: upd_def 3(2))
      moreover have "unmap_entry rec l va rem c i tbl asid h = Some h1" unfolding run by (rule if_not_P [OF False])
      moreover have "cut l rem (rem + c) (ts ! i) = Table q vs"
        using c(1) False unfolding vs_def by (auto simp: 3(1,2) cut_Table)
      ultimately show ?thesis by simp
    qed
  qed
qed

section \<open>The loop\<close>

lemma cuts_step:
  assumes "i = a div blk l" "c = min sz (blk l - a mod blk l)" "a + sz \<le> length ts * blk l" "0 < sz"
  shows "cuts l (a + c) (a + sz) (ts[i := cut l (a mod blk l) (a mod blk l + c) (ts ! i)]) = cuts l a (a + sz) ts"
proof (rule nth_equalityI)
  fix j assume "j < length (cuts l (a + c) (a + sz) (ts[i := cut l (a mod blk l) (a mod blk l + c) (ts ! i)]))"
  then have j: "j < length ts" by simp
  have a: "a = i * blk l + a mod blk l" "a mod blk l < blk l" by (simp_all add: assms(1))
  consider "j = i" | "j < i" | "i < j" by linarith
  then show "cuts l (a + c) (a + sz) (ts[i := cut l (a mod blk l) (a mod blk l + c) (ts ! i)]) ! j = cuts l a (a + sz) ts ! j"
  proof cases
    case 1
    have "a - i * blk l = a mod blk l" "min (a + sz - i * blk l) (blk l) = a mod blk l + c"
      "\<not> a + c - i * blk l < min (a + sz - i * blk l) (blk l)"
      using a assms(2) by linarith+
    then show ?thesis using j by (simp add: 1 nth_cuts)
  next
    case 2
    then have "(j + 1) * blk l \<le> i * blk l" by (intro mult_le_mono1) simp
    then have "j * blk l + blk l \<le> a" using a by simp
    then show ?thesis using 2 j by (simp add: nth_cuts)
  next
    case 3
    then have "(i + 1) * blk l \<le> j * blk l" by (intro mult_le_mono1) simp
    then have "a + c \<le> j * blk l" using a assms(2) unfolding add_mult_distrib by linarith
    then show ?thesis using 3 j by (simp add: nth_cuts)
  qed
qed simp

lemma cuts_nothing: "cuts l a a ts = ts"
  by (rule nth_equalityI) (auto simp: nth_cuts)

lemma chunk_of_blk: "chunk_of l a sz = min sz (blk l - a mod blk l)"
  by (simp add: chunk_of_def blk_def)

lemma unmap_loop_ok:
  assumes "reptab l (ph_mem h) tbl ts" "a + sz \<le> length ts * blk l"
    and rec: "\<And>h k va a c p us. l = Suc k \<Longrightarrow> reptab k (ph_mem h) p us \<Longrightarrow> length us = 512 \<Longrightarrow> a + c \<le> blk l \<Longrightarrow>
      \<exists>h'. rec va a c p h = Some h' \<and> upd k p us (cuts k a (a + c) us) h h'"
  shows "\<exists>h'. unmap_loop rec l va a sz tbl asid h = Some h' \<and> upd l tbl ts (cuts l a (a + sz) ts) h h'"
  using assms(1,2)
proof (induction sz arbitrary: va a ts h rule: less_induct)
  case (less sz)
  show ?case
  proof (cases "sz = 0")
    case True
    then show ?thesis using upd_refl [OF less.prems(1)] by (simp add: unmap_loop.simps cuts_nothing)
  next
    case False
    define i c where "i = a div blk l" and "c = min sz (blk l - a mod blk l)"
    define us where "us = ts[i := cut l (a mod blk l) (a mod blk l + c) (ts ! i)]"
    have c: "0 < c" "a mod blk l + c \<le> blk l" "c \<le> sz"
      using False mod_less_divisor [OF blk_pos(1), of a l] unfolding c_def by linarith+
    have i: "i < length ts" using False less.prems(2) by (simp add: i_def div_less_iff_less_mult)
    obtain h1 where h1: "unmap_entry rec l va (a mod blk l) c i tbl asid h = Some h1" and u1: "upd l tbl ts us h h1"
      using unmap_entry_ok [OF less.prems(1) i c(1,2), of rec va asid] rec c(2) unfolding us_def by blast
    have "reptab l (ph_mem h1) tbl us" "a + c + (sz - c) \<le> length us * blk l"
      using u1 less.prems(2) c(3) by (simp_all add: upd_def)
    then obtain h2 where h2: "unmap_loop rec l (va + of_nat c) (a + c) (sz - c) tbl asid h1 = Some h2"
        and u2: "upd l tbl us (cuts l (a + c) (a + c + (sz - c)) us) h1 h2"
      using less.IH [of "sz - c"] c(1,3) by (metis diff_less less_le_trans)
    have "cuts l (a + c) (a + c + (sz - c)) us = cuts l a (a + sz) ts"
      using cuts_step [OF i_def c_def less.prems(2)] False c(3) by (simp add: us_def)
    then have "upd l tbl ts (cuts l a (a + sz) ts) h h2" using upd_trans [OF u1 u2] by simp
    moreover have "unmap_loop rec l va a sz tbl asid h = Some h2"
      using False h1 h2
      by (simp add: unmap_loop.simps [of _ _ _ _ sz] chunk_of_blk blk_def [symmetric] i_def c_def [symmetric] Let_def)
    ultimately show ?thesis by blast
  qed
qed

lemma unmap_pt_ok:
  "reptab l (ph_mem h) tbl ts \<Longrightarrow> a + sz \<le> length ts * blk l \<Longrightarrow>
    \<exists>h'. arm64_mmu_unmap_pt l asid va a sz tbl h = Some h' \<and> upd l tbl ts (cuts l a (a + sz) ts) h h'"
proof (induction l arbitrary: va a sz tbl h ts)
  case 0
  then show ?case by (simp, intro unmap_loop_ok) auto
next
  case (Suc l)
  show ?case unfolding arm64_mmu_unmap_pt.simps
    by (rule unmap_loop_ok [OF Suc.prems]) (use Suc.IH in \<open>simp add: blk_Suc\<close>)
qed

section \<open>Empty tables\<close>

text \<open>The tables of a tree with nothing in them.  In memory they are the tables whose entries are all zero, and
  removing a range leaves no new one.\<close>

primrec clear_tabs :: "pt \<Rightarrow> u64 set" where
  "clear_tabs Empty = {}"
| "clear_tabs (Leaf w) = {}"
| "clear_tabs (Table p ts) = (if \<forall>t\<in>set ts. t = Empty then {p} else \<Union>(set (map clear_tabs ts)))"

definition empty_table :: "pt_mem \<Rightarrow> u64 \<Rightarrow> bool" where
  "empty_table m q \<longleftrightarrow> (\<exists>es. m q = Some es \<and> (\<forall>e\<in>set es. e = 0))"

lemma clear_tabs_cut: "clear_tabs (cut l a b t) \<subseteq> clear_tabs t"
proof (induction l arbitrary: a b t)
  case (Suc l)
  show ?case
  proof (cases "a < b")
    case ab: True
    show ?thesis
    proof (cases t)
      case (Table p ts)
      have some: "\<not> (\<forall>t\<in>set ts. t = Empty)" if "\<not> (\<forall>u\<in>set (cuts l a b ts). u = Empty)"
      proof
        assume "\<forall>t\<in>set ts. t = Empty"
        then have "cuts l a b ts ! i = Empty" if "i < length ts" for i
          using that cut_entry(1) cut_none by (metis nth_cuts nth_mem)
        then show False using that by (auto simp: in_set_conv_nth)
      qed
      have "clear_tabs u \<subseteq> \<Union>(set (map clear_tabs ts))" if "u \<in> set (cuts l a b ts)" for u
        using that Suc.IH by (fastforce simp: in_set_conv_nth nth_cuts)
      then show ?thesis using some by (auto simp: Table cut_Table [OF ab])
    qed (use ab in simp_all)
  qed simp
qed simp

lemma clear_tabs_sub: "clear_tabs t \<subseteq> tabs t"
  by (induction t) (auto simp: utabs_def)

lemma rep_clear_tabs: "rep l m e t \<Longrightarrow> q \<in> tabs t \<Longrightarrow> q \<in> clear_tabs t \<longleftrightarrow> empty_table m q"
proof (induction l arbitrary: e t)
  case 0
  then show ?case by (cases t) auto
next
  case (Suc l)
  from Suc.prems(1) show ?case
  proof (cases rule: rep_cases_entry)
    case (3 k p ts)
    obtain es where es: "m p = Some es" "length es = length ts" "\<And>i. i < length ts \<Longrightarrow> rep l m (es ! i) (ts ! i)"
      using 3 by (auto elim!: reptab_entries)
    have sh: "unshared ts" "p \<notin> utabs ts" using 3 by (auto simp: reptab_def)
    show ?thesis
    proof (cases "q = p")
      case True
      have "p \<notin> clear_tabs u" if "u \<in> set ts" for u
        using that sh(2) clear_tabs_sub [of u] by (auto simp: utabs_def)
      then show ?thesis using True es(1) entries_clear [OF es] by (auto simp: 3(2) empty_table_def)
    next
      case False
      then obtain i where i: "i < length ts" "q \<in> tabs (ts ! i)" using Suc.prems(2) 3(2) by (auto simp: in_utabs)
      have only: "q \<in> clear_tabs (ts ! i)" if j: "j < length ts" "q \<in> clear_tabs (ts ! j)" for j
      proof -
        have "q \<in> tabs (ts ! j)" using j(2) clear_tabs_sub by blast
        then have "j = i" using sh(1) i j(1) by (auto simp: unshared_def)
        then show ?thesis using j(2) by simp
      qed
      have "ts ! i \<in> set ts" "ts ! i \<noteq> Empty" using i by auto
      then have "\<not> (\<forall>t\<in>set ts. t = Empty)" by blast
      then have "q \<in> clear_tabs t \<longleftrightarrow> (\<exists>j<length ts. q \<in> clear_tabs (ts ! j))"
        by (simp only: 3(2) clear_tabs.simps if_False) (auto simp: set_conv_nth)
      then have "q \<in> clear_tabs t \<longleftrightarrow> q \<in> clear_tabs (ts ! i)" using only i(1) by blast
      then show ?thesis using Suc.IH [OF es(3) [OF i(1)] i(2)] by simp
    qed
  qed (use Suc.prems in auto)
qed

lemma cuts_no_new_empty:
  assumes "reptab l m p ts" "reptab l m' p (cuts l a b ts)" "q \<in> utabs (cuts l a b ts)" "empty_table m' q"
  shows "empty_table m q"
proof -
  obtain i where i: "i < length ts" "q \<in> tabs (cuts l a b ts ! i)" using assms(3) by (auto simp: in_utabs)
  obtain e e' where e: "rep l m e (ts ! i)" "rep l m' e' (cuts l a b ts ! i)"
    using reptab_entries [OF assms(1)] reptab_entries [OF assms(2)] i(1) by (metis length_cuts)
  have "q \<in> clear_tabs (ts ! i)"
    using rep_clear_tabs [OF e(2) i(2)] assms(4) i(1) clear_tabs_cut [THEN subsetD] by (simp add: nth_cuts)
  moreover from this have "q \<in> tabs (ts ! i)" using clear_tabs_sub by blast
  ultimately show ?thesis using rep_clear_tabs [OF e(1)] by blast
qed

end
