(* ===== verification/PageMap.thy ===== *)
theory PageMap
  imports PageUnmap
begin

text \<open>
  Mapping in memory: a successful call enters the range into the tree and leaves the rest of the translation
  alone, a failed one leaves all of it alone.
\<close>

section \<open>Entries as bits\<close>

lemma word_parts:
  fixes pa at d x y :: u64
  assumes "pa AND x = pa" "at AND x = 0" "at AND y = 0" "d AND y = d" "x AND y = 0"
  shows "(pa OR at OR d) AND x = pa" "(pa OR at OR d) AND y = d" "(pa OR at OR d) AND NOT (x OR y) = at"
proof -
  have b: "bit pa n \<Longrightarrow> bit x n" "bit at n \<Longrightarrow> \<not> bit x n" "bit at n \<Longrightarrow> \<not> bit y n" "bit d n \<Longrightarrow> bit y n"
    "bit x n \<Longrightarrow> \<not> bit y n" for n
    using assms [THEN arg_cong, of "\<lambda>w. bit w n"] by (simp_all add: bit_simps)
  show "(pa OR at OR d) AND x = pa" by (rule bit_word_eqI) (auto simp: bit_simps dest: b)
  show "(pa OR at OR d) AND y = d" by (rule bit_word_eqI) (auto simp: bit_simps dest: b)
  show "(pa OR at OR d) AND NOT (x OR y) = at" by (rule bit_word_eqI) (auto simp: bit_simps dest: b)
qed

text \<open>The attributes of an entry are the bits outside its address and its kind.\<close>

definition attr_bits :: "u64 \<Rightarrow> u64" where
  "attr_bits w = w AND NOT (OUT OR 3)"

lemma OUT_desc: "OUT AND 3 = 0"
  by code_simp

lemma pte_bits:
  assumes "pa AND OUT = pa" "at AND OUT = 0" "at AND 3 = 0" "d AND 3 = d"
  shows "(pa OR at OR d) AND OUT = pa" "(pa OR at OR d) AND 3 = d" "attr_bits (pa OR at OR d) = at"
  unfolding attr_bits_def by (rule word_parts [OF assms OUT_desc])+

lemma table_bits: "p AND OUT = p \<Longrightarrow> (p OR 3) AND OUT = p" "p AND OUT = p \<Longrightarrow> (p OR 3) AND 3 = 3"
  using pte_bits [of p 0 3] by simp_all

section \<open>Translations\<close>

text \<open>Where an offset goes: the physical address and the attributes.\<close>

definition xlate :: "nat \<Rightarrow> pt list \<Rightarrow> nat \<Rightarrow> (u64 \<times> u64) option" where
  "xlate l ts x = map_option (\<lambda>(w, k). ((w AND OUT) + of_nat (x mod blk k), attr_bits w)) (tlook l ts x)"

definition same :: "nat \<Rightarrow> pt list \<Rightarrow> pt list \<Rightarrow> bool" where
  "same l ts us \<longleftrightarrow> (\<forall>x. tlook l us x = tlook l ts x)"

definition mapped :: "nat \<Rightarrow> nat \<Rightarrow> nat \<Rightarrow> u64 \<Rightarrow> u64 \<Rightarrow> pt list \<Rightarrow> pt list \<Rightarrow> bool" where
  "mapped l a c pa attrs ts us \<longleftrightarrow>
     (\<forall>x. a \<le> x \<and> x < a + c \<longrightarrow> tlook l ts x = None \<and> xlate l us x = Some (pa + of_nat (x - a), attrs)) \<and>
     (\<forall>x. \<not> (a \<le> x \<and> x < a + c) \<longrightarrow> tlook l us x = tlook l ts x)"

lemma mapped_in:
  assumes "mapped l a c pa attrs ts us" "a \<le> x" "x < a + c"
  shows "tlook l ts x = None" "xlate l us x = Some (pa + of_nat (x - a), attrs)"
  using assms by (simp_all only: mapped_def)

lemma mapped_out: "mapped l a c pa attrs ts us \<Longrightarrow> \<not> (a \<le> x \<and> x < a + c) \<Longrightarrow> tlook l us x = tlook l ts x"
  unfolding mapped_def by blast

lemma xlate_cong: "tlook l us x = tlook l ts x \<Longrightarrow> xlate l us x = xlate l ts x"
  by (simp add: xlate_def)

lemma mapped_none [simp]: "mapped l a 0 pa attrs ts us \<longleftrightarrow> same l ts us"
  by (auto simp: mapped_def same_def)

lemma mapped_trans:
  assumes m: "mapped l a c pa attrs ts us" and n: "mapped l (a + c) d (pa + of_nat c) attrs us vs"
  shows "mapped l a (c + d) pa attrs ts vs"
  unfolding mapped_def
proof (intro conjI allI impI; (elim conjE)?)
  fix x
  {
    assume x: "a \<le> x" "x < a + (c + d)"
    show "tlook l ts x = None"
    proof (cases "x < a + c")
      case False
      then have "tlook l us x = None" using mapped_in(1) [OF n] x by simp
      then show ?thesis using mapped_out [OF m, of x] False by simp
    qed (rule mapped_in(1) [OF m x(1)])
    show "xlate l vs x = Some (pa + of_nat (x - a), attrs)"
    proof (cases "x < a + c")
      case True
      then have "xlate l vs x = xlate l us x" using mapped_out [OF n, of x] by (intro xlate_cong) simp
      then show ?thesis using mapped_in(2) [OF m x(1) True] by simp
    next
      case False
      then have "x - a = c + (x - (a + c))" by simp
      then show ?thesis using mapped_in(2) [OF n, of x] x False by (simp only: of_nat_add add.assoc)
    qed
  }
  show "tlook l vs x = tlook l ts x" if "\<not> (a \<le> x \<and> x < a + (c + d))"
    using that mapped_out [OF m, of x] mapped_out [OF n, of x] by auto
qed

lemma same_refl [simp]: "same l ts ts"
  by (simp add: same_def)

lemma same_mapped: "mapped l a c pa attrs ts us \<Longrightarrow> same l us vs \<Longrightarrow> mapped l a c pa attrs ts vs"
  using mapped_trans [of l a c pa attrs ts us 0 vs] by simp

text \<open>Taking a fresh range out again restores the translation.\<close>

lemma mapped_cut:
  assumes "mapped l a c pa attrs ts us"
  shows "same l ts (cuts l a (a + c) us)"
  unfolding same_def
proof
  fix x
  show "tlook l (cuts l a (a + c) us) x = tlook l ts x"
  proof (cases "a \<le> x \<and> x < a + c")
    case True
    have "hit a (a + c) k x" for k using True by (simp add: hit_in)
    then have "miss a (a + c) x r = None" for r by (auto simp: miss_def split: option.split)
    then show ?thesis using mapped_in(1) [OF assms] True by (simp add: tlook_cuts)
  next
    case False
    then have same: "tlook l us x = tlook l ts x" by (rule mapped_out [OF assms])
    have "\<not> hit a (a + c) k x" if lk: "tlook l ts x = Some (w, k)" for w k
    proof
      assume h: "hit a (a + c) k x"
      define y where "y = max a (x div blk k * blk k)"
      have "x div blk k * blk k \<le> y" "y < x div blk k * blk k + blk k" "a \<le> y" "y < a + c"
        using h by (auto simp: hit_def y_def)
      then have "y div blk k = x div blk k" by (intro div_nat_eqI) (simp_all add: algebra_simps)
      then have "tlook l ts y = Some (w, k)" by (rule tlook_block [OF lk])
      moreover have "tlook l ts y = None" by (rule mapped_in(1) [OF assms]) fact+
      ultimately show False by simp
    qed
    then show ?thesis by (auto simp: tlook_cuts same miss_def split: option.split)
  qed
qed

text \<open>A range of one entry, through the table below it.\<close>

lemma blk_mod: "k \<le> l \<Longrightarrow> (x mod blk l) mod blk k = x mod blk k"
  using blk_le [of k l] by (auto simp: mod_mod_cancel)

lemma xlate_Table:
  assumes "i < length ts" "x div blk (Suc k) = i"
  shows "xlate (Suc k) (ts[i := Table q us]) x = xlate k us (x mod blk (Suc k))"
proof -
  have "blk j dvd blk (Suc k)" if "j \<le> k" for j using blk_le [of j "Suc k"] that by auto
  then show ?thesis
    using assms tlook_level [of k us "x mod blk (Suc k)"]
    by (auto simp: xlate_def tlook_update mod_mod_cancel split: prod.splits intro!: option.map_cong)
qed

lemma mapped_Table:
  assumes i: "i < length ts" and ts: "\<And>x. x < blk (Suc k) \<Longrightarrow> look (Suc k) (ts ! i) x = tlook k us x"
    and r: "rem + c \<le> blk (Suc k)" and m: "mapped k rem c pa attrs us vs"
  shows "mapped (Suc k) (i * blk (Suc k) + rem) c pa attrs ts (ts[i := Table q vs])"
  unfolding mapped_def
proof (intro conjI allI impI; (elim conjE)?)
  fix x
  let ?B = "blk (Suc k)" and ?y = "x mod blk (Suc k)"
  have t: "tlook (Suc k) ts x = tlook k us ?y" "tlook (Suc k) (ts[i := Table q vs]) x = tlook k vs ?y" "x = i * ?B + ?y"
    if "x div ?B = i"
    using that i ts [of ?y] div_mult_mod_eq [of x ?B] by (simp_all add: tlook_def [of "Suc k"] tlook_update)
  {
    assume x: "i * ?B + rem \<le> x" "x < i * ?B + rem + c"
    then have "i * ?B \<le> x" "x < Suc i * ?B" using r by auto
    then have d: "x div ?B = i" by (intro div_nat_eqI) (simp_all add: algebra_simps)
    have y: "rem \<le> ?y" "?y < rem + c" "x - (i * ?B + rem) = ?y - rem" using x t(3) [OF d] by linarith+
    show "tlook (Suc k) ts x = None" using mapped_in(1) [OF m y(1,2)] t(1) [OF d] by simp
    show "xlate (Suc k) (ts[i := Table q vs]) x = Some (pa + of_nat (x - (i * ?B + rem)), attrs)"
      unfolding y(3) xlate_Table [OF i d] by (rule mapped_in(2) [OF m y(1,2)])
  }
  assume x: "\<not> (i * ?B + rem \<le> x \<and> x < i * ?B + rem + c)"
  show "tlook (Suc k) (ts[i := Table q vs]) x = tlook (Suc k) ts x"
  proof (cases "x div ?B = i")
    case True
    have "\<not> (rem \<le> ?y \<and> ?y < rem + c)" using x t(3) [OF True] by linarith
    then show ?thesis using t(1,2) [OF True] mapped_out [OF m] by simp
  qed (use i in \<open>simp add: tlook_update\<close>)
qed

section \<open>One entry\<close>

text \<open>The contract of the page allocator: what it gives out is aligned and not in use.\<close>

definition alloc_ok :: "pt_heap \<Rightarrow> bool" where
  "alloc_ok h \<longleftrightarrow> (\<forall>n m p. ph_alloc h n m = Some p \<longrightarrow> m p = None \<and> p AND OUT = p)"

lemma alloc_ok_upd: "upd l p ts us h h' \<Longrightarrow> alloc_ok h \<Longrightarrow> alloc_ok h'"
  by (simp add: upd_def alloc_ok_def)

text \<open>The outcome of a call on a table: with the code 0 the range is mapped, otherwise nothing changed.\<close>

definition outcome :: "nat \<Rightarrow> nat \<Rightarrow> nat \<Rightarrow> u64 \<Rightarrow> u64 \<Rightarrow> bool \<Rightarrow> pt list \<Rightarrow> pt list \<Rightarrow> bool" where
  "outcome l a c pa attrs ok ts us \<longleftrightarrow> (if ok then mapped l a c pa attrs ts us else same l ts us)"

definition no_tables :: "pt list" where
  "no_tables = replicate 512 Empty"

lemma no_tables [simp]: "length no_tables = 512" "utabs no_tables = {}" "tlook l no_tables x = None" "unshared no_tables"
  "i < 512 \<Longrightarrow> no_tables ! i = Empty"
  by (auto simp: no_tables_def utabs_def tlook_def unshared_def)

lemma reptab_no_tables: "m p = Some (replicate 512 0) \<Longrightarrow> reptab l m p no_tables"
  by (rule reptabI, assumption) simp_all

lemma get_page_table_ok:
  assumes r: "reptab (Suc k) (ph_mem h) tbl ts" and i: "i < length ts" and al: "alloc_ok h"
  obtains h' where "arm64_mmu_get_page_table i tbl h = Some (None, h')" "upd (Suc k) tbl ts ts h h'"
    | q us h' where "arm64_mmu_get_page_table i tbl h = Some (Some q, h')" "length us = 512"
      "upd (Suc k) tbl ts (ts[i := Table q us]) h h'"
      "\<And>x. x < blk (Suc k) \<Longrightarrow> look (Suc k) (ts ! i) x = tlook k us x"
proof -
  obtain es where es: "ph_mem h tbl = Some es" "length es = length ts" and e: "rep (Suc k) (ph_mem h) (es ! i) (ts ! i)"
    using r i by (auto elim: reptab_entries)
  have rd: "read_pte tbl i h = Some (es ! i)" using read_pte_ok [OF es(1)] i es(2) by simp
  from e show ?thesis
  proof (cases rule: rep_cases_entry)
    case 1
    let ?h = "h\<lparr>ph_cnt := ph_cnt h + 1\<rparr>"
    show ?thesis
    proof (cases "ph_alloc h (ph_cnt h) (ph_mem h)")
      case None
      then have "arm64_mmu_get_page_table i tbl h = Some (None, ?h)"
        using 1(2) by (simp add: arm64_mmu_get_page_table_def rd pte_desc_defs alloc_page_table_def)
      moreover have "upd (Suc k) tbl ts ts h ?h" using r by (simp add: upd_def)
      ultimately show ?thesis by (rule that(1))
    next
      case (Some q)
      then have q: "ph_mem h q = None" "q AND OUT = q" using al by (auto simp: alloc_ok_def)
      let ?m = "(ph_mem h)(q \<mapsto> replicate 512 0)"
      let ?h' = "?h\<lparr>ph_mem := ?m(tbl \<mapsto> es[i := q OR 3])\<rparr>"
      have ne: "q \<noteq> tbl" using q(1) es(1) by auto
      have "arm64_mmu_get_page_table i tbl h = Some (Some q, ?h')"
        using 1(2) Some es i ne
        by (simp add: arm64_mmu_get_page_table_def rd pte_desc_defs alloc_page_table_def write_pte_def)
      moreover have "rep (Suc k) ?m (q OR 3) (Table q no_tables)"
        using table_bits [OF q(2)] reptab_no_tables [of ?m q k] by (simp add: rep_Table)
      then have "upd (Suc k) tbl ts (ts[i := Table q no_tables]) h ?h'"
        using reptab_update [OF r es(1) i, of ?m "Table q no_tables" "q OR 3"] q(1) 1 by (simp add: upd_def chg_def)
      ultimately show ?thesis using 1(1) by (intro that(2) [of q ?h' no_tables]) auto
    qed
  next
    case 2
    then have "arm64_mmu_get_page_table i tbl h = Some (None, h)"
      by (simp add: arm64_mmu_get_page_table_def rd pte_desc_defs)
    then show ?thesis using upd_refl [OF r] by (rule that(1))
  next
    case (3 j q us)
    then have "arm64_mmu_get_page_table i tbl h = Some (Some q, h)"
      by (simp add: arm64_mmu_get_page_table_def rd pte_desc_defs)
    moreover have "ts[i := Table q us] = ts" using 3(2) by (metis list_update_id)
    ultimately show ?thesis using 3 upd_refl [OF r] by (intro that(2) [of q h us]) auto
  qed
qed

text \<open>A call on a table below an entry is a call on the entry.\<close>

lemma upd_Table:
  assumes r: "reptab (Suc k) (ph_mem h) tbl ts" and i: "i < length ts" and t: "ts ! i = Table q us" "length us = 512"
    and u: "upd k q us vs h h'"
  shows "upd (Suc k) tbl ts (ts[i := Table q vs]) h h'"
proof -
  obtain es where es: "ph_mem h tbl = Some es" and e: "rep (Suc k) (ph_mem h) (es ! i) (ts ! i)"
    using r i by (auto elim: reptab_entries)
  have "rep (Suc k) (ph_mem h') (es ! i) (Table q vs)" using e u t by (simp add: rep_Table upd_def)
  then show ?thesis using reptab_sub [OF r es i, of "ph_mem h'" "Table q vs"] u t(1) by (simp add: upd_def)
qed

text \<open>What a mapping call may assume, and what it does.\<close>

definition pa_ok :: "u64 \<Rightarrow> nat \<Rightarrow> bool" where
  "pa_ok pa c \<longleftrightarrow> pa AND mask 12 = 0 \<and> unat pa + c \<le> 2 ^ 48"

definition map_spec :: "nat \<Rightarrow> u64 \<Rightarrow> (u64 \<Rightarrow> nat \<Rightarrow> u64 \<Rightarrow> nat \<Rightarrow> u64 \<Rightarrow> pt_heap \<Rightarrow> (int \<times> pt_heap) option) \<Rightarrow> bool" where
  "map_spec l attrs f \<longleftrightarrow> (\<forall>va a pa c p us h. reptab l (ph_mem h) p us \<and> a + c \<le> length us * blk l \<and> alloc_ok h \<and>
     a mod 2 ^ 12 = 0 \<and> c mod 2 ^ 12 = 0 \<and> pa_ok pa c \<longrightarrow>
     (\<exists>ret h' vs. f va a pa c p h = Some (ret, h') \<and> upd l p us vs h h' \<and> outcome l a c pa attrs (ret = 0) us vs))"

lemma map_specD:
  assumes "map_spec l attrs f" "reptab l (ph_mem h) p us" "a + c \<le> length us * blk l" "alloc_ok h"
    "a mod 2 ^ 12 = 0" "c mod 2 ^ 12 = 0" "pa_ok pa c"
  obtains ret h' vs where "f va a pa c p h = Some (ret, h')" "upd l p us vs h h'" "outcome l a c pa attrs (ret = 0) us vs"
  using assms(1) [unfolded map_spec_def, rule_format, of h p us a c pa va] assms(2-7) that by blast

definition attrs_ok :: "u64 \<Rightarrow> bool" where
  "attrs_ok attrs \<longleftrightarrow> attrs AND OUT = 0 \<and> attrs AND 3 = 0"

lemma pa_ok_OUT: "pa_ok pa c \<Longrightarrow> 0 < c \<Longrightarrow> pa AND OUT = pa"
proof -
  assume "pa_ok pa c" "0 < c"
  then have a: "pa AND mask 12 = 0" "pa < 2 ^ 48" by (auto simp: pa_ok_def word_less_nat_alt)
  have b: "bit pa n \<Longrightarrow> 12 \<le> n \<and> n < 48" for n
    using arg_cong [OF a(1), of "\<lambda>w. bit w n"] arg_cong [OF less_mask_eq [OF a(2)], of "\<lambda>w. bit w n"]
    by (auto simp: bit_simps)
  have O: "OUT = mask 48 AND NOT (mask 12)" by code_simp
  show ?thesis unfolding O by (rule bit_word_eqI) (auto simp: bit_simps not_less dest: b)
qed

lemma map_leaf:
  assumes r: "reptab l (ph_mem h) tbl ts" and i: "i < length ts" and es: "ph_mem h tbl = Some es" "es ! i = 0"
    and pa: "pa AND OUT = pa" and at: "attrs_ok attrs"
    and w: "w = pa OR attrs OR (if l > 0 then MMU_PTE_L012_DESCRIPTOR_BLOCK else MMU_PTE_L3_DESCRIPTOR_PAGE)"
  shows "upd l tbl ts (ts[i := Leaf w]) h (h\<lparr>ph_mem := (ph_mem h)(tbl \<mapsto> es[i := w])\<rparr>)"
    and "mapped l (i * blk l) (blk l) pa attrs ts (ts[i := Leaf w])"
proof -
  have e: "rep l (ph_mem h) (es ! i) (ts ! i)" using r i es(1) by (auto elim: reptab_entries)
  then have t: "ts ! i = Empty" using es(2) by (simp add: rep_zero)
  let ?d = "if l > 0 then 1 else 3 :: u64"
  have d: "?d AND 3 = ?d" by simp
  have w': "w = pa OR attrs OR ?d" using w by (simp add: pte_desc_defs)
  note bits = pte_bits [OF pa _ _ d, of attrs, folded w']
  have "w AND 3 = ?d" using bits(2) at by (simp add: attrs_ok_def)
  then have "rep l (ph_mem h) w (Leaf w)" by simp
  then show "upd l tbl ts (ts[i := Leaf w]) h (h\<lparr>ph_mem := (ph_mem h)(tbl \<mapsto> es[i := w])\<rparr>)"
    using reptab_update [OF r es(1) i, of "ph_mem h" "Leaf w" w] t by (simp add: upd_def)
  show "mapped l (i * blk l) (blk l) pa attrs ts (ts[i := Leaf w])"
    unfolding mapped_def
  proof (intro conjI allI impI; (elim conjE)?)
    fix x
    {
      assume "i * blk l \<le> x" "x < i * blk l + blk l"
      then have "x div blk l = i" by (intro div_nat_eqI) (simp_all add: algebra_simps)
      moreover from this have "x mod blk l = x - i * blk l" by (simp add: minus_mult_div_eq_mod [symmetric] mult.commute)
      moreover have "w AND OUT = pa" "attr_bits w = attrs" using bits(1,3) at by (simp_all add: attrs_ok_def)
      ultimately show "tlook l ts x = None" "xlate l (ts[i := Leaf w]) x = Some (pa + of_nat (x - i * blk l), attrs)"
        using i t by (simp_all only: xlate_def tlook_update tlook_def [of l ts] look.simps if_P option.map split_conv)
    }
    assume "\<not> (i * blk l \<le> x \<and> x < i * blk l + blk l)"
    moreover have "x = x div blk l * blk l + x mod blk l" "x mod blk l < blk l" by simp_all
    ultimately have "x div blk l \<noteq> i" by (metis add_less_cancel_left le_add1)
    then show "tlook l (ts[i := Leaf w]) x = tlook l ts x" using i by (simp add: tlook_update)
  qed
qed

lemma map_entry_ok:
  assumes r: "reptab l (ph_mem h) tbl ts" and i: "i < length ts" and c: "rem + c \<le> blk l" "0 < c"
    and al: "alloc_ok h" and page: "rem mod 2 ^ 12 = 0" "c mod 2 ^ 12 = 0" and pa: "pa_ok pa c" and at: "attrs_ok attrs"
    and rec: "\<And>k. l = Suc k \<Longrightarrow> map_spec k attrs rec"
    and low: "l = 0 \<Longrightarrow> rem = 0 \<and> c = blk 0"
  shows "\<exists>ok h' us. map_entry rec l va rem pa c attrs i tbl h = Some (ok, h') \<and> upd l tbl ts us h h' \<and>
    outcome l (i * blk l + rem) c pa attrs ok ts us"
proof -
  let ?deep = "rem \<noteq> 0 \<or> pa AND mask (pt_shift l) \<noteq> 0 \<or> c \<noteq> 2 ^ pt_shift l \<or> pt_shift l > MMU_PTE_DESCRIPTOR_BLOCK_MAX_SHIFT"
  show ?thesis
  proof (cases ?deep)
    case True
    then obtain k where l: "l = Suc k"
      using low pa by (cases l) (auto simp: pa_ok_def pt_shift_def blk_def MMU_PTE_DESCRIPTOR_BLOCK_MAX_SHIFT_def)
    show ?thesis
    proof (rule get_page_table_ok [OF r [unfolded l] i al])
      fix h' assume "arm64_mmu_get_page_table i tbl h = Some (None, h')" "upd (Suc k) tbl ts ts h h'"
      then show ?thesis using True by (intro exI [of _ False] exI [of _ h'] exI [of _ ts]) (simp add: l map_entry_def outcome_def)
    next
      fix q us h1
      assume g: "arm64_mmu_get_page_table i tbl h = Some (Some q, h1)" "length us = 512"
        and u1: "upd (Suc k) tbl ts (ts[i := Table q us]) h h1"
        and lk: "\<And>x. x < blk (Suc k) \<Longrightarrow> look (Suc k) (ts ! i) x = tlook k us x"
      have r1: "reptab (Suc k) (ph_mem h1) tbl (ts[i := Table q us])" using u1 by (simp add: upd_def)
      then have "rep (Suc k) (ph_mem h1) (the (ph_mem h1 tbl) ! i) (Table q us)"
        using i by (auto elim!: reptab_entries)
      then have q: "reptab k (ph_mem h1) q us" by (simp add: rep_Table)
      obtain ret h2 vs where f: "rec va rem pa c q h1 = Some (ret, h2)" and u2: "upd k q us vs h1 h2"
          and o: "outcome k rem c pa attrs (ret = 0) us vs"
        by (rule map_specD [OF rec [OF l] q _ alloc_ok_upd [OF u1 al] page pa]) (use c g(2) l blk_Suc in auto)
      have "upd (Suc k) tbl (ts[i := Table q us]) ((ts[i := Table q us])[i := Table q vs]) h1 h2"
        by (rule upd_Table [OF r1 _ _ g(2) u2]) (use i in simp_all)
      then have u: "upd (Suc k) tbl ts (ts[i := Table q vs]) h h2" using upd_trans [OF u1] by simp
      have "outcome (Suc k) (i * blk (Suc k) + rem) c pa attrs (ret = 0) ts (ts[i := Table q vs])"
      proof (cases "ret = 0")
        case True
        then show ?thesis using mapped_Table [OF i lk, of rem c pa attrs vs q] o c(1) l by (simp add: outcome_def)
      next
        case False
        then show ?thesis using mapped_Table [OF i lk, of rem 0 pa attrs vs q] o c(1) l by (simp add: outcome_def)
      qed
      then show ?thesis using True g(1) f u
        by (intro exI [of _ "ret = 0"] exI [of _ h2] exI [of _ "ts[i := Table q vs]"]) (simp add: l map_entry_def)
    qed
  next
    case False
    obtain es where es: "ph_mem h tbl = Some es" "length es = length ts" using r by (auto elim: reptab_entries)
    have rd: "read_pte tbl i h = Some (es ! i)" using read_pte_ok [OF es(1)] i es(2) by simp
    show ?thesis
    proof (cases "es ! i = 0")
      case z: True
      define w where "w = pa OR attrs OR (if l > 0 then MMU_PTE_L012_DESCRIPTOR_BLOCK else MMU_PTE_L3_DESCRIPTOR_PAGE)"
      note leaf = map_leaf [OF r i es(1) z pa_ok_OUT [OF pa c(2)] at w_def]
      let ?h = "h\<lparr>ph_mem := (ph_mem h)(tbl \<mapsto> es[i := w])\<rparr>"
      have "map_entry rec l va rem pa c attrs i tbl h = Some (True, ?h)"
        using False z i es by (simp add: map_entry_def rd w_def [symmetric] write_pte_ok)
      moreover have "outcome l (i * blk l + rem) c pa attrs True ts (ts[i := Leaf w])"
        using leaf(2) False by (simp add: outcome_def blk_def)
      ultimately show ?thesis using leaf(1) by blast
    next
      case nz: False
      then have "map_entry rec l va rem pa c attrs i tbl h = Some (False, h)"
        using False by (simp add: map_entry_def rd)
      then show ?thesis using upd_refl [OF r] by (intro exI [of _ False] exI [of _ h] exI [of _ ts]) (simp add: outcome_def)
    qed
  qed
qed

section \<open>The loop\<close>

lemma chunk_page:
  assumes "a mod 2 ^ 12 = 0" "sz mod 2 ^ 12 = 0"
  shows "(a mod blk l) mod 2 ^ 12 = 0" "min sz (blk l - a mod blk l) mod 2 ^ 12 = 0"
proof -
  have b: "2 ^ 12 dvd blk l" by (simp add: blk_def pt_shift_def power_add)
  then show m: "(a mod blk l) mod 2 ^ 12 = 0" using assms(1) by (simp add: mod_mod_cancel)
  then have "(blk l - a mod blk l) mod 2 ^ 12 = 0" using b by (simp add: mod_eq_0_iff_dvd dvd_diff_nat)
  then show "min sz (blk l - a mod blk l) mod 2 ^ 12 = 0" using assms(2) by (simp add: min_def)
qed

lemma pa_ok_rest: "pa_ok pa sz \<Longrightarrow> c \<le> sz \<Longrightarrow> pa_ok pa c"
  by (simp add: pa_ok_def)

lemma mask_page: "w AND mask 12 = 0 \<longleftrightarrow> unat (w :: u64) mod 2 ^ 12 = 0"
proof -
  have "w AND mask 12 = 0 \<longleftrightarrow> unat (take_bit 12 w) = 0" by (simp add: take_bit_eq_mask unat_eq_0)
  also have "unat (take_bit 12 w) = unat w mod 2 ^ 12" unfolding unsigned_take_bit_eq by (rule take_bit_eq_mod)
  finally show ?thesis .
qed

lemma pa_ok_next:
  assumes "pa_ok pa sz" "c \<le> sz" "c mod 2 ^ 12 = 0"
  shows "pa_ok (pa + of_nat c) (sz - c)"
proof -
  have "unat (pa + of_nat c) = unat pa + c"
    using assms by (simp add: pa_ok_def unat_word_ariths unat_of_nat_less)
  then show ?thesis using assms by (simp add: pa_ok_def mask_page) (metis mod_add_eq add.right_neutral mod_0)
qed

lemma map_loop_ok:
  assumes "reptab l (ph_mem h) tbl ts" "a + sz \<le> length ts * blk l" "alloc_ok h"
    and "a mod 2 ^ 12 = 0" "sz mod 2 ^ 12 = 0" "pa_ok pa sz" "attrs_ok attrs"
    and rec: "\<And>k. l = Suc k \<Longrightarrow> map_spec k attrs rec"
  shows "\<exists>n h' us. map_loop rec l va a pa sz attrs tbl h = Some (sz - n, h') \<and> n \<le> sz \<and> upd l tbl ts us h h' \<and>
    mapped l a n pa attrs ts us"
  using assms(1-7)
proof (induction sz arbitrary: va a pa ts h rule: less_induct)
  case (less sz)
  show ?case
  proof (cases "sz = 0")
    case True
    then show ?thesis using upd_refl [OF less.prems(1)] by (auto simp: map_loop.simps)
  next
    case False
    define i c where "i = a div blk l" and "c = min sz (blk l - a mod blk l)"
    have c: "0 < c" "a mod blk l + c \<le> blk l" "c \<le> sz"
      using False mod_less_divisor [OF blk_pos(1), of a l] unfolding c_def by linarith+
    have i: "i < length ts" using False less.prems(2) by (simp add: i_def div_less_iff_less_mult)
    have pg: "(a mod blk l) mod 2 ^ 12 = 0" "c mod 2 ^ 12 = 0"
      using chunk_page [OF less.prems(4,5), of l] by (simp_all add: c_def)
    have low: "a mod blk l = 0 \<and> c = blk 0" if "l = 0"
      using that less.prems(4,5) c(1,3) by (auto simp: c_def blk_def pt_shift_def min_def)
    have a: "i * blk l + a mod blk l = a" by (simp add: i_def)
    obtain ok h1 us where e: "map_entry rec l va (a mod blk l) pa c attrs i tbl h = Some (ok, h1)"
        and u1: "upd l tbl ts us h h1" and o: "outcome l a c pa attrs ok ts us"
      using map_entry_ok [OF less.prems(1) i c(2,1) less.prems(3) pg pa_ok_rest [OF less.prems(6) c(3)]
          less.prems(7) rec low, of va] unfolding a by blast
    have run: "map_loop rec l va a pa sz attrs tbl h =
        (if ok then map_loop rec l (va + of_nat c) (a + c) (pa + of_nat c) (sz - c) attrs tbl h1 else Some (sz, h1))"
      using False e
      by (simp add: map_loop.simps [of _ _ _ _ _ sz] chunk_of_blk blk_def [symmetric] i_def c_def [symmetric] Let_def)
    show ?thesis
    proof (cases ok)
      case True
      have r1: "reptab l (ph_mem h1) tbl us" "a + c + (sz - c) \<le> length us * blk l" "alloc_ok h1"
        using u1 less.prems(2) c(3) alloc_ok_upd [OF u1 less.prems(3)] by (simp_all add: upd_def)
      have d: "2 ^ 12 dvd a" "2 ^ 12 dvd sz" "2 ^ 12 dvd c" using less.prems(4,5) pg(2) by (simp_all only: mod_eq_0_iff_dvd)
      then have pg1: "(a + c) mod 2 ^ 12 = 0" "(sz - c) mod 2 ^ 12 = 0"
        by (simp_all only: mod_eq_0_iff_dvd dvd_add dvd_diff_nat)
      have "sz - c < sz" using c by simp
      from less.IH [OF this r1 pg1 pa_ok_next [OF less.prems(6) c(3) pg(2)] less.prems(7), of "va + of_nat c"]
      obtain n h2 vs where r: "map_loop rec l (va + of_nat c) (a + c) (pa + of_nat c) (sz - c) attrs tbl h1 = Some (sz - c - n, h2)"
          "n \<le> sz - c" and u2: "upd l tbl us vs h1 h2" and m: "mapped l (a + c) n (pa + of_nat c) attrs us vs" by blast
      have "mapped l a (c + n) pa attrs ts vs" using mapped_trans [OF _ m] o True by (simp add: outcome_def)
      then show ?thesis using True run r upd_trans [OF u1 u2] c(3)
        by (intro exI [of _ "c + n"] exI [of _ h2] exI [of _ vs]) simp
    next
      case False
      then show ?thesis using run u1 o by (intro exI [of _ 0] exI [of _ h1] exI [of _ us]) (simp add: outcome_def)
    qed
  qed
qed

lemma map_pt_body_ok:
  assumes "\<And>k. l = Suc k \<Longrightarrow> map_spec k attrs rec" "attrs_ok attrs"
  shows "map_spec l attrs (\<lambda>va a pa c p h. map_pt_body rec l asid attrs va a pa c p h)"
  unfolding map_spec_def
proof (intro allI impI; elim conjE)
  fix va a pa c p us h
  assume r: "reptab l (ph_mem h) p us" "a + c \<le> length us * blk l" "alloc_ok h" and pg: "a mod 2 ^ 12 = 0" "c mod 2 ^ 12 = 0"
    and pa: "pa_ok pa c"
  obtain n h1 vs where l: "map_loop rec l va a pa c attrs p h = Some (c - n, h1)" "n \<le> c" and u: "upd l p us vs h h1"
      and m: "mapped l a n pa attrs us vs"
    using map_loop_ok [OF r pg pa assms(2,1)] by blast
  show "\<exists>ret h' vs. map_pt_body rec l asid attrs va a pa c p h = Some (ret, h') \<and> upd l p us vs h h' \<and>
    outcome l a c pa attrs (ret = 0) us vs"
  proof (cases "n = c")
    case True
    then have "map_pt_body rec l asid attrs va a pa c p h = Some (0, h1)"
      using l pg pa by (simp add: map_pt_body_def pa_ok_def)
    then show ?thesis using u m True by (auto simp: outcome_def)
  next
    case False
    have "a + n \<le> length vs * blk l" "reptab l (ph_mem h1) p vs" using r(2) l(2) u by (simp_all add: upd_def)
    then obtain h2 where un: "arm64_mmu_unmap_pt l asid va a n p h1 = Some h2" and u2: "upd l p vs (cuts l a (a + n) vs) h1 h2"
      using unmap_pt_ok by blast
    have "map_pt_body rec l asid attrs va a pa c p h = Some (ERR_GENERIC, h2)"
      using l pg pa False un by (simp add: map_pt_body_def pa_ok_def)
    then show ?thesis using upd_trans [OF u u2] mapped_cut [OF m] by (auto simp: outcome_def ERR_GENERIC_def)
  qed
qed

lemma map_pt_ok: "attrs_ok attrs \<Longrightarrow> map_spec l attrs (arm64_mmu_map_pt l asid attrs)"
proof (induction l)
  case 0
  have "arm64_mmu_map_pt 0 asid attrs = (\<lambda>va a pa c p h. map_pt_body (\<lambda>_ _ _ _ _ _. None) 0 asid attrs va a pa c p h)"
    by (intro ext) simp
  then show ?case using map_pt_body_ok [OF _ 0] by simp
next
  case (Suc l)
  have *: "arm64_mmu_map_pt (Suc l) asid attrs =
      (\<lambda>va a pa c p h. map_pt_body (arm64_mmu_map_pt l asid attrs) (Suc l) asid attrs va a pa c p h)"
    by (intro ext) simp
  show ?case unfolding * by (rule map_pt_body_ok) (use Suc in auto)
qed

end
