(* ===== verification/PageProperties.thy ===== *)
theory PageProperties
  imports PageMap
begin

text \<open>
  What the functions of \<^verbatim>\<open>arch/arm64/mmu.c\<close> do to the translation that the hardware performs, with no
  mention of the trees: \<open>hw_walk\<close> is the walk of the hardware over the tables in memory.
\<close>

section \<open>The walk of the hardware\<close>

text \<open>The leaf entry for an offset, with its level; an invalid entry ends in a fault, \<^term>\<open>None\<close>.\<close>

fun hw_walk :: "nat \<Rightarrow> pt_mem \<Rightarrow> u64 \<Rightarrow> nat \<Rightarrow> (u64 \<times> nat) option" where
  "hw_walk l m t x = do {
     es \<leftarrow> m t;
     if x div blk l < length es then
       let e = es ! (x div blk l) in
       if e AND 3 = (if l = 0 then 3 else 1) then Some (e, l)
       else if e AND 3 = 3 then (case l of 0 \<Rightarrow> None | Suc k \<Rightarrow> hw_walk k m (e AND OUT) (x mod blk l))
       else None
     else None }"

declare hw_walk.simps [simp del]

lemma hw_walk_tlook: "reptab l m t ts \<Longrightarrow> hw_walk l m t x = tlook l ts x"
proof (induction l arbitrary: t ts x)
  case (0 t ts)
  then obtain es where es: "m t = Some es" "length es = length ts" "\<And>i. i < length ts \<Longrightarrow> rep 0 m (es ! i) (ts ! i)"
    by (auto elim!: reptab_entries)
  show ?case
  proof (cases "x div blk 0 < length ts")
    case True
    from es(3) [OF True] show ?thesis
      by (cases rule: rep_cases_entry) (use True es in \<open>auto simp: hw_walk.simps tlook_def Let_def\<close>)
  qed (use es in \<open>simp add: hw_walk.simps tlook_def\<close>)
next
  case (Suc l t ts)
  then obtain es where es: "m t = Some es" "length es = length ts" "\<And>i. i < length ts \<Longrightarrow> rep (Suc l) m (es ! i) (ts ! i)"
    by (auto elim!: reptab_entries)
  show ?case
  proof (cases "x div blk (Suc l) < length ts")
    case True
    from es(3) [OF True] show ?thesis
    proof (cases rule: rep_cases_entry)
      case (3 k p us)
      have "hw_walk l m p (x mod blk (Suc l)) = tlook l us (x mod blk (Suc l))"
        using 3 by (intro Suc.IH) simp
      then show ?thesis using True es 3 by (simp add: hw_walk.simps [of "Suc k"] tlook_def [of "Suc k"] Let_def)
    qed (use True es in \<open>simp_all add: hw_walk.simps tlook_def [of "Suc l"] Let_def\<close>)
  qed (use es in \<open>simp add: hw_walk.simps tlook_def\<close>)
qed

text \<open>The physical address and the attributes that the hardware finds.\<close>

definition hw_xlate :: "nat \<Rightarrow> pt_mem \<Rightarrow> u64 \<Rightarrow> nat \<Rightarrow> (u64 \<times> u64) option" where
  "hw_xlate l m t x = map_option (\<lambda>(w, k). ((w AND OUT) + of_nat (x mod blk k), attr_bits w)) (hw_walk l m t x)"

lemma hw_xlate_eq: "reptab l m t ts \<Longrightarrow> hw_xlate l m t x = xlate l ts x"
  by (simp add: hw_xlate_def xlate_def hw_walk_tlook)

section \<open>Address spaces\<close>

text \<open>A top table of \<open>n\<close> entries at level \<open>l\<close>; \<open>A\<close> are the tables that belong to it, itself included.\<close>

definition pt_space :: "nat \<Rightarrow> nat \<Rightarrow> pt_mem \<Rightarrow> u64 \<Rightarrow> u64 set \<Rightarrow> bool" where
  "pt_space l n m t A \<longleftrightarrow> (\<exists>ts. length ts = n \<and> reptab l m t ts \<and> A = insert t (utabs ts))"

lemma pt_spaceI: "reptab l m t ts \<Longrightarrow> pt_space l (length ts) m t (insert t (utabs ts))"
  by (auto simp: pt_space_def)

lemma pt_space_new: "m t = Some (replicate n 0) \<Longrightarrow> pt_space l n m t {t}"
  unfolding pt_space_def
  by (rule exI [of _ "replicate n Empty"], intro conjI reptabI, simp, assumption)
     (auto simp: unshared_def utabs_def)

lemma pt_space_new_walk: "m t = Some (replicate n 0) \<Longrightarrow> hw_walk l m t x = None"
  by (simp add: hw_walk.simps)

text \<open>Changes elsewhere do not matter.\<close>

lemma pt_space_frame:
  assumes "pt_space l n m t A" "\<And>p. p \<in> A \<Longrightarrow> m' p = m p"
  shows "pt_space l n m' t A" "hw_walk l m' t x = hw_walk l m t x"
proof -
  obtain ts where ts: "length ts = n" "reptab l m t ts" "A = insert t (utabs ts)" using assms(1) by (auto simp: pt_space_def)
  have r: "reptab l m' t ts" using ts(2) by (rule reptab_frame) (use assms(2) ts(3) in blast)
  then show "pt_space l n m' t A" using ts by (auto simp: pt_space_def)
  show "hw_walk l m' t x = hw_walk l m t x" using hw_walk_tlook [OF r] hw_walk_tlook [OF ts(2)] by simp
qed

section \<open>Calls on an address space\<close>

text \<open>A top table of \<open>n\<close> entries at level \<open>l\<close> covers \<open>s\<close> bits.\<close>

definition covers_bits :: "nat \<Rightarrow> nat \<Rightarrow> nat \<Rightarrow> bool" where
  "covers_bits l n s \<longleftrightarrow> n * 2 ^ pt_shift l = 2 ^ s \<and> s < 64"

definition rel_of :: "u64 \<Rightarrow> u64 \<Rightarrow> nat" where
  "rel_of vaddr base = unat (vaddr - base)"

lemma range_check:
  assumes "s < 64"
  shows "(vaddr - base > push_bit s 1 - sz \<or> sz > push_bit s (1 :: u64)) \<longleftrightarrow> \<not> rel_of vaddr base + unat sz \<le> 2 ^ s"
proof -
  have m: "unat (push_bit s (1 :: u64)) = 2 ^ s" 
  proof -
    have "push_bit s 1 = (of_nat (2 ^ s) :: u64)" by simp
    also have "unat \<dots> = 2 ^ s" by (rule unat_of_nat_less) (use assms power_strict_increasing [of s 64 "2 :: nat"] in simp)
    finally show ?thesis .
  qed
  show ?thesis
  proof (cases "sz > push_bit s (1 :: u64)")
    case True
    then show ?thesis using m by (simp add: word_less_nat_alt)
  next
    case False
    then have "unat (push_bit s 1 - sz) = 2 ^ s - unat sz" using m by (simp add: unat_sub not_less)
    then show ?thesis using False m by (auto simp: word_less_nat_alt rel_of_def)
  qed
qed

lemma map_pt_unaligned:
  "\<not> (a mod 2 ^ 12 = 0 \<and> pa AND mask 12 = 0 \<and> c mod 2 ^ 12 = 0) \<Longrightarrow>
    arm64_mmu_map_pt l asid attrs va a pa c t h = Some (ERR_INVALID_ARGS, h)"
  by (cases l) (auto simp: map_pt_body_def)

lemma mmu_map_outcome:
  assumes "reptab l (ph_mem h) t ts" "covers_bits l (length ts) s" "alloc_ok h" "attrs_ok attrs" "unat paddr + unat sz \<le> 2 ^ 48"
  obtains ret h' us where "arm64_mmu_map vaddr paddr sz attrs base s l (Some t) asid h = Some (ret, h')"
    "upd l t ts us h h'" "outcome l (rel_of vaddr base) (unat sz) paddr attrs (ret = 0) ts us"
    "ret = 0 \<Longrightarrow> rel_of vaddr base + unat sz \<le> 2 ^ s"
proof -
  let ?a = "rel_of vaddr base"
  have unchanged: "upd l t ts ts h h" "outcome l ?a (unat sz) paddr attrs (ERR_INVALID_ARGS = 0) ts ts"
    using upd_refl [OF assms(1)] by (simp_all add: outcome_def ERR_INVALID_ARGS_def)
  have s: "s < 64" and n: "length ts * blk l = 2 ^ s" using assms(2) by (simp_all add: covers_bits_def blk_def)
  have run: "arm64_mmu_map vaddr paddr sz attrs base s l (Some t) asid h =
      (if ?a + unat sz \<le> 2 ^ s then arm64_mmu_map_pt l asid attrs vaddr ?a paddr (unat sz) t h else Some (ERR_INVALID_ARGS, h))"
    unfolding arm64_mmu_map_def Let_def range_check [OF s] by (simp add: rel_of_def)
  show ?thesis
  proof (cases "?a + unat sz \<le> 2 ^ s \<and> ?a mod 2 ^ 12 = 0 \<and> paddr AND mask 12 = 0 \<and> unat sz mod 2 ^ 12 = 0")
    case True
    then show ?thesis
      using map_specD [OF map_pt_ok [OF assms(4)] assms(1), of ?a "unat sz" paddr asid vaddr] assms(3,5) n run that
      by (auto simp: pa_ok_def)
  next
    case False
    then have "arm64_mmu_map vaddr paddr sz attrs base s l (Some t) asid h = Some (ERR_INVALID_ARGS, h)"
      using map_pt_unaligned [of ?a paddr "unat sz" l asid attrs vaddr t h] run by auto
    then show ?thesis by (rule that [OF _ unchanged]) (simp add: ERR_INVALID_ARGS_def)
  qed
qed

lemma mmu_unmap_outcome:
  assumes "reptab l (ph_mem h) t ts" "covers_bits l (length ts) s" "rel_of vaddr base + unat sz \<le> 2 ^ s"
  obtains h' where "arm64_mmu_unmap vaddr sz base s l (Some t) asid h = Some (0, h')"
    "upd l t ts (cuts l (rel_of vaddr base) (rel_of vaddr base + unat sz) ts) h h'"
proof -
  have s: "s < 64" and n: "length ts * blk l = 2 ^ s" using assms(2) by (simp_all add: covers_bits_def blk_def)
  obtain h' where h': "arm64_mmu_unmap_pt l asid vaddr (rel_of vaddr base) (unat sz) t h = Some h'"
      and u: "upd l t ts (cuts l (rel_of vaddr base) (rel_of vaddr base + unat sz) ts) h h'"
    using unmap_pt_ok [OF assms(1)] assms(3) n by metis
  have "arm64_mmu_unmap vaddr sz base s l (Some t) asid h = Some (0, h')"
    unfolding arm64_mmu_unmap_def Let_def range_check [OF s] using h' assms(3) by (simp add: rel_of_def)
  then show ?thesis using u by (rule that)
qed

lemma upd_space:
  assumes "upd l t ts us h h'" "length ts = n"
  shows "pt_space l n (ph_mem h') t (insert t (utabs us))" "chg (ph_mem h) (ph_mem h') (insert t (utabs ts)) (insert t (utabs us))"
  using assms by (auto simp: upd_def pt_space_def)

section \<open>The kernel's own walk\<close>

lemma walk_index:
  fixes rem :: u64
  assumes "unat rem div blk l < 512"
  shows "unat (ucast (drop_bit (pt_shift l) rem) :: u32) = unat rem div blk l"
    and "rem - push_bit (pt_shift l) (ucast (ucast (drop_bit (pt_shift l) rem) :: u32)) = of_nat (unat rem mod blk l)"
proof -
  have d: "unat (drop_bit (pt_shift l) rem) = unat rem div blk l"
    unfolding unat_drop_bit_eq blk_def by (rule drop_bit_eq_div)
  then show i: "unat (ucast (drop_bit (pt_shift l) rem) :: u32) = unat rem div blk l"
    using assms by (simp add: unat_ucast_u64)
  have "ucast (ucast (drop_bit (pt_shift l) rem) :: u32) = drop_bit (pt_shift l) rem"
    using assms by (intro word_unat_eq_iff [THEN iffD2]) (simp add: unat_ucast_u32 i d)
  then have "rem - push_bit (pt_shift l) (ucast (ucast (drop_bit (pt_shift l) rem) :: u32)) = take_bit (pt_shift l) rem"
    using bits_ident [of "pt_shift l" rem] by (simp add: algebra_simps)
  also have "\<dots> = of_nat (unat rem mod blk l)"
    by (simp add: blk_def take_bit_eq_mod [symmetric] unsigned_take_bit_eq [symmetric] del: unsigned_take_bit_eq)
  finally show "rem - push_bit (pt_shift l) (ucast (ucast (drop_bit (pt_shift l) rem) :: u32)) = of_nat (unat rem mod blk l)" .
qed

lemma query_loop_ok:
  assumes "reptab l (ph_mem h) t ts" "length ts \<le> 512" "unat rem div blk l < length ts"
  shows "query_loop l t rem h = (case tlook l ts (unat rem) of None \<Rightarrow> Some (ERR_NOT_FOUND, None)
    | Some (w, k) \<Rightarrow> Some (0, Some (w, of_nat (unat rem mod blk k))))"
  using assms
proof (induction l arbitrary: t ts rem)
  case (0 t ts rem)
  then obtain es where es: "ph_mem h t = Some es" "length es = length ts"
      "rep 0 (ph_mem h) (es ! (unat rem div blk 0)) (ts ! (unat rem div blk 0))"
    by (auto elim!: reptab_entries)
  have i: "unat rem div blk 0 < 512" using 0 by linarith
  note q = query_loop.simps [of 0 t rem h, unfolded Let_def walk_index [OF i]]
  from es(3) show ?case
    by (cases rule: rep_cases_entry) (use 0 es in \<open>auto simp: q read_pte_ok tlook_def pte_desc_defs\<close>)
next
  case (Suc l t ts rem)
  let ?i = "unat rem div blk (Suc l)" and ?x = "unat rem mod blk (Suc l)"
  obtain es where es: "ph_mem h t = Some es" "length es = length ts" "rep (Suc l) (ph_mem h) (es ! ?i) (ts ! ?i)"
    using Suc.prems by (auto elim!: reptab_entries)
  have i: "?i < 512" using Suc.prems by linarith
  note q = query_loop.simps [of "Suc l" t rem h, unfolded Let_def walk_index [OF i]]
  from es(3) show ?case
  proof (cases rule: rep_cases_entry)
    case (3 k p us)
    have "?x \<le> unat rem" by simp
    then have x: "unat (of_nat ?x :: u64) = ?x" by (intro unat_of_nat_less le_less_trans [OF _ unsigned_less [of rem]])
    have "?x div blk l < 512" by (simp add: blk_Suc less_mult_imp_div_less)
    then have "query_loop l p (of_nat ?x) h = (case tlook l us ?x of None \<Rightarrow> Some (ERR_NOT_FOUND, None)
      | Some (w, k) \<Rightarrow> Some (0, Some (w, of_nat (?x mod blk k))))"
      using Suc.IH [of p us "of_nat ?x", unfolded x] 3(1,5,6) by simp
    moreover have "tlook (Suc l) ts (unat rem) = tlook l us ?x" using 3(1,2) Suc.prems(3) by (simp add: tlook_def [of "Suc k"])
    moreover have "query_loop (Suc l) t rem h = query_loop l p (of_nat ?x) h"
      using es Suc.prems(3) 3(3,4) by (simp add: q read_pte_ok pte_desc_defs)
    moreover have "?x mod blk j = unat rem mod blk j" if "j \<le> l" for j using blk_mod [of j "Suc l"] that by simp
    ultimately show ?thesis using tlook_level [of l us ?x] by (auto split: option.split)
  qed (use es Suc.prems in \<open>auto simp: q read_pte_ok tlook_def [of "Suc l"] pte_desc_defs\<close>)
qed

text \<open>The flags of an entry are in its attributes.\<close>

lemma attrs_flags: "pte_to_mmu_flags (attr_bits w) = pte_to_mmu_flags w"
proof -
  have m: "(w AND NOT (OUT OR 3)) AND m = w AND m" if "NOT (OUT OR 3) AND m = m" for m
    using that by (simp only: and.assoc)
  have "NOT (OUT OR 3) AND MMU_PTE_ATTR_NON_SECURE = MMU_PTE_ATTR_NON_SECURE"
    "NOT (OUT OR 3) AND MMU_PTE_ATTR_ATTR_INDEX_MASK = MMU_PTE_ATTR_ATTR_INDEX_MASK"
    "NOT (OUT OR 3) AND MMU_PTE_ATTR_AP_MASK = MMU_PTE_ATTR_AP_MASK"
    "NOT (OUT OR 3) AND MMU_PTE_ATTR_UXN = MMU_PTE_ATTR_UXN"
    "NOT (OUT OR 3) AND MMU_PTE_ATTR_PXN = MMU_PTE_ATTR_PXN" by code_simp+
  from this [THEN m] show ?thesis by (simp only: pte_to_mmu_flags_def attr_bits_def)
qed

lemmas mmu_defs = mmu_flags_to_pte_attr_def pte_to_mmu_flags_def ARCH_MMU_FLAG_CACHED_def ARCH_MMU_FLAG_UNCACHED_def
  ARCH_MMU_FLAG_UNCACHED_DEVICE_def ARCH_MMU_FLAG_CACHE_MASK_def ARCH_MMU_FLAG_PERM_USER_def ARCH_MMU_FLAG_PERM_RO_def
  ARCH_MMU_FLAG_PERM_NO_EXECUTE_def ARCH_MMU_FLAG_NS_def MMU_PTE_ATTR_UXN_def MMU_PTE_ATTR_PXN_def MMU_PTE_ATTR_AF_def
  MMU_PTE_ATTR_SH_INNER_SHAREABLE_def MMU_PTE_ATTR_AP_P_RW_U_NA_def MMU_PTE_ATTR_AP_P_RW_U_RW_def
  MMU_PTE_ATTR_AP_P_RO_U_NA_def MMU_PTE_ATTR_AP_P_RO_U_RO_def MMU_PTE_ATTR_AP_MASK_def MMU_PTE_ATTR_NON_SECURE_def
  MMU_PTE_ATTR_ATTR_INDEX_MASK_def MMU_PTE_ATTR_STRONGLY_ORDERED_def MMU_PTE_ATTR_DEVICE_def
  MMU_PTE_ATTR_NORMAL_MEMORY_def MMU_PTE_OUTPUT_ADDR_MASK_def

lemma mmu_flags_all:
  "list_all (\<lambda>f. f AND 3 = 3 \<or> (mmu_flags_to_pte_attr f AND OUT = 0 \<and> mmu_flags_to_pte_attr f AND 3 = 0 \<and>
     pte_to_mmu_flags (mmu_flags_to_pte_attr f) = Some f)) (map of_nat [0..<64])"
  by (simp add: upt_conv_Cons mmu_defs)

lemma mmu_flags_valid:
  assumes "flags < 64" "flags AND ARCH_MMU_FLAG_CACHE_MASK \<noteq> 3"
  shows "attrs_ok (mmu_flags_to_pte_attr flags)" "pte_to_mmu_flags (mmu_flags_to_pte_attr flags) = Some flags"
proof -
  have "unat flags < 64" using assms(1) by (simp add: word_less_nat_alt)
  then have "flags \<in> set (map of_nat [0..<64])" by (auto intro!: image_eqI [of _ _ "unat flags"])
  then show "attrs_ok (mmu_flags_to_pte_attr flags)" "pte_to_mmu_flags (mmu_flags_to_pte_attr flags) = Some flags"
    using mmu_flags_all [unfolded list_all_iff, THEN bspec, of flags] assms(2)
    by (simp_all add: attrs_ok_def ARCH_MMU_FLAG_CACHE_MASK_def)
qed

lemma kernel_covers: "covers_bits MMU_KERNEL_TOP_LEVEL MMU_KERNEL_PAGE_TABLE_ENTRIES_TOP MMU_KERNEL_SIZE_SHIFT"
  by (simp add: covers_bits_def MMU_KERNEL_TOP_LEVEL_def MMU_KERNEL_PAGE_TABLE_ENTRIES_TOP_def MMU_KERNEL_SIZE_SHIFT_def
      pt_shift_def)

lemma diff_in_range:
  fixes x b a :: u64
  assumes "unat (x - b) < 2 ^ 29" "unat (a - b) + c \<le> 2 ^ 29"
  shows "unat (x - a) < c \<longleftrightarrow> unat (a - b) \<le> unat (x - b) \<and> unat (x - b) < unat (a - b) + c"
proof -
  define p q where "p = x - b" and "q = a - b"
  have d: "x - a = p - q" by (simp add: p_def q_def)
  have pq: "unat p < 2 ^ 29" "unat q + c \<le> 2 ^ 29" using assms by (simp_all add: p_def q_def)
  have "unat (p - q) = (if unat q \<le> unat p then unat p - unat q else unat p + 2 ^ 64 - unat q)"
    by (simp add: unat_sub_if')
  then show ?thesis using pq unfolding d p_def [symmetric] q_def [symmetric] by (auto split: if_splits)
qed

text \<open>What \<^verbatim>\<open>arch_mmu_query\<close> reports is what the hardware does.\<close>

lemma kernel_base_val: "kernel_base = 0xFFFFFFFFE0000000"
  by (simp add: kernel_base_def MMU_KERNEL_SIZE_SHIFT_def push_bit_eq_mult)

lemma kernel_rel: "kernel_base \<le> va \<Longrightarrow> rel_of va kernel_base < 2 ^ 29"
proof -
  assume "kernel_base \<le> va"
  then have "unat (va - kernel_base) = unat va - unat kernel_base" by (rule unat_sub)
  moreover have "unat kernel_base = 2 ^ 64 - 2 ^ 29" by (simp add: kernel_base_val)
  moreover have "unat va < 2 ^ 64" using unsigned_less [of va] by simp
  ultimately show ?thesis by (simp add: rel_of_def)
qed

lemma arch_mmu_query_hw:
  assumes sp: "pt_space MMU_KERNEL_TOP_LEVEL MMU_KERNEL_PAGE_TABLE_ENTRIES_TOP (ph_mem h) kt A" and va: "kernel_base \<le> va"
  shows "arch_mmu_query kt va h =
    (case hw_xlate MMU_KERNEL_TOP_LEVEL (ph_mem h) kt (rel_of va kernel_base) of
       None \<Rightarrow> Some (ERR_NOT_FOUND, None)
     | Some (pa, attr) \<Rightarrow> map_option (\<lambda>f. (0, Some (pa, f))) (pte_to_mmu_flags attr))"
proof -
  let ?l = MMU_KERNEL_TOP_LEVEL and ?r = "va - kernel_base" and ?x = "rel_of va kernel_base"
  obtain ts where ts: "length ts = 256" "reptab ?l (ph_mem h) kt ts"
    using sp by (auto simp: pt_space_def MMU_KERNEL_PAGE_TABLE_ENTRIES_TOP_def MMU_KERNEL_SIZE_SHIFT_def MMU_KERNEL_TOP_LEVEL_def
        pt_shift_def)
  have "blk ?l = 2 ^ 21" by (simp add: blk_def MMU_KERNEL_TOP_LEVEL_def pt_shift_def)
  then have i: "unat ?r div blk ?l < 256" using kernel_rel [OF va] by (simp add: rel_of_def less_mult_imp_div_less)
  have q: "query_loop ?l kt ?r h = (case tlook ?l ts ?x of None \<Rightarrow> Some (ERR_NOT_FOUND, None)
      | Some (w, k) \<Rightarrow> Some (0, Some (w, of_nat (?x mod blk k))))"
    unfolding rel_of_def by (rule query_loop_ok [OF ts(2)]) (use ts(1) i in simp_all)
  have "unat (ucast (drop_bit (pt_shift ?l) ?r) :: u32) < MMU_KERNEL_PAGE_TABLE_ENTRIES_TOP"
    using walk_index(1) [of ?r ?l] i by (simp add: MMU_KERNEL_PAGE_TABLE_ENTRIES_TOP_def MMU_KERNEL_SIZE_SHIFT_def
        MMU_KERNEL_TOP_LEVEL_def pt_shift_def)
  then show ?thesis
    using va unfolding hw_xlate_eq [OF ts(2)] xlate_def
    by (cases "tlook ?l ts ?x") (auto simp: arch_mmu_query_def Let_def q attrs_flags not_less option.map_comp split: bind_split)
qed

lemma arch_mmu_query_xlate:
  assumes ts: "reptab MMU_KERNEL_TOP_LEVEL (ph_mem h) kt ts" "length ts = MMU_KERNEL_PAGE_TABLE_ENTRIES_TOP"
    and va: "kernel_base \<le> va"
  shows "arch_mmu_query kt va h =
    (case xlate MMU_KERNEL_TOP_LEVEL ts (rel_of va kernel_base) of
       None \<Rightarrow> Some (ERR_NOT_FOUND, None)
     | Some (pa, attr) \<Rightarrow> map_option (\<lambda>f. (0, Some (pa, f))) (pte_to_mmu_flags attr))"
  using arch_mmu_query_hw [OF pt_spaceI [OF ts(1), unfolded ts(2)] va] by (simp only: hw_xlate_eq [OF ts(1)])

section \<open>Small memories\<close>

text \<open>A memory with one empty table of \<open>n\<close> entries, and one with a table that maps a block of 2 MiB; the allocator
  gives out page after page.\<close>

definition pt_demo :: "nat \<Rightarrow> pt_heap" where
  "pt_demo n = \<lparr>ph_mem = [0x1000 \<mapsto> replicate n 0],
     ph_alloc = (\<lambda>k m. let p = (0x10000 + of_nat k * 0x1000) AND OUT in if m p = None then Some p else None),
     ph_cnt = 0, ph_tlbi = []\<rparr>"

definition pt_demo_block :: pt_heap where
  "pt_demo_block = (pt_demo 2)\<lparr>ph_mem := [0x1000 \<mapsto> [0, 0x40200401]]\<rparr>"

lemma pt_demo_ok: "alloc_ok (pt_demo n)" "pt_space l n (ph_mem (pt_demo n)) 0x1000 {0x1000}"
proof -
  show "alloc_ok (pt_demo n)" by (auto simp: pt_demo_def alloc_ok_def Let_def and.assoc split: if_splits)
  show "pt_space l n (ph_mem (pt_demo n)) 0x1000 {0x1000}" by (rule pt_space_new) (simp add: pt_demo_def)
qed

lemma pt_demo_block_ok: "pt_space 1 2 (ph_mem pt_demo_block) 0x1000 {0x1000}"
proof -
  have "reptab 1 (ph_mem pt_demo_block) 0x1000 [Empty, Leaf 0x40200401]"
    by (simp add: reptab_def pt_demo_block_def unshared_def utabs_def less_Suc_eq)
  then show ?thesis unfolding pt_space_def by (intro exI [of _ "[Empty, Leaf 0x40200401]"]) (simp add: utabs_def)
qed

lemmas run_map = arm64_mmu_map_def map_pt_body_def map_loop.simps chunk_of_def pt_shift_def map_entry_def read_pte_def
  write_pte_def pt_demo_def push_bit_eq_mult Let_def MMU_PTE_DESCRIPTOR_BLOCK_MAX_SHIFT_def mask_eq_exp_minus_1

section \<open>Properties\<close>

text \<open>
  Property C22.  \<^verbatim>\<open>arm64_mmu_map\<close> always returns, and keeps the tables well formed.  When it returns 0 the range
  was free before and is now translated to the given physical range with the given attributes; every other
  translation is as before.  When it returns an error no translation has changed, even where part of the
  range was already entered.  It touches no memory but the tables of this address space and pages that the
  allocator gave it.
\<close>

theorem mmu_map_translates:
  assumes "pt_space l n (ph_mem h) t A" and "covers_bits l n s" and "alloc_ok h" and "attrs_ok attrs"
    and "unat paddr + unat sz \<le> 2 ^ 48"
  shows "\<exists>ret h' A'. arm64_mmu_map vaddr paddr sz attrs base s l (Some t) asid h = Some (ret, h') \<and>
    pt_space l n (ph_mem h') t A' \<and> chg (ph_mem h) (ph_mem h') A A' \<and>
    (let a = rel_of vaddr base in \<forall>x.
       if ret = 0 \<and> a \<le> x \<and> x < a + unat sz then
         hw_walk l (ph_mem h) t x = None \<and> hw_xlate l (ph_mem h') t x = Some (paddr + of_nat (x - a), attrs)
       else hw_walk l (ph_mem h') t x = hw_walk l (ph_mem h) t x)"
proof -
  obtain ts where ts: "length ts = n" "reptab l (ph_mem h) t ts" "A = insert t (utabs ts)" using assms(1) by (auto simp: pt_space_def)
  obtain ret h' us where r: "arm64_mmu_map vaddr paddr sz attrs base s l (Some t) asid h = Some (ret, h')"
      and u: "upd l t ts us h h'" and o: "outcome l (rel_of vaddr base) (unat sz) paddr attrs (ret = 0) ts us"
    by (rule mmu_map_outcome [OF ts(2) _ assms(3-5)]) (use assms(2) ts(1) in auto)
  have us: "reptab l (ph_mem h') t us" using u by (simp add: upd_def)
  show ?thesis
    unfolding r ts(3) Let_def hw_walk_tlook [OF ts(2)] option.inject prod.inject
  proof (intro exI conjI allI)
    show "ret = ret" "h' = h'" by simp_all
    show "pt_space l n (ph_mem h') t (insert t (utabs us))" "chg (ph_mem h) (ph_mem h') (insert t (utabs ts)) (insert t (utabs us))"
      by (rule upd_space [OF u ts(1)])+
    show "if ret = 0 \<and> rel_of vaddr base \<le> x \<and> x < rel_of vaddr base + unat sz
      then tlook l ts x = None \<and> hw_xlate l (ph_mem h') t x = Some (paddr + of_nat (x - rel_of vaddr base), attrs)
      else hw_walk l (ph_mem h') t x = tlook l ts x" for x
      unfolding hw_walk_tlook [OF us] hw_xlate_eq [OF us]
      using o mapped_in [of l _ _ paddr attrs ts us x] mapped_out [of l _ _ paddr attrs ts us x]
      by (auto simp: outcome_def same_def split: if_splits)
  qed
qed

theorem mmu_map_translates_witness:
  "\<exists>h'. arm64_mmu_map 0x200000 0x40200000 0x200000 MMU_PTE_ATTR_AF 0 22 1 (Some 0x1000) 0 (pt_demo 2) = Some (0, h') \<and>
     hw_walk 1 (ph_mem (pt_demo 2)) 0x1000 0x200010 = None \<and>
     hw_xlate 1 (ph_mem h') 0x1000 0x200010 = Some (0x40200010, MMU_PTE_ATTR_AF)"
proof -
  have "\<exists>h'. arm64_mmu_map 0x200000 0x40200000 0x200000 MMU_PTE_ATTR_AF 0 22 1 (Some 0x1000) 0 (pt_demo 2) = Some (0, h')"
    by (simp add: run_map)
  then obtain h' where r: "arm64_mmu_map 0x200000 0x40200000 0x200000 MMU_PTE_ATTR_AF 0 22 1 (Some 0x1000) 0 (pt_demo 2) =
    Some (0, h')" by blast
  have "covers_bits 1 2 22" "attrs_ok MMU_PTE_ATTR_AF" "unat (0x40200000 :: u64) + unat (0x200000 :: u64) \<le> 2 ^ 48"
    by (simp_all add: covers_bits_def pt_shift_def attrs_ok_def mmu_defs)
  from mmu_map_translates [OF pt_demo_ok(2) this(1) pt_demo_ok(1) this(2,3), where vaddr = "0x200000" and base = 0 and asid = 0, unfolded r Let_def]
  show ?thesis using r by (auto simp: rel_of_def dest!: spec [of _ "0x200010"])
qed

text \<open>
  Property C23.  \<^verbatim>\<open>arm64_mmu_unmap\<close> of a range inside the address space always succeeds: no block that meets the
  range is translated any more and every other translation is as before.  Tables that became empty are
  given back to the allocator: a table below the top one that still belongs to the space and has only zero
  entries had only zero entries before.  No table is added, and no other memory is touched.
\<close>

theorem mmu_unmap_removes:
  assumes "pt_space l n (ph_mem h) t A" and "covers_bits l n s" and "rel_of vaddr base + unat sz \<le> 2 ^ s"
  shows "\<exists>h' A'. arm64_mmu_unmap vaddr sz base s l (Some t) asid h = Some (0, h') \<and>
    pt_space l n (ph_mem h') t A' \<and> A' \<subseteq> A \<and> chg (ph_mem h) (ph_mem h') A A' \<and>
    (\<forall>q\<in>A' - {t}. empty_table (ph_mem h') q \<longrightarrow> empty_table (ph_mem h) q) \<and>
    (\<forall>x. hw_walk l (ph_mem h') t x = miss (rel_of vaddr base) (rel_of vaddr base + unat sz) x (hw_walk l (ph_mem h) t x))"
proof -
  obtain ts where ts: "length ts = n" "reptab l (ph_mem h) t ts" "A = insert t (utabs ts)" using assms(1) by (auto simp: pt_space_def)
  let ?us = "cuts l (rel_of vaddr base) (rel_of vaddr base + unat sz) ts"
  obtain h' where r: "arm64_mmu_unmap vaddr sz base s l (Some t) asid h = Some (0, h')" and u: "upd l t ts ?us h h'"
    by (rule mmu_unmap_outcome [OF ts(2) _ assms(3)]) (use assms(2) ts(1) in auto)
  have us: "reptab l (ph_mem h') t ?us" using u by (simp add: upd_def)
  have "insert t (utabs ?us) \<subseteq> A" using utabs_cuts ts(3) by blast
  moreover have "\<forall>q\<in>insert t (utabs ?us) - {t}. empty_table (ph_mem h') q \<longrightarrow> empty_table (ph_mem h) q"
    using cuts_no_new_empty [OF ts(2) us] by blast
  ultimately show ?thesis
    using r upd_space [OF u ts(1)] ts(3)
    by (intro exI [of _ h'] exI [of _ "insert t (utabs ?us)"])
      (simp add: hw_walk_tlook [OF us] hw_walk_tlook [OF ts(2)] tlook_cuts)
qed

theorem mmu_unmap_removes_witness:
  "hw_walk 1 (ph_mem pt_demo_block) 0x1000 0x300000 = Some (0x40200401, 1) \<and>
   (\<exists>h'. arm64_mmu_unmap 0x200000 0x1000 0 22 1 (Some 0x1000) 0 pt_demo_block = Some (0, h') \<and>
     hw_walk 1 (ph_mem h') 0x1000 0x300000 = None)"
proof -
  have w: "hw_walk 1 (ph_mem pt_demo_block) 0x1000 0x300000 = Some (0x40200401, 1)"
    by (simp add: hw_walk.simps blk_def pt_shift_def pt_demo_block_def Let_def)
  have c: "covers_bits 1 2 22" by (simp add: covers_bits_def pt_shift_def)
  obtain h' where "arm64_mmu_unmap 0x200000 0x1000 0 22 1 (Some 0x1000) 0 pt_demo_block = Some (0, h')"
      "hw_walk 1 (ph_mem h') 0x1000 0x300000 = miss 0x200000 (0x200000 + 0x1000) 0x300000 (Some (0x40200401, 1))"
    using mmu_unmap_removes [OF pt_demo_block_ok c, where vaddr = "0x200000" and base = 0 and sz = "0x1000" and asid = 0] w by (auto simp: rel_of_def)
  then show ?thesis using w by (simp add: miss_def hit_def blk_def pt_shift_def)
qed

text \<open>
  Property C24.  What \<^verbatim>\<open>arch_mmu_map\<close> enters for the kernel, \<^verbatim>\<open>arch_mmu_query\<close> reads back: after a successful call
  every address of the range answers with its physical address and with the flags of the call, and every
  other address answers as before; after a failed call all of them do.
\<close>

theorem kernel_map_query:
  assumes "pt_space MMU_KERNEL_TOP_LEVEL MMU_KERNEL_PAGE_TABLE_ENTRIES_TOP (ph_mem h) kt A" and "alloc_ok h"
    and "flags < 64" and "flags AND ARCH_MMU_FLAG_CACHE_MASK \<noteq> 3" and "unat paddr + unat count * 0x1000 \<le> 2 ^ 48"
    and "kernel_base \<le> va"
  shows "\<exists>ret h'. arch_mmu_map kt vaddr paddr count flags h = Some (ret, h') \<and>
    arch_mmu_query kt va h' =
      (if ret = 0 \<and> unat (va - vaddr) < unat count * 0x1000 then Some (0, Some (paddr + (va - vaddr), flags))
       else arch_mmu_query kt va h)"
proof -
  let ?l = MMU_KERNEL_TOP_LEVEL and ?sz = "ucast count * 0x1000 :: u64"
  let ?a = "rel_of vaddr kernel_base" and ?x = "rel_of va kernel_base" and ?attr = "mmu_flags_to_pte_attr flags"
  obtain ts where ts: "length ts = MMU_KERNEL_PAGE_TABLE_ENTRIES_TOP" "reptab ?l (ph_mem h) kt ts"
    using assms(1) by (auto simp: pt_space_def)
  have "unat count < 2 ^ 32" using unsigned_less [of count] by simp
  then have sz: "unat ?sz = unat count * 0x1000" by (simp add: unat_word_ariths unat_ucast_u32)
  note fl = mmu_flags_valid [OF assms(3,4)]
  obtain ret h' us where r: "arch_mmu_map kt vaddr paddr count flags h = Some (ret, h')"
      and u: "upd ?l kt ts us h h'" and o: "outcome ?l ?a (unat ?sz) paddr ?attr (ret = 0) ts us"
      and fit: "ret = 0 \<Longrightarrow> ?a + unat ?sz \<le> 2 ^ MMU_KERNEL_SIZE_SHIFT"
    unfolding arch_mmu_map_def
    by (rule mmu_map_outcome [OF ts(2) _ assms(2) fl(1), of MMU_KERNEL_SIZE_SHIFT paddr ?sz vaddr kernel_base])
       (use kernel_covers ts(1) assms(5) sz in auto)
  have us: "reptab ?l (ph_mem h') kt us" using u by (simp add: upd_def)
  note q = arch_mmu_query_xlate [OF us _ assms(6)] and q0 = arch_mmu_query_xlate [OF ts(2,1) assms(6)]
  have "length us = MMU_KERNEL_PAGE_TABLE_ENTRIES_TOP" using u ts(1) by (simp add: upd_def)
  note q = q [OF this]
  show ?thesis
  proof (cases "ret = 0")
    case False
    then have "xlate ?l us ?x = xlate ?l ts ?x" using o by (intro xlate_cong) (simp add: outcome_def same_def)
    then show ?thesis using r q q0 False by simp
  next
    case True
    have in_range: "unat (va - vaddr) < unat ?sz \<longleftrightarrow> ?a \<le> ?x \<and> ?x < ?a + unat ?sz"
      using diff_in_range [of va kernel_base vaddr "unat ?sz"] kernel_rel [OF assms(6)] fit [OF True]
      by (simp add: rel_of_def MMU_KERNEL_SIZE_SHIFT_def)
    have m: "mapped ?l ?a (unat ?sz) paddr ?attr ts us" using o True by (simp add: outcome_def)
    show ?thesis
    proof (cases "unat (va - vaddr) < unat ?sz")
      case in_r: True
      then have x: "?a \<le> ?x" "?x < ?a + unat ?sz" using in_range by auto
      have "of_nat (?x - ?a) = va - vaddr" using x(1) by (simp add: rel_of_def)
      then show ?thesis using r q True in_r sz mapped_in(2) [OF m x] fl(2) by simp
    next
      case False
      then have "tlook ?l us ?x = tlook ?l ts ?x" using mapped_out [OF m] in_range by blast
      then have "xlate ?l us ?x = xlate ?l ts ?x" by (rule xlate_cong)
      then show ?thesis using r q q0 False sz by simp
    qed
  qed
qed

theorem kernel_map_query_witness:
  "\<exists>h'. arch_mmu_map 0x1000 0xFFFFFFFFE0200000 0x40200000 512 16 (pt_demo 256) = Some (0, h') \<and>
     arch_mmu_query 0x1000 0xFFFFFFFFE0200010 h' = Some (0, Some (0x40200010, 16))"
proof -
  have "\<exists>h'. arch_mmu_map 0x1000 0xFFFFFFFFE0200000 0x40200000 512 16 (pt_demo 256) = Some (0, h')"
    by (simp add: run_map arch_mmu_map_def kernel_base_val MMU_KERNEL_SIZE_SHIFT_def MMU_KERNEL_TOP_LEVEL_def)
  then obtain h' where r: "arch_mmu_map 0x1000 0xFFFFFFFFE0200000 0x40200000 512 16 (pt_demo 256) = Some (0, h')" by blast
  have "MMU_KERNEL_PAGE_TABLE_ENTRIES_TOP = 256"
    by (simp add: MMU_KERNEL_PAGE_TABLE_ENTRIES_TOP_def MMU_KERNEL_SIZE_SHIFT_def MMU_KERNEL_TOP_LEVEL_def pt_shift_def)
  then have sp: "pt_space MMU_KERNEL_TOP_LEVEL MMU_KERNEL_PAGE_TABLE_ENTRIES_TOP (ph_mem (pt_demo 256)) 0x1000 {0x1000}"
    by (simp add: pt_demo_ok(2))
  show ?thesis
    using kernel_map_query [OF sp pt_demo_ok(1), where flags = 16 and paddr = "0x40200000" and count = 512 and va = "0xFFFFFFFFE0200010"
        and vaddr = "0xFFFFFFFFE0200000"] r
    by (simp add: ARCH_MMU_FLAG_CACHE_MASK_def kernel_base_val)
qed

end
