(* ===== verification/ArchUthread.thy ===== *)
theory ArchUthread
  imports Uthread PageTable NsPte
begin

text \<open>
  The part of the user threads that knows the processor: \<^verbatim>\<open>lib/uthread/arch/arm64/uthread.c\<close>.  It enters the
  mappings of a thread into the thread's page tables.  Its state is the fields \<^verbatim>\<open>page_table\<close> and \<^verbatim>\<open>arch.asid\<close> of
  the thread, and the memory of the tables.
\<close>

record arch_ut =
  au_page_table :: "u64 option"
  au_asid :: u32

text \<open>The build has \<^verbatim>\<open>MMU_USER_SIZE_SHIFT=25\<close>, so the top table is at level 1 and has 16 entries.\<close>

definition MMU_USER_SIZE_SHIFT :: nat where "MMU_USER_SIZE_SHIFT = 25"
definition MMU_USER_TOP_LEVEL :: nat where "MMU_USER_TOP_LEVEL = 1"
definition MMU_USER_PAGE_TABLE_ENTRIES_TOP :: nat where
  "MMU_USER_PAGE_TABLE_ENTRIES_TOP = 2 ^ (MMU_USER_SIZE_SHIFT - pt_shift MMU_USER_TOP_LEVEL)"

definition arch_uthread_create :: "u32 \<Rightarrow> arch_ut \<Rightarrow> int \<times> arch_ut" where
  "arch_uthread_create asid ut = (NO_ERROR, ut\<lparr>au_asid := asid\<rparr>)"

text \<open>\<open>ma\<close> is what \<^verbatim>\<open>memalign\<close> returns.\<close>

definition arm64_uthread_allocate_page_table :: "u64 option \<Rightarrow> arch_ut \<Rightarrow> pt_heap \<Rightarrow> int \<times> arch_ut \<times> pt_heap" where
  "arm64_uthread_allocate_page_table ma ut h =
     (let ut = ut\<lparr>au_page_table := ma\<rparr> in
      case ma of
        None \<Rightarrow> (ERR_NO_MEMORY, ut, h)
      | Some p \<Rightarrow> (NO_ERROR, ut, h\<lparr>ph_mem := (ph_mem h)(p \<mapsto> replicate MMU_USER_PAGE_TABLE_ENTRIES_TOP 0)\<rparr>))"

definition user_map :: "u64 \<Rightarrow> u64 \<Rightarrow> u64 \<Rightarrow> u64 \<Rightarrow> arch_ut \<Rightarrow> pt_heap \<Rightarrow> (int \<times> pt_heap) option" where
  "user_map vaddr paddr sz pte_attr ut h =
     arm64_mmu_map vaddr paddr sz pte_attr 0 MMU_USER_SIZE_SHIFT MMU_USER_TOP_LEVEL (au_page_table ut) (au_asid ut) h"

definition user_unmap :: "u64 \<Rightarrow> u64 \<Rightarrow> arch_ut \<Rightarrow> pt_heap \<Rightarrow> (int \<times> pt_heap) option" where
  "user_unmap vaddr sz ut h =
     arm64_mmu_unmap vaddr sz 0 MMU_USER_SIZE_SHIFT MMU_USER_TOP_LEVEL (au_page_table ut) (au_asid ut) h"

section \<open>Mapping\<close>

text \<open>The attributes for the flags of a mapping; \<^term>\<open>None\<close> is a failed assertion.\<close>

definition uthread_pte_attr :: "u32 \<Rightarrow> u64 option" where
  "uthread_pte_attr flags =
     (let pte_attr = MMU_PTE_ATTR_NON_GLOBAL OR MMU_PTE_ATTR_AF;
          pte_attr = pte_attr OR (if flags AND UTM_NS_MEM \<noteq> 0 then MMU_PTE_ATTR_NON_SECURE else 0);
          pte_attr = pte_attr OR (if flags AND UTM_W \<noteq> 0 then MMU_PTE_ATTR_AP_P_RW_U_RW else MMU_PTE_ATTR_AP_P_RO_U_RO) in do {
      pte_attr \<leftarrow>
        (if flags AND UTM_IO \<noteq> 0 then do {
           _ \<leftarrow> ASSERT (flags AND UTM_X = 0); Some (pte_attr OR MMU_PTE_ATTR_STRONGLY_ORDERED) }
         else if flags AND UTM_DEVICE \<noteq> 0 then do {
           _ \<leftarrow> ASSERT (flags AND UTM_X = 0); Some (pte_attr OR MMU_PTE_ATTR_DEVICE) }
         else Some (pte_attr OR MMU_PTE_ATTR_SH_INNER_SHAREABLE OR MMU_PTE_ATTR_NORMAL_MEMORY));
      Some (if flags AND UTM_X = 0 \<or> flags AND UTM_NS_MEM \<noteq> 0
            then pte_attr OR (MMU_PTE_ATTR_UXN OR MMU_PTE_ATTR_PXN) else pte_attr) })"

text \<open>The loop over the pages, from page \<open>pg\<close> on; the result has the error and the page it stopped at.\<close>

fun map_pages :: "nat \<Rightarrow> nat \<Rightarrow> u64 \<Rightarrow> u64 \<Rightarrow> uthread_map \<Rightarrow> arch_ut \<Rightarrow> pt_heap \<Rightarrow> (int \<times> nat \<times> pt_heap) option" where
  "map_pages pg 0 entry_size pte_attr mp ut h = Some (NO_ERROR, pg, h)"
| "map_pages pg (Suc n) entry_size pte_attr mp ut h = do {
     _ \<leftarrow> ASSERT (pg < length (um_pfn_list mp));
     (err, h) \<leftarrow> user_map (um_vaddr mp + of_nat pg * entry_size) (um_pfn_list mp ! pg) entry_size pte_attr ut h;
     if err \<noteq> 0 then Some (err, pg, h) else map_pages (Suc pg) n entry_size pte_attr mp ut h }"

text \<open>The loop at \<^verbatim>\<open>err_undo_maps\<close>, from page \<open>p\<close> on for \<open>n\<close> pages.\<close>

fun undo_pages :: "nat \<Rightarrow> nat \<Rightarrow> u64 \<Rightarrow> uthread_map \<Rightarrow> arch_ut \<Rightarrow> pt_heap \<Rightarrow> pt_heap option" where
  "undo_pages p 0 entry_size mp ut h = Some h"
| "undo_pages p (Suc n) entry_size mp ut h = do {
     (_, h) \<leftarrow> user_unmap (um_vaddr mp + of_nat p * entry_size) entry_size ut h;
     undo_pages (Suc p) n entry_size mp ut h }"

text \<open>A division by a size of 0 is \<^term>\<open>None\<close>.\<close>

definition arch_uthread_map :: "u64 option \<Rightarrow> uthread_map \<Rightarrow> arch_ut \<Rightarrow> pt_heap \<Rightarrow> (int \<times> arch_ut \<times> pt_heap) option" where
  "arch_uthread_map ma mp ut h =
     (let (err, ut, h) = (if au_page_table ut = None then arm64_uthread_allocate_page_table ma ut h else (NO_ERROR, ut, h)) in
      if err \<noteq> 0 then Some (err, ut, h)
      else do {
        _ \<leftarrow> ASSERT (um_size mp AND (0x1000 - 1) = 0);
        pte_attr \<leftarrow> uthread_pte_attr (um_flags mp);
        let entry_size = (if um_flags mp AND UTM_PHYS_CONTIG \<noteq> 0 then um_size mp else 0x1000);
        _ \<leftarrow> ASSERT (entry_size \<noteq> 0);
        (err, pg, h) \<leftarrow> map_pages 0 (unat (um_size mp div entry_size)) entry_size pte_attr mp ut h;
        if err = 0 then Some (NO_ERROR, ut, h)
        else do { h \<leftarrow> undo_pages 0 pg entry_size mp ut h; Some (err, ut, h) } })"

definition arch_uthread_unmap :: "uthread_map \<Rightarrow> arch_ut \<Rightarrow> pt_heap \<Rightarrow> (int \<times> pt_heap) option" where
  "arch_uthread_unmap mp ut h = user_unmap (um_vaddr mp) (um_size mp) ut h"

text \<open>\<^verbatim>\<open>free\<close> of the top table; of NULL it does nothing.\<close>

definition arch_uthread_free :: "arch_ut \<Rightarrow> pt_heap \<Rightarrow> pt_heap option" where
  "arch_uthread_free ut h = do {
     (_, h) \<leftarrow> user_unmap 0 (push_bit MMU_USER_SIZE_SHIFT 1) ut h;
     (case au_page_table ut of
        None \<Rightarrow> Some h
      | Some p \<Rightarrow> do { _ \<leftarrow> ph_mem h p; Some (h\<lparr>ph_mem := (ph_mem h)(p := None)\<rparr>) }) }"

section \<open>Switching threads\<close>

datatype sysreg = TCR_EL1 | TTBR0_EL1

text \<open>The kernel address space of 29 bits and user space of 25 bits in pages of 4 KiB, with inner shareable,
  write-back walks; \<^verbatim>\<open>MMU_TCR_FLAGS_KERNEL\<close> turns the walks of user space off.\<close>

definition MMU_TCR_FLAGS1 :: u64 where
  "MMU_TCR_FLAGS1 = push_bit 30 2 OR push_bit 28 3 OR push_bit 26 1 OR push_bit 24 1 OR push_bit 16 (64 - 29)"

definition MMU_TCR_FLAGS0 :: u64 where
  "MMU_TCR_FLAGS0 = push_bit 14 0 OR push_bit 12 3 OR push_bit 10 1 OR push_bit 8 1 OR (64 - 25)"

definition MMU_TCR_FLAGS_USER :: u64 where
  "MMU_TCR_FLAGS_USER = push_bit 32 2 OR MMU_TCR_FLAGS1 OR MMU_TCR_FLAGS0"

definition MMU_TCR_FLAGS_KERNEL :: u64 where
  "MMU_TCR_FLAGS_KERNEL = push_bit 32 2 OR MMU_TCR_FLAGS1 OR MMU_TCR_FLAGS0 OR push_bit 7 1"

text \<open>The register writes, in order.  \<^verbatim>\<open>vaddr_to_paddr\<close> of NULL is 0.\<close>

definition arch_uthread_context_switch :: "arch_ut option \<Rightarrow> arch_ut option \<Rightarrow> (sysreg \<times> u64) list" where
  "arch_uthread_context_switch old_ut new_ut =
     (if old_ut \<noteq> None \<and> new_ut = None then [(TCR_EL1, MMU_TCR_FLAGS_KERNEL)] else []) @
     (case new_ut of
        None \<Rightarrow> []
      | Some ut \<Rightarrow>
          let pgd = (case au_page_table ut of None \<Rightarrow> 0 | Some p \<Rightarrow> p) in
          (TTBR0_EL1, push_bit 48 (ucast (au_asid ut)) OR pgd) #
          (if old_ut = None then [(TCR_EL1, MMU_TCR_FLAGS_USER)] else []))"

section \<open>Pages of another world\<close>

definition PAR_ATTR_FAULTED :: u64 where "PAR_ATTR_FAULTED = 1"

definition PAR_LDESC_ATTR_SHAREABLE :: "u64 \<Rightarrow> u32" where
  "PAR_LDESC_ATTR_SHAREABLE par = ucast (drop_bit 7 par AND 3)"

definition PAR_LDESC_ATTR_INNER :: "u64 \<Rightarrow> u32" where
  "PAR_LDESC_ATTR_INNER par = ucast (drop_bit 56 par AND 0xF)"

definition PAR_LDESC_ATTR_OUTER :: "u64 \<Rightarrow> u32" where
  "PAR_LDESC_ATTR_OUTER par = ucast (drop_bit 60 par AND 0xF)"

definition PAR_LDESC_ALIGNED_PA :: "u64 \<Rightarrow> u64" where
  "PAR_LDESC_ALIGNED_PA par = par AND 0xFFFFFF000"

definition mair_to_cb :: "u32 list" where
  "mair_to_cb = [4, 2, 2, 2, 0, 1, 3, 1, 2, 2, 2, 2, 3, 1, 3, 1]"

text \<open>
  The description of one page: \<open>Inl\<close> the code with which the function stops, \<open>Inr\<close> the inner, outer and
  shareable attributes with the frame.  \<open>ns\<close> is the list of entries that the normal world passes, \<^term>\<open>None\<close>
  when the source is the current thread; \<open>at\<close> is the address-translation instruction of the processor.
\<close>

definition page_source :: "u32 \<Rightarrow> (bool \<Rightarrow> u64 \<Rightarrow> u64) \<Rightarrow> u64 list option \<Rightarrow> u64 \<Rightarrow> nat
    \<Rightarrow> (int + u32 \<times> u32 \<times> u32 \<times> u64) option" where
  "page_source flags at ns vs pg =
     (case ns of
        Some ptes \<Rightarrow> do {
          _ \<leftarrow> ASSERT (pg < length ptes);
          let pte = ptes ! pg;
          let outer = mair_to_cb ! unat (NS_PTE_ATTR_OUTER pte);
          let inner = mair_to_cb ! unat (NS_PTE_ATTR_INNER pte);
          if flags AND UTM_W \<noteq> 0 \<and> \<not> NS_PTE_AP_U_RW pte then Some (Inl NO_ERROR)
          else if outer AND 4 \<noteq> 0 then Some (Inl NO_ERROR)
          else if inner AND 4 \<noteq> 0 then Some (Inl NO_ERROR)
          else Some (Inr (inner, outer, NS_PTE_ATTR_SHAREABLE pte, NS_PTE_PHYSADDR pte)) }
      | None \<Rightarrow>
          let par = at (flags AND UTM_W \<noteq> 0) vs in
          if par AND PAR_ATTR_FAULTED \<noteq> 0 then Some (Inl ERR_NOT_VALID)
          else Some (Inr (PAR_LDESC_ATTR_INNER par, PAR_LDESC_ATTR_OUTER par, PAR_LDESC_ATTR_SHAREABLE par,
            PAR_LDESC_ALIGNED_PA par)))"

text \<open>
  The loop, from page \<open>pg\<close> on for \<open>n\<close> pages; \<open>first\<close> has the attributes of the first page, and the result
  the frames written to \<^verbatim>\<open>pfn_list\<close> from \<open>pg\<close> on.
\<close>

fun translate_pages :: "u32 \<Rightarrow> (bool \<Rightarrow> u64 \<Rightarrow> u64) \<Rightarrow> u64 list option \<Rightarrow> nat \<Rightarrow> nat \<Rightarrow> u64 \<Rightarrow> u64 \<Rightarrow> u64 \<Rightarrow> u32 \<times> u32 \<times> u32
    \<Rightarrow> arch_ut \<Rightarrow> pt_heap \<Rightarrow> (int \<times> u64 list \<times> pt_heap) option" where
  "translate_pages flags at ns pg 0 vs vt pte_attr first ut h = Some (NO_ERROR, [], h)"
| "translate_pages flags at ns pg (Suc n) vs vt pte_attr first ut h = do {
     src \<leftarrow> page_source flags at ns vs pg;
     (case src of
        Inl err \<Rightarrow> Some (err, [], h)
      | Inr (inner, outer, shareable, physaddr) \<Rightarrow>
          if pg \<noteq> 0 \<and> (inner, outer, shareable) \<noteq> first then Some (ERR_NOT_VALID, [], h)
          else
            let pte_attr = (if pg = 0 \<and> shareable \<noteq> 0 then pte_attr OR MMU_PTE_ATTR_SH_INNER_SHAREABLE else pte_attr);
                pte_attr = (if pg = 0 \<and> inner OR outer \<noteq> 0 then pte_attr OR MMU_PTE_ATTR_NORMAL_MEMORY else pte_attr) in do {
            (err, h) \<leftarrow> user_map vt physaddr 0x1000 pte_attr ut h;
            if err \<noteq> NO_ERROR then Some (err, [physaddr], h)
            else do {
              (err, pfns, h) \<leftarrow> translate_pages flags at ns (Suc pg) n (vs + 0x1000) (vt + 0x1000) pte_attr
                 (inner, outer, shareable) ut h;
              Some (err, physaddr # pfns, h) } }) }"

definition arch_uthread_translate_map :: "arch_ut \<Rightarrow> u64 \<Rightarrow> u64 \<Rightarrow> u32 \<Rightarrow> u32 \<Rightarrow> (bool \<Rightarrow> u64 \<Rightarrow> u64) \<Rightarrow> u64 list option
    \<Rightarrow> pt_heap \<Rightarrow> (int \<times> u64 list \<times> pt_heap) option" where
  "arch_uthread_translate_map ut_target vaddr_src vaddr_target npages flags at ns h =
     (let pte_attr = MMU_PTE_ATTR_NON_GLOBAL OR MMU_PTE_ATTR_AF;
          pte_attr = (if flags AND UTM_NS_MEM \<noteq> 0 then pte_attr OR MMU_PTE_ATTR_NON_SECURE else pte_attr);
          pte_attr = pte_attr OR (if flags AND UTM_W \<noteq> 0 then MMU_PTE_ATTR_AP_P_RW_U_RW else MMU_PTE_ATTR_AP_P_RO_U_RO) in
      translate_pages flags at ns 0 (unat npages) vaddr_src vaddr_target pte_attr (0xFFFFFFFF, 0xFFFFFFFF, 0xFFFFFFFF)
        ut_target h)"

end
