(* ===== verification/UserSpace.thy ===== *)
theory UserSpace
  imports ArchUthread PageProperties
begin

text \<open>
  What \<^verbatim>\<open>uthread/arch/arm64\<close> does to the translation of a user thread: its loops enter one page after the
  other, \<open>pages\<close>, and the loop at \<^verbatim>\<open>err_undo_maps\<close> takes them out again.
\<close>

section \<open>Pages one after the other\<close>

text \<open>\<open>pages l E a attrs fs ts us\<close>: from the offset \<open>a\<close> on, pieces of the size \<open>E\<close> were entered for the frames \<open>fs\<close>.\<close>

primrec pages :: "nat \<Rightarrow> nat \<Rightarrow> nat \<Rightarrow> u64 \<Rightarrow> u64 list \<Rightarrow> pt list \<Rightarrow> pt list \<Rightarrow> bool" where
  "pages l E a attrs [] ts us \<longleftrightarrow> same l ts us"
| "pages l E a attrs (f # fs) ts us \<longleftrightarrow> (\<exists>vs. mapped l a E f attrs ts vs \<and> pages l E (a + E) attrs fs vs us)"

lemma pages_out: "pages l E a attrs fs ts us \<Longrightarrow> \<not> (a \<le> x \<and> x < a + length fs * E) \<Longrightarrow> tlook l us x = tlook l ts x"
proof (induction fs arbitrary: a ts)
  case (Cons f fs)
  then obtain vs where m: "mapped l a E f attrs ts vs" and p: "pages l E (a + E) attrs fs vs us" by auto
  have "tlook l us x = tlook l vs x" by (rule Cons.IH [OF p]) (use Cons.prems(2) in auto)
  also have "\<dots> = tlook l ts x" by (rule mapped_out [OF m]) (use Cons.prems(2) in auto)
  finally show ?case .
qed (simp add: same_def)

lemma pages_in:
  assumes "pages l E a attrs fs ts us" "a \<le> x" "x < a + length fs * E"
  shows "tlook l ts x = None" "xlate l us x = Some (fs ! ((x - a) div E) + of_nat ((x - a) mod E), attrs)"
proof -
  have "tlook l ts x = None \<and> xlate l us x = Some (fs ! ((x - a) div E) + of_nat ((x - a) mod E), attrs)"
    using assms
  proof (induction fs arbitrary: a ts)
    case (Cons f fs)
    then obtain vs where m: "mapped l a E f attrs ts vs" and p: "pages l E (a + E) attrs fs vs us" by auto
    show ?case
    proof (cases "x < a + E")
      case True
      have "tlook l us x = tlook l vs x" by (rule pages_out [OF p]) (use True in simp)
      then have "xlate l us x = xlate l vs x" by (rule xlate_cong)
      then show ?thesis using True mapped_in [OF m Cons.prems(2) True] Cons.prems(2) by simp
    next
      case False
      then have d: "x - a = (x - (a + E)) + E" and E: "0 < E" using Cons.prems by (auto intro: gr0I)
      have IH: "tlook l vs x = None" "xlate l us x = Some (fs ! ((x - (a + E)) div E) + of_nat ((x - (a + E)) mod E), attrs)"
        using Cons.IH [OF p] Cons.prems(3) False by auto
      have "tlook l vs x = tlook l ts x" by (rule mapped_out [OF m]) (use False in simp)
      moreover have "(x - a) div E = Suc ((x - (a + E)) div E)" "(x - a) mod E = (x - (a + E)) mod E"
        unfolding d using E by (simp_all add: div_add_self2)
      ultimately show ?thesis using IH by simp
    qed
  qed simp
  then show "tlook l ts x = None" "xlate l us x = Some (fs ! ((x - a) div E) + of_nat ((x - a) mod E), attrs)" by simp_all
qed

lemma pages_same: "same l ts vs \<Longrightarrow> pages l E a attrs fs vs us \<Longrightarrow> pages l E a attrs fs ts us"
proof (cases fs)
  case (Cons f gs)
  assume "same l ts vs" "pages l E a attrs fs vs us"
  then obtain ws where "mapped l a E f attrs vs ws" "pages l E (a + E) attrs gs ws us" using Cons by auto
  then show ?thesis using mapped_trans [of l a 0 f attrs ts vs E ws] \<open>same l ts vs\<close> Cons by auto
qed (simp add: same_def)

text \<open>Taking out a range before them does not meet them: their blocks lie inside.\<close>

lemma mapped_cuts:
  assumes m: "mapped l b c pa attrs vs ws" and e: "e \<le> b"
  shows "mapped l b c pa attrs (cuts l a e vs) (cuts l a e ws)"
  unfolding mapped_def
proof (intro conjI allI impI; (elim conjE)?)
  fix x
  {
    assume x: "b \<le> x" "x < b + c"
    show "tlook l (cuts l a e vs) x = None" using mapped_in(1) [OF m x] by (simp add: tlook_cuts)
    have "\<not> hit a e k x" if lk: "tlook l ws x = Some (w, k)" for w k
    proof
      assume "hit a e k x"
      then have y: "x div blk k * blk k < b" using e by (simp add: hit_def)
      have "tlook l ws (x div blk k * blk k) = Some (w, k)" by (rule tlook_block [OF lk]) simp
      then have "tlook l vs (x div blk k * blk k) = Some (w, k)" using mapped_out [OF m] y by simp
      then have "tlook l vs x = Some (w, k)" by (rule tlook_block) simp
      then show False using mapped_in(1) [OF m x] by simp
    qed
    then have "tlook l (cuts l a e ws) x = tlook l ws x" by (auto simp: tlook_cuts miss_def split: option.split)
    then show "xlate l (cuts l a e ws) x = Some (pa + of_nat (x - b), attrs)"
      using mapped_in(2) [OF m x] xlate_cong by metis
  }
  show "tlook l (cuts l a e ws) x = tlook l (cuts l a e vs) x" if "\<not> (b \<le> x \<and> x < b + c)"
    using mapped_out [OF m that] by (simp add: tlook_cuts)
qed

lemma pages_cuts: "pages l E b attrs fs vs us \<Longrightarrow> e \<le> b \<Longrightarrow> pages l E b attrs fs (cuts l a e vs) (cuts l a e us)"
proof (induction fs arbitrary: b vs)
  case (Cons f fs)
  then show ?case using mapped_cuts by (fastforce intro: trans_le_add1)
qed (simp add: same_def tlook_cuts)

lemma pages_undo: "pages l E a attrs (f # fs) ts us \<Longrightarrow> pages l E (a + E) attrs fs ts (cuts l a (a + E) us)"
  by (auto intro: pages_same [OF mapped_cut pages_cuts])

section \<open>The thread's tables\<close>

lemma user_covers: "covers_bits MMU_USER_TOP_LEVEL MMU_USER_PAGE_TABLE_ENTRIES_TOP MMU_USER_SIZE_SHIFT"
  by (simp add: covers_bits_def MMU_USER_TOP_LEVEL_def MMU_USER_PAGE_TABLE_ENTRIES_TOP_def MMU_USER_SIZE_SHIFT_def pt_shift_def)

abbreviation "utab \<equiv> reptab MMU_USER_TOP_LEVEL"

definition ulen :: "pt list \<Rightarrow> bool" where
  "ulen ts \<longleftrightarrow> length ts = MMU_USER_PAGE_TABLE_ENTRIES_TOP"

lemma user_map_ok:
  assumes "au_page_table ut = Some t" "utab (ph_mem h) t ts" "ulen ts" "alloc_ok h" "attrs_ok attrs"
    "unat paddr + unat sz \<le> 2 ^ 48"
  obtains ret h' us where "user_map v paddr sz attrs ut h = Some (ret, h')" "upd MMU_USER_TOP_LEVEL t ts us h h'"
    "outcome MMU_USER_TOP_LEVEL (unat v) (unat sz) paddr attrs (ret = 0) ts us"
    "ret = 0 \<Longrightarrow> unat v + unat sz \<le> 2 ^ MMU_USER_SIZE_SHIFT"
  by (rule mmu_map_outcome [OF assms(2) _ assms(4-6), of MMU_USER_SIZE_SHIFT v 0 "au_asid ut"])
     (use assms(1,3) user_covers that in \<open>auto simp: user_map_def ulen_def rel_of_def\<close>)

lemma user_unmap_ok:
  assumes "au_page_table ut = Some t" "utab (ph_mem h) t ts" "ulen ts" "unat v + unat sz \<le> 2 ^ MMU_USER_SIZE_SHIFT"
  obtains h' where "user_unmap v sz ut h = Some (0, h')"
    "upd MMU_USER_TOP_LEVEL t ts (cuts MMU_USER_TOP_LEVEL (unat v) (unat v + unat sz) ts) h h'"
  by (rule mmu_unmap_outcome [OF assms(2), of MMU_USER_SIZE_SHIFT v 0 sz "au_asid ut"])
     (use assms user_covers that in \<open>auto simp: user_unmap_def ulen_def rel_of_def\<close>)

lemma updD: "upd l t ts us h h' \<Longrightarrow> reptab l (ph_mem h') t us" "upd l t ts us h h' \<Longrightarrow> length us = length ts"
  by (simp_all add: upd_def)

lemma ulen_upd: "upd l t ts us h h' \<Longrightarrow> ulen ts \<Longrightarrow> ulen us"
  by (simp add: ulen_def updD)

text \<open>The address of the next page; no address wraps, because each page fits into the user's range.\<close>

lemma next_page:
  fixes v e :: u64
  assumes "unat (v + of_nat p * e) + unat e \<le> 2 ^ MMU_USER_SIZE_SHIFT"
  shows "unat (v + of_nat (Suc p) * e) = unat (v + of_nat p * e) + unat e"
proof -
  have eq: "v + of_nat (Suc p) * e = (v + of_nat p * e) + e" by (simp add: algebra_simps)
  show ?thesis unfolding eq
    by (rule unat_add_lem [THEN iffD1]) (use assms in \<open>simp add: MMU_USER_SIZE_SHIFT_def\<close>)
qed

section \<open>The loops\<close>

lemma map_pages_ok:
  assumes "au_page_table ut = Some t" "attrs_ok attrs" "list_all (\<lambda>f. unat f + unat e \<le> 2 ^ 48) (um_pfn_list mp)"
  shows "utab (ph_mem h) t ts \<Longrightarrow> ulen ts \<Longrightarrow> alloc_ok h \<Longrightarrow> pg + n \<le> length (um_pfn_list mp) \<Longrightarrow>
    \<exists>err k h' us. map_pages pg n e attrs mp ut h = Some (err, pg + k, h') \<and> k \<le> n \<and> (err = 0 \<longrightarrow> k = n) \<and>
      upd MMU_USER_TOP_LEVEL t ts us h h' \<and>
      pages MMU_USER_TOP_LEVEL (unat e) (unat (um_vaddr mp + of_nat pg * e)) attrs (take k (drop pg (um_pfn_list mp))) ts us \<and>
      (k = 0 \<or> unat (um_vaddr mp + of_nat pg * e) + k * unat e \<le> 2 ^ MMU_USER_SIZE_SHIFT)"
proof (induction n arbitrary: pg h ts)
  case 0
  then show ?case using upd_refl [OF 0(1)] by (intro exI [of _ 0] exI [of _ h] exI [of _ ts]) (simp add: NO_ERROR_def)
next
  case (Suc n)
  let ?l = MMU_USER_TOP_LEVEL and ?v = "um_vaddr mp + of_nat pg * e" and ?f = "um_pfn_list mp ! pg"
  have pg: "pg < length (um_pfn_list mp)" using Suc.prems(4) by simp
  then have "unat ?f + unat e \<le> 2 ^ 48" using assms(3) by (simp add: list_all_length)
  then obtain ret h1 us where r: "user_map ?v ?f e attrs ut h = Some (ret, h1)" and u1: "upd ?l t ts us h h1"
      and o: "outcome ?l (unat ?v) (unat e) ?f attrs (ret = 0) ts us"
      and fit: "ret = 0 \<Longrightarrow> unat ?v + unat e \<le> 2 ^ MMU_USER_SIZE_SHIFT"
    using user_map_ok [OF assms(1) Suc.prems(1-3) assms(2), of ?f e ?v] by metis
  show ?case
  proof (cases "ret = 0")
    case False
    then show ?thesis using r u1 o pg
      by (intro exI [of _ ret] exI [of _ 0] exI [of _ h1] exI [of _ us]) (simp add: outcome_def)
  next
    case True
    obtain err k h2 vs where IH: "map_pages (Suc pg) n e attrs mp ut h1 = Some (err, Suc pg + k, h2)" "k \<le> n"
        "err = 0 \<longrightarrow> k = n" and u2: "upd ?l t us vs h1 h2"
        and p: "pages ?l (unat e) (unat ?v + unat e) attrs (take k (drop (Suc pg) (um_pfn_list mp))) us vs"
        and b: "k = 0 \<or> unat ?v + unat e + k * unat e \<le> 2 ^ MMU_USER_SIZE_SHIFT"
      using Suc.IH [OF updD(1) [OF u1] ulen_upd [OF u1 Suc.prems(2)] alloc_ok_upd [OF u1 Suc.prems(3)], of "Suc pg"]
        Suc.prems(4) unfolding next_page [OF fit [OF True]] by (metis add_Suc_shift)
    have t: "take (Suc k) (drop pg (um_pfn_list mp)) = ?f # take k (drop (Suc pg) (um_pfn_list mp))"
      using pg by (simp add: Cons_nth_drop_Suc [symmetric])
    show ?thesis
    proof (intro exI conjI)
      show "map_pages pg (Suc n) e attrs mp ut h = Some (err, pg + Suc k, h2)" using r True pg IH(1) by simp
      show "upd ?l t ts vs h h2" by (rule upd_trans [OF u1 u2])
      show "pages ?l (unat e) (unat ?v) attrs (take (Suc k) (drop pg (um_pfn_list mp))) ts vs"
        unfolding t using o True p by (auto simp: outcome_def)
      show "Suc k = 0 \<or> unat ?v + Suc k * unat e \<le> 2 ^ MMU_USER_SIZE_SHIFT" using b fit [OF True] by auto
    qed (use IH in auto)
  qed
qed

lemma undo_pages_ok:
  assumes "au_page_table ut = Some t"
  shows "utab (ph_mem h) t us \<Longrightarrow> ulen us \<Longrightarrow>
    pages MMU_USER_TOP_LEVEL (unat e) (unat (um_vaddr mp + of_nat p * e)) attrs fs ts us \<Longrightarrow>
    fs = [] \<or> unat (um_vaddr mp + of_nat p * e) + length fs * unat e \<le> 2 ^ MMU_USER_SIZE_SHIFT \<Longrightarrow>
    \<exists>h' vs. undo_pages p (length fs) e mp ut h = Some h' \<and> upd MMU_USER_TOP_LEVEL t us vs h h' \<and>
      same MMU_USER_TOP_LEVEL ts vs"
proof (induction fs arbitrary: p h us)
  case Nil
  then show ?case using upd_refl [OF Nil(1)] by (intro exI [of _ h] exI [of _ us]) simp
next
  case (Cons f fs)
  let ?l = MMU_USER_TOP_LEVEL and ?v = "um_vaddr mp + of_nat p * e"
  have fit: "unat ?v + unat e \<le> 2 ^ MMU_USER_SIZE_SHIFT" using Cons.prems(4) by simp
  obtain h1 where r: "user_unmap ?v e ut h = Some (0, h1)"
      and u1: "upd ?l t us (cuts ?l (unat ?v) (unat ?v + unat e) us) h h1"
    by (rule user_unmap_ok [OF assms Cons.prems(1,2) fit])
  have p: "pages ?l (unat e) (unat (um_vaddr mp + of_nat (Suc p) * e)) attrs fs ts (cuts ?l (unat ?v) (unat ?v + unat e) us)"
    unfolding next_page [OF fit] by (rule pages_undo [OF Cons.prems(3)])
  obtain h2 vs where "undo_pages (Suc p) (length fs) e mp ut h1 = Some h2"
      and u2: "upd ?l t (cuts ?l (unat ?v) (unat ?v + unat e) us) vs h1 h2" and s: "same ?l ts vs"
    using Cons.IH [OF updD(1) [OF u1] ulen_upd [OF u1 Cons.prems(2)] p] Cons.prems(4) next_page [OF fit] by auto
  then show ?case using r upd_trans [OF u1 u2] by auto
qed

end
