(* ===== verification/UserProperties.thy ===== *)
theory UserProperties
  imports UserSpace
begin

text \<open>
  Theorems about the page tables of a user thread: mapping, translating, and giving them back, seen through the
  walk of the hardware.
\<close>

section \<open>The thread's translation\<close>

text \<open>The thread may have no table yet; \<open>A\<close> are its tables.\<close>

definition user_space :: "arch_ut \<Rightarrow> pt_mem \<Rightarrow> u64 set \<Rightarrow> bool" where
  "user_space ut m A \<longleftrightarrow> (case au_page_table ut of None \<Rightarrow> A = {}
     | Some t \<Rightarrow> pt_space MMU_USER_TOP_LEVEL MMU_USER_PAGE_TABLE_ENTRIES_TOP m t A)"

definition user_walk :: "arch_ut \<Rightarrow> pt_mem \<Rightarrow> nat \<Rightarrow> (u64 \<times> nat) option" where
  "user_walk ut m x = (case au_page_table ut of None \<Rightarrow> None | Some t \<Rightarrow> hw_walk MMU_USER_TOP_LEVEL m t x)"

definition user_xlate :: "arch_ut \<Rightarrow> pt_mem \<Rightarrow> nat \<Rightarrow> (u64 \<times> u64) option" where
  "user_xlate ut m x = (case au_page_table ut of None \<Rightarrow> None | Some t \<Rightarrow> hw_xlate MMU_USER_TOP_LEVEL m t x)"

lemma user_spaceE:
  assumes "user_space ut m A" "au_page_table ut = Some t"
  obtains ts where "utab m t ts" "ulen ts" "A = insert t (utabs ts)"
  using assms by (auto simp: user_space_def pt_space_def ulen_def)

lemma user_spaceI: "au_page_table ut = Some t \<Longrightarrow> utab m t ts \<Longrightarrow> ulen ts \<Longrightarrow> user_space ut m (insert t (utabs ts))"
  by (auto simp: user_space_def pt_space_def ulen_def)

lemma user_walk_tlook: "au_page_table ut = Some t \<Longrightarrow> utab m t ts \<Longrightarrow> user_walk ut m x = tlook MMU_USER_TOP_LEVEL ts x"
  by (simp add: user_walk_def hw_walk_tlook)

lemma user_xlate_eq: "au_page_table ut = Some t \<Longrightarrow> utab m t ts \<Longrightarrow> user_xlate ut m x = xlate MMU_USER_TOP_LEVEL ts x"
  by (simp add: user_xlate_def hw_xlate_eq)

section \<open>A request to map\<close>

text \<open>The size of the pieces of a mapping, and what \<^verbatim>\<open>uthread_map_alloc\<close> sees to: whole pages and enough frames.\<close>

definition piece :: "uthread_map \<Rightarrow> u64" where
  "piece mp = (if um_flags mp AND UTM_PHYS_CONTIG \<noteq> 0 then um_size mp else 0x1000)"

definition map_request_ok :: "uthread_map \<Rightarrow> bool" where
  "map_request_ok mp \<longleftrightarrow> um_size mp AND (0x1000 - 1) = 0 \<and> um_size mp \<noteq> 0 \<and>
     length (um_pfn_list mp) = unat (um_size mp div piece mp) \<and>
     list_all (\<lambda>f. unat f + unat (piece mp) \<le> 2 ^ 48) (um_pfn_list mp)"

definition maps_pages :: "u64 \<Rightarrow> u64 \<Rightarrow> u64 list \<Rightarrow> u64 \<Rightarrow> arch_ut \<Rightarrow> pt_mem \<Rightarrow> arch_ut \<Rightarrow> pt_mem \<Rightarrow> bool" where
  "maps_pages v e fs attr ut m ut' m' \<longleftrightarrow> (\<forall>x.
     if unat v \<le> x \<and> x < unat v + length fs * unat e then
       user_walk ut m x = None \<and>
       user_xlate ut' m' x = Some (fs ! ((x - unat v) div unat e) + of_nat ((x - unat v) mod unat e), attr)
     else user_walk ut' m' x = user_walk ut m x)"

lemma maps_pagesI:
  assumes "pages MMU_USER_TOP_LEVEL (unat e) (unat v) attr fs ts us"
    "\<And>x. user_walk ut m x = tlook MMU_USER_TOP_LEVEL ts x" "au_page_table ut' = Some t" "utab m' t us"
  shows "maps_pages v e fs attr ut m ut' m'"
  using pages_in [OF assms(1)] pages_out [OF assms(1)]
  by (auto simp: maps_pages_def assms(2) user_walk_tlook [OF assms(3,4)] user_xlate_eq [OF assms(3,4)])

lemma page_size_nat: "(w :: u64) AND (0x1000 - 1) = 0 \<Longrightarrow> unat w mod 4096 = 0"
proof -
  assume a: "w AND (0x1000 - 1) = 0"
  have "(0x1000 - 1 :: u64) = mask 12" by (simp add: mask_eq_exp_minus_1)
  then have "take_bit 12 w = 0" using a by (simp add: take_bit_eq_mask)
  then have "take_bit 12 (unat w) = 0" by (simp only: unsigned_take_bit_eq [symmetric] unsigned_0)
  then show ?thesis by (simp add: take_bit_eq_mod)
qed

lemma request_pieces:
  assumes "map_request_ok mp"
  shows "piece mp \<noteq> 0" "length (um_pfn_list mp) * unat (piece mp) = unat (um_size mp)"
proof -
  show "piece mp \<noteq> 0" using assms by (auto simp: piece_def map_request_ok_def)
  have "unat (um_size mp) mod unat (piece mp) = 0"
    using assms page_size_nat [of "um_size mp"] by (auto simp: piece_def map_request_ok_def)
  then show "length (um_pfn_list mp) * unat (piece mp) = unat (um_size mp)"
    using assms by (auto simp: map_request_ok_def unat_div)
qed

section \<open>Mapping\<close>

lemma map_with_table:
  assumes t: "au_page_table ut = Some t" and tab: "utab (ph_mem h) t ts" "ulen ts" and al: "alloc_ok h"
    and ok: "map_request_ok mp" and attr: "uthread_pte_attr (um_flags mp) = Some attr" "attrs_ok attr"
  shows "\<exists>err h' us. arch_uthread_map ma mp ut h = Some (err, ut, h') \<and> upd MMU_USER_TOP_LEVEL t ts us h h' \<and>
    (if err = 0 then pages MMU_USER_TOP_LEVEL (unat (piece mp)) (unat (um_vaddr mp)) attr (um_pfn_list mp) ts us
       \<and> unat (um_vaddr mp) + unat (um_size mp) \<le> 2 ^ MMU_USER_SIZE_SHIFT
     else same MMU_USER_TOP_LEVEL ts us)"
proof -
  let ?n = "unat (um_size mp div piece mp)" and ?l = MMU_USER_TOP_LEVEL
  have len: "length (um_pfn_list mp) = ?n" and frames: "list_all (\<lambda>f. unat f + unat (piece mp) \<le> 2 ^ 48) (um_pfn_list mp)"
    using ok by (simp_all add: map_request_ok_def)
  obtain err k h1 us where r: "map_pages 0 ?n (piece mp) attr mp ut h = Some (err, k, h1)" and k: "k \<le> ?n" "err = 0 \<longrightarrow> k = ?n"
      and u: "upd ?l t ts us h h1"
      and p: "pages ?l (unat (piece mp)) (unat (um_vaddr mp)) attr (take k (um_pfn_list mp)) ts us"
      and b: "k = 0 \<or> unat (um_vaddr mp) + k * unat (piece mp) \<le> 2 ^ MMU_USER_SIZE_SHIFT"
    using map_pages_ok [OF t attr(2) frames tab al, of 0 ?n] len by auto
  have run: "arch_uthread_map ma mp ut h = (if err = 0 then Some (NO_ERROR, ut, h1)
      else do { h \<leftarrow> undo_pages 0 k (piece mp) mp ut h1; Some (err, ut, h) })"
    using ok request_pieces(1) [OF ok] r
    by (simp add: arch_uthread_map_def t attr(1) map_request_ok_def piece_def [symmetric] NO_ERROR_def Let_def)
  show ?thesis
  proof (cases "err = 0")
    case True
    have "unat (um_size mp) \<noteq> 0" using ok by (simp add: map_request_ok_def unat_eq_0)
    then have "k \<noteq> 0" using True k(2) len request_pieces(2) [OF ok] by (metis mult_0)
    then show ?thesis using run True k(2) len u p b request_pieces(2) [OF ok] by (auto simp: NO_ERROR_def)
  next
    case False
    obtain h2 vs where "undo_pages 0 k (piece mp) mp ut h1 = Some h2" and u2: "upd ?l t us vs h1 h2" and s: "same ?l ts vs"
      using undo_pages_ok [OF t updD(1) [OF u] ulen_upd [OF u tab(2)], of "piece mp" mp 0 attr "take k (um_pfn_list mp)" ts]
        p b k(1) len by auto
    then show ?thesis using run False upd_trans [OF u u2] by auto
  qed
qed

lemma utm_attrs:
  assumes "uthread_pte_attr flags = Some attr"
  shows "attrs_ok attr" and "flags AND UTM_IO \<noteq> 0 \<or> flags AND UTM_DEVICE \<noteq> 0 \<Longrightarrow> flags AND UTM_X = 0"
    and "pte_to_mmu_flags attr = Some (ARCH_MMU_FLAG_PERM_USER OR
      (if flags AND UTM_W \<noteq> 0 then 0 else ARCH_MMU_FLAG_PERM_RO) OR
      (if flags AND UTM_X = 0 \<or> flags AND UTM_NS_MEM \<noteq> 0 then ARCH_MMU_FLAG_PERM_NO_EXECUTE else 0) OR
      (if flags AND UTM_NS_MEM \<noteq> 0 then ARCH_MMU_FLAG_NS else 0) OR
      (if flags AND UTM_IO \<noteq> 0 then ARCH_MMU_FLAG_UNCACHED
       else if flags AND UTM_DEVICE \<noteq> 0 then ARCH_MMU_FLAG_UNCACHED_DEVICE else ARCH_MMU_FLAG_CACHED))"
  using assms
  by (cases "flags AND UTM_W = 0"; cases "flags AND UTM_X = 0"; cases "flags AND UTM_NS_MEM = 0"; cases "flags AND UTM_IO = 0";
      cases "flags AND UTM_DEVICE = 0"; force simp: uthread_pte_attr_def mmu_defs MMU_PTE_ATTR_NON_GLOBAL_def attrs_ok_def)+

text \<open>The table made for the first mapping.\<close>

lemma map_first_table:
  assumes "au_page_table ut = None"
  shows "arch_uthread_map ma mp ut h = (case ma of
      None \<Rightarrow> Some (ERR_NO_MEMORY, ut, h)
    | Some p \<Rightarrow> arch_uthread_map ma mp (ut\<lparr>au_page_table := Some p\<rparr>)
        (h\<lparr>ph_mem := (ph_mem h)(p \<mapsto> replicate MMU_USER_PAGE_TABLE_ENTRIES_TOP 0)\<rparr>))"
  using assms by (cases ut) (simp add: arch_uthread_map_def arm64_uthread_allocate_page_table_def NO_ERROR_def
      ERR_NO_MEMORY_def split: option.split)

text \<open>What a call does to the space of a thread.\<close>

definition map_effect :: "uthread_map \<Rightarrow> u64 \<Rightarrow> int \<Rightarrow> arch_ut \<Rightarrow> pt_mem \<Rightarrow> arch_ut \<Rightarrow> pt_mem \<Rightarrow> bool" where
  "map_effect mp attr err ut m ut' m' \<longleftrightarrow>
     (if err = 0 then maps_pages (um_vaddr mp) (piece mp) (um_pfn_list mp) attr ut m ut' m'
        \<and> unat (um_vaddr mp) + unat (um_size mp) \<le> 2 ^ MMU_USER_SIZE_SHIFT
      else \<forall>x. user_walk ut' m' x = user_walk ut m x)"

lemma map_effect_start: "(\<And>x. user_walk ut m x = user_walk ut1 m1 x) \<Longrightarrow>
    map_effect mp attr err ut m ut' m' \<longleftrightarrow> map_effect mp attr err ut1 m1 ut' m'"
  by (simp only: map_effect_def maps_pages_def)

lemma map_request_table:
  assumes t: "au_page_table ut = Some t" and sp: "user_space ut (ph_mem h) A" and al: "alloc_ok h"
    and ok: "map_request_ok mp" and attr: "uthread_pte_attr (um_flags mp) = Some attr"
  obtains err h' A' where "arch_uthread_map ma mp ut h = Some (err, ut, h')" "user_space ut (ph_mem h') A'"
    "chg (ph_mem h) (ph_mem h') A A'" "ph_alloc h' = ph_alloc h" "map_effect mp attr err ut (ph_mem h) ut (ph_mem h')"
proof (rule user_spaceE [OF sp t])
  fix ts assume ts: "utab (ph_mem h) t ts" "ulen ts" "A = insert t (utabs ts)"
  obtain err h' us where r: "arch_uthread_map ma mp ut h = Some (err, ut, h')" and u: "upd MMU_USER_TOP_LEVEL t ts us h h'"
      and o: "if err = 0 then pages MMU_USER_TOP_LEVEL (unat (piece mp)) (unat (um_vaddr mp)) attr (um_pfn_list mp) ts us
         \<and> unat (um_vaddr mp) + unat (um_size mp) \<le> 2 ^ MMU_USER_SIZE_SHIFT else same MMU_USER_TOP_LEVEL ts us"
    using map_with_table [OF t ts(1,2) al ok attr utm_attrs(1) [OF attr]] by metis
  have us: "utab (ph_mem h') t us" by (rule updD(1) [OF u])
  have "user_space ut (ph_mem h') (insert t (utabs us))" by (rule user_spaceI [OF t us ulen_upd [OF u ts(2)]])
  moreover have "chg (ph_mem h) (ph_mem h') A (insert t (utabs us))" using u ts(3) by (simp add: upd_def)
  moreover have "maps_pages (um_vaddr mp) (piece mp) (um_pfn_list mp) attr ut (ph_mem h) ut (ph_mem h')" if "err = 0"
    using o that by (intro maps_pagesI [OF _ user_walk_tlook [OF t ts(1)] t us]) simp
  then have "map_effect mp attr err ut (ph_mem h) ut (ph_mem h')"
    using o by (auto simp: map_effect_def same_def user_walk_tlook [OF t ts(1)] user_walk_tlook [OF t us])
  moreover have "ph_alloc h' = ph_alloc h" using u by (simp add: upd_def)
  ultimately show ?thesis using r that by blast
qed

lemma map_request_outcome:
  assumes sp: "user_space ut (ph_mem h) A" and al: "alloc_ok h" and ok: "map_request_ok mp"
    and attr: "uthread_pte_attr (um_flags mp) = Some attr" and fresh: "\<And>p. ma = Some p \<Longrightarrow> ph_mem h p = None"
  obtains err ut' h' A' where "arch_uthread_map ma mp ut h = Some (err, ut', h')" "user_space ut' (ph_mem h') A'"
    "chg (ph_mem h) (ph_mem h') A A'" "ph_alloc h' = ph_alloc h" "map_effect mp attr err ut (ph_mem h) ut' (ph_mem h')"
proof (cases "au_page_table ut")
  case (Some t)
  show ?thesis by (rule map_request_table [OF Some sp al ok attr, of ma]) (rule that)
next
  case None
  then have A: "A = {}" and w: "user_walk ut (ph_mem h) x = None" for x
    using sp by (simp_all add: user_space_def user_walk_def)
  show ?thesis
  proof (cases ma)
    case ma: None
    then show ?thesis using map_first_table [OF None, of ma mp h] sp
      by (intro that [of ERR_NO_MEMORY ut h A]) (simp_all add: ERR_NO_MEMORY_def map_effect_def)
  next
    case ma: (Some p)
    define ut1 h1 where "ut1 = ut\<lparr>au_page_table := Some p\<rparr>"
      and "h1 = h\<lparr>ph_mem := (ph_mem h)(p \<mapsto> replicate MMU_USER_PAGE_TABLE_ENTRIES_TOP 0)\<rparr>"
    have run: "arch_uthread_map ma mp ut h = arch_uthread_map ma mp ut1 h1"
      unfolding map_first_table [OF None] by (simp add: ma ut1_def h1_def)
    have m: "ph_mem h1 p = Some (replicate MMU_USER_PAGE_TABLE_ENTRIES_TOP 0)" by (simp add: h1_def)
    have t1: "au_page_table ut1 = Some p" by (simp add: ut1_def)
    have sp1: "user_space ut1 (ph_mem h1) {p}" using pt_space_new [of "ph_mem h1" p, OF m] by (simp add: user_space_def t1)
    have w1: "user_walk ut1 (ph_mem h1) x = None" for x
      using pt_space_new_walk [of "ph_mem h1" p, OF m] by (simp add: user_walk_def t1)
    have c1: "chg (ph_mem h) (ph_mem h1) {} {p}" using fresh [OF ma] by (simp add: chg_def h1_def)
    have al_h1: "ph_alloc h1 = ph_alloc h" by (simp add: h1_def)
    have al1: "alloc_ok h1" using al by (simp add: alloc_ok_def h1_def)
    show ?thesis
    proof (rule map_request_table [OF t1 sp1 al1 ok attr, of ma])
      fix err h' A'
      assume "arch_uthread_map ma mp ut1 h1 = Some (err, ut1, h')" "user_space ut1 (ph_mem h') A'"
        "chg (ph_mem h1) (ph_mem h') {p} A'" "ph_alloc h' = ph_alloc h1" "map_effect mp attr err ut1 (ph_mem h1) ut1 (ph_mem h')"
      then show ?thesis using chg_trans [OF c1] map_effect_start [of ut "ph_mem h" ut1 "ph_mem h1"]
        by (intro that [of err ut1 h' A']) (simp_all add: run A w w1 al_h1)
    qed
  qed
qed

text \<open>Only a page boundary can be mapped.\<close>

lemma user_map_aligned:
  assumes "user_map v p sz attrs ut h = Some (0, h')"
  shows "unat v mod 4096 = 0"
proof (rule ccontr)
  assume "unat v mod 4096 \<noteq> 0"
  then have "arm64_mmu_map_pt MMU_USER_TOP_LEVEL (au_asid ut) attrs v (unat v) p (unat sz) t h = Some (ERR_INVALID_ARGS, h)" for t
    by (intro map_pt_unaligned) simp
  then show False using assms
    by (simp add: user_map_def arm64_mmu_map_def Let_def ERR_INVALID_ARGS_def split: if_splits option.splits)
qed

lemma map_pages_aligned:
  "map_pages 0 (Suc n) e attrs mp ut h = Some (0, k, h') \<Longrightarrow> unat (um_vaddr mp) mod 4096 = 0"
  by (auto split: bind_splits if_splits dest: user_map_aligned)

lemma uthread_map_aligned:
  assumes "arch_uthread_map ma mp ut h = Some (NO_ERROR, ut', h')" "map_request_ok mp"
  shows "unat (um_vaddr mp) mod 4096 = 0"
proof -
  have "unat (um_size mp) \<noteq> 0" using assms(2) by (simp add: map_request_ok_def unat_eq_0)
  then have "unat (um_size mp div piece mp) \<noteq> 0"
    using request_pieces(2) [OF assms(2)] assms(2) by (metis map_request_ok_def mult_0)
  then obtain n where "unat (um_size mp div piece mp) = Suc n" by (cases "unat (um_size mp div piece mp)") auto
  then show ?thesis
    using assms(1) unfolding arch_uthread_map_def Let_def piece_def [symmetric] NO_ERROR_def
    by (auto simp del: map_pages.simps split: bind_splits if_splits prod.splits dest: map_pages_aligned)
qed

section \<open>A small thread\<close>

definition um_demo :: uthread_map where
  "um_demo = \<lparr>um_vaddr = 0x200000, um_size = 0x200000, um_flags = UTM_W OR UTM_PHYS_CONTIG, um_align = 0x1000,
     um_pfn_list = [0x40200000]\<rparr>"

definition au_demo :: "u64 option \<Rightarrow> arch_ut" where
  "au_demo t = \<lparr>au_page_table = t, au_asid = 1\<rparr>"

definition ut_demo :: uthread where
  "ut_demo = \<lparr>ut_id = 1, ut_start_stack = 0x10000, ut_entry = 0x8000, ut_ns_va_bottom = MAX_USR_VA, ut_maps = [um_demo],
     ut_malloc = [], ut_arch = [], ut_is_page = (\<lambda>_. False), ut_freed = []\<rparr>"

lemmas utm_defs = UTM_IO_def UTM_W_def UTM_X_def UTM_NS_MEM_def UTM_DEVICE_def UTM_PHYS_CONTIG_def

lemmas run_user = run_map arch_uthread_map_def uthread_pte_attr_def mmu_defs MMU_PTE_ATTR_NON_GLOBAL_def user_map_def
  MMU_USER_SIZE_SHIFT_def MMU_USER_TOP_LEVEL_def MMU_USER_PAGE_TABLE_ENTRIES_TOP_def arm64_uthread_allocate_page_table_def
  utm_defs NO_ERROR_def

lemma um_demo_ok: "map_request_ok um_demo" "uthread_pte_attr (um_flags um_demo) = Some 0x60000000000F48"
  by (simp_all add: map_request_ok_def um_demo_def piece_def uthread_pte_attr_def mmu_defs MMU_PTE_ATTR_NON_GLOBAL_def utm_defs
      push_bit_eq_mult)

lemma au_demo_ok: "user_space (au_demo None) m {}" "user_space (au_demo (Some 0x1000)) (ph_mem (pt_demo 16)) {0x1000}"
  using pt_demo_ok(2) [of MMU_USER_TOP_LEVEL 16]
  by (simp_all add: user_space_def au_demo_def MMU_USER_PAGE_TABLE_ENTRIES_TOP_def MMU_USER_SIZE_SHIFT_def
      MMU_USER_TOP_LEVEL_def pt_shift_def)

lemma au_demo_map: "\<exists>ut' h'. arch_uthread_map (Some 0x2000) um_demo (au_demo None) (pt_demo 1) = Some (NO_ERROR, ut', h')"
  by (simp add: run_user um_demo_def au_demo_def)

lemma pt_demo_free: "Some 0x2000 = Some p \<Longrightarrow> ph_mem (pt_demo n) p = None"
  by (auto simp: pt_demo_def)

section \<open>Properties\<close>

text \<open>
  Property C25.  Mapping a request is all or nothing: \<^verbatim>\<open>arch_uthread_map\<close> always returns; with the code 0 every
  page of the request was free and now leads to its frame with the rights that the flags ask for, and all
  other addresses of the thread translate as before; with any other code, a lack of memory for the top table
  or for a later one and a page that is in use included, no address translates differently.  No other memory
  is touched.
\<close>

theorem uthread_map_installs:
  assumes "user_space ut (ph_mem h) A" and "alloc_ok h" and "map_request_ok mp"
    and "uthread_pte_attr (um_flags mp) = Some attr" and "\<And>p. ma = Some p \<Longrightarrow> ph_mem h p = None"
  shows "\<exists>err ut' h' A'. arch_uthread_map ma mp ut h = Some (err, ut', h') \<and>
    user_space ut' (ph_mem h') A' \<and> chg (ph_mem h) (ph_mem h') A A' \<and>
    (let a = unat (um_vaddr mp); e = unat (piece mp) in \<forall>x.
       if err = 0 \<and> a \<le> x \<and> x < a + unat (um_size mp) then
         user_walk ut (ph_mem h) x = None \<and>
         user_xlate ut' (ph_mem h') x = Some (um_pfn_list mp ! ((x - a) div e) + of_nat ((x - a) mod e), attr)
       else user_walk ut' (ph_mem h') x = user_walk ut (ph_mem h) x)"
proof (rule map_request_outcome [OF assms])
  fix err ut' h' A'
  assume r: "arch_uthread_map ma mp ut h = Some (err, ut', h')" "user_space ut' (ph_mem h') A'"
    "chg (ph_mem h) (ph_mem h') A A'" and e: "map_effect mp attr err ut (ph_mem h) ut' (ph_mem h')"
  show ?thesis unfolding Let_def
    by (rule exI [of _ err], rule exI [of _ ut'], rule exI [of _ h'], rule exI [of _ A'])
       (use r e in \<open>auto simp: map_effect_def maps_pages_def request_pieces(2) [OF assms(3)] split: if_splits\<close>)
qed

theorem uthread_map_installs_witness:
  "\<exists>ut' h'. arch_uthread_map (Some 0x2000) um_demo (au_demo None) (pt_demo 1) = Some (NO_ERROR, ut', h') \<and>
     user_xlate ut' (ph_mem h') 0x200010 = Some (0x40200010, 0x60000000000F48) \<and> user_walk ut' (ph_mem h') 0x100000 = None"
proof -
  obtain ut' h' where r: "arch_uthread_map (Some 0x2000) um_demo (au_demo None) (pt_demo 1) = Some (NO_ERROR, ut', h')"
    using au_demo_map by blast
  note t = uthread_map_installs [where ma = "Some 0x2000", OF au_demo_ok(1) pt_demo_ok(1) [of 1] um_demo_ok pt_demo_free, unfolded r Let_def, rule_format]
  have d: "unat (um_vaddr um_demo) = 0x200000" "unat (um_size um_demo) = 0x200000" "unat (piece um_demo) = 0x200000"
    "um_pfn_list um_demo = [0x40200000]"
    by (simp_all add: um_demo_def piece_def utm_defs)
  have "user_walk (au_demo None) m x = None" for m x by (simp add: user_walk_def au_demo_def)
  then show ?thesis using t unfolding d r
    by (auto simp: NO_ERROR_def dest: spec [of _ "0x200010"] spec [of _ "0x100000"])
qed

text \<open>
  Property C27.  The page-table attributes are the rights of the mapping, as the kernel itself decodes them: user
  access, writable exactly with \<^verbatim>\<open>UTM_W\<close>, executable only with \<^verbatim>\<open>UTM_X\<close> and never for the normal world's memory,
  non-secure exactly with \<^verbatim>\<open>UTM_NS_MEM\<close>, and not cached for I/O and devices, which are never executable.
\<close>

theorem uthread_rights:
  assumes "uthread_pte_attr flags = Some attr"
  shows "pte_to_mmu_flags attr = Some (ARCH_MMU_FLAG_PERM_USER OR
      (if flags AND UTM_W \<noteq> 0 then 0 else ARCH_MMU_FLAG_PERM_RO) OR
      (if flags AND UTM_X = 0 \<or> flags AND UTM_NS_MEM \<noteq> 0 then ARCH_MMU_FLAG_PERM_NO_EXECUTE else 0) OR
      (if flags AND UTM_NS_MEM \<noteq> 0 then ARCH_MMU_FLAG_NS else 0) OR
      (if flags AND UTM_IO \<noteq> 0 then ARCH_MMU_FLAG_UNCACHED
       else if flags AND UTM_DEVICE \<noteq> 0 then ARCH_MMU_FLAG_UNCACHED_DEVICE else ARCH_MMU_FLAG_CACHED)) \<and>
    \<not> ((flags AND UTM_IO \<noteq> 0 \<or> flags AND UTM_DEVICE \<noteq> 0) \<and> flags AND UTM_X \<noteq> 0)"
  using utm_attrs(2,3) [OF assms] by blast

theorem uthread_rights_witness: "pte_to_mmu_flags 0x60000000000F48 = Some 20"
  using uthread_rights [OF um_demo_ok(2)]
  by (simp add: um_demo_def utm_defs ARCH_MMU_FLAG_PERM_USER_def ARCH_MMU_FLAG_PERM_NO_EXECUTE_def ARCH_MMU_FLAG_CACHED_def)

text \<open>
  \<^verbatim>\<open>arch_uthread_free\<close> gives every table of the thread back, the top one too, and changes no other
  memory.
\<close>

theorem uthread_free_returns_tables:
  assumes "user_space ut (ph_mem h) A"
  shows "\<exists>h'. arch_uthread_free ut h = Some h' \<and> (\<forall>p. ph_mem h' p = (if p \<in> A then None else ph_mem h p))"
proof (cases "au_page_table ut")
  case None
  then have "arch_uthread_free ut h = Some h"
    by (simp add: arch_uthread_free_def user_unmap_def arm64_mmu_unmap_def Let_def)
  then show ?thesis using assms None by (simp add: user_space_def)
next
  case (Some t)
  obtain ts where ts: "utab (ph_mem h) t ts" "ulen ts" "A = insert t (utabs ts)" by (rule user_spaceE [OF assms Some])
  let ?l = MMU_USER_TOP_LEVEL and ?sz = "push_bit MMU_USER_SIZE_SHIFT 1 :: u64"
  have sz: "unat ?sz = length ts * blk ?l"
    using ts(2) by (simp add: ulen_def MMU_USER_SIZE_SHIFT_def MMU_USER_PAGE_TABLE_ENTRIES_TOP_def blk_def
        MMU_USER_TOP_LEVEL_def pt_shift_def push_bit_eq_mult)
  then have fit: "unat (0 :: u64) + unat ?sz \<le> 2 ^ MMU_USER_SIZE_SHIFT"
    by (simp add: MMU_USER_SIZE_SHIFT_def push_bit_eq_mult)
  obtain h1 where r: "user_unmap 0 ?sz ut h = Some (0, h1)" and u: "upd ?l t ts (cuts ?l 0 (length ts * blk ?l) ts) h h1"
    using user_unmap_ok [OF Some ts(1,2) fit] unfolding sz by auto
  have "utabs (cuts ?l 0 (length ts * blk ?l) ts) = {}" by (rule utabs_clear [OF cuts_full [OF ts(1)]])
  then have c: "chg (ph_mem h) (ph_mem h1) A {t}" using u ts(3) by (simp add: upd_def)
  have "ph_mem h1 t \<noteq> None" using reptab_dom [OF updD(1) [OF u], of t] by simp
  then show ?thesis using r c ts(3) Some by (auto simp: arch_uthread_free_def chg_def)
qed

theorem uthread_free_returns_tables_witness:
  "\<exists>h'. arch_uthread_free (au_demo (Some 0x1000)) (pt_demo 16) = Some h' \<and> ph_mem h' 0x1000 = None"
  using uthread_free_returns_tables [OF au_demo_ok(2)] by auto

text \<open>
  \<^verbatim>\<open>uthread_virt_to_phys\<close>, which looks the address up in the list of mappings, answers what the
  hardware finds in the page tables, once \<^verbatim>\<open>arch_uthread_map\<close> has entered the mapping.
\<close>

theorem virt_to_phys_is_hardware:
  assumes "user_space au (ph_mem h) A" and "alloc_ok h" and "map_request_ok mp"
    and "uthread_pte_attr (um_flags mp) = Some attr" and "\<And>p. ma = Some p \<Longrightarrow> ph_mem h p = None"
    and "arch_uthread_map ma mp au h = Some (NO_ERROR, au', h')" and "uthread_map_find ut va 0 = Some mp"
  shows "\<exists>pa. uthread_virt_to_phys ut va = Some (NO_ERROR, pa) \<and> user_xlate au' (ph_mem h') (unat va) = Some (pa, attr)"
proof -
  let ?a = "unat (um_vaddr mp)" and ?x = "unat va" and ?e = "unat (piece mp)" and ?fs = "um_pfn_list mp"
  have e: "map_effect mp attr NO_ERROR au (ph_mem h) au' (ph_mem h')"
    by (rule map_request_outcome [OF assms(1-5)]) (use assms(6) in auto)
  then have fit: "?a + unat (um_size mp) \<le> 2 ^ 25"
    by (simp add: map_effect_def NO_ERROR_def MMU_USER_SIZE_SHIFT_def)
  then have "unat (um_vaddr mp + um_size mp) = ?a + unat (um_size mp)" by (intro unat_add_lem [THEN iffD1]) simp
  moreover have "map_covers va 0 mp" using assms(7) by (auto simp: uthread_map_find_def find_Some_iff split: if_splits)
  ultimately have x: "?a \<le> ?x" "?x < ?a + unat (um_size mp)" by (simp_all add: map_covers_def word_le_nat_alt word_less_nat_alt)
  then have d: "unat (va - um_vaddr mp) = ?x - ?a" by (simp add: unat_sub_if')
  have hw: "user_xlate au' (ph_mem h') ?x = Some (?fs ! ((?x - ?a) div ?e) + of_nat ((?x - ?a) mod ?e), attr)"
    using e x request_pieces(2) [OF assms(3)] by (simp add: map_effect_def maps_pages_def NO_ERROR_def)
  have i: "(?x - ?a) div ?e < length ?fs"
    using x request_pieces [OF assms(3)] by (simp add: div_less_iff_less_mult unat_gt_0)
  show ?thesis
  proof (cases "um_flags mp AND UTM_PHYS_CONTIG = 0")
    case False
    then have p: "?e = unat (um_size mp)" by (simp add: piece_def)
    then have "?fs \<noteq> []" "(?x - ?a) div ?e = 0" "(?x - ?a) mod ?e = ?x - ?a" using x i by auto
    moreover have "of_nat (?x - ?a) = va - um_vaddr mp" by (simp add: d [symmetric])
    ultimately show ?thesis using hw False assms(7) by (simp add: uthread_virt_to_phys_def hd_conv_nth)
  next
    case True
    then have p: "?e = 4096" by (simp add: piece_def)
    have pg: "unat (ucast ((va - um_vaddr mp) div 0x1000) :: u32) = (?x - ?a) div 4096"
      using fit x by (simp add: unat_ucast_u64 unat_div d)
    have "?x mod 4096 = (?x - ?a) mod 4096"
      using uthread_map_aligned [OF assms(6,3)] x(1) by (metis le_add_diff_inverse mod_add_left_eq add_0)
    moreover have "va AND 0xFFF = of_nat (?x mod 4096)"
    proof -
      have "va AND 0xFFF = take_bit 12 va" by (simp add: take_bit_eq_mask mask_eq_exp_minus_1)
      also have "\<dots> = of_nat (unat (take_bit 12 va))" by simp
      also have "unat (take_bit 12 va) = take_bit 12 ?x" by (rule unsigned_take_bit_eq)
      finally show ?thesis by (simp add: take_bit_eq_mod)
    qed
    ultimately show ?thesis using hw True assms(7) i p pg by (simp add: uthread_virt_to_phys_def Let_def)
  qed
qed

theorem virt_to_phys_is_hardware_witness:
  "\<exists>ut' h'. arch_uthread_map (Some 0x2000) um_demo (au_demo None) (pt_demo 1) = Some (NO_ERROR, ut', h') \<and>
     uthread_virt_to_phys ut_demo 0x200010 = Some (NO_ERROR, 0x40200010) \<and>
     user_xlate ut' (ph_mem h') 0x200010 = Some (0x40200010, 0x60000000000F48)"
proof -
  obtain ut' h' where r: "arch_uthread_map (Some 0x2000) um_demo (au_demo None) (pt_demo 1) = Some (NO_ERROR, ut', h')"
    using au_demo_map by blast
  have f: "uthread_map_find ut_demo 0x200010 0 = Some um_demo"
    by (simp add: uthread_map_find_def ut_demo_def map_covers_def um_demo_def)
  have "uthread_virt_to_phys ut_demo 0x200010 = Some (NO_ERROR, 0x40200010)"
    by (simp add: uthread_virt_to_phys_def f) (simp add: um_demo_def utm_defs)
  then show ?thesis using virt_to_phys_is_hardware [OF au_demo_ok(1) pt_demo_ok(1) um_demo_ok pt_demo_free r f] r by simp
qed

end
