(* ===== verification/UserTranslate.thy ===== *)
theory UserTranslate
  imports UserProperties
begin

text \<open>
  Theorems about \<^verbatim>\<open>arch_uthread_translate_map\<close>, which maps pages of the normal world, given as page-table
  entries, into a user thread.
\<close>

section \<open>One entry of the normal world\<close>

text \<open>Whether an entry is accepted, the cache attributes in it, and the attributes that the first entry gives the
  mapping.\<close>

definition ns_page_ok :: "u32 \<Rightarrow> u64 \<Rightarrow> bool" where
  "ns_page_ok flags pte \<longleftrightarrow> (flags AND UTM_W = 0 \<or> NS_PTE_AP_U_RW pte) \<and>
     mair_to_cb ! unat (NS_PTE_ATTR_OUTER pte) AND 4 = 0 \<and> mair_to_cb ! unat (NS_PTE_ATTR_INNER pte) AND 4 = 0"

definition ns_cache :: "u64 \<Rightarrow> u32 \<times> u32 \<times> u32" where
  "ns_cache pte = (mair_to_cb ! unat (NS_PTE_ATTR_INNER pte), mair_to_cb ! unat (NS_PTE_ATTR_OUTER pte),
     NS_PTE_ATTR_SHAREABLE pte)"

definition first_attr :: "u64 \<Rightarrow> u64 \<Rightarrow> u64" where
  "first_attr attr pte = (case ns_cache pte of (inner, outer, shareable) \<Rightarrow>
     (attr OR (if shareable \<noteq> 0 then MMU_PTE_ATTR_SH_INNER_SHAREABLE else 0)) OR
     (if inner OR outer \<noteq> 0 then MMU_PTE_ATTR_NORMAL_MEMORY else 0))"

definition translate_attr :: "u32 \<Rightarrow> u64 \<Rightarrow> u64" where
  "translate_attr flags pte = first_attr (((MMU_PTE_ATTR_NON_GLOBAL OR MMU_PTE_ATTR_AF) OR
     (if flags AND UTM_NS_MEM \<noteq> 0 then MMU_PTE_ATTR_NON_SECURE else 0)) OR
     (if flags AND UTM_W \<noteq> 0 then MMU_PTE_ATTR_AP_P_RW_U_RW else MMU_PTE_ATTR_AP_P_RO_U_RO)) pte"

lemma page_source_ns: "pg < length ptes \<Longrightarrow> page_source flags at (Some ptes) va pg =
    Some (if ns_page_ok flags (ptes ! pg)
      then (case ns_cache (ptes ! pg) of (i, u, s) \<Rightarrow> Inr (i, u, s, NS_PTE_PHYSADDR (ptes ! pg))) else Inl NO_ERROR)"
  by (auto simp: page_source_def ns_page_ok_def ns_cache_def Let_def)

lemma ns_phys_bound: "unat (NS_PTE_PHYSADDR pte) + unat (0x1000 :: u64) \<le> 2 ^ 48"
proof -
  have "unat (NS_PTE_PHYSADDR pte) \<le> unat (0xFFFFFFFFF000 :: u64)"
    unfolding NS_PTE_PHYSADDR_def word_le_nat_alt [symmetric] by (rule word_and_le1)
  then show ?thesis by simp
qed

lemma attrs_ok_or: "attrs_ok (a OR b) \<longleftrightarrow> attrs_ok a \<and> attrs_ok b"
  by (auto simp: attrs_ok_def bit_eq_iff bit_simps)

lemma first_attrs_ok: "attrs_ok attr \<Longrightarrow> attrs_ok (first_attr attr pte)"
proof -
  have "attrs_ok 0" "attrs_ok MMU_PTE_ATTR_SH_INNER_SHAREABLE" "attrs_ok MMU_PTE_ATTR_NORMAL_MEMORY"
    by (simp_all add: attrs_ok_def mmu_defs)
  then show "attrs_ok attr \<Longrightarrow> attrs_ok (first_attr attr pte)" by (simp add: first_attr_def attrs_ok_or ns_cache_def)
qed

section \<open>The loop\<close>

abbreviation "accepted flags ptes \<equiv> takeWhile (ns_page_ok flags) ptes"

text \<open>One turn of the loop.\<close>

lemma translate_turn:
  assumes pg: "pg < length ptes" and c: "ns_cache (ptes ! pg) = (i, u, s)"
  shows "translate_pages flags at (Some ptes) pg (Suc n) va vt attr first ut h =
    (if \<not> ns_page_ok flags (ptes ! pg) then Some (NO_ERROR, [], h)
     else if pg \<noteq> 0 \<and> (i, u, s) \<noteq> first then Some (ERR_NOT_VALID, [], h)
     else do {
       (err, h) \<leftarrow> user_map vt (NS_PTE_PHYSADDR (ptes ! pg)) 0x1000
         (if pg = 0 then first_attr attr (ptes ! 0) else attr) ut h;
       if err \<noteq> NO_ERROR then Some (err, [NS_PTE_PHYSADDR (ptes ! pg)], h)
       else do {
         (err, pfns, h) \<leftarrow> translate_pages flags at (Some ptes) (Suc pg) n (va + 0x1000) (vt + 0x1000)
           (if pg = 0 then first_attr attr (ptes ! 0) else attr) (i, u, s) ut h;
         Some (err, NS_PTE_PHYSADDR (ptes ! pg) # pfns, h) } })"
proof -
  have a: "(if pg = 0 then first_attr attr (ptes ! 0) else attr) =
     (let attr = (if pg = 0 \<and> s \<noteq> 0 then attr OR MMU_PTE_ATTR_SH_INNER_SHAREABLE else attr) in
      if pg = 0 \<and> i OR u \<noteq> 0 then attr OR MMU_PTE_ATTR_NORMAL_MEMORY else attr)"
    using c by (auto simp: first_attr_def Let_def)
  show ?thesis unfolding translate_pages.simps page_source_ns [OF pg] c a
    by (cases "ns_page_ok flags (ptes ! pg)"; cases "pg \<noteq> 0 \<and> (i, u, s) \<noteq> first")
       (simp_all only: Let_def if_True if_False bind.bind_lunit sum.case split_conv simp_thms)
qed

declare translate_pages.simps(2) [simp del]

lemma translate_pages_ok:
  assumes t: "au_page_table ut = Some t"
  shows "utab (ph_mem h) t ts \<Longrightarrow> ulen ts \<Longrightarrow> alloc_ok h \<Longrightarrow> attrs_ok attr \<Longrightarrow> pg + n \<le> length ptes \<Longrightarrow>
    \<exists>err pfns h' us k. translate_pages flags at (Some ptes) pg n va vt attr first ut h = Some (err, pfns, h') \<and>
      upd MMU_USER_TOP_LEVEL t ts us h h' \<and>
      pages MMU_USER_TOP_LEVEL (unat (0x1000 :: u64)) (unat vt) (if pg = 0 then first_attr attr (ptes ! 0) else attr)
        (take k (map NS_PTE_PHYSADDR (accepted flags (take n (drop pg ptes))))) ts us \<and>
      (err = NO_ERROR \<longrightarrow> k = n \<and> pfns = map NS_PTE_PHYSADDR (accepted flags (take n (drop pg ptes))))"
proof (induction n arbitrary: pg va vt attr first h ts)
  case 0
  then show ?case using upd_refl [OF 0(1)]
    by (intro exI [of _ NO_ERROR] exI [of _ "[]"] exI [of _ h] exI [of _ ts] exI [of _ 0]) simp
next
  case (Suc n)
  let ?l = MMU_USER_TOP_LEVEL and ?e = "unat (0x1000 :: u64)" and ?pte = "ptes ! pg"
  define attr' where "attr' = (if pg = 0 then first_attr attr (ptes ! 0) else attr)"
  have pg: "pg < length ptes" using Suc.prems(5) by simp
  have acc: "accepted flags (take (Suc n) (drop pg ptes)) =
      (if ns_page_ok flags ?pte then ?pte # accepted flags (take n (drop (Suc pg) ptes)) else [])"
    using pg by (simp add: Cons_nth_drop_Suc [symmetric])
  have at': "attrs_ok attr'" using Suc.prems(4) by (simp add: attr'_def first_attrs_ok)
  obtain i u s where c: "ns_cache ?pte = (i, u, s)" by (cases "ns_cache ?pte")
  note step = translate_turn [OF pg c, where attr = attr, folded attr'_def]
  have stop: ?case if "translate_pages flags at (Some ptes) pg (Suc n) va vt attr first ut h = Some (err, pfns, h')"
    "upd ?l t ts us h h'" "same ?l ts us" "err \<noteq> NO_ERROR \<or> \<not> ns_page_ok flags ?pte \<and> pfns = []" for err pfns h' us
    using that by (intro exI [of _ err] exI [of _ pfns] exI [of _ h'] exI [of _ us] exI [of _ "if err = NO_ERROR then Suc n else 0"])
      (auto simp: acc)
  show ?case
  proof (cases "ns_page_ok flags ?pte \<and> \<not> (pg \<noteq> 0 \<and> (i, u, s) \<noteq> first)")
    case False
    then show ?thesis
      by (intro stop [OF _ upd_refl [OF Suc.prems(1)] same_refl, of "if ns_page_ok flags ?pte then ERR_NOT_VALID else NO_ERROR" "[]"])
         (auto simp: step ERR_NOT_VALID_def NO_ERROR_def)
  next
    case go: True
    obtain ret h1 us where r: "user_map vt (NS_PTE_PHYSADDR ?pte) 0x1000 attr' ut h = Some (ret, h1)" and u1: "upd ?l t ts us h h1"
        and o: "outcome ?l (unat vt) ?e (NS_PTE_PHYSADDR ?pte) attr' (ret = 0) ts us"
        and fit: "ret = 0 \<Longrightarrow> unat vt + ?e \<le> 2 ^ MMU_USER_SIZE_SHIFT"
      using user_map_ok [OF t Suc.prems(1-3) at' ns_phys_bound [of ?pte], of vt] by metis
    show ?thesis
    proof (cases "ret = 0")
      case False
      then show ?thesis using go r o by (intro stop [OF _ u1, of ret "[NS_PTE_PHYSADDR ?pte]"]) (auto simp: step NO_ERROR_def outcome_def)
    next
      case True
      have nx: "unat (vt + 0x1000) = unat vt + ?e" using next_page [of vt 0 "0x1000"] fit [OF True] by simp
      obtain err pfns h2 vs k where IH:
          "translate_pages flags at (Some ptes) (Suc pg) n (va + 0x1000) (vt + 0x1000) attr' (i, u, s) ut h1 = Some (err, pfns, h2)"
          and u2: "upd ?l t us vs h1 h2"
          and p: "pages ?l ?e (unat vt + ?e) attr' (take k (map NS_PTE_PHYSADDR (accepted flags (take n (drop (Suc pg) ptes))))) us vs"
          and k: "err = NO_ERROR \<longrightarrow> k = n \<and> pfns = map NS_PTE_PHYSADDR (accepted flags (take n (drop (Suc pg) ptes)))"
        using Suc.IH [OF updD(1) [OF u1] ulen_upd [OF u1 Suc.prems(2)] alloc_ok_upd [OF u1 Suc.prems(3)] at', of "Suc pg"
            "va + 0x1000" "vt + 0x1000" "(i, u, s)"] Suc.prems(5) unfolding nx by auto
      show ?thesis unfolding attr'_def [symmetric]
      proof (intro exI conjI)
        show "translate_pages flags at (Some ptes) pg (Suc n) va vt attr first ut h =
            Some (err, NS_PTE_PHYSADDR ?pte # pfns, h2)" using step go r True IH by (simp add: NO_ERROR_def)
        show "upd ?l t ts vs h h2" by (rule upd_trans [OF u1 u2])
        show "pages ?l ?e (unat vt) attr'
            (take (Suc k) (map NS_PTE_PHYSADDR (accepted flags (take (Suc n) (drop pg ptes))))) ts vs"
          unfolding acc using go o True p by (auto simp: outcome_def)
      qed (use k go acc in auto)
    qed
  qed
qed

lemma translate_no_table:
  assumes "au_page_table ut = None" "n \<le> length ptes"
  shows "\<exists>err pfns. translate_pages flags at (Some ptes) 0 n va vt attr first ut h = Some (err, pfns, h) \<and>
    (err = NO_ERROR \<longrightarrow> pfns = [] \<and> takeWhile (ns_page_ok flags) (take n ptes) = [])"
proof (cases n)
  case (Suc k)
  obtain i u s where c: "ns_cache (ptes ! 0) = (i, u, s)" by (cases "ns_cache (ptes ! 0)")
  have p: "0 < length ptes" "take n ptes = ptes ! 0 # take k (tl ptes)" using assms(2) Suc by (cases ptes; simp)+
  have "user_map vt pa sz at ut h = Some (ERR_INVALID_ARGS, h)" for pa sz at
    by (simp add: user_map_def arm64_mmu_map_def Let_def assms(1))
  then show ?thesis unfolding p(2) unfolding Suc translate_turn [OF p(1) c]
    by (simp add: NO_ERROR_def ERR_INVALID_ARGS_def)
qed simp

lemma translate_attr_exec: "translate_attr flags pte AND (MMU_PTE_ATTR_UXN OR MMU_PTE_ATTR_PXN) = 0"
  by (simp add: translate_attr_def first_attr_def ns_cache_def mmu_defs MMU_PTE_ATTR_NON_GLOBAL_def word_ao_dist)

lemma translate_base_ok: "attrs_ok (((MMU_PTE_ATTR_NON_GLOBAL OR MMU_PTE_ATTR_AF) OR
     (if flags AND UTM_NS_MEM \<noteq> 0 then MMU_PTE_ATTR_NON_SECURE else 0)) OR
     (if flags AND UTM_W \<noteq> 0 then MMU_PTE_ATTR_AP_P_RW_U_RW else MMU_PTE_ATTR_AP_P_RO_U_RO))"
  by (simp add: attrs_ok_def mmu_defs MMU_PTE_ATTR_NON_GLOBAL_def)

lemma translate_map_run:
  "arch_uthread_translate_map ut va vt npages flags at ns h =
    translate_pages flags at ns 0 (unat npages) va vt (((MMU_PTE_ATTR_NON_GLOBAL OR MMU_PTE_ATTR_AF) OR
     (if flags AND UTM_NS_MEM \<noteq> 0 then MMU_PTE_ATTR_NON_SECURE else 0)) OR
     (if flags AND UTM_W \<noteq> 0 then MMU_PTE_ATTR_AP_P_RW_U_RW else MMU_PTE_ATTR_AP_P_RO_U_RO))
     (0xFFFFFFFF, 0xFFFFFFFF, 0xFFFFFFFF) ut h"
  by (simp add: arch_uthread_translate_map_def Let_def)

section \<open>Properties\<close>

text \<open>
  Property C28.  What \<^verbatim>\<open>arch_uthread_translate_map\<close> does with a list of entries from the normal world: the
  entries are taken up to the first one that is refused (read-only for a writable mapping, or of an unknown
  cache attribute); with the code \<^verbatim>\<open>NO_ERROR\<close> exactly those pages are mapped and their frames returned, so that the
  code does not say that all pages are mapped; with another code the first of them may stay mapped.  All the
  pages have the attributes of the first one, and none is execute-never.
\<close>

theorem translate_map_accepted_prefix:
  assumes "user_space ut (ph_mem h) A" and "alloc_ok h" and "unat npages \<le> length ptes"
    and "fs = map NS_PTE_PHYSADDR (takeWhile (ns_page_ok flags) (take (unat npages) ptes))"
    and "attr = translate_attr flags (ptes ! 0)"
  shows "\<exists>err pfns h' A' k. arch_uthread_translate_map ut va vt npages flags at (Some ptes) h = Some (err, pfns, h') \<and>
    user_space ut (ph_mem h') A' \<and> chg (ph_mem h) (ph_mem h') A A' \<and>
    maps_pages vt 0x1000 (take k fs) attr ut (ph_mem h) ut (ph_mem h') \<and>
    (err = NO_ERROR \<longrightarrow> pfns = fs \<and> take k fs = fs) \<and>
    attr AND (MMU_PTE_ATTR_UXN OR MMU_PTE_ATTR_PXN) = 0"
proof -
  let ?l = MMU_USER_TOP_LEVEL and ?n = "unat npages"
  have xn: "attr AND (MMU_PTE_ATTR_UXN OR MMU_PTE_ATTR_PXN) = 0" unfolding assms(5) by (rule translate_attr_exec)
  show ?thesis
  proof (cases "au_page_table ut")
    case None
    have "\<exists>err pfns. arch_uthread_translate_map ut va vt npages flags at (Some ptes) h = Some (err, pfns, h) \<and>
        (err = NO_ERROR \<longrightarrow> pfns = [] \<and> fs = [])"
      unfolding translate_map_run assms(4) list.map_disc_iff by (rule translate_no_table [OF None assms(3)])
    then obtain err pfns where r: "arch_uthread_translate_map ut va vt npages flags at (Some ptes) h = Some (err, pfns, h)"
        "err = NO_ERROR \<longrightarrow> pfns = [] \<and> fs = []" by blast
    show ?thesis
      by (rule exI [of _ err], rule exI [of _ pfns], rule exI [of _ h], rule exI [of _ A], rule exI [of _ 0])
         (use r assms(1) xn in \<open>auto simp: maps_pages_def\<close>)
  next
    case (Some t)
    obtain ts where ts: "utab (ph_mem h) t ts" "ulen ts" "A = insert t (utabs ts)" by (rule user_spaceE [OF assms(1) Some])
    have len: "0 + ?n \<le> length ptes" using assms(3) by simp
    obtain err pfns h' us k where r: "arch_uthread_translate_map ut va vt npages flags at (Some ptes) h = Some (err, pfns, h')"
        and u: "upd ?l t ts us h h'" and p: "pages ?l (unat (0x1000 :: u64)) (unat vt) attr (take k fs) ts us"
        and k: "err = NO_ERROR \<longrightarrow> k = ?n \<and> pfns = fs"
      using translate_pages_ok [OF Some ts(1,2) assms(2) translate_base_ok [of flags] len, of flags at va vt
          "(0xFFFFFFFF, 0xFFFFFFFF, 0xFFFFFFFF)"]
      unfolding translate_map_run assms(4,5) translate_attr_def by auto
    have us: "utab (ph_mem h') t us" by (rule updD(1) [OF u])
    have m: "maps_pages vt 0x1000 (take k fs) attr ut (ph_mem h) ut (ph_mem h')"
      by (rule maps_pagesI [OF p user_walk_tlook [OF Some ts(1)] Some us])
    have "length fs \<le> ?n" using length_takeWhile_le [of "ns_page_ok flags" "take ?n ptes"] by (simp add: assms(4))
    then have full: "err = NO_ERROR \<longrightarrow> pfns = fs \<and> take k fs = fs" using k by simp
    have "chg (ph_mem h) (ph_mem h') A (insert t (utabs us))" using u ts(3) by (simp add: upd_def)
    then show ?thesis using r user_spaceI [OF Some us ulen_upd [OF u ts(2)]] m full xn by blast
  qed
qed

theorem translate_map_accepted_prefix_witness:
  "\<exists>h'. arch_uthread_translate_map (au_demo (Some 0x1000)) 0 0x8000 2 UTM_W (\<lambda>_ _. 0) (Some [0x55000000070040, 0]) (pt_demo 16)
       = Some (NO_ERROR, [0x70000], h') \<and>
     map_option fst (user_xlate (au_demo (Some 0x1000)) (ph_mem h') 0x8010) = Some 0x70010 \<and>
     user_walk (au_demo (Some 0x1000)) (ph_mem h') 0x9010 = None"
proof -
  let ?r = "arch_uthread_translate_map (au_demo (Some 0x1000)) 0 0x8000 2 UTM_W (\<lambda>_ _. 0) (Some [0x55000000070040, 0])
    (pt_demo 16)"
  note pte = NS_PTE_ATTR_OUTER_def NS_PTE_ATTR_INNER_def NS_PTE_ATTR_MAIR_def NS_PTE_AP_U_RW_def NS_PTE_AP_def
    NS_PTE_ATTR_SHAREABLE_def NS_PTE_PHYSADDR_def mair_to_cb_def drop_bit_eq_div
  have two: "unat (2 :: u32) = Suc (Suc 0)" by simp
  have "\<exists>fs h'. ?r = Some (NO_ERROR, fs, h')"
    unfolding arch_uthread_translate_map_def two
    by (simp add: run_user au_demo_def translate_pages.simps page_source_def pte arm64_mmu_get_page_table_def
        alloc_page_table_def pte_desc_defs)
  then obtain fs h' where r: "?r = Some (NO_ERROR, fs, h')" by blast
  have acc: "map NS_PTE_PHYSADDR (takeWhile (ns_page_ok UTM_W) (take (unat (2 :: u32)) [0x55000000070040, 0])) = [0x70000]"
    unfolding two by (simp add: ns_page_ok_def pte utm_defs)
  have w0: "user_walk (au_demo (Some 0x1000)) (ph_mem (pt_demo 16)) x = None" for x
    using pt_space_new_walk [of "ph_mem (pt_demo 16)" "0x1000" 16]
    by (simp add: user_walk_def au_demo_def pt_demo_def)
  obtain k where k: "take k [0x70000] = [0x70000 :: u64]" "fs = [0x70000]" and m: "maps_pages 0x8000 0x1000 (take k [0x70000])
      (translate_attr UTM_W ([0x55000000070040, 0] ! 0)) (au_demo (Some 0x1000)) (ph_mem (pt_demo 16)) (au_demo (Some 0x1000)) (ph_mem h')"
    using translate_map_accepted_prefix [OF au_demo_ok(2) pt_demo_ok(1) _ acc [symmetric] refl, of 0 "0x8000" "\<lambda>_ _. 0"] r by auto
  show ?thesis using r k m unfolding k(1) maps_pages_def
    by (auto simp: w0 dest: spec [of _ "0x8010"] spec [of _ "0x9010"])
qed

end
