(* ===== verification/HwSpace.thy ===== *)
theory HwSpace
  imports UserProperties AddressSpace
begin

text \<open>
  The list of mappings of \<^verbatim>\<open>uthread.c\<close> together with the page tables of \<^verbatim>\<open>arch/arm64\<close>: the operations of a thread
  on both, and that in every reachable state the hardware lets the thread reach exactly what the list says.
\<close>

section \<open>The operations on both\<close>

text \<open>
  \<^verbatim>\<open>uthread_map_locked\<close> and \<^verbatim>\<open>uthread_unmap_locked\<close> once more, now with \<^verbatim>\<open>arch_uthread_map\<close> and
  \<^verbatim>\<open>arch_uthread_unmap\<close> called on the tables; \<open>ma\<close> is what \<^verbatim>\<open>memalign\<close> answers if the top table is still to be made.
\<close>

definition uthread_map_locked :: "u64 \<Rightarrow> u64 list option \<Rightarrow> u64 \<Rightarrow> u32 \<Rightarrow> u32 \<Rightarrow> u64 option \<Rightarrow> uthread \<Rightarrow> arch_ut \<Rightarrow> pt_heap
    \<Rightarrow> (int \<times> u64 \<times> uthread \<times> arch_ut \<times> pt_heap) option" where
  "uthread_map_locked vaddr pfns sz flags align ma ut au h =
     (case pfns of None \<Rightarrow> Some (ERR_INVALID_ARGS, vaddr, ut, au, h)
      | Some pfn_list \<Rightarrow>
        if sz AND (0x1000 - 1) \<noteq> 0 then Some (ERR_NOT_VALID, vaddr, ut, au, h)
        else
          let vaddr = (if flags AND UTM_FIXED = 0 then uthread_find_va_space ut sz flags align else vaddr) in
          if flags AND UTM_FIXED = 0 \<and> vaddr = 0 then Some (ERR_NO_MEMORY, vaddr, ut, au, h)
          else do {
            (err, ut) \<leftarrow> uthread_map_alloc vaddr pfn_list sz flags align ut;
            if err \<noteq> 0 then Some (err, vaddr, ut, au, h)
            else do {
              (err, au, h) \<leftarrow> arch_uthread_map ma (new_map vaddr pfn_list sz flags align) au h;
              Some (err, vaddr, ut, au, h) } })"

definition uthread_unmap_locked :: "u64 \<Rightarrow> u64 \<Rightarrow> uthread \<Rightarrow> arch_ut \<Rightarrow> pt_heap \<Rightarrow> (int \<times> uthread \<times> pt_heap) option" where
  "uthread_unmap_locked vaddr sz ut au h =
     (if vaddr = 0 then Some (ERR_INVALID_ARGS, ut, h)
      else case uthread_map_find ut vaddr sz of
        None \<Rightarrow> Some (ERR_NOT_FOUND, ut, h)
      | Some mp \<Rightarrow> do {
          (err, h) \<leftarrow> arch_uthread_unmap mp au h;
          if err \<noteq> 0 then Some (err, ut, h)
          else do {
            ut \<leftarrow> (if um_flags mp AND MMAP_FLAG_DEVICE_MEM \<noteq> 0
                   then unmap_free_loop 0 (unat (um_size mp div 0x1000)) mp ut else Some ut);
            Some (NO_ERROR, uthread_map_remove mp ut, h) } })"

text \<open>
  \<^verbatim>\<open>uthread_create\<close> with its tables: the stack is mapped before \<^verbatim>\<open>arch_uthread_create\<close> sets the identifier of the
  address space.  The answer of \<^verbatim>\<open>arch_uthread_create\<close> is always 0.
\<close>

definition uthread_create_tables :: "u64 \<Rightarrow> u64 \<Rightarrow> u64 \<Rightarrow> u64 \<Rightarrow> u64 option \<Rightarrow> uthread \<Rightarrow> pt_heap
    \<Rightarrow> (uthread \<times> arch_ut \<times> pt_heap) option option" where
  "uthread_create_tables entry start_stack stack_size stack ma ut h =
     (let (ok, ut) = malloc_ok ut in
      if \<not> ok then Some None
      else
        let ut = ut\<lparr>ut_maps := [], ut_entry := entry, ut_ns_va_bottom := MAX_USR_VA, ut_start_stack := 0\<rparr>;
            (ok, ut) = malloc_ok ut in
        if \<not> ok then Some None
        else do {
          (err, _, ut, au, h) \<leftarrow> uthread_map_locked (start_stack - stack_size) (Some [stack]) stack_size
             ((((UTM_W OR UTM_R) OR UTM_STACK) OR UTM_FIXED) OR UTM_PHYS_CONTIG) (ucast UT_MAP_ALIGN_4KB) ma ut
             \<lparr>au_page_table = None, au_asid = 0\<rparr> h;
          if err \<noteq> 0 then Some None
          else
            let ut = ut\<lparr>ut_start_stack := start_stack\<rparr>;
                (ok, ut) = malloc_ok ut in
            if \<not> ok then Some None
            else let (err, au) = arch_uthread_create (ut_id ut) au in Some (Some (ut, au, h)) })"

section \<open>The page-table code as an oracle\<close>

text \<open>
  The operations of \<^verbatim>\<open>Uthread\<close>, whose page-table calls are answered by a stream, cover these: whatever the tables
  answer, the stream may answer.
\<close>

lemma find_ns_arch: "find_ns_loop (ut\<lparr>ut_arch := rs\<rparr>) sz align ms start = find_ns_loop ut sz align ms start"
  by (induction ms arbitrary: start) simp_all

lemma find_va_arch: "uthread_find_va_space (ut\<lparr>ut_arch := rs\<rparr>) sz flags align = uthread_find_va_space ut sz flags align"
  by (simp add: uthread_find_va_space_def uthread_find_va_space_ns_def uthread_find_va_space_sec_def find_ns_arch
      split: option.split)

lemma malloc_ok_arch: "malloc_ok (ut\<lparr>ut_arch := rs\<rparr>) = (case malloc_ok ut of (ok, u) \<Rightarrow> (ok, u\<lparr>ut_arch := rs\<rparr>))"
  by (simp add: malloc_ok_def split: list.split)

lemma map_alloc_arch: "uthread_map_alloc v pfns sz f a (ut\<lparr>ut_arch := rs\<rparr>) =
    map_option (\<lambda>(r, u). (r, u\<lparr>ut_arch := rs\<rparr>)) (uthread_map_alloc v pfns sz f a ut)"
proof (cases "malloc_ok ut")
  case (Pair ok u)
  let ?n = "if f AND UTM_PHYS_CONTIG \<noteq> 0 then 1 else unat (ucast (sz div 0x1000) :: u32)"
  show ?thesis unfolding uthread_map_alloc_def malloc_ok_arch Pair Let_def
    by (cases "sz AND (0x1000 - 1) = 0"; cases "v + sz \<le> v"; cases ok; cases "?n \<le> length pfns")
       (simp_all split: option.split)
qed

lemma map_locked_refines:
  assumes "uthread_map_locked v pfns sz f a ma ut au h = Some (r, v', ut', au', h')"
  shows "\<exists>rs. uthread_map_op v pfns sz f a (ut\<lparr>ut_arch := rs\<rparr>) = Some (r, v', ut'\<lparr>ut_arch := []\<rparr>)"
proof -
  consider "uthread_map_op v pfns sz f a (ut\<lparr>ut_arch := []\<rparr>) = Some (r, v', ut'\<lparr>ut_arch := []\<rparr>)"
    | "uthread_map_op v pfns sz f a (ut\<lparr>ut_arch := [r]\<rparr>) = Some (r, v', ut'\<lparr>ut_arch := []\<rparr>)"
    using assms unfolding uthread_map_locked_def uthread_map_op_def Let_def find_va_arch map_alloc_arch
    by (auto simp: bind_Some_iff arch_result_def split: option.splits if_splits)
  then show ?thesis by blast
qed

lemma free_loop_arch: "unmap_free_loop i n mp (ut\<lparr>ut_arch := rs\<rparr>) = map_option (\<lambda>u. u\<lparr>ut_arch := rs\<rparr>) (unmap_free_loop i n mp ut)"
proof (induction n arbitrary: i ut)
  case (Suc n)
  have "unmap_free_loop (Suc i) n mp (if b then ut\<lparr>ut_arch := rs, ut_freed := fs\<rparr> else ut\<lparr>ut_arch := rs\<rparr>) =
      map_option (\<lambda>u. u\<lparr>ut_arch := rs\<rparr>) (unmap_free_loop (Suc i) n mp (if b then ut\<lparr>ut_freed := fs\<rparr> else ut))" for b fs
    using Suc.IH [of "Suc i" "if b then ut\<lparr>ut_freed := fs\<rparr> else ut"] by (cases ut; cases b) simp_all
  then show ?case by (cases "i < length (um_pfn_list mp)") (simp_all add: Let_def)
qed simp

lemma unmap_locked_refines:
  assumes "uthread_unmap_locked v sz ut au h = Some (r, ut', h')"
  shows "\<exists>rs. uthread_unmap v sz (ut\<lparr>ut_arch := rs\<rparr>) = Some (r, ut'\<lparr>ut_arch := []\<rparr>)"
proof -
  have f: "uthread_map_find (ut\<lparr>ut_arch := rs\<rparr>) v sz = uthread_map_find ut v sz" for rs by (simp add: uthread_map_find_def)
  have m: "uthread_map_remove mp (u\<lparr>ut_arch := rs\<rparr>) = (uthread_map_remove mp u)\<lparr>ut_arch := rs\<rparr>" for mp u rs
    by (simp add: uthread_map_remove_def Let_def split: list.split)
  consider "uthread_unmap v sz (ut\<lparr>ut_arch := []\<rparr>) = Some (r, ut'\<lparr>ut_arch := []\<rparr>)"
    | "uthread_unmap v sz (ut\<lparr>ut_arch := [r]\<rparr>) = Some (r, ut'\<lparr>ut_arch := []\<rparr>)"
    using assms unfolding uthread_unmap_locked_def uthread_unmap_def f
    by (auto simp: bind_Some_iff arch_result_def free_loop_arch m NO_ERROR_def split: option.splits if_splits)
  then show ?thesis by blast
qed

section \<open>What the list says and what the hardware does\<close>

text \<open>Where an offset leads by the entry of the list, with the rights of its flags.\<close>

definition mp_xlate :: "uthread_map \<Rightarrow> nat \<Rightarrow> (u64 \<times> u64) option" where
  "mp_xlate mp x =
     (if unat (um_vaddr mp) \<le> x \<and> x < unat (um_vaddr mp) + unat (um_size mp)
      then map_option (\<lambda>attr. (translate mp (of_nat (x - unat (um_vaddr mp))), attr)) (uthread_pte_attr (um_flags mp)) else None)"

definition listed :: "uthread_map list \<Rightarrow> arch_ut \<Rightarrow> pt_mem \<Rightarrow> bool" where
  "listed ms au m \<longleftrightarrow> (\<forall>x r. user_xlate au m x = Some r \<longrightarrow> (\<exists>mp\<in>set ms. mp_xlate mp x = Some r))"

definition hw_inv :: "uthread \<Rightarrow> arch_ut \<Rightarrow> pt_heap \<Rightarrow> bool" where
  "hw_inv ut au h \<longleftrightarrow> maps_ok (ut_maps ut) \<and> (\<forall>mp\<in>set (ut_maps ut). unat (um_size mp) < 2 ^ 44) \<and> alloc_ok h \<and>
     (\<exists>A. user_space au (ph_mem h) A) \<and> listed (ut_maps ut) au (ph_mem h)"

lemma xlate_walk: "user_walk au' m' x = user_walk au m x \<Longrightarrow> user_xlate au' m' x = user_xlate au m x"
  by (auto simp: user_walk_def user_xlate_def hw_xlate_def split: option.splits)

lemma xlate_some: "user_xlate au m x = Some r \<Longrightarrow> \<exists>w. user_walk au m x = Some w"
  by (auto simp: user_walk_def user_xlate_def hw_xlate_def split: option.splits)

lemma listed_same: "listed ms au m \<Longrightarrow> (\<And>x. user_walk au' m' x = user_walk au m x) \<Longrightarrow> set ms \<subseteq> set ms' \<Longrightarrow> listed ms' au' m'"
  unfolding listed_def using xlate_walk [of au' m' _ au m] by (metis subsetD)

text \<open>The frames of a request lie in the 48 bits of a physical address, and the number of its pages in 32 bits.\<close>

definition request_bounds :: "u64 \<Rightarrow> u32 \<Rightarrow> u64 list option \<Rightarrow> bool" where
  "request_bounds sz flags pfns \<longleftrightarrow> unat sz < 2 ^ 44 \<and>
     list_all (\<lambda>f. unat f + (if flags AND UTM_PHYS_CONTIG \<noteq> 0 then unat sz else 0x1000) \<le> 2 ^ 48) (case pfns of None \<Rightarrow> [] | Some fs \<Rightarrow> fs)"

lemma new_map_request:
  assumes ok: "mp_ok (new_map v pfns sz f a)" and b: "request_bounds sz f (Some pfns)"
  shows "map_request_ok (new_map v pfns sz f a)"
proof -
  let ?m = "new_map v pfns sz f a"
  have z: "sz \<noteq> 0" "sz AND (0x1000 - 1) = 0" "length (um_pfn_list ?m) = frames sz f" using ok by (simp_all add: mp_ok_def)
  have "unat sz < 2 ^ 44" using b by (simp add: request_bounds_def)
  then have "unat sz div 0x1000 < 2 ^ 32" by simp
  then have "unat (sz div 0x1000) < 2 ^ 32" by (simp add: unat_div)
  then have "unat (ucast (sz div 0x1000) :: u32) = unat (sz div 0x1000)" by (simp add: unat_ucast_u64)
  then have "frames sz f = unat (sz div piece ?m)" using z(1) by (simp add: frames_def piece_def unat_div unat_eq_0)
  moreover have "list_all (\<lambda>f. unat f + unat (piece ?m) \<le> 2 ^ 48) (um_pfn_list ?m)"
    using b by (auto simp: request_bounds_def piece_def new_map_def list_all_iff dest: in_set_takeD)
  ultimately show ?thesis using z by (simp add: map_request_ok_def)
qed

text \<open>What is entered for a mapping is what the list says of it.\<close>

lemma entered_translate:
  assumes ok: "map_request_ok mp" and al: "unat (um_vaddr mp) mod 4096 = 0" and n: "n < unat (um_size mp)"
    and fit: "unat (um_vaddr mp) + unat (um_size mp) \<le> 2 ^ 25"
  shows "um_pfn_list mp ! (n div unat (piece mp)) + of_nat (n mod unat (piece mp)) = translate mp (of_nat n)"
proof (cases "um_flags mp AND UTM_PHYS_CONTIG = 0")
  case False
  then have "piece mp = um_size mp" by (simp add: piece_def)
  moreover have "um_pfn_list mp \<noteq> []" using request_pieces [OF ok] n calculation by auto
  ultimately show ?thesis using False n by (simp add: translate_def hd_conv_nth)
next
  case True
  have u: "unat (of_nat n :: u64) = n" by (rule unat_of_nat_less) (use n fit in simp)
  let ?y = "unat (um_vaddr mp) + n"
  have y: "unat (um_vaddr mp + of_nat n) = ?y" using fit n u by (subst unat_add_lem [THEN iffD1]) simp_all
  have "(um_vaddr mp + of_nat n) AND 0xFFF = take_bit 12 (um_vaddr mp + of_nat n)" by (simp add: take_bit_eq_mask mask_eq_exp_minus_1)
  also have "\<dots> = of_nat (unat (take_bit 12 (um_vaddr mp + of_nat n)))" by simp
  also have "unat (take_bit 12 (um_vaddr mp + of_nat n)) = take_bit 12 ?y" unfolding y [symmetric] by (rule unsigned_take_bit_eq)
  also have "take_bit 12 ?y = n mod 4096" using al by (simp add: take_bit_eq_mod mod_add_left_eq [of "unat (um_vaddr mp)", symmetric])
  finally show ?thesis using True u by (simp add: translate_def piece_def unat_div)
qed

section \<open>Every operation keeps it\<close>

lemma map_without_attr:
  assumes "arch_uthread_map ma mp au h = Some (err, au', h')" "uthread_pte_attr (um_flags mp) = None"
  shows "au_page_table au = None" "au' = au" "h' = h"
proof -
  have none: "arch_uthread_map ma mp au h = None" if "au_page_table au = Some t" for au h t
    by (cases "um_size mp AND (0x1000 - 1) = 0") (simp_all add: arch_uthread_map_def that assms(2) NO_ERROR_def)
  show n: "au_page_table au = None" using assms(1) none by (cases "au_page_table au") auto
  show "au' = au" "h' = h"
    using assms(1) none [of "au\<lparr>au_page_table := ma\<rparr>"] unfolding map_first_table [OF n] by (auto split: option.splits)
qed

lemma arch_map_inv:
  assumes run: "arch_uthread_map ma mp au h = Some (err, au', h')" and inv: "hw_inv ut au h" and mp: "map_request_ok mp"
    and fresh: "\<And>p. ma = Some p \<Longrightarrow> ph_mem h p = None"
    and ms: "set (ut_maps ut) \<subseteq> set ms" "mp \<in> set ms"
  shows "alloc_ok h' \<and> (\<exists>A. user_space au' (ph_mem h') A) \<and> listed ms au' (ph_mem h')"
proof -
  obtain A where sp: "user_space au (ph_mem h) A" and al: "alloc_ok h" and li: "listed (ut_maps ut) au (ph_mem h)"
    using inv by (auto simp: hw_inv_def)
  show ?thesis
  proof (cases "uthread_pte_attr (um_flags mp)")
    case None
    note same = map_without_attr [OF run None]
    show ?thesis unfolding same(2,3) using al sp same(1) by (auto simp: listed_def user_xlate_def)
  next
    case (Some attr)
    obtain A' where sp': "user_space au' (ph_mem h') A'" and ph: "ph_alloc h' = ph_alloc h"
        and e: "map_effect mp attr err au (ph_mem h) au' (ph_mem h')"
      by (rule map_request_outcome [OF sp al mp Some fresh]) (use run in auto)
    have "listed ms au' (ph_mem h')"
    proof (cases "err = 0")
      case False
      then show ?thesis using e li ms(1) by (intro listed_same [OF li]) (simp_all add: map_effect_def)
    next
      case True
      have fit: "unat (um_vaddr mp) + unat (um_size mp) \<le> 2 ^ 25"
        using e True by (simp add: map_effect_def MMU_USER_SIZE_SHIFT_def)
      have al: "unat (um_vaddr mp) mod 4096 = 0" using uthread_map_aligned [OF _ mp] run True by (simp add: NO_ERROR_def)
      have eff: "maps_pages (um_vaddr mp) (piece mp) (um_pfn_list mp) attr au (ph_mem h) au' (ph_mem h')"
        using e True by (simp add: map_effect_def)
      show ?thesis unfolding listed_def
      proof (intro allI impI)
        fix x r assume r: "user_xlate au' (ph_mem h') x = Some r"
        show "\<exists>mp\<in>set ms. mp_xlate mp x = Some r"
        proof (cases "unat (um_vaddr mp) \<le> x \<and> x < unat (um_vaddr mp) + unat (um_size mp)")
          case in_r: True
          let ?n = "x - unat (um_vaddr mp)"
          have n: "?n < unat (um_size mp)" using in_r by linarith
          have "user_xlate au' (ph_mem h') x =
              Some (um_pfn_list mp ! (?n div unat (piece mp)) + of_nat (?n mod unat (piece mp)), attr)"
            using eff in_r request_pieces(2) [OF mp] by (simp add: maps_pages_def)
          also have "\<dots> = mp_xlate mp x"
            using entered_translate [OF mp al n fit] in_r Some by (simp add: mp_xlate_def)
          finally have "mp_xlate mp x = Some r" using r by simp
          then show ?thesis using ms(2) by blast
        next
          case False
          then have "user_walk au' (ph_mem h') x = user_walk au (ph_mem h) x"
            using eff request_pieces(2) [OF mp] by (auto simp: maps_pages_def)
          then have "user_xlate au (ph_mem h) x = Some r" using r xlate_walk by metis
          then show ?thesis using li ms(1) unfolding listed_def by blast
        qed
      qed
    qed
    then show ?thesis using sp' ph al by (auto simp: alloc_ok_def)
  qed
qed

lemma map_locked_inv:
  assumes run: "uthread_map_locked v pfns sz f a ma ut au h = Some (r, v', ut', au', h')" and inv: "hw_inv ut au h"
    and b: "request_bounds sz f pfns" and fresh: "\<And>p. ma = Some p \<Longrightarrow> ph_mem h p = None"
  shows "hw_inv ut' au' h'"
proof -
  have ok: "maps_ok (ut_maps ut)" using inv by (simp add: hw_inv_def)
  consider "ut' = ut" "au' = au" "h' = h"
    | fs w e u where "pfns = Some fs" "uthread_map_alloc w fs sz f a ut = Some (e, u)" "e \<noteq> 0" "ut' = u" "au' = au" "h' = h"
    | fs w where "pfns = Some fs" "uthread_map_alloc w fs sz f a ut = Some (0, ut')"
      "arch_uthread_map ma (new_map w fs sz f a) au h = Some (r, au', h')"
    using run unfolding uthread_map_locked_def Let_def
    by (auto simp: bind_Some_iff split: option.splits if_splits)
  then show ?thesis
  proof cases
    case 1
    then show ?thesis using inv by simp
  next
    case 2
    then have "ut_maps u = ut_maps ut" using uthread_map_alloc_ok [OF ok 2(2)] by (simp add: NO_ERROR_def)
    then show ?thesis using inv 2 by (simp add: hw_inv_def)
  next
    case 3
    let ?m = "new_map w fs sz f a"
    obtain pre post where s: "maps_ok (ut_maps ut')" "mp_ok ?m" "ut_maps ut = pre @ post" "ut_maps ut' = pre @ ?m # post"
      using uthread_map_alloc_ok [OF ok 3(2)] by (auto simp: NO_ERROR_def)
    have m: "map_request_ok ?m" using new_map_request [OF s(2)] b 3(1) by simp
    have "alloc_ok h' \<and> (\<exists>A. user_space au' (ph_mem h') A) \<and> listed (ut_maps ut') au' (ph_mem h')"
      by (rule arch_map_inv [OF 3(3) inv m fresh]) (auto simp: s(3,4))
    then show ?thesis using s inv b by (auto simp: hw_inv_def request_bounds_def)
  qed
qed

lemma user_unmap_effect:
  assumes sp: "user_space au (ph_mem h) A" and run: "user_unmap v sz au h = Some (err, h')"
  shows "(if err = 0 then (\<exists>A'. user_space au (ph_mem h') A') \<and> ph_alloc h' = ph_alloc h \<and>
      (\<forall>x. user_walk au (ph_mem h') x = miss (unat v) (unat v + unat sz) x (user_walk au (ph_mem h) x)) else h' = h)"
proof (cases "\<exists>t. au_page_table au = Some t \<and> unat v + unat sz \<le> 2 ^ MMU_USER_SIZE_SHIFT")
  case True
  then obtain t where t: "au_page_table au = Some t" and fit: "unat v + unat sz \<le> 2 ^ MMU_USER_SIZE_SHIFT" by blast
  obtain ts where ts: "utab (ph_mem h) t ts" "ulen ts" "A = insert t (utabs ts)" by (rule user_spaceE [OF sp t])
  obtain h1 where r: "user_unmap v sz au h = Some (0, h1)"
      and u: "upd MMU_USER_TOP_LEVEL t ts (cuts MMU_USER_TOP_LEVEL (unat v) (unat v + unat sz) ts) h h1"
    by (rule user_unmap_ok [OF t ts(1,2) fit])
  have e: "err = 0" "h' = h1" using r run by auto
  note us = updD(1) [OF u]
  have "user_space au (ph_mem h1) (insert t (utabs (cuts MMU_USER_TOP_LEVEL (unat v) (unat v + unat sz) ts)))"
    by (rule user_spaceI [OF t us ulen_upd [OF u ts(2)]])
  then show ?thesis using u unfolding e
    by (auto simp: user_walk_tlook [OF t us] user_walk_tlook [OF t ts(1)] tlook_cuts upd_def)
next
  case False
  have s: "MMU_USER_SIZE_SHIFT < 64" by (simp add: MMU_USER_SIZE_SHIFT_def)
  have "user_unmap v sz au h = Some (ERR_INVALID_ARGS, h)"
    unfolding user_unmap_def arm64_mmu_unmap_def Let_def range_check [OF s]
    using False by (auto simp: rel_of_def split: option.split)
  then show ?thesis using run by (auto simp: ERR_INVALID_ARGS_def)
qed

lemma unmap_locked_cases:
  assumes "uthread_unmap_locked v sz ut au h = Some (r, ut', h')"
  obtains "ut' = ut" "h' = h"
    | mp e where "uthread_map_find ut v sz = Some mp" "arch_uthread_unmap mp au h = Some (e, h')" "e \<noteq> 0" "ut' = ut"
    | mp u where "uthread_map_find ut v sz = Some mp" "arch_uthread_unmap mp au h = Some (0, h')" "ut_maps u = ut_maps ut"
      "ut' = uthread_map_remove mp u"
proof (cases "v = 0 \<or> uthread_map_find ut v sz = None")
  case True
  then have "ut' = ut \<and> h' = h" using assms by (cases "v = 0") (simp_all add: uthread_unmap_locked_def)
  then show ?thesis by (intro that(1)) simp_all
next
  case False
  then obtain mp where mp: "v \<noteq> 0" "uthread_map_find ut v sz = Some mp" by auto
  obtain e h1 where e: "arch_uthread_unmap mp au h = Some (e, h1)"
    using assms mp by (auto simp: uthread_unmap_locked_def bind_Some_iff)
  show ?thesis
  proof (cases "e = 0")
    case True
    then obtain w where "ut_maps w = ut_maps ut" "ut' = uthread_map_remove mp w" "h' = h1"
      using assms mp e by (auto simp: uthread_unmap_locked_def bind_Some_iff dest!: unmap_free_loop_maps split: if_splits)
    then show ?thesis using e True by (intro that(3) [OF mp(2)]) simp_all
  next
    case False
    then have "h' = h1 \<and> ut' = ut" using assms mp e by (simp add: uthread_unmap_locked_def)
    then show ?thesis using e False by (intro that(2) [OF mp(2)]) simp_all
  qed
qed

lemma unmap_locked_inv:
  assumes run: "uthread_unmap_locked v sz ut au h = Some (r, ut', h')" and inv: "hw_inv ut au h"
  shows "hw_inv ut' au h'"
proof -
  obtain A where sp: "user_space au (ph_mem h) A" and al: "alloc_ok h" and li: "listed (ut_maps ut) au (ph_mem h)"
      and ok: "maps_ok (ut_maps ut)" and small: "\<forall>mp\<in>set (ut_maps ut). unat (um_size mp) < 2 ^ 44"
    using inv by (auto simp: hw_inv_def)
  from run show ?thesis
  proof (cases rule: unmap_locked_cases)
    case 1
    then show ?thesis using inv by simp
  next
    case 2
    then have "h' = h" using user_unmap_effect [OF sp] by (simp add: arch_uthread_unmap_def)
    then show ?thesis using inv 2 by simp
  next
    case (3 mp u)
    have mp: "mp \<in> set (ut_maps u)" using uthread_map_find_Some [OF 3(1)] 3(3) by simp
    have rm: "maps_ok (ut_maps ut')" "set (ut_maps ut') = set (ut_maps ut) - {mp}"
      using map_remove_ok [OF _ mp] ok 3(3,4) by simp_all
    have eff: "\<exists>A'. user_space au (ph_mem h') A'" "ph_alloc h' = ph_alloc h"
        "\<And>x. user_walk au (ph_mem h') x =
          miss (unat (um_vaddr mp)) (unat (um_vaddr mp) + unat (um_size mp)) x (user_walk au (ph_mem h) x)"
      using user_unmap_effect [OF sp 3(2) [unfolded arch_uthread_unmap_def]] by simp_all
    have "listed (ut_maps ut') au (ph_mem h')" unfolding listed_def
    proof (intro allI impI)
      fix x r assume r: "user_xlate au (ph_mem h') x = Some r"
      then obtain w k where w: "user_walk au (ph_mem h') x = Some (w, k)" using xlate_some by fastforce
      have same: "user_walk au (ph_mem h') x = user_walk au (ph_mem h) x"
        and out: "\<not> hit (unat (um_vaddr mp)) (unat (um_vaddr mp) + unat (um_size mp)) k x"
        using w eff(3) [of x] by (auto simp: miss_def split: option.splits if_splits)
      have "user_xlate au (ph_mem h) x = Some r" using r xlate_walk [OF same] by simp
      then obtain mq where mq: "mq \<in> set (ut_maps ut)" "mp_xlate mq x = Some r" using li unfolding listed_def by blast
      have "mq \<noteq> mp" using mq(2) out by (auto simp: mp_xlate_def hit_in split: if_splits)
      then show "\<exists>mq\<in>set (ut_maps ut'). mp_xlate mq x = Some r" using mq rm(2) by blast
    qed
    then show ?thesis using rm small eff(1,2) al by (auto simp: hw_inv_def alloc_ok_def)
  qed
qed

section \<open>The reachable threads\<close>

text \<open>
  A thread is made with its stack; then mappings come and go.  In between the allocators and the rest of the memory do
  what they like, except that nobody else writes the tables of the thread.
\<close>

inductive hw_space :: "uthread \<Rightarrow> arch_ut \<Rightarrow> pt_heap \<Rightarrow> bool" where
  create: "uthread_create_tables entry hi sz stack ma ut0 h0 = Some (Some (ut, au, h)) \<Longrightarrow> alloc_ok h0 \<Longrightarrow>
    (\<And>p. ma = Some p \<Longrightarrow> ph_mem h0 p = None) \<Longrightarrow> unat sz < 2 ^ 44 \<Longrightarrow> unat stack + unat sz \<le> 2 ^ 48 \<Longrightarrow> hw_space ut au h"
| env: "hw_space ut au h \<Longrightarrow> user_space au (ph_mem h) A \<Longrightarrow> (\<And>p. p \<in> A \<Longrightarrow> ph_mem h' p = ph_mem h p) \<Longrightarrow> alloc_ok h' \<Longrightarrow>
    hw_space (ut\<lparr>ut_malloc := ms, ut_freed := fs\<rparr>) au h'"
| map_op: "hw_space ut au h \<Longrightarrow> uthread_map_locked v pfns sz f a ma ut au h = Some (r, v', ut', au', h') \<Longrightarrow>
    request_bounds sz f pfns \<Longrightarrow> (\<And>p. ma = Some p \<Longrightarrow> ph_mem h p = None) \<Longrightarrow> hw_space ut' au' h'"
| unmap: "hw_space ut au h \<Longrightarrow> uthread_unmap_locked v sz ut au h = Some (r, ut', h') \<Longrightarrow> hw_space ut' au h'"

lemma hw_inv_maps: "hw_inv ut au h \<Longrightarrow> ut_maps ut' = ut_maps ut \<Longrightarrow> hw_inv ut' au h"
  by (simp add: hw_inv_def)

lemma hw_inv_asid: "hw_inv ut au h \<Longrightarrow> hw_inv ut (au\<lparr>au_asid := a\<rparr>) h"
  by (simp add: hw_inv_def listed_def user_space_def user_xlate_def)

lemma hw_inv_start: "alloc_ok h \<Longrightarrow> ut_maps ut = [] \<Longrightarrow> au_page_table au = None \<Longrightarrow> hw_inv ut au h"
  by (simp add: hw_inv_def listed_def user_space_def user_xlate_def)

lemma hw_inv_heap:
  assumes "hw_inv ut au h" "user_space au (ph_mem h) A" "\<And>p. p \<in> A \<Longrightarrow> ph_mem h' p = ph_mem h p" "alloc_ok h'"
  shows "hw_inv ut au h'"
proof -
  have sp: "user_space au (ph_mem h') A" and w: "user_walk au (ph_mem h') x = user_walk au (ph_mem h) x" for x
    using assms(2) pt_space_frame [OF _ assms(3)]
    by (cases "au_page_table au"; simp add: user_space_def user_walk_def)+
  have "listed (ut_maps ut) au (ph_mem h')"
    using assms(1) w by (intro listed_same [of "ut_maps ut" au "ph_mem h" au "ph_mem h'" "ut_maps ut"]) (simp_all add: hw_inv_def)
  then show ?thesis using assms(1,4) sp by (auto simp: hw_inv_def)
qed

lemma create_inv:
  assumes run: "uthread_create_tables entry hi sz stack ma ut0 h0 = Some (Some (ut, au, h))"
    and al: "alloc_ok h0" and fresh: "\<And>p. ma = Some p \<Longrightarrow> ph_mem h0 p = None"
    and b: "unat sz < 2 ^ 44" "unat stack + unat sz \<le> 2 ^ 48"
  shows "hw_inv ut au h"
proof -
  let ?f = "(((UTM_W OR UTM_R) OR UTM_STACK) OR UTM_FIXED) OR UTM_PHYS_CONTIG"
  define u where "u = snd (malloc_ok ((snd (malloc_ok ut0))\<lparr>ut_maps := [], ut_entry := entry,
      ut_ns_va_bottom := MAX_USR_VA, ut_start_stack := 0\<rparr>))"
  have u: "ut_maps u = []" by (simp add: u_def)
  obtain v u' au' where m: "uthread_map_locked (hi - sz) (Some [stack]) sz ?f (ucast UT_MAP_ALIGN_4KB) ma u
        \<lparr>au_page_table = None, au_asid = 0\<rparr> h0 = Some (0, v, u', au', h)"
      and e: "ut = snd (malloc_ok (u'\<lparr>ut_start_stack := hi\<rparr>))" "au = au'\<lparr>au_asid := ut_id ut\<rparr>"
    using run by (auto simp: uthread_create_tables_def bind_Some_iff arch_uthread_create_def Let_def split_beta u_def split: if_splits)
  have "request_bounds sz ?f (Some [stack])" using b
    by (simp add: request_bounds_def UTM_W_def UTM_R_def UTM_STACK_def UTM_FIXED_def UTM_PHYS_CONTIG_def)
  then have "hw_inv u' au' h" using map_locked_inv [OF m hw_inv_start [OF al u]] fresh by simp
  then have "hw_inv ut au' h" by (rule hw_inv_maps) (simp add: e(1))
  then show ?thesis unfolding e(2) by (rule hw_inv_asid)
qed

lemma hw_space_inv: "hw_space ut au h \<Longrightarrow> hw_inv ut au h"
proof (induction rule: hw_space.induct)
  case (create entry hi sz stack ma ut0 h0 ut au h)
  show ?case by (rule create_inv [OF create])
next
  case (env ut au h A h' fs ms)
  have "hw_inv ut au h'" by (rule hw_inv_heap [OF env.IH env.hyps(2-4)])
  then show ?case by (rule hw_inv_maps) simp
next
  case (map_op ut au h v pfns sz f a ma r v' ut' au' h')
  show ?case by (rule map_locked_inv [OF map_op.hyps(2) map_op.IH map_op.hyps(3,4)])
next
  case (unmap ut au h v sz r ut' h')
  show ?case by (rule unmap_locked_inv [OF unmap.hyps(2) unmap.IH])
qed

section \<open>Properties\<close>

lemma hw_inv_translate:
  assumes inv: "hw_inv ut au h" and x: "user_xlate au (ph_mem h) (unat va) = Some (pa, attr)"
  shows "\<exists>mp\<in>set (ut_maps ut). map_covers va 0 mp \<and> uthread_pte_attr (um_flags mp) = Some attr \<and>
    uthread_virt_to_phys ut va = Some (NO_ERROR, pa)"
proof -
  have ok: "maps_ok (ut_maps ut)" and small: "\<forall>mp\<in>set (ut_maps ut). unat (um_size mp) < 2 ^ 44"
    using inv by (simp_all add: hw_inv_def)
  obtain mp where mp: "mp \<in> set (ut_maps ut)" "mp_xlate mp (unat va) = Some (pa, attr)"
    using inv x unfolding hw_inv_def listed_def by blast
  have r: "unat (um_vaddr mp) \<le> unat va" "unat va < unat (um_vaddr mp) + unat (um_size mp)"
      and t: "pa = translate mp (of_nat (unat va - unat (um_vaddr mp)))" "uthread_pte_attr (um_flags mp) = Some attr"
    using mp(2) by (auto simp: mp_xlate_def split: if_splits)
  have m: "mp_ok mp" using ok mp(1) by (simp add: maps_ok_def)
  have d: "unat (va - um_vaddr mp) = unat va - unat (um_vaddr mp)" using r(1) by (simp add: unat_sub_if')
  then have o: "of_nat (unat va - unat (um_vaddr mp)) = va - um_vaddr mp" by (simp flip: d)
  have "uthread_virt_to_phys ut (um_vaddr mp + (va - um_vaddr mp)) = Some (NO_ERROR, translate mp (va - um_vaddr mp))"
    by (rule virt_to_phys_in [OF ok mp(1)]) (use small mp(1) r d in auto)
  moreover have "map_covers va 0 mp" using r by (simp add: covers_nat [OF m] mend_def)
  ultimately show ?thesis using mp(1) t o by auto
qed

text \<open>A thread with a stack of 2 MiB.\<close>

definition um_stack :: uthread_map where
  "um_stack = \<lparr>um_vaddr = 0x200000, um_size = 0x200000, um_flags = 0x133, um_align = 0x1000, um_pfn_list = [0x40200000]\<rparr>"

lemma um_stack_ok: "map_request_ok um_stack" "uthread_pte_attr (um_flags um_stack) = Some 0x60000000000F48"
  by (simp_all add: map_request_ok_def um_stack_def piece_def uthread_pte_attr_def mmu_defs MMU_PTE_ATTR_NON_GLOBAL_def utm_defs
      push_bit_eq_mult)

lemma stack_mapped:
  "\<exists>au h. arch_uthread_map (Some 0x2000) um_stack \<lparr>au_page_table = None, au_asid = 0\<rparr> (pt_demo 1) = Some (NO_ERROR, au, h)"
  by (simp add: run_user um_stack_def)

lemma stack_created:
  obtains ut au h where "uthread_create_tables 0x8000 0x400000 0x200000 0x40200000 (Some 0x2000) ut_demo (pt_demo 1) = Some (Some (ut, au, h))"
    "ut_maps ut = [um_stack]" "user_xlate au (ph_mem h) 0x200010 = Some (0x40200010, 0x60000000000F48)"
proof -
  let ?a = "\<lparr>au_page_table = None, au_asid = 0\<rparr>"
  obtain au h where m: "arch_uthread_map (Some 0x2000) um_stack ?a (pt_demo 1) = Some (NO_ERROR, au, h)" using stack_mapped by blast
  have f: "(((UTM_W OR UTM_R) OR UTM_STACK) OR UTM_FIXED) OR UTM_PHYS_CONTIG = 0x133"
    by (simp add: UTM_W_def UTM_R_def UTM_STACK_def UTM_FIXED_def UTM_PHYS_CONTIG_def)
  have n: "new_map 0x200000 [0x40200000] 0x200000 0x133 0x1000 = um_stack"
    by (simp add: new_map_def um_stack_def frames_def utm_defs)
  have al: "uthread_map_alloc 0x200000 [0x40200000] 0x200000 0x133 0x1000 u = Some (NO_ERROR, u\<lparr>ut_ns_va_bottom := ut_ns_va_bottom u, ut_maps := [um_stack]\<rparr>)"
    if "ut_maps u = []" "ut_malloc u = []" for u
    using that by (simp add: uthread_map_alloc_def malloc_ok_def um_stack_def utm_defs)
  have lo: "uthread_map_locked 0x200000 (Some [0x40200000]) 0x200000 0x133 0x1000 (Some 0x2000) u ?a (pt_demo 1) =
      Some (NO_ERROR, 0x200000, u\<lparr>ut_ns_va_bottom := ut_ns_va_bottom u, ut_maps := [um_stack]\<rparr>, au, h)"
    if "ut_maps u = []" "ut_malloc u = []" for u
    using m by (simp add: uthread_map_locked_def Let_def UTM_FIXED_def al [OF that] n NO_ERROR_def)
  obtain ut where c: "uthread_create_tables 0x8000 0x400000 0x200000 0x40200000 (Some 0x2000) ut_demo (pt_demo 1) =
      Some (Some (ut, au\<lparr>au_asid := 1\<rparr>, h))" "ut_maps ut = [um_stack]"
    unfolding uthread_create_tables_def f using lo
    by (simp add: malloc_ok_def ut_demo_def NO_ERROR_def arch_uthread_create_def UT_MAP_ALIGN_4KB_def Let_def)
  have sp: "user_space ?a (ph_mem (pt_demo 1)) {}" by (simp add: user_space_def)
  have "map_effect um_stack 0x60000000000F48 NO_ERROR ?a (ph_mem (pt_demo 1)) au (ph_mem h)"
    by (rule map_request_outcome [where ma = "Some 0x2000", OF sp pt_demo_ok(1) um_stack_ok pt_demo_free]) (use m in auto)
  then have "user_xlate au (ph_mem h) 0x200010 = Some (0x40200010, 0x60000000000F48)"
    by (auto simp: map_effect_def maps_pages_def NO_ERROR_def um_stack_def piece_def utm_defs dest: spec [of _ "0x200010"])
  then show ?thesis using c by (intro that [of ut "au\<lparr>au_asid := 1\<rparr>" h]) (simp_all add: user_xlate_def)
qed

text \<open>
  Property C26.  Whatever a thread maps and unmaps, the hardware follows the list of mappings: an address that the page
  tables translate, in any state that \<^verbatim>\<open>uthread_create\<close>, \<^verbatim>\<open>uthread_map_locked\<close> and \<^verbatim>\<open>uthread_unmap_locked\<close> lead to, failed
  calls included, lies in a mapping of the list, has exactly the rights of the flags of that mapping, and leads where
  \<^verbatim>\<open>uthread_virt_to_phys\<close> says.  Nothing outside of the list is ever accessible.
\<close>

theorem hardware_follows_list:
  assumes "hw_space ut au h" and "user_xlate au (ph_mem h) (unat va) = Some (pa, attr)"
  shows "uthread_virt_to_phys ut va = Some (NO_ERROR, pa) \<and>
    (\<exists>mp\<in>set (ut_maps ut). um_vaddr mp \<le> va \<and> va < um_vaddr mp + um_size mp \<and> uthread_pte_attr (um_flags mp) = Some attr)"
  using hw_inv_translate [OF hw_space_inv [OF assms(1)] assms(2)] by (auto simp: map_covers_def)

theorem hardware_follows_list_witness:
  "\<exists>ut au h. uthread_create_tables 0x8000 0x400000 0x200000 0x40200000 (Some 0x2000) ut_demo (pt_demo 1) = Some (Some (ut, au, h)) \<and>
     user_xlate au (ph_mem h) 0x200010 = Some (0x40200010, 0x60000000000F48) \<and>
     uthread_virt_to_phys ut 0x200010 = Some (NO_ERROR, 0x40200010)"
proof (rule stack_created)
  fix ut au h
  assume c: "uthread_create_tables 0x8000 0x400000 0x200000 0x40200000 (Some 0x2000) ut_demo (pt_demo 1) = Some (Some (ut, au, h))"
    and x: "user_xlate au (ph_mem h) 0x200010 = Some (0x40200010, 0x60000000000F48)"
  have "hw_space ut au h" by (rule hw_space.create [OF c pt_demo_ok(1) pt_demo_free]) simp_all
  from hardware_follows_list [OF this, of "0x200010"] x c show ?thesis by auto
qed

end
