(* ===== verification/Platform.thy ===== *)
theory Platform
  imports Sm Uthread UserMem PageTable
begin

text \<open>
  The platform code of \<^verbatim>\<open>tegra/public/platform/tegra_common\<close>: boot parameters (\<^verbatim>\<open>boot.c\<close>), the call that maps
  the encrypted keys for an application (\<^verbatim>\<open>ioctl.c\<close>, \<^verbatim>\<open>syscall.c\<close>), the memory of the normal world
  (\<^verbatim>\<open>common_platform.c\<close>) and the numbering of the CPUs (\<^verbatim>\<open>t18x/platform.c\<close>).
\<close>

section \<open>State\<close>

record platform =
  pl_bootstrap_done :: bool
  pl_range_available :: bool
  pl_ranges :: "(u64 \<times> u64) list"
  pl_eks_paddr :: u64
  pl_eks_length :: u32
  pl_device_uid :: "u32 list"
  pl_debug_uart_id :: u32
  pl_rb_data :: "byte list"
  pl_boot_args :: boot_args_state
  pl_calloc :: "bool list"
  pl_debug_port :: u32
  pl_debug_enabled :: bool

definition platform_is_bootstrapping :: "platform \<Rightarrow> bool" where
  "platform_is_bootstrapping p \<longleftrightarrow> \<not> pl_bootstrap_done p"

definition platform_bootstrap_epilog :: "platform \<Rightarrow> platform" where
  "platform_bootstrap_epilog p = p\<lparr>pl_bootstrap_done := True\<rparr>"

text \<open>Reading mapped memory; an access that leaves the mapping faults.\<close>

definition mem_u32 :: "byte list \<Rightarrow> nat \<Rightarrow> u32 option" where
  "mem_u32 mem k = (if k + 4 \<le> length mem then Some (le32_of (take 4 (drop k mem))) else None)"

definition mem_u64 :: "byte list \<Rightarrow> nat \<Rightarrow> u64 option" where
  "mem_u64 mem k = do { lo \<leftarrow> mem_u32 mem k; hi \<leftarrow> mem_u32 mem (k + 4); Some (ucast lo OR push_bit 32 (ucast hi)) }"

section \<open>The memory of the normal world\<close>

text \<open>\<^verbatim>\<open>hyp_stubs.c\<close>: a weak function, and there is no hypervisor in this build.\<close>

definition trusty_hyp_is_ctx_available :: bool where "trusty_hyp_is_ctx_available = False"

definition platform_validate_range :: "u64 \<Rightarrow> u64 \<Rightarrow> u64 \<Rightarrow> u64 \<Rightarrow> bool" where
  "platform_validate_range bound_base bound_size test_base test_size \<longleftrightarrow>
     bound_base \<le> test_base \<and> bound_size \<ge> test_size \<and> bound_size - test_size \<ge> test_base - bound_base"

definition platform_validate_ns_phys_range :: "u64 \<Rightarrow> u64 \<Rightarrow> platform \<Rightarrow> int" where
  "platform_validate_ns_phys_range ns_addr ns_size p =
     (if trusty_hyp_is_ctx_available then NO_ERROR
      else if \<not> pl_range_available p then ERR_NOT_CONFIGURED
      else if list_ex (\<lambda>(b, s). platform_validate_range b s ns_addr ns_size) (pl_ranges p) then NO_ERROR
      else ERR_NOT_VALID)"

definition TOS_NS_MEM_MAP_MAGIC_VALUE :: u32 where "TOS_NS_MEM_MAP_MAGIC_VALUE = 0xfeedbeef"
definition TOS_NS_MEM_MAP_CUR_VERSION :: u32 where "TOS_NS_MEM_MAP_CUR_VERSION = 1"

definition calloc_ok :: "bool list \<Rightarrow> bool \<times> bool list" where
  "calloc_ok ms = (case ms of [] \<Rightarrow> (True, []) | b # bs \<Rightarrow> (b, bs))"

text \<open>
  The loop over the entries.  The table is memory of the normal world: \<open>view i\<close> is what it holds at turn \<open>i\<close>, and
  its length is read again at every turn.  The header has 14 bytes, an entry 16.
\<close>

function ns_map_loop :: "(nat \<Rightarrow> byte list) \<Rightarrow> nat \<Rightarrow> nat \<Rightarrow> bool list \<Rightarrow> (u64 \<times> u64) list
    \<Rightarrow> (bool \<times> (u64 \<times> u64) list \<times> bool list) option" where
  "ns_map_loop view off i ms acc =
     (case mem_u32 (view i) (off + 8) of None \<Rightarrow> None
      | Some num \<Rightarrow>
        if i < unat num then
          (let (ok, ms) = calloc_ok ms in
           if \<not> ok then Some (False, acc, ms)
           else case (mem_u64 (view i) (off + 14 + 16 * i), mem_u64 (view i) (off + 22 + 16 * i)) of
             (Some base, Some sz) \<Rightarrow> ns_map_loop view off (Suc i) ms (acc @ [(base, sz)])
           | _ \<Rightarrow> None)
        else Some (True, acc, ms))"
  by auto

termination
proof (relation "measure (\<lambda>(view, off, i, ms, acc). 2 ^ 32 - i)", goal_cases)
  case (2 view off i ms acc num)
  have "unat num < 2 ^ 32" using unsigned_less [of num] by simp
  then show ?case using 2 by simp
qed simp

declare ns_map_loop.simps [simp del]

text \<open>
  \<open>vmm\<close> answers \<^verbatim>\<open>vmm_alloc_physical\<close> for the physical address, the size and the flags: the error code, and
  what the mapped memory shows.  A list that was begun is taken apart again.
\<close>

definition platform_register_ns_dram_ranges :: "(u64 \<Rightarrow> u64 \<Rightarrow> u32 \<Rightarrow> int \<times> (nat \<Rightarrow> byte list)) \<Rightarrow> u64 \<Rightarrow> u64 \<Rightarrow> platform
    \<Rightarrow> (int \<times> platform) option" where
  "platform_register_ns_dram_ranges vmm ns_base ns_size p =
     (if pl_range_available p then Some (ERR_ALREADY_EXISTS, p)
      else
        let offset = ns_base AND (0x1000 - 1);
            aligned_addr = ROUNDDOWN64 ns_base 0x1000;
            aligned_size = ROUNDUP64 (ns_size + offset) 0x1000;
            (ret, view) = vmm aligned_addr aligned_size
              (((ARCH_MMU_FLAG_NS OR ARCH_MMU_FLAG_PERM_NO_EXECUTE) OR ARCH_MMU_FLAG_CACHED) OR ARCH_MMU_FLAG_PERM_RO) in
        if ret \<noteq> NO_ERROR then Some (ret, p)
        else do {
          magic \<leftarrow> mem_u32 (view 0) (unat offset);
          if magic \<noteq> TOS_NS_MEM_MAP_MAGIC_VALUE then Some (ERR_INVALID_ARGS, p)
          else do {
            ver \<leftarrow> mem_u32 (view 0) (unat offset + 4);
            if ver \<noteq> TOS_NS_MEM_MAP_CUR_VERSION then Some (ERR_INVALID_ARGS, p)
            else do {
              (ok, rs, ms) \<leftarrow> ns_map_loop view (unat offset) 0 (pl_calloc p) (pl_ranges p);
              if ok then Some (NO_ERROR, p\<lparr>pl_ranges := rs, pl_calloc := ms, pl_range_available := True\<rparr>)
              else Some (ERR_NO_MEMORY, p\<lparr>pl_ranges := [], pl_calloc := ms\<rparr>) } } })"

text \<open>\<^verbatim>\<open>lk/trusty/lib/sm/smcall.c\<close>: the base in the first two parameters of the call, the size in the third.\<close>

definition smc_register_ns_dram_ranges :: "(u64 \<Rightarrow> u64 \<Rightarrow> u32 \<Rightarrow> int \<times> (nat \<Rightarrow> byte list)) \<Rightarrow> smc32_args \<Rightarrow> platform
    \<Rightarrow> (int \<times> platform) option" where
  "smc_register_ns_dram_ranges vmm args p =
     platform_register_ns_dram_ranges vmm
       (push_bit 32 (ucast (smc_params args ! 1)) OR ucast (smc_params args ! 0)) (ucast (smc_params args ! 2)) p"

section \<open>Boot parameters\<close>

text \<open>
  Layout of \<^verbatim>\<open>boot_params_t\<close>: version, UART, four words of chip id, seven 64-bit fields and the 64 bytes of
  \<^verbatim>\<open>struct rollback\<close>; the size of the encrypted keys and the keys follow.
\<close>

definition sizeof_boot_params :: nat where "sizeof_boot_params = 144"
definition MAXIMUM_ENCRYPTED_KEYS_SIZE :: nat where "MAXIMUM_ENCRYPTED_KEYS_SIZE = 32 * 0x1000"

definition parse_bootargs :: "byte list \<Rightarrow> platform \<Rightarrow> platform option" where
  "parse_bootargs mem p = do {
     u0 \<leftarrow> mem_u32 mem 8; u1 \<leftarrow> mem_u32 mem 12; u2 \<leftarrow> mem_u32 mem 16; u3 \<leftarrow> mem_u32 mem 20;
     uart \<leftarrow> mem_u32 mem 4;
     Some (p\<lparr>pl_device_uid := [u0, u1, u2, u3], pl_debug_uart_id := uart, pl_rb_data := take 64 (drop 80 mem)\<rparr>) }"

definition release_bootargs :: "platform \<Rightarrow> platform" where
  "release_bootargs p = p\<lparr>pl_boot_args := sm_put_boot_args (pl_boot_args p)\<rparr>"

text \<open>
  \<open>mem\<close> is the mapped memory of the arguments and \<open>kaddr\<close> their address, \<open>kpa\<close> stands for \<^verbatim>\<open>kvaddr_to_paddr\<close> and
  \<open>partner\<close> is the answer of the weak \<^verbatim>\<open>partner_process_boot_params\<close>, which is 0 unless it is replaced.
\<close>

definition process_boot_params :: "(nat \<Rightarrow> u64) \<Rightarrow> byte list \<Rightarrow> int \<Rightarrow> platform \<Rightarrow> (int \<times> platform) option" where
  "process_boot_params kpa mem partner p =
     (case sm_get_boot_args True (pl_boot_args p) of
        (ret, None, ba) \<Rightarrow> Some (ret, p)
      | (ret, Some (kaddr, total_length), ba) \<Rightarrow>
        let p = p\<lparr>pl_boot_args := ba\<rparr> in
        if total_length < sizeof_boot_params then Some (ERR_BAD_LEN, release_bootargs p)
        else do {
          p \<leftarrow> parse_bootargs mem p;
          keys_length \<leftarrow> mem_u32 mem sizeof_boot_params;
          if unat keys_length > MAXIMUM_ENCRYPTED_KEYS_SIZE
          then Some (ERR_BAD_LEN, release_bootargs (p\<lparr>pl_eks_paddr := 0, pl_eks_length := 0\<rparr>))
          else
            let p = p\<lparr>pl_eks_paddr := kpa (kaddr + sizeof_boot_params), pl_eks_length := keys_length\<rparr> in
            if partner \<noteq> NO_ERROR then Some (partner, p)
            else Some (NO_ERROR, release_bootargs p) })"

text \<open>\<^verbatim>\<open>platform_init\<close> panics when the parameters are refused, and turns the debug port on.\<close>

definition platform_init :: "(nat \<Rightarrow> u64) \<Rightarrow> byte list \<Rightarrow> int \<Rightarrow> platform \<Rightarrow> platform option" where
  "platform_init kpa mem partner p = do {
     (err, p) \<leftarrow> process_boot_params kpa mem partner p;
     _ \<leftarrow> ASSERT (err = NO_ERROR);
     Some (p\<lparr>pl_debug_port := pl_debug_uart_id p, pl_debug_enabled := True\<rparr>) }"

section \<open>The encrypted keys\<close>

definition get_and_clear_eks_info :: "platform \<Rightarrow> int \<times> u64 \<times> u32 \<times> platform" where
  "get_and_clear_eks_info p =
     (if \<not> platform_is_bootstrapping p then (ERR_NOT_ALLOWED, 0, 0, p)
      else (NO_ERROR, pl_eks_paddr p, pl_eks_length p, p\<lparr>pl_eks_paddr := 0, pl_eks_length := 0\<rparr>))"

record map_eks_params =
  eks_addr_ptr :: u32
  eks_size_ptr :: u32
  map_addr_ptr :: u32
  map_size_ptr :: u32

text \<open>
  The kernel reads the size of the keys back through the mapping it has just made for the application; \<open>keys\<close> is
  what this read gives for an address.  The four results are stored one after the other, and a fault is ignored.
\<close>

definition ioctl_map_eks_to_user :: "(u64 \<Rightarrow> u32) \<Rightarrow> map_eks_params \<Rightarrow> uthread \<Rightarrow> umem \<Rightarrow> platform
    \<Rightarrow> (int \<times> uthread \<times> umem \<times> platform) option" where
  "ioctl_map_eks_to_user keys ps ut m p =
     (let valid = (\<lambda>a. uthread_is_valid_range ut (ucast a) 4) in
      if \<not> valid (eks_addr_ptr ps) then Some (ERR_INVALID_ARGS, ut, m, p)
      else if \<not> valid (eks_size_ptr ps) then Some (ERR_INVALID_ARGS, ut, m, p)
      else if \<not> valid (map_addr_ptr ps) then Some (ERR_INVALID_ARGS, ut, m, p)
      else if \<not> valid (map_size_ptr ps) then Some (ERR_INVALID_ARGS, ut, m, p)
      else
        let (ret, eks, blob_length, p) = get_and_clear_eks_info p in
        if ret \<noteq> NO_ERROR then Some (ret, ut, m, p)
        else if eks = 0 then Some (ERR_NOT_ALLOWED, ut, m, p)
        else
          let paddr = ROUNDDOWN64 eks 0x1000;
              offset = eks - paddr;
              sz = ROUNDUP64 (ucast blob_length + offset) 0x1000 in
          do {
            (ret, vaddr, ut) \<leftarrow> uthread_map_contig 0 paddr sz (UTM_R OR UTM_NS_MEM) (ucast UT_MAP_ALIGN_4KB) ut;
            if ret \<noteq> NO_ERROR then Some (ret, ut, m, p)
            else
              let key_size = keys (vaddr + offset);
                  key_string_addr = vaddr + offset + 4;
                  m = snd (copy_to_user m (eks_addr_ptr ps) (le32_bytes (ucast key_string_addr)));
                  m = snd (copy_to_user m (eks_size_ptr ps) (le32_bytes key_size));
                  m = snd (copy_to_user m (map_addr_ptr ps) (le32_bytes (ucast vaddr)));
                  m = snd (copy_to_user m (map_size_ptr ps) (le32_bytes (ucast sz))) in
              Some (NO_ERROR, ut, m, p) })"

definition IOCTL_MAP_EKS_TO_USER :: u32 where "IOCTL_MAP_EKS_TO_USER = 0x20000001"

text \<open>\<open>partner\<close> answers the weak function that takes all other requests; as it stands it refuses them.\<close>

definition sys_std_platform_ioctl_partner :: int where "sys_std_platform_ioctl_partner = ERR_NOT_SUPPORTED"

definition map_eks_params_of :: "byte list \<Rightarrow> map_eks_params" where
  "map_eks_params_of bs = \<lparr>eks_addr_ptr = le32_of (take 4 bs), eks_size_ptr = le32_of (take 4 (drop 4 bs)),
     map_addr_ptr = le32_of (take 4 (drop 8 bs)), map_size_ptr = le32_of (take 4 (drop 12 bs))\<rparr>"

definition sys_std_platform_ioctl :: "(u64 \<Rightarrow> u32) \<Rightarrow> u32 \<Rightarrow> u32 \<Rightarrow> u32 \<Rightarrow> uthread \<Rightarrow> umem \<Rightarrow> platform
    \<Rightarrow> (int \<times> uthread \<times> umem \<times> platform) option" where
  "sys_std_platform_ioctl keys fd cmd user_ptr ut m p = do {
     _ \<leftarrow> ASSERT (fd = 3);
     if cmd = IOCTL_MAP_EKS_TO_USER then
       if \<not> uthread_is_valid_range ut (ucast user_ptr) 16 then Some (ERR_INVALID_ARGS, ut, m, p)
       else if \<not> platform_is_bootstrapping p then Some (ERR_NOT_ALLOWED, ut, m, p)
       else ioctl_map_eks_to_user keys (map_eks_params_of (snd (copy_from_user m user_ptr 16))) ut m p
     else Some (sys_std_platform_ioctl_partner, ut, m, p) }"

section \<open>CPU numbers\<close>

text \<open>
  \<^verbatim>\<open>plat_arch_curr_cpu_num\<close>: the number comes from the affinity fields of \<^verbatim>\<open>MPIDR_EL1\<close> through a table that
  depends on which core booted; the first call fixes that core.  An index outside of the table is undefined.
\<close>

definition A57_0 :: u32 where "A57_0 = 4"
definition a57_boot_map :: "u32 list" where "a57_boot_map = [1, 2, 0xff, 0xff, 0, 3, 4, 5]"
definition denver_boot_map :: "u32 list" where "denver_boot_map = [0, 1, 0xff, 0xff, 2, 3, 4, 5]"

definition plat_arch_curr_cpu_num :: "u64 \<Rightarrow> u32 \<Rightarrow> (u32 \<times> u32) option" where
  "plat_arch_curr_cpu_num mpidr boot_cpu =
     (let cpu_num = ucast (mpidr AND 0xff) :: u32;
          cluster_num = ucast (drop_bit 8 mpidr AND 0xff) :: u32;
          curr = cpu_num + push_bit 2 cluster_num;
          boot_cpu = (if boot_cpu = 0xFF then curr else boot_cpu);
          tab = (if boot_cpu = A57_0 then a57_boot_map else denver_boot_map) in
      if unat curr < length tab then Some (tab ! unat curr, boot_cpu) else None)"

section \<open>What happens after the boot parameters\<close>

text \<open>Calls of the normal world and of applications, and the end of the boot, in any order.\<close>

inductive plat_step :: "platform \<Rightarrow> platform \<Rightarrow> bool" where
  register: "smc_register_ns_dram_ranges vmm args p = Some (r, p') \<Longrightarrow> plat_step p p'"
| ioctl: "sys_std_platform_ioctl keys fd cmd ptr ut m p = Some (r, ut', m', p') \<Longrightarrow> plat_step p p'"
| booted: "plat_step p (platform_bootstrap_epilog p)"

text \<open>Whoever maps the keys takes them: afterwards nobody can.\<close>

definition eks_gone :: "platform \<Rightarrow> bool" where
  "eks_gone p \<longleftrightarrow> pl_bootstrap_done p \<or> pl_eks_paddr p = 0"

lemma register_cases:
  assumes "platform_register_ns_dram_ranges vmm b n p = Some (r, p')"
  shows "pl_bootstrap_done p' = pl_bootstrap_done p" "pl_eks_paddr p' = pl_eks_paddr p"
    "pl_range_available p \<Longrightarrow> p' = p"
  using assms by (auto simp: platform_register_ns_dram_ranges_def Let_def bind_Some_iff split: if_splits prod.splits)

lemma map_eks_frame:
  assumes "ioctl_map_eks_to_user keys ps ut m p = Some (r, ut', m', p')"
  shows "pl_range_available p' = pl_range_available p" "pl_ranges p' = pl_ranges p" "pl_bootstrap_done p' = pl_bootstrap_done p"
    "eks_gone p \<Longrightarrow> eks_gone p' \<and> r \<noteq> NO_ERROR" "r = NO_ERROR \<Longrightarrow> eks_gone p'"
proof -
  let ?valid = "\<lambda>a. uthread_is_valid_range ut (ucast (a ps)) 4" and ?q = "p\<lparr>pl_eks_paddr := 0, pl_eks_length := 0\<rparr>"
  have c: "p' = p \<and> r \<noteq> NO_ERROR \<or> platform_is_bootstrapping p \<and> p' = ?q \<and> (pl_eks_paddr p = 0 \<longrightarrow> r \<noteq> NO_ERROR)"
  proof (cases "?valid eks_addr_ptr \<and> ?valid eks_size_ptr \<and> ?valid map_addr_ptr \<and> ?valid map_size_ptr")
    case False
    then have "p' = p \<and> r = ERR_INVALID_ARGS"
      using assms unfolding ioctl_map_eks_to_user_def Let_def by (auto simp only: if_True if_False option.inject prod.inject split: if_splits)
    then show ?thesis by (simp add: err_simps)
  next
    case v: True
    show ?thesis
    proof (cases "platform_is_bootstrapping p")
      case False
      then show ?thesis using assms v
        by (simp add: ioctl_map_eks_to_user_def get_and_clear_eks_info_def err_simps)
    next
      case b: True
      show ?thesis
      proof (cases "pl_eks_paddr p = 0")
        case True
        then show ?thesis using assms v b
          by (auto simp: ioctl_map_eks_to_user_def get_and_clear_eks_info_def err_simps)
      next
        case False
        let ?eks = "pl_eks_paddr p" and ?pa = "ROUNDDOWN64 (pl_eks_paddr p) 0x1000"
        let ?run = "uthread_map_contig 0 ?pa (ROUNDUP64 (ucast (pl_eks_length p) + (?eks - ?pa)) 0x1000) (UTM_R OR UTM_NS_MEM)
          (ucast UT_MAP_ALIGN_4KB) ut"
        have "\<exists>x. ?run = Some x \<and> p' = ?q"
          using assms v b False
          by (cases ?run) (auto simp: ioctl_map_eks_to_user_def get_and_clear_eks_info_def err_simps Let_def split: if_splits)
        then show ?thesis using b False by blast
      qed
    qed
  qed
  show "pl_range_available p' = pl_range_available p" "pl_ranges p' = pl_ranges p" "pl_bootstrap_done p' = pl_bootstrap_done p"
    "eks_gone p \<Longrightarrow> eks_gone p' \<and> r \<noteq> NO_ERROR" "r = NO_ERROR \<Longrightarrow> eks_gone p'"
    using c by (auto simp: eks_gone_def platform_is_bootstrapping_def)
qed

lemma ioctl_frame:
  assumes "sys_std_platform_ioctl keys fd cmd ptr ut m p = Some (r, ut', m', p')"
  shows "pl_range_available p' = pl_range_available p" "pl_ranges p' = pl_ranges p"
    "eks_gone p \<Longrightarrow> eks_gone p' \<and> r \<noteq> NO_ERROR" "r = NO_ERROR \<Longrightarrow> eks_gone p'"
proof -
  have fd: "fd = 3" using assms by (auto simp: sys_std_platform_ioctl_def bind_Some_iff)
  let ?ps = "map_eks_params_of (snd (copy_from_user m ptr 16))"
  have c: "p' = p \<and> r \<noteq> NO_ERROR \<or> ioctl_map_eks_to_user keys ?ps ut m p = Some (r, ut', m', p')"
  proof (cases "cmd = IOCTL_MAP_EKS_TO_USER \<and> uthread_is_valid_range ut (ucast ptr) 16 \<and> platform_is_bootstrapping p")
    case True
    then show ?thesis using assms fd by (simp add: sys_std_platform_ioctl_def)
  next
    case False
    then have "p' = p \<and> (r = ERR_INVALID_ARGS \<or> r = ERR_NOT_ALLOWED \<or> r = ERR_NOT_SUPPORTED)"
      using assms fd unfolding sys_std_platform_ioctl_def sys_std_platform_ioctl_partner_def
      by (auto simp del: split_paired_Ex split: if_splits)
    then show ?thesis by (auto simp: err_simps)
  qed
  note frame = map_eks_frame [of keys ?ps ut m p r ut' m' p']
  show "pl_range_available p' = pl_range_available p" using c frame(1) by auto
  show "pl_ranges p' = pl_ranges p" using c frame(2) by auto
  show "eks_gone p \<Longrightarrow> eks_gone p' \<and> r \<noteq> NO_ERROR" using c frame(4) by auto
  show "r = NO_ERROR \<Longrightarrow> eks_gone p'" using c frame(5) by auto
qed

lemma step_ranges: "plat_step p p' \<Longrightarrow> pl_range_available p \<Longrightarrow> pl_range_available p' \<and> pl_ranges p' = pl_ranges p"
  by (induction rule: plat_step.induct)
     (auto simp: platform_bootstrap_epilog_def smc_register_ns_dram_ranges_def dest: register_cases(3) ioctl_frame(1,2))

lemma step_eks: "plat_step p p' \<Longrightarrow> eks_gone p \<Longrightarrow> eks_gone p'"
proof (induction rule: plat_step.induct)
  case (register vmm args p r p')
  then show ?case using register_cases(1,2) by (metis eks_gone_def smc_register_ns_dram_ranges_def)
next
  case (ioctl keys fd cmd ptr ut m p r ut' m' p')
  then show ?case using ioctl_frame(3) by blast
next
  case (booted p)
  then show ?case by (simp add: eks_gone_def platform_bootstrap_epilog_def)
qed

lemma steps_ranges: "plat_step\<^sup>*\<^sup>* p p' \<Longrightarrow> pl_range_available p \<Longrightarrow> pl_range_available p' \<and> pl_ranges p' = pl_ranges p"
  by (induction rule: rtranclp_induct) (auto dest: step_ranges)

lemma steps_eks: "plat_step\<^sup>*\<^sup>* p p' \<Longrightarrow> eks_gone p \<Longrightarrow> eks_gone p'"
  by (induction rule: rtranclp_induct) (auto dest: step_eks)

lemma validate_range_nat:
  "platform_validate_range b s a n \<longleftrightarrow> unat b \<le> unat a \<and> unat a + unat n \<le> unat b + unat s"
  by (auto simp: platform_validate_range_def word_le_nat_alt unat_sub_if')

lemma validate_iff:
  "platform_validate_ns_phys_range a n p = NO_ERROR \<longleftrightarrow> pl_range_available p \<and>
     (\<exists>(b, s)\<in>set (pl_ranges p). unat b \<le> unat a \<and> unat a + unat n \<le> unat b + unat s)"
  by (auto simp: platform_validate_ns_phys_range_def trusty_hyp_is_ctx_available_def list_ex_iff validate_range_nat err_simps)

section \<open>The table of the normal world\<close>

text \<open>A table of entries, as the boot loader lays it out.\<close>

definition ns_entry :: "u64 \<times> u64 \<Rightarrow> byte list" where
  "ns_entry e = le32_bytes (ucast (fst e)) @ le32_bytes (ucast (drop_bit 32 (fst e))) @
     le32_bytes (ucast (snd e)) @ le32_bytes (ucast (drop_bit 32 (snd e)))"

definition ns_table :: "(u64 \<times> u64) list \<Rightarrow> byte list" where
  "ns_table es = le32_bytes TOS_NS_MEM_MAP_MAGIC_VALUE @ le32_bytes TOS_NS_MEM_MAP_CUR_VERSION @ le32_bytes (of_nat (length es)) @
     [0, 0] @ concat (map ns_entry es)"

lemma length_ns_entry [simp]: "length (ns_entry e) = 16"
  by (simp add: ns_entry_def)

lemma length_ns_entries: "length (concat (map ns_entry es)) = 16 * length es"
  by (induction es) simp_all

lemma mem_u32_at: "length pre = k \<Longrightarrow> mem_u32 (pre @ le32_bytes w @ post) k = Some w"
  by (simp add: mem_u32_def)

lemma u64_halves: "ucast (ucast w :: u32) OR push_bit 32 (ucast (ucast (drop_bit 32 w) :: u32)) = (w :: u64)"
  by (rule bit_word_eqI) (auto simp: bit_or_iff bit_ucast_iff bit_push_bit_iff bit_drop_bit_eq)

lemma mem_u64_at:
  "length pre = k \<Longrightarrow> mem_u64 (pre @ le32_bytes (ucast w) @ le32_bytes (ucast (drop_bit 32 w)) @ post) k = Some w"
  using mem_u32_at [of pre k "ucast w"] mem_u32_at [of "pre @ le32_bytes (ucast w)" "k + 4" "ucast (drop_bit 32 w)" post]
  by (simp add: mem_u64_def u64_halves)

lemma ns_entry_at:
  assumes "length pre = k"
  shows "mem_u64 (pre @ ns_entry e @ post) k = Some (fst e)" "mem_u64 (pre @ ns_entry e @ post) (k + 8) = Some (snd e)"
  using mem_u64_at [OF assms, of "fst e" "le32_bytes (ucast (snd e)) @ le32_bytes (ucast (drop_bit 32 (snd e))) @ post"]
    mem_u64_at [of "pre @ le32_bytes (ucast (fst e)) @ le32_bytes (ucast (drop_bit 32 (fst e)))" "k + 8" "snd e" post] assms
  by (simp_all add: ns_entry_def)

lemma ns_table_loop:
  assumes "length es < 2 ^ 32" "i \<le> length es"
  shows "ns_map_loop (\<lambda>_. pre @ ns_table es @ post) (length pre) i [] acc = Some (True, acc @ drop i es, [])"
  using assms(2)
proof (induction "length es - i" arbitrary: i acc)
  case 0
  let ?m = "pre @ ns_table es @ post"
  have "mem_u32 ?m (length pre + 8) = Some (of_nat (length es))"
    using mem_u32_at [of "pre @ le32_bytes TOS_NS_MEM_MAP_MAGIC_VALUE @ le32_bytes TOS_NS_MEM_MAP_CUR_VERSION" "length pre + 8"]
    by (simp add: ns_table_def)
  moreover have "unat (of_nat (length es) :: u32) = length es" using assms(1) by (intro unat_of_nat_less) simp
  ultimately show ?case using 0 by (simp add: ns_map_loop.simps [of _ _ i])
next
  case (Suc n)
  let ?m = "pre @ ns_table es @ post"
  have i: "i < length es" using Suc.hyps(2) by linarith
  have num: "mem_u32 ?m (length pre + 8) = Some (of_nat (length es))"
    using mem_u32_at [of "pre @ le32_bytes TOS_NS_MEM_MAP_MAGIC_VALUE @ le32_bytes TOS_NS_MEM_MAP_CUR_VERSION" "length pre + 8"]
    by (simp add: ns_table_def)
  have u: "unat (of_nat (length es) :: u32) = length es" using assms(1) by (intro unat_of_nat_less) simp
  let ?hd = "pre @ le32_bytes TOS_NS_MEM_MAP_MAGIC_VALUE @ le32_bytes TOS_NS_MEM_MAP_CUR_VERSION @ le32_bytes (of_nat (length es)) @ [0, 0]
    @ concat (map ns_entry (take i es))"
  have m: "?m = ?hd @ ns_entry (es ! i) @ concat (map ns_entry (drop (Suc i) es)) @ post"
    using arg_cong [OF id_take_nth_drop [OF i], of "\<lambda>es. concat (map ns_entry es)"] by (simp add: ns_table_def)
  have l: "length ?hd = length pre + 14 + 16 * i" using i by (simp add: length_ns_entries)
  have e: "mem_u64 ?m (length pre + 14 + 16 * i) = Some (fst (es ! i))" "mem_u64 ?m (length pre + 22 + 16 * i) = Some (snd (es ! i))"
    using ns_entry_at [OF l, of "es ! i" "concat (map ns_entry (drop (Suc i) es)) @ post", folded m] by (simp_all add: ac_simps)
  have "ns_map_loop (\<lambda>_. ?m) (length pre) (Suc i) [] (acc @ [es ! i]) = Some (True, (acc @ [es ! i]) @ drop (Suc i) es, [])"
    using Suc.hyps i by (intro Suc.hyps(1)) simp_all
  then show ?case using num u e i
    by (simp add: ns_map_loop.simps [of _ _ i] calloc_ok_def Cons_nth_drop_Suc)
qed

lemma register_table:
  assumes "length es < 2 ^ 32" "length pre = unat (base AND 0xFFF)" "\<And>a n f. vmm a n f = (NO_ERROR, \<lambda>_. pre @ ns_table es @ post)"
    "\<not> pl_range_available p" "pl_ranges p = []" "pl_calloc p = []"
  shows "platform_register_ns_dram_ranges vmm base n p =
    Some (NO_ERROR, p\<lparr>pl_ranges := es, pl_calloc := [], pl_range_available := True\<rparr>)"
proof -
  let ?m = "pre @ ns_table es @ post"
  have "mem_u32 ?m (length pre) = Some TOS_NS_MEM_MAP_MAGIC_VALUE" "mem_u32 ?m (length pre + 4) = Some TOS_NS_MEM_MAP_CUR_VERSION"
    using mem_u32_at [of pre] mem_u32_at [of "pre @ le32_bytes TOS_NS_MEM_MAP_MAGIC_VALUE" "length pre + 4"]
    by (simp_all add: ns_table_def)
  then show ?thesis using ns_table_loop [OF assms(1), of 0 pre post "[]"] assms(2-)
    by (simp add: platform_register_ns_dram_ranges_def)
qed

section \<open>Properties\<close>

text \<open>
  Property C29.  Once the table of the normal world's memory has been registered, and whatever is called afterwards,
  further registrations included, \<^verbatim>\<open>platform_validate_ns_phys_range\<close> accepts exactly the address ranges that lie
  inside one entry of that table, as natural numbers: no sum wraps around.
\<close>

theorem ns_ranges_exact:
  assumes "length es < 2 ^ 32" and "length pre = unat (base AND 0xFFF)"
    and "\<And>a n f. vmm a n f = (NO_ERROR, \<lambda>_. pre @ ns_table es @ post)"
    and "\<not> pl_range_available p" and "pl_ranges p = []" and "pl_calloc p = []"
  shows "\<exists>q. platform_register_ns_dram_ranges vmm base n p = Some (NO_ERROR, q) \<and>
    (\<forall>q' a sz. plat_step\<^sup>*\<^sup>* q q' \<longrightarrow> (platform_validate_ns_phys_range a sz q' = NO_ERROR \<longleftrightarrow>
       (\<exists>(b, s)\<in>set es. unat b \<le> unat a \<and> unat a + unat sz \<le> unat b + unat s)))"
proof -
  let ?q = "p\<lparr>pl_ranges := es, pl_calloc := [], pl_range_available := True\<rparr>"
  have "pl_range_available q' \<and> pl_ranges q' = es" if "plat_step\<^sup>*\<^sup>* ?q q'" for q' using steps_ranges [OF that] by simp
  then show ?thesis using register_table [where n = n, OF assms] by (intro exI [of _ ?q]) (simp add: validate_iff)
qed

definition pl_demo :: platform where
  "pl_demo = \<lparr>pl_bootstrap_done = False, pl_range_available = False, pl_ranges = [], pl_eks_paddr = 0x80000090, pl_eks_length = 0x400,
     pl_device_uid = [], pl_debug_uart_id = 0, pl_rb_data = [],
     pl_boot_args = \<lparr>ba_args = None, ba_refcnt = 0, ba_size = 0, ba_freed = 0, ba_threads_resumed = False\<rparr>,
     pl_calloc = [], pl_debug_port = 0, pl_debug_enabled = False\<rparr>"

definition pl_table :: "(u64 \<times> u64) list" where
  "pl_table = [(0x80000000, 0x1000000)]"

theorem ns_ranges_exact_witness:
  "\<exists>q. platform_register_ns_dram_ranges (\<lambda>_ _ _. (NO_ERROR, \<lambda>_. [] @ ns_table pl_table @ [])) 0x90000000 0x1000 pl_demo = Some (NO_ERROR, q) \<and>
     platform_validate_ns_phys_range 0x80FFF000 0x1000 q = NO_ERROR \<and> platform_validate_ns_phys_range 0x80FFF000 0x1001 q \<noteq> NO_ERROR \<and>
     platform_validate_ns_phys_range 0x80000000 0xFFFFFFFFFFFFFFFF q \<noteq> NO_ERROR"
proof -
  have "length pl_table < 2 ^ 32" by (simp add: pl_table_def)
  from ns_ranges_exact [OF this, of "[]" "0x90000000" "\<lambda>_ _ _. (NO_ERROR, \<lambda>_. [] @ ns_table pl_table @ [])" "[]" pl_demo "0x1000"]
  obtain q where q: "platform_register_ns_dram_ranges (\<lambda>_ _ _. (NO_ERROR, \<lambda>_. [] @ ns_table pl_table @ [])) 0x90000000 0x1000 pl_demo = Some (NO_ERROR, q)"
    and v: "\<forall>q' a sz. plat_step\<^sup>*\<^sup>* q q' \<longrightarrow> (platform_validate_ns_phys_range a sz q' = NO_ERROR \<longleftrightarrow>
       (\<exists>(b, s)\<in>set pl_table. unat b \<le> unat a \<and> unat a + unat sz \<le> unat b + unat s))"
    by (auto simp: pl_demo_def)
  show ?thesis using q v [rule_format, OF rtranclp.rtrancl_refl] by (simp add: pl_table_def)
qed

text \<open>
  Property C30.  The encrypted keys are handed out at most once: after an \<^verbatim>\<open>ioctl\<close> has mapped them for an
  application, no later one succeeds, whoever calls it and whatever happened in between; and after the end of the boot
  none succeeds at all.
\<close>

theorem eks_mapped_once:
  assumes "sys_std_platform_ioctl keys fd cmd ptr ut m p = Some (NO_ERROR, ut1, m1, q) \<or> q = platform_bootstrap_epilog p"
    and "plat_step\<^sup>*\<^sup>* q q'" and "sys_std_platform_ioctl keys' fd' cmd' ptr' ut' m' q' = Some (r, ut2, m2, q2)"
  shows "r \<noteq> NO_ERROR"
proof -
  have "eks_gone q" using assms(1) ioctl_frame(4) [of keys fd cmd ptr ut m p NO_ERROR ut1 m1 q]
    by (auto simp: eks_gone_def platform_bootstrap_epilog_def)
  then have "eks_gone q'" by (rule steps_eks [OF assms(2)])
  then show ?thesis using ioctl_frame(3) [OF assms(3)] by blast
qed

text \<open>An application whose memory is one page of ones, so that all its pointers point into it.\<close>

definition eks_ut :: uthread where
  "eks_ut = \<lparr>ut_id = 1, ut_start_stack = 0x10000, ut_entry = 0x8000, ut_ns_va_bottom = MAX_USR_VA,
     ut_maps = [\<lparr>um_vaddr = 0x1010000, um_size = 0x1000, um_flags = UTM_R OR UTM_W, um_align = 0x1000, um_pfn_list = [0x90000000]\<rparr>],
     ut_malloc = [], ut_arch = [], ut_is_page = (\<lambda>_. False), ut_freed = []\<rparr>"

definition eks_um :: umem where
  "eks_um = \<lparr>udata = (\<lambda>_. 1), ureadable = (\<lambda>_. True), uwritable = (\<lambda>_. True)\<rparr>"

theorem eks_mapped_once_witness:
  "\<exists>ut1 m1 q r ut2 m2 q2. sys_std_platform_ioctl (\<lambda>_. 0x400) 3 0x20000001 0x1010100 eks_ut eks_um pl_demo = Some (NO_ERROR, ut1, m1, q) \<and>
     sys_std_platform_ioctl (\<lambda>_. 0x400) 3 0x20000001 0x1010100 eks_ut eks_um q = Some (r, ut2, m2, q2) \<and> r \<noteq> NO_ERROR"
proof -
  have two: "Option.bind (sys_std_platform_ioctl (\<lambda>_. 0x400) 3 0x20000001 0x1010100 eks_ut eks_um pl_demo) (\<lambda>(r, _, _, q). map_option (\<lambda>x. (r, fst x)) (sys_std_platform_ioctl (\<lambda>_. 0x400) 3 0x20000001 0x1010100 eks_ut eks_um q)) = Some (NO_ERROR, ERR_NOT_ALLOWED)"
    by code_simp
  then obtain ut1 m1 q where q: "sys_std_platform_ioctl (\<lambda>_. 0x400) 3 0x20000001 0x1010100 eks_ut eks_um pl_demo = Some (NO_ERROR, ut1, m1, q)" by (auto simp: bind_Some_iff)
  with two obtain r ut2 m2 q2 where r: "sys_std_platform_ioctl (\<lambda>_. 0x400) 3 0x20000001 0x1010100 eks_ut eks_um q = Some (r, ut2, m2, q2)" by auto
  then have "r \<noteq> NO_ERROR" by (rule eks_mapped_once [OF disjI1 [OF q] rtranclp.rtrancl_refl])
  then show ?thesis using q r by blast
qed

end
