(* ===== verification/AppImage.thy ===== *)
theory AppImage
  imports UserMem
begin

text \<open>
  The image of the trusted applications as the loader reads and writes it: a list of bytes from
  \<^verbatim>\<open>__trusty_app_start\<close> on, an address being an offset into it.  Here are the accesses of C (every one
  outside the list is a panic), the library functions the loader calls on strings and memory, and the
  fields of the ELF structures of \<^verbatim>\<open>elf.h\<close> at their offsets.
\<close>

type_synonym image = "byte list"

definition rd8 :: "image \<Rightarrow> nat \<Rightarrow> byte option" where
  "rd8 img a = (if a < length img then Some (img ! a) else None)"

definition rd_bytes :: "image \<Rightarrow> nat \<Rightarrow> nat \<Rightarrow> byte list option" where
  "rd_bytes img a n = (if a + n \<le> length img then Some (take n (drop a img)) else None)"

definition rd16 :: "image \<Rightarrow> nat \<Rightarrow> u16 option" where
  "rd16 img a = map_option (\<lambda>bs. ucast (le32_of bs)) (rd_bytes img a 2)"

definition rd32 :: "image \<Rightarrow> nat \<Rightarrow> u32 option" where
  "rd32 img a = map_option le32_of (rd_bytes img a 4)"

fun rd_words :: "image \<Rightarrow> nat \<Rightarrow> nat \<Rightarrow> u32 list option" where
  "rd_words img a 0 = Some []"
| "rd_words img a (Suc n) = do { w \<leftarrow> rd32 img a; ws \<leftarrow> rd_words img (a + 4) n; Some (w # ws) }"

text \<open>\<^verbatim>\<open>memcpy\<close>, \<^verbatim>\<open>memmove\<close> and \<^verbatim>\<open>memset\<close> write a block.\<close>

definition wr_bytes :: "image \<Rightarrow> nat \<Rightarrow> byte list \<Rightarrow> image option" where
  "wr_bytes img a bs = (if bs = [] \<or> a + length bs \<le> length img then Some (take a img @ bs @ drop (a + length bs) img) else None)"

definition img_memmove :: "image \<Rightarrow> nat \<Rightarrow> nat \<Rightarrow> nat \<Rightarrow> image option" where
  "img_memmove img dst src n = do { bs \<leftarrow> rd_bytes img src n; wr_bytes img dst bs }"

definition img_memzero :: "image \<Rightarrow> nat \<Rightarrow> nat \<Rightarrow> image option" where
  "img_memzero img a n = wr_bytes img a (replicate n 0)"

text \<open>\<^verbatim>\<open>strcmp\<close> with a literal: whether the strings are equal.  \<^verbatim>\<open>strncmp\<close> stops with the literal.\<close>

fun str_eq :: "image \<Rightarrow> nat \<Rightarrow> byte list \<Rightarrow> bool option" where
  "str_eq img a [] = map_option (\<lambda>b. b = 0) (rd8 img a)"
| "str_eq img a (c # cs) = do { b \<leftarrow> rd8 img a; if b \<noteq> c then Some False else str_eq img (a + 1) cs }"

fun strn_eq :: "image \<Rightarrow> nat \<Rightarrow> byte list \<Rightarrow> bool option" where
  "strn_eq img a [] = Some True"
| "strn_eq img a (c # cs) = do { b \<leftarrow> rd8 img a; if b \<noteq> c then Some False else strn_eq img (a + 1) cs }"

text \<open>
  \<^verbatim>\<open>strtoul\<close> of \<^verbatim>\<open>libc/atoi.c\<close> with base 0: the value and the address of the first character not used.
  The string ends with the image, so its length bounds the loops.
\<close>

definition is_space :: "byte \<Rightarrow> bool" where
  "is_space c \<longleftrightarrow> c \<in> {32, 12, 10, 13, 9, 11}"

definition digit_value :: "byte \<Rightarrow> int" where
  "digit_value c = (if 65 \<le> c \<and> c \<le> 90 then uint c - 65 + 10
     else if 97 \<le> c \<and> c \<le> 122 then uint c - 97 + 10
     else if 48 \<le> c \<and> c \<le> 57 then uint c - 48 else -1)"

fun skip_spaces :: "image \<Rightarrow> nat \<Rightarrow> nat \<Rightarrow> nat option" where
  "skip_spaces img a 0 = None"
| "skip_spaces img a (Suc fuel) = do { c \<leftarrow> rd8 img a; if is_space c then skip_spaces img (a + 1) fuel else Some a }"

fun strtoul_digits :: "image \<Rightarrow> nat \<Rightarrow> int \<Rightarrow> u64 \<Rightarrow> nat \<Rightarrow> (u64 \<times> nat) option" where
  "strtoul_digits img a base ret 0 = None"
| "strtoul_digits img a base ret (Suc fuel) = do {
     c \<leftarrow> rd8 img a;
     let v = digit_value c;
     if v < 0 \<or> v \<ge> base then Some (ret, a)
     else
       let new_ret = ret * word_of_int base in
       strtoul_digits img (a + 1) base
         (if new_ret div word_of_int base \<noteq> ret \<or> new_ret + word_of_int v < new_ret \<or> ret = - 1 then - 1
          else new_ret + word_of_int v) fuel }"

definition strtoul0 :: "image \<Rightarrow> nat \<Rightarrow> (u64 \<times> nat) option" where
  "strtoul0 img a = do {
     a \<leftarrow> skip_spaces img a (Suc (length img));
     c \<leftarrow> rd8 img a;
     let neg = (c = 45);
     let a = (if c = 43 \<or> c = 45 then a + 1 else a);
     c0 \<leftarrow> rd8 img a;
     c1 \<leftarrow> (if c0 = 48 then rd8 img (a + 1) else Some 0);
     let (base, a) = (if c0 = 48 \<and> c1 = 120 then (16, a + 2) else if c0 = 48 then (8, a + 1) else (10, a));
     (ret, a) \<leftarrow> strtoul_digits img a base 0 (Suc (length img));
     Some (if neg \<and> ret \<noteq> - 1 then - ret else ret, a) }"

section \<open>ELF structures\<close>

definition SHT_NULL :: u32 where "SHT_NULL = 0"
definition SHT_NOBITS :: u32 where "SHT_NOBITS = 8"
definition PT_LOAD :: u32 where "PT_LOAD = 1"
definition PF_X :: u32 where "PF_X = 1"
definition PF_W :: u32 where "PF_W = 2"
definition PF_R :: u32 where "PF_R = 4"
definition ELFMAG :: "byte list" where "ELFMAG = [0x7f, 69, 76, 70]"

definition e_entry :: "image \<Rightarrow> nat \<Rightarrow> u32 option" where "e_entry img eh = rd32 img (eh + 24)"
definition e_phoff :: "image \<Rightarrow> nat \<Rightarrow> u32 option" where "e_phoff img eh = rd32 img (eh + 28)"
definition e_shoff :: "image \<Rightarrow> nat \<Rightarrow> u32 option" where "e_shoff img eh = rd32 img (eh + 32)"
definition e_phnum :: "image \<Rightarrow> nat \<Rightarrow> u16 option" where "e_phnum img eh = rd16 img (eh + 44)"
definition e_shentsize :: "image \<Rightarrow> nat \<Rightarrow> u16 option" where "e_shentsize img eh = rd16 img (eh + 46)"
definition e_shnum :: "image \<Rightarrow> nat \<Rightarrow> u16 option" where "e_shnum img eh = rd16 img (eh + 48)"
definition e_shstrndx :: "image \<Rightarrow> nat \<Rightarrow> u16 option" where "e_shstrndx img eh = rd16 img (eh + 50)"

definition sizeof_shdr :: nat where "sizeof_shdr = 40"
definition sizeof_phdr :: nat where "sizeof_phdr = 32"

text \<open>A section header and a program header, read whole.\<close>

record elf32_shdr =
  sh_name :: u32
  sh_type :: u32
  sh_addr :: u32
  sh_offset :: u32
  sh_size :: u32

definition rd_shdr :: "image \<Rightarrow> nat \<Rightarrow> elf32_shdr option" where
  "rd_shdr img a = do {
     n \<leftarrow> rd32 img a; t \<leftarrow> rd32 img (a + 4); ad \<leftarrow> rd32 img (a + 12); off \<leftarrow> rd32 img (a + 16); sz \<leftarrow> rd32 img (a + 20);
     Some \<lparr>sh_name = n, sh_type = t, sh_addr = ad, sh_offset = off, sh_size = sz\<rparr> }"

record elf32_phdr =
  ph_type :: u32
  ph_offset :: u32
  ph_vaddr :: u32
  ph_memsz :: u32
  ph_flags :: u32

definition rd_phdr :: "image \<Rightarrow> nat \<Rightarrow> elf32_phdr option" where
  "rd_phdr img a = do {
     t \<leftarrow> rd32 img a; off \<leftarrow> rd32 img (a + 4); va \<leftarrow> rd32 img (a + 8); m \<leftarrow> rd32 img (a + 20); f \<leftarrow> rd32 img (a + 24);
     Some \<lparr>ph_type = t, ph_offset = off, ph_vaddr = va, ph_memsz = m, ph_flags = f\<rparr> }"

section \<open>What a write leaves\<close>

lemma wr_bytes_frame: "wr_bytes img a bs = Some img' \<Longrightarrow> n \<le> a \<Longrightarrow> take n img' = take n img"
  by (auto simp: wr_bytes_def split: if_splits)

lemma wr_bytes_length: "wr_bytes img a bs = Some img' \<Longrightarrow> length img' = length img"
  by (auto simp: wr_bytes_def split: if_splits)

lemma img_memmove_frame: "img_memmove img dst src k = Some img' \<Longrightarrow> n \<le> dst \<Longrightarrow> take n img' = take n img"
  by (auto simp: img_memmove_def bind_Some_iff dest: wr_bytes_frame)

lemma img_memmove_length: "img_memmove img dst src k = Some img' \<Longrightarrow> length img' = length img"
  by (auto simp: img_memmove_def bind_Some_iff dest: wr_bytes_length)

lemma img_memzero_frame: "img_memzero img a k = Some img' \<Longrightarrow> n \<le> a \<Longrightarrow> take n img' = take n img"
  by (auto simp: img_memzero_def dest: wr_bytes_frame)

lemma img_memzero_length: "img_memzero img a k = Some img' \<Longrightarrow> length img' = length img"
  by (auto simp: img_memzero_def dest: wr_bytes_length)

end
