(* ===== verification/AppLoader.thy ===== *)
theory AppLoader
  imports AppImage Uthread
begin

text \<open>
  The loader of the trusted applications: \<^verbatim>\<open>lib/trusty/trusty_app.c\<close>.  The build appends the applications
  to the kernel image; at boot each one's sections are found, its manifest is read, the next one is
  copied down to a page boundary, and then every application gets a user thread and its address space.

  \<open>ld_start\<close> is the address of the image and \<open>ld_paddr\<close> its physical address; \<open>ld_malloc\<close> answers the
  coming allocations of the loader itself, those made for a thread being the thread's own.
\<close>

definition PAGE_SIZE :: nat where "PAGE_SIZE = 4096"
definition sizeof_trusty_app :: nat where "sizeof_trusty_app = 104"
definition MAX_TRUSTY_APP_COUNT :: nat where "MAX_TRUSTY_APP_COUNT = PAGE_SIZE div sizeof_trusty_app"
definition TRUSTY_APP_START_ADDR :: u32 where "TRUSTY_APP_START_ADDR = 0x8000"
definition TRUSTY_APP_STACK_TOP :: u32 where "TRUSTY_APP_STACK_TOP = 0x1000000"
definition DEFAULT_STACK_SIZE :: u32 where "DEFAULT_STACK_SIZE = 4096"
definition NV_GUEST_TASK_MAGIC_STR :: "byte list" where
  "NV_GUEST_TASK_MAGIC_STR = [78, 86, 71, 85, 69, 83, 84, 84, 65, 83, 75]"
definition NV_GUEST_TASK_MAGIC_ID_LEN :: nat where "NV_GUEST_TASK_MAGIC_ID_LEN = 12"
definition NV_GUEST_TASK_HEAD_SIZE :: nat where "NV_GUEST_TASK_HEAD_SIZE = 0x20"
definition KEY_MIN_STACK_SIZE :: u32 where "KEY_MIN_STACK_SIZE = 1"
definition KEY_MIN_HEAP_SIZE :: u32 where "KEY_MIN_HEAP_SIZE = 2"
definition KEY_MAP_MEM :: u32 where "KEY_MAP_MEM = 3"

record trusty_app_props =
  pr_uuid :: "byte list"
  pr_vmid :: u32
  pr_min_stack_size :: u32
  pr_min_heap_size :: u32
  pr_map_io_mem_cnt :: u32
  pr_config_entry_cnt :: u32
  pr_config_blob :: nat

record trusty_app =
  ta_end_bss :: u64
  ta_start_brk :: u64
  ta_cur_brk :: u64
  ta_end_brk :: u64
  ta_props :: trusty_app_props
  ta_img :: nat
  ta_ut :: "uthread option"
  ta_als :: "u64 list"

record loader =
  ld_img :: image
  ld_start :: u64
  ld_paddr :: u64
  ld_image_end :: nat
  ld_image_size :: u32
  ld_apps :: "trusty_app list"
  ld_guest_count :: u32
  ld_debug_off :: bool
  ld_apps_started :: bool
  ld_notifiers :: "nat list"
  ld_als_slot_cnt :: u32
  ld_malloc :: "bool list"

text \<open>A zeroed entry of \<^verbatim>\<open>trusty_app_list\<close>.\<close>

definition zero_app :: trusty_app where
  "zero_app = \<lparr>ta_end_bss = 0, ta_start_brk = 0, ta_cur_brk = 0, ta_end_brk = 0,
     ta_props = \<lparr>pr_uuid = replicate 16 0, pr_vmid = 0, pr_min_stack_size = 0, pr_min_heap_size = 0,
       pr_map_io_mem_cnt = 0, pr_config_entry_cnt = 0, pr_config_blob = 0\<rparr>,
     ta_img = 0, ta_ut = None, ta_als = []\<rparr>"

text \<open>\<^verbatim>\<open>ROUNDUP\<close> in 32 bits.\<close>

definition roundup_u32 :: "u32 \<Rightarrow> u32 \<Rightarrow> u32" where
  "roundup_u32 a b = (a + (b - 1)) AND NOT (b - 1)"

section \<open>Registration\<close>

definition trusty_register_app_notifier :: "nat \<Rightarrow> loader \<Rightarrow> int \<times> loader" where
  "trusty_register_app_notifier n ld =
     (if \<not> ld_apps_started ld then (NO_ERROR, ld\<lparr>ld_notifiers := ld_notifiers ld @ [n]\<rparr>)
      else (ERR_ALREADY_STARTED, ld))"

definition trusty_als_alloc_slot :: "loader \<Rightarrow> int \<times> loader" where
  "trusty_als_alloc_slot ld =
     (if \<not> ld_apps_started ld
      then let n = ld_als_slot_cnt ld + 1 in (sint n, ld\<lparr>ld_als_slot_cnt := n\<rparr>)
      else (ERR_ALREADY_STARTED, ld))"

definition trusty_als_get :: "loader \<Rightarrow> trusty_app \<Rightarrow> int \<Rightarrow> u64 option" where
  "trusty_als_get ld app slot_id = (let slot = word_of_int (slot_id - 1) :: u32 in do {
     _ \<leftarrow> ASSERT (slot < ld_als_slot_cnt ld);
     _ \<leftarrow> ASSERT (unat slot < length (ta_als app));
     Some (ta_als app ! unat slot) })"

definition trusty_als_set :: "loader \<Rightarrow> trusty_app \<Rightarrow> int \<Rightarrow> u64 \<Rightarrow> trusty_app option" where
  "trusty_als_set ld app slot_id ptr = (let slot = word_of_int (slot_id - 1) :: u32 in do {
     _ \<leftarrow> ASSERT (slot < ld_als_slot_cnt ld);
     _ \<leftarrow> ASSERT (unat slot < length (ta_als app));
     Some (app\<lparr>ta_als := (ta_als app)[unat slot := ptr]\<rparr>) })"

section \<open>The manifest\<close>

fun config_loop :: "u32 list \<Rightarrow> trusty_app_props \<Rightarrow> trusty_app_props option" where
  "config_loop [] pr = Some pr"
| "config_loop (k # ws) pr =
     (if k = KEY_MIN_STACK_SIZE then
        (case ws of [] \<Rightarrow> None
         | v # ws \<Rightarrow> do {
             _ \<leftarrow> ASSERT (roundup_u32 v 4096 > 0);
             config_loop ws (pr\<lparr>pr_min_stack_size := roundup_u32 v 4096\<rparr>) })
      else if k = KEY_MIN_HEAP_SIZE then
        (case ws of [] \<Rightarrow> None
         | v # ws \<Rightarrow> do {
             _ \<leftarrow> ASSERT (roundup_u32 v 4096 > 0);
             config_loop ws (pr\<lparr>pr_min_heap_size := roundup_u32 v 4096\<rparr>) })
      else if k = KEY_MAP_MEM then
        (case ws of _ # _ # _ # ws \<Rightarrow> config_loop ws (pr\<lparr>pr_map_io_mem_cnt := pr_map_io_mem_cnt pr + 1\<rparr>)
         | _ \<Rightarrow> None)
      else None)"

definition load_app_config_options :: "image \<Rightarrow> nat \<Rightarrow> trusty_app \<Rightarrow> elf32_shdr \<Rightarrow> u32 \<Rightarrow> trusty_app option" where
  "load_app_config_options img image_addr app shdr vmid = do {
     _ \<leftarrow> ASSERT (sh_size shdr \<ge> 16);
     let manifest = image_addr + unat (sh_offset shdr);
     uuid \<leftarrow> rd_bytes img manifest 16;
     let cnt = (sh_size shdr - 16) div 4;
     let pr = (ta_props app)\<lparr>pr_min_heap_size := 4 * 4096, pr_min_stack_size := DEFAULT_STACK_SIZE,
                pr_vmid := vmid, pr_uuid := uuid, pr_config_entry_cnt := cnt\<rparr>;
     if cnt = 0 then Some (app\<lparr>ta_props := pr\<rparr>)
     else do {
       blob \<leftarrow> rd_words img (manifest + 16) (unat cnt);
       pr \<leftarrow> config_loop blob (pr\<lparr>pr_config_blob := manifest + 16\<rparr>);
       Some (app\<lparr>ta_props := pr\<rparr>) } }"

text \<open>
  The search of \<^verbatim>\<open>trusty_app_setup_mmio\<close>: the offset and the rounded size of the first request for the
  region.  Reading past the blob is a panic.
\<close>

fun mmio_loop :: "u32 list \<Rightarrow> u32 \<Rightarrow> (u32 \<times> u32) option option" where
  "mmio_loop [] mmio_id = Some None"
| "mmio_loop (k # ws) mmio_id =
     (if k = KEY_MAP_MEM then
        (case ws of i # off # sz # ws \<Rightarrow>
            if i \<noteq> mmio_id then mmio_loop ws mmio_id else Some (Some (off, roundup_u32 sz 4096))
         | _ \<Rightarrow> None)
      else case ws of [] \<Rightarrow> Some None | _ # ws \<Rightarrow> mmio_loop ws mmio_id)"

text \<open>\<open>vaddr\<close> is what \<^verbatim>\<open>*vaddr\<close> holds before; the result has what it holds afterwards.\<close>

definition trusty_app_setup_mmio :: "image \<Rightarrow> trusty_app \<Rightarrow> u32 \<Rightarrow> u64 \<Rightarrow> u32 \<Rightarrow> (int \<times> u64 \<times> trusty_app) option" where
  "trusty_app_setup_mmio img app mmio_id vaddr map_size = do {
     blob \<leftarrow> rd_words img (pr_config_blob (ta_props app)) (unat (pr_config_entry_cnt (ta_props app)));
     r \<leftarrow> mmio_loop blob mmio_id;
     case r of None \<Rightarrow> Some (ERR_NOT_FOUND, vaddr, app)
     | Some (off, sz) \<Rightarrow>
         let map_size = roundup_u32 map_size 4096 in
         if map_size > sz then Some (ERR_INVALID_ARGS, vaddr, app)
         else do {
           ut \<leftarrow> ta_ut app;
           (r, vaddr, ut) \<leftarrow> uthread_map_contig vaddr (ucast off) (ucast map_size) ((UTM_W OR UTM_R) OR UTM_IO)
                (ucast UT_MAP_ALIGN_4KB) ut;
           Some (r, vaddr, app\<lparr>ta_ut := Some ut\<rparr>) } }"

section \<open>The address space of an application\<close>

text \<open>\<open>heap\<close> is the physical address of the memory for the heap, if it is needed.\<close>

definition init_brk :: "u64 \<Rightarrow> trusty_app \<Rightarrow> (int \<times> trusty_app) option" where
  "init_brk heap app =
     (let app = app\<lparr>ta_cur_brk := ta_start_brk app\<rparr>;
          min_heap = ucast (pr_min_heap_size (ta_props app)) :: u64 in
      if ta_end_brk app - ta_start_brk app \<ge> min_heap then Some (NO_ERROR, app)
      else do {
        ut \<leftarrow> ta_ut app;
        let (ok, ut) = malloc_ok ut;
        if \<not> ok then Some (ERR_NO_MEMORY, app\<lparr>ta_ut := Some ut\<rparr>)
        else do {
          (status, vaddr, ut) \<leftarrow> uthread_map_contig (ta_end_brk app) heap min_heap ((UTM_W OR UTM_R) OR UTM_FIXED)
               (ucast UT_MAP_ALIGN_4KB) ut;
          let app = app\<lparr>ta_ut := Some ut\<rparr>;
          if status \<noteq> NO_ERROR \<or> vaddr \<noteq> ta_end_brk app then Some (ERR_NO_MEMORY, app)
          else Some (NO_ERROR, app\<lparr>ta_end_brk := ta_end_brk app + min_heap\<rparr>) } })"

definition PF_TO_UTM_FLAGS :: "u32 \<Rightarrow> u32" where
  "PF_TO_UTM_FLAGS x = ((if x AND PF_R \<noteq> 0 then UTM_R else 0) OR (if x AND PF_W \<noteq> 0 then UTM_W else 0)) OR
     (if x AND PF_X \<noteq> 0 then UTM_X else 0)"

text \<open>One turn of the loop over the program headers, and the loop; the size is rounded up in 64 bits.\<close>

definition page_round :: "u32 \<Rightarrow> u64" where
  "page_round m = (ucast m + 0xFFF) AND NOT 0xFFF"

definition load_segment :: "u64 \<Rightarrow> elf32_phdr \<Rightarrow> image \<times> trusty_app \<Rightarrow> (int \<times> image \<times> trusty_app) option" where
  "load_segment paddr0 ph = (\<lambda>(img, app).
     if ph_type ph \<noteq> PT_LOAD then Some (NO_ERROR, img, app)
     else if ph_vaddr ph < TRUSTY_APP_START_ADDR \<or> ucast (ph_vaddr ph) \<ge> ta_end_bss app
     then Some (NO_ERROR, img, app)
     else do {
       _ \<leftarrow> ASSERT (ph_vaddr ph AND 0xFFF = 0 \<and> ph_offset ph AND 0xFFF = 0);
       let sz = page_round (ph_memsz ph);
       let paddr = paddr0 + of_nat (ta_img app + unat (ph_offset ph));
       let flags = PF_TO_UTM_FLAGS (ph_flags ph) OR UTM_FIXED;
       ut \<leftarrow> ta_ut app;
       (ret, vaddr, ut) \<leftarrow> uthread_map_contig (ucast (ph_vaddr ph)) paddr sz flags (ucast UT_MAP_ALIGN_4KB) ut;
       let app = app\<lparr>ta_ut := Some ut\<rparr>;
       if ret \<noteq> 0 then Some (ret, img, app)
       else
         let stack_bot = ucast (TRUSTY_APP_STACK_TOP - pr_min_stack_size (ta_props app)) :: u64 in
         if stack_bot < vaddr + sz then Some (ERR_TOO_BIG, img, app)
         else
           let last_mem = ucast (ph_vaddr ph + ph_memsz ph) :: u64 in
           if last_mem > ta_start_brk app then do {
             let app = app\<lparr>ta_start_brk := last_mem, ta_end_brk := ucast (ph_vaddr ph) + sz\<rparr>;
             img \<leftarrow> img_memzero img (ta_img app + unat (ph_offset ph) + unat (ph_memsz ph)) (unat (sz - ucast (ph_memsz ph)));
             Some (NO_ERROR, img, app) }
           else Some (NO_ERROR, img, app) })"

function load_segments :: "u64 \<Rightarrow> nat \<Rightarrow> image \<times> trusty_app \<Rightarrow> (int \<times> image \<times> trusty_app) option" where
  "load_segments paddr0 i s = (case e_phnum (fst s) (ta_img (snd s)) of None \<Rightarrow> None
   | Some phnum \<Rightarrow>
       if i < unat phnum then do {
         phoff \<leftarrow> e_phoff (fst s) (ta_img (snd s));
         ph \<leftarrow> rd_phdr (fst s) (ta_img (snd s) + unat phoff + i * sizeof_phdr);
         (ret, s) \<leftarrow> load_segment paddr0 ph s;
         if ret \<noteq> 0 then Some (ret, s) else load_segments paddr0 (Suc i) s }
       else Some (NO_ERROR, s))"
  by pat_completeness auto

termination
proof (relation "measure (\<lambda>(paddr0, i, s). 2 ^ 16 - i)")
  fix paddr0 i s and phnum :: u16 and phoff ph x ret s'
  assume "i < unat phnum"
  moreover have "unat phnum < 2 ^ 16" using unsigned_less [of phnum] by simp
  ultimately show "((paddr0, Suc i, s'), (paddr0, i, s)) \<in> measure (\<lambda>(paddr0, i, s). 2 ^ 16 - i)" by simp
qed simp

declare load_segments.simps [simp del]

definition alloc_address_map :: "u64 \<Rightarrow> u64 \<Rightarrow> image \<Rightarrow> trusty_app \<Rightarrow> (int \<times> image \<times> trusty_app) option" where
  "alloc_address_map paddr0 heap img app = do {
     (ret, img, app) \<leftarrow> load_segments paddr0 0 (img, app);
     if ret \<noteq> 0 then Some (ret, img, app)
     else do {
       (ret, app) \<leftarrow> init_brk heap app;
       Some (ret, img, app) } }"

section \<open>Finding the applications\<close>

text \<open>\<open>eh\<close> is the address of the application's image; the result is the start of the next one.\<close>

definition align_next_app :: "nat \<Rightarrow> elf32_shdr option \<Rightarrow> u32 \<Rightarrow> loader \<Rightarrow> (nat \<times> loader) option" where
  "align_next_app eh pad_hdr max_extent ld = do {
     shoff \<leftarrow> e_shoff (ld_img ld) eh;
     _ \<leftarrow> ASSERT (roundup_u32 max_extent 4 = shoff);
     pad \<leftarrow> pad_hdr;
     shnum \<leftarrow> e_shnum (ld_img ld) eh;
     shentsize \<leftarrow> e_shentsize (ld_img ld) eh;
     let max_extent = (shoff + ucast shnum * ucast shentsize) - 1;
     _ \<leftarrow> ASSERT (eh + unat max_extent + 1 \<le> ld_image_end ld);
     let align_start = eh + unat (sh_offset pad) + unat (sh_size pad);
     let fsize_start = eh + unat max_extent + 1;
     _ \<leftarrow> ASSERT (align_start \<le> fsize_start);
     let copy_size = (of_nat (ld_image_end ld - fsize_start) :: u32);
     ld \<leftarrow> (if copy_size \<noteq> 0 then do {
               img \<leftarrow> img_memmove (ld_img ld) align_start fsize_start (unat copy_size);
               Some (ld\<lparr>ld_img := img, ld_image_end := ld_image_end ld - (fsize_start - align_start)\<rparr>) }
            else Some ld);
     Some (align_start, ld\<lparr>ld_image_size := ld_image_size ld - (max_extent + 1)\<rparr>) }"

text \<open>
  \<^verbatim>\<open>update_task_addr_with_vmid\<close>: \<open>addr\<close> and \<open>vmid\<close> are the values behind the pointers; the result is the
  status and the new number.
\<close>

definition update_task_addr_with_vmid :: "nat \<Rightarrow> u32 \<Rightarrow> loader \<Rightarrow> (int \<times> u32 \<times> loader) option" where
  "update_task_addr_with_vmid addr vmid ld = do {
     magic \<leftarrow> str_eq (ld_img ld) addr NV_GUEST_TASK_MAGIC_STR;
     if \<not> magic then Some (NO_ERROR, vmid, ld)
     else do {
       let ld = ld\<lparr>ld_guest_count := ld_guest_count ld + 1\<rparr>;
       let ld = (if ld_guest_count ld = 1 then ld\<lparr>ld_debug_off := True\<rparr> else ld);
       (v, endp) \<leftarrow> strtoul0 (ld_img ld) (addr + NV_GUEST_TASK_MAGIC_ID_LEN);
       let vmid = (ucast v :: u32);
       e \<leftarrow> rd8 (ld_img ld) endp;
       if e \<noteq> 0 then Some (ERR_INVALID_ARGS, vmid, ld)
       else do {
         let ld = ld\<lparr>ld_image_size := ld_image_size ld - of_nat NV_GUEST_TASK_HEAD_SIZE,
                     ld_image_end := ld_image_end ld - NV_GUEST_TASK_HEAD_SIZE\<rparr>;
         img \<leftarrow> img_memmove (ld_img ld) addr (addr + NV_GUEST_TASK_HEAD_SIZE) (unat (ld_image_size ld));
         Some (NO_ERROR, vmid, ld\<lparr>ld_img := img\<rparr>) } } }"

text \<open>
  What the loop over the section headers collects.  The headers it keeps are kept by value: they lie
  behind everything that is cleared before they are used again.
\<close>

record sections =
  sec_max_extent :: u32
  sec_bss :: "elf32_shdr option"
  sec_bss_pad :: "elf32_shdr option"
  sec_manifest :: "elf32_shdr option"
  sec_end_bss :: u64

definition str_bss :: "byte list" where "str_bss = [46, 98, 115, 115]"
definition str_bss_pad :: "byte list" where "str_bss_pad = [46, 98, 115, 115, 45, 112, 97, 100]"
definition str_manifest :: "byte list" where
  "str_manifest = [46, 116, 114, 117, 115, 116, 121, 95, 97, 112, 112, 46, 109, 97, 110, 105, 102, 101, 115, 116]"

definition scan_section :: "image \<Rightarrow> nat \<Rightarrow> elf32_shdr \<Rightarrow> sections \<Rightarrow> sections option" where
  "scan_section img shstbl sh s =
     (if sh_type sh = SHT_NULL then Some s
      else do {
        let name = shstbl + unat (sh_name sh);
        bss \<leftarrow> str_eq img name str_bss;
        s \<leftarrow> (if bss then Some (s\<lparr>sec_bss := Some sh, sec_end_bss := ucast (sh_addr sh + sh_size sh)\<rparr>)
              else do {
                pad \<leftarrow> str_eq img name str_bss_pad;
                if pad then Some (s\<lparr>sec_bss_pad := Some sh\<rparr>)
                else do {
                  manifest \<leftarrow> str_eq img name str_manifest;
                  Some (if manifest then s\<lparr>sec_manifest := Some sh\<rparr> else s) } });
        let extent = sh_offset sh + sh_size sh;
        Some (if sh_type sh \<noteq> SHT_NOBITS \<and> sec_max_extent s < extent
              then s\<lparr>sec_max_extent := extent\<rparr> else s) })"

fun scan_sections :: "image \<Rightarrow> nat \<Rightarrow> nat \<Rightarrow> nat \<Rightarrow> sections \<Rightarrow> sections option" where
  "scan_sections img shstbl a 0 s = Some s"
| "scan_sections img shstbl a (Suc n) s = do {
     sh \<leftarrow> rd_shdr img a;
     s \<leftarrow> scan_section img shstbl sh s;
     scan_sections img shstbl (a + sizeof_shdr) n s }"

text \<open>
  One turn of the loop of \<^verbatim>\<open>trusty_app_bootloader\<close> up to the check of the number of applications:
  \<open>None\<close> inside the result is the \<^verbatim>\<open>break\<close> when there is no ELF header, otherwise it is the application
  with the start of the next one and the guest number.
\<close>

definition boot_step :: "nat \<Rightarrow> u32 \<Rightarrow> loader \<Rightarrow> ((trusty_app \<times> nat \<times> u32) option \<times> loader) option" where
  "boot_step addr vmid ld = do {
     (ret, vmid, ld) \<leftarrow> update_task_addr_with_vmid addr vmid ld;
     _ \<leftarrow> ASSERT (ret = NO_ERROR);
     elf \<leftarrow> strn_eq (ld_img ld) addr ELFMAG;
     if \<not> elf then Some (None, ld)
     else do {
       shoff \<leftarrow> e_shoff (ld_img ld) addr;
       strndx \<leftarrow> e_shstrndx (ld_img ld) addr;
       strhdr \<leftarrow> rd_shdr (ld_img ld) (addr + unat shoff + unat strndx * sizeof_shdr);
       shnum \<leftarrow> e_shnum (ld_img ld) addr;
       sec \<leftarrow> scan_sections (ld_img ld) (addr + unat (sh_offset strhdr)) (addr + unat shoff) (unat shnum)
                \<lparr>sec_max_extent = 0, sec_bss = None, sec_bss_pad = None, sec_manifest = None, sec_end_bss = 0\<rparr>;
       bss \<leftarrow> sec_bss sec;
       _ \<leftarrow> sec_bss_pad sec;
       manifest \<leftarrow> sec_manifest sec;
       _ \<leftarrow> ASSERT (sh_offset bss + sh_size bss \<le> sec_max_extent sec);
       img \<leftarrow> img_memzero (ld_img ld) (addr + unat (sh_offset bss)) (unat (sh_size bss));
       app \<leftarrow> load_app_config_options img addr (zero_app\<lparr>ta_end_bss := sec_end_bss sec\<rparr>) manifest vmid;
       (next_addr, ld) \<leftarrow> align_next_app addr (sec_bss_pad sec) (sec_max_extent sec) (ld\<lparr>ld_img := img\<rparr>);
       Some (Some (app\<lparr>ta_img := addr\<rparr>, next_addr, vmid), ld) } }"

function boot_loop :: "nat \<Rightarrow> u32 \<Rightarrow> loader \<Rightarrow> loader option" where
  "boot_loop addr vmid ld =
     (if ld_image_size ld = 0 then Some ld
      else case boot_step addr vmid ld of None \<Rightarrow> None
      | Some (None, ld') \<Rightarrow> Some ld'
      | Some (Some (app, addr', vmid'), ld') \<Rightarrow>
          if length (ld_apps ld) + 1 < MAX_TRUSTY_APP_COUNT
          then boot_loop addr' vmid' (ld'\<lparr>ld_apps := ld_apps ld @ [app]\<rparr>)
          else None)"
  by pat_completeness auto

termination
  by (relation "measure (\<lambda>(addr, vmid, ld). MAX_TRUSTY_APP_COUNT - length (ld_apps ld))") simp_all

declare boot_loop.simps [simp del]

text \<open>The list is allocated only when there is an image; its memory is used without a check.\<close>

definition ld_alloc :: "loader \<Rightarrow> bool \<times> loader" where
  "ld_alloc ld = (case ld_malloc ld of [] \<Rightarrow> (True, ld) | b # bs \<Rightarrow> (b, ld\<lparr>ld_malloc := bs\<rparr>))"

definition trusty_app_bootloader :: "loader \<Rightarrow> loader option" where
  "trusty_app_bootloader ld =
     (if ld_image_size ld = 0 then Some ld
      else let (ok, ld) = ld_alloc ld in
        if ok then boot_loop 0 0 (ld\<lparr>ld_apps := []\<rparr>) else None)"

text \<open>
  The second loop of \<^verbatim>\<open>trusty_app_init\<close>: \<open>env i\<close> is the zeroed thread of application \<open>i\<close> with its
  surroundings, \<open>mem i\<close> the physical addresses of its stack and of its heap, \<open>startup n\<close> what the startup
  function of a notifier returns for an application and makes of it.
\<close>

fun run_notifiers :: "(nat \<Rightarrow> trusty_app \<Rightarrow> int \<times> trusty_app) \<Rightarrow> nat list \<Rightarrow> trusty_app \<Rightarrow> trusty_app option" where
  "run_notifiers startup [] app = Some app"
| "run_notifiers startup (n # ns) app =
     (let (ret, app) = startup n app in if ret \<noteq> NO_ERROR then None else run_notifiers startup ns app)"

definition init_app :: "uthread \<Rightarrow> u64 \<times> u64 \<Rightarrow> (nat \<Rightarrow> trusty_app \<Rightarrow> int \<times> trusty_app) \<Rightarrow> trusty_app \<Rightarrow> loader
    \<Rightarrow> (trusty_app \<times> loader) option" where
  "init_app ut0 mem startup app ld = do {
     entry \<leftarrow> e_entry (ld_img ld) (ta_img app);
     t \<leftarrow> uthread_create (ucast entry) (ucast TRUSTY_APP_STACK_TOP) (ucast (pr_min_stack_size (ta_props app)))
            (fst mem) ut0;
     ut \<leftarrow> t;
     (ret, img, app) \<leftarrow> alloc_address_map (ld_paddr ld) (snd mem) (ld_img ld) (app\<lparr>ta_ut := Some ut\<rparr>);
     _ \<leftarrow> ASSERT (ret = NO_ERROR);
     let ld = ld\<lparr>ld_img := img\<rparr>;
     let (ok, ld) = ld_alloc ld;
     _ \<leftarrow> ASSERT ok;
     let app = app\<lparr>ta_als := replicate (unat (ld_als_slot_cnt ld)) 0\<rparr>;
     app \<leftarrow> run_notifiers startup (ld_notifiers ld) app;
     Some (app, ld) }"

fun init_apps :: "(nat \<Rightarrow> uthread) \<Rightarrow> (nat \<Rightarrow> u64 \<times> u64) \<Rightarrow> (nat \<Rightarrow> trusty_app \<Rightarrow> int \<times> trusty_app) \<Rightarrow> nat \<Rightarrow> trusty_app list \<Rightarrow> loader
    \<Rightarrow> (trusty_app list \<times> loader) option" where
  "init_apps env mem startup i [] ld = Some ([], ld)"
| "init_apps env mem startup i (app # apps) ld = do {
     (app, ld) \<leftarrow> init_app (env i) (mem i) startup app ld;
     (apps, ld) \<leftarrow> init_apps env mem startup (Suc i) apps ld;
     Some (app # apps, ld) }"

definition trusty_app_init :: "(nat \<Rightarrow> uthread) \<Rightarrow> (nat \<Rightarrow> u64 \<times> u64) \<Rightarrow> (nat \<Rightarrow> trusty_app \<Rightarrow> int \<times> trusty_app) \<Rightarrow> loader \<Rightarrow> loader option" where
  "trusty_app_init env mem startup ld = do {
     let ld = ld\<lparr>ld_image_end := length (ld_img ld), ld_image_size := of_nat (length (ld_img ld))\<rparr>;
     _ \<leftarrow> ASSERT (ld_start ld AND 0xFFF = 0);
     ld \<leftarrow> trusty_app_bootloader (ld\<lparr>ld_apps_started := True\<rparr>);
     (apps, ld) \<leftarrow> init_apps env mem startup 0 (ld_apps ld) ld;
     Some (ld\<lparr>ld_apps := apps\<rparr>) }"

text \<open>\<^verbatim>\<open>memcmp\<close> of the 16 bytes; the result is the entry's index.\<close>

definition trusty_app_find_by_uuid :: "byte list \<Rightarrow> u32 \<Rightarrow> loader \<Rightarrow> nat option" where
  "trusty_app_find_by_uuid uuid vmid ld =
     find (\<lambda>i. pr_uuid (ta_props (ld_apps ld ! i)) = uuid \<and> pr_vmid (ta_props (ld_apps ld ! i)) = vmid)
       [0..<length (ld_apps ld)]"

end
