(* ===== verification/AppProperties.thy ===== *)
theory AppProperties
  imports AppLoader AddressSpace
begin

text \<open>
  What the loader guarantees: the manifest parser accepts exactly the encodings of lists of entries, an
  application can map only the I/O memory its manifest lists, loading one application leaves the
  images of those before it alone, and the heap of a loaded application is mapped.
\<close>

section \<open>The manifest as a language\<close>

datatype manifest_entry = MinStack u32 | MinHeap u32 | MapMem u32 u32 u32

fun encode_entry :: "manifest_entry \<Rightarrow> u32 list" where
  "encode_entry (MinStack v) = [KEY_MIN_STACK_SIZE, v]"
| "encode_entry (MinHeap v) = [KEY_MIN_HEAP_SIZE, v]"
| "encode_entry (MapMem i off sz) = [KEY_MAP_MEM, i, off, sz]"

fun entry_ok :: "manifest_entry \<Rightarrow> bool" where
  "entry_ok (MinStack v) = (roundup_u32 v 4096 > 0)"
| "entry_ok (MinHeap v) = (roundup_u32 v 4096 > 0)"
| "entry_ok (MapMem i off sz) = True"

fun apply_entry :: "manifest_entry \<Rightarrow> trusty_app_props \<Rightarrow> trusty_app_props" where
  "apply_entry (MinStack v) pr = pr\<lparr>pr_min_stack_size := roundup_u32 v 4096\<rparr>"
| "apply_entry (MinHeap v) pr = pr\<lparr>pr_min_heap_size := roundup_u32 v 4096\<rparr>"
| "apply_entry (MapMem i off sz) pr = pr\<lparr>pr_map_io_mem_cnt := pr_map_io_mem_cnt pr + 1\<rparr>"

abbreviation encode :: "manifest_entry list \<Rightarrow> u32 list" where
  "encode es \<equiv> concat (map encode_entry es)"

lemmas key_defs = KEY_MIN_STACK_SIZE_def KEY_MIN_HEAP_SIZE_def KEY_MAP_MEM_def

lemma config_loop_encode:
  "list_all entry_ok es \<Longrightarrow> config_loop (encode es) pr = Some (fold apply_entry es pr)"
proof (induction es arbitrary: pr)
  case (Cons e es)
  then show ?case by (cases e) (simp_all add: key_defs)
qed simp

lemma config_loop_decode:
  "config_loop ws pr = Some pr' \<Longrightarrow> \<exists>es. ws = encode es \<and> list_all entry_ok es \<and> pr' = fold apply_entry es pr"
proof (induction ws pr rule: config_loop.induct)
  case (1 pr)
  then show ?case by (intro exI [of _ "[]"]) simp
next
  case (2 k ws pr)
  consider (stack) v ws' where "k = KEY_MIN_STACK_SIZE" "ws = v # ws'" "roundup_u32 v 4096 > 0"
      "config_loop ws' (pr\<lparr>pr_min_stack_size := roundup_u32 v 4096\<rparr>) = Some pr'"
    | (heap) v ws' where "k = KEY_MIN_HEAP_SIZE" "k \<noteq> KEY_MIN_STACK_SIZE" "ws = v # ws'" "roundup_u32 v 4096 > 0"
      "config_loop ws' (pr\<lparr>pr_min_heap_size := roundup_u32 v 4096\<rparr>) = Some pr'"
    | (mem) i off sz ws' where "k = KEY_MAP_MEM" "k \<noteq> KEY_MIN_STACK_SIZE" "k \<noteq> KEY_MIN_HEAP_SIZE" "ws = i # off # sz # ws'"
      "config_loop ws' (pr\<lparr>pr_map_io_mem_cnt := pr_map_io_mem_cnt pr + 1\<rparr>) = Some pr'"
    using "2.prems" by (auto simp: bind_Some_iff split: if_splits list.splits)
  then show ?case
  proof cases
    case stack
    from "2.IH"(1) [OF stack(1,2) _ stack(4)] stack(3) obtain es where
      "ws' = encode es" "list_all entry_ok es" "pr' = fold apply_entry es (apply_entry (MinStack v) pr)" by auto
    then show ?thesis using stack by (intro exI [of _ "MinStack v # es"]) simp
  next
    case heap
    from "2.IH"(2) [OF heap(2,1,3) _ heap(5)] heap(4) obtain es where
      "ws' = encode es" "list_all entry_ok es" "pr' = fold apply_entry es (apply_entry (MinHeap v) pr)" by auto
    then show ?thesis using heap by (intro exI [of _ "MinHeap v # es"]) simp
  next
    case mem
    from "2.IH"(3) [OF mem(2,3,1,4) refl refl mem(5)] obtain es where
      "ws' = encode es" "list_all entry_ok es" "pr' = fold apply_entry es (apply_entry (MapMem i off sz) pr)" by auto
    then show ?thesis using mem by (intro exI [of _ "MapMem i off sz # es"]) simp
  qed
qed

text \<open>
  Property C36. The manifest parser accepts exactly the encodings of lists of entries whose stack and heap
  sizes round up to a non-zero number of bytes in 32 bits, and leaves the settings that applying the
  entries in order gives; a truncated entry, an unknown key and a size that wraps to 0 are panics.
\<close>

theorem manifest_parser_exact:
  "config_loop ws pr = Some pr' \<longleftrightarrow>
    (\<exists>es. ws = concat (map encode_entry es) \<and> list_all entry_ok es \<and> pr' = fold apply_entry es pr)"
  using config_loop_encode config_loop_decode by auto

section \<open>I/O memory\<close>

fun first_region :: "u32 \<Rightarrow> manifest_entry list \<Rightarrow> (u32 \<times> u32) option" where
  "first_region i [] = None"
| "first_region i (MapMem j off sz # es) = (if i = j then Some (off, sz) else first_region i es)"
| "first_region i (e # es) = first_region i es"

lemma first_region_mem: "first_region i es = Some (off, sz) \<Longrightarrow> MapMem i off sz \<in> set es"
  by (induction i es rule: first_region.induct) (auto split: if_splits)

lemma mmio_loop_encode:
  "mmio_loop (encode es) i = Some (map_option (\<lambda>(off, sz). (off, roundup_u32 sz 4096)) (first_region i es))"
proof (induction es)
  case (Cons e es)
  then show ?case by (cases e) (auto simp: key_defs)
qed simp

lemma contig_flag: "(f OR UTM_PHYS_CONTIG) AND UTM_PHYS_CONTIG \<noteq> 0"
proof -
  have "bit ((f OR UTM_PHYS_CONTIG) AND UTM_PHYS_CONTIG) 5" by (simp add: UTM_PHYS_CONTIG_def bit_simps)
  then show ?thesis by auto
qed

text \<open>A contiguous mapping, by what \<^verbatim>\<open>map_then_translate\<close> rests on.\<close>

lemma contig_translate:
  assumes "maps_ok (ut_maps ut)" "uthread_map_contig v pa sz flags align ut = Some (NO_ERROR, va, ut')" "sz < 2 ^ 44"
  shows "off < sz \<Longrightarrow> uthread_virt_to_phys ut' (va + off) = Some (NO_ERROR, pa + off)"
    "\<not> (va \<le> a \<and> a < va + sz) \<Longrightarrow> uthread_virt_to_phys ut' a = uthread_virt_to_phys ut a"
proof -
  let ?f = "flags OR UTM_PHYS_CONTIG"
  let ?m = "new_map va [pa] sz ?f align"
  obtain pre post where m: "ut_maps ut = pre @ post" "ut_maps ut' = pre @ ?m # post" "mp_ok ?m"
      "frames sz ?f \<le> length [pa]" "maps_ok (ut_maps ut')"
    using uthread_map_op_inserts [OF assms(1) assms(2) [unfolded uthread_map_contig_def]] by (elim exE conjE) (rule that; assumption)
  have sz: "unat sz < 2 ^ 44" using assms(3) by (simp add: word_less_nat_alt)
  show "uthread_virt_to_phys ut' (va + off) = Some (NO_ERROR, pa + off)" if "off < sz"
    using virt_to_phys_in [OF m(5), of ?m off] new_map_translate [OF m(3) sz that _ m(4)] sz that m(2)
      contig_flag [of flags] by (simp add: word_less_nat_alt)
  show "uthread_virt_to_phys ut' a = uthread_virt_to_phys ut a" if "\<not> (va \<le> a \<and> a < va + sz)"
    using that by (intro virt_to_phys_find) (auto simp: m(1,2) map_covers_def intro: find_skip)
qed

text \<open>
  Property C37. An application can map only the I/O memory its manifest lists: when \<^verbatim>\<open>trusty_app_setup_mmio\<close>
  succeeds for an application whose manifest the loader accepted, the manifest has an entry with the
  given identifier, the size asked for (in pages) is at most the entry's, the new range translates to
  the entry's physical range from its start on, and no other address changes its translation.
\<close>

theorem mmio_confined_to_manifest:
  assumes "rd_words img (pr_config_blob (ta_props app)) (unat (pr_config_entry_cnt (ta_props app))) = Some ws"
    "config_loop ws pr = Some pr'" "ta_ut app = Some ut" "uspace ut"
    "trusty_app_setup_mmio img app mmio_id v n = Some (NO_ERROR, va, app')"
  shows "\<exists>es off sz ut'. ws = concat (map encode_entry es) \<and> MapMem mmio_id off sz \<in> set es \<and>
    roundup_u32 n 4096 \<le> roundup_u32 sz 4096 \<and> ta_ut app' = Some ut' \<and>
    (\<forall>o' < ucast (roundup_u32 n 4096). uthread_virt_to_phys ut' (va + o') = Some (NO_ERROR, ucast off + o')) \<and>
    (\<forall>a. \<not> (va \<le> a \<and> a < va + ucast (roundup_u32 n 4096)) \<longrightarrow>
      uthread_virt_to_phys ut' a = uthread_virt_to_phys ut a)"
proof -
  obtain es where es: "ws = encode es" using config_loop_decode [OF assms(2)] by blast
  obtain off sz where r: "first_region mmio_id es = Some (off, sz)"
    using assms(1,5) es by (cases "first_region mmio_id es")
      (auto simp: trusty_app_setup_mmio_def mmio_loop_encode bind_Some_iff err_simps)
  let ?n = "roundup_u32 n 4096"
  obtain ut' where m: "?n \<le> roundup_u32 sz 4096" "ta_ut app' = Some ut'"
      "uthread_map_contig v (ucast off) (ucast ?n) ((UTM_W OR UTM_R) OR UTM_IO) (ucast UT_MAP_ALIGN_4KB) ut = Some (NO_ERROR, va, ut')"
    using assms(1,3,5) es r by (auto simp: trusty_app_setup_mmio_def mmio_loop_encode bind_Some_iff Let_def err_simps
        split: if_splits)
  have "unat ?n < 2 ^ 32" using unsigned_less [of ?n] by simp
  then have "(ucast ?n :: u64) < 2 ^ 44" by (simp add: word_less_nat_alt unsigned_ucast_eq take_bit_nat_eq_self)
  from contig_translate [OF uspace_maps_ok [OF assms(4)] m(3) this]
  show ?thesis using es first_region_mem [OF r] m(1,2)
    by (intro exI [of _ es] exI [of _ off] exI [of _ sz] exI [of _ ut']) blast
qed

section \<open>Loading\<close>

text \<open>What is below the address a step starts at stays as it is.\<close>

lemma update_task_frame:
  "update_task_addr_with_vmid addr vmid ld = Some (r, vmid', ld') \<Longrightarrow>
    take addr (ld_img ld') = take addr (ld_img ld) \<and> ld_apps ld' = ld_apps ld"
  by (auto simp: update_task_addr_with_vmid_def bind_Some_iff Let_def img_memmove_frame split: if_splits prod.splits)

lemma align_next_app_frame:
  "align_next_app eh pad ext ld = Some (a, ld') \<Longrightarrow>
    take eh (ld_img ld') = take eh (ld_img ld) \<and> ld_apps ld' = ld_apps ld \<and> eh \<le> a"
  by (auto simp: align_next_app_def bind_Some_iff Let_def img_memmove_frame split: if_splits)

lemma boot_step_frame:
  assumes "boot_step addr vmid ld = Some (r, ld')"
  shows "take addr (ld_img ld') = take addr (ld_img ld) \<and> ld_apps ld' = ld_apps ld \<and>
    (case r of None \<Rightarrow> True | Some (app, addr', vmid') \<Rightarrow> addr \<le> addr' \<and> ta_img app = addr)"
proof -
  obtain st vmid1 ld1 where u: "update_task_addr_with_vmid addr vmid ld = Some (st, vmid1, ld1)"
    using assms by (auto simp: boot_step_def bind_Some_iff)
  note u' = update_task_frame [OF u]
  show ?thesis
  proof (cases r)
    case None
    then show ?thesis using assms u u' by (auto simp: boot_step_def bind_Some_iff Let_def split: if_splits)
  next
    case (Some t)
    then obtain img sz pad ext app where a: "img_memzero (ld_img ld1) (addr + sz) (fst pad) = Some img"
        "align_next_app addr (snd pad) ext (ld1\<lparr>ld_img := img\<rparr>) = Some (fst (snd t), ld')" "fst t = app\<lparr>ta_img := addr\<rparr>"
      using assms u by (auto simp: boot_step_def bind_Some_iff Let_def split: if_splits)
    have "take addr img = take addr (ld_img ld1)" using img_memzero_frame [OF a(1)] by simp
    then show ?thesis using align_next_app_frame [OF a(2)] a(3) u' Some by (auto split: prod.splits)
  qed
qed

lemma take_mono_eq: "take b xs = take b ys \<Longrightarrow> a \<le> b \<Longrightarrow> take a xs = take a ys"
  by (metis min.absorb1 take_take)

text \<open>One turn of the loop that goes on: an application is found and fits in the table.\<close>

inductive boot_turn :: "nat \<times> u32 \<times> loader \<Rightarrow> nat \<times> u32 \<times> loader \<Rightarrow> bool" where
  "boot_turn (addr, vmid, ld) (addr', vmid', ld'\<lparr>ld_apps := ld_apps ld @ [app]\<rparr>)"
  if "ld_image_size ld \<noteq> 0" "boot_step addr vmid ld = Some (Some (app, addr', vmid'), ld')"
    "length (ld_apps ld) + 1 < MAX_TRUSTY_APP_COUNT"

text \<open>How the loop ends: the image is used up, there is no ELF header, or a turn panics.\<close>

definition boot_end :: "nat \<Rightarrow> u32 \<Rightarrow> loader \<Rightarrow> loader option \<Rightarrow> bool" where
  "boot_end addr vmid ld r \<longleftrightarrow>
     ld_image_size ld = 0 \<and> r = Some ld \<or>
     ld_image_size ld \<noteq> 0 \<and>
       ((\<exists>ld'. boot_step addr vmid ld = Some (None, ld') \<and> r = Some ld') \<or>
        boot_step addr vmid ld = None \<and> r = None \<or>
        (\<exists>t ld'. boot_step addr vmid ld = Some (Some t, ld')) \<and> MAX_TRUSTY_APP_COUNT \<le> length (ld_apps ld) + 1 \<and> r = None)"

lemma boot_loop_cases:
  obtains (go) app addr' vmid' ld' where "boot_step addr vmid ld = Some (Some (app, addr', vmid'), ld')"
      "boot_turn (addr, vmid, ld) (addr', vmid', ld'\<lparr>ld_apps := ld_apps ld @ [app]\<rparr>)"
      "ld_image_size ld \<noteq> 0" "length (ld_apps ld) + 1 < MAX_TRUSTY_APP_COUNT"
      "boot_loop addr vmid ld = boot_loop addr' vmid' (ld'\<lparr>ld_apps := ld_apps ld @ [app]\<rparr>)"
    | (stop) "boot_end addr vmid ld (boot_loop addr vmid ld)"
proof (cases "\<exists>app addr' vmid' ld'. ld_image_size ld \<noteq> 0 \<and> length (ld_apps ld) + 1 < MAX_TRUSTY_APP_COUNT \<and>
    boot_step addr vmid ld = Some (Some (app, addr', vmid'), ld')")
  case True
  then show ?thesis using go boot_turn.intros by (auto simp: boot_loop.simps [of addr vmid ld])
next
  case False
  show ?thesis
  proof (rule stop, cases "ld_image_size ld = 0")
    case size: False
    show "boot_end addr vmid ld (boot_loop addr vmid ld)"
    proof (cases "boot_step addr vmid ld")
      case (Some r)
      with False size show ?thesis by (cases "fst r"; cases r) (auto simp: boot_end_def boot_loop.simps [of addr vmid ld])
    qed (simp add: boot_end_def boot_loop.simps [of addr vmid ld] size)
  qed (simp add: boot_end_def boot_loop.simps [of addr vmid ld])
qed

lemma boot_end_frame:
  "boot_end addr vmid ld (Some ld') \<Longrightarrow> take addr (ld_img ld') = take addr (ld_img ld) \<and> ld_apps ld' = ld_apps ld"
  by (auto simp: boot_end_def dest: boot_step_frame)

text \<open>
  Property C38. The boot loop ends for every image: it makes \<open>n\<close> full turns, one application each and all
  of them together fewer than fit in the page of their table, and then it returns, because the
  image is used up or has no further ELF header, or panics, because the next application is malformed (an
  assertion or an access outside the image) or one too many.  And loading writes
  nothing below the address it starts at, so the images of the applications before it (which end below
  that) stay as they were when their manifests were read, and the list of applications only grows.
\<close>

theorem boot_loop_keeps_loaded:
  assumes "length (ld_apps ld) < MAX_TRUSTY_APP_COUNT"
  shows "\<exists>n addr1 vmid1 ld1 apps. (boot_turn ^^ n) (addr, vmid, ld) (addr1, vmid1, ld1) \<and>
    boot_end addr1 vmid1 ld1 (boot_loop addr vmid ld) \<and>
    addr \<le> addr1 \<and> take addr (ld_img ld1) = take addr (ld_img ld) \<and>
    ld_apps ld1 = ld_apps ld @ apps \<and> length apps = n \<and> length (ld_apps ld) + n < MAX_TRUSTY_APP_COUNT \<and>
    (\<forall>app\<in>set apps. addr \<le> ta_img app) \<and>
    (\<forall>ld'. boot_loop addr vmid ld = Some ld' \<longrightarrow>
      take addr (ld_img ld') = take addr (ld_img ld) \<and> ld_apps ld' = ld_apps ld1)"
  using assms
proof (induction addr vmid ld rule: boot_loop.induct)
  case (1 addr vmid ld)
  show ?case
  proof (cases rule: boot_loop_cases [of addr vmid ld])
    case (go app addr' vmid' ld')
    let ?ld = "ld'\<lparr>ld_apps := ld_apps ld @ [app]\<rparr>"
    note f = boot_step_frame [OF go(1), simplified]
    have "length (ld_apps ?ld) < MAX_TRUSTY_APP_COUNT" using go(4) by simp
    from "1.IH" [OF go(3,1) refl refl refl refl go(4) this] obtain n addr1 vmid1 ld1 apps where
      r: "(boot_turn ^^ n) (addr', vmid', ?ld) (addr1, vmid1, ld1)" "boot_end addr1 vmid1 ld1 (boot_loop addr' vmid' ?ld)"
        "addr' \<le> addr1" "take addr' (ld_img ld1) = take addr' (ld_img ?ld)" "ld_apps ld1 = ld_apps ?ld @ apps"
        "length apps = n" "length (ld_apps ?ld) + n < MAX_TRUSTY_APP_COUNT" "\<forall>app\<in>set apps. addr' \<le> ta_img app"
      and e: "\<forall>l. boot_loop addr' vmid' ?ld = Some l \<longrightarrow> take addr' (ld_img l) = take addr' (ld_img ?ld) \<and> ld_apps l = ld_apps ld1"
      by (elim exE conjE) (rule that; assumption)
    have low: "take addr (ld_img l) = take addr (ld_img ld)" if "take addr' (ld_img l) = take addr' (ld_img ld')" for l
      using take_mono_eq [OF that] f by simp
    show ?thesis unfolding go(5)
    proof (intro exI conjI allI impI)
      show "(boot_turn ^^ Suc n) (addr, vmid, ld) (addr1, vmid1, ld1)" by (rule relpowp_Suc_I2 [OF go(2) r(1)])
      show "ld_apps ld1 = ld_apps ld @ (app # apps)" using r(5) by simp
      show "\<forall>a\<in>set (app # apps). addr \<le> ta_img a" using r(8) f by auto
      show "take addr (ld_img l) = take addr (ld_img ld)" "ld_apps l = ld_apps ld1" if "boot_loop addr' vmid' ?ld = Some l" for l
        using e [rule_format, OF that] low [of l] by simp_all
    qed (use r(2-7) f low [of ld1] in simp_all)
  next
    case stop
    then show ?thesis using "1.prems" boot_end_frame
      by (intro exI [of _ 0] exI [of _ addr] exI [of _ vmid] exI [of _ ld] exI [of _ "[]"]) auto
  qed
qed

text \<open>
  A guest header (\<^verbatim>\<open>NVGUESTTASK\<close>, guest 7) behind four bytes of an earlier application, and no ELF header
  after it: the header is removed and the loop ends.
\<close>

definition guest_ld :: loader where
  "guest_ld = \<lparr>ld_img = [1, 2, 3, 4] @ NV_GUEST_TASK_MAGIC_STR @ [0, 55] @ replicate 19 0 @ [9, 8, 7, 6], ld_start = 0x10000,
     ld_paddr = 0x30010000, ld_image_end = 40, ld_image_size = 36, ld_apps = [], ld_guest_count = 0,
     ld_debug_off = False, ld_apps_started = False, ld_notifiers = [], ld_als_slot_cnt = 1, ld_malloc = []\<rparr>"

theorem boot_loop_keeps_loaded_witness:
  "\<exists>ld'. boot_loop 4 0 guest_ld = Some ld' \<and> take 4 (ld_img ld') = [1, 2, 3, 4] \<and> ld_img ld' ! 4 = 9"
proof -
  have r: "map_option (\<lambda>ld. ld_img ld ! 4) (boot_loop 4 0 guest_ld) = Some 9" by code_simp
  then obtain ld' where ld': "boot_loop 4 0 guest_ld = Some ld'" "ld_img ld' ! 4 = 9" by auto
  have "length (ld_apps guest_ld) < MAX_TRUSTY_APP_COUNT"
    by (simp add: guest_ld_def MAX_TRUSTY_APP_COUNT_def PAGE_SIZE_def sizeof_trusty_app_def)
  from boot_loop_keeps_loaded [OF this, of 4 0] have "take 4 (ld_img ld') = take 4 (ld_img guest_ld)"
    using ld'(1) by blast
  then show ?thesis using ld' by (simp add: guest_ld_def)
qed

text \<open>A manifest with one region, 7, and the thread of \<^const>\<open>as_ut2\<close>.\<close>

definition io_img :: image where
  "io_img = concat (map le32_bytes [KEY_MAP_MEM, 7, 0xC000000, 0x2000])"

definition io_app :: trusty_app where
  "io_app = zero_app\<lparr>ta_ut := Some as_ut2, ta_props := (ta_props zero_app)\<lparr>pr_config_entry_cnt := 4\<rparr>\<rparr>"

theorem mmio_confined_to_manifest_witness:
  "\<exists>va app' ut'. trusty_app_setup_mmio io_img io_app 7 0 0x1000 = Some (NO_ERROR, va, app') \<and> ta_ut app' = Some ut' \<and>
    uthread_virt_to_phys ut' (va + 0x10) = Some (NO_ERROR, 0xC000010)"
proof -
  have b: "rd_words io_img (pr_config_blob (ta_props io_app)) (unat (pr_config_entry_cnt (ta_props io_app))) =
      Some [KEY_MAP_MEM, 7, 0xC000000, 0x2000]" by code_simp
  have c: "\<exists>pr'. config_loop [KEY_MAP_MEM, 7, 0xC000000, 0x2000] (ta_props zero_app) = Some pr'"
    by (simp add: key_defs)
  have "map_option (\<lambda>(r, va, _). (r, va)) (trusty_app_setup_mmio io_img io_app 7 0 0x1000) = Some (NO_ERROR, 0x1002000)"
    unfolding io_app_def as_ut2_def as_ut_def by code_simp
  then obtain app' where r: "trusty_app_setup_mmio io_img io_app 7 0 0x1000 = Some (NO_ERROR, 0x1002000, app')" by auto
  from c obtain pr' where c': "config_loop [KEY_MAP_MEM, 7, 0xC000000, 0x2000] (ta_props zero_app) = Some pr'" by blast
  from mmio_confined_to_manifest [OF b c' _ as_ut2_reached r]
  obtain es off sz ut' where p: "[KEY_MAP_MEM, 7, 0xC000000, 0x2000] = encode es" "MapMem 7 off sz \<in> set es" "ta_ut app' = Some ut'"
      "\<forall>o' < ucast (roundup_u32 0x1000 4096). uthread_virt_to_phys ut' (0x1002000 + o') = Some (NO_ERROR, ucast off + o')"
    by (auto simp: io_app_def)
  have "off = 0xC000000" using p(1,2) by (cases es; cases "hd es") (auto simp: key_defs)
  moreover have "ucast (roundup_u32 0x1000 4096) = (0x1000 :: u64)" by (simp add: roundup_u32_def)
  ultimately show ?thesis using r p(3) p(4) [rule_format, of "0x10"] by auto
qed

section \<open>The heap of a loaded application\<close>

lemma uspace_malloc: "uspace ut \<Longrightarrow> uspace (snd (malloc_ok ut))"
proof -
  assume u: "uspace ut"
  have "snd (malloc_ok ut) = ut\<lparr>ut_malloc := tl (ut_malloc ut), ut_arch := ut_arch ut\<rparr>"
    by (cases "ut_malloc ut") (simp_all add: malloc_ok_def)
  then show ?thesis using uspace.env [OF u, of "ut_arch ut" "tl (ut_malloc ut)"] by (simp only:)
qed

lemma uthread_map_contig_inserts:
  assumes "uspace ut" "uthread_map_contig v pa sz f a ut = Some (NO_ERROR, va, ut')"
  shows "uspace ut' \<and> set (ut_maps ut) \<subseteq> set (ut_maps ut') \<and> new_map va [pa] sz (f OR UTM_PHYS_CONTIG) a \<in> set (ut_maps ut') \<and>
    mp_ok (new_map va [pa] sz (f OR UTM_PHYS_CONTIG) a)"
  using uthread_map_op_inserts [OF uspace_maps_ok [OF assms(1)] assms(2) [unfolded uthread_map_contig_def]]
    uspace.map_op [OF assms(1) assms(2) [unfolded uthread_map_contig_def]] by auto

text \<open>The end of the heap is the end of a mapping that holds its start, or nothing is mapped yet.\<close>

definition brk_in :: "uthread_map set \<Rightarrow> u64 \<Rightarrow> u64 \<Rightarrow> bool" where
  "brk_in ms s e \<longleftrightarrow> (\<exists>m\<in>ms. unat (um_vaddr m) \<le> unat s \<and> unat s \<le> unat e \<and> unat e = mend m \<and> mend m < 2 ^ 32)"

lemma brk_in_mono: "brk_in ms s e \<Longrightarrow> ms \<subseteq> ns \<Longrightarrow> brk_in ns s e"
  unfolding brk_in_def by blast

definition brk_inv :: "trusty_app \<Rightarrow> bool" where
  "brk_inv app \<longleftrightarrow> (\<exists>ut. ta_ut app = Some ut \<and> uspace ut \<and>
     (ta_start_brk app = 0 \<and> ta_end_brk app = 0 \<or> brk_in (set (ut_maps ut)) (ta_start_brk app) (ta_end_brk app)))"

lemma and_not_mask_div: "unat (x AND NOT (mask k) :: u64) = unat x div 2 ^ k * 2 ^ k"
proof -
  have eq: "x AND NOT (mask k) = push_bit k (drop_bit k x)"
    by (rule bit_word_eqI) (auto simp: bit_simps)
  have "take_bit 64 (unat x div 2 ^ k * 2 ^ k) = unat x div 2 ^ k * 2 ^ k"
    using le_less_trans [OF div_times_less_eq_dividend unsigned_less [of x]] by (simp add: take_bit_nat_eq_self)
  moreover have "take_bit 64 (unat x) = unat x"
    using unsigned_less [of x, where 'a = nat] by (simp add: take_bit_nat_eq_self)
  ultimately have "unat (push_bit k (drop_bit k x)) = unat x div 2 ^ k * 2 ^ k"
    unfolding unsigned_push_bit_eq unsigned_drop_bit_eq by (simp add: push_bit_eq_mult drop_bit_eq_div)
  then show ?thesis using eq by simp
qed

lemma page_round_bounds: "unat m \<le> unat (page_round m)" "unat (page_round m) \<le> 2 ^ 32"
proof -
  have m: "unat m < 2 ^ 32" using unsigned_less [of m] by simp
  then have s: "unat (ucast m + 0xFFF :: u64) = unat m + 0xFFF" by (simp add: unat_plus64 unat_ucast_u32)
  have "(0xFFF :: u64) = mask 12" by (simp add: mask_eq_exp_minus_1)
  then have "unat (page_round m) = (unat m + 0xFFF) div 0x1000 * 0x1000"
    using and_not_mask_div [of "ucast m + 0xFFF" 12] s by (simp add: page_round_def)
  then show "unat m \<le> unat (page_round m)" "unat (page_round m) \<le> 2 ^ 32" using m by simp_all
qed


lemma load_segment_cases:
  assumes "load_segment paddr0 ph (img, app) = Some (NO_ERROR, img', app')" "ta_ut app = Some ut"
  shows "app' = app \<or> (\<exists>va ut'. uthread_map_contig (ucast (ph_vaddr ph)) (paddr0 + of_nat (ta_img app + unat (ph_offset ph)))
      (page_round (ph_memsz ph)) (PF_TO_UTM_FLAGS (ph_flags ph) OR UTM_FIXED) (ucast UT_MAP_ALIGN_4KB) ut = Some (NO_ERROR, va, ut') \<and>
    va + page_round (ph_memsz ph) \<le> ucast (TRUSTY_APP_STACK_TOP - pr_min_stack_size (ta_props app)) \<and>
    (app' = app\<lparr>ta_ut := Some ut'\<rparr> \<or>
     app' = app\<lparr>ta_ut := Some ut', ta_start_brk := ucast (ph_vaddr ph + ph_memsz ph),
       ta_end_brk := ucast (ph_vaddr ph) + page_round (ph_memsz ph)\<rparr>))"
proof (cases "ph_type ph \<noteq> PT_LOAD \<or> ph_vaddr ph < TRUSTY_APP_START_ADDR \<or> ucast (ph_vaddr ph) \<ge> ta_end_bss app")
  case True
  then show ?thesis using assms(1) by (auto simp: load_segment_def split: if_splits)
next
  case False
  obtain ret va ut' where m: "uthread_map_contig (ucast (ph_vaddr ph)) (paddr0 + of_nat (ta_img app + unat (ph_offset ph)))
      (page_round (ph_memsz ph)) (PF_TO_UTM_FLAGS (ph_flags ph) OR UTM_FIXED) (ucast UT_MAP_ALIGN_4KB) ut = Some (ret, va, ut')"
    using assms False by (auto simp: load_segment_def bind_Some_iff Let_def simp del: of_nat_add)
  show ?thesis
    using assms(1) False unfolding load_segment_def
    by (simp add: assms(2) bind_Some_iff Let_def m err_simps not_less del: of_nat_add split: if_splits)
qed

lemma uthread_map_contig_fixed:
  assumes "uthread_map_contig v pa sz (f OR UTM_FIXED) a ut = Some (NO_ERROR, va, ut')"
  shows "va = v"
proof -
  have "bit (((f OR UTM_FIXED) OR UTM_PHYS_CONTIG) AND UTM_FIXED) 8" by (simp add: UTM_FIXED_def bit_simps)
  then have "((f OR UTM_FIXED) OR UTM_PHYS_CONTIG) AND UTM_FIXED \<noteq> 0" by auto
  then show ?thesis using assms
    by (auto simp: uthread_map_contig_def uthread_map_op_def bind_Some_iff Let_def split: if_splits prod.splits)
qed

lemma load_segment_inv:
  assumes "brk_inv app" "load_segment paddr0 ph (img, app) = Some (NO_ERROR, img', app')"
  shows "brk_inv app' \<and> ta_props app' = ta_props app"
proof -
  obtain ut where ut: "ta_ut app = Some ut" "uspace ut"
      "ta_start_brk app = 0 \<and> ta_end_brk app = 0 \<or> brk_in (set (ut_maps ut)) (ta_start_brk app) (ta_end_brk app)"
    using assms(1) by (auto simp: brk_inv_def)
  let ?sz = "page_round (ph_memsz ph)" and ?va = "ucast (ph_vaddr ph) :: u64"
  show ?thesis
  proof (cases "app' = app")
    case True
    then show ?thesis using assms(1) by simp
  next
    case False
    then obtain va ut' where m: "uthread_map_contig ?va (paddr0 + of_nat (ta_img app + unat (ph_offset ph))) ?sz
          (PF_TO_UTM_FLAGS (ph_flags ph) OR UTM_FIXED) (ucast UT_MAP_ALIGN_4KB) ut = Some (NO_ERROR, va, ut')"
      and low: "va + ?sz \<le> ucast (TRUSTY_APP_STACK_TOP - pr_min_stack_size (ta_props app))"
      and app': "app' = app\<lparr>ta_ut := Some ut'\<rparr> \<or> app' = app\<lparr>ta_ut := Some ut', ta_start_brk := ucast (ph_vaddr ph + ph_memsz ph),
          ta_end_brk := ?va + ?sz\<rparr>"
      using load_segment_cases [OF assms(2) ut(1)] by blast
    have va: "va = ?va" by (rule uthread_map_contig_fixed [OF m])
    let ?m = "new_map ?va [paddr0 + of_nat (ta_img app + unat (ph_offset ph))] ?sz
        ((PF_TO_UTM_FLAGS (ph_flags ph) OR UTM_FIXED) OR UTM_PHYS_CONTIG) (ucast UT_MAP_ALIGN_4KB)"
    have ins: "uspace ut'" "set (ut_maps ut) \<subseteq> set (ut_maps ut')" "?m \<in> set (ut_maps ut')"
      using uthread_map_contig_inserts [OF ut(2) m] unfolding va by blast+
    have v: "unat (ph_vaddr ph) < 2 ^ 32" using unsigned_less [of "ph_vaddr ph"] by simp
    then have sum: "unat (?va + ?sz) = unat (ph_vaddr ph) + unat ?sz"
      using page_round_bounds(2) [of "ph_memsz ph"] by (simp add: unat_plus64 unat_ucast_u32)
    have "unat (ucast (TRUSTY_APP_STACK_TOP - pr_min_stack_size (ta_props app)) :: u64) < 2 ^ 32"
      using unsigned_less [of "TRUSTY_APP_STACK_TOP - pr_min_stack_size (ta_props app)", where 'a = nat] by (simp add: unat_ucast_u32)
    then have lt: "unat (?va + ?sz) < 2 ^ 32" using low unfolding va by (simp add: word_le_nat_alt)
    have "unat (ph_vaddr ph + ph_memsz ph) = unat (ph_vaddr ph) + unat (ph_memsz ph)"
      using lt sum page_round_bounds(1) [of "ph_memsz ph"] by (simp add: unat_plus_if')
    then have "unat (um_vaddr ?m) \<le> unat (ucast (ph_vaddr ph + ph_memsz ph) :: u64) \<and>
        unat (ucast (ph_vaddr ph + ph_memsz ph) :: u64) \<le> unat (?va + ?sz) \<and> unat (?va + ?sz) = mend ?m \<and> mend ?m < 2 ^ 32"
      using sum lt page_round_bounds(1) [of "ph_memsz ph"] by (simp add: unat_ucast_u32 mend_def)
    then have new: "brk_in (set (ut_maps ut')) (ucast (ph_vaddr ph + ph_memsz ph)) (?va + ?sz)"
      unfolding brk_in_def using ins(3) by blast
    have old: "brk_in (set (ut_maps ut)) s e \<Longrightarrow> brk_in (set (ut_maps ut')) s e" for s e
      using brk_in_mono ins(2) by blast
    from app' show ?thesis
    proof
      assume "app' = app\<lparr>ta_ut := Some ut'\<rparr>"
      then show ?thesis using ins(1) ut(3) old by (simp add: brk_inv_def) blast
    next
      assume "app' = app\<lparr>ta_ut := Some ut', ta_start_brk := ucast (ph_vaddr ph + ph_memsz ph), ta_end_brk := ?va + ?sz\<rparr>"
      then show ?thesis using ins(1) new by (simp add: brk_inv_def)
    qed
  qed
qed

lemma load_segments_inv:
  "load_segments paddr0 i (img, app) = Some (NO_ERROR, img', app') \<Longrightarrow> brk_inv app \<Longrightarrow>
    brk_inv app' \<and> ta_props app' = ta_props app"
proof (induction paddr0 i "(img, app)" arbitrary: img app rule: load_segments.induct)
  case (1 paddr0 i img app)
  show ?case
  proof (cases "\<exists>n. e_phnum img (ta_img app) = Some n \<and> i < unat n")
    case False
    then show ?thesis using "1.prems" by (auto simp: load_segments.simps [of paddr0 i] split: option.splits)
  next
    case True
    then obtain n phoff ph img1 app1 where s: "e_phnum img (ta_img app) = Some n" "i < unat n"
        "e_phoff img (ta_img app) = Some phoff" "rd_phdr img (ta_img app + unat phoff + i * sizeof_phdr) = Some ph"
        "load_segment paddr0 ph (img, app) = Some (NO_ERROR, img1, app1)"
        "load_segments paddr0 (Suc i) (img1, app1) = Some (NO_ERROR, img', app')"
      using "1.prems"(1) by (auto simp: load_segments.simps [of paddr0 i] bind_Some_iff err_simps split: if_splits)
    note inv = load_segment_inv [OF "1.prems"(2) s(5)]
    show ?thesis
      using "1.hyps" s inv by (simp add: err_simps)
  qed
qed

text \<open>Every address of the heap lies in a mapping.\<close>

definition brk_mapped :: "uthread_map set \<Rightarrow> u64 \<Rightarrow> u64 \<Rightarrow> bool" where
  "brk_mapped ms s e \<longleftrightarrow> (\<forall>a. s \<le> a \<longrightarrow> a < e \<longrightarrow> (\<exists>m\<in>ms. unat (um_vaddr m) \<le> unat a \<and> unat a < mend m))"

lemma brk_in_mapped: "brk_in ms s e \<Longrightarrow> brk_mapped ms s e"
  unfolding brk_in_def brk_mapped_def word_le_nat_alt word_less_nat_alt by (metis le_trans)

lemma valid_range_1:
  assumes "maps_ok (ut_maps ut)" "m \<in> set (ut_maps ut)" "unat (um_vaddr m) \<le> unat a" "unat a < mend m"
  shows "uthread_is_valid_range ut a 1"
proof -
  have m: "mp_ok m" using assms(1,2) by (auto simp: maps_ok_def)
  then have "unat (a + 1) = unat a + 1" using assms(4) by (simp add: unat_plus64 mp_ok_def)
  then have "map_covers a 1 m" "\<not> a + 1 < a"
    using assms(3,4) mend_word [OF m] by (simp_all add: map_covers_def word_le_nat_alt word_less_nat_alt)
  then show ?thesis using assms(2)
    by (auto simp: uthread_is_valid_range_def uthread_map_find_def find_None_iff)
qed

lemma init_brk_heap:
  assumes "brk_inv app" "init_brk heap app = Some (NO_ERROR, app')"
  shows "\<exists>ut'. ta_ut app' = Some ut' \<and> uspace ut' \<and> ta_cur_brk app' = ta_start_brk app' \<and>
    ta_start_brk app' \<le> ta_end_brk app' \<and> ta_props app' = ta_props app \<and>
    ucast (pr_min_heap_size (ta_props app)) \<le> ta_end_brk app' - ta_start_brk app' \<and>
    brk_mapped (set (ut_maps ut')) (ta_start_brk app') (ta_end_brk app')"
proof -
  let ?h = "ucast (pr_min_heap_size (ta_props app)) :: u64" and ?s = "ta_start_brk app" and ?e = "ta_end_brk app"
  obtain ut where ut: "ta_ut app = Some ut" "uspace ut" "?s = 0 \<and> ?e = 0 \<or> brk_in (set (ut_maps ut)) ?s ?e"
    using assms(1) by (auto simp: brk_inv_def)
  have le: "?s \<le> ?e" "unat ?e < 2 ^ 32" using ut(3) by (auto simp: brk_in_def word_le_nat_alt)
  have h: "unat ?h < 2 ^ 32" using unsigned_less [of "pr_min_heap_size (ta_props app)", where 'a = nat] by (simp add: unat_ucast_u32)
  have mapped: "brk_mapped (set (ut_maps ut)) ?s ?e"
    using ut(3) brk_in_mapped by (auto simp: brk_mapped_def)
  show ?thesis
  proof (cases "?e - ?s \<ge> ?h")
    case True
    then have "app' = app\<lparr>ta_cur_brk := ?s\<rparr>" using assms(2) by (simp add: init_brk_def)
    then show ?thesis using ut le True mapped by auto
  next
    case False
    define u where "u = snd (malloc_ok ut)"
    have u: "uspace u" "ut_maps u = ut_maps ut" using uspace_malloc [OF ut(2)] by (simp_all add: u_def)
    obtain ut' where m: "uthread_map_contig ?e heap ?h ((UTM_W OR UTM_R) OR UTM_FIXED) (ucast UT_MAP_ALIGN_4KB) u = Some (NO_ERROR, ?e, ut')"
      and app': "app' = app\<lparr>ta_cur_brk := ?s, ta_ut := Some ut', ta_end_brk := ?e + ?h\<rparr>"
      using assms(2) False ut(1) unfolding init_brk_def
      by (auto simp: Let_def split_beta bind_Some_iff err_simps u_def split: if_splits)
    let ?m = "new_map ?e [heap] ?h (((UTM_W OR UTM_R) OR UTM_FIXED) OR UTM_PHYS_CONTIG) (ucast UT_MAP_ALIGN_4KB)"
    have ins: "uspace ut'" "set (ut_maps ut) \<subseteq> set (ut_maps ut')" "?m \<in> set (ut_maps ut')"
      using uthread_map_contig_inserts [OF u(1) m] u(2) by auto
    have sum: "unat (?e + ?h) = unat ?e + unat ?h" using le(2) h by (simp add: unat_plus64)
    have "brk_mapped (set (ut_maps ut')) ?s (?e + ?h)"
      unfolding brk_mapped_def
    proof (intro allI impI)
      fix a assume a: "?s \<le> a" "a < ?e + ?h"
      show "\<exists>m\<in>set (ut_maps ut'). unat (um_vaddr m) \<le> unat a \<and> unat a < mend m"
      proof (cases "a < ?e")
        case True
        then show ?thesis using mapped a ins(2) unfolding brk_mapped_def by blast
      next
        case False
        then have "unat (um_vaddr ?m) \<le> unat a \<and> unat a < mend ?m"
          using a sum by (simp add: mend_def word_le_nat_alt word_less_nat_alt)
        then show ?thesis using ins(3) by blast
      qed
    qed
    moreover have "?s \<le> ?e + ?h" using le(1) sum by (simp add: word_le_nat_alt)
    moreover have "?h \<le> (?e + ?h) - ?s"
    proof -
      have "unat ((?e + ?h) - ?s) = unat (?e + ?h) - unat ?s" using \<open>?s \<le> ?e + ?h\<close> by (simp add: unat_sub)
      then show ?thesis using le(1) sum by (simp add: word_le_nat_alt)
    qed
    ultimately show ?thesis using app' ins(1) by simp
  qed
qed

text \<open>
  A loaded application has its heap: when \<^verbatim>\<open>alloc_address_map\<close> succeeds for an application
  that has just been given its thread, the break starts at the end of the last segment, at least the
  heap of the manifest lies between the break and its limit, and every address up to the limit is
  mapped (by the segments or by the heap, which overlap neither each other nor the stack).
\<close>

theorem loaded_heap_mapped:
  assumes "ta_ut app = Some ut" "uspace ut" "ta_start_brk app = 0" "ta_end_brk app = 0"
    "alloc_address_map paddr0 heap img app = Some (NO_ERROR, img', app')"
  shows "\<exists>ut'. ta_ut app' = Some ut' \<and> uspace ut' \<and> ta_cur_brk app' = ta_start_brk app' \<and>
    ta_start_brk app' \<le> ta_end_brk app' \<and>
    ucast (pr_min_heap_size (ta_props app)) \<le> ta_end_brk app' - ta_start_brk app' \<and>
    (\<forall>a. ta_start_brk app' \<le> a \<longrightarrow> a < ta_end_brk app' \<longrightarrow> uthread_is_valid_range ut' a 1)"
proof -
  have "brk_inv app" using assms(1-4) by (simp add: brk_inv_def)
  moreover obtain img1 app1 where s: "load_segments paddr0 0 (img, app) = Some (NO_ERROR, img1, app1)" "init_brk heap app1 = Some (NO_ERROR, app')"
    using assms(5) by (auto simp: alloc_address_map_def bind_Some_iff err_simps split: if_splits)
  ultimately have "brk_inv app1" "ta_props app1 = ta_props app" using load_segments_inv by blast+
  with init_brk_heap [OF this(1) s(2)] obtain ut' where "ta_ut app' = Some ut'" "uspace ut'" "ta_cur_brk app' = ta_start_brk app'"
      "ta_start_brk app' \<le> ta_end_brk app'" "ucast (pr_min_heap_size (ta_props app)) \<le> ta_end_brk app' - ta_start_brk app'"
      "brk_mapped (set (ut_maps ut')) (ta_start_brk app') (ta_end_brk app')" by auto
  then show ?thesis using valid_range_1 [OF uspace_maps_ok] unfolding brk_mapped_def
    by (intro exI [of _ ut'] conjI) blast+
qed

text \<open>One segment of a page at 0x8000, with the thread of \<^const>\<open>as_ut\<close>.\<close>

definition seg_img :: image where
  "seg_img = replicate 28 0 @ le32_bytes 52 @ replicate 12 0 @ [1, 0] @ replicate 6 0 @
     concat (map le32_bytes [PT_LOAD, 0, 0x8000, 0, 0x1000, 0x1000, 7, 0x1000])"

definition seg_app :: trusty_app where
  "seg_app = zero_app\<lparr>ta_end_bss := 0x9000, ta_ut := Some as_ut,
     ta_props := (ta_props zero_app)\<lparr>pr_min_stack_size := 0x1000, pr_min_heap_size := 0x2000\<rparr>\<rparr>"

lemma loaded_heap_values:
  "\<exists>img' app'. alloc_address_map 0x80000000 0x90000000 seg_img seg_app = Some (NO_ERROR, img', app') \<and>
    ta_start_brk app' = 0x9000 \<and> ta_end_brk app' = 0xB000"
proof -
  have "map_option (\<lambda>(r, _, app). (r, ta_start_brk app, ta_end_brk app))
      (alloc_address_map 0x80000000 0x90000000 seg_img seg_app) = Some (NO_ERROR, 0x9000, 0xB000)"
    unfolding seg_app_def as_ut_def by code_simp
  then show ?thesis by auto
qed

theorem loaded_heap_mapped_witness:
  "\<exists>img' app' ut'. alloc_address_map 0x80000000 0x90000000 seg_img seg_app = Some (NO_ERROR, img', app') \<and>
    ta_ut app' = Some ut' \<and> ta_start_brk app' = 0x9000 \<and> ta_end_brk app' = 0xB000 \<and> uthread_is_valid_range ut' 0xAFFF 1"
proof -
  obtain img' app' where r: "alloc_address_map 0x80000000 0x90000000 seg_img seg_app = Some (NO_ERROR, img', app')"
      "ta_start_brk app' = 0x9000" "ta_end_brk app' = 0xB000"
    using loaded_heap_values by blast
  have a: "ta_ut seg_app = Some as_ut" "ta_start_brk seg_app = 0" "ta_end_brk seg_app = 0"
    by (simp_all add: seg_app_def zero_app_def)
  from loaded_heap_mapped [OF a(1) as_ut_reached a(2,3) r(1)] r show ?thesis by auto
qed

end
