(* ===== verification/Syscalls.thy ===== *)
theory Syscalls
  imports AppProperties
begin

text \<open>
  The system calls of an application that are not IPC: \<^verbatim>\<open>lib/trusty/syscall.c\<close>.  The state is that of the
  calling application, its memory, the table of descriptor handlers and what the calls do outside:
  \<open>s_log\<close> the ranges written to the log (with whether unconditionally), \<open>s_cache\<close> the ranges cleaned from
  the cache (with whether invalidated) and \<open>s_sleeps\<close> the sleeps.

  A handler is the standard one or one that another module installed; \<open>ext\<close> is what those do, \<^term>\<open>None\<close>
  where the operation is missing, and \<open>ioctl\<close> the platform's \<^verbatim>\<open>sys_std_platform_ioctl\<close>.
\<close>

definition MAX_SYS_FD_HADLERS :: nat where "MAX_SYS_FD_HADLERS = 10"
definition DMA_FLAG_FROM_DEVICE :: u32 where "DMA_FLAG_FROM_DEVICE = 2"
definition DMA_FLAG_MULTI_PMEM :: u32 where "DMA_FLAG_MULTI_PMEM = 4"
definition DMA_FLAG_ALLOW_PARTIAL :: u32 where "DMA_FLAG_ALLOW_PARTIAL = 8"

datatype sys_fd_ops = StdFdOps | FdOps nat

datatype fd_op = FdRead | FdWrite | FdIoctl

record sys =
  s_fds :: "sys_fd_ops option list"
  s_app :: trusty_app
  s_umem :: umem
  s_img :: image
  s_log :: "(bool \<times> u32 \<times> u32) list"
  s_cache :: "(bool \<times> u32 \<times> u32) list"
  s_sleeps :: "u32 list"

type_synonym fd_ext = "nat \<Rightarrow> fd_op \<Rightarrow> (u32 \<Rightarrow> u32 \<Rightarrow> u32 \<Rightarrow> sys \<Rightarrow> (int \<times> sys) option) option"

section \<open>Descriptors\<close>

definition sys_fds_init :: "sys_fd_ops option list" where
  "sys_fds_init = [None, Some StdFdOps, Some StdFdOps, Some StdFdOps, None, None, None, None, None, None]"

definition install_sys_fd_handler :: "u32 \<Rightarrow> sys_fd_ops \<Rightarrow> sys \<Rightarrow> int \<times> sys" where
  "install_sys_fd_handler fd ops s =
     (if unat fd \<ge> length (s_fds s) then (ERR_INVALID_ARGS, s)
      else if s_fds s ! unat fd = None then (NO_ERROR, s\<lparr>s_fds := (s_fds s)[unat fd := Some ops]\<rparr>)
      else (ERR_ALREADY_EXISTS, s))"

definition get_sys_fd_handler :: "u32 \<Rightarrow> sys \<Rightarrow> sys_fd_ops option" where
  "get_sys_fd_handler fd s = (if unat fd \<ge> length (s_fds s) then None else s_fds s ! unat fd)"

definition valid_address :: "u64 \<Rightarrow> u64 \<Rightarrow> sys \<Rightarrow> bool option" where
  "valid_address addr sz s = do { ut \<leftarrow> ta_ut (s_app s); Some (uthread_is_valid_range ut addr sz) }"

definition sys_std_write :: "u32 \<Rightarrow> u32 \<Rightarrow> u32 \<Rightarrow> sys \<Rightarrow> (int \<times> sys) option" where
  "sys_std_write fd user_ptr sz s = do {
     ok \<leftarrow> valid_address (ucast user_ptr) (ucast sz) s;
     if \<not> ok then Some (ERR_INVALID_ARGS, s)
     else Some (sint sz, s\<lparr>s_log := s_log s @ [(fd = 2, user_ptr, sz)]\<rparr>) }"

definition fd_operation :: "fd_ext \<Rightarrow> (u32 \<Rightarrow> u32 \<Rightarrow> u32 \<Rightarrow> sys \<Rightarrow> (int \<times> sys) option) \<Rightarrow> sys_fd_ops \<Rightarrow> fd_op
    \<Rightarrow> (u32 \<Rightarrow> u32 \<Rightarrow> u32 \<Rightarrow> sys \<Rightarrow> (int \<times> sys) option) option" where
  "fd_operation ext ioctl ops op = (case ops of
       FdOps n \<Rightarrow> ext n op
     | StdFdOps \<Rightarrow> (case op of FdRead \<Rightarrow> None | FdWrite \<Rightarrow> Some sys_std_write | FdIoctl \<Rightarrow> Some ioctl))"

definition fd_dispatch :: "fd_ext \<Rightarrow> (u32 \<Rightarrow> u32 \<Rightarrow> u32 \<Rightarrow> sys \<Rightarrow> (int \<times> sys) option) \<Rightarrow> fd_op \<Rightarrow> u32 \<Rightarrow> u32 \<Rightarrow> u32 \<Rightarrow> sys
    \<Rightarrow> (int \<times> sys) option" where
  "fd_dispatch ext ioctl op fd a b s = (case get_sys_fd_handler fd s of
       None \<Rightarrow> Some (ERR_NOT_SUPPORTED, s)
     | Some ops \<Rightarrow> (case fd_operation ext ioctl ops op of
           None \<Rightarrow> Some (ERR_NOT_SUPPORTED, s)
         | Some f \<Rightarrow> f fd a b s))"

definition sys_write where "sys_write ext ioctl fd user_ptr sz s = fd_dispatch ext ioctl FdWrite fd user_ptr sz s"
definition sys_read where "sys_read ext ioctl fd user_ptr sz s = fd_dispatch ext ioctl FdRead fd user_ptr sz s"
definition sys_ioctl where "sys_ioctl ext ioctl fd req user_ptr s = fd_dispatch ext ioctl FdIoctl fd req user_ptr s"

section \<open>Memory\<close>

definition sys_brk :: "u32 \<Rightarrow> sys \<Rightarrow> int \<times> sys" where
  "sys_brk brk s =
     (let app = s_app s;
          app = (if ucast brk \<ge> ta_start_brk app \<and> ucast brk \<le> ta_end_brk app
                 then app\<lparr>ta_cur_brk := ucast brk\<rparr> else app) in
      (sint (ta_cur_brk app), s\<lparr>s_app := app\<rparr>))"

text \<open>\<open>pages\<close> is what the page allocator gives; \<open>junk\<close> is what the uninitialised \<^verbatim>\<open>vaddr\<close> holds.\<close>

definition sys_mmap :: "u64 list \<Rightarrow> u64 \<Rightarrow> u32 \<Rightarrow> u32 \<Rightarrow> u32 \<Rightarrow> u32 \<Rightarrow> sys \<Rightarrow> (int \<times> sys) option" where
  "sys_mmap pages junk uaddr sz flags handle s =
     (if flags AND MMAP_FLAG_DEVICE_MEM \<noteq> 0 then do {
        ut \<leftarrow> ta_ut (s_app s);
        (ret, vaddr, ut) \<leftarrow> uthread_pmm_alloc_and_map pages (ucast sz) flags 1 ut;
        let s = s\<lparr>s_app := (s_app s)\<lparr>ta_ut := Some ut\<rparr>\<rparr>;
        Some (if ret \<noteq> 0 then ret else sint vaddr, s) }
      else if flags \<noteq> MMAP_FLAG_IO_HANDLE \<or> uaddr \<noteq> 0 then Some (ERR_INVALID_ARGS, s)
      else do {
        (ret, vaddr, app) \<leftarrow> trusty_app_setup_mmio (s_img s) (s_app s) handle junk sz;
        Some (if ret \<noteq> NO_ERROR then ret else sint vaddr, s\<lparr>s_app := app\<rparr>) })"

definition sys_munmap :: "u32 \<Rightarrow> u32 \<Rightarrow> sys \<Rightarrow> (int \<times> sys) option" where
  "sys_munmap uaddr sz s = do {
     ut \<leftarrow> ta_ut (s_app s);
     (ret, ut) \<leftarrow> uthread_unmap (ucast uaddr) (ucast sz) ut;
     Some (ret, s\<lparr>s_app := (s_app s)\<lparr>ta_ut := Some ut\<rparr>\<rparr>) }"

section \<open>DMA\<close>

text \<open>\<open>pad\<close> is what the field \<^verbatim>\<open>pad\<close> of the uninitialised \<^verbatim>\<open>kpmem\<close> holds.\<close>

definition dma_pmem_bytes :: "u64 \<Rightarrow> u32 \<Rightarrow> u32 \<Rightarrow> byte list" where
  "dma_pmem_bytes paddr sz pad = le32_bytes (ucast paddr) @ le32_bytes (ucast (drop_bit 32 paddr)) @ le32_bytes sz @ le32_bytes pad"

definition block_size :: "u32 \<Rightarrow> u64 \<Rightarrow> u32" where
  "block_size left paddr = ucast (min (ucast left) (0x1000 - (paddr AND 0xFFF)) :: u64)"

lemma block_size_le: "block_size left paddr \<le> left"
proof -
  let ?m = "min (ucast left) (0x1000 - (paddr AND 0xFFF)) :: u64"
  have "?m \<le> ucast left" by simp
  then have le: "unat ?m \<le> unat left" by (simp add: word_le_nat_alt unat_ucast_u32)
  then have "unat ?m < 2 ^ 32" using unat_lt_u32 [of left] by simp
  then have "unat (block_size left paddr) = unat ?m"
    unfolding block_size_def by (simp only: unsigned_ucast_eq) (simp add: take_bit_nat_eq_self)
  with le show ?thesis by (simp add: word_le_nat_alt)
qed

lemma unat_block_size: "unat (block_size left paddr) = min (unat left) (0x1000 - unat paddr mod 0x1000)"
proof -
  have "paddr AND 0xFFF = take_bit 12 paddr" by (simp add: take_bit_eq_mask mask_eq_exp_minus_1)
  then have a: "unat (paddr AND 0xFFF) = unat paddr mod 0x1000"
    by (simp add: unsigned_take_bit_eq take_bit_eq_mod unat_mod)
  moreover have "unat paddr mod 0x1000 < 0x1000" by simp
  ultimately have b: "unat (0x1000 - (paddr AND 0xFFF)) = 0x1000 - unat paddr mod 0x1000"
    by (subst unat_sub) (simp_all add: word_le_nat_alt)
  let ?m = "min (ucast left) (0x1000 - (paddr AND 0xFFF)) :: u64"
  have m: "unat ?m = min (unat left) (0x1000 - unat paddr mod 0x1000)"
    by (auto simp: min_def word_le_nat_alt unat_ucast_u32 b)
  then have "unat ?m < 2 ^ 32" by simp
  then have "unat (block_size left paddr) = unat ?m"
    unfolding block_size_def by (simp only: unsigned_ucast_eq) (simp add: take_bit_nat_eq_self)
  then show ?thesis by (simp add: m)
qed

text \<open>The loop; \<open>Inl\<close> is an early return, \<open>Inr\<close> the size mapped and the number of blocks.\<close>

function dma_loop :: "u32 \<Rightarrow> u32 \<Rightarrow> u32 \<Rightarrow> u32 \<Rightarrow> u32 \<Rightarrow> u32 \<Rightarrow> u32 \<Rightarrow> sys \<Rightarrow> ((int + u32 \<times> u32) \<times> sys) option" where
  "dma_loop pad uaddr sz flags pmem mapped entries s =
     (case ta_ut (s_app s) of None \<Rightarrow> None
      | Some ut \<Rightarrow> (case uthread_virt_to_phys ut (ucast uaddr + ucast mapped) of None \<Rightarrow> None
         | Some (ret, paddr) \<Rightarrow>
             if ret \<noteq> NO_ERROR then Some (Inl ret, s)
             else
               let psz = block_size (sz - mapped) paddr;
                   (ret, m) = copy_to_user (s_umem s) pmem (dma_pmem_bytes paddr psz pad) in
               if ret \<noteq> NO_ERROR then Some (Inl ret, s\<lparr>s_umem := m\<rparr>)
               else if mapped + psz < sz \<and> flags AND DMA_FLAG_MULTI_PMEM \<noteq> 0
               then dma_loop pad uaddr sz flags (pmem + 16) (mapped + psz) (entries + 1) (s\<lparr>s_umem := m\<rparr>)
               else Some (Inr (mapped + psz, entries + 1), s\<lparr>s_umem := m\<rparr>)))"
  by pat_completeness auto

termination
proof (relation "measure (\<lambda>(pad, uaddr, sz, flags, pmem, mapped, entries, s). unat (sz - mapped))", goal_cases)
  case (2 pad uaddr sz flags pmem mapped entries s ut x ret paddr psz y r m)
  have "mapped \<noteq> sz"
    using 2 by (auto simp: block_size_def)
  then have "unat (sz - mapped) \<noteq> 0" by (simp add: unat_eq_0)
  moreover have "unat paddr mod 0x1000 < 0x1000" by simp
  ultimately have "0 < unat psz" unfolding 2(5) unat_block_size by (simp only: min_less_iff_conj) simp
  moreover have "sz - (mapped + psz) = (sz - mapped) - psz" by simp
  moreover have "psz \<le> sz - mapped" unfolding 2(5) by (rule block_size_le)
  ultimately have "unat (sz - (mapped + psz)) < unat (sz - mapped)"
    by (simp only: unat_sub word_le_nat_alt)
  then show ?case by simp
qed simp

declare dma_loop.simps [simp del]

definition sys_prepare_dma :: "u32 \<Rightarrow> u32 \<Rightarrow> u32 \<Rightarrow> u32 \<Rightarrow> u32 \<Rightarrow> sys \<Rightarrow> (int \<times> sys) option" where
  "sys_prepare_dma pad uaddr sz flags pmem s = do {
     ok \<leftarrow> (if sz = 0 then Some False else valid_address (ucast uaddr) (ucast sz) s);
     if \<not> ok then Some (ERR_INVALID_ARGS, s)
     else do {
       (r, s) \<leftarrow> dma_loop pad uaddr sz flags pmem 0 0 s;
       (case r of Inl ret \<Rightarrow> Some (ret, s)
        | Inr (mapped, entries) \<Rightarrow>
            let s = s\<lparr>s_cache := s_cache s @ [(flags AND DMA_FLAG_FROM_DEVICE \<noteq> 0, uaddr, mapped)]\<rparr> in
            Some (if flags AND DMA_FLAG_ALLOW_PARTIAL = 0 \<and> mapped \<noteq> sz then ERR_BAD_LEN else uint entries, s)) } }"

definition sys_finish_dma :: "u32 \<Rightarrow> u32 \<Rightarrow> u32 \<Rightarrow> sys \<Rightarrow> (int \<times> sys) option" where
  "sys_finish_dma uaddr sz flags s = do {
     ok \<leftarrow> valid_address (ucast uaddr) (ucast sz) s;
     if \<not> ok then Some (ERR_INVALID_ARGS, s)
     else Some (NO_ERROR, if flags AND DMA_FLAG_FROM_DEVICE \<noteq> 0
                          then s\<lparr>s_cache := s_cache s @ [(True, uaddr, sz)]\<rparr> else s) }"

section \<open>Time\<close>

definition sys_nanosleep :: "u32 \<Rightarrow> u32 \<Rightarrow> u32 \<Rightarrow> u32 \<Rightarrow> sys \<Rightarrow> int \<times> sys" where
  "sys_nanosleep clock_id flags time_l time_h s =
     (let t = ucast time_l + push_bit 32 (ucast time_h) :: u64 in
      (NO_ERROR, s\<lparr>s_sleeps := s_sleeps s @ [ucast ((t + 1000 * 1000 - 1) div (1000 * 1000))]\<rparr>))"

text \<open>\<open>now\<close> is the reading of the clock in microseconds.\<close>

definition sys_gettime :: "u64 \<Rightarrow> u32 \<Rightarrow> u32 \<Rightarrow> u32 \<Rightarrow> sys \<Rightarrow> int \<times> sys" where
  "sys_gettime now clock_id flags time s =
     (let t = now * 1000;
          (ret, m) = copy_to_user (s_umem s) time (le32_bytes (ucast t) @ le32_bytes (ucast (drop_bit 32 t))) in
      (ret, s\<lparr>s_umem := m\<rparr>))"

end
