(* ===== verification/SyscallProperties.thy ===== *)
theory SyscallProperties
  imports Syscalls
begin

text \<open>
  What the memory and DMA system calls guarantee an application: the blocks that \<^verbatim>\<open>sys_prepare_dma\<close>
  reports are the physical memory of the buffer, byte for byte, and what lies below the break stays mapped.
\<close>

section \<open>Translation along a page\<close>

definition aligned_map :: "uthread_map \<Rightarrow> bool" where
  "aligned_map m \<longleftrightarrow> um_vaddr m AND 0xFFF = 0 \<and> (\<forall>p\<in>set (um_pfn_list m). p AND 0xFFF = 0)"

lemma unat_and_page: "unat (x AND 0xFFF :: u64) = unat x mod 0x1000"
proof -
  have "x AND 0xFFF = take_bit 12 x" by (simp add: take_bit_eq_mask mask_eq_exp_minus_1)
  then show ?thesis by (simp add: unsigned_take_bit_eq take_bit_eq_mod unat_mod)
qed

lemma page_add: "(p :: u64) AND 0xFFF = 0 \<Longrightarrow> (p + x) AND 0xFFF = x AND 0xFFF"
proof -
  assume p: "p AND 0xFFF = 0"
  have "(p + x) AND mask 12 = ((p AND mask 12) + (x AND mask 12)) AND mask 12"
    unfolding take_bit_eq_mask [symmetric] by transfer (metis take_bit_add take_bit_of_take_bit_64)
  then show ?thesis using p by (simp add: mask_eq_exp_minus_1)
qed

lemma unat_add_nat: "unat (x :: u64) + j < 2 ^ 64 \<Longrightarrow> unat (x + of_nat j) = unat x + j"
  by (simp add: unat_plus64 unat_of_nat)

lemma translate_step:
  assumes m: "mp_ok m" "aligned_map m" "unat (um_size m) < 2 ^ 44" and off: "unat off + j < unat (um_size m)"
    and j: "j < 0x1000 - unat (translate m off) mod 0x1000"
  shows "translate m (off + of_nat j) = translate m off + of_nat j"
proof (cases "um_flags m AND UTM_PHYS_CONTIG = 0")
  case False
  then show ?thesis by (simp add: translate_def add.assoc)
next
  case True
  have va: "(um_vaddr m + x) AND 0xFFF = x AND 0xFFF" for x
    using m(2) by (intro page_add) (simp add: aligned_map_def)
  have tr: "translate m x = um_pfn_list m ! unat (x div 0x1000) + (x AND 0xFFF)" for x
    using True va [of x] by (simp add: translate_def)
  have "unat (off div 0x1000) < length (um_pfn_list m)"
    by (rule page_in_frames(2) [OF m(1,3) _ True]) (use off in simp)
  then have "um_pfn_list m ! unat (off div 0x1000) AND 0xFFF = 0"
    using m(2) by (simp add: aligned_map_def)
  then have "translate m off AND 0xFFF = off AND 0xFFF"
    unfolding tr by (subst page_add) (simp_all add: and.assoc)
  then have mod: "unat (translate m off) mod 0x1000 = unat off mod 0x1000"
    by (metis unat_and_page)
  have nowrap: "unat (off + of_nat j) = unat off + j" using off m(3) by (intro unat_add_nat) simp
  have same: "(unat off + j) div 0x1000 = unat off div 0x1000" "(unat off + j) mod 0x1000 = unat off mod 0x1000 + j"
  proof -
    have e: "unat off + j = (unat off mod 0x1000 + j) + unat off div 0x1000 * 0x1000"
      by (metis add.assoc add.commute div_mult_mod_eq)
    have "unat off mod 0x1000 + j < 0x1000" using j mod by simp
    then show "(unat off + j) div 0x1000 = unat off div 0x1000" "(unat off + j) mod 0x1000 = unat off mod 0x1000 + j"
      by (simp_all only: e div_mult_self1 mod_mult_self1 mod_less div_less)
  qed
  have "(off + of_nat j) div 0x1000 = off div 0x1000"
    by (rule word_unat_eq_iff [THEN iffD2]) (simp add: unat_div nowrap same)
  moreover have "(off + of_nat j) AND 0xFFF = (off AND 0xFFF) + of_nat j"
  proof (rule word_unat_eq_iff [THEN iffD2])
    have "unat (off AND 0xFFF) + j < 2 ^ 64" using j mod unat_and_page [of off] by simp
    then show "unat ((off + of_nat j) AND 0xFFF) = unat ((off AND 0xFFF) + of_nat j)"
      by (simp only: unat_and_page nowrap same unat_add_nat)
  qed
  ultimately show ?thesis unfolding tr by (simp add: add.assoc)
qed

section \<open>The blocks of a buffer\<close>

text \<open>The addresses of a list of blocks, and the memory after the blocks are copied out.\<close>

definition block_addrs :: "(u64 \<times> u32) list \<Rightarrow> u64 list" where
  "block_addrs bs = concat (map (\<lambda>(pa, n). map (\<lambda>j. pa + of_nat j) [0..<unat n]) bs)"

fun write_blocks :: "u32 \<Rightarrow> u32 \<Rightarrow> (u64 \<times> u32) list \<Rightarrow> umem \<Rightarrow> umem" where
  "write_blocks pad pmem [] m = m"
| "write_blocks pad pmem ((pa, n) # bs) m =
     write_blocks pad (pmem + 16) bs (snd (copy_to_user m pmem (dma_pmem_bytes pa n pad)))"

lemma dma_loop_step:
  assumes "dma_loop pad uaddr sz flags pmem mapped entries s = Some (Inr (mapped', n), s')"
    "flags AND DMA_FLAG_MULTI_PMEM \<noteq> 0" "ta_ut (s_app s) = Some ut"
    "uthread_virt_to_phys ut (ucast uaddr + ucast mapped) = Some (NO_ERROR, pa)"
  defines "psz \<equiv> block_size (sz - mapped) pa"
  defines "s1 \<equiv> s\<lparr>s_umem := snd (copy_to_user (s_umem s) pmem (dma_pmem_bytes pa psz pad))\<rparr>"
  shows "if mapped + psz < sz
    then dma_loop pad uaddr sz flags (pmem + 16) (mapped + psz) (entries + 1) s1 = Some (Inr (mapped', n), s')
    else mapped' = mapped + psz \<and> n = entries + 1 \<and> s' = s1"
  using assms(1-4) unfolding psz_def s1_def
  by (subst (asm) dma_loop.simps) (auto simp: Let_def split_beta split: if_splits)

lemma upt_split: "[0..<a + b] = [0..<a] @ map ((+) a) [0..<b]"
proof -
  have "(\<lambda>i. i + a) = (+) a" by (auto simp: add.commute)
  then show ?thesis using upt_add_eq_append [of 0 a b] map_add_upt [of a b] by (simp only: add.commute [of b] add_0 le0)
qed

lemma block_advance:
  fixes sz mapped :: u32
  assumes "mapped < sz" "psz = block_size (sz - mapped) pa"
  shows "0 < psz" "unat (mapped + psz) = unat mapped + unat psz" "unat (sz - mapped) = unat psz + unat (sz - (mapped + psz))"
    "mapped + psz \<le> sz" "unat psz \<le> 0x1000 - unat pa mod 0x1000"
proof -
  have d: "unat (sz - mapped) = unat sz - unat mapped" using assms(1) by (simp add: unat_sub)
  have le: "unat psz \<le> unat sz - unat mapped"
    using block_size_le [of "sz - mapped" pa] assms(2) d by (simp add: word_le_nat_alt)
  have lt: "unat mapped < unat sz" using assms(1) by (simp add: word_less_nat_alt)
  have u: "unat psz = min (unat sz - unat mapped) (0x1000 - unat pa mod 0x1000)"
    unfolding assms(2) unat_block_size d ..
  moreover have "unat pa mod 0x1000 < 0x1000" by simp
  ultimately have "0 < unat psz" using lt by (simp only: min_less_iff_conj) linarith
  then show "0 < psz" by (simp add: word_less_nat_alt)
  show sum: "unat (mapped + psz) = unat mapped + unat psz"
    using le lt unat_lt_u32 [of sz] by (simp add: unat_plus_if')
  show m: "mapped + psz \<le> sz" using le lt sum by (simp add: word_le_nat_alt)
  show "unat (sz - mapped) = unat psz + unat (sz - (mapped + psz))"
    using m le lt sum d by (simp add: unat_sub)
  show "unat psz \<le> 0x1000 - unat pa mod 0x1000" unfolding u by simp
qed

lemma dma_loop_blocks:
  assumes "dma_loop pad uaddr sz flags pmem mapped entries s = Some (Inr (mapped', n), s')"
    "flags AND DMA_FLAG_MULTI_PMEM \<noteq> 0" "mapped < sz" "ta_ut (s_app s) = Some ut" "maps_ok (ut_maps ut)" "m \<in> set (ut_maps ut)"
    "aligned_map m" "unat (um_size m) < 2 ^ 44" "unat (um_vaddr m) \<le> unat uaddr"
    "unat uaddr + unat sz \<le> mend m"
  shows "\<exists>bs. mapped' = sz \<and> n = entries + of_nat (length bs) \<and> (\<forall>b\<in>set bs. 0 < snd b) \<and>
    block_addrs bs = map (\<lambda>i. translate m (of_nat (unat uaddr - unat (um_vaddr m) + unat mapped + i))) [0..<unat (sz - mapped)] \<and>
    s' = s\<lparr>s_umem := write_blocks pad pmem bs (s_umem s)\<rparr>"
  using assms(1,3,4)
proof (induction "unat (sz - mapped)" arbitrary: pmem mapped entries s rule: less_induct)
  case less
  define B where "B = unat uaddr - unat (um_vaddr m) + unat mapped"
  let ?pa = "translate m (of_nat B)"
  define psz where "psz = block_size (sz - mapped) ?pa"
  note adv = block_advance [OF less.prems(2) psz_def]
  have m: "mp_ok m" using assms(5,6) by (auto simp: maps_ok_def)
  have left: "unat (sz - mapped) = unat sz - unat mapped" using less.prems(2) by (simp add: unat_sub)
  then have bound: "B + unat (sz - mapped) \<le> unat (um_size m)"
    using less.prems(2) assms(9,10) by (simp add: B_def mend_def word_less_nat_alt)
  have B: "unat (of_nat B :: u64) = B" using bound assms(8) by (simp add: unat_of_nat)
  have "um_vaddr m + of_nat B = ucast uaddr + ucast mapped"
  proof -
    have "um_vaddr m + of_nat B = of_nat (unat (um_vaddr m) + B)" by simp
    also have "\<dots> = of_nat (unat uaddr + unat mapped)" using assms(9) by (simp only: B_def) simp
    finally show ?thesis by simp
  qed
  moreover have "0 < unat (sz - mapped)" using left less.prems(2) by (simp add: word_less_nat_alt)
  ultimately have v: "uthread_virt_to_phys ut (ucast uaddr + ucast mapped) = Some (NO_ERROR, ?pa)"
    using virt_to_phys_in [OF assms(5,6,8), of "of_nat B"] bound B by simp
  define s1 where "s1 = s\<lparr>s_umem := snd (copy_to_user (s_umem s) pmem (dma_pmem_bytes ?pa psz pad))\<rparr>"
  note step = dma_loop_step [OF less.prems(1) assms(2) less.prems(3) v, folded psz_def, folded s1_def]
  have first: "map (\<lambda>i. translate m (of_nat (B + i))) [0..<unat psz] = map (\<lambda>j. ?pa + of_nat j) [0..<unat psz]"
    using translate_step [OF m assms(7,8), of "of_nat B"] adv(3,5) bound B by simp
  have split: "map (\<lambda>i. translate m (of_nat (B + i))) [0..<unat (sz - mapped)] =
      map (\<lambda>j. ?pa + of_nat j) [0..<unat psz] @
      map (\<lambda>i. translate m (of_nat (unat uaddr - unat (um_vaddr m) + unat (mapped + psz) + i))) [0..<unat (sz - (mapped + psz))]"
    unfolding adv(3) upt_split map_append map_map first by (simp add: adv(2) B_def add.assoc comp_def)
  show ?case
  proof (cases "mapped + psz < sz")
    case True
    have "unat (sz - (mapped + psz)) < unat (sz - mapped)" using adv(1,3) by (simp add: word_less_nat_alt)
    moreover have "dma_loop pad uaddr sz flags (pmem + 16) (mapped + psz) (entries + 1) s1 = Some (Inr (mapped', n), s')"
      using step True by simp
    moreover have "ta_ut (s_app s1) = Some ut" using less.prems(3) by (simp add: s1_def)
    ultimately have "\<exists>bs. mapped' = sz \<and> n = entries + 1 + of_nat (length bs) \<and> (\<forall>b\<in>set bs. 0 < snd b) \<and>
        block_addrs bs = map (\<lambda>i. translate m (of_nat (unat uaddr - unat (um_vaddr m) + unat (mapped + psz) + i)))
          [0..<unat (sz - (mapped + psz))] \<and>
        s' = s1\<lparr>s_umem := write_blocks pad (pmem + 16) bs (s_umem s1)\<rparr>"
      by (rule less.hyps [OF _ _ True])
    then obtain bs where bs: "mapped' = sz" "n = entries + 1 + of_nat (length bs)" "\<forall>b\<in>set bs. 0 < snd b"
      "block_addrs bs = map (\<lambda>i. translate m (of_nat (unat uaddr - unat (um_vaddr m) + unat (mapped + psz) + i)))
          [0..<unat (sz - (mapped + psz))]"
      "s' = s1\<lparr>s_umem := write_blocks pad (pmem + 16) bs (s_umem s1)\<rparr>"
      by (elim exE conjE) (rule that; assumption)
    have "block_addrs ((?pa, psz) # bs) = map (\<lambda>i. translate m (of_nat (B + i))) [0..<unat (sz - mapped)]"
      unfolding split bs(4) [symmetric] by (simp add: block_addrs_def)
    then show ?thesis using bs(1-3,5) adv(1)
      by (intro exI [of _ "(?pa, psz) # bs"]) (simp add: s1_def B_def add.assoc)
  next
    case False
    then have eq: "mapped + psz = sz" using adv(4) by simp
    have "block_addrs [(?pa, psz)] = map (\<lambda>i. translate m (of_nat (B + i))) [0..<unat (sz - mapped)]"
      unfolding split eq by (simp add: block_addrs_def)
    then show ?thesis using step eq adv(1)
      by (intro exI [of _ "[(?pa, psz)]"]) (simp add: s1_def B_def)
  qed
qed

lemma dma_loop_error:
  "dma_loop pad uaddr sz flags pmem mapped entries s = Some (Inl r, s') \<Longrightarrow> mapped < sz \<Longrightarrow> r < 0"
proof (induction "unat (sz - mapped)" arbitrary: pmem mapped entries s rule: less_induct)
  case less
  obtain ut ret pa where v: "ta_ut (s_app s) = Some ut" "uthread_virt_to_phys ut (ucast uaddr + ucast mapped) = Some (ret, pa)"
    using less.prems(1) by (subst (asm) dma_loop.simps) (auto split: option.splits)
  define psz where "psz = block_size (sz - mapped) pa"
  obtain r' m where c: "copy_to_user (s_umem s) pmem (dma_pmem_bytes pa psz pad) = (r', m)" by fastforce
  have r': "r' = NO_ERROR \<or> r' < 0"
    using copy_to_user_ret [of "s_umem s" pmem "dma_pmem_bytes pa psz pad"] c by (auto simp: err_simps)
  have ret: "ret = NO_ERROR \<or> ret < 0"
    using v(2) by (auto simp: uthread_virt_to_phys_def bind_Some_iff Let_def err_simps split: option.splits if_splits)
  consider "r = ret" "ret \<noteq> NO_ERROR" | "r = r'" "r' \<noteq> NO_ERROR"
    | "mapped + psz < sz" "dma_loop pad uaddr sz flags (pmem + 16) (mapped + psz) (entries + 1) (s\<lparr>s_umem := m\<rparr>) = Some (Inl r, s')"
    using less.prems(1) v c
    by (subst (asm) dma_loop.simps) (auto simp: Let_def psz_def split: if_splits)
  then show ?case
  proof cases
    case 3
    then show ?thesis
      using less.hyps [OF _ 3(2,1)] block_advance(1,3) [OF less.prems(2) psz_def] by (simp add: word_less_nat_alt)
  qed (use ret r' in auto)
qed

section \<open>Properties of the system calls\<close>

lemma valid_range_map:
  assumes "maps_ok (ut_maps ut)" "uthread_is_valid_range ut (ucast uaddr) (ucast (sz :: u32))"
  shows "\<exists>m\<in>set (ut_maps ut). unat (um_vaddr m) \<le> unat (uaddr :: u32) \<and> unat uaddr + unat sz \<le> mend m"
proof -
  obtain m where m: "m \<in> set (ut_maps ut)" "map_covers (ucast uaddr) (ucast sz) m"
    using assms(2) uthread_map_find_Some unfolding uthread_is_valid_range_def by fastforce
  then have ok: "mp_ok m" using assms(1) by (auto simp: maps_ok_def)
  have "unat uaddr + unat sz < 2 ^ 64" using unat_lt_u32 [of uaddr] unat_lt_u32 [of sz] by simp
  then have "unat (ucast uaddr + ucast sz :: u64) = unat uaddr + unat sz"
    by (simp add: unat_plus64 unat_ucast_u32)
  then show ?thesis using m mend_word [OF ok]
    by (intro bexI [of _ m]) (auto simp: map_covers_def word_le_nat_alt unat_ucast_u32)
qed

lemma length_le_block_addrs: "\<forall>b\<in>set bs. 0 < snd b \<Longrightarrow> length bs \<le> length (block_addrs bs)"
proof (induction bs)
  case (Cons b bs)
  then have "0 < unat (snd b)" by (simp add: word_less_nat_alt)
  then show ?case using Cons by (simp add: block_addrs_def split_beta)
qed (simp add: block_addrs_def)

text \<open>
  Property C39. The blocks that \<^verbatim>\<open>sys_prepare_dma\<close> reports are exactly the buffer: in a reachable address
  space of page-aligned mappings, when the call succeeds with \<^verbatim>\<open>DMA_FLAG_MULTI_PMEM\<close> its result is the
  number of blocks it has copied out, in order, 16 bytes apart, and the physical addresses of those
  blocks, one after the other, are the translations of the buffer's addresses, byte for byte and no more.
\<close>

theorem prepare_dma_exact:
  assumes "ta_ut (s_app s) = Some ut" "uspace ut" "list_all (\<lambda>m. aligned_map m \<and> um_size m < 2 ^ 44) (ut_maps ut)"
    "flags AND DMA_FLAG_MULTI_PMEM \<noteq> 0" "sys_prepare_dma pad uaddr sz flags pmem s = Some (r, s')" "0 \<le> r"
  shows "\<exists>bs. r = int (length bs) \<and> length (block_addrs bs) = unat sz \<and>
    s_umem s' = write_blocks pad pmem bs (s_umem s) \<and>
    (\<forall>i < unat sz. uthread_virt_to_phys ut (ucast uaddr + of_nat i) = Some (NO_ERROR, block_addrs bs ! i))"
proof -
  have ok: "maps_ok (ut_maps ut)" by (rule uspace_maps_ok [OF assms(2)])
  have valid: "sz \<noteq> 0" "uthread_is_valid_range ut (ucast uaddr) (ucast sz)"
    using assms(1,5,6) by (auto simp: sys_prepare_dma_def valid_address_def err_simps split: if_splits)
  then have sz: "0 < sz" by (simp add: word_neq_0_conv)
  obtain x s1 where l: "dma_loop pad uaddr sz flags pmem 0 0 s = Some (x, s1)"
    using assms(1,5) valid by (auto simp: sys_prepare_dma_def valid_address_def bind_Some_iff)
  have x': "case x of Inl ret \<Rightarrow> r = ret
      | Inr (mapped, n) \<Rightarrow> s_umem s' = s_umem s1 \<and> (r = ERR_BAD_LEN \<or> r = uint n)"
    using assms(1,5) valid l by (cases x) (auto simp: sys_prepare_dma_def valid_address_def Let_def split: if_splits)
  then obtain mapped n where x: "x = Inr (mapped, n)" "s_umem s' = s_umem s1" "r = ERR_BAD_LEN \<or> r = uint n"
    using dma_loop_error [OF _ sz] l assms(6) by (cases x) fastforce+
  obtain m where m: "m \<in> set (ut_maps ut)" "unat (um_vaddr m) \<le> unat uaddr" "unat uaddr + unat sz \<le> mend m"
    using valid_range_map [OF ok valid(2)] by blast
  have al: "aligned_map m" "unat (um_size m) < 2 ^ 44"
    using assms(3) m(1) by (auto simp: list_all_iff word_less_nat_alt)
  from dma_loop_blocks [OF l [unfolded x(1)] assms(4) sz assms(1) ok m(1) al m(2,3)]
  obtain bs where bs: "n = of_nat (length bs)" "\<forall>b\<in>set bs. 0 < snd b"
      "block_addrs bs = map (\<lambda>i. translate m (of_nat (unat uaddr - unat (um_vaddr m) + i))) [0..<unat sz]"
      "s1 = s\<lparr>s_umem := write_blocks pad pmem bs (s_umem s)\<rparr>" by (auto simp del: of_nat_add)
  have len: "length (block_addrs bs) = unat sz" unfolding bs(3) by simp
  then have "length bs < 2 ^ 32" using length_le_block_addrs [OF bs(2)] unat_lt_u32 [of sz] by simp
  then have "uint n = int (length bs)" unfolding bs(1) by (simp add: uint_nat unat_of_nat)
  then have r: "r = int (length bs)" using x(3) assms(6) by (auto simp: err_simps)
  have "uthread_virt_to_phys ut (ucast uaddr + of_nat i) = Some (NO_ERROR, block_addrs bs ! i)" if "i < unat sz" for i
  proof -
    let ?o = "unat uaddr - unat (um_vaddr m) + i"
    have in_m: "?o < unat (um_size m)" using m(2,3) that by (simp add: mend_def)
    then have o: "unat (of_nat ?o :: u64) = ?o" using al(2) by (subst unat_of_nat) simp
    have "um_vaddr m + of_nat ?o = of_nat (unat (um_vaddr m) + ?o)" by simp
    also have "\<dots> = of_nat (unat uaddr + i)" using m(2) by (simp only: add.assoc [symmetric] le_add_diff_inverse)
    also have "\<dots> = ucast uaddr + of_nat i" by simp
    finally have "ucast uaddr + of_nat i = um_vaddr m + of_nat ?o" ..
    then show ?thesis
      using virt_to_phys_in [OF ok m(1) al(2), of "of_nat ?o"] in_m o that unfolding bs(3) by (simp del: of_nat_add)
  qed
  then show ?thesis using r len x(2) bs(4) by (intro exI [of _ bs]) simp
qed

text \<open>A buffer of a page that lies across two frames.\<close>

definition dma_sys :: sys where
  "dma_sys = \<lparr>s_fds = sys_fds_init, s_app = zero_app\<lparr>ta_ut := Some as_ut2\<rparr>,
     s_umem = \<lparr>udata = (\<lambda>a. 0), ureadable = (\<lambda>a. True), uwritable = (\<lambda>a. True)\<rparr>,
     s_img = [], s_log = [], s_cache = [], s_sleeps = []\<rparr>"

theorem prepare_dma_exact_witness:
  "uthread_virt_to_phys as_ut2 0x1000800 = Some (NO_ERROR, 0x90000800) \<and>
    (\<exists>bs s'. sys_prepare_dma 0 0x1000800 0x1000 DMA_FLAG_MULTI_PMEM 0x100 dma_sys = Some (2, s') \<and>
      length bs = 2 \<and> length (block_addrs bs) = 0x1000 \<and> block_addrs bs ! 0 = 0x90000800)"
proof -
  have a: "list_all (\<lambda>m. aligned_map m \<and> um_size m < 2 ^ 44) (ut_maps as_ut2)"
    unfolding as_ut2_def as_ut_def by code_simp
  have b: "uthread_virt_to_phys as_ut2 0x1000800 = Some (NO_ERROR, 0x90000800)"
    unfolding as_ut2_def as_ut_def by code_simp
  have "map_option fst (sys_prepare_dma 0 0x1000800 0x1000 DMA_FLAG_MULTI_PMEM 0x100 dma_sys) = Some 2"
    unfolding dma_sys_def as_ut2_def as_ut_def by code_simp
  then obtain s' where r: "sys_prepare_dma 0 0x1000800 0x1000 DMA_FLAG_MULTI_PMEM 0x100 dma_sys = Some (2, s')" by auto
  have ut: "ta_ut (s_app dma_sys) = Some as_ut2" by (simp add: dma_sys_def)
  from prepare_dma_exact [OF ut as_ut2_reached a _ r]
  obtain bs where bs: "length bs = 2" "length (block_addrs bs) = 0x1000"
      "\<forall>i < unat (0x1000 :: u32). uthread_virt_to_phys as_ut2 (ucast (0x1000800 :: u32) + of_nat i) = Some (NO_ERROR, block_addrs bs ! i)"
    by (auto simp: DMA_FLAG_MULTI_PMEM_def)
  from bs(3) [rule_format, of 0] b have "block_addrs bs ! 0 = 0x90000800" by simp
  then show ?thesis using r b bs(1,2) by blast
qed

section \<open>The break\<close>

lemma uthread_map_op_mono:
  assumes "maps_ok (ut_maps ut)" "uthread_map_op v pfns sz f a ut = Some (r, va, ut')"
  shows "set (ut_maps ut) \<subseteq> set (ut_maps ut')"
proof (cases "ut_maps ut' = ut_maps ut")
  case False
  then obtain w pl e u where al: "uthread_map_alloc w pl sz f a ut = Some (e, u)" "ut_maps ut' = ut_maps u"
    using assms(2) by (auto simp: uthread_map_op_def bind_Some_iff Let_def dest!: arch_result_Pair
        split: option.splits if_splits prod.splits)
  show ?thesis using uthread_map_alloc_ok [OF assms(1) al(1)] al(2) by (auto split: if_splits)
qed simp

lemma uthread_pmm_mono:
  assumes "maps_ok (ut_maps ut)" "uthread_pmm_alloc_and_map pages sz f a ut = Some (r, va, ut')"
  shows "set (ut_maps ut) \<subseteq> set (ut_maps ut')"
proof -
  have "maps_ok (ut_maps (snd (malloc_ok ut)))" using assms(1) by simp
  note mono = uthread_map_op_mono [OF this]
  show ?thesis using assms(2) mono
    by (fastforce simp: uthread_pmm_alloc_and_map_def Let_def split_beta bind_Some_iff split: if_splits)
qed

text \<open>The application between its loading and its first unmapping.\<close>

inductive app_run :: "sys \<Rightarrow> bool" where
  load: "ta_ut app = Some ut \<Longrightarrow> uspace ut \<Longrightarrow> ta_start_brk app = 0 \<Longrightarrow> ta_end_brk app = 0 \<Longrightarrow>
    alloc_address_map paddr0 heap img app = Some (NO_ERROR, img', s_app s) \<Longrightarrow> app_run s"
| env: "app_run s \<Longrightarrow> ta_ut (s_app s) = Some ut \<Longrightarrow>
    app_run (s\<lparr>s_app := (s_app s)\<lparr>ta_ut := Some (ut\<lparr>ut_malloc := ms, ut_arch := rs\<rparr>)\<rparr>\<rparr>)"
| brk: "app_run s \<Longrightarrow> app_run (snd (sys_brk b s))"
| mmap: "app_run s \<Longrightarrow> sys_mmap pages junk uaddr sz flags handle s = Some (r, s') \<Longrightarrow> app_run s'"
| stdwrite: "app_run s \<Longrightarrow> sys_std_write fd p sz s = Some (r, s') \<Longrightarrow> app_run s'"
| prepare_dma: "app_run s \<Longrightarrow> sys_prepare_dma pad uaddr sz flags pmem s = Some (r, s') \<Longrightarrow> app_run s'"
| finish_dma: "app_run s \<Longrightarrow> sys_finish_dma uaddr sz flags s = Some (r, s') \<Longrightarrow> app_run s'"
| gettime: "app_run s \<Longrightarrow> app_run (snd (sys_gettime now clock_id flags time s))"
| nanosleep: "app_run s \<Longrightarrow> app_run (snd (sys_nanosleep clock_id flags lo hi s))"

definition brk_ok :: "trusty_app \<Rightarrow> bool" where
  "brk_ok app \<longleftrightarrow> (\<exists>ut. ta_ut app = Some ut \<and> uspace ut \<and> ta_start_brk app \<le> ta_cur_brk app \<and>
     ta_cur_brk app \<le> ta_end_brk app \<and> brk_mapped (set (ut_maps ut)) (ta_start_brk app) (ta_end_brk app))"

lemma brk_mapped_mono: "brk_mapped ms s e \<Longrightarrow> ms \<subseteq> ns \<Longrightarrow> brk_mapped ns s e"
  unfolding brk_mapped_def by blast

lemma brk_ok_grow:
  assumes "brk_ok app" "ta_ut app = Some ut" "uspace ut'" "set (ut_maps ut) \<subseteq> set (ut_maps ut')"
  shows "brk_ok (app\<lparr>ta_ut := Some ut'\<rparr>)"
  using assms brk_mapped_mono by (auto simp: brk_ok_def)

lemma setup_mmio_brk:
  assumes "brk_ok app" "trusty_app_setup_mmio img app i v n = Some (r, va, app')"
  shows "brk_ok app'"
proof (cases "app' = app")
  case False
  obtain blob res where b: "rd_words img (pr_config_blob (ta_props app)) (unat (pr_config_entry_cnt (ta_props app))) = Some blob"
      "mmio_loop blob i = Some res"
    using assms(2) by (auto simp: trusty_app_setup_mmio_def bind_Some_iff)
  obtain off sz where res: "res = Some (off, sz)"
    using assms(2) b False by (cases res) (auto simp: trusty_app_setup_mmio_def)
  obtain ut ut' where u: "ta_ut app = Some ut" "app' = app\<lparr>ta_ut := Some ut'\<rparr>"
      "uthread_map_contig v (ucast off) (ucast (roundup_u32 n 4096)) ((UTM_W OR UTM_R) OR UTM_IO) (ucast UT_MAP_ALIGN_4KB) ut =
        Some (r, va, ut')"
    using assms(2) b False unfolding res
    by (auto simp: trusty_app_setup_mmio_def bind_Some_iff Let_def split: if_splits)
  moreover have "uspace ut" using assms(1) u(1) by (auto simp: brk_ok_def)
  ultimately show ?thesis
    using brk_ok_grow [OF assms(1) u(1)] uspace.map_op [OF _ u(3) [unfolded uthread_map_contig_def]]
      uthread_map_op_mono [OF uspace_maps_ok u(3) [unfolded uthread_map_contig_def]] by blast
qed (use assms(1) in simp)

lemma dma_loop_app: "dma_loop pad uaddr sz flags pmem mapped entries s = Some (x, s') \<Longrightarrow> s_app s' = s_app s"
proof (induction pad uaddr sz flags pmem mapped entries s rule: dma_loop.induct)
  case (1 pad uaddr sz flags pmem mapped entries s)
  obtain ut ret pa where v: "ta_ut (s_app s) = Some ut" "uthread_virt_to_phys ut (ucast uaddr + ucast mapped) = Some (ret, pa)"
    using "1.prems" by (subst (asm) dma_loop.simps) (auto split: option.splits)
  define psz where "psz = block_size (sz - mapped) pa"
  obtain r' m where c: "copy_to_user (s_umem s) pmem (dma_pmem_bytes pa psz pad) = (r', m)" by fastforce
  show ?case
  proof (cases "ret = NO_ERROR \<and> r' = NO_ERROR \<and> mapped + psz < sz \<and> flags AND DMA_FLAG_MULTI_PMEM \<noteq> 0")
    case True
    then have "dma_loop pad uaddr sz flags (pmem + 16) (mapped + psz) (entries + 1) (s\<lparr>s_umem := m\<rparr>) = Some (x, s')"
      using "1.prems" v c by (subst (asm) dma_loop.simps) (simp add: psz_def)
    from "1.IH" [OF v refl _ psz_def c [symmetric] refl _ _ this] True show ?thesis by simp
  next
    case False
    then show ?thesis using "1.prems" v c
      by (subst (asm) dma_loop.simps) (auto simp: Let_def psz_def split: if_splits)
  qed
qed

lemma app_run_brk_ok: "app_run s \<Longrightarrow> brk_ok (s_app s)"
proof (induction rule: app_run.induct)
  case (load app ut paddr0 heap img img' s)
  have inv: "brk_inv app" using load by (simp add: brk_inv_def)
  obtain img1 app1 where a: "load_segments paddr0 0 (img, app) = Some (NO_ERROR, img1, app1)" "init_brk heap app1 = Some (NO_ERROR, s_app s)"
    using load.hyps(5) by (auto simp: alloc_address_map_def bind_Some_iff err_simps split: if_splits)
  have "brk_inv app1" using load_segments_inv [OF a(1) inv] by simp
  from init_brk_heap [OF this a(2)] show ?case by (auto simp: brk_ok_def)
next
  case (env s ut rs ms)
  then have "uspace ut" by (auto simp: brk_ok_def)
  then show ?case using brk_ok_grow [OF env.IH env.hyps(2) uspace.env] by simp
next
  case (brk s b)
  then show ?case by (auto simp: sys_brk_def Let_def brk_ok_def)
next
  case (mmap s pages junk uaddr sz flags hd r s')
  show ?case
  proof (cases "flags AND MMAP_FLAG_DEVICE_MEM = 0")
    case True
    then show ?thesis using mmap setup_mmio_brk [OF mmap.IH]
      by (auto simp: sys_mmap_def bind_Some_iff split: if_splits)
  next
    case False
    then obtain ut r' va ut' where u: "ta_ut (s_app s) = Some ut" "uthread_pmm_alloc_and_map pages (ucast sz) flags 1 ut = Some (r', va, ut')"
        "s_app s' = (s_app s)\<lparr>ta_ut := Some ut'\<rparr>"
      using mmap.hyps(2) by (auto simp: sys_mmap_def bind_Some_iff Let_def)
    then have "uspace ut" using mmap.IH by (auto simp: brk_ok_def)
    then show ?thesis unfolding u(3)
      using brk_ok_grow [OF mmap.IH u(1) uspace.alloc [OF _ u(2)]] uthread_pmm_mono [OF uspace_maps_ok u(2)] by simp
  qed
next
  case (stdwrite s fd p sz r s')
  then show ?case by (auto simp: sys_std_write_def bind_Some_iff split: if_splits)
next
  case (prepare_dma s pad uaddr sz flags pmem r s')
  have "s_app s' = s_app s"
  proof (cases "s' = s")
    case False
    then obtain x s1 where l: "dma_loop pad uaddr sz flags pmem 0 0 s = Some (x, s1)"
      using prepare_dma.hyps(2) by (auto simp: sys_prepare_dma_def bind_Some_iff split: if_splits)
    then have "s_app s' = s_app s1" using prepare_dma.hyps(2) False
      by (cases x) (auto simp: sys_prepare_dma_def bind_Some_iff Let_def split: if_splits)
    then show ?thesis using dma_loop_app [OF l] by simp
  qed simp
  then show ?case using prepare_dma.IH by simp
next
  case (finish_dma s uaddr sz flags r s')
  then show ?case by (auto simp: sys_finish_dma_def bind_Some_iff split: if_splits)
next
  case (gettime s now clock_id flags time)
  then show ?case by (simp add: sys_gettime_def Let_def split_beta)
next
  case (nanosleep s clock_id flags lo hi)
  then show ?case by (simp add: sys_nanosleep_def Let_def)
qed

text \<open>
  Property C40. Memory below the break is there: from its loading until it first unmaps something, through
  any calls of \<^verbatim>\<open>brk\<close>, \<^verbatim>\<open>mmap\<close>, \<^verbatim>\<open>prepare_dma\<close>, \<^verbatim>\<open>finish_dma\<close>, \<^verbatim>\<open>write\<close>, \<^verbatim>\<open>gettime\<close> and \<^verbatim>\<open>nanosleep\<close> and
  whatever the allocators answer, the break of an application is never below the start of its heap nor above
  the limit of it, and every address from the start of the heap up to the break is mapped.
\<close>

theorem below_break_mapped:
  assumes "app_run s"
  shows "ta_start_brk (s_app s) \<le> ta_cur_brk (s_app s) \<and> ta_cur_brk (s_app s) \<le> ta_end_brk (s_app s) \<and>
    (\<exists>ut. ta_ut (s_app s) = Some ut \<and>
      (\<forall>a. ta_start_brk (s_app s) \<le> a \<and> a < ta_cur_brk (s_app s) \<longrightarrow> uthread_is_valid_range ut a 1))"
proof -
  obtain ut where ut: "ta_ut (s_app s) = Some ut" "uspace ut" "ta_start_brk (s_app s) \<le> ta_cur_brk (s_app s)"
      "ta_cur_brk (s_app s) \<le> ta_end_brk (s_app s)"
      "brk_mapped (set (ut_maps ut)) (ta_start_brk (s_app s)) (ta_end_brk (s_app s))"
    using app_run_brk_ok [OF assms] by (auto simp: brk_ok_def)
  have "uthread_is_valid_range ut a 1" if a: "ta_start_brk (s_app s) \<le> a" "a < ta_cur_brk (s_app s)" for a
  proof -
    obtain m where "m \<in> set (ut_maps ut)" "unat (um_vaddr m) \<le> unat a" "unat a < mend m"
      using ut(4,5) a unfolding brk_mapped_def by (meson order_less_le_trans)
    then show ?thesis by (rule valid_range_1 [OF uspace_maps_ok [OF ut(2)]])
  qed
  then show ?thesis using ut(1,3,4) by blast
qed

text \<open>The application of \<^const>\<open>seg_app\<close> after loading, with the break moved up by 256 bytes.\<close>

definition seg_sys :: sys where
  "seg_sys = dma_sys\<lparr>s_app := (case alloc_address_map 0x80000000 0x90000000 seg_img seg_app of
     Some (_, _, app) \<Rightarrow> app | None \<Rightarrow> zero_app)\<rparr>"

theorem below_break_mapped_witness:
  "ta_cur_brk (s_app (snd (sys_brk 0x9100 seg_sys))) = 0x9100 \<and>
    (\<exists>ut. ta_ut (s_app (snd (sys_brk 0x9100 seg_sys))) = Some ut \<and> uthread_is_valid_range ut 0x90FF 1)"
proof -
  obtain img' app' where r: "alloc_address_map 0x80000000 0x90000000 seg_img seg_app = Some (NO_ERROR, img', app')"
      "ta_start_brk app' = 0x9000" "ta_end_brk app' = 0xB000"
    using loaded_heap_values by blast
  then have s: "s_app seg_sys = app'" by (simp add: seg_sys_def)
  have a: "ta_ut seg_app = Some as_ut" "ta_start_brk seg_app = 0" "ta_end_brk seg_app = 0"
    by (simp_all add: seg_app_def zero_app_def)
  have run: "app_run seg_sys" using app_run.load [OF a(1) as_ut_reached a(2,3), of _ _ _ img' seg_sys] r(1) s by simp
  have "ta_cur_brk (s_app (snd (sys_brk 0x9100 seg_sys))) = 0x9100 \<and> ta_start_brk (s_app (snd (sys_brk 0x9100 seg_sys))) = 0x9000"
    using s r(2,3) by (simp add: sys_brk_def Let_def)
  then show ?thesis using below_break_mapped [OF app_run.brk [OF run], of "0x9100"] by auto
qed

end
