(* ===== verification/Spec2Isabelle.thy ===== *)
theory Spec2Isabelle
  imports Bitmap SecureUart UserMem Iovec MsgQueue Kernel Ipc Handle Uctx Vqueue Lifetime
    Connection Publish Messages Protocol IpcProperties Fairness TipcDev Endpoints Memlog Sm SmEngine LogRing
    VirtioBus SlotTable QlTipc QlProperties TosCalls Camera Uthread AddressSpace
    NsPte PageTable PageTree PageUnmap PageMap PageProperties ArchUthread UserSpace UserProperties UserTranslate
    HwSpace Platform
    AppImage AppLoader AppProperties Syscalls SyscallProperties
begin

text \<open>
  A model of the trusted side of the secure-UART system for the Jetson TX2: the parts of the Trusty
  operating system, as NVIDIA ships it for the t186, through which a normal-world client, a trusted
  application and the secure serial port talk to each other, with the theorems that make them correct.
  Source paths below are relative to \<^verbatim>\<open>src/atf_and_trusty/trusty/trusty/\<close>; \<^verbatim>\<open>LT\<close> stands for
  \<^verbatim>\<open>lk/trusty/lib/trusty\<close>.

  \<^bold>\<open>How the parts work together.\<close>  The monitor hands every call of the normal world to the secure monitor
  library (\<^verbatim>\<open>lk/trusty/lib/sm\<close>), which runs one standard call at a time.  Standard calls reach the virtio
  bus (\<^verbatim>\<open>LT/trusty_virtio.c\<close>) and the secure log (\<^verbatim>\<open>lk/trusty/lib/memlog\<close>).  On the bus sits the Trusty IPC
  device (\<^verbatim>\<open>LT/tipc_dev.c\<close>): two virtqueues in shared memory (\<^verbatim>\<open>LT/vqueue.c\<close>) carry messages between an
  address of the normal world and a channel of the kernel IPC (\<^verbatim>\<open>LT/ipc.c\<close>, \<^verbatim>\<open>ipc_msg.c\<close>, \<^verbatim>\<open>handle.c\<close>).  Beside
  it, \<^verbatim>\<open>LT/tipc_dev_ql.c\<close> bridges to the same IPC with one command per call in a shared buffer.  A
  trusted application owns handles in its user context (\<^verbatim>\<open>LT/uctx.c\<close>), is loaded by \<^verbatim>\<open>LT/trusty_app.c\<close>
  into an address space kept by \<^verbatim>\<open>lk/trusty/lib/uthread\<close>, and calls the kernel through \<^verbatim>\<open>LT/syscall.c\<close>,
  \<^verbatim>\<open>LT/secure_uart.c\<close> and the IPC calls.  The application of this repository is the camera bridge of
  \<^verbatim>\<open>app/nvidia-sample/UART\<close>.

  \<^bold>\<open>Theories, sources, state.\<close>
  \<^item> \<^verbatim>\<open>Prelude\<close>: error codes, \<^verbatim>\<open>ASSERT\<close>, word types, shared lemmas.
  \<^item> \<^verbatim>\<open>Bitmap\<close> (\<^verbatim>\<open>lk/common/include/bits.h\<close>), \<^verbatim>\<open>SlotTable\<close>: slot bitmaps.  The locale \<open>slot_bitmap\<close> is the
    contract the handle table relies on; \<open>slot_table\<close> extends it to a table of addresses, the contract of the
    endpoint tables of both bridges.  Each is interpreted on the code's definitions.
  \<^item> \<^verbatim>\<open>SecureUart\<close> (\<^verbatim>\<open>tegra/public/platform\<close>, \<^verbatim>\<open>LT/secure_uart.c\<close>): the driver as a function of what the
    device registers and the clock will show; what it writes is recorded in order.
  \<^item> \<^verbatim>\<open>UserMem\<close>, \<^verbatim>\<open>Iovec\<close> (\<^verbatim>\<open>LT/iovec.c\<close>): user memory with faults, and the scatter and gather copies.
  \<^item> \<^verbatim>\<open>MsgQueue\<close> (\<^verbatim>\<open>LT/ipc_msg.c\<close>): the queue of a channel, refined to a bounded FIFO with held messages.
  \<^item> \<^verbatim>\<open>Kernel\<close>, \<^verbatim>\<open>Ipc\<close>, \<^verbatim>\<open>Handle\<close>, \<^verbatim>\<open>Uctx\<close>: the objects of the IPC in a store with explicit reference counts
    and reference lists, and every operation on them as a function of the store.
  \<^item> \<^verbatim>\<open>Lifetime\<close>, \<^verbatim>\<open>Connection\<close>, \<^verbatim>\<open>Publish\<close>, \<^verbatim>\<open>Messages\<close>, \<^verbatim>\<open>Protocol\<close>: the invariant of the object graph, its
    preservation by every operation, and the system of all clients as an inductive set of reachable states.
  \<^item> \<^verbatim>\<open>IpcProperties\<close>, \<^verbatim>\<open>Fairness\<close>: what the operations do in reachable states, and that a handle list serves
    every handle that stays ready.
  \<^item> \<^verbatim>\<open>Vqueue\<close> (\<^verbatim>\<open>LT/vqueue.c\<close>): ring layout, fetching and returning buffers, mapping.  Shared memory is a
    stream of snapshots, one for each read, so the other side may change it between two reads.
  \<^item> \<^verbatim>\<open>TipcDev\<close>, \<^verbatim>\<open>Endpoints\<close> (\<^verbatim>\<open>LT/tipc_dev.c\<close>): the device, and its endpoint table as a partial map from
    addresses to remote addresses and channels.
  \<^item> \<^verbatim>\<open>Memlog\<close>, \<^verbatim>\<open>LogRing\<close> (\<^verbatim>\<open>lk/trusty/lib/memlog\<close>): the log ring and its registration.
  \<^item> \<^verbatim>\<open>Sm\<close>, \<^verbatim>\<open>SmEngine\<close> (\<^verbatim>\<open>lk/trusty/lib/sm\<close>): the standard-call engine; every call runs exactly once.
  \<^item> \<^verbatim>\<open>VirtioBus\<close> (\<^verbatim>\<open>LT/trusty_virtio.c\<close>, \<^verbatim>\<open>tipc_config.c\<close>): the bus of each guest.
  \<^item> \<^verbatim>\<open>QlTipc\<close>, \<^verbatim>\<open>QlProperties\<close> (\<^verbatim>\<open>LT/tipc_dev_ql.c\<close>): the second bridge to the IPC, commands in a shared buffer:
    which devices exist and where they write, the table as a map, delivery in both directions.
  \<^item> \<^verbatim>\<open>TosCalls\<close> (\<^verbatim>\<open>LT/smcall.c\<close>, \<^verbatim>\<open>lk/trusty/lib/sm/ns_mem.c\<close>): the calls of the normal world to both bridges, from
    the registers on, and which memory they can make the kernel map.
  \<^item> \<^verbatim>\<open>Uthread\<close>, \<^verbatim>\<open>AddressSpace\<close> (\<^verbatim>\<open>lk/trusty/lib/uthread\<close>): the mappings of a thread, their invariant over all
    reachable address spaces, first fit, and translation after mapping and unmapping.
  \<^item> \<^verbatim>\<open>PageTable\<close> (\<^verbatim>\<open>lk/common/arch/arm64/mmu.c\<close>): the page tables of the processor as objects in memory, every
    function of the file.  \<^verbatim>\<open>PageTree\<close> has the tree that a table in memory stands for, \<^verbatim>\<open>PageUnmap\<close> and \<^verbatim>\<open>PageMap\<close>
    that unmapping and mapping refine the removal and the insertion of a range in it, and \<^verbatim>\<open>PageProperties\<close> what
    that means for the walk of the hardware over the memory.
  \<^item> \<^verbatim>\<open>ArchUthread\<close> (\<^verbatim>\<open>lk/trusty/lib/uthread/arch/arm64\<close>), \<^verbatim>\<open>UserSpace\<close>, \<^verbatim>\<open>UserProperties\<close>, \<^verbatim>\<open>UserTranslate\<close>: the
    tables of a user thread: all-or-nothing mapping, the rights of its pages, giving all tables back, agreement
    of \<^verbatim>\<open>uthread_virt_to_phys\<close> with the hardware, and pages of the normal world.  \<^verbatim>\<open>NsPte\<close> takes the entries apart
    with which the normal world describes its pages.
  \<^item> \<^verbatim>\<open>HwSpace\<close>: \<^verbatim>\<open>Uthread\<close> and \<^verbatim>\<open>ArchUthread\<close> together.  Creation, mapping and unmapping act on the list and on the
    tables; their list part refines \<^verbatim>\<open>Uthread\<close>, and in all reachable states the hardware reaches only what is listed.
  \<^item> \<^verbatim>\<open>Platform\<close> (\<^verbatim>\<open>tegra/public/platform\<close>): boot parameters, the one mapping of the encrypted keys, and which
    physical ranges of the normal world are accepted.
  \<^item> \<^verbatim>\<open>AppImage\<close>, \<^verbatim>\<open>AppLoader\<close>, \<^verbatim>\<open>AppProperties\<close> (\<^verbatim>\<open>LT/trusty_app.c\<close>): the boot loop over the bytes of the image,
    the manifest as a language, I/O regions, and the heap of a loaded application.
  \<^item> \<^verbatim>\<open>Syscalls\<close>, \<^verbatim>\<open>SyscallProperties\<close> (\<^verbatim>\<open>LT/syscall.c\<close>): memory, DMA and descriptor calls.
  \<^item> \<^verbatim>\<open>Camera\<close> (\<^verbatim>\<open>app/nvidia-sample/UART\<close>): the application's message handling.

  \<^bold>\<open>Conventions.\<close>  An operation that can panic has an optional result: \<^term>\<open>None\<close> is a failed \<^verbatim>\<open>ASSERT\<close>, an
  explicit panic, a NULL or dangling pointer or an access out of bounds.  \<^verbatim>\<open>DEBUG_ASSERT\<close> is treated the same
  in the IPC theories, although the release build compiles it out, so their absence of panics is the stronger
  statement; the findings rely on accesses and plain assertions only, and \<^verbatim>\<open>Uthread\<close> leaves debug assertions
  out.  Error codes are integers.  Machine integers are words of their width; sizes that cannot wrap are
  natural numbers.  Locks are not modelled: an operation under a lock is one step, and other threads act
  between steps (waiting takes them as an environment).  Allocation, device registers and clocks
  answer from streams in the state, so the theorems hold for every sequence of answers; in \<^verbatim>\<open>Uthread\<close> so do
  the calls of the page-table code, while \<^verbatim>\<open>ArchUthread\<close> runs that code on the tables in memory.  The allocator
  of page tables is a function in the state with the contract \<open>alloc_ok\<close>: it gives out free aligned pages.

  \<^bold>\<open>Fuel.\<close>  Polling loops consume the observations they are given and are \<^term>\<open>None\<close> when these run out; that the
  UART driver returns is proved for a clock that advances.  The loop over a descriptor chain is bounded by the
  ring size as in the code, the scan for the end of a user string by the \<open>2 ^ 32\<close> user addresses, the loops of
  \<^verbatim>\<open>strtoul\<close> by the length of the image.  The boot loop, the loop over program headers and the DMA loop
  terminate by measures: free entries of the application table, headers left, bytes left; the page-table
  functions recurse on the level of a table and loop on the size that is left.

  \<^bold>\<open>Not modelled.\<close>  The LK scheduler, its virtual memory regions (\<^verbatim>\<open>vmm\<close>, \<^verbatim>\<open>pmm\<close>) and allocator; the page-table
  code of 32-bit ARM, which the t186 build does not contain; TLB contents and barriers; the assembly of the monitor and of the entry
  and copy routines (user copies are modelled by what they store before a fault); CPU hotplug and interrupt
  routing in \<^verbatim>\<open>sm.c\<close>; the debug console, of which the secure port is a copy; the other applications, key
  management and samples; the hypervisor's checks, which are stubs in this repository; vendor cryptography, ARM Trusted Firmware, CBoot, register
  headers and the Linux side, which the repository only carries along.
\<close>

end
